(* ===== verification/Prelude.thy ===== *)
theory Prelude
  imports Main "HOL-Library.Word"
begin

text \<open>
  The shared vocabulary of the development: bytes and Python strings, errors as values,
  big-endian integers (\<open>struct.pack\<close> and \<open>struct.unpack\<close> with a \<open>>\<close> format),
  the codec locale under which every encoder/decoder pair of the code is verified, and the
  locale of step invariants under which its stateful components are.
\<close>

section \<open>Bytes, strings, results\<close>

type_synonym bytes = "8 word list"

text \<open>A Python \<open>str\<close> is a list of code points.\<close>

type_synonym ustr = "nat list"

definition lit :: "string \<Rightarrow> ustr" where
  "lit s = map of_char s"

lemma lit_eq_iff [simp]: "lit s = lit t \<longleftrightarrow> s = t"
  unfolding lit_def by (rule inj_map_eq_map) (rule inj_of_char)

lemma length_lit [simp]: "length (lit s) = length s"
  by (simp add: lit_def)

lemma lit_Nil_iff [simp]: "lit s = [] \<longleftrightarrow> s = []" "[] = lit s \<longleftrightarrow> s = []"
  by (auto simp: lit_def)

text \<open>An ASCII literal as bytes: the \<open>b"..."\<close> literals of the code.\<close>

definition blit :: "string \<Rightarrow> bytes" where
  "blit s = map of_char s"

lemma length_blit [simp]: "length (blit s) = length s"
  by (simp add: blit_def)

definition rbind :: "'e + 'a \<Rightarrow> ('a \<Rightarrow> 'e + 'b) \<Rightarrow> 'e + 'b" where
  "rbind m f = (case m of Inl e \<Rightarrow> Inl e | Inr x \<Rightarrow> f x)"

lemma rbind_simps [simp]:
  "rbind (Inl e) f = Inl e" "rbind (Inr x) f = f x"
  by (simp_all add: rbind_def)

lemma rbind_Inr_iff [simp]:
  "rbind m f = Inr y \<longleftrightarrow> (\<exists>x. m = Inr x \<and> f x = Inr y)"
  by (cases m) auto

lemma rbind_Inl_iff:
  "rbind m f = Inl e \<longleftrightarrow> m = Inl e \<or> (\<exists>x. m = Inr x \<and> f x = Inl e)"
  by (cases m) auto

section \<open>Lists\<close>

named_theorems split_facts \<open>cancelling equal-length pieces of concatenations\<close>

lemma append_same_length [split_facts]:
  "length xs = length us \<Longrightarrow> xs @ ys = us @ vs \<longleftrightarrow> xs = us \<and> ys = vs"
  by (rule append_eq_append_conv) simp

lemma append_same_length_right [split_facts]:
  "length ys = length vs \<Longrightarrow> xs @ ys = us @ vs \<longleftrightarrow> xs = us \<and> ys = vs"
  by simp

lemma take_append_exact [simp]: "length xs = n \<Longrightarrow> take n (xs @ ys) = xs"
  by simp

lemma drop_append_exact [simp]: "length xs = n \<Longrightarrow> drop n (xs @ ys) = ys"
  by simp

lemma map_of_distinct_keys:
  "distinct (map fst kvs) \<Longrightarrow> (k, v) \<in> set kvs \<Longrightarrow> map_of kvs k = Some v"
  by simp

lemma map_of_snoc_fresh:
  "k \<notin> fst ` set kvs \<Longrightarrow> map_of (kvs @ [(k, v)]) j = (if j = k then Some v else map_of kvs j)"
  by (auto simp: map_add_def map_of_eq_None_iff[symmetric] split: option.splits)

lemma strict_sorted_filter_subset:
  fixes xs ys :: "'a::linorder list"
  assumes "sorted_wrt (<) xs" "sorted_wrt (<) ys" "set xs \<subseteq> set ys"
  shows "filter (\<lambda>y. y \<in> set xs) ys = xs"
proof (rule strict_sorted_equal)
  show "sorted_wrt (<) (filter (\<lambda>y. y \<in> set xs) ys)"
    using assms(2) by (rule sorted_wrt_filter)
  show "set (filter (\<lambda>y. y \<in> set xs) ys) = set xs"
    using assms(3) by auto
qed (rule assms(1))

section \<open>Big-endian integers\<close>

text \<open>One byte of a natural number: \<open>bytes([n])\<close> for \<open>n < 256\<close>.\<close>

definition byte :: "nat \<Rightarrow> 8 word" where
  "byte n = of_nat n"

lemma unat_byte_lt [simp]: "unat (b :: 8 word) < 256"
  using unsigned_less [of b] by simp

lemma unat_byte: "unat (byte n) = n mod 256"
  by (simp add: byte_def unat_of_nat)

lemma unat_byte_fits [simp]: "n < 256 \<Longrightarrow> unat (byte n) = n"
  by (simp add: unat_byte)

lemma byte_unat [simp]: "byte (unat b) = b"
  by (simp add: byte_def)

lemma byte_eqI: "unat b = n \<Longrightarrow> byte n = b"
  by (metis byte_unat)

lemma byte_inject: "m < 256 \<Longrightarrow> n < 256 \<Longrightarrow> byte m = byte n \<longleftrightarrow> m = n"
  by (metis unat_byte_fits)

lemma byte_mod: "byte (n mod 256) = byte n"
  by (rule byte_eqI) (simp add: unat_byte)

text \<open>
  \<open>struct.pack(">B" / ">H" / ">I" / ">Q", n)\<close> is \<open>be_encode\<close> at width 1, 2, 4, 8;
  it raises when \<open>n\<close> does not fit, which the models test first. \<open>struct.unpack\<close> and
  \<open>int.from_bytes(b, "big")\<close> are \<open>be_decode\<close>.
\<close>

fun be_encode :: "nat \<Rightarrow> nat \<Rightarrow> bytes" where
  "be_encode 0 n = []"
| "be_encode (Suc w) n = be_encode w (n div 256) @ [byte n]"

definition be_decode :: "bytes \<Rightarrow> nat" where
  "be_decode bs = foldl (\<lambda>n b. n * 256 + unat b) 0 bs"

lemma be_decode_simps [simp]:
  "be_decode [] = 0" "be_decode (bs @ [b]) = be_decode bs * 256 + unat b"
  by (simp_all add: be_decode_def)

lemma be_decode_singleton [simp]: "be_decode [b] = unat b"
  by (simp add: be_decode_def)

lemma length_be_encode [simp]: "length (be_encode w n) = w"
  by (induction w arbitrary: n) auto

lemma be_decode_encode: "be_decode (be_encode w n) = n mod 256 ^ w"
proof (induction w arbitrary: n)
  case (Suc w)
  have "n mod 256 ^ Suc w = 256 * (n div 256 mod 256 ^ w) + n mod 256"
    by (simp add: mod_mult2_eq)
  then show ?case by (simp add: Suc.IH unat_byte mult.commute)
qed simp

lemma be_decode_encode_fits [simp]: "n < 256 ^ w \<Longrightarrow> be_decode (be_encode w n) = n"
  by (simp add: be_decode_encode)

lemma be_decode_lt: "be_decode bs < 256 ^ length bs"
proof (induction bs rule: rev_induct)
  case (snoc b bs)
  have "be_decode bs * 256 + unat b < (be_decode bs + 1) * 256" by simp
  also have "\<dots> \<le> 256 ^ length bs * 256"
    using snoc.IH by (intro mult_right_mono) auto
  finally show ?case by (simp add: mult.commute)
qed simp

lemma be_encode_decode: "length bs = w \<Longrightarrow> be_encode w (be_decode bs) = bs"
proof (induction bs arbitrary: w rule: rev_induct)
  case (snoc b bs)
  then have w: "w = Suc (length bs)" by simp
  have "(be_decode bs * 256 + unat b) div 256 = be_decode bs" by simp
  moreover have "byte (be_decode bs * 256 + unat b) = b"
    by (subst byte_mod [symmetric]) simp
  ultimately show ?case using snoc.IH by (simp add: w)
qed simp

lemma be_decode_lt_width: "length bs = w \<Longrightarrow> be_decode bs < 256 ^ w"
  using be_decode_lt [of bs] by auto

section \<open>Codecs\<close>

text \<open>
  The contract of an encoder and its decoder: a valid value decodes from its encoding, and
  the decoder accepts nothing but encodings of valid values. The second law is what makes an
  encoding canonical, so that a signature over the bytes is a signature over the value.
\<close>

locale codec =
  fixes valid :: "'a \<Rightarrow> bool"
    and enc :: "'a \<Rightarrow> 'b list"
    and dec :: "'b list \<Rightarrow> 'a option"
  assumes dec_enc: "valid x \<Longrightarrow> dec (enc x) = Some x"
    and dec_canonical: "dec bs = Some x \<Longrightarrow> valid x \<and> enc x = bs"
begin

lemma enc_inject: "valid x \<Longrightarrow> valid y \<Longrightarrow> enc x = enc y \<Longrightarrow> x = y"
  by (metis dec_enc option.inject)

lemma dec_inject: "dec bs = Some x \<Longrightarrow> dec cs = Some x \<Longrightarrow> bs = cs"
  using dec_canonical by metis

lemma dec_Some_iff: "dec bs = Some x \<longleftrightarrow> valid x \<and> enc x = bs"
  using dec_enc dec_canonical by metis

lemma dec_None_iff: "dec bs = None \<longleftrightarrow> (\<forall>x. valid x \<longrightarrow> enc x \<noteq> bs)"
  by (metis dec_Some_iff not_Some_eq)

end

text \<open>The fixed-width integers are such a codec at every width.\<close>

definition be_read :: "nat \<Rightarrow> bytes \<Rightarrow> nat option" where
  "be_read w bs = (if length bs = w then Some (be_decode bs) else None)"

interpretation be_codec: codec "\<lambda>n. n < 256 ^ w" "be_encode w" "be_read w" for w
  by unfold_locales
    (auto simp: be_read_def be_decode_lt_width be_encode_decode split: if_splits)

section \<open>Step invariants\<close>

text \<open>
  A component that takes commands one at a time: every command preserves the invariant, so
  every run does.
\<close>

locale stepper =
  fixes step :: "'s \<Rightarrow> 'c \<Rightarrow> 's"
    and inv :: "'s \<Rightarrow> bool"
  assumes step_inv: "inv s \<Longrightarrow> inv (step s c)"
begin

lemma run_inv: "inv s \<Longrightarrow> inv (foldl step s cs)"
  by (induction cs arbitrary: s) (auto intro: step_inv)

end

end
