(* ===== verification/Utf8.thy ===== *)
theory Utf8
  imports Prelude
begin

text \<open>
  Python's \<open>str.encode("utf-8")\<close> and strict \<open>bytes.decode("utf-8")\<close>: code points above
  U+10FFFF and surrogates have no encoding (\<open>UnicodeEncodeError\<close>), and overlong,
  truncated or surrogate sequences do not decode (\<open>UnicodeDecodeError\<close>); both are
  \<open>None\<close>. The pair is interpreted as a codec: UTF-8 text has one spelling in bytes.
\<close>

definition scalar :: "nat \<Rightarrow> bool" where
  "scalar c \<longleftrightarrow> c < 0x110000 \<and> \<not> (0xD800 \<le> c \<and> c \<le> 0xDFFF)"

definition utf8_char :: "nat \<Rightarrow> bytes" where
  "utf8_char c =
     (if c < 0x80 then [byte c]
      else if c < 0x800 then [byte (0xC0 + c div 64), byte (0x80 + c mod 64)]
      else if c < 0x10000 then
        [byte (0xE0 + c div 4096), byte (0x80 + c div 64 mod 64), byte (0x80 + c mod 64)]
      else [byte (0xF0 + c div 262144), byte (0x80 + c div 4096 mod 64),
            byte (0x80 + c div 64 mod 64), byte (0x80 + c mod 64)])"

definition utf8_raw :: "ustr \<Rightarrow> bytes" where
  "utf8_raw s = concat (map utf8_char s)"

definition utf8_encode :: "ustr \<Rightarrow> bytes option" where
  "utf8_encode s = (if list_all scalar s then Some (utf8_raw s) else None)"

text \<open>A continuation byte and its six bits.\<close>

definition cont :: "8 word \<Rightarrow> nat option" where
  "cont b = (if 0x80 \<le> unat b \<and> unat b < 0xC0 then Some (unat b - 0x80) else None)"

fun conts :: "nat \<Rightarrow> nat \<Rightarrow> bytes \<Rightarrow> (nat \<times> bytes) option" where
  "conts 0 acc r = Some (acc, r)"
| "conts (Suc k) acc [] = None"
| "conts (Suc k) acc (b # r) =
     (case cont b of None \<Rightarrow> None | Some d \<Rightarrow> conts k (acc * 64 + d) r)"

definition check_char :: "nat \<Rightarrow> (nat \<times> bytes) option \<Rightarrow> (nat \<times> bytes) option" where
  "check_char least m =
     (case m of None \<Rightarrow> None
      | Some (c, r) \<Rightarrow> if least \<le> c \<and> scalar c then Some (c, r) else None)"

definition utf8_next :: "bytes \<Rightarrow> (nat \<times> bytes) option" where
  "utf8_next bs =
     (case bs of [] \<Rightarrow> None
      | b # r \<Rightarrow>
          let n = unat b in
          if n < 0x80 then Some (n, r)
          else if n < 0xC0 then None
          else if n < 0xE0 then check_char 0x80 (conts (Suc 0) (n - 0xC0) r)
          else if n < 0xF0 then check_char 0x800 (conts (Suc (Suc 0)) (n - 0xE0) r)
          else if n < 0xF8 then check_char 0x10000 (conts (Suc (Suc (Suc 0))) (n - 0xF0) r)
          else None)"

lemma conts_length: "conts k acc bs = Some (c, r) \<Longrightarrow> length r \<le> length bs"
  by (induction k acc bs rule: conts.induct) (auto split: option.splits)

lemma utf8_next_shorter: "utf8_next bs = Some (c, r) \<Longrightarrow> length r < length bs"
  by (auto simp: utf8_next_def check_char_def Let_def less_Suc_eq_le dest!: conts_length
      split: list.splits if_splits option.splits prod.splits)

function utf8_decode :: "bytes \<Rightarrow> ustr option" where
  "utf8_decode bs =
     (if bs = [] then Some []
      else case utf8_next bs of None \<Rightarrow> None
           | Some (c, r) \<Rightarrow> map_option (Cons c) (utf8_decode r))"
  by pat_completeness auto
termination
  by (relation "measure length") (auto dest: utf8_next_shorter)

declare utf8_decode.simps [simp del]

section \<open>One character\<close>

lemma cont_byte [simp]: "d < 64 \<Longrightarrow> cont (byte (0x80 + d)) = Some d"
  by (simp add: cont_def)

lemma cont_SomeD: "cont b = Some d \<Longrightarrow> d < 64 \<and> b = byte (0x80 + d)"
  by (auto simp: cont_def split: if_splits intro!: byte_eqI [symmetric])

lemma scalar_lt: "scalar c \<Longrightarrow> c < 0x110000"
  by (simp add: scalar_def)

lemma split64:
  assumes "e < (64 :: nat)"
  shows "(x * 64 + e) div 64 = x" "(x * 64 + e) mod 64 = e"
  using assms by simp_all

lemma utf8_char_2:
  "d < 64 \<Longrightarrow> 0x80 \<le> a * 64 + d \<Longrightarrow> a < 32 \<Longrightarrow>
    utf8_char (a * 64 + d) = [byte (0xC0 + a), byte (0x80 + d)]"
  by (simp add: utf8_char_def)

lemma utf8_char_3:
  assumes "d < 64" "e < 64" "a < 16" "0x800 \<le> (a * 64 + d) * 64 + e"
  shows "utf8_char ((a * 64 + d) * 64 + e) = [byte (0xE0 + a), byte (0x80 + d), byte (0x80 + e)]"
proof -
  define c where "c = (a * 64 + d) * 64 + e"
  have c: "c div 64 = a * 64 + d" "c mod 64 = e"
    unfolding c_def using assms by (intro split64; simp)+
  then have "c div 4096 = a"
    using assms div_mult2_eq [of c 64 64] by simp
  moreover have "0x800 \<le> c" "c < 0x10000"
    using assms by (simp_all add: c_def)
  ultimately show ?thesis
    unfolding c_def [symmetric] using c assms by (simp add: utf8_char_def)
qed

lemma utf8_char_4:
  assumes "d < 64" "e < 64" "f < 64" "0x10000 \<le> ((a * 64 + d) * 64 + e) * 64 + f"
  shows "utf8_char (((a * 64 + d) * 64 + e) * 64 + f) =
    [byte (0xF0 + a), byte (0x80 + d), byte (0x80 + e), byte (0x80 + f)]"
proof -
  define c where "c = ((a * 64 + d) * 64 + e) * 64 + f"
  have c: "c div 64 = (a * 64 + d) * 64 + e" "c mod 64 = f"
    unfolding c_def using assms by (intro split64; simp)+
  have c': "c div 4096 = a * 64 + d"
    using c split64 [of e "a * 64 + d"] assms div_mult2_eq [of c 64 64] by simp
  have "c div 262144 = a"
    using c' assms div_mult2_eq [of c 4096 64] by simp
  moreover have "0x10000 \<le> c"
    using assms by (simp add: c_def)
  moreover have "c div 64 mod 64 = e"
    using c(1) split64 [of e "a * 64 + d"] assms by simp
  ultimately show ?thesis
    unfolding c_def [symmetric] using c' c(2) assms by (simp add: utf8_char_def)
qed

lemma scalar_parts:
  fixes c :: nat
  shows "c = c div 64 * 64 + c mod 64"
    "c = (c div 4096 * 64 + c div 64 mod 64) * 64 + c mod 64"
    "c = ((c div 262144 * 64 + c div 4096 mod 64) * 64 + c div 64 mod 64) * 64 + c mod 64"
  using div_mult2_eq [of c 64 64] div_mult2_eq [of c 4096 64] by simp_all

lemma utf8_next_char:
  assumes "scalar c"
  shows "utf8_next (utf8_char c @ r) = Some (c, r)"
proof -
  note lt = scalar_lt [OF assms]
  consider "c < 0x80" | "0x80 \<le> c" "c < 0x800" | "0x800 \<le> c" "c < 0x10000" | "0x10000 \<le> c"
    by linarith
  then show ?thesis
  proof cases
    case 1
    then show ?thesis by (simp add: utf8_char_def utf8_next_def)
  next
    case 2
    have a: "c div 64 < 32" "2 \<le> c div 64"
      using 2 by (simp_all add: less_mult_imp_div_less)
    have "conts (Suc 0) (c div 64) (byte (0x80 + c mod 64) # r) = Some (c, r)"
      by simp
    with 2 a assms show ?thesis
      by (simp add: utf8_char_def utf8_next_def Let_def check_char_def del: conts.simps)
  next
    case 3
    have a: "c div 4096 < 16"
      using 3 by (simp add: less_mult_imp_div_less)
    have "conts (Suc (Suc 0)) (c div 4096)
        (byte (0x80 + c div 64 mod 64) # byte (0x80 + c mod 64) # r) = Some (c, r)"
      using scalar_parts(2) [of c] by simp
    with 3 a assms show ?thesis
      by (simp add: utf8_char_def utf8_next_def Let_def check_char_def del: conts.simps)
  next
    case 4
    have a: "c div 262144 < 8"
      using lt by (simp add: less_mult_imp_div_less)
    have "conts (Suc (Suc (Suc 0))) (c div 262144) (byte (0x80 + c div 4096 mod 64) #
        byte (0x80 + c div 64 mod 64) # byte (0x80 + c mod 64) # r) = Some (c, r)"
      using scalar_parts(3) [of c] by simp
    with 4 a assms show ?thesis
      by (simp add: utf8_char_def utf8_next_def Let_def check_char_def del: conts.simps)
  qed
qed

lemma byte_of_parts: "n \<le> unat b \<Longrightarrow> byte (n + (unat b - n)) = b"
  by simp

lemma cont_value: "cont b = Some d \<Longrightarrow> d < 64"
  by (drule cont_SomeD) simp

lemma conts_1D:
  "conts (Suc 0) a bs = Some (c, r) \<Longrightarrow> \<exists>d < 64. c = a * 64 + d \<and> bs = byte (0x80 + d) # r"
  by (cases bs) (auto split: option.splits dest!: cont_SomeD)

lemma conts_2D:
  "conts (Suc (Suc 0)) a bs = Some (c, r) \<Longrightarrow>
    \<exists>d e. d < 64 \<and> e < 64 \<and> c = (a * 64 + d) * 64 + e \<and> bs = byte (0x80 + d) # byte (0x80 + e) # r"
  by (cases bs) (fastforce split: option.splits dest!: cont_SomeD conts_1D)+

lemma conts_3D:
  "conts (Suc (Suc (Suc 0))) a bs = Some (c, r) \<Longrightarrow>
    \<exists>d e f. d < 64 \<and> e < 64 \<and> f < 64 \<and> c = ((a * 64 + d) * 64 + e) * 64 + f \<and>
      bs = byte (0x80 + d) # byte (0x80 + e) # byte (0x80 + f) # r"
  by (cases bs) (fastforce split: option.splits dest!: cont_SomeD conts_2D)+

lemma check_charD:
  "check_char least m = Some (c, r) \<Longrightarrow> m = Some (c, r) \<and> least \<le> c \<and> scalar c"
  by (auto simp: check_char_def split: option.splits if_splits)

lemma utf8_next_canonical:
  assumes "utf8_next bs = Some (c, r)"
  shows "scalar c \<and> bs = utf8_char c @ r"
proof (cases bs)
  case Nil
  with assms show ?thesis by (simp add: utf8_next_def)
next
  case (Cons b r')
  define n where "n = unat b"
  have b: "\<And>k. k \<le> n \<Longrightarrow> byte (k + (n - k)) = b"
    by (simp add: n_def)
  consider "n < 0x80" | "0x80 \<le> n" "n < 0xC0" | "0xC0 \<le> n" "n < 0xE0" | "0xE0 \<le> n" "n < 0xF0"
    | "0xF0 \<le> n" "n < 0xF8" | "0xF8 \<le> n" by linarith
  then show ?thesis
  proof cases
    case 1
    with assms Cons have "c = n" "r = r'" by (auto simp: utf8_next_def n_def)
    with 1 Cons show ?thesis by (simp add: utf8_char_def scalar_def n_def)
  next
    case 3
    with assms Cons have "check_char 0x80 (conts (Suc 0) (n - 0xC0) r') = Some (c, r)"
      by (simp add: utf8_next_def n_def Let_def)
    then obtain d where "d < 64" "c = (n - 0xC0) * 64 + d" "r' = byte (0x80 + d) # r"
      "0x80 \<le> c" "scalar c"
      by (auto dest!: check_charD conts_1D)
    with Cons 3 b [of "0xC0"] utf8_char_2 [of d "n - 0xC0"] show ?thesis by simp
  next
    case 4
    with assms Cons have "check_char 0x800 (conts (Suc (Suc 0)) (n - 0xE0) r') = Some (c, r)"
      by (simp add: utf8_next_def n_def Let_def)
    then obtain d e where "d < 64" "e < 64" "c = ((n - 0xE0) * 64 + d) * 64 + e"
      "r' = byte (0x80 + d) # byte (0x80 + e) # r" "0x800 \<le> c" "scalar c"
      by (auto dest!: check_charD conts_2D)
    with Cons 4 b [of "0xE0"] utf8_char_3 [of d e "n - 0xE0"] show ?thesis by simp
  next
    case 5
    with assms Cons have "check_char 0x10000 (conts (Suc (Suc (Suc 0))) (n - 0xF0) r') = Some (c, r)"
      by (simp add: utf8_next_def n_def Let_def)
    then obtain d e f where "d < 64" "e < 64" "f < 64"
      "c = (((n - 0xF0) * 64 + d) * 64 + e) * 64 + f"
      "r' = byte (0x80 + d) # byte (0x80 + e) # byte (0x80 + f) # r" "0x10000 \<le> c" "scalar c"
      by (auto dest!: check_charD conts_3D)
    with Cons 5 b [of "0xF0"] utf8_char_4 [of d e f "n - 0xF0"] show ?thesis by simp
  qed (use assms Cons in \<open>simp_all add: utf8_next_def n_def Let_def\<close>)
qed

section \<open>Whole strings\<close>

lemma utf8_char_not_Nil [simp]: "utf8_char c \<noteq> []"
  by (simp add: utf8_char_def)

lemma utf8_raw_simps [simp]:
  "utf8_raw [] = []" "utf8_raw (c # s) = utf8_char c @ utf8_raw s"
  by (simp_all add: utf8_raw_def)

lemma utf8_decode_raw: "list_all scalar s \<Longrightarrow> utf8_decode (utf8_raw s) = Some s"
proof (induction s)
  case Nil
  then show ?case by (simp add: utf8_decode.simps)
next
  case (Cons c s)
  then show ?case
    by (simp add: utf8_decode.simps [of "utf8_char c @ utf8_raw s"] utf8_next_char)
qed

lemma utf8_decode_canonical: "utf8_decode bs = Some s \<Longrightarrow> list_all scalar s \<and> utf8_raw s = bs"
proof (induction bs arbitrary: s rule: utf8_decode.induct)
  case (1 bs)
  show ?case
  proof (cases "bs = []")
    case True
    with 1 show ?thesis by (simp add: utf8_decode.simps)
  next
    case False
    with "1.prems" obtain c r s' where next_char: "utf8_next bs = Some (c, r)"
      and s': "utf8_decode r = Some s'" and s: "s = c # s'"
      by (subst (asm) utf8_decode.simps) (auto split: option.splits)
    from "1.IH" [OF False next_char refl s'] utf8_next_canonical [OF next_char]
    show ?thesis by (simp add: s)
  qed
qed

interpretation utf8: codec "list_all scalar" utf8_raw utf8_decode
  by unfold_locales (simp_all add: utf8_decode_raw utf8_decode_canonical)

lemma utf8_encode_Some_iff: "utf8_encode s = Some bs \<longleftrightarrow> utf8_decode bs = Some s"
  by (auto simp: utf8_encode_def utf8.dec_Some_iff)

lemma utf8_decode_Nil [simp]: "utf8_decode [] = Some []"
  by (simp add: utf8_decode.simps)

text \<open>ASCII text is its own encoding.\<close>

definition ascii :: "ustr \<Rightarrow> bool" where
  "ascii s = list_all (\<lambda>c. c < 0x80) s"

lemma ascii_scalar: "ascii s \<Longrightarrow> list_all scalar s"
  by (auto simp: ascii_def scalar_def list_all_iff)

lemma utf8_raw_ascii: "ascii s \<Longrightarrow> utf8_raw s = map byte s"
  by (induction s) (auto simp: ascii_def utf8_char_def)

lemma utf8_encode_ascii: "ascii s \<Longrightarrow> utf8_encode s = Some (map byte s)"
  by (simp add: utf8_encode_def ascii_scalar utf8_raw_ascii)

lemma utf8_decode_ascii: "ascii s \<Longrightarrow> utf8_decode (map byte s) = Some s"
  by (metis utf8_encode_ascii utf8_encode_Some_iff)

lemma length_utf8_raw: "length s \<le> length (utf8_raw s)"
proof (induction s)
  case (Cons c s)
  have "0 < length (utf8_char c)" by (simp only: length_greater_0_conv utf8_char_not_Nil) simp
  with Cons show ?case by (simp del: length_greater_0_conv)
qed simp

end
