(* ===== verification/CardProfile.thy ===== *)
theory CardProfile
  imports Utf8
begin

text \<open>
  The on-card data model, \<open>polaris_card/card_profile.py\<close>: the deterministic TLV encoding of
  a card object, its strict decoder, the signing body, building and verifying a card, and the
  bytes a card signs at presentation. SHA3-256 is the parameter \<open>H\<close>; the issuer's signing and
  verification functions are parameters as they are in the code, where they are passed in.
\<close>

section \<open>Values, field dictionaries, errors\<close>

text \<open>
  A field dictionary is an association list in insertion order; \<open>fget\<close> is \<open>dict.get\<close>, with
  \<open>CNone\<close> for a missing key or a stored \<open>None\<close>.
\<close>

datatype cval = CNone | CInt int | CText ustr | CBytes bytes

type_synonym fields = "(string \<times> cval) list"

definition fget :: "fields \<Rightarrow> string \<Rightarrow> cval" where
  "fget f n = (case map_of f n of None \<Rightarrow> CNone | Some v \<Rightarrow> v)"

text \<open>
  A \<open>CardProfileError\<close> carries which refusal it is. Every other exception the code can let
  through (\<open>struct.error\<close>, \<open>TypeError\<close>, \<open>UnicodeEncodeError\<close>, a raising signer) is
  \<open>OtherError\<close>.
\<close>

datatype card_reason =
    ForbiddenFields "string list"
  | UnknownFields "string list"
  | MissingFields "string list"
  | FieldTooLong string
  | TruncatedHeader
  | TruncatedValue nat nat
  | UnknownTag nat
  | DuplicateTag nat
  | OutOfOrderTag nat
  | BadWidth nat nat
  | DocTypeNotUtf8
  | WrongDocType cval
  | WrongVersion cval
  | NoSigner
  | ShortChallenge

datatype card_exn = CardProfileError card_reason | OtherError

definition PROFILE_VERSION :: nat where
  "PROFILE_VERSION = 1"

definition DOC_TYPE :: ustr where
  "DOC_TYPE = lit ''id.polaris.card.1''"

definition BODY_TAGS :: "(nat \<times> string) list" where
  "BODY_TAGS =
     [(0x01, ''profile_version''), (0x02, ''doc_type''), (0x03, ''credential_ref''),
      (0x04, ''issuing_authority''), (0x05, ''activation_sequence''), (0x06, ''predecessor_ref''),
      (0x07, ''issued_at''), (0x08, ''expires_at''), (0x09, ''card_key_classical''),
      (0x0A, ''card_key_pq'')]"

definition SIGNATURE_TAGS :: "(nat \<times> string) list" where
  "SIGNATURE_TAGS = [(0x20, ''issuer_sig_classical''), (0x21, ''issuer_sig_pq'')]"

definition ALL_TAGS :: "(nat \<times> string) list" where
  "ALL_TAGS = BODY_TAGS @ SIGNATURE_TAGS"

definition BODY_NAMES :: "string list" where
  "BODY_NAMES = map snd BODY_TAGS"

definition TAG_NAMES :: "string list" where
  "TAG_NAMES = map snd ALL_TAGS"

definition REQUIRED :: "string list" where
  "REQUIRED =
     [''profile_version'', ''doc_type'', ''credential_ref'', ''issuing_authority'',
      ''activation_sequence'', ''issued_at'', ''expires_at'', ''card_key_classical'']"

definition FORBIDDEN_FIELDS :: "string list" where
  "FORBIDDEN_FIELDS =
     [''token_value'', ''legal_name'', ''date_of_birth'', ''dob'', ''name'', ''given_name'',
      ''family_name'', ''biometric'', ''biometric_template'', ''fingerprint'', ''face'', ''iris'',
      ''duress_code'', ''duress_code_hash'', ''duress_key'', ''duress_pubkey'',
      ''individual_id'', ''physical_serial'', ''address'', ''nationality'']"

abbreviation (input) U8 :: "nat list" where "U8 \<equiv> [0x01]"
abbreviation (input) U32 :: "nat list" where "U32 \<equiv> [0x04, 0x05]"
abbreviation (input) U64 :: "nat list" where "U64 \<equiv> [0x07, 0x08]"
abbreviation (input) HASH32 :: "nat list" where "HASH32 \<equiv> [0x03, 0x06]"
abbreviation (input) TAG_DOC_TYPE :: nat where "TAG_DOC_TYPE \<equiv> 0x02"
abbreviation (input) TAG_CARD_KEY_CLASSICAL :: nat where "TAG_CARD_KEY_CLASSICAL \<equiv> 0x09"
abbreviation (input) TAG_CARD_KEY_PQ :: nat where "TAG_CARD_KEY_PQ \<equiv> 0x0A"

definition CLASSICAL_KEY_LEN :: nat where "CLASSICAL_KEY_LEN = 65"
definition PQ_KEY_LEN :: nat where "PQ_KEY_LEN = 1952"

section \<open>References\<close>

definition credential_ref :: "(bytes \<Rightarrow> bytes) \<Rightarrow> ustr \<Rightarrow> card_exn + bytes" where
  "credential_ref H token_value =
     (case utf8_encode token_value of None \<Rightarrow> Inl OtherError
      | Some t \<Rightarrow> Inr (H (blit ''polaris-card-ref/1'' @ t)))"

definition pairwise_handle :: "(bytes \<Rightarrow> bytes) \<Rightarrow> bytes \<Rightarrow> ustr \<Rightarrow> card_exn + bytes" where
  "pairwise_handle H card_secret reader_scope =
     (case utf8_encode reader_scope of None \<Rightarrow> Inl OtherError
      | Some s \<Rightarrow> Inr (H (blit ''polaris-pairwise/1'' @ card_secret @ s)))"

section \<open>One value\<close>

text \<open>
  Python's \<open>int(v)\<close> on a number, and on ASCII text or bytes: surrounding white space, a sign,
  decimal digits with single underscores between them, at most 4300 digits. Text with a
  non-ASCII character is taken as no number.
\<close>

fun int_digits :: "bool \<Rightarrow> nat list \<Rightarrow> nat \<Rightarrow> nat option" where
  "int_digits prev [] acc = (if prev then Some acc else None)"
| "int_digits prev (c # cs) acc =
     (if 48 \<le> c \<and> c \<le> 57 then int_digits True cs (acc * 10 + (c - 48))
      else if c = 95 \<and> prev then int_digits False cs acc
      else None)"

definition py_space :: "nat \<Rightarrow> bool" where
  "py_space c \<longleftrightarrow> (9 \<le> c \<and> c \<le> 13) \<or> c = 32"

definition py_strip :: "nat list \<Rightarrow> nat list" where
  "py_strip s = rev (dropWhile py_space (rev (dropWhile py_space s)))"

definition int_text :: "nat list \<Rightarrow> int option" where
  "int_text s =
     (let t = py_strip s;
          (sign, ds) = (case t of [] \<Rightarrow> (1, [])
             | c # cs \<Rightarrow> if c = 45 then (- 1, cs) else if c = 43 then (1, cs) else (1, t))
      in if 4300 < length (filter (\<lambda>c. c \<noteq> 95) ds) then None
         else map_option (\<lambda>n. sign * int n) (int_digits False ds 0))"

definition py_int :: "cval \<Rightarrow> int option" where
  "py_int v =
     (case v of CInt n \<Rightarrow> Some n | CText s \<Rightarrow> int_text s
      | CBytes b \<Rightarrow> int_text (map unat b) | CNone \<Rightarrow> None)"

text \<open>\<open>struct.pack(">B" / ">I" / ">Q", int(value))\<close>, which raises out of range.\<close>

definition pack_int :: "nat \<Rightarrow> cval \<Rightarrow> card_exn + bytes" where
  "pack_int w v =
     (case py_int v of None \<Rightarrow> Inl OtherError
      | Some n \<Rightarrow> if 0 \<le> n \<and> nat n < 256 ^ w then Inr (be_encode w (nat n)) else Inl OtherError)"

text \<open>\<open>bytes(value)\<close>: of an integer it is that many zero bytes.\<close>

definition py_bytes :: "cval \<Rightarrow> card_exn + bytes" where
  "py_bytes v =
     (case v of CBytes b \<Rightarrow> Inr b
      | CInt n \<Rightarrow> if n < 0 then Inl OtherError else Inr (replicate (nat n) 0)
      | CText _ \<Rightarrow> Inl OtherError | CNone \<Rightarrow> Inl OtherError)"

definition encode_value :: "nat \<Rightarrow> cval \<Rightarrow> card_exn + bytes" where
  "encode_value tag value =
     (if tag \<in> set U8 then pack_int 1 value
      else if tag \<in> set U32 then pack_int 4 value
      else if tag \<in> set U64 then pack_int 8 value
      else if tag = TAG_DOC_TYPE then
        (case value of CText s \<Rightarrow> (case utf8_encode s of None \<Rightarrow> Inl OtherError | Some b \<Rightarrow> Inr b)
         | _ \<Rightarrow> py_bytes value)
      else py_bytes value)"

definition decode_value :: "nat \<Rightarrow> bytes \<Rightarrow> card_exn + cval" where
  "decode_value tag raw =
     (if tag \<in> set U8 then
        (if length raw \<noteq> 1 then Inl (CardProfileError (BadWidth tag (length raw)))
         else Inr (CInt (int (be_decode raw))))
      else if tag \<in> set U32 then
        (if length raw \<noteq> 4 then Inl (CardProfileError (BadWidth tag (length raw)))
         else Inr (CInt (int (be_decode raw))))
      else if tag \<in> set U64 then
        (if length raw \<noteq> 8 then Inl (CardProfileError (BadWidth tag (length raw)))
         else Inr (CInt (int (be_decode raw))))
      else if tag = TAG_DOC_TYPE then
        (case utf8_decode raw of None \<Rightarrow> Inl (CardProfileError DocTypeNotUtf8)
         | Some s \<Rightarrow> Inr (CText s))
      else if tag \<in> set HASH32 \<and> length raw \<noteq> 32 then
        Inl (CardProfileError (BadWidth tag (length raw)))
      else if tag = TAG_CARD_KEY_CLASSICAL \<and> length raw \<noteq> CLASSICAL_KEY_LEN then
        Inl (CardProfileError (BadWidth tag (length raw)))
      else if tag = TAG_CARD_KEY_PQ \<and> length raw \<noteq> PQ_KEY_LEN then
        Inl (CardProfileError (BadWidth tag (length raw)))
      else Inr (CBytes raw))"

section \<open>The encoding\<close>

definition tlv :: "nat \<Rightarrow> bytes \<Rightarrow> bytes" where
  "tlv tag value = be_encode 1 tag @ be_encode 2 (length value) @ value"

fun encode_loop :: "(nat \<times> string) list \<Rightarrow> fields \<Rightarrow> card_exn + bytes" where
  "encode_loop [] f = Inr []"
| "encode_loop ((tag, name) # ts) f =
     (if fget f name = CNone then encode_loop ts f
      else rbind (encode_value tag (fget f name)) (\<lambda>value.
        if 0xFFFF < length value then Inl (CardProfileError (FieldTooLong name))
        else rbind (encode_loop ts f) (\<lambda>rest. Inr (tlv tag value @ rest))))"

text \<open>
  \<open>encode\<close>. The names a refusal reports are listed in dictionary order, where the code sorts
  them for its message.
\<close>

definition encode :: "fields \<Rightarrow> card_exn + bytes" where
  "encode f =
     (let forbidden = filter (\<lambda>n. n \<in> set FORBIDDEN_FIELDS) (map fst f);
          unknown = filter (\<lambda>n. n \<notin> set TAG_NAMES) (map fst f);
          missing = filter (\<lambda>n. fget f n = CNone) REQUIRED
      in if forbidden \<noteq> [] then Inl (CardProfileError (ForbiddenFields forbidden))
         else if unknown \<noteq> [] then Inl (CardProfileError (UnknownFields unknown))
         else if missing \<noteq> [] then Inl (CardProfileError (MissingFields missing))
         else encode_loop ALL_TAGS f)"

text \<open>The parsing loop: \<open>prev\<close> (the code's \<open>last\<close>) is the last tag read, -1 before the first.\<close>

function decode_loop :: "fields \<Rightarrow> nat list \<Rightarrow> int \<Rightarrow> bytes \<Rightarrow> card_exn + fields" where
  "decode_loop f seen prev blob =
     (if blob = [] then Inr f
      else if length blob < 3 then Inl (CardProfileError TruncatedHeader)
      else
        let tag = be_decode (take 1 blob); len = be_decode (take 2 (drop 1 blob));
            body = drop 3 blob
        in if length body < len then Inl (CardProfileError (TruncatedValue tag len))
           else
             let raw = take len body in
             (case map_of ALL_TAGS tag of
                None \<Rightarrow> Inl (CardProfileError (UnknownTag tag))
              | Some name \<Rightarrow>
                  if tag \<in> set seen then Inl (CardProfileError (DuplicateTag tag))
                  else if int tag \<le> prev then Inl (CardProfileError (OutOfOrderTag tag))
                  else
                    (case decode_value tag raw of
                       Inl e \<Rightarrow> Inl e
                     | Inr v \<Rightarrow> decode_loop (f @ [(name, v)]) (tag # seen) (int tag) (drop len body))))"
  by pat_completeness auto
termination
  by (relation "measure (\<lambda>(f, seen, prev, blob). length blob)") auto

declare decode_loop.simps [simp del]

definition decode :: "bytes \<Rightarrow> card_exn + fields" where
  "decode blob =
     rbind (decode_loop [] [] (- 1) blob) (\<lambda>f.
       let missing = filter (\<lambda>n. n \<notin> fst ` set f) REQUIRED
       in if missing \<noteq> [] then Inl (CardProfileError (MissingFields missing))
          else if fget f ''doc_type'' \<noteq> CText DOC_TYPE then
            Inl (CardProfileError (WrongDocType (fget f ''doc_type'')))
          else if fget f ''profile_version'' \<noteq> CInt (int PROFILE_VERSION) then
            Inl (CardProfileError (WrongVersion (fget f ''profile_version'')))
          else Inr f)"

definition signing_body :: "fields \<Rightarrow> card_exn + bytes" where
  "signing_body f = encode (filter (\<lambda>(k, v). k \<in> set BODY_NAMES) f)"

definition signing_digest :: "(bytes \<Rightarrow> bytes) \<Rightarrow> fields \<Rightarrow> card_exn + bytes" where
  "signing_digest H f = rbind (signing_body f) (\<lambda>b. Inr (H b))"

section \<open>Building and verifying\<close>

record build_args =
  token_value :: ustr
  issuing_authority :: int
  activation_sequence :: int
  issued_at :: int
  expires_at :: int
  card_key_classical :: bytes
  card_key_pq :: "bytes option"
  predecessor_token_value :: "ustr option"

text \<open>A signer takes the digest and returns a signature, or raises (\<open>None\<close>).\<close>

type_synonym signer = "bytes \<Rightarrow> bytes option"

definition add_signature :: "signer option \<Rightarrow> string \<Rightarrow> bytes \<Rightarrow> fields \<Rightarrow> card_exn + fields" where
  "add_signature s name digest f =
     (case s of None \<Rightarrow> Inr f
      | Some sign_fn \<Rightarrow> (case sign_fn digest of None \<Rightarrow> Inl OtherError
                    | Some sig \<Rightarrow> Inr (f @ [(name, CBytes sig)])))"

text \<open>The dictionary before signing: \<open>ref\<close> and \<open>pre\<close> are the two credential references.\<close>

definition base_fields :: "build_args \<Rightarrow> bytes \<Rightarrow> bytes option \<Rightarrow> fields" where
  "base_fields a ref pre =
     [(''profile_version'', CInt (int PROFILE_VERSION)), (''doc_type'', CText DOC_TYPE),
      (''credential_ref'', CBytes ref), (''issuing_authority'', CInt (issuing_authority a)),
      (''activation_sequence'', CInt (activation_sequence a)),
      (''issued_at'', CInt (issued_at a)), (''expires_at'', CInt (expires_at a)),
      (''card_key_classical'', CBytes (card_key_classical a))]
     @ (case card_key_pq a of None \<Rightarrow> [] | Some k \<Rightarrow> [(''card_key_pq'', CBytes k)])
     @ (case pre of None \<Rightarrow> [] | Some r \<Rightarrow> [(''predecessor_ref'', CBytes r)])"

definition predecessor_ref :: "(bytes \<Rightarrow> bytes) \<Rightarrow> build_args \<Rightarrow> card_exn + bytes option" where
  "predecessor_ref H a =
     (case predecessor_token_value a of None \<Rightarrow> Inr None
      | Some p \<Rightarrow> rbind (credential_ref H p) (\<lambda>r. Inr (Some r)))"

definition build_card ::
    "(bytes \<Rightarrow> bytes) \<Rightarrow> build_args \<Rightarrow> signer option \<Rightarrow> signer option \<Rightarrow> card_exn + bytes" where
  "build_card H a sign_classical sign_pq =
     rbind (credential_ref H (token_value a)) (\<lambda>ref.
     rbind (predecessor_ref H a) (\<lambda>pre.
       if sign_classical = None \<and> sign_pq = None then Inl (CardProfileError NoSigner)
       else rbind (signing_digest H (base_fields a ref pre)) (\<lambda>digest.
         rbind (add_signature sign_classical ''issuer_sig_classical'' digest (base_fields a ref pre)) (\<lambda>fc.
         rbind (add_signature sign_pq ''issuer_sig_pq'' digest fc) encode))))"

datatype card_note =
    ParseFailed card_reason | CarriesNoSignature | PqRequired | NoVerifierSupplied
  | SignatureFailed | PastExpiry

record verdict =
  parsed :: bool
  classical_signature :: "bool option"
  post_quantum_signature :: "bool option"
  signatures_agree :: bool
  unexpired :: "bool option"
  authentic :: bool
  vnote :: "card_note option"
  vfields :: "fields option"

definition blank_verdict :: verdict where
  "blank_verdict =
     \<lparr>parsed = False, classical_signature = None, post_quantum_signature = None,
      signatures_agree = False, unexpired = None, authentic = False, vnote = None,
      vfields = None\<rparr>"

type_synonym sig_check = "bytes \<Rightarrow> bytes \<Rightarrow> bool"

text \<open>The check of one signature: run when the card carries it and a verifier was supplied.\<close>

definition check_signature :: "sig_check option \<Rightarrow> bytes \<Rightarrow> cval option \<Rightarrow> bool option" where
  "check_signature verify digest sig =
     (case (verify, sig) of (Some vf, Some (CBytes s)) \<Rightarrow> Some (vf digest s) | _ \<Rightarrow> None)"

text \<open>
  From the signature checks to the verdict: \<open>c\<close> and \<open>p\<close> are the outcomes of the two checks,
  \<open>expires\<close> is \<open>int(fields["expires_at"])\<close>, read only when a time is given.
\<close>

definition card_decision ::
    "bool \<Rightarrow> bool \<Rightarrow> bool option \<Rightarrow> bool option \<Rightarrow> bool \<Rightarrow> int option \<Rightarrow> int option \<Rightarrow> verdict
      \<Rightarrow> card_exn + verdict" where
  "card_decision has_classical has_pq c p require_pq now expires v =
     (if \<not> has_classical \<and> \<not> has_pq then Inr (v\<lparr>vnote := Some CarriesNoSignature\<rparr>)
      else
        let v2 = v\<lparr>classical_signature := c, post_quantum_signature := p\<rparr> in
        if require_pq \<and> \<not> has_pq then Inr (v2\<lparr>vnote := Some PqRequired\<rparr>)
        else if c = None \<and> p = None then Inr (v2\<lparr>vnote := Some NoVerifierSupplied\<rparr>)
        else if c = Some False \<or> p = Some False then Inr (v2\<lparr>vnote := Some SignatureFailed\<rparr>)
        else
          let v3 = v2\<lparr>signatures_agree := True\<rparr> in
          case now of None \<Rightarrow> Inr (v3\<lparr>authentic := True\<rparr>)
          | Some t \<Rightarrow>
              (case expires of None \<Rightarrow> Inl OtherError
               | Some e \<Rightarrow>
                   if t < e then Inr (v3\<lparr>unexpired := Some True, authentic := True\<rparr>)
                   else Inr (v3\<lparr>unexpired := Some False, vnote := Some PastExpiry\<rparr>)))"

definition verify_card ::
    "(bytes \<Rightarrow> bytes) \<Rightarrow> bytes \<Rightarrow> sig_check option \<Rightarrow> sig_check option \<Rightarrow> bool \<Rightarrow> int option
      \<Rightarrow> card_exn + verdict" where
  "verify_card H blob verify_classical verify_pq require_pq now =
     (case decode blob of
        Inl (CardProfileError r) \<Rightarrow> Inr (blank_verdict\<lparr>vnote := Some (ParseFailed r)\<rparr>)
      | Inl OtherError \<Rightarrow> Inl OtherError
      | Inr f \<Rightarrow>
          rbind (signing_digest H f) (\<lambda>digest.
            card_decision (map_of f ''issuer_sig_classical'' \<noteq> None) (map_of f ''issuer_sig_pq'' \<noteq> None)
              (check_signature verify_classical digest (map_of f ''issuer_sig_classical''))
              (check_signature verify_pq digest (map_of f ''issuer_sig_pq''))
              require_pq now (py_int (fget f ''expires_at''))
              (blank_verdict\<lparr>parsed := True,
                 vfields := Some (filter (\<lambda>(k, v). k \<in> set BODY_NAMES) f)\<rparr>)))"

section \<open>Presentation\<close>

definition response_body :: "bytes \<Rightarrow> ustr \<Rightarrow> bytes \<Rightarrow> card_exn + bytes" where
  "response_body challenge reader_scope handle =
     (if length challenge < 16 then Inl (CardProfileError ShortChallenge)
      else if 0xFFFF < length challenge then Inl OtherError
      else case utf8_encode reader_scope of None \<Rightarrow> Inl OtherError
           | Some s \<Rightarrow>
               if 0xFFFF < length s then Inl OtherError
               else Inr (blit ''polaris-card-response/1'' @ be_encode 2 (length challenge) @ challenge
                         @ be_encode 2 (length s) @ s @ handle))"

section \<open>One value decodes from its encoding, and only from it\<close>

definition value_ok :: "nat \<Rightarrow> cval \<Rightarrow> bool" where
  "value_ok tag v =
     (case v of
        CNone \<Rightarrow> False
      | CInt n \<Rightarrow> 0 \<le> n \<and>
          ((tag \<in> set U8 \<and> nat n < 256 ^ 1) \<or> (tag \<in> set U32 \<and> nat n < 256 ^ 4)
           \<or> (tag \<in> set U64 \<and> nat n < 256 ^ 8))
      | CText s \<Rightarrow> tag = TAG_DOC_TYPE \<and> list_all scalar s \<and> length (utf8_raw s) \<le> 0xFFFF
      | CBytes b \<Rightarrow> tag \<notin> set U8 \<union> set U32 \<union> set U64 \<and> tag \<noteq> TAG_DOC_TYPE \<and> length b \<le> 0xFFFF \<and>
          (tag \<in> set HASH32 \<longrightarrow> length b = 32) \<and>
          (tag = TAG_CARD_KEY_CLASSICAL \<longrightarrow> length b = CLASSICAL_KEY_LEN) \<and>
          (tag = TAG_CARD_KEY_PQ \<longrightarrow> length b = PQ_KEY_LEN))"

definition enc_val :: "nat \<Rightarrow> cval \<Rightarrow> bytes" where
  "enc_val tag v =
     (case v of CInt n \<Rightarrow> be_encode (if tag \<in> set U8 then 1 else if tag \<in> set U32 then 4 else 8) (nat n)
      | CText s \<Rightarrow> utf8_raw s | CBytes b \<Rightarrow> b | CNone \<Rightarrow> [])"

lemma encode_value_ok: "value_ok tag v \<Longrightarrow> encode_value tag v = Inr (enc_val tag v)"
  by (auto simp: value_ok_def enc_val_def encode_value_def pack_int_def py_int_def py_bytes_def
      utf8_encode_def split: cval.splits)

lemma decode_value_enc:
  assumes "value_ok tag v"
  shows "decode_value tag (enc_val tag v) = Inr v"
proof (cases v)
  case (CInt n)
  with assms consider "tag \<in> set U8" "nat n < 256 ^ 1" | "tag \<in> set U32" "nat n < 256 ^ 4"
    | "tag \<in> set U64" "nat n < 256 ^ 8"
    by (auto simp: value_ok_def)
  then have "decode_value tag (enc_val tag v) = Inr (CInt (int (nat n)))"
    by cases (auto simp: CInt enc_val_def decode_value_def be_decode_encode_fits simp del: be_encode.simps power_Suc)
  with assms CInt show ?thesis by (simp add: value_ok_def)
qed (use assms in \<open>auto simp: value_ok_def enc_val_def decode_value_def utf8.dec_enc\<close>)

lemma length_enc_val: "value_ok tag v \<Longrightarrow> length (enc_val tag v) \<le> 0xFFFF"
  by (cases v) (simp_all add: value_ok_def enc_val_def split: if_splits)

lemma be_encode_decode_int: "length raw = w \<Longrightarrow> be_encode w (nat (int (be_decode raw))) = raw"
  by (simp add: be_encode_decode)

lemma decode_value_ok:
  assumes "decode_value tag raw = Inr v" and "length raw \<le> 0xFFFF"
  shows "value_ok tag v \<and> enc_val tag v = raw"
proof -
  consider (u8) "tag \<in> set U8" | (u32) "tag \<in> set U32" | (u64) "tag \<in> set U64"
    | (doc) "tag = TAG_DOC_TYPE" | (raw) "tag \<notin> set U8 \<union> set U32 \<union> set U64 \<union> {TAG_DOC_TYPE}"
    by auto
  then show ?thesis
  proof cases
    case doc
    with assms show ?thesis
      by (auto simp: decode_value_def value_ok_def enc_val_def dest: utf8.dec_canonical
          split: option.splits)
  qed (use assms be_decode_lt [of raw] be_encode_decode [of raw] in
      \<open>auto simp: decode_value_def value_ok_def enc_val_def simp del: be_encode.simps split: if_splits\<close>)
qed

section \<open>The encoding is canonical\<close>

definition tag_of :: "string \<Rightarrow> nat" where
  "tag_of n = (case map_of (map prod.swap ALL_TAGS) n of Some t \<Rightarrow> t | None \<Rightarrow> 0)"

lemmas tag_tables = ALL_TAGS_def BODY_TAGS_def SIGNATURE_TAGS_def

lemma tag_table_facts:
  "list_all (\<lambda>(t, n). tag_of n = t) ALL_TAGS"
  "list_all (\<lambda>(t, n). map_of ALL_TAGS t = Some n) ALL_TAGS"
  "list_all (\<lambda>(t, n). t < 256) ALL_TAGS"
  by code_simp+

lemma tag_of_entry: "(t, n) \<in> set ALL_TAGS \<Longrightarrow> tag_of n = t"
  using tag_table_facts(1) by (auto simp: list_all_iff)

lemma name_of_tag: "(t, n) \<in> set ALL_TAGS \<Longrightarrow> map_of ALL_TAGS t = Some n"
  using tag_table_facts(2) by (auto simp: list_all_iff)

lemma tag_lt_256: "(t, n) \<in> set ALL_TAGS \<Longrightarrow> t < 256"
  using tag_table_facts(3) by (auto simp: list_all_iff)

lemma tags_ascend: "sorted_wrt (<) (map fst ALL_TAGS)"
  by (simp add: tag_tables)

lemma distinct_names: "distinct TAG_NAMES"
  by code_simp

lemma tag_names_iff: "n \<in> set TAG_NAMES \<longleftrightarrow> (\<exists>t. (t, n) \<in> set ALL_TAGS)"
  by (force simp: TAG_NAMES_def)

text \<open>
  A well-formed card object: its fields in tag order, each once, each of its tag's type, the
  required ones present, the document type and version this profile's.
\<close>

definition card_ok :: "fields \<Rightarrow> bool" where
  "card_ok f \<longleftrightarrow>
     map fst f = filter (\<lambda>n. n \<in> fst ` set f) TAG_NAMES \<and>
     list_all (\<lambda>(n, v). value_ok (tag_of n) v) f \<and>
     set REQUIRED \<subseteq> fst ` set f \<and>
     fget f ''doc_type'' = CText DOC_TYPE \<and>
     fget f ''profile_version'' = CInt (int PROFILE_VERSION)"

definition blob_of :: "fields \<Rightarrow> bytes" where
  "blob_of f = concat (map (\<lambda>(n, v). tlv (tag_of n) (enc_val (tag_of n) v)) f)"

lemma blob_of_simps [simp]:
  "blob_of [] = []" "blob_of ((n, v) # f) = tlv (tag_of n) (enc_val (tag_of n) v) @ blob_of f"
  by (simp_all add: blob_of_def)

lemma tlv_not_Nil [simp]: "tlv t v \<noteq> []"
  by (simp add: tlv_def)

lemma length_tlv: "length (tlv t v) = length v + 3"
  by (simp add: tlv_def)

lemma tlv_parts:
  assumes "t < 256" "length v \<le> 0xFFFF"
  shows "be_decode (take (Suc 0) (tlv t v @ r)) = t"
    "be_decode (take 2 (drop (Suc 0) (tlv t v @ r))) = length v"
    "drop 3 (tlv t v @ r) = v @ r" "\<not> length (tlv t v @ r) < 3"
  using assms by (simp_all add: tlv_def)

lemma decode_loop_Nil [simp]: "decode_loop f seen prev [] = Inr f"
  by (simp add: decode_loop.simps)

lemma decode_loop_tlv:
  assumes entry: "(t, n) \<in> set ALL_TAGS" and ok: "value_ok t v"
    and fresh: "t \<notin> set seen" "prev < int t"
  shows "decode_loop f seen prev (tlv t (enc_val t v) @ r) =
    decode_loop (f @ [(n, v)]) (t # seen) (int t) r"
  by (subst decode_loop.simps)
    (simp add: tlv_parts [OF tag_lt_256 [OF entry] length_enc_val [OF ok]] length_tlv
      name_of_tag [OF entry] decode_value_enc [OF ok] fresh not_le [THEN iffD2, OF fresh(2)] Let_def
      del: take_append drop_append)

text \<open>Parsing the encoding of fields in tag order gives the fields back.\<close>

lemma decode_loop_blob:
  assumes "\<forall>(n, v) \<in> set g. (tag_of n, n) \<in> set ALL_TAGS \<and> value_ok (tag_of n) v"
    and "sorted_wrt (<) (map (tag_of \<circ> fst) g)"
    and "\<forall>t \<in> set seen. int t \<le> prev" and "\<forall>(n, v) \<in> set g. prev < int (tag_of n)"
  shows "decode_loop f seen prev (blob_of g) = Inr (f @ g)"
  using assms
proof (induction g arbitrary: f seen prev)
  case (Cons nv g)
  obtain n v where nv: "nv = (n, v)" by (cases nv)
  let ?t = "tag_of n"
  have "?t \<notin> set seen" using Cons.prems(3,4) nv by fastforce
  then have "decode_loop f seen prev (blob_of (nv # g)) =
      decode_loop (f @ [(n, v)]) (?t # seen) (int ?t) (blob_of g)"
    using Cons.prems nv by (simp add: decode_loop_tlv)
  also have "\<dots> = Inr ((f @ [(n, v)]) @ g)"
    using Cons.prems nv by (intro Cons.IH) fastforce+
  finally show ?case by (simp add: nv)
qed simp

text \<open>And whatever parses is such an encoding.\<close>

lemma decode_loop_step:
  assumes "decode_loop f seen prev blob = Inr f'" and "blob \<noteq> []"
  obtains t n v r where "(t, n) \<in> set ALL_TAGS" "value_ok t v" "prev < int t"
    "blob = tlv t (enc_val t v) @ r"
    "decode_loop (f @ [(n, v)]) (t # seen) (int t) r = Inr f'"
proof -
  define t len body where "t = be_decode (take (Suc 0) blob)"
    and "len = be_decode (take 2 (drop (Suc 0) blob))" and "body = drop 3 blob"
  note defs = t_def [symmetric] len_def [symmetric] body_def [symmetric]
  obtain n v where long: "\<not> length blob < 3" and fits: "\<not> length body < len"
    and name: "map_of ALL_TAGS t = Some n" and prev: "prev < int t"
    and v: "decode_value t (take len body) = Inr v"
    and rest: "decode_loop (f @ [(n, v)]) (t # seen) (int t) (drop len body) = Inr f'"
    using assms(1) [unfolded decode_loop.simps [of f seen prev blob]] assms(2)
    by (simp add: Let_def defs split: if_splits option.splits sum.splits)
  have entry: "(t, n) \<in> set ALL_TAGS"
    using name by (rule map_of_SomeD)
  have len_lt: "len < 256 ^ 2"
    unfolding len_def using be_decode_lt [of "take 2 (drop 1 blob)"] long by simp
  with v fits have ok: "value_ok t v" "enc_val t v = take len body"
    by (auto dest!: decode_value_ok)
  have "be_encode 1 t = take 1 blob"
    unfolding t_def using long by (subst be_encode_decode) simp_all
  moreover have "be_encode 2 len = take 2 (drop 1 blob)"
    unfolding len_def using long by (subst be_encode_decode) simp_all
  ultimately have "blob = be_encode 1 t @ be_encode 2 len @ body"
    unfolding body_def by (metis append_take_drop_id drop_drop numeral_plus_one plus_1_eq_Suc
        eval_nat_numeral(3) One_nat_def add.commute)
  then have "blob = tlv t (enc_val t v) @ drop len body"
    using ok(2) fits by (simp add: tlv_def min_def)
  with entry ok(1) prev rest that show thesis by blast
qed

lemma decode_loop_canonical:
  assumes "decode_loop f seen prev blob = Inr f'"
  shows "\<exists>g. f' = f @ g \<and> blob = blob_of g \<and>
    (\<forall>(n, v) \<in> set g. (tag_of n, n) \<in> set ALL_TAGS \<and> value_ok (tag_of n) v \<and> prev < int (tag_of n)) \<and>
    sorted_wrt (<) (map (tag_of \<circ> fst) g)"
  using assms
proof (induction "length blob" arbitrary: f seen prev blob rule: less_induct)
  case less
  show ?case
  proof (cases "blob = []")
    case True
    with less.prems show ?thesis by simp
  next
    case False
    with less.prems obtain t n v r where entry: "(t, n) \<in> set ALL_TAGS" and ok: "value_ok t v"
      and prev: "prev < int t" and blob: "blob = tlv t (enc_val t v) @ r"
      and rest: "decode_loop (f @ [(n, v)]) (t # seen) (int t) r = Inr f'"
      by (rule decode_loop_step)
    have t: "tag_of n = t" using entry by (rule tag_of_entry)
    have "length r < length blob" using blob by (simp add: tlv_def)
    from less.hyps [OF this rest] obtain g where g: "f' = (f @ [(n, v)]) @ g" "r = blob_of g"
      "\<forall>(n, v) \<in> set g. (tag_of n, n) \<in> set ALL_TAGS \<and> value_ok (tag_of n) v \<and> int t < int (tag_of n)"
      "sorted_wrt (<) (map (tag_of \<circ> fst) g)"
      by blast
    show ?thesis
      using g entry ok prev blob t by (intro exI [of _ "(n, v) # g"]) fastforce
  qed
qed

lemma names_not_forbidden: "list_all (\<lambda>n. n \<notin> set FORBIDDEN_FIELDS) TAG_NAMES"
  by code_simp

lemma required_are_names: "set REQUIRED \<subseteq> set BODY_NAMES"
  by (simp add: REQUIRED_def BODY_NAMES_def BODY_TAGS_def)

lemma body_names_subset: "set BODY_NAMES \<subseteq> set TAG_NAMES"
  by (auto simp: ALL_TAGS_def BODY_NAMES_def TAG_NAMES_def)

lemma name_entry: "n \<in> set TAG_NAMES \<Longrightarrow> (tag_of n, n) \<in> set ALL_TAGS"
  using tag_of_entry by (auto simp: tag_names_iff)

lemma key_in: "(n, v) \<in> set f \<Longrightarrow> n \<in> fst ` set f"
  by force

lemma fget_in: "distinct (map fst f) \<Longrightarrow> (n, v) \<in> set f \<Longrightarrow> fget f n = v"
  by (simp add: fget_def)

lemma fget_not_CNone_key: "fget f n \<noteq> CNone \<Longrightarrow> n \<in> fst ` set f"
  by (auto simp: fget_def dest!: map_of_SomeD intro: rev_image_eqI split: option.splits)

lemma names_filter: "map snd (filter (\<lambda>(t, n). P n) ALL_TAGS) = filter P TAG_NAMES"
  by (simp add: TAG_NAMES_def filter_map comp_def case_prod_unfold)

lemma card_ok_distinct: "card_ok f \<Longrightarrow> distinct (map fst f)"
  unfolding card_ok_def using distinct_names by (metis distinct_filter)

lemma card_ok_names: "card_ok f \<Longrightarrow> fst ` set f \<subseteq> set TAG_NAMES"
  unfolding card_ok_def by (metis filter_is_subset image_set)

lemma card_ok_entry:
  assumes "card_ok f" "(n, v) \<in> set f"
  shows "(tag_of n, n) \<in> set ALL_TAGS" "value_ok (tag_of n) v" "fget f n = v"
proof -
  show "(tag_of n, n) \<in> set ALL_TAGS"
    using card_ok_names [OF assms(1)] assms(2) by (intro name_entry) force
  show "value_ok (tag_of n) v"
    using assms by (auto simp: card_ok_def list_all_iff)
  show "fget f n = v"
    using assms card_ok_distinct by (simp add: fget_in)
qed

lemma value_ok_not_CNone: "value_ok t v \<Longrightarrow> v \<noteq> CNone"
  by (auto simp: value_ok_def)

lemma card_ok_fget_None:
  assumes ok: "card_ok f"
  shows "fget f n = CNone \<longleftrightarrow> n \<notin> fst ` set f"
proof (cases "n \<in> fst ` set f")
  case True
  then obtain v where "(n, v) \<in> set f" by force
  with card_ok_entry(2,3) [OF ok this] True show ?thesis
    using value_ok_not_CNone by blast
next
  case False
  then show ?thesis using fget_not_CNone_key by blast
qed

text \<open>The present fields of any dictionary in tag order: what \<open>encode\<close> writes.\<close>

definition canon :: "fields \<Rightarrow> fields" where
  "canon f = map (\<lambda>(t, n). (n, fget f n)) (filter (\<lambda>(t, n). fget f n \<noteq> CNone) ALL_TAGS)"

lemma encode_loop_present:
  assumes "\<forall>(t, n) \<in> set ts. fget f n \<noteq> CNone \<longrightarrow> value_ok t (fget f n)"
  shows "encode_loop ts f =
    Inr (concat (map (\<lambda>(t, n). tlv t (enc_val t (fget f n))) (filter (\<lambda>(t, n). fget f n \<noteq> CNone) ts)))"
  using assms
proof (induction ts)
  case (Cons tn ts)
  obtain t n where tn: "tn = (t, n)" by (cases tn)
  show ?case
  proof (cases "fget f n = CNone")
    case False
    with Cons.prems tn have ok: "value_ok t (fget f n)" by auto
    with False Cons tn show ?thesis
      using length_enc_val [OF ok] by (simp add: encode_value_ok)
  qed (use Cons tn in simp)
qed simp

lemma encode_loop_blob:
  assumes "\<forall>(t, n) \<in> set ALL_TAGS. fget f n \<noteq> CNone \<longrightarrow> value_ok t (fget f n)"
  shows "encode_loop ALL_TAGS f = Inr (blob_of (canon f))"
proof -
  have "concat (map (\<lambda>(t, n). tlv t (enc_val t (fget f n))) (filter (\<lambda>(t, n). fget f n \<noteq> CNone) ALL_TAGS))
      = blob_of (canon f)"
    unfolding blob_of_def canon_def map_map
    by (intro arg_cong [of _ _ concat] map_cong) (auto simp: tag_of_entry)
  with encode_loop_present [OF assms] show ?thesis by simp
qed

lemma encode_loop_cong:
  "\<forall>(t, n) \<in> set ts. fget f n = fget g n \<Longrightarrow> encode_loop ts f = encode_loop ts g"
  by (induction ts) (auto cong: if_cong)

lemma encode_eq_loop:
  assumes "fst ` set f \<subseteq> set TAG_NAMES" "\<forall>n \<in> set REQUIRED. fget f n \<noteq> CNone"
  shows "encode f = encode_loop ALL_TAGS f"
proof -
  have "filter (\<lambda>n. n \<in> set FORBIDDEN_FIELDS) (map fst f) = []"
    using assms(1) names_not_forbidden by (auto simp: filter_empty_conv list_all_iff)
  moreover have "filter (\<lambda>n. n \<notin> set TAG_NAMES) (map fst f) = []"
    using assms(1) by (auto simp: filter_empty_conv)
  moreover have "filter (\<lambda>n. fget f n = CNone) REQUIRED = []"
    using assms(2) by (simp add: filter_empty_conv)
  ultimately show ?thesis by (simp add: encode_def)
qed

lemma encode_Inr_conv:
  "encode f = Inr b \<longleftrightarrow>
     (\<forall>n \<in> fst ` set f. n \<notin> set FORBIDDEN_FIELDS) \<and> (\<forall>n \<in> fst ` set f. n \<in> set TAG_NAMES) \<and>
     (\<forall>n \<in> set REQUIRED. fget f n \<noteq> CNone) \<and> encode_loop ALL_TAGS f = Inr b"
proof -
  have "filter (\<lambda>n. n \<in> set FORBIDDEN_FIELDS) (map fst f) = [] \<longleftrightarrow>
      (\<forall>n \<in> fst ` set f. n \<notin> set FORBIDDEN_FIELDS)"
    "filter (\<lambda>n. n \<notin> set TAG_NAMES) (map fst f) = [] \<longleftrightarrow> (\<forall>n \<in> fst ` set f. n \<in> set TAG_NAMES)"
    "filter (\<lambda>n. fget f n = CNone) REQUIRED = [] \<longleftrightarrow> (\<forall>n \<in> set REQUIRED. fget f n \<noteq> CNone)"
    by (simp_all add: filter_empty_conv)
  then show ?thesis unfolding encode_def Let_def by simp
qed

lemma encode_InrD:
  assumes "encode f = Inr b"
  shows "fst ` set f \<subseteq> set TAG_NAMES" "\<forall>n \<in> set REQUIRED. fget f n \<noteq> CNone"
    "encode_loop ALL_TAGS f = Inr b" "\<forall>n \<in> fst ` set f. n \<notin> set FORBIDDEN_FIELDS"
  using assms [unfolded encode_Inr_conv] by (simp_all add: subset_eq)

lemma canon_card_ok:
  assumes "card_ok f"
  shows "canon f = f"
proof -
  have "filter (\<lambda>(t, n). fget f n \<noteq> CNone) ALL_TAGS = map (\<lambda>n. (tag_of n, n))
      (map snd (filter (\<lambda>(t, n). fget f n \<noteq> CNone) ALL_TAGS))"
    unfolding map_map by (rule map_idI [symmetric]) (auto simp: tag_of_entry)
  moreover have "map snd (filter (\<lambda>(t, n). fget f n \<noteq> CNone) ALL_TAGS) =
      filter (\<lambda>n. n \<in> fst ` set f) TAG_NAMES"
    using card_ok_fget_None [OF assms] names_filter [of "\<lambda>n. n \<in> fst ` set f"] by simp
  moreover have "\<dots> = map fst f"
    using assms by (simp add: card_ok_def)
  ultimately have "canon f = map (\<lambda>n. (n, fget f n)) (map fst f)"
    unfolding canon_def by (simp only: map_map) (simp add: comp_def)
  also have "\<dots> = f"
    unfolding map_map using card_ok_entry(3) [OF assms] by (intro map_idI) auto
  finally show ?thesis .
qed

lemma encode_card_ok:
  assumes "card_ok f"
  shows "encode f = Inr (blob_of f)"
proof -
  have "encode f = encode_loop ALL_TAGS f"
    using card_ok_names [OF assms] card_ok_fget_None [OF assms] assms
    by (intro encode_eq_loop) (auto simp: card_ok_def)
  also have "\<dots> = Inr (blob_of (canon f))"
  proof (rule encode_loop_blob, clarify)
    fix t n assume tn: "(t, n) \<in> set ALL_TAGS" and "fget f n \<noteq> CNone"
    then have "(n, fget f n) \<in> set f"
      using fget_not_CNone_key fget_in card_ok_distinct [OF assms] by fastforce
    with assms tn show "value_ok t (fget f n)"
      using card_ok_entry(2) tag_of_entry by metis
  qed
  finally show ?thesis by (simp add: canon_card_ok assms)
qed

lemma sorted_tags:
  assumes "map fst f = filter P TAG_NAMES"
  shows "sorted_wrt (<) (map (tag_of \<circ> fst) f)"
proof -
  have "map (tag_of \<circ> fst) f = map tag_of (filter P TAG_NAMES)"
    by (simp only: assms [symmetric] map_map)
  also have "\<dots> = map fst (filter (\<lambda>(t, n). P n) ALL_TAGS)"
    unfolding names_filter [symmetric] map_map by (rule map_cong) (auto simp: tag_of_entry)
  finally show ?thesis
    using sorted_wrt_filter [OF tags_ascend [unfolded sorted_wrt_map]]
    by (simp add: sorted_wrt_map)
qed

lemma names_from_tags:
  assumes sorted: "sorted_wrt (<) (map (tag_of \<circ> fst) f)"
    and names: "\<forall>(n, v) \<in> set f. (tag_of n, n) \<in> set ALL_TAGS"
  shows "map fst f = filter (\<lambda>n. n \<in> fst ` set f) TAG_NAMES"
proof -
  let ?ts = "map (tag_of \<circ> fst) f" and ?nm = "\<lambda>t. the (map_of ALL_TAGS t)"
  have nm: "?nm t = n" if "(t, n) \<in> set ALL_TAGS" for t n
    using name_of_tag [OF that] by simp
  have mem: "t \<in> set ?ts \<longleftrightarrow> n \<in> fst ` set f" if "(t, n) \<in> set ALL_TAGS" for t n
  proof
    assume "t \<in> set ?ts"
    then obtain m v where m: "(m, v) \<in> set f" "t = tag_of m" by auto
    with names have "?nm t = m" by (auto intro: nm)
    with m nm [OF that] show "n \<in> fst ` set f" by force
  next
    assume "n \<in> fst ` set f"
    with tag_of_entry [OF that] show "t \<in> set ?ts" by force
  qed
  have "set ?ts \<subseteq> set (map fst ALL_TAGS)"
    using names by force
  with sorted tags_ascend have "filter (\<lambda>t. t \<in> set ?ts) (map fst ALL_TAGS) = ?ts"
    by (intro strict_sorted_filter_subset)
  then have "map ?nm ?ts = map ?nm (filter (\<lambda>t. t \<in> set ?ts) (map fst ALL_TAGS))" by simp
  also have "\<dots> = map snd (filter (\<lambda>(t, n). n \<in> fst ` set f) ALL_TAGS)"
    unfolding filter_map map_map
  proof (rule map_cong)
    show "filter ((\<lambda>t. t \<in> set ?ts) \<circ> fst) ALL_TAGS = filter (\<lambda>(t, n). n \<in> fst ` set f) ALL_TAGS"
      by (intro filter_cong refl) (auto simp: mem simp del: set_map intro: key_in)
  qed (use nm in auto)
  also have "\<dots> = filter (\<lambda>n. n \<in> fst ` set f) TAG_NAMES"
    by (rule names_filter)
  finally have "map ?nm ?ts = filter (\<lambda>n. n \<in> fst ` set f) TAG_NAMES" .
  moreover have "map ?nm ?ts = map fst f"
    unfolding map_map using names nm by (intro map_cong) auto
  ultimately show ?thesis by simp
qed

lemma decode_iff: "decode b = Inr f \<longleftrightarrow> card_ok f \<and> blob_of f = b"
proof
  assume dec: "decode b = Inr f"
  then have loop: "decode_loop [] [] (- 1) b = Inr f"
    and rest: "set REQUIRED \<subseteq> fst ` set f" "fget f ''doc_type'' = CText DOC_TYPE"
      "fget f ''profile_version'' = CInt (int PROFILE_VERSION)"
    by (auto simp: decode_def Let_def filter_empty_conv split: if_splits)
  from decode_loop_canonical [OF loop] have f: "b = blob_of f"
    "\<forall>(n, v) \<in> set f. (tag_of n, n) \<in> set ALL_TAGS \<and> value_ok (tag_of n) v"
    "sorted_wrt (<) (map (tag_of \<circ> fst) f)"
    by auto
  then have "map fst f = filter (\<lambda>n. n \<in> fst ` set f) TAG_NAMES"
    by (intro names_from_tags) auto
  with f rest show "card_ok f \<and> blob_of f = b"
    by (auto simp: card_ok_def list_all_iff)
next
  assume f: "card_ok f \<and> blob_of f = b"
  then have ok: "card_ok f" by simp
  have "decode_loop [] [] (- 1) (blob_of f) = Inr ([] @ f)"
  proof (rule decode_loop_blob)
    show "\<forall>(n, v) \<in> set f. (tag_of n, n) \<in> set ALL_TAGS \<and> value_ok (tag_of n) v"
      using card_ok_entry [OF ok] by auto
    show "sorted_wrt (<) (map (tag_of \<circ> fst) f)"
      using ok sorted_tags unfolding card_ok_def by blast
  qed auto
  with f show "decode b = Inr f"
    by (auto simp: decode_def card_ok_def Let_def filter_empty_conv subset_iff)
qed

text \<open>The encoder and the decoder of card objects are a codec.\<close>

definition card_bytes :: "fields \<Rightarrow> bytes" where
  "card_bytes f = (case encode f of Inr b \<Rightarrow> b | Inl _ \<Rightarrow> [])"

definition card_fields :: "bytes \<Rightarrow> fields option" where
  "card_fields b = (case decode b of Inr f \<Rightarrow> Some f | Inl _ \<Rightarrow> None)"

lemma decode_blob_of: "card_ok f \<Longrightarrow> decode (blob_of f) = Inr f"
  by (simp add: decode_iff)

lemma card_fields_Some_iff: "card_fields b = Some f \<longleftrightarrow> decode b = Inr f"
  by (auto simp: card_fields_def split: sum.splits)

interpretation card: codec card_ok card_bytes card_fields
  by unfold_locales
    (simp_all add: card_fields_Some_iff card_bytes_def encode_card_ok decode_blob_of,
     simp add: decode_iff encode_card_ok)

section \<open>The signed body\<close>

definition body_part :: "fields \<Rightarrow> fields" where
  "body_part f = filter (\<lambda>(k, v). k \<in> set BODY_NAMES) f"

lemma map_of_filter_keys: "map_of (filter (\<lambda>(k, v). P k) f) n = (if P n then map_of f n else None)"
  by (induction f) auto

lemma fget_body_part: "fget (body_part f) n = (if n \<in> set BODY_NAMES then fget f n else CNone)"
  by (simp add: body_part_def fget_def map_of_filter_keys)

lemma keys_filter: "map fst (filter (\<lambda>(k, v). P k) f) = filter P (map fst f)"
  by (simp add: filter_map comp_def case_prod_unfold)

lemma keys_body_part: "fst ` set (body_part f) = fst ` set f \<inter> set BODY_NAMES"
  by (force simp: body_part_def)

lemma body_part_ok:
  assumes "card_ok f"
  shows "card_ok (body_part f)"
proof -
  have "map fst (body_part f) = filter (\<lambda>n. n \<in> set BODY_NAMES) (filter (\<lambda>n. n \<in> fst ` set f) TAG_NAMES)"
    using assms by (simp add: body_part_def keys_filter card_ok_def)
  then have "map fst (body_part f) = filter (\<lambda>n. n \<in> fst ` set (body_part f)) TAG_NAMES"
    by (simp add: keys_body_part conj_commute)
  moreover have "set REQUIRED \<subseteq> fst ` set (body_part f)"
    using assms required_are_names by (auto simp: keys_body_part card_ok_def)
  moreover have "fget (body_part f) ''doc_type'' = CText DOC_TYPE"
    "fget (body_part f) ''profile_version'' = CInt (int PROFILE_VERSION)"
    using assms by (simp_all add: fget_body_part card_ok_def BODY_NAMES_def BODY_TAGS_def)
  moreover have "list_all (\<lambda>(n, v). value_ok (tag_of n) v) (body_part f)"
    using assms by (auto simp: card_ok_def body_part_def list_all_iff)
  ultimately show ?thesis by (simp add: card_ok_def)
qed

lemma signing_body_eq: "signing_body f = encode (body_part f)"
  by (simp add: signing_body_def body_part_def)

lemma signing_body_ok: "card_ok f \<Longrightarrow> signing_body f = Inr (blob_of (body_part f))"
  by (simp add: signing_body_eq encode_card_ok body_part_ok)

lemma signing_body_decoded: "decode b = Inr f \<Longrightarrow> signing_body f = Inr (blob_of (body_part f))"
  by (simp add: decode_iff signing_body_ok)

lemma blob_of_inject: "card_ok f \<Longrightarrow> card_ok g \<Longrightarrow> blob_of f = blob_of g \<Longrightarrow> f = g"
  by (metis decode_blob_of sum.inject(2))

section \<open>Building a card\<close>

lemma encode_canon:
  assumes enc: "encode f = Inr b"
    and ok: "\<forall>(t, n) \<in> set ALL_TAGS. fget f n \<noteq> CNone \<longrightarrow> value_ok t (fget f n)"
    and doc: "fget f ''doc_type'' = CText DOC_TYPE"
    and ver: "fget f ''profile_version'' = CInt (int PROFILE_VERSION)"
  shows "decode b = Inr (canon f) \<and> (\<forall>n. fget (canon f) n = fget f n)"
proof -
  have keys: "map fst (canon f) = filter (\<lambda>n. fget f n \<noteq> CNone) TAG_NAMES"
    using names_filter [of "\<lambda>n. fget f n \<noteq> CNone"]
    by (simp add: canon_def comp_def case_prod_unfold)
  then have dist: "distinct (map fst (canon f))"
    using distinct_names by simp
  have vals: "v = fget f n" if "(n, v) \<in> set (canon f)" for n v
    using that by (auto simp: canon_def)
  have mem: "n \<in> fst ` set (canon f) \<longleftrightarrow> fget f n \<noteq> CNone" for n
  proof -
    have "n \<in> fst ` set (canon f) \<longleftrightarrow> n \<in> set TAG_NAMES \<and> fget f n \<noteq> CNone"
      using arg_cong [OF keys, of set] by auto
    moreover have "n \<in> set TAG_NAMES" if "fget f n \<noteq> CNone"
      using fget_not_CNone_key [OF that] encode_InrD(1) [OF enc] by (rule rev_subsetD)
    ultimately show ?thesis by blast
  qed
  have same: "fget (canon f) n = fget f n" for n
  proof (cases "fget f n = CNone")
    case True
    with mem [of n] show ?thesis
      using fget_not_CNone_key by metis
  next
    case False
    with mem [of n] obtain v where "(n, v) \<in> set (canon f)" by force
    with dist vals show ?thesis by (simp add: fget_in)
  qed
  have "card_ok (canon f)"
    unfolding card_ok_def
  proof (intro conjI)
    show "map fst (canon f) = filter (\<lambda>n. n \<in> fst ` set (canon f)) TAG_NAMES"
      by (simp add: keys mem)
    show "list_all (\<lambda>(n, v). value_ok (tag_of n) v) (canon f)"
      using ok by (auto simp: canon_def list_all_iff tag_of_entry)
    show "set REQUIRED \<subseteq> fst ` set (canon f)"
      using encode_InrD(2) [OF enc] mem by auto
  qed (simp_all add: same doc ver)
  moreover have "b = blob_of (canon f)"
    using encode_InrD(3) [OF enc] encode_loop_blob [OF ok] by simp
  ultimately show ?thesis
    using same by (simp add: decode_blob_of)
qed

lemma encode_cong:
  assumes "\<forall>n. fget f n = fget g n"
    and "fst ` set f \<subseteq> set TAG_NAMES" "fst ` set g \<subseteq> set TAG_NAMES"
    and "\<forall>n \<in> set REQUIRED. fget f n \<noteq> CNone"
  shows "encode f = encode g"
  using assms by (simp add: encode_eq_loop encode_loop_cong)

section \<open>Verifying a card\<close>

lemma decode_not_OtherError: "decode b \<noteq> Inl OtherError"
proof -
  have val: "e \<noteq> OtherError" if "decode_value t raw = Inl e" for t raw e
    using that unfolding decode_value_def by (fastforce split: if_splits option.splits)
  have "decode_loop f seen prev b \<noteq> Inl OtherError" for f seen prev
  proof (induction f seen prev b rule: decode_loop.induct)
    case (1 f seen prev blob)
    show ?case
    proof (cases "decode_loop f seen prev blob")
      case (Inl e)
      then show ?thesis
        using "1.IH" unfolding decode_loop.simps [of f seen prev blob]
        by (auto simp: Let_def dest: val split: if_splits option.splits sum.splits)
    qed simp
  qed
  then show ?thesis
    by (auto simp: decode_def rbind_Inl_iff Let_def split: if_splits)
qed

lemma decoded_expiry:
  assumes "decode b = Inr f"
  shows "\<exists>e. fget f ''expires_at'' = CInt e"
proof -
  from assms have ok: "card_ok f" by (simp add: decode_iff)
  then have "''expires_at'' \<in> fst ` set f"
    by (auto simp: card_ok_def REQUIRED_def)
  then obtain v where v: "(''expires_at'', v) \<in> set f" by force
  have "tag_of ''expires_at'' = 8" by code_simp
  with card_ok_entry [OF ok v] show ?thesis
    by (auto simp: value_ok_def split: cval.splits)
qed

lemma decoded_signature:
  assumes "decode b = Inr f" and "map_of f n = Some v" and "n \<in> {''issuer_sig_classical'', ''issuer_sig_pq''}"
  shows "\<exists>s. v = CBytes s"
proof -
  from assms have ok: "card_ok f" by (simp add: decode_iff)
  have "tag_of ''issuer_sig_classical'' = 32" "tag_of ''issuer_sig_pq'' = 33" by code_simp+
  with card_ok_entry(2) [OF ok map_of_SomeD [OF assms(2)]] assms(3) show ?thesis
    by (auto simp: value_ok_def split: cval.splits)
qed

text \<open>
  The abstract rule of a verdict: which signatures must be there, which must verify, and the
  expiry. \<open>verify_card\<close> implements it (\<open>verify_card_authentic_iff\<close>).
\<close>

definition card_rule ::
    "bytes \<Rightarrow> fields \<Rightarrow> sig_check option \<Rightarrow> sig_check option \<Rightarrow> bool \<Rightarrow> int option \<Rightarrow> bool" where
  "card_rule digest f vc vp require_pq now \<longleftrightarrow>
     (let c = check_signature vc digest (map_of f ''issuer_sig_classical'');
          p = check_signature vp digest (map_of f ''issuer_sig_pq'')
      in (require_pq \<longrightarrow> map_of f ''issuer_sig_pq'' \<noteq> None) \<and>
         (c = Some True \<or> p = Some True) \<and> c \<noteq> Some False \<and> p \<noteq> Some False \<and>
         (case now of None \<Rightarrow> True
          | Some t \<Rightarrow> (\<exists>e. fget f ''expires_at'' = CInt e \<and> t < e)))"

lemma check_signature_None: "check_signature v d None = None"
  by (simp add: check_signature_def split: option.splits)

lemma card_decision_cases:
  assumes "\<not> hc \<Longrightarrow> c = None" "\<not> hp \<Longrightarrow> p = None" "\<not> authentic v"
  shows "\<exists>w. card_decision hc hp c p rq now (Some e) v = Inr w \<and>
    (authentic w \<longleftrightarrow> (rq \<longrightarrow> hp) \<and> (c = Some True \<or> p = Some True) \<and> c \<noteq> Some False \<and>
      p \<noteq> Some False \<and> (case now of None \<Rightarrow> True | Some t \<Rightarrow> t < e)) \<and>
    parsed w = parsed v \<and> vfields w = vfields v"
proof -
  have "c = None \<or> c = Some True \<or> c = Some False" "p = None \<or> p = Some True \<or> p = Some False"
    by (cases c; auto) (cases p; auto)
  then show ?thesis
    using assms by (auto simp: card_decision_def Let_def split: option.split)
qed

lemma card_decision_spec:
  assumes "fget f ''expires_at'' = CInt e" "\<not> authentic v"
  shows "\<exists>w. card_decision (map_of f ''issuer_sig_classical'' \<noteq> None) (map_of f ''issuer_sig_pq'' \<noteq> None)
        (check_signature vc d (map_of f ''issuer_sig_classical''))
        (check_signature vp d (map_of f ''issuer_sig_pq'')) rq now (py_int (fget f ''expires_at'')) v = Inr w \<and>
      (authentic w \<longleftrightarrow> card_rule d f vc vp rq now) \<and> parsed w = parsed v \<and> vfields w = vfields v"
  using card_decision_cases [where hc = "map_of f ''issuer_sig_classical'' \<noteq> None"
      and c = "check_signature vc d (map_of f ''issuer_sig_classical'')"
      and hp = "map_of f ''issuer_sig_pq'' \<noteq> None"
      and p = "check_signature vp d (map_of f ''issuer_sig_pq'')" and v = v and rq = rq
      and now = now and e = e]
    assms
  by (simp add: check_signature_None py_int_def card_rule_def Let_def cong: option.case_cong)

lemma verify_card_returns:
  "\<exists>v. verify_card H b vc vp rq now = Inr v \<and>
    (authentic v \<longleftrightarrow> (\<exists>f. decode b = Inr f \<and> card_rule (H (blob_of (body_part f))) f vc vp rq now)) \<and>
    (parsed v \<longleftrightarrow> (\<exists>f. decode b = Inr f)) \<and>
    (\<forall>f. decode b = Inr f \<longrightarrow> vfields v = Some (body_part f))"
proof (cases "decode b")
  case (Inl e)
  then obtain r where "e = CardProfileError r"
    using decode_not_OtherError [of b] by (cases e) auto
  with Inl show ?thesis
    by (simp add: verify_card_def blank_verdict_def)
next
  case (Inr f)
  obtain e where e: "fget f ''expires_at'' = CInt e"
    using decoded_expiry [OF Inr] by auto
  let ?d = "H (blob_of (body_part f))"
  have dig: "signing_digest H f = Inr ?d"
    by (simp add: signing_digest_def signing_body_decoded [OF Inr])
  from card_decision_spec [OF e, where v = "blank_verdict\<lparr>parsed := True,
      vfields := Some (body_part f)\<rparr>" and vc = vc and d = ?d and vp = vp and rq = rq and now = now]
  show ?thesis
    by (simp add: verify_card_def Inr dig body_part_def [symmetric] blank_verdict_def)
qed

lemma verify_card_authentic_iff:
  assumes "verify_card H b vc vp rq now = Inr v"
  shows "authentic v \<longleftrightarrow>
    (\<exists>f. decode b = Inr f \<and> card_rule (H (blob_of (body_part f))) f vc vp rq now)"
  using verify_card_returns [of H b vc vp rq now] assms by auto

section \<open>The response a card signs\<close>

lemma response_body_inject:
  assumes "response_body c s h = Inr b" "response_body c' s' h' = Inr b"
  shows "c = c' \<and> s = s' \<and> h = h'"
proof -
  let ?p = "blit ''polaris-card-response/1''"
  obtain u u' where u: "utf8_encode s = Some u" "utf8_encode s' = Some u'"
    and len: "length c \<le> 0xFFFF" "length c' \<le> 0xFFFF" "length u \<le> 0xFFFF" "length u' \<le> 0xFFFF"
    and eq: "be_encode 2 (length c) @ c @ be_encode 2 (length u) @ u @ h =
      be_encode 2 (length c') @ c' @ be_encode 2 (length u') @ u' @ h'"
    using assms by (auto simp: response_body_def split: if_splits option.splits)
  from eq have "be_encode 2 (length c) = be_encode 2 (length c')"
    and rest: "c @ be_encode 2 (length u) @ u @ h = c' @ be_encode 2 (length u') @ u' @ h'"
    by (simp_all add: append_same_length)
  then have lc: "length c = length c'"
    using be_codec.enc_inject [of "length c" 2 "length c'"] len by simp
  with rest have c: "c = c'" and rest2: "be_encode 2 (length u) @ u @ h = be_encode 2 (length u') @ u' @ h'"
    by simp_all
  from rest2 have "be_encode 2 (length u) = be_encode 2 (length u')" and rest3: "u @ h = u' @ h'"
    by (simp_all add: append_same_length)
  then have "length u = length u'"
    using be_codec.enc_inject [of "length u" 2 "length u'"] len by simp
  with rest3 have "u = u'" "h = h'" by simp_all
  with c u show ?thesis
    by (metis utf8_encode_Some_iff option.inject)
qed

section \<open>A built card verifies\<close>

lemma encode_loop_values:
  "encode_loop ts f = Inr b \<Longrightarrow> (t, n) \<in> set ts \<Longrightarrow> fget f n \<noteq> CNone \<Longrightarrow>
    \<exists>raw. encode_value t (fget f n) = Inr raw \<and> length raw \<le> 0xFFFF"
  by (induction ts arbitrary: b) (auto split: if_splits)

lemma encode_value_int_ok:
  "encode_value t (CInt k) = Inr raw \<Longrightarrow> t \<in> set U8 \<union> set U32 \<union> set U64 \<Longrightarrow> value_ok t (CInt k)"
  by (auto simp: encode_value_def pack_int_def py_int_def value_ok_def split: if_splits)

lemma encode_value_bytes: "t \<notin> set U8 \<union> set U32 \<union> set U64 \<Longrightarrow> encode_value t (CBytes b) = Inr b"
  by (auto simp: encode_value_def py_bytes_def)

text \<open>What a signer adds: nothing, or its signature under its name.\<close>

lemma fget_snoc:
  assumes "nm \<notin> fst ` set f"
  shows "fget (f @ [(nm, v)]) n = (if n = nm then v else fget f n)"
  unfolding fget_def map_of_snoc_fresh [OF assms] by simp

lemma add_signature_fget:
  assumes "add_signature s nm d f = Inr g" "nm \<notin> fst ` set f"
  shows "fget g n = (if n = nm then (case s of None \<Rightarrow> CNone | Some sg \<Rightarrow> CBytes (the (sg d))) else fget f n)"
    and "fst ` set g \<subseteq> insert nm (fst ` set f)"
    and "s \<noteq> None \<Longrightarrow> map_of g nm = Some (CBytes (the ((the s) d))) \<and> (the s) d \<noteq> None"
    and "s = None \<Longrightarrow> g = f"
proof -
  have absent: "fget f nm = CNone"
    using assms(2) fget_not_CNone_key by blast
  show "fget g n = (if n = nm then (case s of None \<Rightarrow> CNone | Some sg \<Rightarrow> CBytes (the (sg d))) else fget f n)"
    using assms absent
    by (auto simp: add_signature_def fget_snoc split: option.splits)
qed (use assms map_of_snoc_fresh [of nm f] in \<open>auto simp: add_signature_def split: option.splits\<close>)

lemma build_card_Inr_iff:
  "build_card H a sc sp = Inr b \<longleftrightarrow> (\<exists>ref pre d fc f.
     credential_ref H (token_value a) = Inr ref \<and> predecessor_ref H a = Inr pre \<and>
     (sc \<noteq> None \<or> sp \<noteq> None) \<and> signing_digest H (base_fields a ref pre) = Inr d \<and>
     add_signature sc ''issuer_sig_classical'' d (base_fields a ref pre) = Inr fc \<and>
     add_signature sp ''issuer_sig_pq'' d fc = Inr f \<and> encode f = Inr b)"
  by (auto simp: build_card_def)

definition hash32 :: "(bytes \<Rightarrow> bytes) \<Rightarrow> bool" where
  "hash32 H \<longleftrightarrow> (\<forall>x. length (H x) = 32)"

lemma credential_ref_length: "hash32 H \<Longrightarrow> credential_ref H t = Inr r \<Longrightarrow> length r = 32"
  by (auto simp: credential_ref_def hash32_def split: option.splits)

lemma predecessor_ref_length:
  "hash32 H \<Longrightarrow> predecessor_ref H a = Inr pre \<Longrightarrow> \<forall>r. pre = Some r \<longrightarrow> length r = 32"
  by (auto simp: predecessor_ref_def dest: credential_ref_length split: option.splits)

lemma base_keys: "fst ` set (base_fields a ref pre) \<subseteq> set BODY_NAMES"
  by (auto simp: base_fields_def BODY_NAMES_def BODY_TAGS_def split: option.splits)

lemma signature_names: "''issuer_sig_classical'' \<notin> set BODY_NAMES" "''issuer_sig_pq'' \<notin> set BODY_NAMES"
  "''issuer_sig_classical'' \<noteq> ''issuer_sig_pq''"
  by (simp_all add: BODY_NAMES_def BODY_TAGS_def)

lemma base_fget:
  "fget (base_fields a ref pre) ''doc_type'' = CText DOC_TYPE"
  "fget (base_fields a ref pre) ''profile_version'' = CInt (int PROFILE_VERSION)"
  "fget (base_fields a ref pre) ''expires_at'' = CInt (expires_at a)"
  "fget (base_fields a ref pre) ''credential_ref'' = CBytes ref"
  by (simp_all add: base_fields_def fget_def)

lemma body_tag_numbers:
  "tag_of ''profile_version'' = 1" "tag_of ''doc_type'' = 2" "tag_of ''credential_ref'' = 3"
  "tag_of ''issuing_authority'' = 4" "tag_of ''activation_sequence'' = 5"
  "tag_of ''predecessor_ref'' = 6" "tag_of ''issued_at'' = 7" "tag_of ''expires_at'' = 8"
  "tag_of ''card_key_classical'' = 9" "tag_of ''card_key_pq'' = 10"
  by code_simp+

lemma doc_type_ok: "value_ok 2 (CText DOC_TYPE)"
proof -
  have "ascii DOC_TYPE" by (simp add: ascii_def DOC_TYPE_def lit_def)
  then show ?thesis
    by (simp add: value_ok_def ascii_scalar utf8_raw_ascii DOC_TYPE_def)
qed

lemma base_values:
  assumes "length ref = 32" "\<forall>r. pre = Some r \<longrightarrow> length r = 32"
    and "length (card_key_classical a) = CLASSICAL_KEY_LEN"
    and "\<forall>k. card_key_pq a = Some k \<longrightarrow> length k = PQ_KEY_LEN"
    and "(n, v) \<in> set (base_fields a ref pre)" "encode_value (tag_of n) v = Inr raw"
  shows "value_ok (tag_of n) v"
proof -
  have int_ok: "\<And>t k raw. t \<in> {1, 4, 5, 7, 8} \<Longrightarrow> encode_value t (CInt k) = Inr raw \<Longrightarrow> value_ok t (CInt k)"
    by (rule encode_value_int_ok) auto
  have bytes_ok: "value_ok 3 (CBytes ref)" "value_ok 9 (CBytes (card_key_classical a))"
    "\<And>r. pre = Some r \<Longrightarrow> value_ok 6 (CBytes r)" "\<And>k. card_key_pq a = Some k \<Longrightarrow> value_ok 10 (CBytes k)"
    using assms(1-4) by (auto simp: value_ok_def CLASSICAL_KEY_LEN_def PQ_KEY_LEN_def)
  define P where "P = (\<lambda>(n, v). \<forall>raw. encode_value (tag_of n) v = Inr raw \<longrightarrow> value_ok (tag_of n) v)"
  have ints: "P (''profile_version'', CInt k)" "P (''issuing_authority'', CInt k)"
    "P (''activation_sequence'', CInt k)" "P (''issued_at'', CInt k)" "P (''expires_at'', CInt k)" for k
    unfolding P_def prod.case body_tag_numbers by (blast intro: int_ok)+
  have rest: "P (''doc_type'', CText DOC_TYPE)" "P (''credential_ref'', CBytes ref)"
    "P (''card_key_classical'', CBytes (card_key_classical a))"
    "\<And>r. pre = Some r \<Longrightarrow> P (''predecessor_ref'', CBytes r)"
    "\<And>k. card_key_pq a = Some k \<Longrightarrow> P (''card_key_pq'', CBytes k)"
    unfolding P_def prod.case body_tag_numbers using doc_type_ok bytes_ok by simp_all
  have "list_all P (base_fields a ref pre)"
    by (simp add: base_fields_def ints rest split: option.split)
  with assms(5) have "P (n, v)" by (simp add: list_all_iff)
  with assms(6) show ?thesis by (simp add: P_def)
qed

abbreviation (input) SIG_C :: string where "SIG_C \<equiv> ''issuer_sig_classical''"
abbreviation (input) SIG_P :: string where "SIG_P \<equiv> ''issuer_sig_pq''"

definition sig_val :: "signer option \<Rightarrow> bytes \<Rightarrow> cval" where
  "sig_val s d = (case s of None \<Rightarrow> CNone | Some sg \<Rightarrow> CBytes (the (sg d)))"

text \<open>The fields of a card after both signing steps.\<close>

lemma signed_fields:
  assumes "add_signature sc SIG_C d (base_fields a ref pre) = Inr fc" "add_signature sp SIG_P d fc = Inr f"
  shows "fget f n = (if n = SIG_P then sig_val sp d else if n = SIG_C then sig_val sc d
      else fget (base_fields a ref pre) n)"
    and "fst ` set f \<subseteq> insert SIG_P (insert SIG_C (set BODY_NAMES))"
    and "sc = Some s1 \<Longrightarrow> s1 d \<noteq> None" and "sp = Some s2 \<Longrightarrow> s2 d \<noteq> None"
proof -
  have c_fresh: "SIG_C \<notin> fst ` set (base_fields a ref pre)" and p_base: "SIG_P \<notin> fst ` set (base_fields a ref pre)"
    using base_keys signature_names by blast+
  note fc = add_signature_fget [OF assms(1) c_fresh]
  have p_fresh: "SIG_P \<notin> fst ` set fc"
    using fc(2) p_base signature_names(3) by auto
  note f = add_signature_fget [OF assms(2) p_fresh]
  show "fget f n = (if n = SIG_P then sig_val sp d else if n = SIG_C then sig_val sc d
      else fget (base_fields a ref pre) n)"
    by (simp add: f(1) fc(1) sig_val_def)
  show "fst ` set f \<subseteq> insert SIG_P (insert SIG_C (set BODY_NAMES))"
    using f(2) fc(2) base_keys [of a ref pre] by blast
  show "sc = Some s1 \<Longrightarrow> s1 d \<noteq> None" "sp = Some s2 \<Longrightarrow> s2 d \<noteq> None"
    using f(3) fc(3) by auto
qed

lemma signed_values:
  assumes fget_f: "\<And>n. fget f n = (if n = SIG_P then sig_val sp d else if n = SIG_C then sig_val sc d
      else fget (base_fields a ref pre) n)"
    and enc: "encode f = Inr b" and lens: "length ref = 32" "\<forall>r. pre = Some r \<longrightarrow> length r = 32"
    and keys: "length (card_key_classical a) = CLASSICAL_KEY_LEN"
      "\<forall>k. card_key_pq a = Some k \<longrightarrow> length k = PQ_KEY_LEN"
    and tn: "(t, n) \<in> set ALL_TAGS" and some: "fget f n \<noteq> CNone"
  shows "value_ok t (fget f n)"
proof -
  from encode_loop_values [OF encode_InrD(3) [OF enc] tn some] obtain raw
    where raw: "encode_value t (fget f n) = Inr raw" "length raw \<le> 0xFFFF" by blast
  have sig_tags: "tag_of SIG_C = 32" "tag_of SIG_P = 33" by code_simp+
  show ?thesis
  proof (cases "n = SIG_C \<or> n = SIG_P")
    case True
    then obtain g where g: "fget f n = CBytes g" and t: "t \<in> {32, 33}"
      using some fget_f [of n] sig_tags tag_of_entry [OF tn] signature_names(3)
      by (auto simp: sig_val_def split: option.splits if_splits)
    then have "raw = g" using raw by (auto simp: encode_value_bytes)
    with g t raw show ?thesis by (auto simp: value_ok_def)
  next
    case False
    then have same: "fget f n = fget (base_fields a ref pre) n" by (simp add: fget_f)
    then have "(n, fget f n) \<in> set (base_fields a ref pre)"
      using some by (auto simp: fget_def dest: map_of_SomeD split: option.splits)
    then show ?thesis
      using base_values [OF lens keys] raw(1) tag_of_entry [OF tn] by blast
  qed
qed

lemma built_card_decodes:
  assumes build: "build_card H a sc sp = Inr b" and H: "hash32 H"
    and keys: "length (card_key_classical a) = CLASSICAL_KEY_LEN"
      "\<forall>k. card_key_pq a = Some k \<longrightarrow> length k = PQ_KEY_LEN"
  obtains g d ref pre where "decode b = Inr g" "signing_digest H g = Inr d"
    "credential_ref H (token_value a) = Inr ref" "predecessor_ref H a = Inr pre"
    "signing_body g = signing_body (base_fields a ref pre)"
    "\<forall>n \<in> set BODY_NAMES. fget g n = fget (base_fields a ref pre) n"
    "fget g SIG_C = sig_val sc d" "fget g SIG_P = sig_val sp d" "fget g ''expires_at'' = CInt (expires_at a)"
    "\<forall>s. sc = Some s \<longrightarrow> s d \<noteq> None" "\<forall>s. sp = Some s \<longrightarrow> s d \<noteq> None"
    "sc \<noteq> None \<or> sp \<noteq> None"
proof -
  obtain ref pre d fc f where ref: "credential_ref H (token_value a) = Inr ref"
    and pre: "predecessor_ref H a = Inr pre"
    and signed: "sc \<noteq> None \<or> sp \<noteq> None"
    and d: "signing_digest H (base_fields a ref pre) = Inr d"
    and fc: "add_signature sc SIG_C d (base_fields a ref pre) = Inr fc"
    and f: "add_signature sp SIG_P d fc = Inr f" and enc: "encode f = Inr b"
    using build by (auto simp: build_card_Inr_iff)
  let ?base = "base_fields a ref pre"
  note f_facts = signed_fields [OF fc f]
  have body: "fget f n = fget ?base n" if "n \<in> set BODY_NAMES" for n
    using that signature_names(1,2) f_facts(1) by metis
  have doc: "''doc_type'' \<in> set BODY_NAMES" "''profile_version'' \<in> set BODY_NAMES" "''expires_at'' \<in> set BODY_NAMES"
    by (simp_all add: BODY_NAMES_def BODY_TAGS_def)
  have "length ref = 32" "\<forall>r. pre = Some r \<longrightarrow> length r = 32"
    using credential_ref_length [OF H ref] predecessor_ref_length [OF H pre] .
  from signed_values [OF f_facts(1) enc this keys]
  have "decode b = Inr (canon f) \<and> (\<forall>n. fget (canon f) n = fget f n)"
    by (intro encode_canon [OF enc]) (auto simp: body doc base_fget)
  then have dec: "decode b = Inr (canon f)" and canon: "\<And>n. fget (canon f) n = fget f n" by auto
  have "encode (body_part (canon f)) = encode (body_part ?base)"
  proof (rule encode_cong)
    show "\<forall>n. fget (body_part (canon f)) n = fget (body_part ?base) n"
      by (simp add: fget_body_part canon body)
    show "\<forall>n \<in> set REQUIRED. fget (body_part (canon f)) n \<noteq> CNone"
      using encode_InrD(2) [OF enc] required_are_names by (auto simp: fget_body_part canon)
  qed (use body_names_subset in \<open>auto simp: keys_body_part\<close>)
  then have sb: "signing_body (canon f) = signing_body ?base"
    by (simp add: signing_body_eq)
  with d have "signing_digest H (canon f) = Inr d"
    by (simp add: signing_digest_def)
  with that [OF dec this ref pre sb] canon body f_facts signed signature_names(3) show thesis
    by (simp add: body doc base_fget)
qed

lemma decoded_map_of:
  assumes "decode b = Inr g"
  shows "map_of g n = (if fget g n = CNone then None else Some (fget g n))"
proof -
  from assms have ok: "card_ok g" by (simp add: decode_iff)
  show ?thesis
    using card_ok_fget_None [OF ok, of n] by (auto simp: fget_def map_of_eq_None_iff split: option.splits)
qed

text \<open>Two field sets with one encoding have the same values, as far as they are encoded.\<close>

lemma encode_loop_head:
  assumes "encode_loop ts f = Inr b" "b \<noteq> []"
  shows "\<exists>(t, n) \<in> set ts. hd b = byte t"
  using assms
proof (induction ts)
  case (Cons tn ts)
  obtain t n where tn: "tn = (t, n)" by (cases tn)
  show ?case
  proof (cases "fget f n = CNone")
    case True
    then have "encode_loop ts f = Inr b" using Cons.prems(1) by (simp add: tn)
    then show ?thesis using Cons.IH Cons.prems(2) by auto
  next
    case False
    then obtain v r where "b = tlv t v @ r" using Cons.prems(1) by (auto simp: tn split: if_splits)
    then have "hd b = byte t" by (simp add: tlv_def)
    then show ?thesis by (auto simp: tn)
  qed
qed simp

lemma tlv_inject:
  assumes "tlv t v @ r = tlv t v' @ r'" "t < 256" "length v \<le> 0xFFFF" "length v' \<le> 0xFFFF"
  shows "v = v' \<and> r = r'"
  using assms tlv_parts(2) [OF assms(2,3), of r] tlv_parts(2) [OF assms(2,4), of r']
    tlv_parts(3) [OF assms(2,3), of r] tlv_parts(3) [OF assms(2,4), of r'] by (metis append_eq_append_conv)

lemma tlv_head: "hd (tlv t v @ r) = byte t" "tlv t v @ r \<noteq> []"
  by (simp_all add: tlv_def)

definition same_values :: "fields \<Rightarrow> fields \<Rightarrow> nat \<times> string \<Rightarrow> bool" where
  "same_values f g = (\<lambda>(t, n). (fget f n = CNone \<longleftrightarrow> fget g n = CNone) \<and>
     (fget f n \<noteq> CNone \<longrightarrow> encode_value t (fget f n) = encode_value t (fget g n)))"

lemma encode_loop_inject:
  assumes "encode_loop ts f = Inr b" "encode_loop ts g = Inr b"
    and "sorted_wrt (<) (map fst ts)" "\<forall>t \<in> fst ` set ts. t < 256"
  shows "list_all (same_values f g) ts"
  using assms
proof (induction ts arbitrary: b)
  case (Cons tn ts)
  obtain t n where tn: "tn = (t, n)" by (cases tn)
  have later: "hd r \<noteq> byte t" if "encode_loop ts h = Inr r" "r \<noteq> []" for h r
    using encode_loop_head [OF that] Cons.prems(3,4) byte_inject [of _ t] by (fastforce simp: tn)
  have step: "(fget h n = CNone \<and> encode_loop ts h = Inr b) \<or>
      (\<exists>v r. fget h n \<noteq> CNone \<and> encode_value t (fget h n) = Inr v \<and> length v \<le> 0xFFFF \<and> encode_loop ts h = Inr r \<and> b = tlv t v @ r)"
    if "encode_loop (tn # ts) h = Inr b" for h
    using that by (auto simp: tn split: if_splits)
  have t: "t < 256" using Cons.prems(4) by (simp add: tn)
  have IH: "encode_loop ts f = Inr r \<Longrightarrow> encode_loop ts g = Inr r \<Longrightarrow> list_all (same_values f g) ts" for r
    using Cons.IH Cons.prems(3,4) by simp
  consider (none) "fget f n = CNone" "fget g n = CNone" "encode_loop ts f = Inr b" "encode_loop ts g = Inr b"
    | (both) v r v' r' where "fget f n \<noteq> CNone" "fget g n \<noteq> CNone" "encode_value t (fget f n) = Inr v" "encode_value t (fget g n) = Inr v'"
        "length v \<le> 0xFFFF" "length v' \<le> 0xFFFF" "encode_loop ts f = Inr r" "encode_loop ts g = Inr r'" "b = tlv t v @ r" "b = tlv t v' @ r'"
  proof -
    have no: False if "encode_loop ts h = Inr b" "b = tlv t v @ r" for h v r
      using later [OF that(1)] tlv_head [of t v r] that(2) by simp
    show thesis
      using step [OF Cons.prems(1)] step [OF Cons.prems(2)]
    proof (elim disjE)
      assume "fget f n = CNone \<and> encode_loop ts f = Inr b" "fget g n = CNone \<and> encode_loop ts g = Inr b"
      then show thesis using none by blast
    next
      assume "\<exists>v r. fget f n \<noteq> CNone \<and> encode_value t (fget f n) = Inr v \<and> length v \<le> 0xFFFF \<and> encode_loop ts f = Inr r \<and> b = tlv t v @ r"
        "\<exists>v r. fget g n \<noteq> CNone \<and> encode_value t (fget g n) = Inr v \<and> length v \<le> 0xFFFF \<and> encode_loop ts g = Inr r \<and> b = tlv t v @ r"
      then show thesis using both by blast
    qed (use no in blast)+
  qed
  then show ?case
  proof cases
    case none
    then show ?thesis using IH by (simp add: tn same_values_def)
  next
    case both
    then have "v = v' \<and> r = r'" using tlv_inject [OF _ t] by metis
    then show ?thesis using IH both by (simp add: tn same_values_def)
  qed
qed simp

lemma built_card_keys:
  assumes "build_card H a sc sp = Inr b" "decode b = Inr g"
  shows "length (card_key_classical a) = CLASSICAL_KEY_LEN" "card_key_pq a = Some k \<Longrightarrow> length k = PQ_KEY_LEN"
proof -
  obtain ref pre d fc f where fc: "add_signature sc SIG_C d (base_fields a ref pre) = Inr fc"
    and f: "add_signature sp SIG_P d fc = Inr f" and enc: "encode f = Inr b"
    using assms(1) by (auto simp: build_card_Inr_iff)
  have ok: "card_ok g" "encode g = Inr b" using assms(2) encode_card_ok by (auto simp: decode_iff)
  have "list_all (same_values f g) ALL_TAGS"
    by (rule encode_loop_inject [OF encode_InrD(3) [OF enc] encode_InrD(3) [OF ok(2)] tags_ascend]) (auto dest: tag_lt_256)
  then have same: "same_values f g (tag_of n, n)" if "n \<in> set TAG_NAMES" for n
    using name_entry [OF that] by (auto simp: list_all_iff)
  have names: "''card_key_classical'' \<in> set TAG_NAMES" "''card_key_pq'' \<in> set TAG_NAMES"
    by (simp_all add: TAG_NAMES_def tag_tables)
  have held: "fget g n = CBytes k" if "fget f n = CBytes k" "n \<in> {''card_key_classical'', ''card_key_pq''}" for n k
  proof -
    have n: "n \<in> set TAG_NAMES" "fget g n \<noteq> CNone" and t: "tag_of n \<in> {9, 10}"
      using that same [of n] names body_tag_numbers by (auto simp: same_values_def)
    from n(2) have "(n, fget g n) \<in> set g" by (auto simp: fget_def dest: map_of_SomeD split: option.splits)
    then have v: "value_ok (tag_of n) (fget g n)" using card_ok_entry(2) [OF ok(1)] by blast
    then obtain k' where "fget g n = CBytes k'" using t by (cases "fget g n") (auto simp: value_ok_def)
    then show ?thesis using same [OF n(1)] that(1) t by (auto simp: same_values_def encode_value_bytes)
  qed
  have lens: "value_ok (tag_of n) (CBytes k)" if "fget f n = CBytes k" "n \<in> {''card_key_classical'', ''card_key_pq''}" for n k
  proof -
    have "(n, CBytes k) \<in> set g"
      using held [OF that] by (auto simp: fget_def dest: map_of_SomeD split: option.splits)
    then show ?thesis using card_ok_entry(2) [OF ok(1)] by blast
  qed
  have names_f: "n \<noteq> SIG_P" "n \<noteq> SIG_C" if "n \<in> {''card_key_classical'', ''card_key_pq''}" for n
    using that by auto
  have base: "fget f n = fget (base_fields a ref pre) n" if "n \<in> {''card_key_classical'', ''card_key_pq''}" for n
    using signed_fields(1) [OF fc f, of n] names_f [OF that] by simp
  show "length (card_key_classical a) = CLASSICAL_KEY_LEN"
    using lens [of "''card_key_classical''"] base [of "''card_key_classical''"] body_tag_numbers
    by (simp add: base_fields_def fget_def value_ok_def)
  show "length k = PQ_KEY_LEN" if "card_key_pq a = Some k"
    using lens [of "''card_key_pq''" k] base [of "''card_key_pq''"] body_tag_numbers that
    by (simp add: base_fields_def fget_def value_ok_def)
qed

text \<open>
  C2. What a built card needs to verify. Of any object \<open>build_card\<close> returns, an offline reader whose
  verification functions accept what the signers produce, under a hash of 32 bytes, finds it authentic
  exactly when the keys put on it have the lengths of the profile, which \<open>build_card\<close> does not check, and
  it is before its expiry; also when it insists on a post-quantum signature and the builder had a
  post-quantum signer.
\<close>

theorem built_card_verifies:
  assumes build: "build_card H a sc sp = Inr b" and H: "hash32 H"
    and accepts: "\<forall>s d g. sc = Some s \<and> s d = Some g \<longrightarrow> vc d g" "\<forall>s d g. sp = Some s \<and> s d = Some g \<longrightarrow> vp d g"
  shows "\<exists>v. verify_card H b (Some vc) (Some vp) (sp \<noteq> None) (Some t) = Inr v \<and>
    (authentic v \<longleftrightarrow> length (card_key_classical a) = CLASSICAL_KEY_LEN \<and>
       (\<forall>k. card_key_pq a = Some k \<longrightarrow> length k = PQ_KEY_LEN) \<and> t < expires_at a)"
proof (cases "length (card_key_classical a) = CLASSICAL_KEY_LEN \<and> (\<forall>k. card_key_pq a = Some k \<longrightarrow> length k = PQ_KEY_LEN)")
  case True
  then have keys: "length (card_key_classical a) = CLASSICAL_KEY_LEN" "\<forall>k. card_key_pq a = Some k \<longrightarrow> length k = PQ_KEY_LEN" by auto
  obtain g d where g: "decode b = Inr g" and d: "signing_digest H g = Inr d"
    and sigs: "fget g SIG_C = sig_val sc d" "fget g SIG_P = sig_val sp d"
    and expiry: "fget g ''expires_at'' = CInt (expires_at a)"
    and signs: "\<forall>s. sc = Some s \<longrightarrow> s d \<noteq> None" "\<forall>s. sp = Some s \<longrightarrow> s d \<noteq> None"
    and signed: "sc \<noteq> None \<or> sp \<noteq> None"
    by (rule built_card_decodes [OF build H keys])
  have d': "H (blob_of (body_part g)) = d"
    using d by (simp add: signing_digest_def signing_body_decoded [OF g])
  have "check_signature (Some vc) d (map_of g SIG_C) = map_option (\<lambda>_. True) sc"
    "check_signature (Some vp) d (map_of g SIG_P) = map_option (\<lambda>_. True) sp"
    "map_of g SIG_P \<noteq> None \<longleftrightarrow> sp \<noteq> None"
    using sigs signs accepts by (auto simp: decoded_map_of [OF g] check_signature_def sig_val_def split: option.splits)
  then have "card_rule d g (Some vc) (Some vp) (sp \<noteq> None) (Some t) \<longleftrightarrow> t < expires_at a"
    using signed expiry by (auto simp: card_rule_def Let_def)
  with verify_card_returns [of H b "Some vc" "Some vp" "sp \<noteq> None" "Some t"] g d' True show ?thesis
    by auto
next
  case False
  then have "\<nexists>g. decode b = Inr g" using built_card_keys [OF build] by blast
  with verify_card_returns [of H b "Some vc" "Some vp" "sp \<noteq> None" "Some t"] False show ?thesis by auto
qed


text \<open>Arguments a card can be built from, whatever the signers return.\<close>

definition admissible :: "build_args \<Rightarrow> bool" where
  "admissible a \<longleftrightarrow>
     list_all scalar (token_value a) \<and>
     (case predecessor_token_value a of None \<Rightarrow> True | Some p \<Rightarrow> list_all scalar p) \<and>
     list_all (\<lambda>n. 0 \<le> n \<and> n < 2 ^ 32) [issuing_authority a, activation_sequence a] \<and>
     list_all (\<lambda>n. 0 \<le> n \<and> n < 2 ^ 64) [issued_at a, expires_at a] \<and>
     length (card_key_classical a) = CLASSICAL_KEY_LEN \<and>
     (case card_key_pq a of None \<Rightarrow> True | Some k \<Rightarrow> length k = PQ_KEY_LEN)"

lemma encode_succeeds:
  assumes "fst ` set f \<subseteq> set TAG_NAMES" "\<forall>n \<in> set REQUIRED. fget f n \<noteq> CNone"
    and "\<forall>(t, n) \<in> set ALL_TAGS. fget f n \<noteq> CNone \<longrightarrow> value_ok t (fget f n)"
  shows "\<exists>b. encode f = Inr b"
  using encode_eq_loop [OF assms(1,2)] encode_loop_blob [OF assms(3)] by simp

lemma base_value_ok:
  assumes "admissible a" "length ref = 32" "\<forall>r. pre = Some r \<longrightarrow> length r = 32"
    and "(t, n) \<in> set ALL_TAGS" "fget (base_fields a ref pre) n \<noteq> CNone"
  shows "value_ok t (fget (base_fields a ref pre) n)"
proof -
  have ints: "value_ok 4 (CInt (issuing_authority a))" "value_ok 5 (CInt (activation_sequence a))"
    "value_ok 7 (CInt (issued_at a))" "value_ok 8 (CInt (expires_at a))"
    "value_ok 1 (CInt (int PROFILE_VERSION))"
    using assms(1) by (simp_all add: admissible_def value_ok_def PROFILE_VERSION_def nat_less_iff)
  have bytes: "value_ok 3 (CBytes ref)" "value_ok 9 (CBytes (card_key_classical a))"
    "\<And>r. pre = Some r \<Longrightarrow> value_ok 6 (CBytes r)" "\<And>k. card_key_pq a = Some k \<Longrightarrow> value_ok 10 (CBytes k)"
    using assms(1-3) by (auto simp: admissible_def value_ok_def CLASSICAL_KEY_LEN_def PQ_KEY_LEN_def)
  have "list_all (\<lambda>(n, v). value_ok (tag_of n) v) (base_fields a ref pre)"
    using ints bytes doc_type_ok by (simp add: base_fields_def body_tag_numbers split: option.split)
  moreover have "(n, fget (base_fields a ref pre) n) \<in> set (base_fields a ref pre)"
    using assms(5) by (auto simp: fget_def dest: map_of_SomeD split: option.splits)
  ultimately show ?thesis
    by (auto simp: list_all_iff tag_of_entry [OF assms(4)])
qed

lemma credential_ref_succeeds: "list_all scalar t \<Longrightarrow> \<exists>r. credential_ref H t = Inr r"
  by (simp add: credential_ref_def utf8_encode_def)

lemma base_required: "n \<in> set REQUIRED \<Longrightarrow> fget (base_fields a ref pre) n \<noteq> CNone"
  by (auto simp: REQUIRED_def base_fields_def fget_def)

lemma add_signature_succeeds:
  "\<forall>s. sg = Some s \<longrightarrow> s d \<noteq> None \<Longrightarrow> \<exists>g. add_signature sg nm d f = Inr g"
  by (auto simp: add_signature_def split: option.split)

lemma build_card_succeeds:
  assumes adm: "admissible a" and H: "hash32 H" and signed: "sc \<noteq> None \<or> sp \<noteq> None"
    and signs: "\<And>s d. sc = Some s \<or> sp = Some s \<Longrightarrow> \<exists>g. s d = Some g \<and> (length d = 32 \<longrightarrow> length g \<le> 0xFFFF)"
  shows "\<exists>b. build_card H a sc sp = Inr b"
proof -
  obtain ref where ref: "credential_ref H (token_value a) = Inr ref"
    using adm credential_ref_succeeds by (auto simp: admissible_def)
  obtain pre where pre: "predecessor_ref H a = Inr pre"
    using adm credential_ref_succeeds by (fastforce simp: predecessor_ref_def admissible_def split: option.splits)
  let ?base = "base_fields a ref pre"
  note base_ok = base_value_ok [OF adm credential_ref_length [OF H ref] predecessor_ref_length [OF H pre]]
  have "\<exists>b. encode (body_part ?base) = Inr b"
    using base_keys body_names_subset base_required required_are_names base_ok
    by (intro encode_succeeds) (auto simp: keys_body_part fget_body_part)
  then obtain d where d: "signing_digest H ?base = Inr d" and ld: "length d = 32"
    using H by (auto simp: signing_digest_def signing_body_eq hash32_def)
  obtain fc where fc: "add_signature sc SIG_C d ?base = Inr fc"
    using add_signature_succeeds [of sc d] signs by fastforce
  obtain f where f: "add_signature sp SIG_P d fc = Inr f"
    using add_signature_succeeds [of sp d] signs by fastforce
  note facts = signed_fields [OF fc f]
  have sig_ok: "value_ok t (sig_val s d)" if "sig_val s d \<noteq> CNone" "t \<in> {32, 33}" "s = sc \<or> s = sp" for s t
    using that signs [of _ d] ld by (fastforce simp: sig_val_def value_ok_def split: option.splits)
  have tags: "tag_of SIG_C = 32" "tag_of SIG_P = 33" by code_simp+
  have "\<exists>b. encode f = Inr b"
  proof (rule encode_succeeds)
    show "fst ` set f \<subseteq> set TAG_NAMES"
      using facts(2) body_names_subset by (auto simp: TAG_NAMES_def tag_tables)
    show "\<forall>n \<in> set REQUIRED. fget f n \<noteq> CNone"
    proof
      fix n assume n: "n \<in> set REQUIRED"
      then have "n \<noteq> SIG_C" "n \<noteq> SIG_P"
        using required_are_names signature_names by blast+
      with base_required [OF n] show "fget f n \<noteq> CNone" by (simp add: facts(1))
    qed
    show "\<forall>(t, n) \<in> set ALL_TAGS. fget f n \<noteq> CNone \<longrightarrow> value_ok t (fget f n)"
    proof clarify
      fix t n assume tn: "(t, n) \<in> set ALL_TAGS" and some: "fget f n \<noteq> CNone"
      consider "n = SIG_P" | "n = SIG_C" "n \<noteq> SIG_P" | "n \<noteq> SIG_C" "n \<noteq> SIG_P" by blast
      then show "value_ok t (fget f n)"
        using some sig_ok base_ok [OF tn] tag_of_entry [OF tn] tags by cases (auto simp: facts(1))
    qed
  qed
  then show ?thesis
    using ref pre signed d fc f by (auto simp: build_card_Inr_iff)
qed

definition sample_hash :: "bytes \<Rightarrow> bytes" where
  "sample_hash x = replicate 32 (byte (length x))"

definition sample_args :: build_args where
  "sample_args =
     \<lparr>token_value = lit ''POLARIS-1'', issuing_authority = 1, activation_sequence = 1,
      issued_at = 1000, expires_at = 2000, card_key_classical = replicate 65 4,
      card_key_pq = None, predecessor_token_value = None\<rparr>"

definition sample_sign :: signer where
  "sample_sign d = Some (d @ [1])"

definition sample_check :: sig_check where
  "sample_check d s = (s = d @ [1])"

lemma utf8_encode_lit: "list_all (\<lambda>c. of_char c < (0x80 :: nat)) s \<Longrightarrow> utf8_encode (lit s) = Some (map byte (lit s))"
  by (rule utf8_encode_ascii) (simp add: ascii_def lit_def list_all_iff)

lemma sample_builds: "\<exists>b. build_card sample_hash sample_args (Some sample_sign) None = Inr b"
proof (rule build_card_succeeds)
  show "admissible sample_args"
    by (simp add: admissible_def sample_args_def CLASSICAL_KEY_LEN_def lit_def scalar_def)
qed (simp_all add: hash32_def sample_hash_def sample_sign_def)

theorem built_card_verifies_witness:
  "\<exists>b v. build_card sample_hash sample_args (Some sample_sign) None = Inr b \<and>
    verify_card sample_hash b (Some sample_check) (Some sample_check) False (Some 1500) = Inr v \<and> authentic v"
proof -
  obtain b where b: "build_card sample_hash sample_args (Some sample_sign) None = Inr b"
    using sample_builds by auto
  have "\<exists>v. verify_card sample_hash b (Some sample_check) (Some sample_check) (None \<noteq> (None :: signer option))
      (Some 1500) = Inr v \<and> (authentic v \<longleftrightarrow> length (card_key_classical sample_args) = CLASSICAL_KEY_LEN \<and>
        (\<forall>k. card_key_pq sample_args = Some k \<longrightarrow> length k = PQ_KEY_LEN) \<and> 1500 < expires_at sample_args)"
    by (rule built_card_verifies [OF b]) (auto simp: hash32_def sample_hash_def sample_sign_def sample_check_def)
  with b show ?thesis by (auto simp: sample_args_def CLASSICAL_KEY_LEN_def)
qed

section \<open>Properties of the profile\<close>

text \<open>
  C6. One card object, one encoding. The decoder accepts exactly the encodings of well-formed
  field sets: a blob decodes to \<open>f\<close> if and only if \<open>f\<close> is well formed (closed vocabulary,
  each field once, in tag order, of its type, required ones present, right document type and
  version) and the blob is what \<open>encode\<close> writes for \<open>f\<close>.
\<close>

theorem card_encoding_exact: "decode b = Inr f \<longleftrightarrow> card_ok f \<and> encode f = Inr b"
  using decode_iff encode_card_ok by (metis sum.inject(2))

text \<open>
  An offline verdict on any bytes. \<open>verify_card\<close> never raises, and it says authentic exactly
  when the bytes decode, every signature that was checked verifies over the digest of the body,
  at least one was checked, a post-quantum signature is carried if the reader requires one, and
  the object has not expired. In particular, with both signatures carried and both verifiers
  supplied, both must verify: the anti-downgrade rule.
\<close>

theorem verify_card_decides:
  "\<exists>v. verify_card H b vc vp require_pq now = Inr v \<and>
     (authentic v \<longleftrightarrow> (\<exists>f d. decode b = Inr f \<and> signing_digest H f = Inr d \<and>
        card_rule d f vc vp require_pq now))"
proof -
  have "signing_digest H f = Inr d \<longleftrightarrow> d = H (blob_of (body_part f))" if "decode b = Inr f" for f d
    by (auto simp: signing_digest_def signing_body_decoded [OF that])
  with verify_card_returns [of H b vc vp require_pq now] show ?thesis by metis
qed

text \<open>
  What an issuer signs is the content. Two objects that decode and whose signing bodies are
  the same bytes carry the same body fields, so a signature made for one card cannot be moved
  onto a card that says anything else.
\<close>

theorem signing_body_determines_card:
  assumes "decode b1 = Inr f1" "decode b2 = Inr f2" and "signing_body f1 = signing_body f2"
  shows "filter (\<lambda>(k, v). k \<in> set BODY_NAMES) f1 = filter (\<lambda>(k, v). k \<in> set BODY_NAMES) f2"
proof -
  have "card_ok (body_part f1)" "card_ok (body_part f2)"
    using assms by (simp_all add: decode_iff body_part_ok)
  with assms have "body_part f1 = body_part f2"
    by (simp add: signing_body_decoded blob_of_inject)
  then show ?thesis by (simp add: body_part_def)
qed

lemma sample_decodes:
  assumes "\<And>d. sg d \<noteq> None" "\<And>d. length d = 32 \<Longrightarrow> length (the (sg d)) \<le> 0xFFFF"
  shows "\<exists>b f r p. build_card sample_hash sample_args (Some sg) None = Inr b \<and> decode b = Inr f \<and>
    credential_ref sample_hash (token_value sample_args) = Inr r \<and> predecessor_ref sample_hash sample_args = Inr p \<and>
    signing_body f = signing_body (base_fields sample_args r p)"
proof -
  have "admissible sample_args"
    by (simp add: admissible_def sample_args_def CLASSICAL_KEY_LEN_def lit_def scalar_def)
  then obtain b where b: "build_card sample_hash sample_args (Some sg) None = Inr b"
    using build_card_succeeds [of sample_args sample_hash "Some sg" None] assms
    by (fastforce simp: hash32_def sample_hash_def)
  show ?thesis
    by (rule built_card_decodes [OF b])
      (use b in \<open>auto simp: hash32_def sample_hash_def sample_args_def CLASSICAL_KEY_LEN_def\<close>)
qed

theorem signing_body_determines_card_witness:
  "\<exists>b1 b2 f1 f2. build_card sample_hash sample_args (Some sample_sign) None = Inr b1 \<and>
    build_card sample_hash sample_args (Some Some) None = Inr b2 \<and> decode b1 = Inr f1 \<and> decode b2 = Inr f2 \<and>
    filter (\<lambda>(k, v). k \<in> set BODY_NAMES) f1 = filter (\<lambda>(k, v). k \<in> set BODY_NAMES) f2"
proof -
  obtain b1 f1 b2 f2 where f1: "build_card sample_hash sample_args (Some sample_sign) None = Inr b1" "decode b1 = Inr f1"
    and f2: "build_card sample_hash sample_args (Some Some) None = Inr b2" "decode b2 = Inr f2"
    and same: "signing_body f1 = signing_body f2"
    using sample_decodes [of sample_sign] sample_decodes [of Some] by (auto simp: sample_sign_def)
  from signing_body_determines_card [OF f1(2) f2(2) same] f1 f2 show ?thesis by blast
qed

text \<open>
  A card's answer is bound to its reader. From the bytes a card signs, the challenge, the
  reader's scope and the pairwise handle can all be read back: no two different presentations
  have the same signed bytes, so an answer made for one reader is not an answer to another.
\<close>

theorem response_body_binds:
  assumes "response_body c s h = Inr b" "response_body c' s' h' = Inr b"
  shows "c = c' \<and> s = s' \<and> h = h'"
  using assms by (rule response_body_inject)

theorem response_body_binds_witness:
  "\<exists>b c s h. response_body (replicate 16 7) (lit ''gate'') [1] = Inr b \<and> response_body c s h = Inr b \<and>
    c = replicate 16 7 \<and> s = lit ''gate'' \<and> h = [1]"
proof -
  obtain b where b: "response_body (replicate 16 7) (lit ''gate'') [1] = Inr b"
    by (simp add: response_body_def utf8_encode_lit)
  then obtain c s h where c: "response_body c s h = Inr b" by blast
  from response_body_binds [OF c b] b c show ?thesis by blast
qed

end
