(* ===== verification/CardEmulator.thy ===== *)
theory CardEmulator
  imports CardProfile
begin

text \<open>
  The software token, \<open>polaris_card/emulator.py\<close>: a card as a state machine that takes command
  APDUs. Every command is a function from the state to the new state and the response, where
  the response \<open>None\<close> stands for an exception; \<open>transmit\<close> turns it into a status word and keeps
  whatever the command had changed before it raised. The cryptography injected into the token
  (\<open>sign_with_slot\<close>, \<open>generate_keypair\<close>) is a pair of functions over a backend state \<open>'b\<close>, since
  both draw randomness and the generator keeps the slots it has made. SHA3-256 is \<open>H\<close>.
\<close>

unbundle bit_operations_syntax

section \<open>Commands and status words\<close>

definition CLA :: "8 word" where "CLA = 0x80"
definition INS_SELECT :: "8 word" where "INS_SELECT = 0xA4"
definition INS_VERIFY_PIN :: "8 word" where "INS_VERIFY_PIN = 0x20"
definition INS_UNBLOCK :: "8 word" where "INS_UNBLOCK = 0x2C"
definition INS_GET_CARD_OBJECT :: "8 word" where "INS_GET_CARD_OBJECT = 0x30"
definition INS_SIGN_CHALLENGE :: "8 word" where "INS_SIGN_CHALLENGE = 0x34"
definition INS_GENERATE_KEYPAIR :: "8 word" where "INS_GENERATE_KEYPAIR = 0x47"
definition INS_PUT_CARD_OBJECT :: "8 word" where "INS_PUT_CARD_OBJECT = 0xDA"

lemmas ins_defs = INS_SELECT_def INS_VERIFY_PIN_def INS_UNBLOCK_def INS_GET_CARD_OBJECT_def
  INS_SIGN_CHALLENGE_def INS_GENERATE_KEYPAIR_def INS_PUT_CARD_OBJECT_def

definition SW_OK :: nat where "SW_OK = 0x9000"
definition SW_WRONG_PIN :: nat where "SW_WRONG_PIN = 0x63C0"
definition SW_BLOCKED :: nat where "SW_BLOCKED = 0x6983"
definition SW_SECURITY_NOT_SATISFIED :: nat where "SW_SECURITY_NOT_SATISFIED = 0x6982"
definition SW_WRONG_LENGTH :: nat where "SW_WRONG_LENGTH = 0x6700"
definition SW_WRONG_DATA :: nat where "SW_WRONG_DATA = 0x6A80"
definition SW_INS_NOT_SUPPORTED :: nat where "SW_INS_NOT_SUPPORTED = 0x6D00"
definition SW_CLA_NOT_SUPPORTED :: nat where "SW_CLA_NOT_SUPPORTED = 0x6E00"
definition SW_CONDITIONS_NOT_SATISFIED :: nat where "SW_CONDITIONS_NOT_SATISFIED = 0x6985"
definition SW_ALREADY_PERSONALIZED :: nat where "SW_ALREADY_PERSONALIZED = 0x6A89"

definition MAX_PIN_TRIES :: int where "MAX_PIN_TRIES = 3"
definition MAX_PUK_TRIES :: int where "MAX_PUK_TRIES = 10"

lemmas sw_defs = SW_OK_def SW_WRONG_PIN_def SW_BLOCKED_def SW_SECURITY_NOT_SATISFIED_def
  SW_WRONG_LENGTH_def SW_WRONG_DATA_def SW_INS_NOT_SUPPORTED_def SW_CLA_NOT_SUPPORTED_def
  SW_CONDITIONS_NOT_SATISFIED_def SW_ALREADY_PERSONALIZED_def

text \<open>Every status word the card makes is below \<open>2 ^ 16\<close>, where \<open>struct.pack(">H", sw)\<close> is total.\<close>

definition sw_bytes :: "nat \<Rightarrow> bytes" where
  "sw_bytes sw = be_encode 2 sw"

section \<open>The token\<close>

datatype lifecycle = BLANK | PERSONALIZED

datatype slot = NormalSlot | DuressSlot

record 'b token =
  card_object :: "bytes option"
  tstate :: lifecycle
  duress_enrolled :: bool
  pins :: "slot \<Rightarrow> ustr"
  puk :: ustr
  secrets :: "slot \<Rightarrow> bytes option"
  generated :: bool
  selected :: bool
  unlocked_slot :: "slot option"
  tries :: int
  puk_tries :: int
  backend :: 'b

record 'b crypto =
  sign_with_slot :: "('b \<Rightarrow> slot \<Rightarrow> bytes \<Rightarrow> bytes option \<times> 'b) option"
  generate_fn :: "('b \<Rightarrow> slot \<Rightarrow> bytes option \<times> 'b) option"

text \<open>
  \<open>hmac.compare_digest\<close> on two strings: a \<open>TypeError\<close> unless both are ASCII.
\<close>

definition compare_digest :: "ustr \<Rightarrow> ustr \<Rightarrow> bool option" where
  "compare_digest a b = (if ascii a \<and> ascii b then Some (a = b) else None)"

text \<open>\<open>filler n\<close> is the text \<open>secrets.token_urlsafe(n)\<close> returns.\<close>

definition unmatchable :: "(nat \<Rightarrow> ustr) \<Rightarrow> nat \<Rightarrow> ustr" where
  "unmatchable filler n =
     take (max n 1) (0 # take (n - 1) (filler (max n 1)))"

definition blocked :: "'b token \<Rightarrow> bool" where
  "blocked t \<longleftrightarrow> tries t \<le> 0"

definition tries_remaining :: "'b token \<Rightarrow> int" where
  "tries_remaining t = max (tries t) 0"

definition reset :: "'b token \<Rightarrow> 'b token" where
  "reset t = t\<lparr>selected := False, unlocked_slot := None\<rparr>"

datatype token_exn = PinsEqual | PinLengthsDiffer | NoDuressSecret | BadCardObject card_exn | TypeErr

text \<open>
  The constructor. \<open>reset\<close>, called last, finds no counters and sets them.
\<close>

definition new_token ::
    "(nat \<Rightarrow> ustr) \<Rightarrow> bytes option \<Rightarrow> ustr \<Rightarrow> ustr option \<Rightarrow> ustr \<Rightarrow> bytes \<Rightarrow> bytes option \<Rightarrow> 'b
      \<Rightarrow> token_exn + 'b token" where
  "new_token filler obj normal_pin duress_pin puk0 secret_normal secret_duress b =
     rbind (case duress_pin of None \<Rightarrow> Inr ()
        | Some d \<Rightarrow>
            (case compare_digest normal_pin d of None \<Rightarrow> Inl TypeErr
             | Some same \<Rightarrow>
                 if same then Inl PinsEqual
                 else if length d \<noteq> length normal_pin then Inl PinLengthsDiffer
                 else if secret_duress = None then Inl NoDuressSecret
                 else Inr ())) (\<lambda>_.
     rbind (case obj of None \<Rightarrow> Inr ()
        | Some ob \<Rightarrow> (case decode ob of Inl e \<Rightarrow> Inl (BadCardObject e) | Inr _ \<Rightarrow> Inr ())) (\<lambda>_.
     Inr (reset
       \<lparr>card_object = obj, tstate = (if obj \<noteq> None then PERSONALIZED else BLANK),
        duress_enrolled = (duress_pin \<noteq> None),
        pins = (\<lambda>s. case s of NormalSlot \<Rightarrow> normal_pin
                  | DuressSlot \<Rightarrow> (case duress_pin of Some d \<Rightarrow> d
                                   | None \<Rightarrow> unmatchable filler (length normal_pin))),
        puk = puk0,
        secrets = (\<lambda>s. case s of NormalSlot \<Rightarrow> Some secret_normal | DuressSlot \<Rightarrow> secret_duress),
        generated = False, selected = False, unlocked_slot = None,
        tries = MAX_PIN_TRIES, puk_tries = MAX_PUK_TRIES, backend = b\<rparr>)))"

section \<open>Commands\<close>

definition select_cmd :: "'b token \<Rightarrow> 'b token \<times> bytes option" where
  "select_cmd t =
     (t\<lparr>selected := True, unlocked_slot := None\<rparr>,
      Some (utf8_raw DOC_TYPE @ [byte PROFILE_VERSION] @ [byte (nat (tries_remaining t))] @ sw_bytes SW_OK))"

text \<open>What a PIN or PUK command supplied; undecodable bytes are the text of one NUL.\<close>

definition supplied_text :: "bytes \<Rightarrow> ustr" where
  "supplied_text data = (case utf8_decode data of Some s \<Rightarrow> s | None \<Rightarrow> [0])"

definition verify_pin_cmd :: "'b token \<Rightarrow> bytes \<Rightarrow> 'b token \<times> bytes option" where
  "verify_pin_cmd t data =
     (if blocked t then (t, Some (sw_bytes SW_BLOCKED))
      else
        let supplied = supplied_text data in
        (case compare_digest supplied (pins t NormalSlot) of None \<Rightarrow> (t, None)
         | Some normal_ok \<Rightarrow>
        (case compare_digest supplied (pins t DuressSlot) of None \<Rightarrow> (t, None)
         | Some duress_ok \<Rightarrow>
             if normal_ok \<or> duress_ok then
               (t\<lparr>unlocked_slot := Some (if duress_ok then DuressSlot else NormalSlot),
                  tries := MAX_PIN_TRIES\<rparr>, Some (sw_bytes SW_OK))
             else
               let t2 = t\<lparr>tries := tries t - 1, unlocked_slot := None\<rparr> in
               (t2, Some (if blocked t2 then sw_bytes SW_BLOCKED
                          else sw_bytes (SW_WRONG_PIN OR nat (tries_remaining t2)))))))"

definition unblock_cmd :: "'b token \<Rightarrow> bytes \<Rightarrow> 'b token \<times> bytes option" where
  "unblock_cmd t data =
     (if puk_tries t \<le> 0 then (t, Some (sw_bytes SW_BLOCKED))
      else
        (case compare_digest (supplied_text data) (puk t) of None \<Rightarrow> (t, None)
         | Some True \<Rightarrow>
             (t\<lparr>tries := MAX_PIN_TRIES, puk_tries := MAX_PUK_TRIES\<rparr>, Some (sw_bytes SW_OK))
         | Some False \<Rightarrow>
             let t2 = t\<lparr>puk_tries := puk_tries t - 1\<rparr> in
             (t2, Some (sw_bytes (SW_WRONG_PIN OR nat (max (puk_tries t2) 0))))))"

definition is_blank :: "'b token \<Rightarrow> bool" where
  "is_blank t \<longleftrightarrow> card_object t = None"

definition get_card_object_cmd :: "'b token \<Rightarrow> 'b token \<times> bytes option" where
  "get_card_object_cmd t =
     (if unlocked_slot t = None then (t, Some (sw_bytes SW_SECURITY_NOT_SATISFIED))
      else (case card_object t of None \<Rightarrow> (t, Some (sw_bytes SW_CONDITIONS_NOT_SATISFIED))
            | Some ob \<Rightarrow> (t, Some (ob @ sw_bytes SW_OK))))"

text \<open>The signing step, after every check: the backend signs and the answer is assembled.\<close>

definition sign_body ::
    "'b crypto \<Rightarrow> 'b token \<Rightarrow> slot \<Rightarrow> bytes \<Rightarrow> bytes \<Rightarrow> 'b token \<times> bytes option" where
  "sign_body C t s handle body =
     (case sign_with_slot C of None \<Rightarrow> (t, Some (sw_bytes SW_CONDITIONS_NOT_SATISFIED))
      | Some sign_fn \<Rightarrow>
          (case sign_fn (backend t) s body of (sg, b) \<Rightarrow>
             (t\<lparr>backend := b\<rparr>,
              case sg of None \<Rightarrow> None
              | Some signature \<Rightarrow>
                  if 255 < length handle \<or> 0xFFFF < length signature then None
                  else Some ([byte (length handle)] @ handle @ be_encode 2 (length signature)
                             @ signature @ sw_bytes SW_OK))))"

definition sign_challenge_cmd ::
    "(bytes \<Rightarrow> bytes) \<Rightarrow> 'b crypto \<Rightarrow> 'b token \<Rightarrow> bytes \<Rightarrow> 'b token \<times> bytes option" where
  "sign_challenge_cmd H C t data =
     (case unlocked_slot t of None \<Rightarrow> (t, Some (sw_bytes SW_SECURITY_NOT_SATISFIED))
      | Some s \<Rightarrow>
      if is_blank t then (t, Some (sw_bytes SW_CONDITIONS_NOT_SATISFIED))
      else if data = [] then (t, Some (sw_bytes SW_WRONG_LENGTH))
      else
        let scope_len = unat (hd data) in
        if length data < 1 + scope_len then (t, Some (sw_bytes SW_WRONG_LENGTH))
        else
          (case utf8_decode (take scope_len (tl data)) of None \<Rightarrow> (t, Some (sw_bytes SW_WRONG_DATA))
           | Some scope \<Rightarrow>
               let challenge = drop (1 + scope_len) data in
               (case secrets t s of None \<Rightarrow> (t, None)
                | Some secret \<Rightarrow>
                    (case pairwise_handle H secret scope of Inl _ \<Rightarrow> (t, None)
                     | Inr handle \<Rightarrow>
                         (case response_body challenge scope handle of
                            Inl (CardProfileError _) \<Rightarrow> (t, Some (sw_bytes SW_WRONG_DATA))
                          | Inl OtherError \<Rightarrow> (t, None)
                          | Inr body \<Rightarrow> sign_body C t s handle body)))))"

text \<open>\<open>bytes([n])\<close> raises above 255, after the slots were generated.\<close>

definition generate_keypair_cmd :: "'b crypto \<Rightarrow> 'b token \<Rightarrow> 'b token \<times> bytes option" where
  "generate_keypair_cmd C t =
     (if tstate t \<noteq> BLANK \<or> generated t then (t, Some (sw_bytes SW_ALREADY_PERSONALIZED))
      else
        (case generate_fn C of None \<Rightarrow> (t, Some (sw_bytes SW_CONDITIONS_NOT_SATISFIED))
         | Some gen \<Rightarrow>
             (case gen (backend t) NormalSlot of
                (None, b1) \<Rightarrow> (t\<lparr>backend := b1\<rparr>, None)
              | (Some normal_pub, b1) \<Rightarrow>
                  (case gen b1 DuressSlot of
                     (None, b2) \<Rightarrow> (t\<lparr>backend := b2\<rparr>, None)
                   | (Some duress_pub, b2) \<Rightarrow>
                       (t\<lparr>backend := b2, generated := True\<rparr>,
                        if 255 < length normal_pub \<or> 255 < length duress_pub then None
                        else Some ([byte (length normal_pub)] @ normal_pub
                                   @ [byte (length duress_pub)] @ duress_pub @ sw_bytes SW_OK))))))"

definition put_card_object_cmd :: "'b token \<Rightarrow> bytes \<Rightarrow> 'b token \<times> bytes option" where
  "put_card_object_cmd t data =
     (if tstate t \<noteq> BLANK then (t, Some (sw_bytes SW_ALREADY_PERSONALIZED))
      else
        (case decode data of
           Inl (CardProfileError _) \<Rightarrow> (t, Some (sw_bytes SW_WRONG_DATA))
         | Inl OtherError \<Rightarrow> (t, None)
         | Inr _ \<Rightarrow>
             (t\<lparr>card_object := Some data, tstate := PERSONALIZED\<rparr>, Some (sw_bytes SW_OK))))"

section \<open>The wire\<close>

text \<open>The data field of a command of at least four bytes, short or extended; \<open>None\<close>: wrong length.\<close>

definition apdu_data :: "bytes \<Rightarrow> bytes option" where
  "apdu_data apdu =
     (if length apdu \<le> 4 then Some []
      else
        let lc = unat (apdu ! 4) in
        if lc = 0 \<and> 7 \<le> length apdu then
          let lc2 = be_decode (take 2 (drop 5 apdu)) in
          if length apdu < 7 + lc2 then None else Some (take lc2 (drop 7 apdu))
        else if length apdu < 5 + lc then None else Some (take lc (drop 5 apdu)))"

definition dispatch ::
    "(bytes \<Rightarrow> bytes) \<Rightarrow> 'b crypto \<Rightarrow> 'b token \<Rightarrow> 8 word \<Rightarrow> bytes \<Rightarrow> 'b token \<times> bytes option" where
  "dispatch H C t ins data =
     (if ins = INS_SELECT then select_cmd t
      else if \<not> selected t then (t, Some (sw_bytes SW_CONDITIONS_NOT_SATISFIED))
      else if ins = INS_VERIFY_PIN then verify_pin_cmd t data
      else if ins = INS_UNBLOCK then unblock_cmd t data
      else if ins = INS_GET_CARD_OBJECT then get_card_object_cmd t
      else if ins = INS_SIGN_CHALLENGE then sign_challenge_cmd H C t data
      else if ins = INS_GENERATE_KEYPAIR then generate_keypair_cmd C t
      else if ins = INS_PUT_CARD_OBJECT then put_card_object_cmd t data
      else (t, Some (sw_bytes SW_INS_NOT_SUPPORTED)))"

definition transmit_raw ::
    "(bytes \<Rightarrow> bytes) \<Rightarrow> 'b crypto \<Rightarrow> 'b token \<Rightarrow> bytes \<Rightarrow> 'b token \<times> bytes option" where
  "transmit_raw H C t apdu =
     (if length apdu < 4 then (t, Some (sw_bytes SW_WRONG_LENGTH))
      else if apdu ! 0 \<noteq> CLA then (t, Some (sw_bytes SW_CLA_NOT_SUPPORTED))
      else
        (case apdu_data apdu of None \<Rightarrow> (t, Some (sw_bytes SW_WRONG_LENGTH))
         | Some data \<Rightarrow> dispatch H C t (apdu ! 1) data))"

definition transmit ::
    "(bytes \<Rightarrow> bytes) \<Rightarrow> 'b crypto \<Rightarrow> 'b token \<Rightarrow> bytes \<Rightarrow> 'b token \<times> bytes" where
  "transmit H C t apdu =
     (case transmit_raw H C t apdu of
        (t2, Some resp) \<Rightarrow> (t2, resp)
      | (t2, None) \<Rightarrow> (t2, sw_bytes SW_WRONG_DATA))"

section \<open>Command builders and response parsers\<close>

definition select :: bytes where
  "select = [CLA, INS_SELECT, 0x04, 0x00, 0x00]"

definition pin_apdu :: "8 word \<Rightarrow> ustr \<Rightarrow> bytes option" where
  "pin_apdu ins pin =
     (case utf8_encode pin of None \<Rightarrow> None
      | Some raw \<Rightarrow>
          if 255 < length raw then None
          else Some ([CLA, ins, 0x00, 0x80, byte (length raw)] @ raw))"

definition verify_pin :: "ustr \<Rightarrow> bytes option" where
  "verify_pin pin = pin_apdu INS_VERIFY_PIN pin"

definition unblock :: "ustr \<Rightarrow> bytes option" where
  "unblock puk0 = pin_apdu INS_UNBLOCK puk0"

definition generate_keypair :: bytes where
  "generate_keypair = [CLA, INS_GENERATE_KEYPAIR, 0x00, 0x00, 0x00]"

definition put_card_object :: "bytes \<Rightarrow> bytes option" where
  "put_card_object ob =
     (if 0xFFFF < length ob then None
      else Some ([CLA, INS_PUT_CARD_OBJECT, 0x00, 0x00, 0x00] @ be_encode 2 (length ob) @ ob))"

definition get_card_object :: bytes where
  "get_card_object = [CLA, INS_GET_CARD_OBJECT, 0x00, 0x00, 0x00]"

definition sign_challenge :: "ustr \<Rightarrow> bytes \<Rightarrow> bytes option" where
  "sign_challenge reader_scope challenge =
     (case utf8_encode reader_scope of None \<Rightarrow> None
      | Some scope \<Rightarrow>
          if 0xFF < length scope then None
          else
            let data = [byte (length scope)] @ scope @ challenge in
            if 0xFF < length data then None
            else Some ([CLA, INS_SIGN_CHALLENGE, 0x00, 0x00, byte (length data)] @ data))"

text \<open>\<open>status_word\<close> raises on fewer than two bytes.\<close>

definition status_word :: "bytes \<Rightarrow> nat option" where
  "status_word response =
     (if length response < 2 then None else Some (be_decode (drop (length response - 2) response)))"

definition payload :: "bytes \<Rightarrow> bytes" where
  "payload response = take (length response - 2) response"

definition is_ok :: "bytes \<Rightarrow> bool option" where
  "is_ok response = map_option (\<lambda>sw. sw = SW_OK) (status_word response)"

definition tries_left :: "nat \<Rightarrow> nat option" where
  "tries_left sw = (if sw AND 0xFFF0 = SW_WRONG_PIN then Some (sw AND 0x0F) else None)"

text \<open>The outer option is the exception of \<open>status_word\<close>, the inner one the code's \<open>None\<close>.\<close>

definition parse_generated_keys :: "bytes \<Rightarrow> (bytes \<times> bytes) option option" where
  "parse_generated_keys response =
     (case is_ok response of None \<Rightarrow> None
      | Some False \<Rightarrow> Some None
      | Some True \<Rightarrow>
          let body = payload response in
          if body = [] then Some None
          else
            let n = unat (hd body) in
            if length body < 1 + n + 1 then Some None
            else
              let normal = take n (drop 1 body); d = unat (body ! (1 + n));
                  duress = take d (drop (2 + n) body)
              in Some (if length duress \<noteq> d then None else Some (normal, duress)))"

definition parse_signed_response :: "bytes \<Rightarrow> (bytes \<times> bytes) option option" where
  "parse_signed_response response =
     (case is_ok response of None \<Rightarrow> None
      | Some False \<Rightarrow> Some None
      | Some True \<Rightarrow>
          let body = payload response in
          if body = [] then Some None
          else
            let hlen = unat (hd body) in
            if length body < 1 + hlen + 2 then Some None
            else
              let handle = take hlen (drop 1 body);
                  siglen = be_decode (take 2 (drop (1 + hlen) body));
                  signature = take siglen (drop (3 + hlen) body)
              in Some (if length signature \<noteq> siglen then None else Some (handle, signature)))"

definition RAW_SIGNATURE_LEN :: nat where "RAW_SIGNATURE_LEN = 64"

text \<open>\<open>encode_dss\<close> is \<open>asym_utils.encode_dss_signature\<close>.\<close>

definition der_from_raw :: "(nat \<Rightarrow> nat \<Rightarrow> bytes) \<Rightarrow> bytes \<Rightarrow> bytes option" where
  "der_from_raw encode_dss signature =
     (if length signature \<noteq> RAW_SIGNATURE_LEN then None
      else
        let half = RAW_SIGNATURE_LEN div 2 in
        Some (encode_dss (be_decode (take half signature)) (be_decode (drop half signature))))"

section \<open>The ready-made backend\<close>

text \<open>
  The slots dictionary and the closures of \<open>new_blank_token\<close> and \<open>new_software_token\<close>. The
  \<open>cryptography\<close> library is the record \<open>p256\<close>: key generation and signing draw from the
  randomness \<open>'r\<close>.
\<close>

record ('k, 'r) p256 =
  p_generate :: "'r \<Rightarrow> 'k \<times> 'r"
  p_public :: "'k \<Rightarrow> bytes"
  p_sign :: "'k \<Rightarrow> bytes \<Rightarrow> 'r \<Rightarrow> (nat \<times> nat) \<times> 'r"

type_synonym ('k, 'r) slots = "(slot \<rightharpoonup> 'k) \<times> 'r"

definition slot_generate :: "('k, 'r) p256 \<Rightarrow> ('k, 'r) slots \<Rightarrow> slot \<Rightarrow> bytes option \<times> ('k, 'r) slots" where
  "slot_generate P b s =
     (case b of (m, r) \<Rightarrow>
        if m s \<noteq> None then (None, (m, r))
        else case p_generate P r of (k, r2) \<Rightarrow> (Some (p_public P k), (m(s \<mapsto> k), r2)))"

text \<open>\<open>r.to_bytes(32, "big")\<close> raises when the integer needs more bytes; \<open>slots[slot]\<close> when it is missing.\<close>

definition slot_sign ::
    "(bytes \<Rightarrow> bytes) \<Rightarrow> ('k, 'r) p256 \<Rightarrow> ('k, 'r) slots \<Rightarrow> slot \<Rightarrow> bytes \<Rightarrow> bytes option \<times> ('k, 'r) slots" where
  "slot_sign sha256 P b s body =
     (case b of (m, r) \<Rightarrow>
        (case m s of None \<Rightarrow> (None, (m, r))
         | Some k \<Rightarrow>
             (case p_sign P k (sha256 body) r of ((x, y), r2) \<Rightarrow>
                (if x < 256 ^ 32 \<and> y < 256 ^ 32 then Some (be_encode 32 x @ be_encode 32 y) else None,
                 (m, r2)))))"

definition slot_crypto :: "(bytes \<Rightarrow> bytes) \<Rightarrow> ('k, 'r) p256 \<Rightarrow> ('k, 'r) slots crypto" where
  "slot_crypto sha256 P =
     \<lparr>sign_with_slot = Some (slot_sign sha256 P), generate_fn = Some (slot_generate P)\<rparr>"

definition new_blank_token ::
    "(nat \<Rightarrow> ustr) \<Rightarrow> ustr \<Rightarrow> ustr option \<Rightarrow> ustr \<Rightarrow> bytes \<Rightarrow> bytes \<Rightarrow> 'r \<Rightarrow> token_exn + ('k, 'r) slots token" where
  "new_blank_token filler normal_pin duress_pin puk0 rand_normal rand_duress r =
     new_token filler None normal_pin duress_pin puk0 rand_normal (Some rand_duress) (Map.empty, r)"

section \<open>What every command preserves\<close>

lemma length_sw_bytes [simp]: "length (sw_bytes sw) = 2"
  by (simp add: sw_bytes_def)

lemma transmit_eq:
  "transmit H C t apdu = (fst (transmit_raw H C t apdu),
     case snd (transmit_raw H C t apdu) of Some r \<Rightarrow> r | None \<Rightarrow> sw_bytes SW_WRONG_DATA)"
  by (simp add: transmit_def split: prod.splits option.splits)

lemma fst_transmit: "fst (transmit H C t apdu) = fst (transmit_raw H C t apdu)"
  by (simp add: transmit_eq)

text \<open>A reader can send any bytes and cut the power at any moment.\<close>

datatype reader_input = Apdu bytes | PowerCycle

definition token_step :: "(bytes \<Rightarrow> bytes) \<Rightarrow> 'b crypto \<Rightarrow> 'b token \<Rightarrow> reader_input \<Rightarrow> 'b token" where
  "token_step H C t i = (case i of Apdu a \<Rightarrow> fst (transmit H C t a) | PowerCycle \<Rightarrow> reset t)"

text \<open>
  An invariant of the token holds in every run once each of the five commands that change
  the state, and the power cycle, preserve it.
\<close>

lemma dispatch_preserves:
  assumes "P t" "\<And>t. P t \<Longrightarrow> P (fst (select_cmd t))"
    and "\<And>t d. P t \<Longrightarrow> selected t \<Longrightarrow> P (fst (verify_pin_cmd t d))"
    and "\<And>t d. P t \<Longrightarrow> P (fst (unblock_cmd t d))"
    and "\<And>t b. P t \<Longrightarrow> P (t\<lparr>backend := b\<rparr>)"
    and "\<And>t b. P t \<Longrightarrow> P (t\<lparr>backend := b, generated := True\<rparr>)"
    and "\<And>t d. P t \<Longrightarrow> P (fst (put_card_object_cmd t d))"
  shows "P (fst (dispatch H C t ins data))"
proof -
  have sign: "P (fst (sign_challenge_cmd H C t data))"
    using assms(1,5)
    by (auto simp: sign_challenge_cmd_def sign_body_def Let_def
        split: option.split sum.split card_exn.split prod.split)
  have gen: "P (fst (generate_keypair_cmd C t))"
    using assms(1,5,6) by (auto simp: generate_keypair_cmd_def split: option.split prod.split)
  have get: "P (fst (get_card_object_cmd t))"
    using assms(1) by (auto simp: get_card_object_cmd_def split: option.split)
  show ?thesis
    using assms(1-4,7) sign gen get by (simp add: dispatch_def)
qed

lemma transmit_preserves:
  assumes "P t" "\<And>ins data. P (fst (dispatch H C t ins data))"
  shows "P (fst (transmit H C t apdu))"
  using assms by (auto simp: fst_transmit transmit_raw_def split: option.split)

text \<open>
  The state a token can be in. The retry counters stay within the range the status words and
  the SELECT answer have room for; an unlocked token is selected and has all its tries; a
  personalized token holds an object that decodes, a blank one holds none.
\<close>

definition token_inv :: "'b token \<Rightarrow> bool" where
  "token_inv t \<longleftrightarrow>
     0 \<le> tries t \<and> tries t \<le> MAX_PIN_TRIES \<and> 0 \<le> puk_tries t \<and> puk_tries t \<le> MAX_PUK_TRIES \<and>
     (unlocked_slot t \<noteq> None \<longrightarrow> selected t \<and> tries t = MAX_PIN_TRIES) \<and>
     (card_object t = None \<longrightarrow> tstate t = BLANK) \<and>
     (\<forall>ob. card_object t = Some ob \<longrightarrow> tstate t = PERSONALIZED \<and> (\<exists>f. decode ob = Inr f))"

lemma verify_pin_inv: "token_inv t \<Longrightarrow> selected t \<Longrightarrow> token_inv (fst (verify_pin_cmd t d))"
  by (auto simp: verify_pin_cmd_def token_inv_def blocked_def MAX_PIN_TRIES_def Let_def split: option.split)

lemma unblock_inv: "token_inv t \<Longrightarrow> token_inv (fst (unblock_cmd t d))"
  by (auto simp: unblock_cmd_def token_inv_def MAX_PIN_TRIES_def MAX_PUK_TRIES_def Let_def
      split: option.split bool.split)

lemma select_inv: "token_inv t \<Longrightarrow> token_inv (fst (select_cmd t))"
  by (simp add: select_cmd_def token_inv_def)

lemma put_inv: "token_inv t \<Longrightarrow> token_inv (fst (put_card_object_cmd t d))"
  by (auto simp: put_card_object_cmd_def token_inv_def split: sum.split card_exn.split option.splits)

lemma token_inv_transmit: "token_inv t \<Longrightarrow> token_inv (fst (transmit H C t apdu))"
  by (rule transmit_preserves, assumption, rule dispatch_preserves)
    (simp_all add: verify_pin_inv unblock_inv select_inv put_inv, simp_all add: token_inv_def)

lemma token_inv_reset: "token_inv t \<Longrightarrow> token_inv (reset t)"
  by (simp add: token_inv_def reset_def)

interpretation card_steps: stepper "token_step H C" token_inv for H C
  by unfold_locales (auto simp: token_step_def token_inv_transmit token_inv_reset split: reader_input.split)

lemma new_token_inv: "new_token filler ob np dp pk sn sd b = Inr t \<Longrightarrow> token_inv t"
  by (auto simp: new_token_def token_inv_def reset_def MAX_PIN_TRIES_def MAX_PUK_TRIES_def
      split: option.splits sum.splits if_splits)

lemma token_step_preserves:
  assumes "P t" "\<And>t. P t \<Longrightarrow> P (fst (select_cmd t))"
    and "\<And>t d. P t \<Longrightarrow> P (fst (verify_pin_cmd t d))"
    and "\<And>t d. P t \<Longrightarrow> P (fst (unblock_cmd t d))"
    and "\<And>t b. P t \<Longrightarrow> P (t\<lparr>backend := b\<rparr>)"
    and "\<And>t b. P t \<Longrightarrow> P (t\<lparr>backend := b, generated := True\<rparr>)"
    and "\<And>t d. P t \<Longrightarrow> P (fst (put_card_object_cmd t d))"
    and "\<And>t. P t \<Longrightarrow> P (reset t)"
  shows "P (token_step H C t i)"
proof (cases i)
  case (Apdu a)
  have "P (fst (dispatch H C t ins d))" for ins d
    by (rule dispatch_preserves) (simp_all add: assms)
  with assms(1) show ?thesis
    by (auto simp: Apdu token_step_def intro: transmit_preserves)
qed (simp add: token_step_def assms)

section \<open>Guessing\<close>

text \<open>
  The texts a card compares with its PINs during a run: one for every VERIFY that reaches the
  comparison, in order.
\<close>

definition compared_pin :: "'b token \<Rightarrow> bytes \<Rightarrow> ustr option" where
  "compared_pin t apdu =
     (if length apdu < 4 \<or> apdu ! 0 \<noteq> CLA \<or> apdu ! 1 \<noteq> INS_VERIFY_PIN \<or> \<not> selected t \<or> blocked t then None
      else
        (case apdu_data apdu of None \<Rightarrow> None
         | Some data \<Rightarrow>
             if compare_digest (supplied_text data) (pins t NormalSlot) \<noteq> None \<and>
                compare_digest (supplied_text data) (pins t DuressSlot) \<noteq> None
             then Some (supplied_text data) else None))"

fun pin_guesses :: "(bytes \<Rightarrow> bytes) \<Rightarrow> 'b crypto \<Rightarrow> 'b token \<Rightarrow> reader_input list \<Rightarrow> ustr list" where
  "pin_guesses H C t [] = []"
| "pin_guesses H C t (i # is) =
     (case i of PowerCycle \<Rightarrow> []
      | Apdu a \<Rightarrow> (case compared_pin t a of None \<Rightarrow> [] | Some s \<Rightarrow> [s]))
     @ pin_guesses H C (token_step H C t i) is"

text \<open>Whether a command carries one of the card's PINs, or its PUK.\<close>

definition knows_secret :: "'b token \<Rightarrow> reader_input \<Rightarrow> bool" where
  "knows_secret t i =
     (case i of PowerCycle \<Rightarrow> False
      | Apdu a \<Rightarrow>
          (case apdu_data a of None \<Rightarrow> False
           | Some data \<Rightarrow>
               supplied_text data \<in> {pins t NormalSlot, pins t DuressSlot, puk t}))"

definition same_secrets :: "'b token \<Rightarrow> 'b token \<Rightarrow> bool" where
  "same_secrets t t' \<longleftrightarrow> pins t' = pins t \<and> puk t' = puk t"

lemma step_same_secrets: "same_secrets t (token_step H C t i)"
  by (rule token_step_preserves [where P = "same_secrets t"])
    (auto simp: same_secrets_def select_cmd_def verify_pin_cmd_def unblock_cmd_def put_card_object_cmd_def
      reset_def Let_def split: option.split bool.split sum.split card_exn.split)

text \<open>One command in the hands of someone who knows neither PIN nor PUK.\<close>

lemma unlocks_only_by_pin:
  assumes "unlocked_slot t = None" "ins \<noteq> INS_VERIFY_PIN \<or> \<not> selected t"
  shows "unlocked_slot (fst (dispatch H C t ins data)) = None"
  using assms
  by (auto simp: dispatch_def select_cmd_def unblock_cmd_def get_card_object_cmd_def sign_challenge_cmd_def
      generate_keypair_cmd_def put_card_object_cmd_def Let_def
      split: option.split bool.split sum.split card_exn.split prod.split)

lemma tries_only_by_pin:
  assumes "unlocked_slot t = None" "ins \<noteq> INS_VERIFY_PIN \<or> \<not> selected t"
    and "supplied_text data \<noteq> puk t"
  shows "tries (fst (dispatch H C t ins data)) = tries t"
  using assms
  by (auto simp: dispatch_def select_cmd_def unblock_cmd_def get_card_object_cmd_def sign_challenge_cmd_def
      generate_keypair_cmd_def put_card_object_cmd_def Let_def compare_digest_def
      split: option.split bool.split sum.split card_exn.split prod.split)

lemma verify_pin_wrong:
  assumes "unlocked_slot t = None" "supplied_text d \<notin> {pins t NormalSlot, pins t DuressSlot}"
  shows "unlocked_slot (fst (verify_pin_cmd t d)) = None"
    and "tries (fst (verify_pin_cmd t d)) =
      (if \<not> blocked t \<and> compare_digest (supplied_text d) (pins t NormalSlot) \<noteq> None \<and>
          compare_digest (supplied_text d) (pins t DuressSlot) \<noteq> None then tries t - 1 else tries t)"
  using assms by (auto simp: verify_pin_cmd_def compare_digest_def Let_def)

lemma ignorant_step:
  assumes "unlocked_slot t = None" "\<not> knows_secret t (Apdu a)"
  shows "unlocked_slot (token_step H C t (Apdu a)) = None"
    and "tries (token_step H C t (Apdu a)) = tries t - (case compared_pin t a of None \<Rightarrow> 0 | Some _ \<Rightarrow> 1)"
proof -
  have pin: "dispatch H C t INS_VERIFY_PIN d = verify_pin_cmd t d" if "selected t" for d
    using that by (simp add: dispatch_def ins_defs)
  show "unlocked_slot (token_step H C t (Apdu a)) = None"
    using assms
    by (cases "a ! 1 = INS_VERIFY_PIN \<and> selected t")
      (auto simp: token_step_def fst_transmit transmit_raw_def knows_secret_def pin verify_pin_wrong
        unlocks_only_by_pin split: option.splits)
  show "tries (token_step H C t (Apdu a)) = tries t - (case compared_pin t a of None \<Rightarrow> 0 | Some _ \<Rightarrow> 1)"
    using assms
    by (cases "a ! 1 = INS_VERIFY_PIN \<and> selected t")
      (auto simp: token_step_def fst_transmit transmit_raw_def knows_secret_def pin verify_pin_wrong
        tries_only_by_pin compared_pin_def split: option.splits)
qed

lemma ignorant_run:
  assumes "unlocked_slot t = None" "\<forall>i \<in> set is. \<not> knows_secret t i"
  shows "unlocked_slot (foldl (token_step H C) t is) = None \<and>
    tries (foldl (token_step H C) t is) = tries t - int (length (pin_guesses H C t is))"
  using assms
proof (induction "is" arbitrary: t)
  case (Cons i "is")
  have same: "pins (token_step H C t i) = pins t" "puk (token_step H C t i) = puk t"
    using step_same_secrets [of t H C i] by (simp_all add: same_secrets_def)
  have "knows_secret (token_step H C t i) j = knows_secret t j" for j
    unfolding knows_secret_def same ..
  with Cons.prems have later: "\<forall>j \<in> set is. \<not> knows_secret (token_step H C t i) j" by simp
  have here: "unlocked_slot (token_step H C t i) = None"
    "tries (token_step H C t i) = tries t - int (length (case i of PowerCycle \<Rightarrow> []
      | Apdu a \<Rightarrow> (case compared_pin t a of None \<Rightarrow> [] | Some s \<Rightarrow> [s])))"
    using Cons.prems ignorant_step [of t _ H C]
    by (cases i; auto simp: token_step_def reset_def split: option.splits)+
  from Cons.IH [OF here(1) later] here(2) show ?case by simp
qed simp

text \<open>
  C5. Three guesses. In the hands of somebody who knows neither PIN and not the PUK, and
  whatever else they send and however often they cut the power, a locked card stays locked, and
  compares at most as many guesses with its PINs as it has tries left: never more than three.
\<close>

theorem pin_guess_bound:
  assumes "token_inv t" "unlocked_slot t = None" "\<forall>i \<in> set is. \<not> knows_secret t i"
  shows "unlocked_slot (foldl (token_step H C) t is) = None \<and>
    int (length (pin_guesses H C t is)) \<le> tries t \<and> tries t \<le> 3"
proof -
  note run = ignorant_run [OF assms(2,3), of H C]
  have "token_inv (foldl (token_step H C) t is)"
    using assms(1) by (rule card_steps.run_inv)
  with run assms(1) show ?thesis
    by (auto simp: token_inv_def MAX_PIN_TRIES_def)
qed

section \<open>Exhaustion\<close>

definition exhausted :: "'b token \<Rightarrow> bool" where
  "exhausted t \<longleftrightarrow> tries t \<le> 0 \<and> puk_tries t \<le> 0 \<and> unlocked_slot t = None"

lemma exhausted_step: "exhausted t \<Longrightarrow> exhausted (token_step H C t i)"
  by (rule token_step_preserves [where P = exhausted])
    (auto simp: exhausted_def select_cmd_def verify_pin_cmd_def unblock_cmd_def put_card_object_cmd_def blocked_def
      reset_def split: sum.split card_exn.split)

interpretation exhausted_steps: stepper "token_step H C" exhausted for H C
  by unfold_locales (rule exhausted_step)

text \<open>
  Exhaustion is final. A locked card with no PIN tries and no PUK tries left is never
  unlocked again by any sequence of commands and power cycles, the right PIN and the right PUK
  included.
\<close>

theorem exhausted_card_is_dead:
  assumes "token_inv t" "tries t = 0" "puk_tries t = 0"
  shows "unlocked_slot (foldl (token_step H C) t is) = None"
proof -
  have "exhausted t"
    using assms by (auto simp: exhausted_def token_inv_def MAX_PIN_TRIES_def)
  then have "exhausted (foldl (token_step H C) t is)"
    by (rule exhausted_steps.run_inv)
  then show ?thesis by (simp add: exhausted_def)
qed

section \<open>The lifecycle\<close>

definition holds_object :: "bytes \<Rightarrow> 'b token \<Rightarrow> bool" where
  "holds_object ob t \<longleftrightarrow> card_object t = Some ob \<and> tstate t = PERSONALIZED"

lemma holds_object_step: "holds_object ob t \<Longrightarrow> holds_object ob (token_step H C t i)"
  by (rule token_step_preserves [where P = "holds_object ob"])
    (auto simp: holds_object_def select_cmd_def verify_pin_cmd_def unblock_cmd_def put_card_object_cmd_def reset_def
      Let_def split: option.split bool.split)

interpretation object_steps: stepper "token_step H C" "holds_object ob" for H C ob
  by unfold_locales (rule holds_object_step)

text \<open>
  A card is personalized once. Whatever a personalized card is sent, it keeps the object it
  holds, and it answers every attempt to put another object or to generate keys, in any later
  state, with the status word for a card that is already personalized.
\<close>

theorem personalized_card_is_final:
  assumes "token_inv t" "card_object t = Some ob" "t' = foldl (token_step H C) t is"
  shows "card_object t' = Some ob \<and>
    (\<forall>ins \<in> {INS_PUT_CARD_OBJECT, INS_GENERATE_KEYPAIR}. selected t' \<longrightarrow>
      dispatch H C t' ins data = (t', Some (sw_bytes SW_ALREADY_PERSONALIZED)))"
proof -
  have "holds_object ob t"
    using assms(1,2) by (simp add: holds_object_def token_inv_def)
  then have "holds_object ob t'"
    unfolding assms(3) by (rule object_steps.run_inv)
  then show ?thesis
    by (auto simp: holds_object_def dispatch_def ins_defs put_card_object_cmd_def generate_keypair_cmd_def)
qed

text \<open>
  A locked card shows nothing. Until a PIN is verified, every command but SELECT (which
  answers with the public document type, version and remaining tries) and the one-time key
  generation is answered with two bytes: a bare status word, and no object or signature.
\<close>

theorem locked_card_is_silent:
  assumes "unlocked_slot t = None" "apdu ! 1 \<notin> {INS_SELECT, INS_GENERATE_KEYPAIR}"
  shows "length (snd (transmit H C t apdu)) = 2"
proof -
  have pin: "\<forall>r. snd (verify_pin_cmd t d) = Some r \<longrightarrow> length r = 2"
    "\<forall>r. snd (unblock_cmd t d) = Some r \<longrightarrow> length r = 2"
    "\<forall>r. snd (put_card_object_cmd t d) = Some r \<longrightarrow> length r = 2" for d
    by (auto simp: verify_pin_cmd_def unblock_cmd_def put_card_object_cmd_def Let_def
        split: option.splits bool.splits sum.splits card_exn.splits)
  have "\<forall>r. snd (dispatch H C t (apdu ! 1) d) = Some r \<longrightarrow> length r = 2" for d
    using pin [of d] assms by (auto simp: dispatch_def get_card_object_cmd_def sign_challenge_cmd_def)
  then show ?thesis
    by (auto simp: transmit_eq transmit_raw_def split: option.split)
qed

section \<open>Duress\<close>

text \<open>
  What somebody who watches the reader sees of one answer: all of it, except that of an answer
  to SIGN CHALLENGE, whose handle and signature differ with the slot by design, they see the
  length and the status word.
\<close>

definition observe :: "8 word \<Rightarrow> bytes \<Rightarrow> nat \<times> bytes" where
  "observe ins resp =
     (length resp, if ins = INS_SIGN_CHALLENGE then drop (length resp - 2) resp else resp)"

fun observations :: "(bytes \<Rightarrow> bytes) \<Rightarrow> 'b crypto \<Rightarrow> 'b token \<Rightarrow> reader_input list \<Rightarrow> (nat \<times> bytes) list" where
  "observations H C t [] = []"
| "observations H C t (i # is) =
     (case i of PowerCycle \<Rightarrow> []
      | Apdu a \<Rightarrow> [observe (a ! 1) (snd (transmit H C t a))])
     @ observations H C (token_step H C t i) is"

text \<open>A VERIFY command that carries one of the two PINs of the card.\<close>

definition enters_pin :: "'b token \<Rightarrow> reader_input \<Rightarrow> bool" where
  "enters_pin t i =
     (case i of PowerCycle \<Rightarrow> False
      | Apdu a \<Rightarrow> 4 \<le> length a \<and> a ! 0 = CLA \<and> a ! 1 = INS_VERIFY_PIN \<and>
          (case apdu_data a of None \<Rightarrow> False
           | Some d \<Rightarrow> supplied_text d \<in> {pins t NormalSlot, pins t DuressSlot}))"

text \<open>
  A signer that never raises and always returns 64 bytes, from any backend state that is
  \<open>good\<close>: the raw \<open>r || s\<close> of a secure element.
\<close>

definition steady_signer :: "'b crypto \<Rightarrow> ('b \<Rightarrow> bool) \<Rightarrow> bool" where
  "steady_signer C good \<longleftrightarrow>
     (\<forall>f. sign_with_slot C = Some f \<longrightarrow>
        (\<forall>b s m. good b \<longrightarrow>
           (\<exists>sg b'. f b s m = (Some sg, b') \<and> length sg = RAW_SIGNATURE_LEN \<and> good b')))"

text \<open>Two tokens that differ at most in which slot is unlocked, and in their backends.\<close>

definition look_alike :: "('b \<Rightarrow> bool) \<Rightarrow> 'b token \<Rightarrow> 'b token \<Rightarrow> bool" where
  "look_alike good t u \<longleftrightarrow>
     card_object u = card_object t \<and> card_object t \<noteq> None \<and>
     tstate u = PERSONALIZED \<and> tstate t = PERSONALIZED \<and> pins u = pins t \<and> puk u = puk t \<and>
     selected u = selected t \<and> tries u = tries t \<and> puk_tries u = puk_tries t \<and>
     (unlocked_slot u = None \<longleftrightarrow> unlocked_slot t = None) \<and>
     (\<forall>s. secrets t s \<noteq> None \<and> secrets u s \<noteq> None) \<and> good (backend t) \<and> good (backend u)"

definition alike :: "('b \<Rightarrow> bool) \<Rightarrow> 8 word \<Rightarrow> 'b token \<times> bytes option \<Rightarrow> 'b token \<times> bytes option \<Rightarrow> bool" where
  "alike good ins x y \<longleftrightarrow>
     look_alike good (fst x) (fst y) \<and>
     map_option (observe ins) (snd x) = map_option (observe ins) (snd y)"

lemma alike_same: "look_alike good t u \<Longrightarrow> alike good ins (t, r) (u, r)"
  by (simp add: alike_def)

lemma select_alike: "look_alike good t u \<Longrightarrow> alike good ins (select_cmd t) (select_cmd u)"
  by (simp add: alike_def select_cmd_def look_alike_def tries_remaining_def)

lemma unblock_alike: "look_alike good t u \<Longrightarrow> alike good ins (unblock_cmd t d) (unblock_cmd u d)"
  by (auto simp: alike_def unblock_cmd_def look_alike_def Let_def split: option.split bool.split)

lemma get_alike: "look_alike good t u \<Longrightarrow> alike good ins (get_card_object_cmd t) (get_card_object_cmd u)"
  by (auto simp: alike_def get_card_object_cmd_def look_alike_def split: option.splits)

lemma generate_alike: "look_alike good t u \<Longrightarrow> alike good ins (generate_keypair_cmd C t) (generate_keypair_cmd C u)"
  by (simp add: alike_def generate_keypair_cmd_def look_alike_def)

lemma put_alike: "look_alike good t u \<Longrightarrow> alike good ins (put_card_object_cmd t d) (put_card_object_cmd u d)"
  by (simp add: alike_def put_card_object_cmd_def look_alike_def)

lemma verify_same_alike: "look_alike good t u \<Longrightarrow> alike good ins (verify_pin_cmd t d) (verify_pin_cmd u d)"
  by (auto simp: alike_def verify_pin_cmd_def look_alike_def blocked_def tries_remaining_def Let_def
      split: option.split)

lemma verify_pins_alike:
  assumes "look_alike good t u"
    and "supplied_text d \<in> {pins t NormalSlot, pins t DuressSlot}"
    and "supplied_text e \<in> {pins t NormalSlot, pins t DuressSlot}"
  shows "alike good ins (verify_pin_cmd t d) (verify_pin_cmd u e)"
  using assms
  by (auto simp: alike_def verify_pin_cmd_def look_alike_def blocked_def compare_digest_def Let_def)

lemma sign_body_alike:
  assumes "look_alike good t u" "steady_signer C good" "length h = 32" "length k = 32"
  shows "alike good INS_SIGN_CHALLENGE (sign_body C t s h m) (sign_body C u s' k m')"
proof (cases "sign_with_slot C")
  case None
  then show ?thesis
    using assms(1) by (simp add: sign_body_def alike_same)
next
  case (Some f)
  obtain sg b where sg: "f (backend t) s m = (Some sg, b)" "length sg = 64" "good b"
    using assms(1,2) Some by (fastforce simp: steady_signer_def look_alike_def RAW_SIGNATURE_LEN_def)
  obtain sg' b' where sg': "f (backend u) s' m' = (Some sg', b')" "length sg' = 64" "good b'"
    using assms(1,2) Some by (fastforce simp: steady_signer_def look_alike_def RAW_SIGNATURE_LEN_def)
  show ?thesis
    using assms(1,3,4) sg sg' Some
    by (simp add: sign_body_def alike_def look_alike_def observe_def)
qed

lemma handle_length: "hash32 H \<Longrightarrow> pairwise_handle H s r = Inr h \<Longrightarrow> length h = 32"
  by (auto simp: pairwise_handle_def hash32_def split: option.splits)

lemma pairwise_handle_scope: "pairwise_handle H s r = Inl e \<longleftrightarrow> utf8_encode r = None \<and> e = OtherError"
  by (auto simp: pairwise_handle_def split: option.splits)

lemma response_body_cases:
  "(\<exists>e. \<forall>h. response_body c r h = Inl e) \<or> (\<forall>h. \<exists>m. response_body c r h = Inr m)"
  by (auto simp: response_body_def split: option.split)

lemma sign_alike:
  assumes sim: "look_alike good t u" and C: "steady_signer C good" and H: "hash32 H"
  shows "alike good INS_SIGN_CHALLENGE (sign_challenge_cmd H C t d) (sign_challenge_cmd H C u d)"
proof (cases "unlocked_slot t")
  case None
  with sim have "unlocked_slot u = None" by (simp add: look_alike_def)
  with None sim show ?thesis by (simp add: sign_challenge_cmd_def alike_same)
next
  case (Some s)
  with sim obtain s' where s': "unlocked_slot u = Some s'" by (auto simp: look_alike_def)
  obtain x y where secret: "secrets t s = Some x" "secrets u s' = Some y"
    using sim unfolding look_alike_def by (metis not_None_eq)
  have blank: "\<not> is_blank t" "\<not> is_blank u"
    using sim by (auto simp: look_alike_def is_blank_def)
  show ?thesis
  proof (cases "d = [] \<or> length d < 1 + unat (hd d) \<or> utf8_decode (take (unat (hd d)) (tl d)) = None")
    case True
    then show ?thesis
      using sim Some s' blank by (auto simp: sign_challenge_cmd_def alike_same Let_def)
  next
    case False
    then obtain scope where scope: "utf8_decode (take (unat (hd d)) (tl d)) = Some scope" by auto
    let ?c = "drop (1 + unat (hd d)) d"
    have enc: "utf8_encode scope \<noteq> None"
      using scope by (metis utf8_encode_Some_iff option.distinct(1))
    obtain h where h: "pairwise_handle H x scope = Inr h"
      using enc by (cases "pairwise_handle H x scope") (auto simp: pairwise_handle_scope)
    obtain k where k: "pairwise_handle H y scope = Inr k"
      using enc by (cases "pairwise_handle H y scope") (auto simp: pairwise_handle_scope)
    note shape = False Some s' blank scope secret h k
    from response_body_cases [of ?c scope] show ?thesis
    proof
      assume "\<exists>e. \<forall>h. response_body ?c scope h = Inl e"
      then obtain e where "\<And>h. response_body ?c scope h = Inl e" by blast
      then show ?thesis
        using sim shape by (cases e) (simp_all add: sign_challenge_cmd_def Let_def alike_same)
    next
      assume "\<forall>h. \<exists>m. response_body ?c scope h = Inr m"
      then obtain m m' where "response_body ?c scope h = Inr m" "response_body ?c scope k = Inr m'" by metis
      then show ?thesis
        using shape sign_body_alike [OF sim C handle_length [OF H h] handle_length [OF H k]]
        by (simp add: sign_challenge_cmd_def Let_def)
    qed
  qed
qed

lemma dispatch_alike:
  assumes "look_alike good t u" "steady_signer C good" "hash32 H"
  shows "alike good ins (dispatch H C t ins d) (dispatch H C u ins d)"
proof -
  have "selected u = selected t" using assms(1) by (simp add: look_alike_def)
  with assms show ?thesis
    by (simp add: dispatch_def select_alike unblock_alike get_alike generate_alike put_alike
        verify_same_alike sign_alike alike_same)
qed

lemma transmit_alike:
  assumes "look_alike good t u" "alike good (a ! 1) (transmit_raw H C t a) (transmit_raw H C u b)"
  shows "observe (a ! 1) (snd (transmit H C t a)) = observe (a ! 1) (snd (transmit H C u b))"
    and "look_alike good (fst (transmit H C t a)) (fst (transmit H C u b))"
  using assms by (auto simp: transmit_eq alike_def split: option.splits)

lemma dispatch_verify:
  "dispatch H C t INS_VERIFY_PIN d =
    (if selected t then verify_pin_cmd t d else (t, Some (sw_bytes SW_CONDITIONS_NOT_SATISFIED)))"
  by (simp add: dispatch_def ins_defs)

lemma enters_pin_Apdu:
  "enters_pin t (Apdu a) \<longleftrightarrow> 4 \<le> length a \<and> a ! 0 = CLA \<and> a ! 1 = INS_VERIFY_PIN \<and>
    (\<exists>d. apdu_data a = Some d \<and> supplied_text d \<in> {pins t NormalSlot, pins t DuressSlot})"
  by (cases "apdu_data a") (simp_all add: enters_pin_def)

lemma step_alike:
  assumes sim: "look_alike good t u" and C: "steady_signer C good" and H: "hash32 H"
    and ij: "i = j \<or> enters_pin t i \<and> enters_pin t j"
  shows "(case i of PowerCycle \<Rightarrow> [] | Apdu a \<Rightarrow> [observe (a ! 1) (snd (transmit H C t a))]) =
      (case j of PowerCycle \<Rightarrow> [] | Apdu b \<Rightarrow> [observe (b ! 1) (snd (transmit H C u b))])"
    and "look_alike good (token_step H C t i) (token_step H C u j)"
proof -
  have power: "look_alike good (reset t) (reset u)"
    using sim by (simp add: look_alike_def reset_def)
  have raw: "alike good (a ! 1) (transmit_raw H C t a) (transmit_raw H C u b)"
    if "i = Apdu a" "j = Apdu b" for a b
  proof (cases "a = b")
    case True
    then show ?thesis
      using dispatch_alike [OF sim C H] sim
      by (simp add: transmit_raw_def alike_same split: option.split)
  next
    case False
    with ij that have ab: "enters_pin t (Apdu a)" "enters_pin t (Apdu b)" by auto
    obtain d where a: "4 \<le> length a" "a ! 0 = CLA" "a ! 1 = INS_VERIFY_PIN" "apdu_data a = Some d"
      "supplied_text d \<in> {pins t NormalSlot, pins t DuressSlot}"
      using ab(1) [unfolded enters_pin_Apdu] by iprover
    obtain e where b: "4 \<le> length b" "b ! 0 = CLA" "b ! 1 = INS_VERIFY_PIN" "apdu_data b = Some e"
      "supplied_text e \<in> {pins t NormalSlot, pins t DuressSlot}"
      using ab(2) [unfolded enters_pin_Apdu] by iprover
    have "selected u = selected t" using sim by (simp add: look_alike_def)
    then show ?thesis
      using a(1-4) b(1-4) verify_pins_alike [OF sim a(5) b(5), of INS_VERIFY_PIN] alike_same [OF sim]
      by (simp add: transmit_raw_def dispatch_verify del: One_nat_def)
  qed
  have cases: "(\<exists>a b. i = Apdu a \<and> j = Apdu b \<and> b ! 1 = a ! 1) \<or> i = PowerCycle \<and> j = PowerCycle"
    using ij enters_pin_Apdu by (cases i; cases j) (auto simp: enters_pin_def)
  then show "(case i of PowerCycle \<Rightarrow> [] | Apdu a \<Rightarrow> [observe (a ! 1) (snd (transmit H C t a))]) =
      (case j of PowerCycle \<Rightarrow> [] | Apdu b \<Rightarrow> [observe (b ! 1) (snd (transmit H C u b))])"
    using transmit_alike(1) [OF sim raw] by (elim disjE exE conjE) simp_all
  from cases show "look_alike good (token_step H C t i) (token_step H C u j)"
    using transmit_alike(2) [OF sim raw] power by (elim disjE exE conjE) (simp_all add: token_step_def)
qed

lemma run_alike:
  assumes "steady_signer C good" "hash32 H"
  shows "look_alike good t u \<Longrightarrow> list_all2 (\<lambda>i j. i = j \<or> enters_pin t i \<and> enters_pin t j) is js \<Longrightarrow>
    observations H C t is = observations H C u js"
proof (induction "is" arbitrary: js t u)
  case (Cons i "is")
  from Cons.prems(2) obtain j js' where js: "js = j # js'" "i = j \<or> enters_pin t i \<and> enters_pin t j"
    "list_all2 (\<lambda>i j. i = j \<or> enters_pin t i \<and> enters_pin t j) is js'"
    by (auto simp: list_all2_Cons1)
  note step = step_alike [OF Cons.prems(1) assms js(2)]
  have "pins (token_step H C t i) = pins t"
    using step_same_secrets [of t H C i] by (simp add: same_secrets_def)
  then have "enters_pin (token_step H C t i) = enters_pin t"
    unfolding enters_pin_def by (rule arg_cong)
  with Cons.IH [OF step(2)] js(3) have "observations H C (token_step H C t i) is = observations H C (token_step H C u j) js'"
    by simp
  with step(1) show ?case by (simp add: js(1))
qed simp

text \<open>
  C1. A coercer learns nothing. Take a personalized card with a secret in each slot and a signer
  of fixed-length signatures, and two runs of any length that are the same except that the
  holder enters the duress PIN where the other run has the normal one (or the other way round,
  any number of times, wrong PINs and power cycles between them). Then the two runs look the
  same to whoever watches the exchange: every answer has the same length and status word, and
  apart from the handles and signatures the same bytes, retry counters included.
\<close>

theorem duress_is_unobservable:
  assumes "token_inv t" "card_object t \<noteq> None" "\<forall>s. secrets t s \<noteq> None"
    and "hash32 H" "steady_signer C good" "good (backend t)"
    and "list_all2 (\<lambda>i j. i = j \<or> enters_pin t i \<and> enters_pin t j) is js"
  shows "observations H C t is = observations H C t js"
proof (rule run_alike [OF assms(5,4) _ assms(7)])
  show "look_alike good t t"
    using assms(1-3,6) by (auto simp: look_alike_def token_inv_def)
qed

section \<open>Commands and answers read back\<close>

lemma is_ok_SW_OK [simp]: "is_ok (x @ sw_bytes SW_OK) = Some True"
  by (simp add: is_ok_def status_word_def sw_bytes_def SW_OK_def)

lemma payload_sw [simp]: "payload (x @ sw_bytes sw) = x"
  by (simp add: payload_def)

lemma sw_bytes_inject: "a < 0x10000 \<Longrightarrow> b < 0x10000 \<Longrightarrow> sw_bytes a = sw_bytes b \<longleftrightarrow> a = b"
  using be_codec.enc_inject [of a 2 b] by (auto simp: sw_bytes_def)

lemma parse_signed_ok:
  "parse_signed_response (p @ sw_bytes SW_OK) =
    (if p = [] then Some None
     else if length p < 1 + unat (hd p) + 2 then Some None
     else let siglen = be_decode (take 2 (drop (1 + unat (hd p)) p));
              signature = take siglen (drop (2 + unat (hd p)) (tl p))
          in Some (if length signature \<noteq> siglen then None else Some (take (unat (hd p)) (drop 1 p), signature)))"
proof -
  have "drop (3 + n) p = drop (2 + n) (tl p)" for n
    by (simp add: drop_Suc [symmetric] numeral_3_eq_3)
  then show ?thesis by (simp add: parse_signed_response_def Let_def)
qed

lemma parse_signed:
  assumes "length h \<le> 255" "length s \<le> 0xFFFF"
  shows "parse_signed_response ([byte (length h)] @ h @ be_encode 2 (length s) @ s @ sw_bytes SW_OK) = Some (Some (h, s))"
  using parse_signed_ok [of "[byte (length h)] @ h @ be_encode 2 (length s) @ s"] assms
  by (simp add: Let_def)

lemma parse_generated_ok:
  "parse_generated_keys (p @ sw_bytes SW_OK) =
    (if p = [] then Some None
     else if length p < 1 + unat (hd p) + 1 then Some None
     else let n = unat (hd p); d = unat (p ! (1 + n)); duress = take d (drop (2 + n) p)
          in Some (if length duress \<noteq> d then None else Some (take n (drop 1 p), duress)))"
  by (simp add: parse_generated_keys_def Let_def)

lemma parse_generated:
  assumes "length x \<le> 255" "length y \<le> 255"
  shows "parse_generated_keys ([byte (length x)] @ x @ [byte (length y)] @ y @ sw_bytes SW_OK) = Some (Some (x, y))"
  using parse_generated_ok [of "[byte (length x)] @ x @ [byte (length y)] @ y"] assms
  by (simp add: Let_def nth_append)

lemma apdu_data_short:
  assumes "length d \<le> 255" "d \<noteq> []"
  shows "apdu_data ([a, b, c, e, byte (length d)] @ d) = Some d"
  using assms by (simp add: apdu_data_def Let_def)

lemma apdu_data_pin: "pin_apdu ins pin = Some a \<Longrightarrow> \<exists>raw. utf8_encode pin = Some raw \<and> apdu_data a = Some raw \<and>
    4 \<le> length a \<and> a ! 0 = CLA \<and> a ! 1 = ins"
  by (auto simp: pin_apdu_def apdu_data_def Let_def split: option.splits if_splits)

lemma supplied_text_encode: "utf8_encode s = Some raw \<Longrightarrow> supplied_text raw = s"
  by (simp add: supplied_text_def utf8_encode_Some_iff)

lemma sign_challenge_apdu:
  assumes "sign_challenge scope c = Some a"
  obtains raw where "utf8_encode scope = Some raw" "length raw \<le> 255"
    "apdu_data a = Some ([byte (length raw)] @ raw @ c)" "4 \<le> length a" "a ! 0 = CLA" "a ! 1 = INS_SIGN_CHALLENGE"
proof -
  obtain raw where raw: "utf8_encode scope = Some raw" "length raw \<le> 255" "1 + length raw + length c \<le> 255"
    and a: "a = [CLA, INS_SIGN_CHALLENGE, 0, 0, byte (length ([byte (length raw)] @ raw @ c))] @ ([byte (length raw)] @ raw @ c)"
    using assms by (auto simp: sign_challenge_def Let_def split: option.splits if_splits)
  show thesis
    by (rule that [OF raw(1,2)]) (use raw(3) apdu_data_short [of "[byte (length raw)] @ raw @ c"] in \<open>simp_all add: a\<close>)
qed

lemma put_apdu:
  assumes "put_card_object ob = Some a"
  shows "apdu_data a = Some ob \<and> 4 \<le> length a \<and> a ! 0 = CLA \<and> a ! 1 = INS_PUT_CARD_OBJECT"
proof -
  from assms have "length ob \<le> 0xFFFF" and a: "a = [CLA, INS_PUT_CARD_OBJECT, 0, 0, 0] @ be_encode 2 (length ob) @ ob"
    by (auto simp: put_card_object_def split: if_splits)
  then show ?thesis by (simp add: apdu_data_def Let_def)
qed

lemma transmit_dispatch:
  assumes "apdu_data a = Some d" "4 \<le> length a" "a ! 0 = CLA"
  shows "transmit_raw H C t a = dispatch H C t (a ! 1) d"
  using assms by (simp add: transmit_raw_def)

lemma presentation_parse:
  assumes "sign_challenge scope challenge = Some apdu"
    and "selected t" "card_object t \<noteq> None" "unlocked_slot t = Some s" "secrets t s = Some secret"
    and "hash32 H" "pairwise_handle H secret scope = Inr handle" "response_body challenge scope handle = Inr body"
    and "sign_with_slot C = Some f" "f (backend t) s body = (Some sg, b)" "length sg \<le> 0xFFFF"
  shows "parse_signed_response (snd (transmit H C t apdu)) = Some (Some (handle, sg))"
proof -
  obtain raw where raw: "utf8_encode scope = Some raw" "length raw \<le> 255"
    and apdu: "apdu_data apdu = Some ([byte (length raw)] @ raw @ challenge)" "4 \<le> length apdu" "apdu ! 0 = CLA"
      "apdu ! 1 = INS_SIGN_CHALLENGE"
    by (rule sign_challenge_apdu [OF assms(1)])
  have len: "length handle = 32"
    using handle_length [OF assms(6,7)] .
  have dec: "utf8_decode raw = Some scope" using raw(1) by (simp add: utf8_encode_Some_iff)
  have rest: "drop (1 + length raw) (byte (length raw) # raw @ challenge) = challenge" by simp
  have blank: "\<not> is_blank t" using assms(3) by (simp add: is_blank_def)
  from dec rest blank have "snd (transmit_raw H C t apdu) =
      Some ([byte (length handle)] @ handle @ be_encode 2 (length sg) @ sg @ sw_bytes SW_OK)"
    using assms raw(2) len
    by (simp add: transmit_dispatch [OF apdu(1-3)] apdu(4) dispatch_def ins_defs sign_challenge_cmd_def
        sign_body_def Let_def del: One_nat_def)
  then show ?thesis
    using parse_signed [of handle sg] len assms(11) by (simp add: transmit_eq)
qed

text \<open>
  A presentation arrives. On an unlocked card with an object, the command a reader builds
  for its scope and challenge makes the card sign exactly the response body of that challenge,
  scope and pairwise handle with the slot the PIN unlocked, and the reader's parser reads the
  handle and the signature back.
\<close>

theorem presentation_round_trip:
  assumes "sign_challenge scope challenge = Some apdu"
    and "selected t" "card_object t \<noteq> None" "unlocked_slot t = Some s" "secrets t s = Some secret"
    and "hash32 H" "pairwise_handle H secret scope = Inr handle" "response_body challenge scope handle = Inr body"
    and "sign_with_slot C = Some f" "f (backend t) s body = (Some sg, b)" "length sg \<le> 0xFFFF"
  shows "parse_signed_response (snd (transmit H C t apdu)) = Some (Some (handle, sg))"
  using assms by (rule presentation_parse)

text \<open>
  The object put is the object presented. A blank selected card accepts the PUT command for
  an object exactly when the object decodes; and once it did, then after any commands and power
  cycles the card, if a PIN is verified, answers GET CARD OBJECT with that very object.
\<close>

theorem put_then_get:
  assumes "put_card_object ob = Some apdu" "token_inv t" "selected t" "card_object t = None"
  shows "(snd (transmit H C t apdu) = sw_bytes SW_OK \<longleftrightarrow> (\<exists>f. decode ob = Inr f)) \<and>
    (snd (transmit H C t apdu) = sw_bytes SW_OK \<longrightarrow>
      (\<forall>is. let u = foldl (token_step H C) (fst (transmit H C t apdu)) is in
        unlocked_slot u \<noteq> None \<longrightarrow> snd (transmit H C u get_card_object) = ob @ sw_bytes SW_OK))"
proof -
  note apdu = put_apdu [OF assms(1)]
  have raw: "transmit_raw H C t apdu = put_card_object_cmd t ob"
    using apdu assms(3) by (simp add: transmit_dispatch dispatch_def ins_defs)
  have blank: "tstate t = BLANK" using assms(2,4) by (simp add: token_inv_def)
  have neq: "sw_bytes SW_WRONG_DATA \<noteq> sw_bytes SW_OK" by (simp add: sw_bytes_inject sw_defs)
  have ok: "snd (transmit H C t apdu) = sw_bytes SW_OK \<longleftrightarrow> (\<exists>f. decode ob = Inr f)"
    using blank neq by (auto simp: transmit_eq raw put_card_object_cmd_def split: sum.splits card_exn.splits)
  have "snd (transmit H C u get_card_object) = ob @ sw_bytes SW_OK"
    if "decode ob = Inr f" "u = foldl (token_step H C) (fst (transmit H C t apdu)) is" "unlocked_slot u \<noteq> None" for f "is" u
  proof -
    have "holds_object ob (fst (transmit H C t apdu))"
      using that(1) blank by (simp add: transmit_eq raw put_card_object_cmd_def holds_object_def)
    then have obj: "holds_object ob u"
      unfolding that(2) by (rule object_steps.run_inv)
    have "token_inv u"
      unfolding that(2) by (rule card_steps.run_inv) (rule token_inv_transmit [OF assms(2)])
    then have "selected u" using that(3) by (simp add: token_inv_def)
    with obj that(3) show ?thesis
      by (auto simp: transmit_eq transmit_raw_def get_card_object_def apdu_data_def dispatch_def ins_defs
          get_card_object_cmd_def holds_object_def)
  qed
  with ok show ?thesis by (auto simp: Let_def)
qed

text \<open>
  Keys are made on the card. A blank card with the ready-made backend and no slots yet
  generates a key in each slot; what the station parses from the answer is the two public keys
  of the keys the card keeps, and the card will not generate again.
\<close>

theorem generated_on_card:
  assumes "selected t" "tstate t = BLANK" "\<not> generated t" "backend t = (Map.empty, r)"
    and "\<forall>k. length (p_public P k) \<le> 255"
  shows "let t' = fst (transmit H (slot_crypto sha256 P) t generate_keypair) in
    \<exists>k1 k2. fst (backend t') = [NormalSlot \<mapsto> k1, DuressSlot \<mapsto> k2] \<and>
      parse_generated_keys (snd (transmit H (slot_crypto sha256 P) t generate_keypair)) =
        Some (Some (p_public P k1, p_public P k2)) \<and>
      transmit H (slot_crypto sha256 P) t' generate_keypair = (t', sw_bytes SW_ALREADY_PERSONALIZED)"
proof -
  obtain k1 r1 where k1: "p_generate P r = (k1, r1)" by fastforce
  obtain k2 r2 where k2: "p_generate P r1 = (k2, r2)" by fastforce
  have raw: "transmit_raw H C u generate_keypair = (if selected u then generate_keypair_cmd C u
      else (u, Some (sw_bytes SW_CONDITIONS_NOT_SATISFIED)))" for C u
    by (simp add: transmit_raw_def generate_keypair_def apdu_data_def dispatch_def ins_defs)
  let ?C = "slot_crypto sha256 P"
  let ?b = "([NormalSlot \<mapsto> k1, DuressSlot \<mapsto> k2], r2)"
  have gen: "generate_keypair_cmd ?C t = (t\<lparr>backend := ?b, generated := True\<rparr>,
      Some ([byte (length (p_public P k1))] @ p_public P k1 @ [byte (length (p_public P k2))] @ p_public P k2 @ sw_bytes SW_OK))"
    using assms k1 k2 by (simp add: generate_keypair_cmd_def slot_crypto_def slot_generate_def leD)
  have again: "generate_keypair_cmd ?C (t\<lparr>backend := ?b, generated := True\<rparr>) =
      (t\<lparr>backend := ?b, generated := True\<rparr>, Some (sw_bytes SW_ALREADY_PERSONALIZED))"
    by (simp add: generate_keypair_cmd_def)
  show ?thesis
    using assms(1,5) parse_generated [of "p_public P k1" "p_public P k2"]
    by (simp add: transmit_eq raw gen again) blast
qed

text \<open>
  A try that costs nothing. A VERIFY whose data is UTF-8 text with a non-ASCII character is
  answered with the status word for wrong data, and the card is left exactly as it was: the
  constant-time comparison refuses such text by raising, before the retry counter moves. (The
  comment in \<open>_verify_pin\<close> says of data that is no PIN that it must still cost an attempt; only
  undecodable bytes do.)
\<close>

theorem non_ascii_pin_is_free:
  assumes "verify_pin pin = Some apdu" "\<not> ascii pin" "selected t" "\<not> blocked t"
  shows "transmit H C t apdu = (t, sw_bytes SW_WRONG_DATA)"
proof -
  obtain raw where raw: "utf8_encode pin = Some raw" and apdu: "apdu_data apdu = Some raw" "4 \<le> length apdu"
    "apdu ! 0 = CLA" "apdu ! 1 = INS_VERIFY_PIN"
    using apdu_data_pin assms(1) unfolding verify_pin_def by metis
  have "verify_pin_cmd t raw = (t, None)"
    using assms(2,4) by (simp add: verify_pin_cmd_def supplied_text_encode [OF raw] compare_digest_def)
  then show ?thesis
    using assms(3) by (simp add: transmit_eq transmit_dispatch [OF apdu(1-3)] apdu(4) dispatch_verify del: One_nat_def)
qed

section \<open>A sample card\<close>

definition sample_signer :: "unit crypto" where
  "sample_signer =
     \<lparr>sign_with_slot = Some (\<lambda>b s m. (Some (replicate 64 (case s of NormalSlot \<Rightarrow> 1 | DuressSlot \<Rightarrow> 2)), b)),
      generate_fn = None\<rparr>"

definition sample_token :: "bytes option \<Rightarrow> unit token" where
  "sample_token ob =
     \<lparr>card_object = ob, tstate = (if ob = None then BLANK else PERSONALIZED), duress_enrolled = True,
      pins = (\<lambda>s. case s of NormalSlot \<Rightarrow> lit ''1234'' | DuressSlot \<Rightarrow> lit ''9999''), puk = lit ''12345678'',
      secrets = (\<lambda>s. Some (case s of NormalSlot \<Rightarrow> [1] | DuressSlot \<Rightarrow> [2])), generated = False,
      selected = True, unlocked_slot = None, tries = 3, puk_tries = 10, backend = ()\<rparr>"

lemma sample_token_inv: "ob = None \<or> (\<exists>f. decode (the ob) = Inr f) \<Longrightarrow> token_inv (sample_token ob)"
  by (auto simp: token_inv_def sample_token_def MAX_PIN_TRIES_def MAX_PUK_TRIES_def)

definition pin_try :: "string \<Rightarrow> reader_input" where
  "pin_try p = Apdu ([CLA, INS_VERIFY_PIN, 0, 0x80, byte (length p)] @ map byte (lit p))"

lemma ascii_lit: "list_all (\<lambda>c. of_char c < (0x80 :: nat)) p \<Longrightarrow> ascii (lit p)"
  by (simp add: ascii_def lit_def list_all_iff)

lemma pin_try_text:
  assumes "list_all (\<lambda>c. of_char c < (0x80 :: nat)) p" "0 < length p" "length p \<le> 255"
  shows "apdu_data ([CLA, INS_VERIFY_PIN, 0, 0x80, byte (length p)] @ map byte (lit p)) = Some (map byte (lit p))"
    and "supplied_text (map byte (lit p)) = lit p"
  using assms apdu_data_short [of "map byte (lit p)"] utf8_decode_ascii [OF ascii_lit]
  by (simp_all add: supplied_text_def)

lemma pin_try_knows:
  assumes "list_all (\<lambda>c. of_char c < (0x80 :: nat)) p" "0 < length p" "length p \<le> 255"
  shows "knows_secret t (pin_try p) \<longleftrightarrow> lit p \<in> {pins t NormalSlot, pins t DuressSlot, puk t}"
    and "enters_pin t (pin_try p) \<longleftrightarrow> lit p \<in> {pins t NormalSlot, pins t DuressSlot}"
  using pin_try_text [OF assms] by (simp_all add: pin_try_def knows_secret_def enters_pin_def)

theorem pin_guess_bound_witness:
  "token_inv (sample_token None) \<and>
    unlocked_slot (foldl (token_step sample_hash sample_signer) (sample_token None) [pin_try ''0000'', PowerCycle, pin_try ''0001'']) = None \<and>
    int (length (pin_guesses sample_hash sample_signer (sample_token None) [pin_try ''0000'', PowerCycle, pin_try ''0001''])) \<le> 3"
proof -
  have inv: "token_inv (sample_token None)" by (rule sample_token_inv) simp
  have "\<forall>i \<in> set [pin_try ''0000'', PowerCycle, pin_try ''0001'']. \<not> knows_secret (sample_token None) i"
    by (simp add: pin_try_knows sample_token_def) (simp add: knows_secret_def)
  from pin_guess_bound [OF inv _ this, of sample_hash sample_signer] inv show ?thesis
    by (auto simp: sample_token_def simp del: pin_guesses.simps foldl_Cons)
qed

theorem exhausted_card_is_dead_witness:
  "unlocked_slot (foldl (token_step sample_hash sample_signer) (sample_token None\<lparr>tries := 0, puk_tries := 0\<rparr>)
    [pin_try ''1234'', pin_try ''9999'']) = None"
  by (rule exhausted_card_is_dead) (simp_all add: token_inv_def sample_token_def MAX_PIN_TRIES_def MAX_PUK_TRIES_def)

theorem personalized_card_is_final_witness:
  "\<exists>ob t'. t' = foldl (token_step sample_hash sample_signer) (sample_token (Some ob)) [Apdu select, Apdu generate_keypair] \<and>
    card_object t' = Some ob"
proof -
  obtain b f where "decode b = Inr f"
    using sample_decodes [of Some] by auto
  then have "token_inv (sample_token (Some b))" by (simp add: sample_token_inv)
  from personalized_card_is_final [OF this _ refl, of b sample_hash sample_signer] show ?thesis
    by (auto simp: sample_token_def simp del: foldl_Cons)
qed

theorem locked_card_is_silent_witness:
  "length (snd (transmit sample_hash sample_signer (sample_token (Some [1])) get_card_object)) = 2"
  by (rule locked_card_is_silent) (simp_all add: sample_token_def get_card_object_def ins_defs)

theorem duress_is_unobservable_witness:
  "\<exists>ob a. sign_challenge (lit ''gate'') (replicate 16 7) = Some a \<and>
    token_inv (sample_token (Some ob)) \<and>
    observations sample_hash sample_signer (sample_token (Some ob))
      [pin_try ''0000'', pin_try ''1234'', Apdu get_card_object, Apdu a] =
    observations sample_hash sample_signer (sample_token (Some ob))
      [pin_try ''0000'', pin_try ''9999'', Apdu get_card_object, Apdu a]"
proof -
  obtain ob f where "decode ob = Inr f"
    using sample_decodes [of Some] by auto
  then have inv: "token_inv (sample_token (Some ob))" by (simp add: sample_token_inv)
  obtain a where a: "sign_challenge (lit ''gate'') (replicate 16 7) = Some a"
    by (simp add: sign_challenge_def utf8_encode_lit Let_def)
  have "observations sample_hash sample_signer (sample_token (Some ob))
      [pin_try ''0000'', pin_try ''1234'', Apdu get_card_object, Apdu a] =
    observations sample_hash sample_signer (sample_token (Some ob))
      [pin_try ''0000'', pin_try ''9999'', Apdu get_card_object, Apdu a]"
  proof (rule duress_is_unobservable [where good = "\<lambda>_. True"])
    show "steady_signer sample_signer (\<lambda>_. True)"
      by (simp add: steady_signer_def sample_signer_def RAW_SIGNATURE_LEN_def)
    show "hash32 sample_hash" by (simp add: hash32_def sample_hash_def)
    show "list_all2 (\<lambda>i j. i = j \<or> enters_pin (sample_token (Some ob)) i \<and> enters_pin (sample_token (Some ob)) j)
      [pin_try ''0000'', pin_try ''1234'', Apdu get_card_object, Apdu a]
      [pin_try ''0000'', pin_try ''9999'', Apdu get_card_object, Apdu a]"
      by (simp add: pin_try_knows sample_token_def)
  qed (simp_all add: inv, simp_all add: sample_token_def)
  with inv a show ?thesis by blast
qed

theorem presentation_round_trip_witness:
  "\<exists>a. sign_challenge (lit ''gate'') (replicate 16 7) = Some a \<and>
    parse_signed_response (snd (transmit sample_hash sample_signer
      (sample_token (Some [])\<lparr>unlocked_slot := Some DuressSlot\<rparr>) a)) =
    Some (Some (replicate 32 (byte 23), replicate 64 2))"
proof -
  obtain a where a: "sign_challenge (lit ''gate'') (replicate 16 7) = Some a"
    by (simp add: sign_challenge_def utf8_encode_lit Let_def)
  have handle: "pairwise_handle sample_hash [2] (lit ''gate'') = Inr (replicate 32 (byte 23))"
    by (simp add: pairwise_handle_def utf8_encode_lit sample_hash_def) (simp add: numeral_eq_Suc)
  obtain body where body: "response_body (replicate 16 7) (lit ''gate'') (replicate 32 (byte 23)) = Inr body"
    by (simp add: response_body_def utf8_encode_lit)
  have "parse_signed_response (snd (transmit sample_hash sample_signer
      (sample_token (Some [])\<lparr>unlocked_slot := Some DuressSlot\<rparr>) a)) =
    Some (Some (replicate 32 (byte 23), replicate 64 2))"
    by (rule presentation_round_trip [OF a _ _ _ _ _ handle body, where s = DuressSlot and b = "()"
          and f = "\<lambda>b s m. (Some (replicate 64 (case s of NormalSlot \<Rightarrow> 1 | DuressSlot \<Rightarrow> 2)), b)"])
      (auto simp: sample_token_def sample_signer_def hash32_def sample_hash_def)
  with a show ?thesis by blast
qed

theorem put_then_get_witness:
  "\<exists>a. put_card_object [1, 2] = Some a \<and>
    snd (transmit sample_hash sample_signer (sample_token None) a) \<noteq> sw_bytes SW_OK"
proof -
  obtain a where a: "put_card_object [1, 2] = Some a" by (simp add: put_card_object_def)
  have "token_inv (sample_token None)" by (rule sample_token_inv) simp
  moreover have "decode [1, 2] = Inl (CardProfileError TruncatedHeader)"
    by (simp add: decode_def decode_loop.simps)
  ultimately show ?thesis
    using put_then_get [OF a, of "sample_token None" sample_hash sample_signer] a
    by (auto simp: sample_token_def)
qed

definition sample_p256 :: "(nat, nat) p256" where
  "sample_p256 = \<lparr>p_generate = (\<lambda>r. (r, r + 1)), p_public = (\<lambda>k. replicate 65 (byte k)),
     p_sign = (\<lambda>k m r. ((k, r), r + 1))\<rparr>"

theorem generated_on_card_witness:
  "\<exists>t :: (nat, nat) slots token. new_blank_token (\<lambda>n. []) (lit ''1234'') (Some (lit ''9999'')) (lit ''12345678'') [1] [2] 5 = Inr t \<and>
    (let t' = fst (transmit sample_hash (slot_crypto sample_hash sample_p256) (fst (select_cmd t)) generate_keypair) in
      \<exists>k1 k2. fst (backend t') = [NormalSlot \<mapsto> k1, DuressSlot \<mapsto> k2])"
proof -
  have "ascii (lit ''1234'')" "ascii (lit ''9999'')" by (simp_all add: ascii_lit)
  then obtain t :: "(nat, nat) slots token"
    where t: "new_blank_token (\<lambda>n. []) (lit ''1234'') (Some (lit ''9999'')) (lit ''12345678'') [1] [2] 5 = Inr t"
      and "tstate t = BLANK" "\<not> generated t" "backend t = (Map.empty, 5)"
    by (simp add: new_blank_token_def new_token_def compare_digest_def reset_def)
  with generated_on_card [of "fst (select_cmd t)" 5 sample_p256 sample_hash sample_hash] show ?thesis
    by (auto simp: select_cmd_def sample_p256_def Let_def)
qed

theorem non_ascii_pin_is_free_witness:
  "\<exists>a. verify_pin [233] = Some a \<and>
    transmit sample_hash sample_signer (sample_token None) a = (sample_token None, sw_bytes SW_WRONG_DATA)"
proof -
  have "scalar 233" by (simp add: scalar_def)
  then obtain a where a: "verify_pin [233] = Some a"
    by (simp add: verify_pin_def pin_apdu_def utf8_encode_def utf8_char_def)
  have "\<not> ascii [233]" by (simp add: ascii_def)
  from non_ascii_pin_is_free [OF a this, of "sample_token None" sample_hash sample_signer] a show ?thesis
    by (simp add: sample_token_def blocked_def)
qed

text \<open>
  C33. The states of a token. From construction on, through any run of APDUs and power cycles, both
  retry counters stay in range, an unlocked token is selected with all its tries left, and the token
  holds an object exactly when it is personalized, one that decodes.
\<close>

theorem token_states:
  assumes "new_token filler ob np dp pk sn sd b = Inr t"
  shows "token_inv (foldl (token_step H C) t inputs)"
  by (rule card_steps.run_inv [OF new_token_inv [OF assms]])

theorem token_states_witness:
  "\<exists>t. token_inv (foldl (token_step sample_hash sample_signer) t [Apdu select, PowerCycle])"
proof -
  obtain t where "new_token (\<lambda>_. []) None (lit ''1234'') None (lit ''12345678'') [] None () = Inr t"
    by (simp add: new_token_def)
  from token_states [OF this] show ?thesis by blast
qed

end
