(* ===== verification/Base64.thy ===== *)
theory Base64
  imports Utf8
begin

text \<open>
  The base64url of the Python standard library, as \<open>polaris_card/verifier_device.py\<close> and
  \<open>polaris_oid4vp/status.py\<close> use it: \<open>base64.urlsafe_b64encode\<close> stripped of its padding, and
  the lenient \<open>base64.urlsafe_b64decode\<close>, which skips characters outside the alphabet and stops
  at the padding (\<open>binascii.a2b_base64\<close>, not strict).
\<close>

section \<open>Encoding\<close>

definition b64_char :: "nat \<Rightarrow> nat" where
  "b64_char n =
     (if n < 26 then 65 + n else if n < 52 then 71 + n else if n < 62 then n - 4
      else if n = 62 then 45 else 95)"

fun b64_chars :: "bytes \<Rightarrow> ustr" where
  "b64_chars [] = []"
| "b64_chars [a] = [b64_char (unat a div 4), b64_char (unat a mod 4 * 16)]"
| "b64_chars [a, b] =
     [b64_char (unat a div 4), b64_char (unat a mod 4 * 16 + unat b div 16), b64_char (unat b mod 16 * 4)]"
| "b64_chars (a # b # c # r) =
     b64_char (unat a div 4) # b64_char (unat a mod 4 * 16 + unat b div 16)
     # b64_char (unat b mod 16 * 4 + unat c div 64) # b64_char (unat c mod 64) # b64_chars r"

text \<open>\<open>-n % 4\<close>: how many characters complete a group of four.\<close>

definition pad4 :: "nat \<Rightarrow> nat" where
  "pad4 n = (4 - n mod 4) mod 4"

definition urlsafe_b64encode :: "bytes \<Rightarrow> ustr" where
  "urlsafe_b64encode raw = b64_chars raw @ replicate (pad4 (length (b64_chars raw))) 61"

definition rstrip_eq :: "ustr \<Rightarrow> ustr" where
  "rstrip_eq s = rev (dropWhile (\<lambda>c. c = 61) (rev s))"

text \<open>\<open>_b64\<close> of the device: the encoding without its padding.\<close>

definition b64 :: "bytes \<Rightarrow> ustr" where
  "b64 raw = rstrip_eq (urlsafe_b64encode raw)"

section \<open>Decoding\<close>

text \<open>
  The translation maps \<open>-_\<close> to \<open>+/\<close>, so both spellings of the last two characters are read.
\<close>

definition b64_value :: "nat \<Rightarrow> nat option" where
  "b64_value c =
     (if 65 \<le> c \<and> c \<le> 90 then Some (c - 65)
      else if 97 \<le> c \<and> c \<le> 122 then Some (c - 71)
      else if 48 \<le> c \<and> c \<le> 57 then Some (c + 4)
      else if c = 45 \<or> c = 43 then Some 62
      else if c = 95 \<or> c = 47 then Some 63 else None)"

text \<open>
  The loop of \<open>a2b_base64\<close>: \<open>q\<close> is the position in the group of four, \<open>left\<close> the bits carried
  over, \<open>pads\<close> the padding characters since the last data character.
\<close>

fun a2b :: "nat \<Rightarrow> nat \<Rightarrow> nat \<Rightarrow> ustr \<Rightarrow> bytes option" where
  "a2b q left pads [] = (if q = 0 then Some [] else None)"
| "a2b q left pads (c # cs) =
     (if c = 61 then
        (if 2 \<le> q then (if 4 \<le> q + (pads + 1) then Some [] else a2b q left (pads + 1) cs)
         else a2b q left pads cs)
      else
        (case b64_value c of None \<Rightarrow> a2b q left pads cs
         | Some v \<Rightarrow>
             if q = 0 then a2b 1 v 0 cs
             else if q = 1 then map_option ((#) (byte (left * 4 + v div 16))) (a2b 2 (v mod 16) 0 cs)
             else if q = 2 then map_option ((#) (byte (left * 16 + v div 4))) (a2b 3 (v mod 4) 0 cs)
             else map_option ((#) (byte (left * 64 + v))) (a2b 0 0 0 cs)))"

text \<open>Text with a character outside ASCII is refused first (\<open>ValueError\<close>, as a bad encoding is).\<close>

definition urlsafe_b64decode :: "ustr \<Rightarrow> bytes option" where
  "urlsafe_b64decode s = (if ascii s then a2b 0 0 0 s else None)"

text \<open>\<open>_unb64\<close> of the device.\<close>

definition unb64 :: "ustr \<Rightarrow> bytes option" where
  "unb64 text = urlsafe_b64decode (text @ replicate (pad4 (length text)) 61)"

section \<open>Facts\<close>

lemma b64_value_char [simp]: "n < 64 \<Longrightarrow> b64_value (b64_char n) = Some n"
  by (auto simp: b64_value_def b64_char_def)

lemma b64_char_range: "n < 64 \<Longrightarrow> 45 \<le> b64_char n \<and> b64_char n \<le> 122 \<and> b64_char n \<noteq> 61 \<and> b64_char n \<noteq> 58 \<and> b64_char n \<noteq> 46"
  by (auto simp: b64_char_def)

lemma byte_parts:
  fixes a :: "8 word"
  shows "unat a div 4 < 64" "unat a mod 4 < 4" "unat a div 16 < 16" "unat a mod 16 < 16" "unat a div 64 < 4"
    "unat a mod 64 < 64"
  using unat_byte_lt [of a] by (simp_all add: less_mult_imp_div_less)

lemma split_at:
  fixes k x y :: nat
  assumes "y < k"
  shows "(x * k + y) div k = x" "(x * k + y) mod k = y"
  using assms by simp_all

lemma sextets:
  fixes a b c :: "8 word"
  shows "unat a div 4 < 64" "unat a mod 4 * 16 < 64" "unat a mod 4 * 16 + unat b div 16 < 64"
    "unat b mod 16 * 4 < 64" "unat b mod 16 * 4 + unat c div 64 < 64" "unat c mod 64 < 64"
  using byte_parts [of a] byte_parts [of b] byte_parts [of c] by linarith+

lemma b64_chars_range: "c \<in> set (b64_chars raw) \<Longrightarrow> \<exists>n < 64. c = b64_char n"
proof (induction raw rule: b64_chars.induct)
  case (2 a)
  with sextets(1,2) [of a] show ?case by (metis b64_chars.simps(2) empty_iff list.set(1) set_ConsD)
next
  case (3 a b)
  have "c = b64_char (unat a div 4) \<or> c = b64_char (unat a mod 4 * 16 + unat b div 16) \<or> c = b64_char (unat b mod 16 * 4)"
    using 3 by simp
  then show ?case using sextets(1,3,4) by blast
next
  case (4 a b d r)
  have "c = b64_char (unat a div 4) \<or> c = b64_char (unat a mod 4 * 16 + unat b div 16) \<or>
      c = b64_char (unat b mod 16 * 4 + unat d div 64) \<or> c = b64_char (unat d mod 64) \<or> c \<in> set (b64_chars r)"
    using "4.prems" by simp
  then show ?case using sextets(1,3,5,6) "4.IH" by blast
qed simp

lemma b64_chars_set:
  assumes "c \<in> set (b64_chars raw)"
  shows "c \<noteq> 61" "c \<noteq> 58" "c \<noteq> 46" "c < 0x80"
proof -
  obtain n where "n < 64" "c = b64_char n" using b64_chars_range [OF assms] by blast
  with b64_char_range [of n] show "c \<noteq> 61" "c \<noteq> 58" "c \<noteq> 46" "c < 0x80" by simp_all
qed

lemma rstrip_eq_replicate: "(\<And>c. c \<in> set s \<Longrightarrow> c \<noteq> 61) \<Longrightarrow> rstrip_eq (s @ replicate n 61) = s"
proof -
  assume s: "\<And>c. c \<in> set s \<Longrightarrow> c \<noteq> 61"
  have "dropWhile (\<lambda>c. c = 61) (replicate n 61 @ rev s) = dropWhile (\<lambda>c. c = 61) (rev s)"
    by (induction n) simp_all
  also have "\<dots> = rev s"
    using s hd_in_set [of "rev s"] unfolding dropWhile_eq_self_iff by (metis set_rev)
  finally show ?thesis by (simp add: rstrip_eq_def)
qed

lemma b64_eq: "b64 raw = b64_chars raw"
  by (simp add: b64_def urlsafe_b64encode_def rstrip_eq_replicate b64_chars_set)

lemma ascii_b64: "ascii (b64 raw)"
  by (auto simp: b64_eq ascii_def list_all_iff b64_chars_set)

lemma b64_no: "61 \<notin> set (b64 raw)" "58 \<notin> set (b64 raw)" "46 \<notin> set (b64 raw)"
  unfolding b64_eq by (metis b64_chars_set(1), metis b64_chars_set(2), metis b64_chars_set(3))

lemma small_parts:
  fixes b :: "8 word"
  shows "unat b div 16 div 16 = 0" "unat b div 64 div 4 = 0"
    "unat b div 16 mod 16 = unat b div 16" "unat b div 64 mod 4 = unat b div 64"
  using byte_parts [of b] by simp_all

lemma replicate_two: "replicate 2 x = [x, x]"
  by (simp add: numeral_2_eq_2)

lemma a2b_b64_chars: "a2b 0 left pads (b64_chars raw @ replicate (pad4 (length (b64_chars raw))) 61) = Some raw"
proof (induction raw arbitrary: left pads rule: b64_chars.induct)
  case (4 a b c r)
  have "pad4 (Suc (Suc (Suc (Suc n)))) = pad4 n" for n
    by (simp add: pad4_def)
  then show ?case
    using "4.IH" by (simp add: sextets b64_char_range small_parts)
qed (simp_all add: sextets b64_char_range small_parts pad4_def replicate_two)

lemma unb64_b64: "unb64 (b64 raw) = Some raw"
proof -
  have "ascii (b64 raw @ replicate (pad4 (length (b64 raw))) 61)"
    using ascii_b64 [of raw] by (auto simp: ascii_def list_all_iff)
  then show ?thesis
    by (simp add: unb64_def urlsafe_b64decode_def) (simp add: b64_eq a2b_b64_chars)
qed

text \<open>
  The decoder that accepts only what the encoder writes (the canonical check of
  \<open>polaris_oid4vp\<close>) is a codec.
\<close>

definition b64_read :: "ustr \<Rightarrow> bytes option" where
  "b64_read s = (case unb64 s of None \<Rightarrow> None | Some raw \<Rightarrow> if b64 raw = s then Some raw else None)"

interpretation b64: codec "\<lambda>_. True" b64 b64_read
  by unfold_locales (auto simp: b64_read_def unb64_b64 split: option.splits if_splits)

end
