(* ===== verification/Instants.thy ===== *)
theory Instants
  imports Utf8
begin

text \<open>
  Instants as the verifiers read them: \<open>_strict_instant\<close> (the one ISO 8601 subset every Polaris
  verifier accepts), \<open>_parse_iso\<close> and \<open>_instant\<close> of \<open>polaris_verify_cli/verifier.py\<close>. An aware
  \<open>datetime\<close> is the number of microseconds from the first day of year 1, UTC, which is what
  comparing and subtracting aware datetimes amounts to.
\<close>

section \<open>The calendar\<close>

definition leap_year :: "nat \<Rightarrow> bool" where
  "leap_year y \<longleftrightarrow> y mod 4 = 0 \<and> (y mod 100 \<noteq> 0 \<or> y mod 400 = 0)"

definition days_in_month :: "nat \<Rightarrow> nat \<Rightarrow> nat" where
  "days_in_month y m =
     (if m = 2 then (if leap_year y then 29 else 28) else if m \<in> {4, 6, 9, 11} then 30 else 31)"

definition days_before_year :: "nat \<Rightarrow> nat" where
  "days_before_year y = (y - 1) * 365 + (y - 1) div 4 + (y - 1) div 400 - (y - 1) div 100"

fun days_before_month :: "nat \<Rightarrow> nat \<Rightarrow> nat" where
  "days_before_month y 0 = 0"
| "days_before_month y (Suc m) = days_before_month y m + (if m = 0 then 0 else days_in_month y m)"

definition valid_date :: "nat \<Rightarrow> nat \<Rightarrow> nat \<Rightarrow> bool" where
  "valid_date y m d \<longleftrightarrow> 1 \<le> y \<and> y \<le> 9999 \<and> 1 \<le> m \<and> m \<le> 12 \<and> 1 \<le> d \<and> d \<le> days_in_month y m"

text \<open>\<open>datetime(y, m, d, hh, mi, ss, micro, tzinfo)\<close>, which raises on an impossible field.\<close>

definition make_instant :: "nat \<Rightarrow> nat \<Rightarrow> nat \<Rightarrow> nat \<Rightarrow> nat \<Rightarrow> nat \<Rightarrow> nat \<Rightarrow> int \<Rightarrow> int option" where
  "make_instant y m d hh mi ss micro offset_minutes =
     (if valid_date y m d \<and> hh \<le> 23 \<and> mi \<le> 59 \<and> ss \<le> 59 then
        Some (((int (days_before_year y + days_before_month y m + (d - 1)) * 86400
               + int (hh * 3600 + mi * 60 + ss)) - offset_minutes * 60) * 1000000 + int micro)
      else None)"

section \<open>The grammar\<close>

fun take_digits :: "nat \<Rightarrow> nat \<Rightarrow> ustr \<Rightarrow> (nat \<times> ustr) option" where
  "take_digits 0 acc s = Some (acc, s)"
| "take_digits (Suc n) acc [] = None"
| "take_digits (Suc n) acc (c # s) =
     (if 48 \<le> c \<and> c \<le> 57 then take_digits n (acc * 10 + (c - 48)) s else None)"

definition take_char :: "nat \<Rightarrow> ustr \<Rightarrow> ustr option" where
  "take_char c s = (case s of [] \<Rightarrow> None | x # r \<Rightarrow> if x = c then Some r else None)"

text \<open>One to six digits of a fraction, filled up to microseconds.\<close>

fun take_fraction :: "nat \<Rightarrow> nat \<Rightarrow> ustr \<Rightarrow> nat \<times> ustr" where
  "take_fraction 0 acc s = (acc, s)"
| "take_fraction (Suc n) acc [] = (acc * 10 ^ Suc n, [])"
| "take_fraction (Suc n) acc (c # s) =
     (if 48 \<le> c \<and> c \<le> 57 then take_fraction n (acc * 10 + (c - 48)) s else (acc * 10 ^ Suc n, c # s))"

text \<open>\<open>(?:\.([0-9]{1,6}))?\<close>\<close>

definition fraction_part :: "ustr \<Rightarrow> nat \<times> ustr" where
  "fraction_part s =
     (case s of c # d # r \<Rightarrow> if c = 46 \<and> 48 \<le> d \<and> d \<le> 57 then take_fraction 6 0 (d # r) else (0, s)
      | _ \<Rightarrow> (0, s))"

text \<open>\<open>(?:[Tt ]HH:MM(?::SS(?:\.f)?)?)?\<close>: hour, minute, second, microsecond and the rest.\<close>

definition seconds_part :: "ustr \<Rightarrow> nat \<times> nat \<times> ustr" where
  "seconds_part s =
     (case take_char 58 s of None \<Rightarrow> (0, 0, s)
      | Some r \<Rightarrow>
          (case take_digits 2 0 r of None \<Rightarrow> (0, 0, s)
           | Some (ss, r2) \<Rightarrow> (case fraction_part r2 of (micro, r3) \<Rightarrow> (ss, micro, r3))))"

definition time_part :: "ustr \<Rightarrow> nat \<times> nat \<times> nat \<times> nat \<times> ustr" where
  "time_part s =
     (case s of [] \<Rightarrow> (0, 0, 0, 0, s)
      | c # r \<Rightarrow>
          if c = 84 \<or> c = 116 \<or> c = 32 then
            (case take_digits 2 0 r of None \<Rightarrow> (0, 0, 0, 0, s)
             | Some (hh, r1) \<Rightarrow>
                 (case take_char 58 r1 of None \<Rightarrow> (0, 0, 0, 0, s)
                  | Some r2 \<Rightarrow>
                      (case take_digits 2 0 r2 of None \<Rightarrow> (0, 0, 0, 0, s)
                       | Some (mi, r3) \<Rightarrow>
                           (case seconds_part r3 of (ss, micro, r4) \<Rightarrow> (hh, mi, ss, micro, r4)))))
          else (0, 0, 0, 0, s))"

text \<open>
  \<open>(?:([Zz])|([+-])HH:?MM)?\<close> to the end of the text: the offset in minutes, absent is UTC.
\<close>

definition zone_part :: "ustr \<Rightarrow> int option" where
  "zone_part s =
     (case s of [] \<Rightarrow> Some 0
      | c # r \<Rightarrow>
          if c = 90 \<or> c = 122 then (if r = [] then Some 0 else None)
          else if c = 43 \<or> c = 45 then
            (case take_digits 2 0 r of None \<Rightarrow> None
             | Some (oh, r1) \<Rightarrow>
                 (case take_digits 2 0 (case take_char 58 r1 of None \<Rightarrow> r1 | Some r2 \<Rightarrow> r2) of
                    None \<Rightarrow> None
                  | Some (om, r3) \<Rightarrow>
                      if r3 \<noteq> [] \<or> 23 < oh \<or> 59 < om then None
                      else Some ((if c = 43 then 1 else - 1) * int (oh * 60 + om))))
          else None)"

definition strict_instant :: "ustr \<Rightarrow> int option" where
  "strict_instant s =
     (case take_digits 4 0 s of None \<Rightarrow> None
      | Some (y, r1) \<Rightarrow>
     (case take_char 45 r1 of None \<Rightarrow> None
      | Some r2 \<Rightarrow>
     (case take_digits 2 0 r2 of None \<Rightarrow> None
      | Some (m, r3) \<Rightarrow>
     (case take_char 45 r3 of None \<Rightarrow> None
      | Some r4 \<Rightarrow>
     (case take_digits 2 0 r4 of None \<Rightarrow> None
      | Some (d, r5) \<Rightarrow>
     (case time_part r5 of (hh, mi, ss, micro, r6) \<Rightarrow>
     (case zone_part r6 of None \<Rightarrow> None
      | Some offset_minutes \<Rightarrow> make_instant y m d hh mi ss micro offset_minutes)))))))"

text \<open>
  The caller's \<open>now\<close>: nothing (the clock), text, an aware datetime, a naive one, which \<open>_instant\<close>
  reads as UTC, or an integer, which is none of these and is refused by \<open>_instant\<close>.
\<close>

datatype now_arg = NoNow | NowText ustr | NowDatetime int | NowNaive int | NowInt int

definition instant :: "int \<Rightarrow> now_arg \<Rightarrow> int option" where
  "instant clock now =
     (case now of NoNow \<Rightarrow> Some clock | NowText s \<Rightarrow> strict_instant s
      | NowDatetime t \<Rightarrow> Some t | NowNaive t \<Rightarrow> Some t | NowInt _ \<Rightarrow> None)"

section \<open>Facts\<close>

text \<open>The text of an instant to the second, in UTC, and reading it back.\<close>

definition digits2 :: "nat \<Rightarrow> ustr" where
  "digits2 n = [48 + n div 10, 48 + n mod 10]"

definition digits4 :: "nat \<Rightarrow> ustr" where
  "digits4 n = digits2 (n div 100) @ digits2 (n mod 100)"

definition iso_text :: "nat \<Rightarrow> nat \<Rightarrow> nat \<Rightarrow> nat \<Rightarrow> nat \<Rightarrow> nat \<Rightarrow> ustr" where
  "iso_text y m d hh mi ss =
     digits4 y @ [45] @ digits2 m @ [45] @ digits2 d @ [84] @ digits2 hh @ [58] @ digits2 mi @ [58]
     @ digits2 ss @ [90]"

lemma take_digits2: "n < 100 \<Longrightarrow> take_digits 2 acc (digits2 n @ r) = Some (acc * 100 + n, r)"
proof -
  assume "n < 100"
  then have "n div 10 < 10" by (simp add: less_mult_imp_div_less)
  moreover have "(acc * 10 + n div 10) * 10 + n mod 10 = acc * 100 + n" by simp
  ultimately show ?thesis by (simp add: digits2_def numeral_2_eq_2)
qed

lemma take_digits_add: "take_digits (m + n) acc s =
  (case take_digits m acc s of None \<Rightarrow> None | Some (x, r) \<Rightarrow> take_digits n x r)"
  by (induction m acc s rule: take_digits.induct) simp_all

lemma take_digits4:
  assumes "n < 10000"
  shows "take_digits 4 0 (digits4 n @ r) = Some (n, r)"
proof -
  have "n div 100 < 100" using assms by (simp add: less_mult_imp_div_less)
  then show ?thesis
    using take_digits_add [of 2 2 0 "digits4 n @ r"]
    by (simp add: digits4_def take_digits2)
qed

lemma take_char_Cons [simp]: "take_char c (x # r) = (if x = c then Some r else None)"
  by (simp add: take_char_def)

lemma digits2_Cons: "digits2 n @ r = (48 + n div 10) # (48 + n mod 10) # r"
  by (simp add: digits2_def)

lemma strict_instant_iso_text:
  assumes "valid_date y m d" "hh \<le> 23" "mi \<le> 59" "ss \<le> 59"
  shows "strict_instant (iso_text y m d hh mi ss) = make_instant y m d hh mi ss 0 0"
proof -
  have d31: "days_in_month y m \<le> 31" by (simp add: days_in_month_def)
  then have lt: "y < 10000" "m < 100" "d < 100" "hh < 100" "mi < 100" "ss < 100"
    using assms unfolding valid_date_def by linarith+
  have "seconds_part (58 # digits2 ss @ [90]) = (ss, 0, [90])"
    by (simp add: seconds_part_def take_digits2 lt fraction_part_def)
  then have "time_part (84 # digits2 hh @ 58 # digits2 mi @ 58 # digits2 ss @ [90]) = (hh, mi, ss, 0, [90])"
    by (simp add: time_part_def take_digits2 lt)
  then show ?thesis
    by (simp add: iso_text_def strict_instant_def take_digits4 take_digits2 lt zone_part_def)
qed

end
