(* ===== verification/PyValue.thy ===== *)
theory PyValue
  imports Utf8 Complex_Main
begin

text \<open>
  The values that reach the verifiers off the wire: what \<open>json.loads\<close> returns, with Python's
  truth, equality and number rules, and the readers of \<open>polaris_verify_cli/verifier.py\<close> that
  every signed artifact goes through (\<open>_unhex\<close>, \<open>_finite\<close>, \<open>_wire_int\<close>, \<open>_signed_count\<close>,
  \<open>_wire_path\<close>, \<open>_hex_text\<close>, \<open>_same_hex\<close>, \<open>_hex_in\<close>, \<open>_same_id\<close>, \<open>_status_of\<close>).
\<close>

section \<open>Values\<close>

text \<open>A finite float is its exact value; the negative zero is kept apart, as its text differs.\<close>

datatype pyfloat = FNaN | FInf bool | FNegZero | FNum rat

datatype pyval =
    PNone | PBool bool | PInt int | PFloat pyfloat | PStr ustr
  | PList "pyval list" | PDict "(ustr \<times> pyval) list"

type_synonym pydict = "(ustr \<times> pyval) list"

text \<open>\<open>d.get(k)\<close>, and \<open>x if isinstance(x, dict) else {}\<close>.\<close>

definition py_get :: "pydict \<Rightarrow> string \<Rightarrow> pyval" where
  "py_get d k = (case map_of d (lit k) of None \<Rightarrow> PNone | Some v \<Rightarrow> v)"

definition as_dict :: "pyval \<Rightarrow> pydict" where
  "as_dict v = (case v of PDict d \<Rightarrow> d | _ \<Rightarrow> [])"

definition as_list :: "pyval \<Rightarrow> pyval list" where
  "as_list v = (case v of PList xs \<Rightarrow> xs | _ \<Rightarrow> [])"

definition is_str :: "pyval \<Rightarrow> bool" where
  "is_str v = (case v of PStr _ \<Rightarrow> True | _ \<Rightarrow> False)"

text \<open>Truth, as \<open>if x\<close> and \<open>x or y\<close> read it.\<close>

definition py_true :: "pyval \<Rightarrow> bool" where
  "py_true v =
     (case v of PNone \<Rightarrow> False | PBool b \<Rightarrow> b | PInt n \<Rightarrow> n \<noteq> 0
      | PFloat FNegZero \<Rightarrow> False | PFloat (FNum r) \<Rightarrow> r \<noteq> 0 | PFloat _ \<Rightarrow> True
      | PStr s \<Rightarrow> s \<noteq> [] | PList xs \<Rightarrow> xs \<noteq> [] | PDict d \<Rightarrow> d \<noteq> [])"

text \<open>The exact value of a finite number; a \<open>bool\<close> is the integer 0 or 1.\<close>

definition num_value :: "pyval \<Rightarrow> rat option" where
  "num_value v =
     (case v of PBool b \<Rightarrow> Some (if b then 1 else 0) | PInt n \<Rightarrow> Some (of_int n)
      | PFloat FNegZero \<Rightarrow> Some 0 | PFloat (FNum r) \<Rightarrow> Some r | _ \<Rightarrow> None)"

text \<open>\<open>==\<close>: numbers by value across their types, a NaN equal to nothing.\<close>

fun py_eq :: "pyval \<Rightarrow> pyval \<Rightarrow> bool"
  and py_eq_list :: "pyval list \<Rightarrow> pyval list \<Rightarrow> bool"
  and py_eq_dict :: "pydict \<Rightarrow> pydict \<Rightarrow> bool" where
  "py_eq PNone w = (w = PNone)"
| "py_eq (PBool b) w = (num_value w = Some (if b then 1 else 0))"
| "py_eq (PInt n) w = (num_value w = Some (of_int n))"
| "py_eq (PFloat f) w =
     (case f of FNaN \<Rightarrow> False | FInf b \<Rightarrow> w = PFloat (FInf b)
      | FNegZero \<Rightarrow> num_value w = Some 0 | FNum r \<Rightarrow> num_value w = Some r)"
| "py_eq (PStr s) w = (w = PStr s)"
| "py_eq (PList xs) w = (case w of PList ys \<Rightarrow> py_eq_list xs ys | _ \<Rightarrow> False)"
| "py_eq (PDict d) w = (case w of PDict e \<Rightarrow> length d = length e \<and> py_eq_dict d e | _ \<Rightarrow> False)"
| "py_eq_list [] ys = (ys = [])"
| "py_eq_list (x # xs) ys = (case ys of [] \<Rightarrow> False | y # ys' \<Rightarrow> py_eq x y \<and> py_eq_list xs ys')"
| "py_eq_dict [] e = True"
| "py_eq_dict ((k, v) # d) e = (case map_of e k of None \<Rightarrow> False | Some w \<Rightarrow> py_eq v w \<and> py_eq_dict d e)"

section \<open>Numbers off the wire\<close>

text \<open>
  \<open>math.isfinite\<close> of an integer converts it to a float and raises \<open>OverflowError\<close> past the
  range: an integer whose absolute value rounds to \<open>2 ^ 1024\<close>. \<open>_finite\<close> returns \<open>None\<close> here
  where the code raises.
\<close>

definition float_overflows :: "int \<Rightarrow> bool" where
  "float_overflows n \<longleftrightarrow> 2 ^ 1024 - 2 ^ 970 \<le> \<bar>n\<bar>"

definition finite_num :: "pyval \<Rightarrow> bool option" where
  "finite_num x =
     (case x of PInt n \<Rightarrow> if float_overflows n then None else Some True
      | PFloat FNaN \<Rightarrow> Some False | PFloat (FInf _) \<Rightarrow> Some False | PFloat _ \<Rightarrow> Some True
      | _ \<Rightarrow> Some False)"

datatype wire_exn = NotAnInteger | WireOverflow

definition wire_int :: "pyval \<Rightarrow> wire_exn + int" where
  "wire_int x =
     (case finite_num x of None \<Rightarrow> Inl WireOverflow
      | Some False \<Rightarrow> Inl NotAnInteger
      | Some True \<Rightarrow>
          (case x of PInt n \<Rightarrow> Inr n
           | PFloat FNegZero \<Rightarrow> Inr 0
           | PFloat (FNum r) \<Rightarrow> if r \<in> \<int> then Inr \<lfloor>r\<rfloor> else Inl NotAnInteger
           | _ \<Rightarrow> Inl NotAnInteger))"

definition MAX_SAFE_INTEGER :: int where
  "MAX_SAFE_INTEGER = 2 ^ 53 - 1"

definition signed_count :: "pyval \<Rightarrow> bool" where
  "signed_count x = (case x of PInt n \<Rightarrow> 0 \<le> n \<and> n \<le> MAX_SAFE_INTEGER | _ \<Rightarrow> False)"

definition safe_int :: "pyval \<Rightarrow> bool" where
  "safe_int x = (case x of PInt n \<Rightarrow> \<bar>n\<bar> \<le> MAX_SAFE_INTEGER | _ \<Rightarrow> False)"

definition same_id :: "pyval \<Rightarrow> pyval \<Rightarrow> bool" where
  "same_id a b = (if is_str a \<and> is_str b then a = b else safe_int a \<and> safe_int b \<and> py_eq a b)"

section \<open>Hex\<close>

definition hex_digit :: "nat \<Rightarrow> nat option" where
  "hex_digit c =
     (if 48 \<le> c \<and> c \<le> 57 then Some (c - 48)
      else if 65 \<le> c \<and> c \<le> 70 then Some (c - 55)
      else if 97 \<le> c \<and> c \<le> 102 then Some (c - 87) else None)"

text \<open>\<open>bytes.fromhex\<close> on text without white space.\<close>

fun fromhex :: "ustr \<Rightarrow> bytes option" where
  "fromhex [] = Some []"
| "fromhex [c] = None"
| "fromhex (c # d # s) =
     (case (hex_digit c, hex_digit d) of
        (Some x, Some y) \<Rightarrow> map_option ((#) (byte (x * 16 + y))) (fromhex s)
      | _ \<Rightarrow> None)"

text \<open>
  \<open>_unhex\<close>: the \<open>TypeError\<close> of a value that is no string and the \<open>ValueError\<close> of a string
  that is no hex are both \<open>None\<close>, as every caller catches both.
\<close>

definition unhex :: "pyval \<Rightarrow> bytes option" where
  "unhex v =
     (case v of PStr s \<Rightarrow>
        if odd (length s) \<or> \<not> list_all (\<lambda>c. hex_digit c \<noteq> None) s then None else fromhex s
      | _ \<Rightarrow> None)"

definition nibble_char :: "nat \<Rightarrow> nat" where
  "nibble_char n = (if n < 10 then 48 + n else 87 + n)"

text \<open>\<open>bytes.hex()\<close>, and \<open>hexdigest()\<close> of a digest.\<close>

definition hex_of :: "bytes \<Rightarrow> ustr" where
  "hex_of bs = concat (map (\<lambda>b. [nibble_char (unat b div 16), nibble_char (unat b mod 16)]) bs)"

text \<open>\<open>str.lower\<close> on ASCII letters; no other character's lower case is a hex digit.\<close>

definition py_lower :: "ustr \<Rightarrow> ustr" where
  "py_lower s = map (\<lambda>c. if 65 \<le> c \<and> c \<le> 90 then c + 32 else c) s"

definition hex_text :: "pyval \<Rightarrow> ustr option" where
  "hex_text v = (case v of PStr s \<Rightarrow> if s = [] then None else Some (py_lower s) | _ \<Rightarrow> None)"

definition same_hex :: "pyval \<Rightarrow> pyval \<Rightarrow> bool" where
  "same_hex a b \<longleftrightarrow> hex_text a \<noteq> None \<and> hex_text a = hex_text b"

definition hex_in :: "pyval \<Rightarrow> ustr option list \<Rightarrow> bool" where
  "hex_in x texts \<longleftrightarrow> hex_text x \<noteq> None \<and> hex_text x \<in> set texts"

text \<open>
  \<open>_wire_path\<close>. An element is read through \<open>str\<close> first; the text of a value that is no string
  (\<open>None\<close>, \<open>True\<close>, a number, a list, a dict) is never hex, except a number's digits, for which
  the text of an integer is written out.
\<close>

fun nat_digits :: "nat \<Rightarrow> ustr" where
  "nat_digits n = (if n < 10 then [48 + n] else nat_digits (n div 10) @ [48 + n mod 10])"

declare nat_digits.simps [simp del]

definition int_str :: "int \<Rightarrow> ustr" where
  "int_str n = (if n < 0 then 45 # nat_digits (nat (- n)) else nat_digits (nat n))"

definition path_elem :: "pyval \<Rightarrow> bytes option" where
  "path_elem x =
     (case x of PStr s \<Rightarrow> unhex (PStr s)
      | PInt n \<Rightarrow> if 4300 < length (nat_digits (nat \<bar>n\<bar>)) then None else unhex (PStr (int_str n))
      | _ \<Rightarrow> None)"

definition wire_path :: "pyval \<Rightarrow> bytes list option" where
  "wire_path p =
     (case p of PNone \<Rightarrow> Some []
      | PList xs \<Rightarrow> if list_all (\<lambda>x. path_elem x \<noteq> None) xs then Some (map (the \<circ> path_elem) xs) else None
      | _ \<Rightarrow> None)"

text \<open>\<open>_status_of\<close>: an anchor or key with no status, or a null one, is active.\<close>

definition status_of :: "pydict \<Rightarrow> pyval" where
  "status_of entry = (if py_get entry ''status'' = PNone then PStr (lit ''active'') else py_get entry ''status'')"

section \<open>Facts\<close>

lemma py_get_Cons [simp]:
  "py_get ((k, v) # d) n = (if lit n = k then v else py_get d n)"
  by (simp add: py_get_def)

lemma py_get_Nil [simp]: "py_get [] n = PNone"
  by (simp add: py_get_def)

lemma as_dict_PDict [simp]: "as_dict (PDict d) = d"
  by (simp add: as_dict_def)

lemma as_list_PList [simp]: "as_list (PList xs) = xs"
  by (simp add: as_list_def)

lemma py_eq_PStr_right: "py_eq v (PStr s) \<longleftrightarrow> v = PStr s"
  by (cases v) (auto simp: num_value_def split: pyfloat.split)

lemma hex_digit_nibble: "n < 16 \<Longrightarrow> hex_digit (nibble_char n) = Some n"
  by (auto simp: hex_digit_def nibble_char_def)

lemma hex_digit_lt: "hex_digit c = Some n \<Longrightarrow> n < 16"
  by (auto simp: hex_digit_def split: if_splits)

lemma hex_of_simps [simp]: "hex_of [] = []"
  "hex_of (b # bs) = nibble_char (unat b div 16) # nibble_char (unat b mod 16) # hex_of bs"
  by (simp_all add: hex_of_def)

lemma length_hex_of [simp]: "length (hex_of bs) = 2 * length bs"
  by (induction bs) simp_all

lemma nibbles [simp]: "hex_digit (nibble_char (unat (b :: 8 word) div 16)) = Some (unat b div 16)"
  "hex_digit (nibble_char (unat b mod 16)) = Some (unat b mod 16)"
proof -
  have "unat b div 16 < 16" using unat_byte_lt [of b] by linarith
  then show "hex_digit (nibble_char (unat b div 16)) = Some (unat b div 16)" by (rule hex_digit_nibble)
  show "hex_digit (nibble_char (unat b mod 16)) = Some (unat b mod 16)" by (rule hex_digit_nibble) simp
qed

lemma hex_digits_hex_of: "list_all (\<lambda>c. hex_digit c \<noteq> None) (hex_of bs)"
  by (induction bs) simp_all

lemma fromhex_hex_of: "fromhex (hex_of bs) = Some bs"
  by (induction bs) simp_all

lemma unhex_hex_of [simp]: "unhex (PStr (hex_of bs)) = Some bs"
  using hex_digits_hex_of [of bs] by (simp add: unhex_def fromhex_hex_of)

text \<open>
  What \<open>_unhex\<close> reads determines the text up to case: the two spellings of a key that
  \<open>_same_hex\<close> calls the same are the two spellings \<open>_unhex\<close> reads alike.
\<close>

definition lower_hex :: "ustr \<Rightarrow> bool" where
  "lower_hex s \<longleftrightarrow> list_all (\<lambda>c. hex_digit c \<noteq> None \<and> \<not> (65 \<le> c \<and> c \<le> 70)) s"

lemma nibble_of_hex_digit: "hex_digit c = Some n \<Longrightarrow> nibble_char n = (if 65 \<le> c \<and> c \<le> 90 then c + 32 else c)"
  by (auto simp: hex_digit_def nibble_char_def split: if_splits)

lemma fromhex_hex_of_lower: "fromhex s = Some bs \<Longrightarrow> hex_of bs = py_lower s"
proof (induction s arbitrary: bs rule: fromhex.induct)
  case (3 c d s)
  then obtain x y cs where xy: "hex_digit c = Some x" "hex_digit d = Some y" "fromhex s = Some cs"
    and bs: "bs = byte (x * 16 + y) # cs"
    by (auto split: option.splits)
  have lt: "x < 16" "y < 16" using xy by (auto intro: hex_digit_lt)
  then have "unat (byte (x * 16 + y)) = x * 16 + y" by simp
  then show ?case
    using "3.IH" [OF _ xy(1,2,3)] xy lt
    by (simp add: bs py_lower_def nibble_of_hex_digit)
qed (simp_all add: py_lower_def)

lemma unhex_SomeD:
  assumes "unhex v = Some bs"
  obtains s where "v = PStr s" "hex_of bs = py_lower s"
  using assms fromhex_hex_of_lower by (auto simp: unhex_def split: pyval.splits if_splits)

lemma unhex_same_hex:
  assumes "unhex a = Some x" "unhex b = Some y" "x \<noteq> []"
  shows "same_hex a b \<longleftrightarrow> x = y"
proof -
  obtain s t where a: "a = PStr s" "hex_of x = py_lower s" and b: "b = PStr t" "hex_of y = py_lower t"
    using assms by (metis unhex_SomeD)
  have "s \<noteq> []" using a(2) assms(3) by (cases x) (auto simp: py_lower_def)
  moreover have "x = y" if "py_lower s = py_lower t"
    using that a(2) b(2) fromhex_hex_of by (metis option.inject)
  ultimately show ?thesis
    using a b by (auto simp: same_hex_def hex_text_def py_lower_def)
qed

lemma same_hex_sym: "same_hex a b \<Longrightarrow> same_hex b a"
  by (metis same_hex_def)

lemma same_hex_trans: "same_hex a b \<Longrightarrow> same_hex b c \<Longrightarrow> same_hex a c"
  by (metis same_hex_def)

lemma signed_countD: "signed_count x \<Longrightarrow> \<exists>n. x = PInt n \<and> 0 \<le> n \<and> n \<le> MAX_SAFE_INTEGER"
  by (auto simp: signed_count_def split: pyval.splits)

lemma signed_count_wire_int: "signed_count (PInt n) \<Longrightarrow> wire_int (PInt n) = Inr n"
proof -
  assume "signed_count (PInt n)"
  then have "\<bar>n\<bar> < 2 ^ 53" by (simp add: signed_count_def MAX_SAFE_INTEGER_def)
  moreover have "(2 :: int) ^ 53 \<le> 2 ^ 1024 - 2 ^ 970" by simp
  ultimately have "\<not> float_overflows n" unfolding float_overflows_def by linarith
  then show ?thesis by (simp add: wire_int_def finite_num_def)
qed

end
