(* ===== verification/VerifierDevice.thy ===== *)
theory VerifierDevice
  imports CardEmulator Base64 Instants PyValue
begin

text \<open>
  The reference verifier device, \<open>polaris_card/verifier_device.py\<close>: the challenges it remembers,
  reading a card over APDUs or a presentation over QR, and the decision. The card is any
  \<open>transmit\<close> function; the locale \<open>card_port\<close> states what the device needs of it, and the
  emulator of \<open>CardEmulator\<close> provides it. The verifiers passed to \<open>decide\<close> are arguments here
  as they are there.
\<close>

section \<open>The device\<close>

definition CHALLENGE_BYTES :: nat where "CHALLENGE_BYTES = 32"
definition QR_REQUEST_PREFIX :: ustr where "QR_REQUEST_PREFIX = lit ''PCQ1''"
definition QR_RESPONSE_PREFIX :: ustr where "QR_RESPONSE_PREFIX = lit ''PCR1''"
definition QR_MAX_ALPHANUMERIC :: nat where "QR_MAX_ALPHANUMERIC = 4296"
definition QR_PRACTICAL_CHARS :: nat where "QR_PRACTICAL_CHARS = 1800"

datatype refusal =
    AlreadyAnswered | NotIssued | NoSelectAnswer | PinNotAccepted nat | NoPresentation
  | NotAPresentation | WrongPartCount | NotBase64

datatype device_exn = DeviceRefusal refusal | DeviceCrash

record device =
  scope :: ustr
  max_window_seconds :: "int option"
  device_pq :: bool
  open_challenges :: "bytes set"
  spent_challenges :: "bytes set"

definition new_device :: "ustr \<Rightarrow> int option \<Rightarrow> bool \<Rightarrow> device option" where
  "new_device sc win pq =
     (if sc = [] then None
      else Some \<lparr>scope = sc, max_window_seconds = win, device_pq = pq,
                 open_challenges = {}, spent_challenges = {}\<rparr>)"

text \<open>\<open>c\<close> is what \<open>secrets.token_bytes\<close> returned.\<close>

definition challenge :: "device \<Rightarrow> bytes \<Rightarrow> device" where
  "challenge d c = d\<lparr>open_challenges := insert c (open_challenges d)\<rparr>"

definition retire :: "device \<Rightarrow> bytes \<Rightarrow> refusal + device" where
  "retire d c =
     (if c \<in> spent_challenges d then Inl AlreadyAnswered
      else if c \<notin> open_challenges d then Inl NotIssued
      else Inr (d\<lparr>open_challenges := open_challenges d - {c},
                  spent_challenges := insert c (spent_challenges d)\<rparr>))"

section \<open>Reading a card\<close>

record presented =
  transport :: string
  p_scope :: ustr
  p_challenge :: bytes
  p_handle :: bytes
  p_signature :: bytes
  p_object :: "bytes option"

text \<open>
  One exchange: \<open>None\<close> when \<open>is_ok\<close> raises on the answer, otherwise the card, the answer and
  whether it is 0x9000.
\<close>

definition exchange :: "('c \<Rightarrow> bytes \<Rightarrow> 'c \<times> bytes) \<Rightarrow> 'c \<Rightarrow> bytes \<Rightarrow> 'c \<times> bytes \<times> bool option" where
  "exchange tr crd apdu = (case tr crd apdu of (card2, resp) \<Rightarrow> (card2, resp, is_ok resp))"

text \<open>The last step of \<open>read_nfc\<close>: the object, when it is wanted and the card gives it.\<close>

definition read_object :: "('c \<Rightarrow> bytes \<Rightarrow> 'c \<times> bytes) \<Rightarrow> bool \<Rightarrow> 'c \<Rightarrow> 'c \<times> (device_exn + bytes option)" where
  "read_object tr want crd =
     (if want then
        (case exchange tr crd get_card_object of
           (card2, resp, None) \<Rightarrow> (card2, Inl DeviceCrash)
         | (card2, resp, Some good) \<Rightarrow> (card2, Inr (if good then Some (payload resp) else None)))
      else (crd, Inr None))"

definition read_signed ::
    "('c \<Rightarrow> bytes \<Rightarrow> 'c \<times> bytes) \<Rightarrow> ustr \<Rightarrow> bytes \<Rightarrow> bool \<Rightarrow> 'c \<Rightarrow> 'c \<times> (device_exn + presented)" where
  "read_signed tr sc c want crd =
     (case sign_challenge sc c of None \<Rightarrow> (crd, Inl DeviceCrash)
      | Some apdu \<Rightarrow>
          (case tr crd apdu of (card2, ans) \<Rightarrow>
             (case parse_signed_response ans of
                None \<Rightarrow> (card2, Inl DeviceCrash)
              | Some None \<Rightarrow> (card2, Inl (DeviceRefusal NoPresentation))
              | Some (Some (handle, signature)) \<Rightarrow>
                  (case read_object tr want card2 of
                     (card3, Inl e) \<Rightarrow> (card3, Inl e)
                   | (card3, Inr ob) \<Rightarrow>
                       (card3, Inr \<lparr>transport = ''nfc'', p_scope = sc, p_challenge = c, p_handle = handle,
                                    p_signature = signature, p_object = ob\<rparr>)))))"

definition read_pin ::
    "('c \<Rightarrow> bytes \<Rightarrow> 'c \<times> bytes) \<Rightarrow> ustr \<Rightarrow> ustr \<Rightarrow> bytes \<Rightarrow> bool \<Rightarrow> 'c \<Rightarrow> 'c \<times> (device_exn + presented)" where
  "read_pin tr sc pin c want crd =
     (case verify_pin pin of None \<Rightarrow> (crd, Inl DeviceCrash)
      | Some apdu \<Rightarrow>
          (case exchange tr crd apdu of
             (card2, resp, None) \<Rightarrow> (card2, Inl DeviceCrash)
           | (card2, resp, Some False) \<Rightarrow>
               (card2, Inl (DeviceRefusal (PinNotAccepted (the (status_word resp)))))
           | (card2, resp, Some True) \<Rightarrow> read_signed tr sc c want card2))"

definition read_nfc ::
    "('c \<Rightarrow> bytes \<Rightarrow> 'c \<times> bytes) \<Rightarrow> device \<Rightarrow> bytes \<Rightarrow> 'c \<Rightarrow> ustr \<Rightarrow> bool
      \<Rightarrow> device \<times> 'c \<times> (device_exn + presented)" where
  "read_nfc tr d c crd pin want =
     (challenge d c,
      case exchange tr crd select of
        (card2, resp, None) \<Rightarrow> (card2, Inl DeviceCrash)
      | (card2, resp, Some False) \<Rightarrow> (card2, Inl (DeviceRefusal NoSelectAnswer))
      | (card2, resp, Some True) \<Rightarrow> read_pin tr (scope d) pin c want card2)"

section \<open>QR\<close>

definition qr_request :: "device \<Rightarrow> bytes \<Rightarrow> device \<times> ustr" where
  "qr_request d c =
     (challenge d c, QR_REQUEST_PREFIX @ [58] @ scope d @ [58] @ b64 c)"

text \<open>\<open>payload.split(":")\<close>.\<close>

fun split_colon :: "ustr \<Rightarrow> ustr list" where
  "split_colon [] = [[]]"
| "split_colon (c # s) =
     (if c = 58 then [] # split_colon s
      else (case split_colon s of [] \<Rightarrow> [[c]] | p # ps \<Rightarrow> (c # p) # ps))"

definition starts_with :: "ustr \<Rightarrow> ustr \<Rightarrow> bool" where
  "starts_with p s \<longleftrightarrow> take (length p) s = p"

definition read_qr :: "device \<Rightarrow> ustr \<Rightarrow> refusal + presented" where
  "read_qr d text =
     (if \<not> starts_with (QR_RESPONSE_PREFIX @ [58]) text then Inl NotAPresentation
      else
        let parts = split_colon text in
        if length parts \<noteq> 4 \<and> length parts \<noteq> 5 then Inl WrongPartCount
        else
          (case (unb64 (parts ! 1), unb64 (parts ! 2), unb64 (parts ! 3),
                 if length parts = 5 then map_option Some (unb64 (parts ! 4)) else Some None) of
             (Some c, Some h, Some s, Some ob) \<Rightarrow>
               Inr \<lparr>transport = ''qr'', p_scope = scope d, p_challenge = c, p_handle = h,
                    p_signature = s, p_object = ob\<rparr>
           | _ \<Rightarrow> Inl NotBase64))"

definition qr_response :: "bytes \<Rightarrow> bytes \<Rightarrow> bytes \<Rightarrow> bytes option \<Rightarrow> ustr" where
  "qr_response c handle signature ob =
     QR_RESPONSE_PREFIX @ [58] @ b64 c @ [58] @ b64 handle @ [58] @ b64 signature
     @ (case ob of None \<Rightarrow> [] | Some x \<Rightarrow> 58 # b64 x)"

text \<open>One row of \<open>qr_capacity_report\<close>: characters, fits a phone screen, fits any QR code.\<close>

definition qr_capacity :: "nat option \<Rightarrow> nat \<times> bool \<times> bool" where
  "qr_capacity sz =
     (let n = length (qr_response (replicate CHALLENGE_BYTES 0) (replicate 32 0) (replicate 64 0)
                        (map_option (\<lambda>k. replicate k 0) sz))
      in (n, n \<le> QR_PRACTICAL_CHARS, n \<le> QR_MAX_ALPHANUMERIC))"

definition qr_capacity_report :: "(string \<times> nat) list \<Rightarrow> (nat \<times> bool) \<times> (string \<times> nat \<times> nat \<times> bool \<times> bool) list" where
  "qr_capacity_report sizes =
     ((fst (qr_capacity None), fst (snd (qr_capacity None))),
      map (\<lambda>(label, sz). (label, fst (qr_capacity (Some sz)), sz, snd (qr_capacity (Some sz)))) sizes)"

section \<open>The decision\<close>

datatype linkability = Unknown | Pairwise | CredentialLinkable

datatype decide_note =
    MissingField string | OtherScope | NotRetired refusal | NoResponseVerifier | ResponseInvalid
  | CardRefused "card_note option" | NoAssertionVerifier | AssertionNotAuthentic pyval
  | AssertionNotFresh pyval | PossessionOnly | CredentialIs pyval | NoCardObject

record device_verdict =
  possession_proven :: bool
  card_authentic :: "bool option"
  dstatus :: pyval
  authorization_fresh :: pyval
  accepted :: bool
  mode :: "string option"
  linkability :: linkability
  v_handle :: "bytes option"
  dnote :: "decide_note option"

definition blank_decision :: device_verdict where
  "blank_decision =
     \<lparr>possession_proven = False, card_authentic = None, dstatus = PNone, authorization_fresh = PNone,
      accepted = False, mode = None, linkability = Unknown, v_handle = None, dnote = None\<rparr>"

text \<open>
  Each stage of \<open>decide\<close> either returns (\<open>Inl\<close>) or goes on with the verdict so far (\<open>Inr\<close>);
  an exception is an outer \<open>Inl\<close>.

  The caller's \<open>now\<close> reaches the card object as \<open>int(now)\<close>, evaluated only once the signatures
  hold: \<open>None\<close> is the \<open>TypeError\<close> or \<open>ValueError\<close> of a datetime or of text that is no number.
\<close>

definition card_now :: "now_arg \<Rightarrow> int option option" where
  "card_now now =
     (case now of NoNow \<Rightarrow> Some None | NowInt n \<Rightarrow> Some (Some n)
      | NowText s \<Rightarrow> map_option Some (int_text s) | NowDatetime _ \<Rightarrow> None | NowNaive _ \<Rightarrow> None)"

definition verify_card_at ::
    "(bytes \<Rightarrow> bytes) \<Rightarrow> bytes \<Rightarrow> sig_check option \<Rightarrow> bool \<Rightarrow> now_arg \<Rightarrow> card_exn + verdict" where
  "verify_card_at H ob vc pq now =
     (case card_now now of
        Some t \<Rightarrow> verify_card H ob vc None pq t
      | None \<Rightarrow>
          (case verify_card H ob vc None pq None of
             Inl e \<Rightarrow> Inl e
           | Inr v \<Rightarrow> if authentic v then Inl OtherError else Inr v))"

definition missing_field :: "presented \<Rightarrow> string option" where
  "missing_field p =
     (if p_challenge p = [] then Some ''challenge'' else if p_handle p = [] then Some ''handle''
      else if p_signature p = [] then Some ''signature'' else if p_scope p = [] then Some ''scope'' else None)"

definition decide_possession ::
    "(bytes \<Rightarrow> bytes \<Rightarrow> bool) option \<Rightarrow> presented \<Rightarrow> device_exn + (device_verdict + device_verdict)" where
  "decide_possession verify_response p =
     (case response_body (p_challenge p) (p_scope p) (p_handle p) of
        Inl _ \<Rightarrow> Inl DeviceCrash
      | Inr body \<Rightarrow>
          Inr (case verify_response of
                 None \<Rightarrow> Inl (blank_decision\<lparr>dnote := Some NoResponseVerifier\<rparr>)
               | Some vr \<Rightarrow>
                   if \<not> vr body (p_signature p) then Inl (blank_decision\<lparr>dnote := Some ResponseInvalid\<rparr>)
                   else Inr (blank_decision\<lparr>possession_proven := True, v_handle := Some (p_handle p),
                                            linkability := Pairwise\<rparr>)))"

definition decide_card ::
    "(bytes \<Rightarrow> bytes) \<Rightarrow> device \<Rightarrow> sig_check option \<Rightarrow> now_arg \<Rightarrow> presented \<Rightarrow> device_verdict
      \<Rightarrow> device_exn + (device_verdict + device_verdict)" where
  "decide_card H d vc now p v =
     (case p_object p of None \<Rightarrow> Inr (Inr v)
      | Some ob \<Rightarrow>
          (case verify_card_at H ob vc (device_pq d) now of
             Inl _ \<Rightarrow> Inl DeviceCrash
           | Inr cv \<Rightarrow>
               let v2 = v\<lparr>card_authentic := Some (authentic cv)\<rparr> in
               Inr (if \<not> authentic cv then Inl (v2\<lparr>dnote := Some (CardRefused (vnote cv))\<rparr>) else Inr v2)))"

type_synonym assertion_check = "pydict \<Rightarrow> now_arg \<Rightarrow> int option \<Rightarrow> pydict"

definition decide_authorization ::
    "device \<Rightarrow> pydict option \<Rightarrow> pydict option \<Rightarrow> assertion_check option \<Rightarrow> now_arg \<Rightarrow> device_verdict
      \<Rightarrow> device_verdict + device_verdict" where
  "decide_authorization d status_assertion online_status check now v =
     (case status_assertion of
        Some sa \<Rightarrow>
          let v2 = v\<lparr>mode := Some ''offline'',
                     linkability := (if py_true (py_get sa ''token_value'') then CredentialLinkable else linkability v)\<rparr>
          in (case check of None \<Rightarrow> Inl (v2\<lparr>dnote := Some NoAssertionVerifier\<rparr>)
              | Some check_fn \<Rightarrow>
                  let sv = check_fn sa now (max_window_seconds d);
                      v3 = v2\<lparr>dstatus := py_get sv ''status'', authorization_fresh := py_get sv ''fresh''\<rparr>
                  in if \<not> py_true (py_get sv ''status_authentic'') then
                       Inl (v3\<lparr>dnote := Some (AssertionNotAuthentic (py_get sv ''note''))\<rparr>)
                     else if \<not> py_true (py_get sv ''fresh'') then
                       Inl (v3\<lparr>dnote := Some (AssertionNotFresh (py_get sv ''note''))\<rparr>)
                     else Inr v3)
      | None \<Rightarrow>
          (case online_status of
             Some os \<Rightarrow>
               Inr (v\<lparr>mode := Some ''online'',
                      linkability := (if py_true (py_get os ''token_value'') \<or> py_true (py_get os ''credential_ref'')
                                      then CredentialLinkable else linkability v),
                      dstatus := py_get os ''status'', authorization_fresh := PBool True\<rparr>)
           | None \<Rightarrow> Inl (v\<lparr>dnote := Some PossessionOnly\<rparr>)))"

definition decide_end :: "presented \<Rightarrow> device_verdict \<Rightarrow> device_verdict" where
  "decide_end p v =
     (if dstatus v \<noteq> PStr (lit ''ACTIVE'') then v\<lparr>dnote := Some (CredentialIs (dstatus v))\<rparr>
      else if p_object p = None then v\<lparr>dnote := Some NoCardObject\<rparr>
      else v\<lparr>accepted := True\<rparr>)"

definition decide ::
    "(bytes \<Rightarrow> bytes) \<Rightarrow> device \<Rightarrow> presented \<Rightarrow> sig_check option \<Rightarrow> (bytes \<Rightarrow> bytes \<Rightarrow> bool) option
      \<Rightarrow> pydict option \<Rightarrow> pydict option \<Rightarrow> assertion_check option \<Rightarrow> now_arg
      \<Rightarrow> device \<times> (device_exn + device_verdict)" where
  "decide H d p vc verify_response status_assertion online_status check now =
     (case missing_field p of Some f \<Rightarrow> (d, Inr (blank_decision\<lparr>dnote := Some (MissingField f)\<rparr>))
      | None \<Rightarrow>
          if p_scope p \<noteq> scope d then (d, Inr (blank_decision\<lparr>dnote := Some OtherScope\<rparr>))
          else
            (case retire d (p_challenge p) of
               Inl r \<Rightarrow> (d, Inr (blank_decision\<lparr>dnote := Some (NotRetired r)\<rparr>))
             | Inr d2 \<Rightarrow>
                 (d2,
                  rbind (decide_possession verify_response p) (\<lambda>a.
                    case a of Inl v \<Rightarrow> Inr v
                    | Inr v \<Rightarrow>
                        rbind (decide_card H d2 vc now p v) (\<lambda>b.
                          case b of Inl v \<Rightarrow> Inr v
                          | Inr v \<Rightarrow>
                              Inr (case decide_authorization d2 status_assertion online_status check now v of
                                     Inl v \<Rightarrow> v | Inr v \<Rightarrow> decide_end p v))))))"

section \<open>The card the device talks to\<close>

text \<open>
  What the device needs of a card: every answer carries a status word. Then nothing the card
  answers makes reading it fail in any way but a refusal.
\<close>

locale card_port =
  fixes tr :: "'c \<Rightarrow> bytes \<Rightarrow> 'c \<times> bytes"
  assumes answers: "2 \<le> length (snd (tr crd apdu))"
begin

lemma is_ok_answer: "tr crd apdu = (crd2, resp) \<Longrightarrow> \<exists>b. is_ok resp = Some b"
  using answers [of crd apdu] by (auto simp: is_ok_def status_word_def)

lemma exchange_answers: "\<exists>crd2 resp b. exchange tr crd apdu = (crd2, resp, Some b)"
  by (cases "tr crd apdu") (auto simp: exchange_def dest: is_ok_answer)

lemma parse_answers: "tr crd apdu = (crd2, resp) \<Longrightarrow> parse_signed_response resp \<noteq> None"
  using is_ok_answer [of crd apdu crd2 resp]
  by (auto simp: parse_signed_response_def Let_def split: bool.split)

lemma read_object_answers: "\<exists>crd2 ob. read_object tr want crd = (crd2, Inr ob)"
  using exchange_answers [of crd get_card_object] by (auto simp: read_object_def)

lemma read_signed_answers:
  assumes "sign_challenge sc c \<noteq> None"
  shows "snd (read_signed tr sc c want crd) \<noteq> Inl DeviceCrash"
proof -
  obtain apdu where a: "sign_challenge sc c = Some apdu" using assms by auto
  obtain crd2 resp where t: "tr crd apdu = (crd2, resp)" by fastforce
  obtain crd3 ob where "read_object tr want crd2 = (crd3, Inr ob)" using read_object_answers by blast
  then show ?thesis
    using parse_answers [OF t] by (auto simp: read_signed_def a t split: option.split prod.split)
qed

lemma read_nfc_answers:
  assumes "verify_pin pin \<noteq> None" "sign_challenge (scope d) c \<noteq> None"
  shows "snd (snd (read_nfc tr d c crd pin want)) \<noteq> Inl DeviceCrash"
proof -
  obtain apdu where a: "verify_pin pin = Some apdu" using assms by auto
  obtain crd2 r2 b2 where x: "exchange tr crd select = (crd2, r2, Some b2)" using exchange_answers by blast
  obtain crd3 r3 b3 where y: "exchange tr crd2 apdu = (crd3, r3, Some b3)" using exchange_answers by blast
  show ?thesis
    using read_signed_answers [OF assms(2), of want crd3]
    by (cases b2; cases b3) (simp_all add: read_nfc_def read_pin_def a x y)
qed

end

text \<open>The emulated card is such a card.\<close>

lemma command_answer_length:
  "snd (select_cmd t) = Some r \<Longrightarrow> 2 \<le> length r" "snd (verify_pin_cmd t d) = Some r \<Longrightarrow> 2 \<le> length r"
  "snd (unblock_cmd t d) = Some r \<Longrightarrow> 2 \<le> length r" "snd (get_card_object_cmd t) = Some r \<Longrightarrow> 2 \<le> length r"
  "snd (generate_keypair_cmd C t) = Some r \<Longrightarrow> 2 \<le> length r" "snd (put_card_object_cmd t d) = Some r \<Longrightarrow> 2 \<le> length r"
  "snd (sign_body C t s h m) = Some r \<Longrightarrow> 2 \<le> length r"
  by (auto simp: select_cmd_def verify_pin_cmd_def unblock_cmd_def get_card_object_cmd_def
      generate_keypair_cmd_def put_card_object_cmd_def sign_body_def Let_def
      split: if_splits option.splits bool.splits sum.splits card_exn.splits prod.splits)

lemma sign_answer_length: "snd (sign_challenge_cmd H C t d) = Some r \<Longrightarrow> 2 \<le> length r"
  by (auto simp: sign_challenge_cmd_def Let_def
      split: if_splits option.splits sum.splits card_exn.splits dest: command_answer_length(7))

lemma transmit_answer_length: "2 \<le> length (snd (transmit H C t apdu))"
proof -
  have "2 \<le> length r" if "snd (dispatch H C t ins d) = Some r" for ins d r
    using that command_answer_length sign_answer_length
    by (auto simp: dispatch_def split: if_splits)
  then show ?thesis
    by (auto simp: transmit_eq transmit_raw_def split: option.split)
qed

interpretation emulated: card_port "transmit H C" for H C
  by unfold_locales (rule transmit_answer_length)

text \<open>
  Reading a card ends in a presentation or a refusal. With a PIN and a scope that fit their
  commands, the device reads the emulated card without any exception but its own refusals, in
  every state of the card and whatever its backend does.
\<close>

theorem read_nfc_never_crashes:
  assumes "verify_pin pin \<noteq> None" "sign_challenge (scope d) c \<noteq> None"
  shows "snd (snd (read_nfc (transmit H C) d c t pin want)) \<noteq> Inl DeviceCrash"
  using assms by (rule emulated.read_nfc_answers)

section \<open>QR\<close>

lemma length_b64: "length (b64 raw) = (4 * length raw + 2) div 3"
proof -
  have "length (b64_chars raw) = (4 * length raw + 2) div 3"
    by (induction raw rule: b64_chars.induct) simp_all
  then show ?thesis by (simp add: b64_eq)
qed

lemma split_colon_none: "58 \<notin> set s \<Longrightarrow> split_colon s = [s]"
  by (induction s) simp_all

lemma split_colon_append: "58 \<notin> set s \<Longrightarrow> split_colon (s @ 58 # r) = s # split_colon r"
  by (induction s) simp_all

text \<open>
  What the phone shows is what the device reads. A QR response built from a challenge, a
  handle, a signature and possibly a card object is read back as exactly those, under the
  device's own scope.
\<close>

theorem qr_round_trip:
  "read_qr d (qr_response c h s ob) =
    Inr \<lparr>transport = ''qr'', p_scope = scope d, p_challenge = c, p_handle = h, p_signature = s, p_object = ob\<rparr>"
proof -
  have "58 \<notin> set QR_RESPONSE_PREFIX" by (simp add: QR_RESPONSE_PREFIX_def lit_def)
  then have "split_colon (qr_response c h s ob) =
      [QR_RESPONSE_PREFIX, b64 c, b64 h, b64 s] @ (case ob of None \<Rightarrow> [] | Some x \<Rightarrow> [b64 x])"
    by (simp add: qr_response_def split_colon_append split_colon_none b64_no split: option.split)
  moreover have "starts_with (QR_RESPONSE_PREFIX @ [58]) (qr_response c h s ob)"
    by (simp add: starts_with_def qr_response_def)
  ultimately show ?thesis
    by (cases ob) (simp_all add: read_qr_def Let_def unb64_b64)
qed

lemma length_qr_response:
  "length (qr_response c h s ob) = 7 + length (b64 c) + length (b64 h) + length (b64 s)
    + (case ob of None \<Rightarrow> 0 | Some x \<Rightarrow> 1 + length (b64 x))"
  by (simp add: qr_response_def QR_RESPONSE_PREFIX_def split: option.split)

lemma tlv_in_blob: "(n, v) \<in> set f \<Longrightarrow> length (enc_val (tag_of n) v) \<le> length (blob_of f)"
  by (induction f) (auto simp: blob_of_def tlv_def)

text \<open>
  A post-quantum card does not fit a QR code. A presentation alone is 179 characters; one
  with a card object that carries a post-quantum key is past what a phone renders, and with a
  post-quantum signature of 3309 bytes as well, past any QR code.
\<close>

theorem pq_card_exceeds_qr:
  "qr_capacity None = (179, True, True) \<and>
    (\<forall>ob f k g c h s. decode ob = Inr f \<and> fget f ''card_key_pq'' = CBytes k \<longrightarrow>
      QR_PRACTICAL_CHARS < length (qr_response c h s (Some ob)) \<and>
      (fget f ''issuer_sig_pq'' = CBytes g \<and> 3309 \<le> length g \<longrightarrow>
        QR_MAX_ALPHANUMERIC < length (qr_response c h s (Some ob))))"
proof (intro conjI allI impI)
  show "qr_capacity None = (179, True, True)"
    by (simp add: qr_capacity_def length_qr_response length_b64 CHALLENGE_BYTES_def QR_PRACTICAL_CHARS_def
        QR_MAX_ALPHANUMERIC_def)
  fix ob f k g c h s
  assume f: "decode ob = Inr f \<and> fget f ''card_key_pq'' = CBytes k"
  then have ok: "card_ok f" and ob: "blob_of f = ob" by (simp_all add: decode_iff)
  have key: "(''card_key_pq'', CBytes k) \<in> set f"
    using f by (auto simp: fget_def dest: map_of_SomeD split: option.splits)
  have tags: "tag_of ''card_key_pq'' = 10" "tag_of ''issuer_sig_pq'' = 33" by code_simp+
  have "length k = PQ_KEY_LEN"
    using card_ok_entry(2) [OF ok key] tags by (simp add: value_ok_def)
  then have "1952 \<le> length ob"
    using tlv_in_blob [OF key] ob by (simp add: enc_val_def PQ_KEY_LEN_def)
  then show "QR_PRACTICAL_CHARS < length (qr_response c h s (Some ob))"
    by (simp add: length_qr_response length_b64 QR_PRACTICAL_CHARS_def)
  assume g: "fget f ''issuer_sig_pq'' = CBytes g \<and> 3309 \<le> length g"
  then have "(''issuer_sig_pq'', CBytes g) \<in> set f"
    by (auto simp: fget_def dest: map_of_SomeD split: option.splits)
  then have "3309 \<le> length ob"
    using tlv_in_blob g ob by (fastforce simp: enc_val_def)
  then show "QR_MAX_ALPHANUMERIC < length (qr_response c h s (Some ob))"
    by (simp add: length_qr_response length_b64 QR_MAX_ALPHANUMERIC_def)
qed

section \<open>Replay\<close>

record judging =
  j_presented :: presented
  j_card :: "sig_check option"
  j_response :: "(bytes \<Rightarrow> bytes \<Rightarrow> bool) option"
  j_assertion :: "pydict option"
  j_online :: "pydict option"
  j_check :: "assertion_check option"
  j_now :: now_arg

datatype device_op = Issue bytes | Judge judging

definition judge :: "(bytes \<Rightarrow> bytes) \<Rightarrow> device \<Rightarrow> judging \<Rightarrow> device \<times> (device_exn + device_verdict)" where
  "judge H d j = decide H d (j_presented j) (j_card j) (j_response j) (j_assertion j) (j_online j) (j_check j) (j_now j)"

definition device_step :: "(bytes \<Rightarrow> bytes) \<Rightarrow> device \<Rightarrow> device_op \<Rightarrow> device" where
  "device_step H d x = (case x of Issue c \<Rightarrow> challenge d c | Judge j \<Rightarrow> fst (judge H d j))"

text \<open>The judgements of a run that found possession proven by an answer to the challenge \<open>c\<close>.\<close>

fun proven :: "(bytes \<Rightarrow> bytes) \<Rightarrow> bytes \<Rightarrow> device \<Rightarrow> device_op list \<Rightarrow> device_verdict list" where
  "proven H c d [] = []"
| "proven H c d (x # xs) =
     (case x of Issue _ \<Rightarrow> []
      | Judge j \<Rightarrow>
          (case snd (judge H d j) of Inl _ \<Rightarrow> []
           | Inr v \<Rightarrow> if p_challenge (j_presented j) = c \<and> possession_proven v then [v] else []))
     @ proven H c (device_step H d x) xs"

lemma decide_spent:
  "fst (decide H d p vc vr sa os ck now) =
    (if missing_field p = None \<and> p_scope p = scope d then
       (case retire d (p_challenge p) of Inl _ \<Rightarrow> d | Inr d2 \<Rightarrow> d2) else d)"
  by (simp add: decide_def split: option.split sum.split)

lemma spent_step: "c \<in> spent_challenges d \<Longrightarrow> c \<in> spent_challenges (device_step H d x)"
  by (auto simp: device_step_def challenge_def judge_def decide_spent retire_def
      split: device_op.split sum.split)

interpretation spent_stays: stepper "device_step H" "\<lambda>d. c \<in> spent_challenges d" for H c
  by unfold_locales (rule spent_step)

lemma proven_spends:
  assumes "snd (decide H d p vc vr sa os ck now) = Inr v" "possession_proven v"
  shows "p_challenge p \<notin> spent_challenges d" "p_challenge p \<in> open_challenges d"
    "p_challenge p \<in> spent_challenges (fst (decide H d p vc vr sa os ck now))"
  using assms
  by (auto simp: decide_def retire_def blank_decision_def split: option.splits if_splits)

lemma spent_proves_nothing: "c \<in> spent_challenges d \<Longrightarrow> proven H c d xs = []"
proof (induction xs arbitrary: d)
  case (Cons x xs)
  have "proven H c (device_step H d x) xs = []"
    by (rule Cons.IH) (rule spent_step [OF Cons.prems])
  then show ?case
    using Cons.prems proven_spends(1) unfolding judge_def
    by (auto simp: judge_def split: device_op.split sum.split)
qed simp

text \<open>
  C4. A challenge is answered once. In any run of a device, whatever is presented to it and
  whatever challenges it issues in between, at most one judgement finds possession proven by
  an answer to a given challenge, although the signature stays valid for ever: a replay to the
  same device proves nothing.
\<close>

theorem challenge_proves_once: "length (proven H c d xs) \<le> 1"
proof (induction xs arbitrary: d)
  case (Cons x xs)
  show ?case
  proof (cases "\<exists>j v. x = Judge j \<and> snd (judge H d j) = Inr v \<and> p_challenge (j_presented j) = c \<and> possession_proven v")
    case True
    then obtain j v where j: "x = Judge j" "snd (judge H d j) = Inr v" "p_challenge (j_presented j) = c" "possession_proven v"
      by blast
    then have "c \<in> spent_challenges (device_step H d x)"
      using proven_spends(3) by (auto simp: device_step_def judge_def)
    then have "proven H c (device_step H d x) xs = []" by (rule spent_proves_nothing)
    then show ?thesis by (simp split: device_op.split sum.split)
  next
    case False
    then have "proven H c d (x # xs) = proven H c (device_step H d x) xs"
      by (auto split: device_op.split sum.split)
    then show ?thesis using Cons.IH by simp
  qed
qed simp

section \<open>Acceptance\<close>

text \<open>What the device was told about the credential, and whether it lets it through.\<close>

definition authorized :: "device \<Rightarrow> pydict option \<Rightarrow> pydict option \<Rightarrow> assertion_check option \<Rightarrow> now_arg \<Rightarrow> bool" where
  "authorized d sa os check now =
     (case sa of
        Some a \<Rightarrow>
          (case check of None \<Rightarrow> False
           | Some f \<Rightarrow>
               let sv = f a now (max_window_seconds d) in
               py_true (py_get sv ''status_authentic'') \<and> py_true (py_get sv ''fresh'') \<and>
               py_get sv ''status'' = PStr (lit ''ACTIVE''))
      | None \<Rightarrow> (case os of None \<Rightarrow> False | Some o1 \<Rightarrow> py_get o1 ''status'' = PStr (lit ''ACTIVE'')))"

definition possessed :: "(bytes \<Rightarrow> bytes \<Rightarrow> bool) option \<Rightarrow> presented \<Rightarrow> bool" where
  "possessed vr p \<longleftrightarrow>
     (case vr of None \<Rightarrow> False
      | Some f \<Rightarrow> (case response_body (p_challenge p) (p_scope p) (p_handle p) of
            Inl _ \<Rightarrow> False | Inr body \<Rightarrow> f body (p_signature p)))"

definition object_authentic :: "(bytes \<Rightarrow> bytes) \<Rightarrow> device \<Rightarrow> sig_check option \<Rightarrow> now_arg \<Rightarrow> presented \<Rightarrow> bool" where
  "object_authentic H d vc now p \<longleftrightarrow>
     (case p_object p of None \<Rightarrow> False
      | Some ob \<Rightarrow> (case verify_card_at H ob vc (device_pq d) now of Inl _ \<Rightarrow> False | Inr v \<Rightarrow> authentic v))"

lemma decide_authorization_accepts:
  "(case decide_authorization d sa os ck now v of Inl w \<Rightarrow> \<not> accepted v \<longrightarrow> \<not> accepted w \<and> \<not> authorized d sa os ck now
    | Inr w \<Rightarrow> (dstatus w = PStr (lit ''ACTIVE'') \<longleftrightarrow> authorized d sa os ck now) \<and> accepted w = accepted v)"
  by (auto simp: decide_authorization_def authorized_def Let_def split: option.split)

lemma decide_end_accepts:
  "\<not> accepted v \<Longrightarrow> accepted (decide_end p v) \<longleftrightarrow> dstatus v = PStr (lit ''ACTIVE'') \<and> p_object p \<noteq> None"
  by (simp add: decide_end_def)

lemma retire_pq: "retire d c = Inr d2 \<Longrightarrow> device_pq d2 = device_pq d \<and> max_window_seconds d2 = max_window_seconds d"
  by (auto simp: retire_def split: if_splits)

lemma authorized_cong:
  assumes "max_window_seconds d2 = max_window_seconds d"
  shows "authorized d2 sa os ck now = authorized d sa os ck now"
  unfolding authorized_def assms ..

lemma authorization_result:
  assumes "\<not> accepted v"
  shows "accepted (case decide_authorization d sa os ck now v of Inl v \<Rightarrow> v | Inr v \<Rightarrow> decide_end p v) \<longleftrightarrow>
    authorized d sa os ck now \<and> p_object p \<noteq> None"
proof (cases "decide_authorization d sa os ck now v")
  case (Inl w)
  with decide_authorization_accepts [of v d sa os ck now] assms show ?thesis by simp
next
  case (Inr w)
  with decide_authorization_accepts [of v d sa os ck now] assms decide_end_accepts [of w p] show ?thesis by simp
qed

lemma decide_possession_cases:
  assumes "decide_possession vr p = Inr a"
  shows "(\<exists>w. a = Inl w \<and> \<not> accepted w \<and> \<not> possessed vr p) \<or> (\<exists>w. a = Inr w \<and> \<not> accepted w \<and> possessed vr p)"
proof -
  obtain body where body: "response_body (p_challenge p) (p_scope p) (p_handle p) = Inr body"
    using assms by (cases "response_body (p_challenge p) (p_scope p) (p_handle p)") (simp_all add: decide_possession_def)
  have blank: "\<not> accepted blank_decision" by (simp add: blank_decision_def)
  show ?thesis
  proof (cases vr)
    case None
    then have "a = Inl (blank_decision\<lparr>dnote := Some NoResponseVerifier\<rparr>)"
      using assms body by (simp add: decide_possession_def)
    then show ?thesis using None blank by (simp add: possessed_def)
  next
    case (Some f)
    then have "a = (if \<not> f body (p_signature p) then Inl (blank_decision\<lparr>dnote := Some ResponseInvalid\<rparr>)
        else Inr (blank_decision\<lparr>possession_proven := True, v_handle := Some (p_handle p), linkability := Pairwise\<rparr>))"
      using assms body by (simp add: decide_possession_def)
    then show ?thesis using Some body blank by (simp add: possessed_def)
  qed
qed

lemma decide_card_cases:
  assumes "decide_card H d vc now p v = Inr b" "\<not> accepted v"
  shows "(\<exists>w. b = Inl w \<and> \<not> accepted w \<and> \<not> object_authentic H d vc now p) \<or>
    (\<exists>w. b = Inr w \<and> \<not> accepted w \<and> (object_authentic H d vc now p \<longleftrightarrow> p_object p \<noteq> None))"
proof (cases "p_object p")
  case None
  then have "b = Inr v" using assms(1) by (simp add: decide_card_def)
  then show ?thesis using None assms(2) by (simp add: object_authentic_def)
next
  case (Some ob)
  obtain cv where cv: "verify_card_at H ob vc (device_pq d) now = Inr cv"
    using assms(1) Some by (cases "verify_card_at H ob vc (device_pq d) now") (simp_all add: decide_card_def)
  have "b = (if \<not> authentic cv then Inl (v\<lparr>card_authentic := Some (authentic cv), dnote := Some (CardRefused (vnote cv))\<rparr>)
      else Inr (v\<lparr>card_authentic := Some (authentic cv)\<rparr>))"
    using assms(1) Some cv by (simp add: decide_card_def Let_def)
  then show ?thesis using assms(2) Some cv by (simp add: object_authentic_def)
qed

lemma decide_card_cong:
  assumes "device_pq d2 = device_pq d"
  shows "object_authentic H d2 vc now p = object_authentic H d vc now p"
  unfolding object_authentic_def assms ..

text \<open>
  C3. What acceptance takes. A device accepts exactly when the presentation is complete, made for
  its own scope and over a challenge it issued and has not retired, the card's response verifies,
  the card object is there and authentic, and the credential was shown ACTIVE: by a status
  assertion that verifies and is fresh, or without one by the online answer. No verdict accepts
  with any one of them missing.
\<close>

theorem accepts_iff:
  assumes "snd (decide H d p vc vr sa os ck now) = Inr v"
  shows "accepted v \<longleftrightarrow>
    missing_field p = None \<and> p_scope p = scope d \<and>
    p_challenge p \<in> open_challenges d \<and> p_challenge p \<notin> spent_challenges d \<and>
    possessed vr p \<and> object_authentic H d vc now p \<and> authorized d sa os ck now"
proof -
  show ?thesis
  proof (cases "missing_field p = None \<and> p_scope p = scope d \<and> (\<exists>d2. retire d (p_challenge p) = Inr d2)")
    case False
    then show ?thesis
      using assms by (auto simp: decide_def blank_decision_def retire_def split: option.splits if_splits)
  next
    case True
    then obtain d2 where r: "missing_field p = None" "p_scope p = scope d" "retire d (p_challenge p) = Inr d2" by blast
    have same: "object_authentic H d2 vc now p = object_authentic H d vc now p"
      "authorized d2 sa os ck now = authorized d sa os ck now"
      using retire_pq [OF r(3)] decide_card_cong [of d2 d] authorized_cong [of d2 d] by blast+
    have live: "p_challenge p \<in> open_challenges d" "p_challenge p \<notin> spent_challenges d"
      using r(3) by (auto simp: retire_def split: if_splits)
    obtain a where a: "decide_possession vr p = Inr a"
      using assms r by (auto simp: decide_def)
    from decide_possession_cases [OF a] show ?thesis
    proof (elim disjE exE conjE)
      fix w assume "a = Inl w" "\<not> accepted w" "\<not> possessed vr p"
      then show ?thesis using assms r a by (simp add: decide_def)
    next
      fix w assume w: "a = Inr w" "\<not> accepted w" "possessed vr p"
      then obtain b where b: "decide_card H d2 vc now p w = Inr b"
        using assms r a by (auto simp: decide_def)
      from decide_card_cases [OF b w(2)] show ?thesis
      proof (elim disjE exE conjE)
        fix x assume "b = Inl x" "\<not> accepted x" "\<not> object_authentic H d2 vc now p"
        then show ?thesis using assms r a b w same by (simp add: decide_def)
      next
        fix x assume x: "b = Inr x" "\<not> accepted x" "object_authentic H d2 vc now p \<longleftrightarrow> p_object p \<noteq> None"
        then have "accepted v \<longleftrightarrow> authorized d2 sa os ck now \<and> p_object p \<noteq> None"
          using assms r a b w authorization_result [OF x(2), of p d2 sa os ck now] by (simp add: decide_def)
        then show ?thesis using same x(3) r live w(3) by auto
      qed
    qed
  qed
qed

section \<open>What acceptance does not take\<close>

text \<open>
  C35. Any ACTIVE assertion will do. If a device accepts a presentation with one status assertion,
  it accepts the same presentation with any other assertion its checker finds authentic, fresh
  and ACTIVE, whichever credential that one is about: nothing compares the assertion's token
  value with the credential reference on the card. (A revoked card passes with somebody else's
  assertion; \<open>verify_stapled\<close> of the detached verifier requires the two to be bound.)
\<close>

theorem assertion_is_not_bound_to_card:
  assumes "snd (decide H d p vc vr (Some sa) os (Some f) now) = Inr v" "accepted v"
    and "authorized d (Some sa') os (Some f) now"
  shows "\<exists>v'. snd (decide H d p vc vr (Some sa') os (Some f) now) = Inr v' \<and> accepted v'"
proof -
  note facts = accepts_iff [OF assms(1), THEN iffD1, OF assms(2)]
  obtain d2 where d2: "retire d (p_challenge p) = Inr d2"
    using facts by (auto simp: retire_def)
  obtain w where w: "snd (decide H d p vc vr (Some sa') os (Some f) now) = Inr w"
  proof -
    obtain a where a: "decide_possession vr p = Inr a"
      using assms(1) facts d2 by (auto simp: decide_def)
    show thesis
    proof (cases a)
      case (Inl x)
      then show thesis using that facts d2 a by (simp add: decide_def)
    next
      case (Inr x)
      obtain b where "decide_card H d2 vc now p x = Inr b"
        using assms(1) facts d2 a Inr by (auto simp: decide_def)
      then show thesis using that facts d2 a Inr by (cases b) (simp_all add: decide_def)
    qed
  qed
  with accepts_iff [OF w] facts assms(3) show ?thesis by blast
qed

lemma object_authentic_object: "object_authentic H d vc now p \<Longrightarrow> p_object p \<noteq> None"
  by (cases "p_object p") (simp_all add: object_authentic_def)

lemma decide_end_linkability: "linkability (decide_end p v) = linkability v"
  by (simp add: decide_end_def)

lemma decide_stages:
  assumes "snd (decide H d p vc vr sa os ck now) = Inr v" "accepted v"
  obtains d2 x y z where "decide_possession vr p = Inr (Inr x)" "decide_card H d2 vc now p x = Inr (Inr y)"
    "decide_authorization d2 sa os ck now y = Inr z" "v = decide_end p z"
proof -
  note facts = accepts_iff [OF assms(1), THEN iffD1, OF assms(2)]
  obtain d2 where d2: "retire d (p_challenge p) = Inr d2"
    using facts by (auto simp: retire_def)
  obtain a where a: "decide_possession vr p = Inr a"
    using assms(1) facts d2 by (auto simp: decide_def)
  from decide_possession_cases [OF a] obtain x where x: "a = Inr x" "\<not> accepted x"
    using facts by blast
  obtain b where b: "decide_card H d2 vc now p x = Inr b"
    using assms(1) facts d2 a x by (auto simp: decide_def)
  have "object_authentic H d2 vc now p"
    using facts retire_pq [OF d2] decide_card_cong [of d2 d] by blast
  with decide_card_cases [OF b x(2)] obtain y where y: "b = Inr y" "\<not> accepted y" by blast
  have v: "v = (case decide_authorization d2 sa os ck now y of Inl v \<Rightarrow> v | Inr v \<Rightarrow> decide_end p v)"
    using assms(1) facts d2 a x b y by (simp add: decide_def)
  have "authorized d2 sa os ck now"
    using facts retire_pq [OF d2] authorized_cong [of d2 d] by blast
  with decide_authorization_accepts [of y d2 sa os ck now] y(2)
  obtain z where z: "decide_authorization d2 sa os ck now y = Inr z"
    by (cases "decide_authorization d2 sa os ck now y") auto
  show thesis
    by (rule that [OF _ _ z]) (use a x b y v z in simp_all)
qed

lemma possession_linkability: "decide_possession vr p = Inr (Inr x) \<Longrightarrow> linkability x = Pairwise"
  by (auto simp: decide_possession_def split: sum.splits option.splits if_splits)

lemma card_linkability: "decide_card H d vc now p x = Inr (Inr y) \<Longrightarrow> linkability y = linkability x"
  by (auto simp: decide_card_def Let_def split: option.splits sum.splits if_splits)

text \<open>
  The card object is not counted. Every accepting verdict has seen the card object, which
  carries the stable credential reference; yet when the online answer names neither a token value
  nor a reference, the verdict says the device learned a pairwise handle only. (The design record
  defines \<open>pairwise\<close> as a handle scoped to the device "and nothing more".)
\<close>

theorem card_object_not_in_linkability:
  assumes "snd (decide H d p vc vr None (Some os) ck now) = Inr v" "accepted v"
    and "\<not> py_true (py_get os ''token_value'')" "\<not> py_true (py_get os ''credential_ref'')"
  shows "linkability v = Pairwise \<and> p_object p \<noteq> None"
proof -
  obtain d2 x y z where x: "decide_possession vr p = Inr (Inr x)" and y: "decide_card H d2 vc now p x = Inr (Inr y)"
    and z: "decide_authorization d2 None (Some os) ck now y = Inr z" "v = decide_end p z"
    by (rule decide_stages [OF assms(1,2)])
  have "linkability z = linkability y"
    using z(1) assms(3,4) by (auto simp: decide_authorization_def)
  then have "linkability v = Pairwise"
    using z(2) possession_linkability [OF x] card_linkability [OF y] by (simp add: decide_end_linkability)
  moreover have "p_object p \<noteq> None"
    using object_authentic_object accepts_iff [OF assms(1)] assms(2) by blast
  ultimately show ?thesis ..
qed

text \<open>
  Disclosure is recorded before it is checked. Whenever a presentation gets as far as the
  status assertion, and the assertion names a token value, the verdict says the device can link
  the credential, whether or not the assertion then verifies.
\<close>

theorem disclosure_is_recorded:
  assumes "decide_authorization d (Some sa) os ck now v = Inl w \<or> decide_authorization d (Some sa) os ck now v = Inr w"
    and "py_true (py_get sa ''token_value'')"
  shows "linkability w = CredentialLinkable \<and> mode w = Some ''offline''"
  using assms by (auto simp: decide_authorization_def Let_def split: option.splits if_splits)

section \<open>A sample presentation\<close>

definition sample_device :: device where
  "sample_device = \<lparr>scope = lit ''gate'', max_window_seconds = Some 300, device_pq = False,
     open_challenges = {replicate 32 7}, spent_challenges = {}\<rparr>"

definition sample_presented :: "bytes option \<Rightarrow> presented" where
  "sample_presented ob = \<lparr>transport = ''nfc'', p_scope = lit ''gate'', p_challenge = replicate 32 7,
     p_handle = replicate 32 1, p_signature = replicate 64 2, p_object = ob\<rparr>"

definition sample_assertion :: "string \<Rightarrow> pydict" where
  "sample_assertion tok = [(lit ''token_value'', PStr (lit tok)), (lit ''status'', PStr (lit ''ACTIVE''))]"

definition sample_checker :: assertion_check where
  "sample_checker sa now w = [(lit ''status_authentic'', PBool True), (lit ''fresh'', PBool True),
     (lit ''status'', py_get sa ''status'')]"

lemma built_card_rule:
  assumes build: "build_card H a (Some s) None = Inr b" and H: "hash32 H"
    and keys: "length (card_key_classical a) = CLASSICAL_KEY_LEN"
      "\<forall>k. card_key_pq a = Some k \<longrightarrow> length k = PQ_KEY_LEN"
    and accepts: "\<And>d g. s d = Some g \<Longrightarrow> vc d g" and fresh: "\<And>t. now = Some t \<Longrightarrow> t < expires_at a"
  shows "\<exists>v. verify_card H b (Some vc) None False now = Inr v \<and> authentic v"
proof (rule built_card_decodes [OF build H keys])
  fix g d ref pre
  assume g: "decode b = Inr g" "signing_digest H g = Inr d"
    and sigs: "fget g ''issuer_sig_classical'' = sig_val (Some s) d" "fget g ''issuer_sig_pq'' = sig_val None d"
    and expiry: "fget g ''expires_at'' = CInt (expires_at a)" and signs: "\<forall>s'. Some s = Some s' \<longrightarrow> s' d \<noteq> None"
  have d: "H (blob_of (body_part g)) = d"
    using g by (simp add: signing_digest_def signing_body_decoded [OF g(1)])
  have "check_signature (Some vc) d (map_of g ''issuer_sig_classical'') = Some True"
    "check_signature None d (map_of g ''issuer_sig_pq'') = None"
    using sigs signs accepts by (auto simp: decoded_map_of [OF g(1)] check_signature_def sig_val_def)
  then have "card_rule d g (Some vc) None False now"
    using expiry fresh by (auto simp: card_rule_def Let_def split: option.split)
  with verify_card_returns [of H b "Some vc" None False now] g(1) d show ?thesis by auto
qed

lemma sample_card_verifies:
  "\<exists>ob v. build_card sample_hash sample_args (Some sample_sign) None = Inr ob \<and>
    verify_card_at sample_hash ob (Some sample_check) False NoNow = Inr v \<and> authentic v"
proof -
  obtain ob where ob: "build_card sample_hash sample_args (Some sample_sign) None = Inr ob"
    using sample_builds by blast
  have "\<exists>v. verify_card sample_hash ob (Some sample_check) None False None = Inr v \<and> authentic v"
    by (rule built_card_rule [OF ob])
      (auto simp: hash32_def sample_hash_def sample_args_def CLASSICAL_KEY_LEN_def sample_sign_def sample_check_def)
  then show ?thesis using ob by (auto simp: verify_card_at_def card_now_def)
qed

lemma sample_decides:
  assumes "verify_card_at sample_hash ob (Some sample_check) False NoNow = Inr cv" "authentic cv"
  shows "\<exists>v. snd (decide sample_hash sample_device (sample_presented (Some ob)) (Some sample_check) (Some (\<lambda>_ _. True))
      (Some (sample_assertion t)) None (Some sample_checker) NoNow) = Inr v \<and> accepted v"
    and "py_get os ''status'' = PStr (lit ''ACTIVE'') \<Longrightarrow>
      \<exists>v. snd (decide sample_hash sample_device (sample_presented (Some ob)) (Some sample_check) (Some (\<lambda>_ _. True))
        None (Some os) None NoNow) = Inr v \<and> accepted v"
  using assms
  by (simp_all add: decide_def missing_field_def sample_presented_def sample_device_def retire_def decide_possession_def
      response_body_def utf8_encode_lit blank_decision_def decide_card_def Let_def decide_authorization_def sample_checker_def
      py_true_def decide_end_def sample_assertion_def)

theorem read_nfc_never_crashes_witness:
  "snd (snd (read_nfc (transmit sample_hash sample_signer) sample_device (replicate 32 7) (sample_token None) (lit ''1234'') True)) \<noteq> Inl DeviceCrash"
  by (rule read_nfc_never_crashes)
    (simp_all add: verify_pin_def pin_apdu_def utf8_encode_lit sign_challenge_def sample_device_def Let_def)

theorem accepts_iff_witness:
  "\<exists>ob v. snd (decide sample_hash sample_device (sample_presented (Some ob)) (Some sample_check) (Some (\<lambda>_ _. True))
      (Some (sample_assertion ''POLARIS-1'')) None (Some sample_checker) NoNow) = Inr v \<and>
    object_authentic sample_hash sample_device (Some sample_check) NoNow (sample_presented (Some ob))"
proof -
  obtain ob cv where "verify_card_at sample_hash ob (Some sample_check) False NoNow = Inr cv" "authentic cv"
    using sample_card_verifies by blast
  from sample_decides(1) [OF this, of "''POLARIS-1''"] obtain v where v: "snd (decide sample_hash sample_device (sample_presented (Some ob)) (Some sample_check)
      (Some (\<lambda>_ _. True)) (Some (sample_assertion ''POLARIS-1'')) None (Some sample_checker) NoNow) = Inr v" "accepted v"
    by blast
  with accepts_iff [OF v(1)] show ?thesis by blast
qed

theorem assertion_is_not_bound_to_card_witness:
  "\<exists>ob v. build_card sample_hash sample_args (Some sample_sign) None = Inr ob \<and>
    token_value sample_args = lit ''POLARIS-1'' \<and>
    snd (decide sample_hash sample_device (sample_presented (Some ob)) (Some sample_check) (Some (\<lambda>_ _. True))
      (Some (sample_assertion ''SOMEBODY-ELSE'')) None (Some sample_checker) NoNow) = Inr v \<and> accepted v"
proof -
  obtain ob cv where ob: "build_card sample_hash sample_args (Some sample_sign) None = Inr ob"
    and cv: "verify_card_at sample_hash ob (Some sample_check) False NoNow = Inr cv" "authentic cv"
    using sample_card_verifies by blast
  from sample_decides(1) [OF cv, of "''POLARIS-1''"] obtain v where v: "snd (decide sample_hash sample_device (sample_presented (Some ob)) (Some sample_check)
      (Some (\<lambda>_ _. True)) (Some (sample_assertion ''POLARIS-1'')) None (Some sample_checker) NoNow) = Inr v" "accepted v"
    by blast
  have "authorized sample_device (Some (sample_assertion ''SOMEBODY-ELSE'')) None (Some sample_checker) NoNow"
    by (simp add: authorized_def sample_checker_def sample_assertion_def py_true_def Let_def)
  from assertion_is_not_bound_to_card [OF v this] ob show ?thesis by (auto simp: sample_args_def)
qed

theorem card_object_not_in_linkability_witness:
  "\<exists>ob v. snd (decide sample_hash sample_device (sample_presented (Some ob)) (Some sample_check) (Some (\<lambda>_ _. True))
      None (Some [(lit ''status'', PStr (lit ''ACTIVE''))]) None NoNow) = Inr v \<and> accepted v \<and> linkability v = Pairwise"
proof -
  obtain ob cv where cv: "verify_card_at sample_hash ob (Some sample_check) False NoNow = Inr cv" "authentic cv"
    using sample_card_verifies by blast
  from sample_decides(2) [OF cv, of "[(lit ''status'', PStr (lit ''ACTIVE''))]"] obtain v where
    v: "snd (decide sample_hash sample_device (sample_presented (Some ob)) (Some sample_check)
      (Some (\<lambda>_ _. True)) None (Some [(lit ''status'', PStr (lit ''ACTIVE''))]) None NoNow) = Inr v" "accepted v"
    by auto
  from card_object_not_in_linkability [OF v] v show ?thesis by (auto simp: py_true_def)
qed

theorem disclosure_is_recorded_witness:
  "\<exists>w. decide_authorization sample_device (Some (sample_assertion ''T'')) None None NoNow blank_decision = Inl w \<and>
    linkability w = CredentialLinkable"
proof -
  obtain w where w: "decide_authorization sample_device (Some (sample_assertion ''T'')) None None NoNow blank_decision = Inl w"
    by (simp add: decide_authorization_def Let_def)
  have "py_true (py_get (sample_assertion ''T'') ''token_value'')"
    by (simp add: sample_assertion_def py_true_def)
  from disclosure_is_recorded [OF disjI1 [OF w] this] w show ?thesis by blast
qed

theorem pq_card_exceeds_qr_witness:
  "\<exists>ob f k g. decode ob = Inr f \<and> fget f ''card_key_pq'' = CBytes k \<and> fget f ''issuer_sig_pq'' = CBytes g \<and>
    QR_MAX_ALPHANUMERIC < length (qr_response [] [] [] (Some ob))"
proof -
  let ?a = "sample_args\<lparr>card_key_pq := Some (replicate 1952 0)\<rparr>" and ?s = "\<lambda>d :: bytes. Some (replicate 3309 0) :: bytes option"
  have "admissible ?a"
    by (simp add: admissible_def sample_args_def CLASSICAL_KEY_LEN_def PQ_KEY_LEN_def lit_def scalar_def)
  then obtain ob where ob: "build_card sample_hash ?a (Some ?s) (Some ?s) = Inr ob"
    using build_card_succeeds [of ?a sample_hash "Some ?s" "Some ?s"] by (fastforce simp: hash32_def sample_hash_def)
  show ?thesis
  proof (rule built_card_decodes [OF ob])
    fix g d ref pre
    assume g: "decode ob = Inr g" "fget g ''issuer_sig_pq'' = sig_val (Some ?s) d"
      "\<forall>n \<in> set BODY_NAMES. fget g n = fget (base_fields ?a ref pre) n"
    have "fget g ''card_key_pq'' = CBytes (replicate 1952 0)"
      using g(3) by (simp add: BODY_NAMES_def BODY_TAGS_def base_fields_def fget_def)
    with g pq_card_exceeds_qr show ?thesis by (fastforce simp: sig_val_def)
  qed (auto simp: hash32_def sample_hash_def sample_args_def CLASSICAL_KEY_LEN_def PQ_KEY_LEN_def)
qed

end
