(* ===== verification/Personalization.thy ===== *)
theory Personalization
  imports VerifierDevice
begin

text \<open>
  Putting a credential onto a card, \<open>polaris_card/personalization.py\<close>. The database is the two
  tables the code reads and writes, with the constraints on \<open>CardPersonalization\<close> that the
  code relies on (\<open>polaris_sql/01_schema.sql\<close>). The flow runs in two halves, everything up to the card's answer to PUT CARD
  OBJECT (\<open>prepare\<close>) and the INSERT (\<open>record_card\<close>), since another station can write to the
  database in between; \<open>personalize\<close> is the two on one database.
\<close>

section \<open>The database\<close>

record credential =
  c_token_value :: ustr
  c_status :: ustr
  c_agency :: int
  c_sequence :: int
  c_expiration :: "int option"

record personalization =
  r_token_id :: int
  r_agency :: int
  r_credential_ref :: bytes
  r_version :: nat
  r_normal :: bytes
  r_duress :: bytes
  r_digest :: bytes
  r_operator :: "int option"

record database =
  identity_tokens :: "int \<rightharpoonup> credential"
  card_personalizations :: "personalization list"
  app_users :: "int set"

definition credential_for :: "database \<Rightarrow> int \<Rightarrow> credential option" where
  "credential_for db token_id = identity_tokens db token_id"

definition already_personalized :: "database \<Rightarrow> int \<Rightarrow> bool" where
  "already_personalized db token_id \<longleftrightarrow> token_id \<in> r_token_id ` set (card_personalizations db)"

text \<open>
  The constraints of the table on a row. That the agency is one is not among them: the flow takes it from
  the credential, whose own row refers to an agency.
\<close>

definition row_admissible :: "database \<Rightarrow> personalization \<Rightarrow> bool" where
  "row_admissible db r \<longleftrightarrow>
     identity_tokens db (r_token_id r) \<noteq> None \<and> length (r_credential_ref r) = 32 \<and> 1 \<le> r_version r \<and>
     32 \<le> length (r_normal r) \<and> length (r_normal r) \<le> 4096 \<and>
     32 \<le> length (r_duress r) \<and> length (r_duress r) \<le> 4096 \<and> length (r_digest r) = 32 \<and>
     (case r_operator r of None \<Rightarrow> True | Some u \<Rightarrow> u \<in> app_users db) \<and> r_normal r \<noteq> r_duress r"

text \<open>The INSERT, refused by the unique index on \<open>token_id\<close> or by a constraint.\<close>

definition insert_row :: "database \<Rightarrow> personalization \<Rightarrow> database option" where
  "insert_row db r =
     (if already_personalized db (r_token_id r) \<or> \<not> row_admissible db r then None
      else Some (db\<lparr>card_personalizations := card_personalizations db @ [r]\<rparr>))"

section \<open>The flow\<close>

datatype pz_refusal =
    NoSuchCredential | NotActive ustr | PastExpiration int | AlreadyHasCard | NotBlank
  | NoKeypair | SameKeyTwice | ObjectNotVerified "card_note option" | CardRefusedObject nat

datatype pz_exn = PersonalizationRefused pz_refusal | PzCrash

record pz_args =
  issuer_sign :: signer
  issuer_verify :: "sig_check option"
  operator_user_id :: "int option"
  pz_expires_at :: "int option"
  pz_issued_at :: "int option"
  pz_sign_pq :: "signer option"
  pz_card_key_pq :: "bytes option"

text \<open>The refusals decided from the database alone, in the code's order; \<open>today\<close> is the UTC date.\<close>

definition check_credential :: "database \<Rightarrow> int \<Rightarrow> int \<Rightarrow> pz_refusal + credential" where
  "check_credential db today token_id =
     (case credential_for db token_id of None \<Rightarrow> Inl NoSuchCredential
      | Some row \<Rightarrow>
          if c_status row \<noteq> lit ''ACTIVE'' then Inl (NotActive (c_status row))
          else if (case c_expiration row of None \<Rightarrow> False | Some e \<Rightarrow> e < today)
            then Inl (PastExpiration (the (c_expiration row)))
          else if already_personalized db token_id then Inl AlreadyHasCard
          else Inr row)"

text \<open>The card object of a credential and the key the card made.\<close>

definition issued_at_of :: "pz_args \<Rightarrow> int" where
  "issued_at_of p = (case pz_issued_at p of None \<Rightarrow> 1757000000 | Some t \<Rightarrow> t)"

definition object_args :: "pz_args \<Rightarrow> credential \<Rightarrow> bytes \<Rightarrow> build_args" where
  "object_args p row normal_pub =
     \<lparr>token_value = c_token_value row, issuing_authority = c_agency row,
      activation_sequence = c_sequence row, issued_at = issued_at_of p,
      expires_at = (case pz_expires_at p of None \<Rightarrow> issued_at_of p + 10 * 365 * 24 * 3600 | Some t \<Rightarrow> t),
      card_key_classical = normal_pub,
      card_key_pq = (if pz_card_key_pq p \<noteq> None \<and> pz_sign_pq p \<noteq> None then pz_card_key_pq p else None),
      predecessor_token_value = None\<rparr>"

definition make_object :: "(bytes \<Rightarrow> bytes) \<Rightarrow> pz_args \<Rightarrow> credential \<Rightarrow> bytes \<Rightarrow> card_exn + bytes" where
  "make_object H p row normal_pub =
     build_card H (object_args p row normal_pub) (Some (issuer_sign p))
       (if pz_card_key_pq p \<noteq> None then pz_sign_pq p else None)"

definition object_verified :: "(bytes \<Rightarrow> bytes) \<Rightarrow> pz_args \<Rightarrow> bytes \<Rightarrow> pz_exn + unit" where
  "object_verified H p ob =
     (case issuer_verify p of None \<Rightarrow> Inr ()
      | Some vf \<Rightarrow>
          (case verify_card H ob (Some vf) None False None of
             Inl _ \<Rightarrow> Inl PzCrash
           | Inr v \<Rightarrow> if authentic v then Inr () else Inl (PersonalizationRefused (ObjectNotVerified (vnote v)))))"

definition put_object ::
    "('c \<Rightarrow> bytes \<Rightarrow> 'c \<times> bytes) \<Rightarrow> 'c \<Rightarrow> bytes \<Rightarrow> 'c \<times> (pz_exn + unit)" where
  "put_object tr crd ob =
     (case put_card_object ob of None \<Rightarrow> (crd, Inl PzCrash)
      | Some apdu \<Rightarrow>
          (case exchange tr crd apdu of
             (crd2, resp, None) \<Rightarrow> (crd2, Inl PzCrash)
           | (crd2, resp, Some False) \<Rightarrow>
               (crd2, Inl (PersonalizationRefused (CardRefusedObject (the (status_word resp)))))
           | (crd2, resp, Some True) \<Rightarrow> (crd2, Inr ())))"

text \<open>From the keys the card made to the row to write.\<close>

definition issue_object ::
    "(bytes \<Rightarrow> bytes) \<Rightarrow> ('c \<Rightarrow> bytes \<Rightarrow> 'c \<times> bytes) \<Rightarrow> pz_args \<Rightarrow> int \<Rightarrow> credential \<Rightarrow> 'c \<Rightarrow> bytes \<Rightarrow> bytes
      \<Rightarrow> 'c \<times> (pz_exn + bytes \<times> personalization)" where
  "issue_object H tr p token_id row crd normal_pub duress_pub =
     (if normal_pub = duress_pub then (crd, Inl (PersonalizationRefused SameKeyTwice))
      else
        (case make_object H p row normal_pub of
           Inl _ \<Rightarrow> (crd, Inl PzCrash)
         | Inr ob \<Rightarrow>
             (case object_verified H p ob of
                Inl e \<Rightarrow> (crd, Inl e)
              | Inr _ \<Rightarrow>
                  (case put_object tr crd ob of
                     (crd2, Inl e) \<Rightarrow> (crd2, Inl e)
                   | (crd2, Inr _) \<Rightarrow>
                       (crd2,
                        case credential_ref H (c_token_value row) of
                          Inl _ \<Rightarrow> Inl PzCrash
                        | Inr cref \<Rightarrow>
                            Inr (ob, \<lparr>r_token_id = token_id, r_agency = c_agency row, r_credential_ref = cref,
                                      r_version = PROFILE_VERSION, r_normal = normal_pub, r_duress = duress_pub,
                                      r_digest = H ob, r_operator = operator_user_id p\<rparr>))))))"

definition prepare ::
    "(bytes \<Rightarrow> bytes) \<Rightarrow> ('c \<Rightarrow> bytes \<Rightarrow> 'c \<times> bytes) \<Rightarrow> ('c \<Rightarrow> lifecycle) \<Rightarrow> database \<Rightarrow> int \<Rightarrow> pz_args \<Rightarrow> int \<Rightarrow> 'c
      \<Rightarrow> 'c \<times> (pz_exn + bytes \<times> personalization)" where
  "prepare H tr st db today p token_id crd =
     (case check_credential db today token_id of
        Inl r \<Rightarrow> (crd, Inl (PersonalizationRefused r))
      | Inr row \<Rightarrow>
          if st crd \<noteq> BLANK then (crd, Inl (PersonalizationRefused NotBlank))
          else
            (case tr crd generate_keypair of (crd2, resp) \<Rightarrow>
               (case parse_generated_keys resp of
                  None \<Rightarrow> (crd2, Inl PzCrash)
                | Some None \<Rightarrow> (crd2, Inl (PersonalizationRefused NoKeypair))
                | Some (Some (normal_pub, duress_pub)) \<Rightarrow>
                    issue_object H tr p token_id row crd2 normal_pub duress_pub)))"

text \<open>The INSERT and the commit; a violated index or constraint raises and nothing is written.\<close>

definition record_card :: "database \<Rightarrow> bytes \<times> personalization \<Rightarrow> database \<times> (pz_exn + bytes \<times> personalization)" where
  "record_card db x =
     (case insert_row db (snd x) of None \<Rightarrow> (db, Inl PzCrash) | Some db2 \<Rightarrow> (db2, Inr x))"

definition personalize ::
    "(bytes \<Rightarrow> bytes) \<Rightarrow> ('c \<Rightarrow> bytes \<Rightarrow> 'c \<times> bytes) \<Rightarrow> ('c \<Rightarrow> lifecycle) \<Rightarrow> database \<Rightarrow> int \<Rightarrow> pz_args \<Rightarrow> int \<Rightarrow> 'c
      \<Rightarrow> database \<times> 'c \<times> (pz_exn + bytes \<times> personalization)" where
  "personalize H tr st db today p token_id crd =
     (case prepare H tr st db today p token_id crd of
        (crd2, Inl e) \<Rightarrow> (db, crd2, Inl e)
      | (crd2, Inr x) \<Rightarrow> (case record_card db x of (db2, res) \<Rightarrow> (db2, crd2, res)))"

text \<open>The authority's reading of a presentation: both keys are always tried.\<close>

definition slot_for_presentation :: "database \<Rightarrow> int \<Rightarrow> (bytes \<Rightarrow> bool) \<Rightarrow> slot option" where
  "slot_for_presentation db token_id verify_signature =
     (case filter (\<lambda>r. r_token_id r = token_id) (card_personalizations db) of
        [] \<Rightarrow> None
      | r # _ \<Rightarrow>
          let normal_ok = verify_signature (r_normal r); duress_ok = verify_signature (r_duress r)
          in if duress_ok then Some DuressSlot else if normal_ok then Some NormalSlot else None)"

section \<open>The card a station can personalize\<close>

text \<open>
  Beyond answering every command, such a card says its lifecycle state and holds an object:
  when it accepts PUT CARD OBJECT, it was blank, holds exactly that object afterwards, and the
  object decodes; and making keys does not put an object on it.
\<close>

locale personalizable = card_port tr
  for tr :: "'c \<Rightarrow> bytes \<Rightarrow> 'c \<times> bytes" +
  fixes st :: "'c \<Rightarrow> lifecycle" and held :: "'c \<Rightarrow> bytes option" and good :: "'c \<Rightarrow> bool"
  assumes put_accepted: "good crd \<Longrightarrow> put_card_object ob = Some apdu \<Longrightarrow> is_ok (snd (tr crd apdu)) = Some True \<Longrightarrow>
      st crd = BLANK \<and> st (fst (tr crd apdu)) = PERSONALIZED \<and> held (fst (tr crd apdu)) = Some ob \<and> (\<exists>f. decode ob = Inr f)"
    and good_kept: "good crd \<Longrightarrow> good (fst (tr crd apdu))"
begin

lemma put_object_ok:
  assumes "good crd" "put_object tr crd ob = (crd2, Inr u)"
  shows "st crd2 = PERSONALIZED \<and> held crd2 = Some ob \<and> (\<exists>f. decode ob = Inr f)"
  using assms put_accepted [of crd ob]
  by (auto simp: put_object_def exchange_def split: option.splits prod.splits bool.splits)

lemma issue_object_ok:
  assumes "good crd" "issue_object H tr p tid row crd n d = (crd2, Inr (ob, r))"
  shows "n \<noteq> d \<and> make_object H p row n = Inr ob \<and> object_verified H p ob = Inr () \<and>
    held crd2 = Some ob \<and> st crd2 = PERSONALIZED \<and> r_token_id r = tid \<and> r_normal r = n \<and> r_duress r = d \<and>
    r_digest r = H ob \<and> credential_ref H (c_token_value row) = Inr (r_credential_ref r)"
proof -
  obtain ob' where ob': "make_object H p row n = Inr ob'" and ne: "n \<noteq> d"
    using assms(2) by (auto simp: issue_object_def split: if_splits sum.splits)
  have ver: "object_verified H p ob' = Inr ()"
    using assms(2) ob' ne by (cases "object_verified H p ob'") (auto simp: issue_object_def)
  obtain crd3 u where put: "put_object tr crd ob' = (crd3, Inr u)"
    using assms(2) ob' ne ver by (auto simp: issue_object_def split: prod.splits sum.splits)
  obtain cref where cref: "credential_ref H (c_token_value row) = Inr cref"
    using assms(2) ob' ne ver put by (cases "credential_ref H (c_token_value row)") (auto simp: issue_object_def)
  show ?thesis
    using assms(2) ob' ne ver cref put put_object_ok [OF assms(1) put]
    by (auto simp: issue_object_def)
qed

lemma prepare_ok:
  assumes "good crd" "prepare H tr st db today p tid crd = (crd2, Inr (ob, r))"
  shows "\<exists>row. check_credential db today tid = Inr row \<and> st crd = BLANK \<and>
    parse_generated_keys (snd (tr crd generate_keypair)) = Some (Some (r_normal r, r_duress r)) \<and>
    r_normal r \<noteq> r_duress r \<and> make_object H p row (r_normal r) = Inr ob \<and> object_verified H p ob = Inr () \<and>
    held crd2 = Some ob \<and> st crd2 = PERSONALIZED \<and> r_token_id r = tid \<and> r_digest r = H ob \<and>
    credential_ref H (c_token_value row) = Inr (r_credential_ref r)"
proof -
  obtain row where row: "check_credential db today tid = Inr row" and blank: "st crd = BLANK"
    using assms(2) by (auto simp: prepare_def split: sum.splits if_splits)
  obtain crd3 resp where t: "tr crd generate_keypair = (crd3, resp)" by fastforce
  obtain n d where keys: "parse_generated_keys resp = Some (Some (n, d))"
    using assms(2) row blank t by (auto simp: prepare_def split: option.splits)
  have "issue_object H tr p tid row crd3 n d = (crd2, Inr (ob, r))"
    using assms(2) row blank t keys by (simp add: prepare_def)
  moreover have "good crd3" using good_kept [OF assms(1), of generate_keypair] t by simp
  ultimately show ?thesis
    using issue_object_ok [of crd3 H p tid row n d crd2 ob r] row blank t keys by auto
qed

end

section \<open>The emulated card can be personalized\<close>

lemma is_ok_sw: "sw < 0x10000 \<Longrightarrow> is_ok (sw_bytes sw) = Some (sw = SW_OK)"
  by (simp add: is_ok_def status_word_def sw_bytes_def)

lemma put_answer:
  assumes "put_card_object ob = Some apdu"
  shows "transmit_raw H C t apdu = (if selected t then put_card_object_cmd t ob
      else (t, Some (sw_bytes SW_CONDITIONS_NOT_SATISFIED)))"
  using put_apdu [OF assms] by (simp add: transmit_dispatch dispatch_def ins_defs)

lemma put_accepted_blank:
  assumes "put_card_object ob = Some apdu" "is_ok (snd (transmit H C t apdu)) = Some True"
  shows "tstate t = BLANK \<and> tstate (fst (transmit H C t apdu)) = PERSONALIZED \<and>
    card_object (fst (transmit H C t apdu)) = Some ob \<and> (\<exists>f. decode ob = Inr f)"
  using assms(2) is_ok_sw
  by (auto simp: transmit_eq put_answer [OF assms(1)] put_card_object_cmd_def sw_defs
      split: if_splits sum.splits card_exn.splits)

interpretation station: personalizable "transmit H C" tstate card_object token_inv for H C
proof unfold_locales
  fix crd :: "'a token" and ob apdu
  assume "put_card_object ob = Some apdu" "is_ok (snd (transmit H C crd apdu)) = Some True"
  then show "tstate crd = BLANK \<and> tstate (fst (transmit H C crd apdu)) = PERSONALIZED \<and>
      card_object (fst (transmit H C crd apdu)) = Some ob \<and> (\<exists>f. decode ob = Inr f)"
    by (rule put_accepted_blank)
next
  fix crd :: "'a token" and apdu
  assume "token_inv crd"
  then show "token_inv (fst (transmit H C crd apdu))" by (rule token_inv_transmit)
qed

section \<open>A flow that completes\<close>

lemma length_blob_of: "\<forall>(n, v) \<in> set f. length (enc_val (tag_of n) v) \<le> k \<Longrightarrow> length (blob_of f) \<le> length f * (k + 3)"
  by (induction f) (auto simp: blob_of_def tlv_def)

lemma built_card_small:
  assumes build: "build_card H a (Some s) None = Inr b" and H: "hash32 H"
    and keys: "length (card_key_classical a) = CLASSICAL_KEY_LEN" "card_key_pq a = None"
    and sig: "\<And>d g. length d = 32 \<Longrightarrow> s d = Some g \<Longrightarrow> length g \<le> 200"
  shows "length b \<le> 0xFFFF"
proof -
  have k: "\<forall>k. card_key_pq a = Some k \<longrightarrow> length k = PQ_KEY_LEN" using keys(2) by simp
  show ?thesis
  proof (rule built_card_decodes [OF build H keys(1) k])
    fix g d ref pre
    assume g: "decode b = Inr g" "signing_digest H g = Inr d"
      "credential_ref H (token_value a) = Inr ref" "predecessor_ref H a = Inr pre"
      "fget g ''issuer_sig_classical'' = sig_val (Some s) d" "fget g ''issuer_sig_pq'' = sig_val None d"
      "\<forall>n \<in> set BODY_NAMES. fget g n = fget (base_fields a ref pre) n" "\<forall>s'. Some s = Some s' \<longrightarrow> s' d \<noteq> None"
    then have ok: "card_ok g" and b: "blob_of g = b" by (simp_all add: decode_iff)
    have "length d = 32"
      using g(2) H by (auto simp: signing_digest_def hash32_def)
    then have s: "length (the (s d)) \<le> 200" using sig [of d "the (s d)"] g(8) by simp
    have refs: "length ref = 32" "\<forall>r. pre = Some r \<longrightarrow> length r = 32"
      using credential_ref_length [OF H g(3)] predecessor_ref_length [OF H g(4)] by simp_all
    have "ascii DOC_TYPE" by (simp add: ascii_def DOC_TYPE_def lit_def)
    then have "length (utf8_raw DOC_TYPE) = 17"
      by (simp add: utf8_raw_ascii DOC_TYPE_def)
    then have base: "list_all (\<lambda>(n, v). length (enc_val (tag_of n) v) \<le> 200) (base_fields a ref pre)"
      using keys refs by (simp add: base_fields_def enc_val_def body_tag_numbers CLASSICAL_KEY_LEN_def split: option.split)
    have "length (enc_val (tag_of n) v) \<le> 200" if "(n, v) \<in> set g" for n v
    proof -
      have v: "fget g n = v" using that ok decoded_map_of [OF g(1), of n]
        by (metis card_ok_def distinct_filter distinct_names fget_in)
      have nn: "n \<in> set TAG_NAMES"
      proof -
        have "n \<in> set (map fst g)" using that by force
        also have "\<dots> = set (filter (\<lambda>n. n \<in> fst ` set g) TAG_NAMES)" using ok by (simp only: card_ok_def)
        finally show ?thesis by simp
      qed
      have none: "v \<noteq> CNone" using card_ok_entry(2) [OF ok that] by (auto simp: value_ok_def)
      show ?thesis
      proof (cases "n \<in> set BODY_NAMES")
        case True
        then have "fget (base_fields a ref pre) n = v" using g(7) v by simp
        then have "(n, v) \<in> set (base_fields a ref pre)"
          using none by (auto simp: fget_def dest: map_of_SomeD split: option.splits)
        with base show ?thesis by (auto simp: list_all_iff)
      next
        case False
        then have "n = ''issuer_sig_classical'' \<or> n = ''issuer_sig_pq''"
          using nn by (auto simp: TAG_NAMES_def BODY_NAMES_def ALL_TAGS_def SIGNATURE_TAGS_def)
        then show ?thesis
          using g(5,6) v none s by (auto simp: sig_val_def enc_val_def)
      qed
    qed
    then have "length b \<le> length g * 203" using length_blob_of [of g 200] b by auto
    moreover have "length g \<le> 12"
    proof -
      have "length g = length (filter (\<lambda>n. n \<in> fst ` set g) TAG_NAMES)"
        using ok by (metis card_ok_def length_map)
      also have "\<dots> \<le> length TAG_NAMES" by simp
      finally show ?thesis by (simp add: TAG_NAMES_def ALL_TAGS_def BODY_TAGS_def SIGNATURE_TAGS_def)
    qed
    ultimately show ?thesis by linarith
  qed
qed

section \<open>Properties\<close>

lemma check_credential_ok:
  "check_credential db today tid = Inr row \<longleftrightarrow>
    identity_tokens db tid = Some row \<and> c_status row = lit ''ACTIVE'' \<and>
    (\<forall>e. c_expiration row = Some e \<longrightarrow> today \<le> e) \<and> \<not> already_personalized db tid"
  by (auto simp: check_credential_def credential_for_def split: option.splits)

lemma record_card_ok:
  "record_card db x = (db2, Inr y) \<longleftrightarrow> x = y \<and> \<not> already_personalized db (r_token_id (snd x)) \<and> row_admissible db (snd x) \<and>
    db2 = db\<lparr>card_personalizations := card_personalizations db @ [snd x]\<rparr>"
  by (auto simp: record_card_def insert_row_def split: option.splits)

lemma object_verified_ok:
  "object_verified H p ob = Inr () \<longleftrightarrow>
    (\<forall>vf. issuer_verify p = Some vf \<longrightarrow> (\<exists>v. verify_card H ob (Some vf) None False None = Inr v \<and> authentic v))"
  by (auto simp: object_verified_def split: option.splits sum.splits)

text \<open>
  C36. A recorded card is an issued card. When the flow returns, the row it appended is for this
  credential, which is ACTIVE, not past its expiration date and had no card; the card was blank
  and now holds the object built for it, which verifies under the issuer's verifier; the row has
  the object's digest, and the two different public keys are the ones the card itself generated.
\<close>

theorem recorded_card_is_issued:
  assumes "token_inv t"
    and "personalize H (transmit H C) tstate db today p tid t = (db', t', Inr (ob, r))"
  shows "\<exists>row. identity_tokens db tid = Some row \<and> c_status row = lit ''ACTIVE'' \<and>
    (\<forall>e. c_expiration row = Some e \<longrightarrow> today \<le> e) \<and> \<not> already_personalized db tid \<and>
    tstate t = BLANK \<and> card_object t' = Some ob \<and> make_object H p row (r_normal r) = Inr ob \<and>
    (\<forall>vf. issuer_verify p = Some vf \<longrightarrow> (\<exists>v. verify_card H ob (Some vf) None False None = Inr v \<and> authentic v)) \<and>
    db' = db\<lparr>card_personalizations := card_personalizations db @ [r]\<rparr> \<and>
    r_token_id r = tid \<and> r_digest r = H ob \<and> r_normal r \<noteq> r_duress r \<and>
    parse_generated_keys (snd (transmit H C t generate_keypair)) = Some (Some (r_normal r, r_duress r))"
proof -
  obtain x where prep: "prepare H (transmit H C) tstate db today p tid t = (t', Inr x)"
    and rec: "record_card db x = (db', Inr (ob, r))"
    using assms(2) by (auto simp: personalize_def split: prod.splits sum.splits)
  then have x: "x = (ob, r)" and db': "db' = db\<lparr>card_personalizations := card_personalizations db @ [r]\<rparr>"
    by (auto simp: record_card_ok)
  show ?thesis
    using station.prepare_ok [OF assms(1) prep [unfolded x]] db' object_verified_ok [of H p ob]
    by (auto simp: check_credential_ok)
qed

text \<open>
  What happens to the database after a personalization: flows with any cards, INSERTs of flows whose
  checks were made earlier, and changes to the credentials and the operators.
\<close>

datatype 'c station_event =
    Attempt int pz_args int 'c | Insertion "bytes \<times> personalization" | CredentialsBecome "int \<rightharpoonup> credential"
  | OperatorsBecome "int set"

fun station_step :: "(bytes \<Rightarrow> bytes) \<Rightarrow> ('c \<Rightarrow> bytes \<Rightarrow> 'c \<times> bytes) \<Rightarrow> ('c \<Rightarrow> lifecycle) \<Rightarrow> 'c station_event \<Rightarrow> database \<Rightarrow> database" where
  "station_step H tr st (Attempt today p tid crd) db = fst (personalize H tr st db today p tid crd)"
| "station_step H tr st (Insertion x) db = fst (record_card db x)"
| "station_step H tr st (CredentialsBecome tokens) db = db\<lparr>identity_tokens := tokens\<rparr>"
| "station_step H tr st (OperatorsBecome users) db = db\<lparr>app_users := users\<rparr>"

definition rows_of :: "database \<Rightarrow> int \<Rightarrow> personalization list" where
  "rows_of db tid = filter (\<lambda>r. r_token_id r = tid) (card_personalizations db)"

lemma rows_of_personalized: "rows_of db tid = [r] \<Longrightarrow> already_personalized db tid"
proof -
  assume "rows_of db tid = [r]"
  then have "r \<in> set (rows_of db tid)" by simp
  then show ?thesis by (auto simp: rows_of_def already_personalized_def)
qed

lemma personalize_records: "\<exists>x. fst (personalize H tr st db today p tid crd) \<in> {db, fst (record_card db x)}"
proof (cases "snd (prepare H tr st db today p tid crd)")
  case (Inr x)
  then have "fst (personalize H tr st db today p tid crd) = fst (record_card db x)"
    by (auto simp: personalize_def split: prod.splits)
  then show ?thesis by blast
qed (auto simp: personalize_def split: prod.splits)

lemma record_keeps_row: "rows_of db tid = [r] \<Longrightarrow> rows_of (fst (record_card db x)) tid = [r]"
  using rows_of_personalized by (auto simp: record_card_def insert_row_def rows_of_def split: option.split)

lemma event_keeps_row: "rows_of db tid = [r] \<Longrightarrow> rows_of (station_step H tr st e db) tid = [r]"
proof (cases e)
  case (Attempt today p t crd)
  assume "rows_of db tid = [r]"
  then show ?thesis using personalize_records [of H tr st db today p t crd] record_keeps_row Attempt by auto
qed (use record_keeps_row in \<open>auto simp: rows_of_def\<close>)

lemma events_keep_row: "rows_of db tid = [r] \<Longrightarrow> rows_of (fold (station_step H tr st) es db) tid = [r]"
  by (induction es arbitrary: db) (simp_all add: event_keeps_row)

lemma personalize_recorded:
  assumes "personalize H tr st db today p tid crd = (db1, crd1, Inr (ob, r))"
  shows "rows_of db1 tid = [r]"
proof -
  have rec: "record_card db (ob, r) = (db1, Inr (ob, r))" "r_token_id r = tid"
    using assms
    by (auto simp: personalize_def prepare_def issue_object_def record_card_ok
        split: prod.splits sum.splits if_splits option.splits)
  then have "rows_of db tid = []"
    by (auto simp: record_card_ok already_personalized_def rows_of_def filter_empty_conv image_iff)
  then show ?thesis using rec by (auto simp: record_card_ok rows_of_def)
qed

lemma personalized_refused:
  "already_personalized db tid \<Longrightarrow> \<exists>x. personalize H tr st db today p tid crd = (db, crd, Inl (PersonalizationRefused x))"
  by (auto simp: personalize_def prepare_def check_credential_def split: option.split)

text \<open>
  C38. A credential gets one card. Once the flow has returned for a credential, whatever flows, late INSERTs
  and changes to credentials and operators follow, the credential's only row is the one it returned, and
  every later flow for it is refused before its card is sent anything: that card and the database stay as
  they are, even where the card is blank and the credential ACTIVE.
\<close>

theorem one_card_per_credential:
  assumes "personalize H tr st db today p tid crd = (db1, crd1, Inr (ob, r))"
    and "db2 = fold (station_step H tr st) events db1"
  shows "rows_of db2 tid = [r] \<and>
    (\<exists>why. personalize H tr st db2 today2 p2 tid crd2 = (db2, crd2, Inl (PersonalizationRefused why)))"
proof
  show row: "rows_of db2 tid = [r]" unfolding assms(2) by (rule events_keep_row [OF personalize_recorded [OF assms(1)]])
  show "\<exists>why. personalize H tr st db2 today2 p2 tid crd2 = (db2, crd2, Inl (PersonalizationRefused why))"
    by (rule personalized_refused [OF rows_of_personalized [OF row]])
qed

text \<open>
  A card with no row. If another station records a card for the same credential between this
  station's check and its INSERT, the unique index refuses the row and the flow raises; but the
  card is already personalized by then: it holds an object the issuer signed, and the database
  has no record of it. (The design says every personalization is an audit-of-record event.)
\<close>

theorem race_leaves_unrecorded_card:
  assumes "token_inv t"
    and "prepare H (transmit H C) tstate db today p tid t = (t', Inr (ob, r))"
    and "already_personalized db2 tid"
  shows "record_card db2 (ob, r) = (db2, Inl PzCrash) \<and> card_object t' = Some ob \<and> tstate t' = PERSONALIZED"
proof -
  have "card_object t' = Some ob" "tstate t' = PERSONALIZED" "r_token_id r = tid"
    using station.prepare_ok [OF assms(1,2)] by auto
  with assms(3) show ?thesis by (simp add: record_card_def insert_row_def)
qed

text \<open>
  Refused before the card is touched. When the credential is not one to personalize (unknown,
  not ACTIVE, past its date, already on a card) or the card is not blank, the flow says so and
  neither the card nor the database has changed.
\<close>

theorem refused_untouched:
  assumes "check_credential db today tid = Inl x \<or> st crd \<noteq> BLANK"
  shows "\<exists>x. personalize H tr st db today p tid crd = (db, crd, Inl (PersonalizationRefused x))"
  using assms by (cases "check_credential db today tid") (auto simp: personalize_def prepare_def)

text \<open>
  The authority can tell. After a personalization, a signature that verifies under the
  card's duress key is read as a duress presentation, one that verifies only under its normal
  key as a normal one, and one that verifies under neither as none, whatever other cards are
  recorded.
\<close>

theorem slot_is_recognised:
  assumes "record_card db (ob, r) = (db', Inr y)"
  shows "slot_for_presentation db' (r_token_id r) v =
    (if v (r_duress r) then Some DuressSlot else if v (r_normal r) then Some NormalSlot else None)"
proof -
  have "filter (\<lambda>q. r_token_id q = r_token_id r) (card_personalizations db) = []"
    using assms by (auto simp: record_card_ok already_personalized_def filter_empty_conv image_iff)
  then show ?thesis
    using assms by (auto simp: record_card_ok slot_for_presentation_def)
qed

lemma transmit_generate:
  assumes "selected t" "tstate t = BLANK" "\<not> generated t" "generate_fn C = Some gen"
    and "gen (backend t) NormalSlot = (Some n, b1)" "gen b1 DuressSlot = (Some d, b2)"
    and "length n \<le> 255" "length d \<le> 255"
  shows "\<exists>resp. transmit H C t generate_keypair = (t\<lparr>backend := b2, generated := True\<rparr>, resp) \<and>
    parse_generated_keys resp = Some (Some (n, d))"
proof -
  have "transmit_raw H C t generate_keypair = generate_keypair_cmd C t"
    using assms(1) by (simp add: transmit_raw_def generate_keypair_def apdu_data_def dispatch_def ins_defs)
  also have "\<dots> = (t\<lparr>backend := b2, generated := True\<rparr>,
      Some ([byte (length n)] @ n @ [byte (length d)] @ d @ sw_bytes SW_OK))"
    using assms by (simp add: generate_keypair_cmd_def leD)
  finally show ?thesis
    using parse_generated [OF assms(7,8)] by (simp add: transmit_eq)
qed

lemma transmit_put:
  assumes "put_card_object ob = Some apdu" "selected t" "tstate t = BLANK" "decode ob = Inr f"
  shows "exchange (transmit H C) t apdu =
    (t\<lparr>card_object := Some ob, tstate := PERSONALIZED\<rparr>, sw_bytes SW_OK, Some True)"
  using assms is_ok_sw [of SW_OK]
  by (simp add: exchange_def transmit_eq put_answer put_card_object_cmd_def sw_defs)

definition ready_station :: "(bytes \<Rightarrow> bytes) \<Rightarrow> 'b crypto \<Rightarrow> pz_args \<Rightarrow> credential \<Rightarrow> 'b token \<Rightarrow> bytes \<Rightarrow> bytes \<Rightarrow> bool" where
  "ready_station H C p row t n d \<longleftrightarrow>
     selected t \<and> tstate t = BLANK \<and> \<not> generated t \<and>
     (\<exists>gen b1 b2. generate_fn C = Some gen \<and> gen (backend t) NormalSlot = (Some n, b1) \<and> gen b1 DuressSlot = (Some d, b2)) \<and>
     n \<noteq> d \<and> 32 \<le> length d \<and> length d \<le> 255 \<and> admissible (object_args p row n) \<and> hash32 H \<and> pz_sign_pq p = None \<and>
     (\<forall>x. \<exists>g. issuer_sign p x = Some g \<and> length g \<le> 200 \<and> (\<forall>vf. issuer_verify p = Some vf \<longrightarrow> vf x g))"

lemma ready_object:
  assumes "ready_station H C p row t n d"
  shows "\<exists>ob f apdu. make_object H p row n = Inr ob \<and> object_verified H p ob = Inr () \<and>
    decode ob = Inr f \<and> put_card_object ob = Some apdu"
proof -
  let ?a = "object_args p row n"
  have adm: "admissible ?a" and H: "hash32 H" and pq: "pz_sign_pq p = None"
    and signs: "\<And>x. \<exists>g. issuer_sign p x = Some g \<and> length g \<le> 200 \<and> (\<forall>vf. issuer_verify p = Some vf \<longrightarrow> vf x g)"
    using assms by (simp_all add: ready_station_def)
  have keys: "length (card_key_classical ?a) = CLASSICAL_KEY_LEN" and nopq: "card_key_pq ?a = None"
    using adm pq by (auto simp: admissible_def object_args_def)
  then have k: "\<forall>k. card_key_pq ?a = Some k \<longrightarrow> length k = PQ_KEY_LEN" by simp
  have "\<exists>ob. build_card H ?a (Some (issuer_sign p)) None = Inr ob"
  proof (rule build_card_succeeds [OF adm H])
    fix s x assume "Some (issuer_sign p) = Some s \<or> None = Some s"
    then show "\<exists>g. s x = Some g \<and> (length x = 32 \<longrightarrow> length g \<le> 0xFFFF)"
      using signs [of x] by fastforce
  qed simp
  then obtain ob where ob: "build_card H ?a (Some (issuer_sign p)) None = Inr ob" by blast
  have short: "length ob \<le> 0xFFFF"
  proof (rule built_card_small [OF ob H keys nopq])
    fix x g assume "length x = 32" "issuer_sign p x = Some g"
    then show "length g \<le> 200" using signs [of x] by auto
  qed
  obtain f where "decode ob = Inr f" by (rule built_card_decodes [OF ob H keys k])
  moreover have "\<exists>v. verify_card H ob (Some vf) None False None = Inr v \<and> authentic v" if "issuer_verify p = Some vf" for vf
  proof (rule built_card_rule [OF ob H keys k])
    fix x g assume "issuer_sign p x = Some g"
    then show "vf x g" using signs [of x] that by auto
  qed simp
  moreover have "make_object H p row n = Inr ob"
    using ob pq by (simp add: make_object_def)
  ultimately show ?thesis
    using short by (simp add: object_verified_ok put_card_object_def)
qed

lemma prepare_completes:
  assumes "ready_station H C p row t n d" "check_credential db today tid = Inr row"
  shows "\<exists>t' ob r. prepare H (transmit H C) tstate db today p tid t = (t', Inr (ob, r)) \<and>
    tstate t' = PERSONALIZED \<and> card_object t' = Some ob \<and> r_token_id r = tid \<and> r_normal r = n \<and> r_duress r = d \<and>
    (row_admissible db r \<longleftrightarrow> (\<forall>u. operator_user_id p = Some u \<longrightarrow> u \<in> app_users db))"
proof -
  have t: "selected t" "tstate t = BLANK" "\<not> generated t" and nd: "n \<noteq> d" "length d \<le> 255"
    and n: "length n \<le> 255" and H: "hash32 H"
    using assms(1) by (auto simp: ready_station_def admissible_def object_args_def CLASSICAL_KEY_LEN_def)
  obtain gen b1 b2 where gen: "generate_fn C = Some gen" "gen (backend t) NormalSlot = (Some n, b1)"
      "gen b1 DuressSlot = (Some d, b2)"
    using assms(1) by (auto simp: ready_station_def)
  obtain resp where resp: "transmit H C t generate_keypair = (t\<lparr>backend := b2, generated := True\<rparr>, resp)"
      "parse_generated_keys resp = Some (Some (n, d))"
    using transmit_generate [OF t gen n nd(2), of H] by auto
  obtain ob f apdu where ob: "make_object H p row n = Inr ob" "object_verified H p ob = Inr ()"
      "decode ob = Inr f" "put_card_object ob = Some apdu"
    using ready_object [OF assms(1)] by auto
  have "admissible (object_args p row n)" using assms(1) by (simp add: ready_station_def)
  then obtain cref where cref: "credential_ref H (c_token_value row) = Inr cref"
    using credential_ref_succeeds by (fastforce simp: admissible_def object_args_def)
  let ?t = "t\<lparr>backend := b2, generated := True\<rparr>"
  have sizes: "length cref = 32" "length (H ob) = 32" "length n = 65" "identity_tokens db tid = Some row" "32 \<le> length d"
    using credential_ref_length [OF H cref] H assms
    by (auto simp: hash32_def ready_station_def admissible_def object_args_def CLASSICAL_KEY_LEN_def check_credential_ok)
  have put: "put_object (transmit H C) ?t ob = (?t\<lparr>card_object := Some ob, tstate := PERSONALIZED\<rparr>, Inr ())"
    using transmit_put [OF ob(4), of ?t f H C] ob(3,4) t by (simp add: put_object_def)
  have "\<exists>r. issue_object H (transmit H C) p tid row ?t n d = (?t\<lparr>card_object := Some ob, tstate := PERSONALIZED\<rparr>, Inr (ob, r)) \<and>
      r_token_id r = tid \<and> r_normal r = n \<and> r_duress r = d \<and>
      (row_admissible db r \<longleftrightarrow> (\<forall>u. operator_user_id p = Some u \<longrightarrow> u \<in> app_users db))"
    using nd ob(1,2) put cref sizes
    by (auto simp: issue_object_def row_admissible_def PROFILE_VERSION_def split: option.split)
  then show ?thesis
    using assms(2) t resp by (auto simp: prepare_def)
qed

lemma personalize_appends:
  assumes "ready_station H C p row t n d" "check_credential db today tid = Inr row"
    and "\<forall>u. operator_user_id p = Some u \<longrightarrow> u \<in> app_users db"
  shows "\<exists>t' ob r. personalize H (transmit H C) tstate db today p tid t =
      (db\<lparr>card_personalizations := card_personalizations db @ [r]\<rparr>, t', Inr (ob, r)) \<and>
    tstate t' = PERSONALIZED \<and> card_object t' = Some ob \<and> r_token_id r = tid \<and> r_normal r = n \<and> r_duress r = d"
proof -
  obtain t' ob r where prep: "prepare H (transmit H C) tstate db today p tid t = (t', Inr (ob, r))"
    and rest: "tstate t' = PERSONALIZED" "card_object t' = Some ob" "r_token_id r = tid" "r_normal r = n" "r_duress r = d"
      "row_admissible db r"
    using prepare_completes [OF assms(1,2)] assms(3) by blast
  have "\<not> already_personalized db tid" using assms(2) by (simp add: check_credential_ok)
  then show ?thesis using prep rest by (simp add: personalize_def record_card_def insert_row_def)
qed

text \<open>
  C37. A ready station completes. With a blank selected card that makes two different keys (the
  normal one of the profile's length, the duress one of at least 32 bytes), an ACTIVE credential of
  admissible values with no card, an operator, if one is named, that the database knows, and an issuer
  whose signatures are short and verify, the flow returns: one row is appended,
  for this credential and with the card's two keys, and the card is personalized with the object.
\<close>

theorem personalize_completes:
  assumes "ready_station H C p row t n d" "check_credential db today tid = Inr row"
    and "\<forall>u. operator_user_id p = Some u \<longrightarrow> u \<in> app_users db"
  shows "\<exists>t' ob r. personalize H (transmit H C) tstate db today p tid t =
      (db\<lparr>card_personalizations := card_personalizations db @ [r]\<rparr>, t', Inr (ob, r)) \<and>
    tstate t' = PERSONALIZED \<and> card_object t' = Some ob \<and> r_token_id r = tid \<and> r_normal r = n \<and> r_duress r = d"
  by (rule personalize_appends [OF assms])

section \<open>Witnesses\<close>

definition sample_station :: "unit crypto" where
  "sample_station = sample_signer\<lparr>generate_fn :=
     Some (\<lambda>b s. (Some (replicate 65 (case s of NormalSlot \<Rightarrow> 1 | DuressSlot \<Rightarrow> 2)), b))\<rparr>"

definition sample_credential :: credential where
  "sample_credential =
     \<lparr>c_token_value = lit ''POLARIS-1'', c_status = lit ''ACTIVE'', c_agency = 1, c_sequence = 1, c_expiration = Some 20000\<rparr>"

definition sample_db :: database where
  "sample_db = \<lparr>identity_tokens = [7 \<mapsto> sample_credential], card_personalizations = [], app_users = {}\<rparr>"

definition sample_pz :: pz_args where
  "sample_pz = \<lparr>issuer_sign = (\<lambda>x. Some [1]), issuer_verify = Some (\<lambda>x g. g = [1]), operator_user_id = None,
     pz_expires_at = None, pz_issued_at = None, pz_sign_pq = None, pz_card_key_pq = None\<rparr>"

lemma sample_ready:
  "ready_station sample_hash sample_station sample_pz sample_credential (sample_token None) (replicate 65 1) (replicate 65 2)"
  unfolding ready_station_def
  by (simp add: sample_station_def sample_token_def sample_pz_def object_args_def sample_credential_def admissible_def
      CLASSICAL_KEY_LEN_def lit_def scalar_def hash32_def sample_hash_def issued_at_of_def)

lemma sample_checked: "check_credential sample_db 19000 7 = Inr sample_credential"
  by (simp add: check_credential_ok sample_db_def sample_credential_def already_personalized_def)

lemma sample_personalized:
  "\<exists>db' t' ob r. personalize sample_hash (transmit sample_hash sample_station) tstate sample_db 19000 sample_pz 7
      (sample_token None) = (db', t', Inr (ob, r))"
  using personalize_appends [OF sample_ready sample_checked] by (simp add: sample_pz_def) blast

theorem personalize_completes_witness:
  "\<exists>db' t' x. personalize sample_hash (transmit sample_hash sample_station) tstate sample_db 19000 sample_pz 7
      (sample_token None) = (db', t', Inr x)"
  using personalize_completes [OF sample_ready sample_checked] by (simp add: sample_pz_def) blast

theorem recorded_card_is_issued_witness:
  "\<exists>db' t' ob r. personalize sample_hash (transmit sample_hash sample_station) tstate sample_db 19000 sample_pz 7
      (sample_token None) = (db', t', Inr (ob, r)) \<and> card_object t' = Some ob \<and> r_digest r = sample_hash ob"
proof -
  obtain db' t' ob r where run: "personalize sample_hash (transmit sample_hash sample_station) tstate sample_db 19000
      sample_pz 7 (sample_token None) = (db', t', Inr (ob, r))"
    using sample_personalized by blast
  have inv: "token_inv (sample_token None)" by (rule sample_token_inv) simp
  show ?thesis using recorded_card_is_issued [OF inv run] run by blast
qed

theorem one_card_per_credential_witness:
  "\<exists>db2 r why. rows_of db2 7 = [r] \<and>
    personalize sample_hash (transmit sample_hash sample_station) tstate db2 19001 sample_pz 7 (sample_token None) =
      (db2, sample_token None, Inl (PersonalizationRefused why))"
proof -
  obtain db' t' ob r where run: "personalize sample_hash (transmit sample_hash sample_station) tstate sample_db 19000
      sample_pz 7 (sample_token None) = (db', t', Inr (ob, r))"
    using sample_personalized by blast
  show ?thesis
    using one_card_per_credential [OF run refl, of "[Insertion (ob, r), OperatorsBecome {3}, Attempt 19000 sample_pz 7 (sample_token None)]"]
    by blast
qed

theorem race_leaves_unrecorded_card_witness:
  "\<exists>t' x db2. prepare sample_hash (transmit sample_hash sample_station) tstate sample_db 19000 sample_pz 7
      (sample_token None) = (t', Inr x) \<and> record_card db2 x = (db2, Inl PzCrash) \<and> tstate t' = PERSONALIZED"
proof -
  obtain t' ob r where prep: "prepare sample_hash (transmit sample_hash sample_station) tstate sample_db 19000 sample_pz 7
      (sample_token None) = (t', Inr (ob, r))" and r: "r_token_id r = 7"
    using prepare_completes [OF sample_ready sample_checked] by blast
  have inv: "token_inv (sample_token None)" by (rule sample_token_inv) simp
  have "already_personalized (sample_db\<lparr>card_personalizations := [r]\<rparr>) 7"
    using r by (simp add: already_personalized_def)
  from race_leaves_unrecorded_card [OF inv prep this] prep show ?thesis by blast
qed

theorem refused_untouched_witness:
  "\<exists>x. personalize sample_hash (transmit sample_hash sample_station) tstate sample_db 20001 sample_pz 7 (sample_token None) =
    (sample_db, sample_token None, Inl (PersonalizationRefused x))"
proof -
  have "check_credential sample_db 20001 7 = Inl (PastExpiration 20000)"
    by (simp add: check_credential_def credential_for_def sample_db_def sample_credential_def)
  then show ?thesis by (rule refused_untouched [OF disjI1])
qed

definition sample_row :: personalization where
  "sample_row = \<lparr>r_token_id = 7, r_agency = 1, r_credential_ref = replicate 32 0, r_version = 1, r_normal = replicate 65 1,
     r_duress = replicate 65 2, r_digest = replicate 32 0, r_operator = None\<rparr>"

theorem slot_is_recognised_witness:
  "\<exists>db'. record_card sample_db ([], sample_row) = (db', Inr ([], sample_row)) \<and>
    slot_for_presentation db' (r_token_id sample_row) (\<lambda>k. k = r_duress sample_row) = Some DuressSlot"
proof -
  obtain db' where "record_card sample_db ([], sample_row) = (db', Inr ([], sample_row))"
    by (simp add: record_card_ok sample_db_def already_personalized_def row_admissible_def sample_row_def)
  then show ?thesis using slot_is_recognised [of sample_db "[]" sample_row db' "([], sample_row)" "\<lambda>k. k = r_duress sample_row"] by auto
qed

end
