(* ===== verification/StatusList.thy ===== *)
theory StatusList
  imports Base64 PyValue
begin

text \<open>
  Deciding a Token Status List token, \<open>polaris_oid4vp/status.py\<close>. Parameters: \<open>json.loads\<close> (with
  the bare constants refused) and \<open>zlib\<close>, as what one \<open>decompressobj\<close> run answers; the
  callers' \<open>authority\<close> and \<open>fetch\<close>, which may raise. The texts of the reasons are left out,
  their codes kept.
\<close>

unbundle bit_operations_syntax

section \<open>Bounded parsing\<close>

definition MAX_IAT_SKEW_SECONDS :: int where "MAX_IAT_SKEW_SECONDS = 300"
definition STATUS_LIST_TYP :: ustr where "STATUS_LIST_TYP = lit ''statuslist+jwt''"
definition MAX_DECOMPRESSED_BYTES :: nat where "MAX_DECOMPRESSED_BYTES = 8 * 1024 * 1024"
definition MAX_TOKEN_BYTES :: nat where "MAX_TOKEN_BYTES = 2 * 1024 * 1024"
definition MAX_JSON_BYTES :: nat where "MAX_JSON_BYTES = 64 * 1024"
definition MAX_PAYLOAD_JSON_BYTES :: nat where "MAX_PAYLOAD_JSON_BYTES = MAX_TOKEN_BYTES"
definition MAX_JSON_DEPTH :: int where "MAX_JSON_DEPTH = 64"

fun depth_scan :: "bool \<Rightarrow> bool \<Rightarrow> int \<Rightarrow> int \<Rightarrow> ustr \<Rightarrow> int" where
  "depth_scan in_string escaped depth deepest [] = deepest"
| "depth_scan in_string escaped depth deepest (c # s) =
     (if in_string then
        (if escaped then depth_scan True False depth deepest s
         else if c = 92 then depth_scan True True depth deepest s
         else if c = 34 then depth_scan False False depth deepest s
         else depth_scan True False depth deepest s)
      else if c = 34 then depth_scan True escaped depth deepest s
      else if c = 91 \<or> c = 123 then
        depth_scan False escaped (depth + 1) (if deepest < depth + 1 then depth + 1 else deepest) s
      else if c = 93 \<or> c = 125 then depth_scan False escaped (depth - 1) deepest s
      else depth_scan False escaped depth deepest s)"

definition nesting_depth :: "ustr \<Rightarrow> int" where
  "nesting_depth text = depth_scan False False 0 0 text"

text \<open>Every refusal here is a \<open>ValueError\<close>, and so is a decoding error; \<open>None\<close> is both.\<close>

type_synonym json_reader = "ustr \<Rightarrow> pyval option"

definition json_bounded :: "json_reader \<Rightarrow> bytes \<Rightarrow> nat \<Rightarrow> pyval option" where
  "json_bounded json_loads raw limit =
     (if limit < length raw then None
      else
        (case utf8_decode raw of None \<Rightarrow> None
         | Some text \<Rightarrow> if MAX_JSON_DEPTH < nesting_depth text then None else json_loads text))"

text \<open>\<open>_b64u\<close>, on the bytes of a token or the ASCII text of a claim.\<close>

definition b64u :: "nat list \<Rightarrow> bytes option" where
  "b64u v =
     (case a2b 0 0 0 (v @ replicate (pad4 (length v)) 61) of None \<Rightarrow> None
      | Some raw \<Rightarrow> if rstrip_eq (urlsafe_b64encode raw) = v then Some raw else None)"

definition b64u_text :: "ustr \<Rightarrow> bytes option" where
  "b64u_text s = (if ascii s then b64u s else None)"

section \<open>Inflating\<close>

text \<open>
  One run of a \<open>decompressobj\<close>: what \<open>decompress(raw, limit)\<close> returned and whether it left an
  unconsumed tail, what \<open>flush()\<close> returned, and \<open>eof\<close>; \<open>None\<close> where zlib raised.
\<close>

record zrun =
  z_out :: bytes
  z_tail :: bool
  z_flush :: "bytes option"
  z_eof :: bool

definition inflate_bounded :: "(bytes \<Rightarrow> nat \<Rightarrow> zrun option) \<Rightarrow> bytes \<Rightarrow> nat \<Rightarrow> bytes option" where
  "inflate_bounded zlib raw limit =
     (case zlib raw limit of None \<Rightarrow> None
      | Some z \<Rightarrow>
          if z_tail z then None
          else
            (case z_flush z of None \<Rightarrow> None
             | Some flushed \<Rightarrow>
                 if limit < length (z_out z @ flushed) then None
                 else if \<not> z_eof z then None else Some (z_out z @ flushed)))"

section \<open>Reading a status\<close>

text \<open>
  \<open>bits not in (1, 2, 4, 8)\<close> compares by \<open>==\<close>, so \<open>true\<close> and \<open>1.0\<close> pass for 1. A float then
  makes the byte index a float, which no bytes object can be indexed with (\<open>TypeError\<close>), or
  overflows (\<open>OverflowError\<close>); \<open>StatusCrash\<close> is both.
\<close>

datatype status_exn = StatusIndexError | StatusValueError | StatusCrash

definition bits_value :: "pyval \<Rightarrow> nat option" where
  "bits_value bits =
     (if py_eq (PInt 1) bits then Some 1 else if py_eq (PInt 2) bits then Some 2
      else if py_eq (PInt 4) bits then Some 4 else if py_eq (PInt 8) bits then Some 8 else None)"

definition status_at :: "bytes \<Rightarrow> pyval \<Rightarrow> pyval \<Rightarrow> status_exn + nat" where
  "status_at array index bits =
     (case bits_value bits of None \<Rightarrow> Inl StatusValueError
      | Some w \<Rightarrow>
          (case index of PInt n \<Rightarrow>
             if n < 0 then Inl StatusValueError
             else
               let per_byte = 8 div w; byte_index = nat n div per_byte; offset = nat n mod per_byte * w;
                   float = (case bits of PFloat _ \<Rightarrow> True | _ \<Rightarrow> False)
               in if float \<and> float_overflows n then Inl StatusCrash
                  else if length array \<le> byte_index then Inl StatusIndexError
                  else if float then Inl StatusCrash
                  else Inr (unat (drop_bit offset (array ! byte_index) AND mask w))
           | _ \<Rightarrow> Inl StatusValueError))"

section \<open>Authority\<close>

datatype basis = SameKey | Stated

type_synonym check_signature = "bytes \<Rightarrow> bytes \<Rightarrow> pydict \<Rightarrow> bool option"

type_synonym grant = "check_signature \<times> basis \<times> ustr"

text \<open>An authority answers a grant, none, or raises (\<open>None\<close>).\<close>

type_synonym authority = "ustr option \<Rightarrow> ustr \<Rightarrow> pydict option \<Rightarrow> check_signature option \<Rightarrow> grant option option"

type_synonym stated_entries = "((ustr \<times> ustr) \<times> (check_signature \<times> ustr)) list"

definition state_authority :: "stated_entries \<Rightarrow> ustr \<Rightarrow> ustr \<Rightarrow> check_signature \<Rightarrow> ustr \<Rightarrow> stated_entries option" where
  "state_authority entries iss uri verify why =
     (if iss = [] \<or> uri = [] \<or> why = [] then None
      else Some (((iss, uri), (verify, why)) # entries))"

definition stated_authority :: "stated_entries \<Rightarrow> authority" where
  "stated_authority entries iss uri header issuer_key_verify =
     (case issuer_key_verify of Some v \<Rightarrow>
        Some (Some (v, SameKey, lit ''the status list is signed by the key that signed the credential''))
      | None \<Rightarrow>
          (case iss of None \<Rightarrow> Some None
           | Some i \<Rightarrow>
               (case map_of entries (i, uri) of None \<Rightarrow> Some None
                | Some (verify, why) \<Rightarrow> Some (Some (verify, Stated, why)))))"

section \<open>Deciding\<close>

datatype status_code =
    CMalformed | CMisconfigured | CTyp | CCrit | CSub | CSubMismatch | CAuthorityError | CNoAuthority
  | CSignatureError | CSignature | CTime | CIat | CExpired | CIatFuture | CStatusList | CBits | CLst
  | CIndex | CUri | CUnreachable

datatype meaning = VALID | INVALID | SUSPENDED

definition meaning_of :: "nat \<Rightarrow> meaning option" where
  "meaning_of v = (if v = 0 then Some VALID else if v = 1 then Some INVALID else if v = 2 then Some SUSPENDED else None)"

datatype status_verdict =
    Refused status_code
  | Checked (s_status: nat) (s_meaning: "meaning option") (s_stale: bool) (s_age: int) (s_basis: basis)

datatype status_token = TokStr ustr | TokBytes bytes | TokOther

definition token_bytes :: "status_token \<Rightarrow> bytes option" where
  "token_bytes t =
     (case t of TokStr s \<Rightarrow> Some (map (\<lambda>c. if c < 0x80 then byte c else 63) s)
      | TokBytes b \<Rightarrow> Some b | TokOther \<Rightarrow> None)"

fun split_dot :: "bytes \<Rightarrow> bytes list" where
  "split_dot [] = [[]]"
| "split_dot (c # s) =
     (if c = 46 then [] # split_dot s
      else (case split_dot s of [] \<Rightarrow> [[c]] | p # ps \<Rightarrow> (c # p) # ps))"

record status_query =
  q_index :: pyval
  q_uri :: pyval
  q_issuer :: "ustr option"
  q_issuer_key :: "check_signature option"
  q_max_age :: "int option"

text \<open>The three claims about time; each is absent (\<open>null\<close> too) or an integer.\<close>

definition time_claim :: "pyval \<Rightarrow> int option option" where
  "time_claim v = (case v of PNone \<Rightarrow> Some None | PInt n \<Rightarrow> Some (Some n) | _ \<Rightarrow> None)"

definition staleness_bound :: "int option \<Rightarrow> int option \<Rightarrow> int option" where
  "staleness_bound ttl max_age =
     (case (ttl, max_age) of (None, b) \<Rightarrow> b | (Some a, None) \<Rightarrow> Some a | (Some a, Some b) \<Rightarrow> Some (min a b))"

definition decide_list ::
    "(bytes \<Rightarrow> nat \<Rightarrow> zrun option) \<Rightarrow> pydict \<Rightarrow> pyval \<Rightarrow> int \<Rightarrow> int option \<Rightarrow> basis \<Rightarrow> status_exn + status_verdict" where
  "decide_list zlib payload index age bound grounds =
     (case py_get payload ''status_list'' of
        PDict sl \<Rightarrow>
          if bits_value (py_get sl ''bits'') = None then Inr (Refused CBits)
          else
            (case py_get sl ''lst'' of
               PStr lst \<Rightarrow>
                 if lst = [] then Inr (Refused CLst)
                 else
                   (case Option.bind (b64u_text lst) (\<lambda>raw. inflate_bounded zlib raw MAX_DECOMPRESSED_BYTES) of
                      None \<Rightarrow> Inr (Refused CLst)
                    | Some array \<Rightarrow>
                        if array = [] then Inr (Refused CLst)
                        else
                          (case status_at array index (py_get sl ''bits'') of
                             Inl StatusCrash \<Rightarrow> Inl StatusCrash
                           | Inl _ \<Rightarrow> Inr (Refused CIndex)
                           | Inr v \<Rightarrow> Inr (Checked v (meaning_of v) (case bound of None \<Rightarrow> False | Some b \<Rightarrow> b < age) age grounds)))
             | _ \<Rightarrow> Inr (Refused CLst))
      | _ \<Rightarrow> Inr (Refused CStatusList))"

definition decide_fresh ::
    "(bytes \<Rightarrow> nat \<Rightarrow> zrun option) \<Rightarrow> pydict \<Rightarrow> status_query \<Rightarrow> int \<Rightarrow> basis \<Rightarrow> status_exn + status_verdict" where
  "decide_fresh zlib payload q now grounds =
     (case (time_claim (py_get payload ''iat''), time_claim (py_get payload ''exp''), time_claim (py_get payload ''ttl'')) of
        (Some iat0, Some expiry, Some ttl) \<Rightarrow>
          (case iat0 of None \<Rightarrow> Inr (Refused CIat)
           | Some iat \<Rightarrow>
               if (case expiry of None \<Rightarrow> False | Some e \<Rightarrow> e \<le> now) then Inr (Refused CExpired)
               else if now + MAX_IAT_SKEW_SECONDS < iat then Inr (Refused CIatFuture)
               else decide_list zlib payload (q_index q) (max 0 (now - iat)) (staleness_bound ttl (q_max_age q)) grounds)
      | _ \<Rightarrow> Inr (Refused CTime))"

definition decide_signed ::
    "(bytes \<Rightarrow> nat \<Rightarrow> zrun option) \<Rightarrow> authority \<Rightarrow> status_query \<Rightarrow> int \<Rightarrow> pydict \<Rightarrow> pydict \<Rightarrow> bytes \<Rightarrow> bytes
      \<Rightarrow> status_exn + status_verdict" where
  "decide_signed zlib auth q now header payload body signature =
     (if py_get header ''typ'' \<noteq> PStr STATUS_LIST_TYP then Inr (Refused CTyp)
      else if map_of header (lit ''crit'') \<noteq> None then Inr (Refused CCrit)
      else
        (case py_get payload ''sub'' of
           PStr subject \<Rightarrow>
             if subject = [] then Inr (Refused CSub)
             else if PStr subject \<noteq> q_uri q then Inr (Refused CSubMismatch)
             else
               (case auth (q_issuer q) subject (Some header) (q_issuer_key q) of
                  None \<Rightarrow> Inr (Refused CAuthorityError)
                | Some None \<Rightarrow> Inr (Refused CNoAuthority)
                | Some (Some (verify, grounds, why)) \<Rightarrow>
                    (case verify body signature header of
                       None \<Rightarrow> Inr (Refused CSignatureError)
                     | Some False \<Rightarrow> Inr (Refused CSignature)
                     | Some True \<Rightarrow> decide_fresh zlib payload q now grounds))
         | _ \<Rightarrow> Inr (Refused CSub)))"

definition parse_token :: "json_reader \<Rightarrow> bytes \<Rightarrow> bytes \<Rightarrow> bytes \<Rightarrow> (pyval \<times> pyval \<times> bytes) option" where
  "parse_token json_loads p0 p1 p2 =
     Option.bind (b64u (map unat p0)) (\<lambda>h.
     Option.bind (json_bounded json_loads h MAX_JSON_BYTES) (\<lambda>header.
     Option.bind (b64u (map unat p1)) (\<lambda>b.
     Option.bind (json_bounded json_loads b MAX_PAYLOAD_JSON_BYTES) (\<lambda>payload.
     Option.bind (b64u (map unat p2)) (\<lambda>signature. Some (header, payload, signature))))))"

definition decide_status ::
    "json_reader \<Rightarrow> (bytes \<Rightarrow> nat \<Rightarrow> zrun option) \<Rightarrow> authority \<Rightarrow> status_token \<Rightarrow> status_query \<Rightarrow> pyval
      \<Rightarrow> status_exn + status_verdict" where
  "decide_status json_loads zlib auth token q now =
     (case token_bytes token of None \<Rightarrow> Inr (Refused CMalformed)
      | Some tok \<Rightarrow>
          if tok = [] \<or> MAX_TOKEN_BYTES < length tok then Inr (Refused CMalformed)
          else
            (case now of PInt t \<Rightarrow>
               (case q_uri q of PStr uri \<Rightarrow>
                  if uri = [] then Inr (Refused CMisconfigured)
                  else
                    (case split_dot tok of
                       [p0, p1, p2] \<Rightarrow>
                         (case parse_token json_loads p0 p1 p2 of
                            Some (PDict header, PDict payload, signature) \<Rightarrow>
                              decide_signed zlib auth q t header payload (p0 @ 46 # p1) signature
                          | _ \<Rightarrow> Inr (Refused CMalformed))
                     | _ \<Rightarrow> Inr (Refused CMalformed))
                | _ \<Rightarrow> Inr (Refused CMisconfigured))
             | _ \<Rightarrow> Inr (Refused CMisconfigured)))"

section \<open>Fetching\<close>

definition decide_by_fetching ::
    "json_reader \<Rightarrow> (bytes \<Rightarrow> nat \<Rightarrow> zrun option) \<Rightarrow> authority \<Rightarrow> (ustr \<Rightarrow> status_token option) \<Rightarrow> int \<Rightarrow> status_query
      \<Rightarrow> pyval option \<Rightarrow> status_exn + status_verdict" where
  "decide_by_fetching json_loads zlib auth fetch clock q now =
     (case q_uri q of PStr uri \<Rightarrow>
        if uri = [] then Inr (Refused CUri)
        else
          (case auth (q_issuer q) uri None (q_issuer_key q) of
             None \<Rightarrow> Inr (Refused CAuthorityError)
           | Some None \<Rightarrow> Inr (Refused CNoAuthority)
           | Some (Some granted) \<Rightarrow>
               (case fetch uri of None \<Rightarrow> Inr (Refused CUnreachable)
                | Some token \<Rightarrow>
                    (case token_bytes token of None \<Rightarrow> Inr (Refused CUnreachable)
                     | Some shaped \<Rightarrow>
                         if shaped = [] \<or> length (filter (\<lambda>c. c = 46) shaped) \<noteq> 2 then Inr (Refused CUnreachable)
                         else decide_status json_loads zlib auth token q (case now of None \<Rightarrow> PInt clock | Some t \<Rightarrow> t))))
      | _ \<Rightarrow> Inr (Refused CUri))"

section \<open>Building a list\<close>

fun pack_statuses :: "nat \<Rightarrow> nat \<Rightarrow> int list \<Rightarrow> bytes \<Rightarrow> bytes option" where
  "pack_statuses w i [] array = Some array"
| "pack_statuses w i (s # statuses) array =
     (if 0 \<le> s \<and> s < 2 ^ w then
        let per_byte = 8 div w; k = i div per_byte
        in pack_statuses w (i + 1) statuses (array[k := array ! k OR push_bit (i mod per_byte * w) (of_int s)])
      else None)"

definition encode_status_list :: "(bytes \<Rightarrow> bytes) \<Rightarrow> int list \<Rightarrow> int \<Rightarrow> ustr option" where
  "encode_status_list compress statuses bits =
     (if bits \<notin> {1, 2, 4, 8} then None
      else
        let per_byte = 8 div nat bits; array_size = (length statuses + per_byte - 1) div per_byte
        in map_option (\<lambda>array. rstrip_eq (urlsafe_b64encode (compress array)))
             (pack_statuses (nat bits) 0 statuses (replicate array_size 0)))"

section \<open>Packed fields\<close>

definition field :: "nat \<Rightarrow> bytes \<Rightarrow> nat \<Rightarrow> 8 word" where
  "field w array j = drop_bit (j mod (8 div w) * w) (array ! (j div (8 div w))) AND mask w"

definition width :: "nat \<Rightarrow> bool" where
  "width w \<longleftrightarrow> w = 1 \<or> w = 2 \<or> w = 4 \<or> w = 8"

lemma width_bounds: "width w \<Longrightarrow> 0 < w \<and> w \<le> 8 \<and> 0 < 8 div w \<and> 8 div w * w = 8"
  by (auto simp: width_def)

lemma same_slot:
  fixes i j n w :: nat
  assumes "i * w \<le> j * w + n" "n < w" "j * w + n - i * w < w"
  shows "i = j"
proof -
  have "j * w < Suc i * w" "i * w < Suc j * w" using assms by simp_all
  then have "j < Suc i" "i < Suc j" by (simp_all only: mult_less_cancel2)
  then show ?thesis by simp
qed

lemma field_update:
  assumes "width w" "i div (8 div w) < length array" "take_bit w x = x"
  shows "field w (array[i div (8 div w) := array ! (i div (8 div w)) OR push_bit (i mod (8 div w) * w) x]) j =
    (if j = i then field w array i OR x else field w array j)"
proof (cases "j div (8 div w) = i div (8 div w)")
  case False
  then show ?thesis by (auto simp: field_def)
next
  case True
  let ?per = "8 div w"
  have w: "0 < w" "w \<le> 8" "0 < ?per" "?per * w = 8" using width_bounds [OF assms(1)] by auto
  have bx: "bit x n \<Longrightarrow> n < w" for n using assms(3) by (metis bit_take_bit_iff)
  have off: "k mod ?per * w + n < 8" if "n < w" for k n
  proof -
    have "k mod ?per + 1 \<le> ?per" using w(3) by (simp add: Suc_le_eq)
    then have "(k mod ?per + 1) * w \<le> 8" using w(4) by (metis mult_le_mono1)
    then show ?thesis using that by simp
  qed
  have slot: "i mod ?per = j mod ?per \<longleftrightarrow> i = j" using True by (metis div_mult_mod_eq)
  show ?thesis
  proof (rule bit_word_eqI)
    fix n assume "n < LENGTH(8)"
    show "bit (field w (array[i div ?per := array ! (i div ?per) OR push_bit (i mod ?per * w) x]) j) n =
        bit (if j = i then field w array i OR x else field w array j) n"
    proof (cases "n < w")
      case n: True
      have "bit (push_bit (i mod ?per * w) x) (j mod ?per * w + n) \<longleftrightarrow> j = i \<and> bit x n"
        using off [OF n, of j] same_slot [OF _ n, of "i mod ?per" "j mod ?per"] bx slot
        by (auto simp: bit_push_bit_iff)
      then show ?thesis
        using n True assms(2) by (auto simp: field_def bit_simps)
    next
      case False
      then show ?thesis using bx by (auto simp: field_def bit_simps)
    qed
  qed
qed

lemma status_fits: "0 \<le> s \<Longrightarrow> s < 2 ^ w \<Longrightarrow> width w \<Longrightarrow> take_bit w (of_int s :: 8 word) = of_int s \<and> unat (of_int s :: 8 word) = nat s"
proof -
  assume s: "0 \<le> s" "s < 2 ^ w" "width w"
  have "(2 :: int) ^ w \<le> 2 ^ 8" using width_bounds [OF s(3)] by (intro power_increasing) auto
  then have "s < 256" using s(2) by simp
  then have "unat (of_int s :: 8 word) = nat s" using s(1)
    by (metis (no_types, lifting) int_nat_eq nat_less_numeral_power_cancel_iff of_int_of_nat_eq of_nat_less_iff
        of_nat_numeral unat_byte_fits byte_def nat_less_iff)
  moreover have "take_bit w (of_int s :: 8 word) = of_int s"
    using s(1,2) by (metis of_int_take_bit take_bit_int_eq_self_iff take_bit_of_int width_bounds s(3))
  ultimately show ?thesis by simp
qed

lemma pack_fields:
  assumes "width w"
  shows "pack_statuses w i ss array = Some array' \<Longrightarrow> i + length ss \<le> (8 div w) * length array \<Longrightarrow>
    (\<And>j. i \<le> j \<Longrightarrow> j < i + length ss \<Longrightarrow> field w array j = 0) \<Longrightarrow>
    length array' = length array \<and> (\<forall>s \<in> set ss. 0 \<le> s \<and> s < 2 ^ w) \<and> (\<forall>j < i. field w array' j = field w array j) \<and>
    (\<forall>k < length ss. field w array' (i + k) = of_int (ss ! k))"
proof (induction ss arbitrary: i array)
  case (Cons s ss)
  let ?k = "i div (8 div w)" and ?x = "of_int s :: 8 word"
  let ?next = "array[?k := array ! ?k OR push_bit (i mod (8 div w) * w) ?x]"
  have s: "0 \<le> s" "s < 2 ^ w" and rest: "pack_statuses w (i + 1) ss ?next = Some array'"
    using Cons.prems(1) by (auto simp: Let_def split: if_splits)
  have "i < (8 div w) * length array" using Cons.prems(2) by simp
  then have k: "?k < length array" by (simp add: less_mult_imp_div_less mult.commute)
  note upd = field_update [OF assms k, of ?x] status_fits [OF s assms]
  have zero: "field w array i = 0" using Cons.prems(3) by simp
  have IH: "length array' = length ?next \<and> (\<forall>s \<in> set ss. 0 \<le> s \<and> s < 2 ^ w) \<and>
      (\<forall>j < i + 1. field w array' j = field w ?next j) \<and> (\<forall>k < length ss. field w array' (i + 1 + k) = of_int (ss ! k))"
    using Cons.prems(2,3) upd by (intro Cons.IH [OF rest]) auto
  have "field w array' (i + k) = of_int ((s # ss) ! k)" if "k < length (s # ss)" for k
    using IH upd zero that by (cases k) auto
  then show ?case using IH s upd by auto
qed simp

lemma pack_total: "width w \<Longrightarrow> (\<forall>s \<in> set ss. 0 \<le> s \<and> s < 2 ^ w) \<Longrightarrow> \<exists>array'. pack_statuses w i ss array = Some array'"
  by (induction ss arbitrary: i array) (auto simp: Let_def)

lemma bits_value_int: "width w \<Longrightarrow> bits_value (PInt (int w)) = Some w"
  by (auto simp: width_def bits_value_def num_value_def)

lemma status_at_field:
  assumes "width w" "i div (8 div w) < length array"
  shows "status_at array (PInt (int i)) (PInt (int w)) = Inr (unat (field w array i))"
  using assms by (simp add: status_at_def bits_value_int Let_def field_def)

lemma b64u_b64: "b64u (b64 raw) = Some raw"
  using unb64_b64 [of raw] ascii_b64 [of raw]
  by (auto simp: b64u_def unb64_def urlsafe_b64decode_def b64_def [symmetric] split: if_splits)

text \<open>What is documented of \<open>zlib.compress\<close> and \<open>decompressobj\<close> and used of them.\<close>

definition zlib_inverts :: "(bytes \<Rightarrow> bytes) \<Rightarrow> (bytes \<Rightarrow> nat \<Rightarrow> zrun option) \<Rightarrow> bool" where
  "zlib_inverts compress zlib \<longleftrightarrow>
     (\<forall>raw limit. length raw \<le> limit \<longrightarrow>
        zlib (compress raw) limit = Some \<lparr>z_out = raw, z_tail = False, z_flush = Some [], z_eof = True\<rparr>)"

lemma packed_size:
  fixes n per :: nat
  assumes "0 < per"
  shows "n \<le> per * ((n + per - 1) div per)" "(n + per - 1) div per \<le> n"
proof -
  have "n + per - 1 = per * ((n + per - 1) div per) + (n + per - 1) mod per" by simp
  moreover have "(n + per - 1) mod per < per" using assms by simp
  ultimately show "n \<le> per * ((n + per - 1) div per)" by linarith
  show "(n + per - 1) div per \<le> n"
  proof (cases "n = 0")
    case False
    then have "n + per - 1 < per * (n + 1)" using assms by (cases per) auto
    then have "(n + per - 1) div per < n + 1" using assms by (metis less_mult_imp_div_less mult.commute)
    then show ?thesis by simp
  qed (use assms in simp)
qed

text \<open>
  C40. What is packed is what is read. A status list built from statuses that fit their width
  (1, 2, 4 or 8 bits), of at most \<open>MAX_DECOMPRESSED_BYTES\<close> statuses, passes the canonical
  base64url check and the bounded inflation, and every index in it reads back its own status.
\<close>

theorem status_list_round_trip:
  assumes "bits \<in> {1, 2, 4, 8}" "\<forall>s \<in> set statuses. 0 \<le> s \<and> s < 2 ^ nat bits" "length statuses \<le> MAX_DECOMPRESSED_BYTES"
    and "zlib_inverts compress zlib"
  shows "\<exists>lst array. encode_status_list compress statuses bits = Some lst \<and>
    Option.bind (b64u_text lst) (\<lambda>raw. inflate_bounded zlib raw MAX_DECOMPRESSED_BYTES) = Some array \<and>
    (\<forall>i < length statuses. status_at array (PInt (int i)) (PInt bits) = Inr (nat (statuses ! i)))"
proof -
  let ?w = "nat bits" and ?n = "length statuses"
  let ?per = "8 div ?w"
  let ?size = "(?n + ?per - 1) div ?per"
  have w: "width ?w" and bits: "bits = int ?w" using assms(1) by (auto simp: width_def)
  have per: "0 < ?per" using width_bounds [OF w] by simp
  obtain array where array: "pack_statuses ?w 0 statuses (replicate ?size 0) = Some array"
    using pack_total [OF w assms(2)] by blast
  have "field ?w (replicate ?size 0) j = 0" if "j < ?n" for j
  proof -
    have "j div ?per < ?size"
      using that packed_size(1) [OF per, of ?n] by (metis less_mult_imp_div_less mult.commute order_less_le_trans)
    then show ?thesis by (simp add: field_def)
  qed
  then have fields: "length array = ?size \<and> (\<forall>k < ?n. field ?w array k = of_int (statuses ! k))"
    using pack_fields [OF w array] packed_size(1) [OF per, of ?n] by simp
  have read: "status_at array (PInt (int i)) (PInt bits) = Inr (nat (statuses ! i))" if "i < ?n" for i
  proof -
    have "i div ?per < length array"
      using that fields packed_size(1) [OF per, of ?n] by (metis less_mult_imp_div_less mult.commute order_less_le_trans)
    then have "status_at array (PInt (int i)) (PInt bits) = Inr (unat (field ?w array i))"
      by (subst bits) (rule status_at_field [OF w])
    moreover have "unat (of_int (statuses ! i) :: 8 word) = nat (statuses ! i)"
      using assms(2) that w by (intro status_fits [THEN conjunct2]) auto
    ultimately show ?thesis using fields that by simp
  qed
  have "length array \<le> MAX_DECOMPRESSED_BYTES"
    using fields packed_size(2) [OF per, of ?n] assms(3) by linarith
  then have "inflate_bounded zlib (compress array) MAX_DECOMPRESSED_BYTES = Some array"
    using assms(4) by (simp add: inflate_bounded_def zlib_inverts_def)
  moreover have "encode_status_list compress statuses bits = Some (b64 (compress array))"
    using assms(1) array by (auto simp: encode_status_list_def b64_def Let_def)
  moreover have "b64u_text (b64 (compress array)) = Some (compress array)"
    using ascii_b64 by (simp add: b64u_text_def b64u_b64)
  ultimately show ?thesis using read by auto
qed

theorem status_list_round_trip_witness:
  "\<exists>zlib lst array. encode_status_list (\<lambda>raw. raw) [1, 0, 2] 2 = Some lst \<and>
    Option.bind (b64u_text lst) (\<lambda>raw. inflate_bounded zlib raw MAX_DECOMPRESSED_BYTES) = Some array \<and>
    status_at array (PInt 2) (PInt 2) = Inr 2"
proof -
  define zlib where "zlib = (\<lambda>raw (limit :: nat). if length raw \<le> limit
    then Some \<lparr>z_out = raw, z_tail = False, z_flush = Some [], z_eof = True\<rparr> else None)"
  have "zlib_inverts (\<lambda>raw. raw) zlib" by (simp add: zlib_inverts_def zlib_def)
  then obtain lst array where "encode_status_list (\<lambda>raw. raw) [1, 0, 2] 2 = Some lst"
      "Option.bind (b64u_text lst) (\<lambda>raw. inflate_bounded zlib raw MAX_DECOMPRESSED_BYTES) = Some array"
    and read: "\<forall>i < length [1, 0, 2 :: int]. status_at array (PInt (int i)) (PInt 2) = Inr (nat ([1, 0, 2] ! i))"
    using status_list_round_trip [of 2 "[1, 0, 2]" "\<lambda>raw. raw" zlib] by (auto simp: MAX_DECOMPRESSED_BYTES_def)
  moreover have "status_at array (PInt 2) (PInt 2) = Inr 2"
    using read [rule_format, of 2] by simp
  ultimately show ?thesis by blast
qed

section \<open>What a checked status rests on\<close>

text \<open>
  The specification: a token of three parts that parse, of the status list type and with no
  critical extension, bound to the credential's own URI, signed under a key entitled to publish
  for the issuer, in its time, whose list covers the index and says so.
\<close>

definition listed :: "(bytes \<Rightarrow> nat \<Rightarrow> zrun option) \<Rightarrow> pydict \<Rightarrow> pyval \<Rightarrow> nat \<Rightarrow> bool" where
  "listed zlib payload index v \<longleftrightarrow>
     (\<exists>sl lst raw array. py_get payload ''status_list'' = PDict sl \<and> py_get sl ''lst'' = PStr lst \<and> lst \<noteq> [] \<and>
        b64u_text lst = Some raw \<and> inflate_bounded zlib raw MAX_DECOMPRESSED_BYTES = Some array \<and> array \<noteq> [] \<and>
        status_at array index (py_get sl ''bits'') = Inr v)"

definition in_time :: "pydict \<Rightarrow> int \<Rightarrow> int option \<Rightarrow> int \<Rightarrow> bool \<Rightarrow> bool" where
  "in_time payload now max_age age stale \<longleftrightarrow>
     (\<exists>iat expiry ttl. py_get payload ''iat'' = PInt iat \<and> time_claim (py_get payload ''exp'') = Some expiry \<and>
        time_claim (py_get payload ''ttl'') = Some ttl \<and> (\<forall>e. expiry = Some e \<longrightarrow> now < e) \<and>
        iat \<le> now + MAX_IAT_SKEW_SECONDS \<and> age = max 0 (now - iat) \<and>
        (stale \<longleftrightarrow> (\<exists>b. staleness_bound ttl max_age = Some b \<and> b < age)))"

definition entitled :: "authority \<Rightarrow> status_query \<Rightarrow> pydict \<Rightarrow> ustr \<Rightarrow> bytes \<Rightarrow> bytes \<Rightarrow> basis \<Rightarrow> bool" where
  "entitled auth q header uri body signature grounds \<longleftrightarrow>
     (\<exists>verify why. auth (q_issuer q) uri (Some header) (q_issuer_key q) = Some (Some (verify, grounds, why)) \<and>
        verify body signature header = Some True)"

lemma bits_value_needed: "status_at array index bits = Inr v \<Longrightarrow> bits_value bits \<noteq> None"
  by (auto simp: status_at_def split: option.splits)

lemma decide_list_checked:
  "decide_list zlib payload index age bound grounds = Inr (Checked v m stale a g) \<longleftrightarrow>
    listed zlib payload index v \<and> m = meaning_of v \<and> stale = (\<exists>b. bound = Some b \<and> b < age) \<and> a = age \<and> g = grounds"
  unfolding decide_list_def listed_def
  by (auto simp: bits_value_needed bind_eq_Some_conv split: pyval.splits option.splits if_splits sum.splits status_exn.splits
      dest: bits_value_needed)

lemma time_claim_iff: "time_claim v = Some (Some n) \<longleftrightarrow> v = PInt n" "time_claim v = Some None \<longleftrightarrow> v = PNone"
  by (auto simp: time_claim_def split: pyval.splits)

lemma decide_fresh_checked:
  "decide_fresh zlib payload q now grounds = Inr (Checked v m stale age g) \<longleftrightarrow>
    in_time payload now (q_max_age q) age stale \<and> listed zlib payload (q_index q) v \<and> m = meaning_of v \<and> g = grounds"
  unfolding decide_fresh_def in_time_def
  by (auto simp: decide_list_checked time_claim_iff [symmetric] not_le not_less split: option.splits if_splits)

lemma decide_signed_checked:
  "decide_signed zlib auth q now header payload body signature = Inr (Checked v m stale age g) \<longleftrightarrow>
    py_get header ''typ'' = PStr STATUS_LIST_TYP \<and> map_of header (lit ''crit'') = None \<and>
    (\<exists>uri. uri \<noteq> [] \<and> py_get payload ''sub'' = PStr uri \<and> q_uri q = PStr uri \<and> entitled auth q header uri body signature g) \<and>
    in_time payload now (q_max_age q) age stale \<and> listed zlib payload (q_index q) v \<and> m = meaning_of v"
  unfolding decide_signed_def entitled_def
  by (auto simp: decide_fresh_checked split: pyval.splits option.splits if_splits bool.splits)

definition published ::
    "json_reader \<Rightarrow> (bytes \<Rightarrow> nat \<Rightarrow> zrun option) \<Rightarrow> authority \<Rightarrow> status_token \<Rightarrow> status_query \<Rightarrow> pyval
      \<Rightarrow> nat \<Rightarrow> bool \<Rightarrow> int \<Rightarrow> basis \<Rightarrow> bool" where
  "published json_loads zlib auth token q now v stale age g \<longleftrightarrow>
     (\<exists>tok p0 p1 p2 header payload signature uri t.
        token_bytes token = Some tok \<and> tok \<noteq> [] \<and> length tok \<le> MAX_TOKEN_BYTES \<and> split_dot tok = [p0, p1, p2] \<and>
        parse_token json_loads p0 p1 p2 = Some (PDict header, PDict payload, signature) \<and>
        py_get header ''typ'' = PStr STATUS_LIST_TYP \<and> map_of header (lit ''crit'') = None \<and>
        uri \<noteq> [] \<and> q_uri q = PStr uri \<and> py_get payload ''sub'' = PStr uri \<and>
        entitled auth q header uri (p0 @ 46 # p1) signature g \<and>
        now = PInt t \<and> in_time payload t (q_max_age q) age stale \<and> listed zlib payload (q_index q) v)"

lemma decide_status_checked:
  "decide_status json_loads zlib auth token q now = Inr (Checked v m stale age g) \<longleftrightarrow>
    published json_loads zlib auth token q now v stale age g \<and> m = meaning_of v"
proof -
  have split: "decide_status json_loads zlib auth token q now = Inr (Checked v m stale age g) \<longleftrightarrow>
      (\<exists>tok p0 p1 p2 header payload signature uri t.
        token_bytes token = Some tok \<and> tok \<noteq> [] \<and> length tok \<le> MAX_TOKEN_BYTES \<and> split_dot tok = [p0, p1, p2] \<and>
        parse_token json_loads p0 p1 p2 = Some (PDict header, PDict payload, signature) \<and>
        uri \<noteq> [] \<and> q_uri q = PStr uri \<and> now = PInt t \<and>
        decide_signed zlib auth q t header payload (p0 @ 46 # p1) signature = Inr (Checked v m stale age g))"
    unfolding decide_status_def by (auto simp: not_less split: option.splits if_splits pyval.splits list.splits prod.splits)
  show ?thesis unfolding split decide_signed_checked published_def by auto
qed

text \<open>
  C39. A status is checked exactly when it was published. \<open>decide\<close> reports a status if and only if
  the token parses within its bounds, is a status list token with no critical extension, its
  \<open>sub\<close> is the URI the credential names, the authority granted a key for this issuer and URI and
  the signature verifies under it, the token is in its time (\<open>exp\<close> not reached, \<open>iat\<close> at most
  300 seconds ahead), and the list, inflated within its bound, covers the index and has that
  value; the age, the staleness and the basis are the ones reported.
\<close>

theorem checked_iff_published:
  "decide_status json_loads zlib auth token q now = Inr (Checked v m stale age g) \<longleftrightarrow>
    published json_loads zlib auth token q now v stale age g \<and> m = meaning_of v"
  by (rule decide_status_checked)

text \<open>
  No answer is never an answer. A status obtained by fetching is one \<open>decide\<close> checked on the
  token fetched from the credential's URI, after an authority was granted; when the fetch fails
  or nobody is entitled, the verdict is a refusal, and in the second case it does not depend on
  what a fetch would have returned.
\<close>

theorem fetching_fails_closed:
  "decide_by_fetching json_loads zlib auth fetch clock q now = Inr (Checked v m stale age g) \<Longrightarrow>
    \<exists>uri granted token t. q_uri q = PStr uri \<and> auth (q_issuer q) uri None (q_issuer_key q) = Some (Some granted) \<and>
      fetch uri = Some token \<and> t = (case now of None \<Rightarrow> PInt clock | Some t \<Rightarrow> t) \<and>
      published json_loads zlib auth token q t v stale age g \<and> m = meaning_of v"
  unfolding decide_by_fetching_def
  by (auto simp: decide_status_checked split: pyval.splits option.splits if_splits)

text \<open>
  A signed list can crash the verifier. When the signed list says \<open>"bits": 1.0\<close>, which is
  \<open>==\<close> to 1, everything passes up to the byte, which is then indexed with a float: \<open>decide\<close> raises
  where the same list with \<open>"bits": 1\<close> gives a status. (Its first line says it is total on
  hostile input.)
\<close>

theorem float_bits_crash:
  assumes "decide_list zlib ((lit ''status_list'', PDict [(lit ''bits'', PInt 1), (lit ''lst'', lst)]) # claims) (PInt n) age bound g =
    Inr (Checked v m stale a g')"
  shows "decide_list zlib ((lit ''status_list'', PDict [(lit ''bits'', PFloat (FNum 1)), (lit ''lst'', lst)]) # claims) (PInt n) age bound g =
    Inl StatusCrash"
proof -
  have b: "bits_value (PInt 1) = Some 1" "bits_value (PFloat (FNum 1)) = Some 1"
    by (simp_all add: bits_value_def num_value_def)
  obtain chars raw array where "lst = PStr chars" "chars \<noteq> []" "b64u_text chars = Some raw"
    "inflate_bounded zlib raw MAX_DECOMPRESSED_BYTES = Some array" "array \<noteq> []" and s: "status_at array (PInt n) (PInt 1) = Inr v"
    using assms(1) by (auto simp: decide_list_checked listed_def)
  moreover have "status_at array (PInt n) (PFloat (FNum 1)) = Inl StatusCrash"
    using s b by (auto simp: status_at_def Let_def split: if_splits)
  ultimately show ?thesis using b by (simp add: decide_list_def)
qed

section \<open>Witnesses\<close>

definition sample_json :: json_reader where
  "sample_json text =
     (if text = [104] then Some (PDict [(lit ''typ'', PStr STATUS_LIST_TYP)])
      else Some (PDict [(lit ''status_list'', PDict [(lit ''bits'', PInt 1), (lit ''lst'', PStr (lit ''Ag''))]),
        (lit ''sub'', PStr (lit ''u'')), (lit ''iat'', PInt 10)]))"

definition sample_zlib :: "bytes \<Rightarrow> nat \<Rightarrow> zrun option" where
  "sample_zlib raw limit = Some \<lparr>z_out = raw, z_tail = False, z_flush = Some [], z_eof = True\<rparr>"

definition sample_authority :: authority where
  "sample_authority = stated_authority [((lit ''i'', lit ''u''), (\<lambda>b s h. Some True, lit ''w''))]"

definition sample_query :: status_query where
  "sample_query = \<lparr>q_index = PInt 1, q_uri = PStr (lit ''u''), q_issuer = Some (lit ''i''), q_issuer_key = None, q_max_age = None\<rparr>"

lemma sample_list: "decide_list sample_zlib [(lit ''status_list'', PDict [(lit ''bits'', PInt 1), (lit ''lst'', PStr (lit ''Ag''))]),
    (lit ''sub'', PStr (lit ''u'')), (lit ''iat'', PInt 10)] (PInt 1) 0 None Stated = Inr (Checked 1 (Some INVALID) False 0 Stated)"
proof -
  have "b64u_text (lit ''Ag'') = Some [2]"
    by (simp add: b64u_text_def b64u_def lit_def ascii_def pad4_def b64_value_def byte_def urlsafe_b64encode_def
        rstrip_eq_def b64_char_def replicate_two)
  moreover have "status_at [2] (PInt 1) (PInt 1) = Inr 1"
    by (simp add: status_at_def bits_value_def num_value_def Let_def)
  moreover have "bits_value (PInt 1) = Some 1" by (simp add: bits_value_def num_value_def)
  ultimately show ?thesis
    by (simp add: decide_list_def inflate_bounded_def sample_zlib_def MAX_DECOMPRESSED_BYTES_def meaning_of_def)
qed

theorem fetching_fails_closed_witness:
  "\<exists>v stale age g t. published sample_json sample_zlib sample_authority (TokStr (lit ''aA.cA.'')) sample_query t v stale age g"
proof -
  have parts: "b64u [97, 65] = Some [104]" "b64u [99, 65] = Some [112]" "b64u [] = Some []"
    by (simp_all add: b64u_def pad4_def b64_value_def byte_def urlsafe_b64encode_def rstrip_eq_def b64_char_def replicate_two)
  have "parse_token sample_json [97, 65] [99, 65] [] = Some (the (sample_json [104]), the (sample_json [112]), [])"
    using parts utf8_decode_ascii [of "[104]"] utf8_decode_ascii [of "[112]"] by (simp add: ascii_def byte_def parse_token_def json_bounded_def MAX_JSON_BYTES_def MAX_PAYLOAD_JSON_BYTES_def MAX_TOKEN_BYTES_def
        MAX_JSON_DEPTH_def nesting_depth_def sample_json_def)
  then have "decide_by_fetching sample_json sample_zlib sample_authority (\<lambda>uri. Some (TokStr (lit ''aA.cA.''))) 10 sample_query None =
      Inr (Checked 1 (Some INVALID) False 0 Stated)"
    using sample_list
    by (simp add: decide_by_fetching_def sample_query_def sample_authority_def stated_authority_def token_bytes_def lit_def byte_def
        decide_status_def MAX_TOKEN_BYTES_def decide_signed_def sample_json_def decide_fresh_def time_claim_def
        MAX_IAT_SKEW_SECONDS_def staleness_bound_def)
  from fetching_fails_closed [OF this] show ?thesis by blast
qed

theorem float_bits_crash_witness:
  "decide_list sample_zlib [(lit ''status_list'', PDict [(lit ''bits'', PFloat (FNum 1)), (lit ''lst'', PStr (lit ''Ag''))]),
    (lit ''sub'', PStr (lit ''u'')), (lit ''iat'', PInt 10)] (PInt 1) 0 None Stated = Inl StatusCrash"
  by (rule float_bits_crash [OF sample_list])

end
