(* ===== verification/CanonicalJson.thy ===== *)
theory CanonicalJson
  imports PyValue "HOL-Library.List_Lexorder"
begin

text \<open>
  The canonical JSON every signed artifact is signed over: \<open>_canonical_json\<close> of
  \<open>polaris_verify_cli/verifier.py\<close>, that is \<open>json.dumps\<close> with sorted keys, compact separators,
  ASCII escapes and no NaN. The text of a finite float, \<open>float.__repr__\<close>, is the parameter
  \<open>F\<close>. The theory shows the text determines the value: nothing else has the same signed bytes.
\<close>

section \<open>Strings\<close>

definition hex4 :: "nat \<Rightarrow> ustr" where
  "hex4 n = [nibble_char (n div 4096 mod 16), nibble_char (n div 256 mod 16), nibble_char (n div 16 mod 16),
     nibble_char (n mod 16)]"

text \<open>A character past the basic plane is written as its surrogate pair.\<close>

definition utf16_units :: "nat \<Rightarrow> nat list" where
  "utf16_units c =
     (if c < 0x10000 then [c]
      else [0xD800 + (c - 0x10000) div 0x400, 0xDC00 + (c - 0x10000) mod 0x400])"

definition esc_unit :: "nat \<Rightarrow> ustr" where
  "esc_unit u =
     (if u = 34 then [92, 34] else if u = 92 then [92, 92]
      else if u = 10 then [92, 110] else if u = 13 then [92, 114] else if u = 9 then [92, 116]
      else if u = 12 then [92, 102] else if u = 8 then [92, 98]
      else if 32 \<le> u \<and> u \<le> 126 then [u]
      else [92, 117] @ hex4 u)"

definition json_string :: "ustr \<Rightarrow> ustr" where
  "json_string s = 34 # concat (map esc_unit (concat (map utf16_units s))) @ [34]"

section \<open>Values\<close>

fun join_comma :: "ustr list \<Rightarrow> ustr" where
  "join_comma [] = []"
| "join_comma [x] = x"
| "join_comma (x # y # r) = x @ 44 # join_comma (y # r)"

text \<open>What \<open>allow_nan=False\<close> and the digit limit of \<open>int.__repr__\<close> refuse with a \<open>ValueError\<close>.\<close>

fun json_ok :: "pyval \<Rightarrow> bool" where
  "json_ok (PInt n) = (length (nat_digits (nat \<bar>n\<bar>)) \<le> 4300)"
| "json_ok (PFloat f) = (f \<noteq> FNaN \<and> (\<forall>b. f \<noteq> FInf b))"
| "json_ok (PList xs) = list_all json_ok xs"
| "json_ok (PDict d) = list_all (\<lambda>(k, v). json_ok v) d"
| "json_ok _ = True"

function json_raw :: "(pyfloat \<Rightarrow> ustr) \<Rightarrow> pyval \<Rightarrow> ustr" where
  "json_raw F PNone = lit ''null''"
| "json_raw F (PBool b) = (if b then lit ''true'' else lit ''false'')"
| "json_raw F (PInt n) = int_str n"
| "json_raw F (PFloat f) = F f"
| "json_raw F (PStr s) = json_string s"
| "json_raw F (PList xs) = 91 # join_comma (map (json_raw F) xs) @ [93]"
| "json_raw F (PDict d) =
     123 # join_comma (map (\<lambda>(k, v). json_string k @ 58 # json_raw F v) (sort_key fst d)) @ [125]"
  by pat_completeness auto
termination
proof (relation "measure (\<lambda>(F, v). size v)")
  fix F :: "pyfloat \<Rightarrow> ustr" and xs :: "pyval list" and z
  assume "z \<in> set xs"
  then have "size z < size (PList xs)" by (induction xs) auto
  then show "((F, z), F, PList xs) \<in> measure (\<lambda>(F, v). size v)" by simp
next
  fix F :: "pyfloat \<Rightarrow> ustr" and d :: pydict and p x y
  assume "p \<in> set (sort_key fst d)" "(x, y) = p"
  then have "(x, y) \<in> set d" by simp
  then have "size y < size (PDict d)" by (induction d) auto
  then show "((F, y), F, PDict d) \<in> measure (\<lambda>(F, v). size v)" by simp
qed simp

text \<open>\<open>_canonical_json\<close>; \<open>None\<close> is its \<open>ValueError\<close>, which \<open>_canonical_or_none\<close> turns into \<open>None\<close>.\<close>

definition canonical_json :: "(pyfloat \<Rightarrow> ustr) \<Rightarrow> pyval \<Rightarrow> bytes option" where
  "canonical_json F v = (if json_ok v then Some (map byte (json_raw F v)) else None)"

text \<open>\<open>{k: obj.get(k) for k in names}\<close>: the statement of an artifact.\<close>

definition statement :: "string list \<Rightarrow> pydict \<Rightarrow> pyval" where
  "statement names d = PDict (map (\<lambda>k. (lit k, py_get d k)) names)"

section \<open>Strings read back\<close>

fun hex4_value :: "ustr \<Rightarrow> (nat \<times> ustr) option" where
  "hex4_value (a # b # d # e # r) =
     Some (the (hex_digit a) * 4096 + the (hex_digit b) * 256 + the (hex_digit d) * 16 + the (hex_digit e), r)"
| "hex4_value _ = None"

definition next_unit :: "ustr \<Rightarrow> (nat \<times> ustr) option" where
  "next_unit s =
     (case s of [] \<Rightarrow> None
      | c # r \<Rightarrow>
          if c \<noteq> 92 then Some (c, r)
          else (case r of [] \<Rightarrow> None
                | e # r2 \<Rightarrow>
                    (case map_of [(34, 34), (92, 92), (110, 10), (114, 13), (116, 9), (102, 12), (98, 8)] e of
                       Some u \<Rightarrow> Some (u, r2) | None \<Rightarrow> hex4_value r2)))"

lemma hex4_value_hex4: "u < 0x10000 \<Longrightarrow> hex4_value (hex4 u @ r) = Some (u, r)"
proof -
  assume u: "u < 0x10000"
  have "u = u div 16 * 16 + u mod 16" by simp
  moreover have "u div 16 = u div 256 * 16 + u div 16 mod 16"
    using div_mult_mod_eq [of "u div 16" 16] by (simp add: div_mult2_eq [symmetric])
  moreover have "u div 256 = u div 4096 * 16 + u div 256 mod 16"
    using div_mult_mod_eq [of "u div 256" 16] by (simp add: div_mult2_eq [symmetric])
  ultimately have "u div 4096 * 4096 + u div 256 mod 16 * 256 + u div 16 mod 16 * 16 + u mod 16 = u"
    by linarith
  moreover have "u div 4096 < 16"
    using u by (simp add: less_mult_imp_div_less)
  ultimately show ?thesis by (simp add: hex4_def hex_digit_nibble)
qed

lemma next_unit_esc: "u < 0x10000 \<Longrightarrow> next_unit (esc_unit u @ r) = Some (u, r)"
  using hex4_value_hex4 [of u r] by (simp add: esc_unit_def next_unit_def)

lemma esc_unit_head: "esc_unit u = c # s \<Longrightarrow> c \<noteq> 34"
  by (auto simp: esc_unit_def split: if_splits)

lemma esc_unit_not_Nil: "esc_unit u \<noteq> []"
  by (simp add: esc_unit_def)

lemma esc_units_inject:
  assumes "\<forall>u \<in> set us. u < 0x10000" "\<forall>v \<in> set vs. v < 0x10000"
    and "concat (map esc_unit us) @ 34 # r = concat (map esc_unit vs) @ 34 # r'"
  shows "us = vs \<and> r = r'"
  using assms
proof (induction us arbitrary: vs)
  case Nil
  then show ?case
    using esc_unit_head by (cases vs; cases "esc_unit (hd vs)") (fastforce simp: esc_unit_not_Nil)+
next
  case (Cons u us)
  show ?case
  proof (cases vs)
    case Nil
    then show ?thesis
      using Cons.prems(3) esc_unit_head by (cases "esc_unit u") (auto simp: esc_unit_not_Nil)
  next
    case (Cons v vs')
    let ?x = "concat (map esc_unit us) @ 34 # r" and ?y = "concat (map esc_unit vs') @ 34 # r'"
    have "esc_unit u @ ?x = esc_unit v @ ?y" using Cons.prems(3) Cons by simp
    then have "next_unit (esc_unit u @ ?x) = next_unit (esc_unit v @ ?y)" by simp
    then have "u = v" "?x = ?y"
      using Cons.prems(1,2) Cons by (simp_all add: next_unit_esc)
    with Cons.IH [of vs'] Cons.prems(1,2) Cons show ?thesis by simp
  qed
qed

text \<open>
  Strings with no high surrogate directly before a low one: what \<open>json.loads\<close> returns, since it
  reads such a pair as one character.
\<close>

fun str_ok :: "ustr \<Rightarrow> bool" where
  "str_ok [] = True"
| "str_ok [c] = (c < 0x110000)"
| "str_ok (c # d # s) =
     (c < 0x110000 \<and> \<not> (0xD800 \<le> c \<and> c < 0xDC00 \<and> 0xDC00 \<le> d \<and> d < 0xE000) \<and> str_ok (d # s))"

fun from_units :: "nat list \<Rightarrow> ustr" where
  "from_units [] = []"
| "from_units [u] = [u]"
| "from_units (h # l # r) =
     (if 0xD800 \<le> h \<and> h < 0xDC00 \<and> 0xDC00 \<le> l \<and> l < 0xE000
      then (0x10000 + (h - 0xD800) * 0x400 + (l - 0xDC00)) # from_units r
      else h # from_units (l # r))"

lemma utf16_units_bound: "c < 0x110000 \<Longrightarrow> \<forall>u \<in> set (utf16_units c). u < 0x10000"
proof -
  assume c: "c < 0x110000"
  have "(c - 0x10000) div 0x400 < 0x400" using c by (auto simp: less_mult_imp_div_less)
  moreover have "(c - 0x10000) mod 0x400 < 0x400" by simp
  ultimately show ?thesis by (auto simp: utf16_units_def)
qed

lemma str_ok_bound: "str_ok s \<Longrightarrow> c \<in> set s \<Longrightarrow> c < 0x110000"
  by (induction s rule: str_ok.induct) auto

lemma from_units_single:
  assumes "c < 0x10000" "us = [] \<or> \<not> (0xD800 \<le> c \<and> c < 0xDC00 \<and> 0xDC00 \<le> hd us \<and> hd us < 0xE000)"
  shows "from_units (c # us) = c # from_units us"
  using assms by (cases us) auto

lemma from_units_pair:
  assumes "0x10000 \<le> c" "c < 0x110000"
  shows "from_units (utf16_units c @ us) = c # from_units us"
proof -
  have "(c - 0x10000) div 0x400 < 0x400" using assms by (auto simp: less_mult_imp_div_less)
  moreover have "(c - 0x10000) mod 0x400 < 0x400" by simp
  moreover have "(c - 0x10000) div 0x400 * 0x400 + (c - 0x10000) mod 0x400 = c - 0x10000" by simp
  ultimately show ?thesis using assms by (simp add: utf16_units_def)
qed

lemma hd_utf16_units: "hd (utf16_units d @ us) < 0xDC00 \<or> 0xE000 \<le> hd (utf16_units d @ us) \<or>
    (hd (utf16_units d @ us) = d \<and> d < 0x10000)" if "d < 0x110000"
proof -
  have "(d - 0x10000) div 0x400 < 0x400" using that by (auto simp: less_mult_imp_div_less)
  then show ?thesis by (auto simp: utf16_units_def)
qed

lemma from_units_utf16: "str_ok s \<Longrightarrow> from_units (concat (map utf16_units s)) = s"
proof (induction s rule: str_ok.induct)
  case (2 c)
  show ?case
  proof (cases "c < 0x10000")
    case True
    then show ?thesis by (simp add: utf16_units_def)
  next
    case False
    then show ?thesis using from_units_pair [of c "[]"] 2 by simp
  qed
next
  case (3 c d s)
  let ?us = "concat (map utf16_units (d # s))"
  have IH: "from_units ?us = d # s" using 3 by simp
  have d: "d < 0x110000" using str_ok_bound [OF "3.prems", of d] by simp
  show ?case
  proof (cases "c < 0x10000")
    case True
    have "\<not> (0xD800 \<le> c \<and> c < 0xDC00 \<and> 0xDC00 \<le> hd ?us \<and> hd ?us < 0xE000)"
      using hd_utf16_units [OF d, of "concat (map utf16_units s)"] "3.prems"
      by (simp only: concat.simps list.map str_ok.simps) linarith
    then have "from_units (c # ?us) = c # from_units ?us"
      using True from_units_single by blast
    moreover have "concat (map utf16_units (c # d # s)) = c # ?us"
      using True by (simp add: utf16_units_def [of c])
    ultimately show ?thesis using IH by simp
  next
    case False
    then show ?thesis
      using from_units_pair [of c ?us] IH "3.prems" by simp
  qed
qed simp

lemma json_string_inject:
  assumes "str_ok s" "str_ok t" "json_string s @ r = json_string t @ r'"
  shows "s = t \<and> r = r'"
proof -
  have "concat (map utf16_units s) = concat (map utf16_units t) \<and> r = r'"
  proof (rule esc_units_inject)
    show "\<forall>u \<in> set (concat (map utf16_units s)). u < 0x10000" "\<forall>u \<in> set (concat (map utf16_units t)). u < 0x10000"
      using utf16_units_bound str_ok_bound assms(1,2) by auto
  qed (use assms(3) in \<open>simp add: json_string_def\<close>)
  then show ?thesis
    using from_units_utf16 assms(1,2) by metis
qed

section \<open>Numbers read back\<close>

lemma nat_digits_range: "c \<in> set (nat_digits n) \<Longrightarrow> 48 \<le> c \<and> c \<le> 57"
proof (induction n rule: nat_digits.induct)
  case (1 n)
  then show ?case
    using nat_digits.simps [of n] by (auto split: if_splits)
qed

lemma nat_digits_not_Nil: "nat_digits n \<noteq> []"
  by (subst nat_digits.simps) simp

lemma nat_digits_value: "foldl (\<lambda>a c. a * 10 + (c - 48)) 0 (nat_digits n) = n"
proof (induction n rule: nat_digits.induct)
  case (1 n)
  then show ?case
    using nat_digits.simps [of n] by (cases "n < 10") (simp_all add: mult.commute)
qed

lemma nat_digits_inject: "nat_digits m = nat_digits n \<Longrightarrow> m = n"
  using nat_digits_value by metis

lemma int_str_inject: "int_str m = int_str n \<Longrightarrow> m = n"
proof -
  have minus: "45 \<notin> set (nat_digits k)" for k
    using nat_digits_range by fastforce
  assume eq: "int_str m = int_str n"
  have cross: "45 # nat_digits j \<noteq> nat_digits k" for j k
    using minus [of k] by (metis list.set_intros(1))
  show "m = n"
    using eq cross nat_digits_inject [of "nat m" "nat n"] nat_digits_inject [of "nat (- m)" "nat (- n)"]
    by (simp add: int_str_def split: if_splits) (metis cross)+
qed

definition num_char :: "nat \<Rightarrow> bool" where
  "num_char c \<longleftrightarrow> 48 \<le> c \<and> c \<le> 57 \<or> c \<in> {43, 45, 46, 101}"

definition is_double :: "rat \<Rightarrow> bool" where
  "is_double r \<longleftrightarrow> (\<exists>m e. \<bar>m\<bar> \<le> 2 ^ 53 \<and> (r = of_int m * 2 ^ e \<or> r = of_int m / 2 ^ e))"

definition double_ok :: "pyfloat \<Rightarrow> bool" where
  "double_ok f = (case f of FNegZero \<Rightarrow> True | FNum r \<Rightarrow> is_double r | _ \<Rightarrow> False)"

text \<open>
  What is used of \<open>float.__repr__\<close>: on finite doubles it is injective (it round-trips), it
  writes digits, signs, a point or an exponent, and at least one of the last two.
\<close>

definition repr_ok :: "(pyfloat \<Rightarrow> ustr) \<Rightarrow> bool" where
  "repr_ok F \<longleftrightarrow> inj_on F {f. double_ok f} \<and>
     (\<forall>f. double_ok f \<longrightarrow> F f \<noteq> [] \<and> list_all num_char (F f) \<and> (48 \<le> hd (F f) \<and> hd (F f) \<le> 57 \<or> hd (F f) = 45) \<and>
       (46 \<in> set (F f) \<or> 101 \<in> set (F f)))"

text \<open>
  The values a JSON reader returns: distinct keys, strings with no split surrogate pair, and
  floats that are doubles.
\<close>

fun wf_val :: "pyval \<Rightarrow> bool" where
  "wf_val (PFloat f) = double_ok f"
| "wf_val (PStr s) = str_ok s"
| "wf_val (PList xs) = list_all wf_val xs"
| "wf_val (PDict d) = (distinct (map fst d) \<and> list_all (\<lambda>(k, v). str_ok k \<and> wf_val v) d)"
| "wf_val _ = True"

text \<open>Two values are the same to a signature when their dictionaries agree up to order.\<close>

function norm_val :: "pyval \<Rightarrow> pyval" where
  "norm_val PNone = PNone"
| "norm_val (PBool b) = PBool b"
| "norm_val (PInt n) = PInt n"
| "norm_val (PFloat f) = PFloat f"
| "norm_val (PStr s) = PStr s"
| "norm_val (PList xs) = PList (map norm_val xs)"
| "norm_val (PDict d) = PDict (map (\<lambda>(k, v). (k, norm_val v)) (sort_key fst d))"
  by pat_completeness auto
termination
proof (relation "measure size")
  fix xs :: "pyval list" and z
  assume "z \<in> set xs"
  then have "size z < size (PList xs)" by (induction xs) auto
  then show "(z, PList xs) \<in> measure size" by simp
next
  fix d :: pydict and p x y
  assume "p \<in> set (sort_key fst d)" "(x, y) = p"
  then have "(x, y) \<in> set d" by simp
  then have "size y < size (PDict d)" by (induction d) auto
  then show "(y, PDict d) \<in> measure size" by simp
qed simp

definition delim :: "ustr \<Rightarrow> bool" where
  "delim r \<longleftrightarrow> r = [] \<or> hd r \<in> {44, 93, 125}"

definition numeric :: "pyval \<Rightarrow> bool" where
  "numeric v = (case v of PInt _ \<Rightarrow> True | PFloat _ \<Rightarrow> True | _ \<Rightarrow> False)"

lemma int_str_chars: "list_all num_char (int_str n)" "46 \<notin> set (int_str n)" "101 \<notin> set (int_str n)"
  "int_str n \<noteq> []" "48 \<le> hd (int_str n) \<and> hd (int_str n) \<le> 57 \<or> hd (int_str n) = 45"
proof -
  have d: "\<forall>c \<in> set (nat_digits k). 48 \<le> c \<and> c \<le> 57" for k using nat_digits_range by blast
  then have no: "46 \<notin> set (nat_digits k)" "101 \<notin> set (nat_digits k)" for k by fastforce+
  from d show "list_all num_char (int_str n)"
    by (auto simp: int_str_def num_char_def list_all_iff)
  show "46 \<notin> set (int_str n)" "101 \<notin> set (int_str n)"
    using no by (simp_all add: int_str_def)
  show "int_str n \<noteq> []" by (simp add: int_str_def nat_digits_not_Nil)
  show "48 \<le> hd (int_str n) \<and> hd (int_str n) \<le> 57 \<or> hd (int_str n) = 45"
    using d nat_digits_not_Nil hd_in_set by (fastforce simp: int_str_def)
qed

lemma numeric_text:
  assumes "repr_ok F" "wf_val v" "numeric v"
  shows "list_all num_char (json_raw F v)" "json_raw F v \<noteq> []"
    "48 \<le> hd (json_raw F v) \<and> hd (json_raw F v) \<le> 57 \<or> hd (json_raw F v) = 45"
  using assms int_str_chars by (cases v; auto simp: numeric_def repr_ok_def)+

lemma numeric_inject:
  assumes F: "repr_ok F" and wf: "wf_val v" "wf_val w" and num: "numeric v" "numeric w"
    and eq: "json_raw F v @ r = json_raw F w @ r'" and del: "delim r" "delim r'"
  shows "v = w \<and> r = r'"
proof -
  have stop: "takeWhile num_char (x @ y) = x" if "list_all num_char x" "delim y" for x y
    using that by (cases y) (auto simp: takeWhile_append list_all_iff delim_def num_char_def)
  have same: "json_raw F v = json_raw F w"
    using stop numeric_text(1) [OF F] wf num eq del by metis
  moreover have "v = w"
  proof (cases v)
    case (PInt m)
    then show ?thesis
    proof (cases w)
      case (PFloat f)
      then show ?thesis using same F wf PInt int_str_chars(2,3) [of m] by (auto simp: repr_ok_def)
    qed (use same PInt num int_str_inject in \<open>auto simp: numeric_def\<close>)
  next
    case (PFloat f)
    then show ?thesis
    proof (cases w)
      case (PInt m)
      then show ?thesis using same F wf PFloat int_str_chars(2,3) [of m] by (auto simp: repr_ok_def)
    next
      case (PFloat g)
      then show ?thesis using same F wf \<open>v = PFloat f\<close> by (auto simp: repr_ok_def inj_on_def)
    qed (use num in \<open>auto simp: numeric_def\<close>)
  qed (use num in \<open>auto simp: numeric_def\<close>)
  ultimately show ?thesis using eq by simp
qed

section \<open>Values read back\<close>

text \<open>The first character of a text tells what kind of value it is of.\<close>

definition head_kind :: "nat \<Rightarrow> nat" where
  "head_kind c = (if c = 45 \<or> 48 \<le> c \<and> c \<le> 57 then 0 else c)"

definition val_kind :: "pyval \<Rightarrow> nat" where
  "val_kind v = (case v of PNone \<Rightarrow> 110 | PBool b \<Rightarrow> if b then 116 else 102 | PInt _ \<Rightarrow> 0 | PFloat _ \<Rightarrow> 0
     | PStr _ \<Rightarrow> 34 | PList _ \<Rightarrow> 91 | PDict _ \<Rightarrow> 123)"

lemma head_of_text:
  assumes "repr_ok F" "wf_val v"
  shows "\<exists>c s. json_raw F v = c # s \<and> head_kind c = val_kind v"
proof (cases "numeric v")
  case True
  from numeric_text [OF assms True] show ?thesis
    using True by (cases "json_raw F v"; cases v) (auto simp: head_kind_def val_kind_def numeric_def)
next
  case False
  then show ?thesis
    by (cases v) (auto simp: head_kind_def val_kind_def numeric_def lit_def json_string_def)
qed

text \<open>Comma-joined texts, each read back with what follows it.\<close>

lemma join_comma_inject:
  assumes elem: "\<And>x y r r'. x \<in> set xs \<Longrightarrow> y \<in> set ys \<Longrightarrow> delim r \<Longrightarrow> delim r' \<Longrightarrow> t x @ r = t y @ r' \<Longrightarrow>
      n x = n y \<and> r = r'"
    and head: "\<And>x. x \<in> set xs \<union> set ys \<Longrightarrow> \<exists>c s. t x = c # s \<and> c \<notin> {93, 125}"
    and z: "z \<in> {93, 125}"
    and eq: "join_comma (map t xs) @ z # r = join_comma (map t ys) @ z # r'"
  shows "map n xs = map n ys \<and> r = r'"
  using elem head eq
proof (induction xs arbitrary: ys)
  case Nil
  have "ys = []"
  proof (rule ccontr)
    assume "ys \<noteq> []"
    then obtain y ys' where ys: "ys = y # ys'" by (cases ys) auto
    obtain c s where "t y = c # s" "c \<notin> {93, 125}" using Nil.prems(2) [of y] ys by auto
    then show False using Nil.prems(3) z ys by (cases ys') auto
  qed
  then show ?case using Nil.prems(3) by simp
next
  case (Cons x xs)
  show ?case
  proof (cases ys)
    case Nil
    obtain c s where "t x = c # s" "c \<notin> {93, 125}" using Cons.prems(2) [of x] by auto
    then show ?thesis using Cons.prems(3) z Nil by (cases xs) auto
  next
    case ys: (Cons y ys')
    define R where "R = (if xs = [] then z # r else 44 # join_comma (map t xs) @ z # r)"
    define R' where "R' = (if ys' = [] then z # r' else 44 # join_comma (map t ys') @ z # r')"
    have "t x @ R = t y @ R'"
      using Cons.prems(3) by (cases xs; cases ys') (simp_all add: R_def R'_def ys)
    moreover have "delim R" "delim R'" using z by (auto simp: delim_def R_def R'_def)
    ultimately have xy: "n x = n y" and R: "R = R'"
      using Cons.prems(1) [of x y R R'] ys by auto
    show ?thesis
    proof (cases "xs = [] \<or> ys' = []")
      case True
      then show ?thesis using R z xy ys by (auto simp: R_def R'_def split: if_splits)
    next
      case False
      then have "join_comma (map t xs) @ z # r = join_comma (map t ys') @ z # r'"
        using R by (simp add: R_def R'_def)
      then have "map n xs = map n ys' \<and> r = r'"
        by (intro Cons.IH) (use Cons.prems(1,2) ys in auto)
      then show ?thesis using xy ys by simp
    qed
  qed
qed

lemma wf_dict_entry: "wf_val (PDict d) \<Longrightarrow> (k, v) \<in> set d \<Longrightarrow> str_ok k \<and> wf_val v"
  by (auto simp: list_all_iff)

lemma json_raw_inject:
  assumes F: "repr_ok F"
  shows "wf_val v \<Longrightarrow> wf_val w \<Longrightarrow> delim r \<Longrightarrow> delim r' \<Longrightarrow> json_raw F v @ r = json_raw F w @ r' \<Longrightarrow>
    norm_val v = norm_val w \<and> r = r'"
proof (induction v arbitrary: w r r' rule: norm_val.induct)
  have kinds: "val_kind x = val_kind y"
    if "wf_val x" "wf_val y" "json_raw F x @ r = json_raw F y @ r'" for x y r r'
    using head_of_text [OF F that(1)] head_of_text [OF F that(2)] that(3) by auto
  {
    case 1
    then show ?case using kinds [of PNone w] by (cases w) (auto simp: val_kind_def split: if_splits)
  next
    case (2 b)
    then show ?case using kinds [of "PBool b" w] by (cases w) (auto simp: val_kind_def split: if_splits)
  next
    case (3 n)
    have "numeric w" using kinds [OF 3(1,2,5)] by (cases w) (auto simp: val_kind_def numeric_def split: if_splits)
    with numeric_inject [OF F 3(1,2) _ this 3(5,3,4)] show ?case by (simp add: numeric_def)
  next
    case (4 f)
    have "numeric w" using kinds [OF 4(1,2,5)] by (cases w) (auto simp: val_kind_def numeric_def split: if_splits)
    with numeric_inject [OF F 4(1,2) _ this 4(5,3,4)] show ?case by (simp add: numeric_def)
  next
    case (5 s)
    obtain t where w: "w = PStr t" using kinds [OF 5(1,2,5)] by (cases w) (auto simp: val_kind_def split: if_splits)
    show ?case using 5 json_string_inject [of s t r r'] by (simp add: w)
  next
    case (6 xs)
    obtain ys where w: "w = PList ys" using kinds [OF 6(2,3,6)] by (cases w) (auto simp: val_kind_def split: if_splits)
    have "map norm_val xs = map norm_val ys \<and> r = r'"
    proof (rule join_comma_inject [where t = "json_raw F" and z = 93])
      fix x y q q' assume "x \<in> set xs" "y \<in> set ys" "delim q" "delim q'" "json_raw F x @ q = json_raw F y @ q'"
      then show "norm_val x = norm_val y \<and> q = q'"
        using 6(1) [of x y q q'] 6(2,3) w by (auto simp: list_all_iff)
    next
      fix x assume "x \<in> set xs \<union> set ys"
      then have "wf_val x" using 6(2,3) w by (auto simp: list_all_iff)
      from head_of_text [OF F this] show "\<exists>c s. json_raw F x = c # s \<and> c \<notin> {93, 125}"
        by (cases x) (auto simp: head_kind_def val_kind_def split: if_splits)
    qed (use 6(6) w in simp_all)
    then show ?case by (simp add: w)
  next
    case (7 d)
    obtain e where w: "w = PDict e" using kinds [OF 7(2,3,6)] by (cases w) (auto simp: val_kind_def split: if_splits)
    have "map (\<lambda>(k, v). (k, norm_val v)) (sort_key fst d) = map (\<lambda>(k, v). (k, norm_val v)) (sort_key fst e) \<and> r = r'"
    proof (rule join_comma_inject [where t = "\<lambda>(k, v). json_string k @ 58 # json_raw F v" and z = 125])
      fix x y q q'
      assume x: "x \<in> set (sort_key fst d)" and y: "y \<in> set (sort_key fst e)" and q: "delim q" "delim q'"
        and eq: "(case x of (k, v) \<Rightarrow> json_string k @ 58 # json_raw F v) @ q =
          (case y of (k, v) \<Rightarrow> json_string k @ 58 # json_raw F v) @ q'"
      obtain k v k' v' where xy: "x = (k, v)" "y = (k', v')" by (cases x; cases y)
      have wf: "str_ok k" "wf_val v" "str_ok k'" "wf_val v'"
        using wf_dict_entry [of d k v] wf_dict_entry [of e k' v'] 7(2,3) w x y xy by auto
      have "k = k' \<and> 58 # json_raw F v @ q = 58 # json_raw F v' @ q'"
        using eq xy wf(1,3) by (intro json_string_inject) simp_all
      then show "(case x of (k, v) \<Rightarrow> (k, norm_val v)) = (case y of (k, v) \<Rightarrow> (k, norm_val v)) \<and> q = q'"
        using 7(1) [OF x xy(1) [symmetric] wf(2,4) q] xy by simp
    next
      fix x assume "x \<in> set (sort_key fst d) \<union> set (sort_key fst e)"
      then show "\<exists>c s. (case x of (k, v) \<Rightarrow> json_string k @ 58 # json_raw F v) = c # s \<and> c \<notin> {93, 125}"
        by (cases x) (simp add: json_string_def)
    qed (use 7(6) w in simp_all)
    then show ?case by (simp add: w)
  }
qed

section \<open>The signed bytes\<close>

lemma nibble_char_ascii: "n < 16 \<Longrightarrow> nibble_char n < 0x80"
  by (simp add: nibble_char_def)

lemma esc_unit_ascii: "c \<in> set (esc_unit u) \<Longrightarrow> c < 0x80"
  by (auto simp: esc_unit_def hex4_def nibble_char_ascii split: if_splits)

lemma json_string_ascii: "c \<in> set (json_string s) \<Longrightarrow> c < 0x80"
  by (auto simp: json_string_def dest: esc_unit_ascii)

lemma join_comma_set: "c \<in> set (join_comma xs) \<Longrightarrow> c = 44 \<or> (\<exists>x \<in> set xs. c \<in> set x)"
  by (induction xs rule: join_comma.induct) auto

lemma json_raw_ascii:
  assumes F: "repr_ok F"
  shows "wf_val v \<Longrightarrow> c \<in> set (json_raw F v) \<Longrightarrow> c < 0x80"
proof (induction v rule: norm_val.induct)
  case (3 n)
  then show ?case using int_str_chars(1) [of n] by (auto simp: list_all_iff num_char_def)
next
  case (4 f)
  then have "num_char c" using F by (auto simp: repr_ok_def list_all_iff)
  then show ?case by (auto simp: num_char_def)
next
  case (5 s)
  then show ?case by (simp add: json_string_ascii)
next
  case (6 xs)
  then show ?case by (auto simp: list_all_iff dest!: join_comma_set)
next
  case (7 d)
  from 7(3) consider "c \<in> {123, 125, 44, 58}" | k v where "(k, v) \<in> set d" "c \<in> set (json_string k) \<or> c \<in> set (json_raw F v)"
    by (auto dest!: join_comma_set)
  then show ?case
  proof cases
    case 2
    then show ?thesis
      using 7(1) [of "(k, v)" k v] wf_dict_entry [OF 7(2) 2(1)] json_string_ascii by auto
  qed auto
qed (auto simp: lit_def split: if_splits)

text \<open>
  C7. Signed bytes mean one thing. Two values a JSON reader can return, whose canonical JSON is
  the same bytes, are the same value up to the order of dictionary entries: a signature over the
  canonical bytes is a signature over the statement, and no other statement has it. (Used of
  \<open>float.__repr__\<close>: \<open>repr_ok\<close>.)
\<close>

theorem canonical_json_injective:
  assumes "repr_ok F" "wf_val v" "wf_val w"
    and "canonical_json F v = Some b" "canonical_json F w = Some b"
  shows "norm_val v = norm_val w"
proof -
  have "map byte (json_raw F v) = map byte (json_raw F w)"
    using assms(4,5) by (auto simp: canonical_json_def split: if_splits)
  moreover have "inj_on byte {c. c < 0x80}"
    by (rule inj_onI) (simp add: byte_inject)
  then have "inj_on byte (set (json_raw F v) \<union> set (json_raw F w))"
    by (rule inj_on_subset) (use json_raw_ascii [OF assms(1)] assms(2,3) in auto)
  ultimately have "json_raw F v = json_raw F w"
    by (rule map_inj_on)
  then show ?thesis
    using json_raw_inject [OF assms(1-3), of "[]" "[]"] by (simp add: delim_def)
qed

text \<open>A text for floats with the two properties: numerator, point, denominator.\<close>

definition sample_repr :: "pyfloat \<Rightarrow> ustr" where
  "sample_repr f = (case f of FNum r \<Rightarrow> int_str (fst (quotient_of r)) @ [46] @ nat_digits (nat (snd (quotient_of r)))
     | _ \<Rightarrow> [45, 46])"

lemma sample_repr_num_inject: "sample_repr (FNum r) = sample_repr (FNum q) \<Longrightarrow> r = q"
proof -
  have tw: "takeWhile (\<lambda>c. c \<noteq> 46) (int_str n @ 46 # s) = int_str n" for n and s :: ustr
    using int_str_chars(2) [of n] by (simp add: takeWhile_append)
  assume eq: "sample_repr (FNum r) = sample_repr (FNum q)"
  have shape: "takeWhile (\<lambda>c. c \<noteq> 46) (sample_repr (FNum x)) = int_str (fst (quotient_of x))" for x :: rat
    by (simp add: sample_repr_def tw)
  from arg_cong [OF eq, of "takeWhile (\<lambda>c. c \<noteq> 46)"]
  have "int_str (fst (quotient_of r)) = int_str (fst (quotient_of q))" by (simp only: shape)
  then have "fst (quotient_of r) = fst (quotient_of q)" by (rule int_str_inject)
  moreover have "nat (snd (quotient_of r)) = nat (snd (quotient_of q))"
    using eq calculation by (intro nat_digits_inject) (simp add: sample_repr_def)
  then have "snd (quotient_of r) = snd (quotient_of q)"
    using quotient_of_denom_pos' [of r] quotient_of_denom_pos' [of q] by linarith
  ultimately show "r = q" by (metis prod.expand quotient_of_inject)
qed

lemma sample_repr_ok: "repr_ok sample_repr"
proof -
  have zero: "sample_repr FNegZero \<noteq> sample_repr (FNum r)" for r
    using int_str_chars(4) [of "fst (quotient_of r)"] nat_digits_not_Nil [of "nat (snd (quotient_of r))"]
    by (auto simp: sample_repr_def append_eq_Cons_conv Cons_eq_append_conv)
  have digits: "list_all num_char (nat_digits n)" for n
    using nat_digits_range by (auto simp: list_all_iff num_char_def)
  have "inj_on sample_repr {f. double_ok f}"
  proof (rule inj_onI)
    fix f g assume "f \<in> {f. double_ok f}" "g \<in> {f. double_ok f}" "sample_repr f = sample_repr g"
    then show "f = g"
      using zero sample_repr_num_inject by (cases f; cases g) (auto simp: double_ok_def, metis+)
  qed
  moreover have "sample_repr f \<noteq> [] \<and> list_all num_char (sample_repr f) \<and>
      (48 \<le> hd (sample_repr f) \<and> hd (sample_repr f) \<le> 57 \<or> hd (sample_repr f) = 45) \<and>
      (46 \<in> set (sample_repr f) \<or> 101 \<in> set (sample_repr f))" if "double_ok f" for f
    using that int_str_chars digits by (cases f) (auto simp: double_ok_def sample_repr_def num_char_def)
  ultimately show ?thesis by (simp add: repr_ok_def)
qed

theorem canonical_json_injective_witness:
  "canonical_json sample_repr (PDict [(lit ''b'', PInt 1), (lit ''a'', PNone)]) =
      canonical_json sample_repr (PDict [(lit ''a'', PNone), (lit ''b'', PInt 1)]) \<and>
    norm_val (PDict [(lit ''b'', PInt 1), (lit ''a'', PNone)]) = norm_val (PDict [(lit ''a'', PNone), (lit ''b'', PInt 1)])"
proof -
  let ?v = "PDict [(lit ''b'', PInt 1), (lit ''a'', PNone)]" and ?w = "PDict [(lit ''a'', PNone), (lit ''b'', PInt 1)]"
  have wf: "wf_val ?v" "wf_val ?w" by (simp_all add: lit_def)
  have "sort_key fst [(lit ''b'', PInt 1), (lit ''a'', PNone)] = [(lit ''a'', PNone), (lit ''b'', PInt 1)]"
    "sort_key fst [(lit ''a'', PNone), (lit ''b'', PInt 1)] = [(lit ''a'', PNone), (lit ''b'', PInt 1)]"
    by (simp_all add: lit_def)
  then have eq: "canonical_json sample_repr ?v = canonical_json sample_repr ?w"
    by (simp add: canonical_json_def nat_digits.simps)
  moreover obtain b where "canonical_json sample_repr ?v = Some b"
    by (simp add: canonical_json_def nat_digits.simps)
  ultimately show ?thesis
    using canonical_json_injective [OF sample_repr_ok wf] by metis
qed

end
