(* ===== verification/Doubles.thy ===== *)
theory Doubles
  imports PyValue "HOL-Library.Log_Nat"
begin

text \<open>
  IEEE double arithmetic as Python's floats do it: the rational nearest to an exact result, ties
  to even, subnormals included. \<open>total_seconds()\<close>, a division of integers, and \<open>x + 1\<close> on a float
  are rounded this way.
\<close>

definition pow2 :: "int \<Rightarrow> rat" where
  "pow2 e = (if 0 \<le> e then 2 ^ nat e else 1 / 2 ^ nat (- e))"

definition log2_floor :: "rat \<Rightarrow> int" where
  "log2_floor r =
     (let s = bitlen (fst (quotient_of r)) - bitlen (snd (quotient_of r)) in if pow2 s \<le> r then s else s - 1)"

definition round_half_even :: "rat \<Rightarrow> int" where
  "round_half_even r =
     (let f = \<lfloor>r\<rfloor>; d = r - of_int f in if d < 1 / 2 \<or> d = 1 / 2 \<and> even f then f else f + 1)"

definition double_near :: "rat \<Rightarrow> rat" where
  "double_near r =
     (if r = 0 then 0
      else
        let e = max (- 1074) (log2_floor \<bar>r\<bar> - 52); m = of_int (round_half_even (\<bar>r\<bar> / pow2 e)) * pow2 e
        in if r < 0 then - m else m)"

definition py_float :: "rat \<Rightarrow> pyfloat" where
  "py_float r = (if 2 ^ 1024 - 2 ^ 970 \<le> \<bar>r\<bar> then FInf (r < 0) else FNum (double_near r))"

lemma round_half_even_int [simp]: "round_half_even (of_int n) = n"
  by (simp add: round_half_even_def)

lemma pow2_pos: "0 < pow2 e" by (simp add: pow2_def)

lemma log2_floor_int:
  assumes "0 < n" "n < 2 ^ k"
  shows "log2_floor (of_int n) < int k"
proof -
  have q: "quotient_of (rat_of_int n) = (n, 1)" by (simp add: quotient_of_int)
  have "bitlen n \<le> int k" using bitlen_le_iff_power [of n k] assms by simp
  moreover have "bitlen 1 = 1" by (simp add: compute_bitlen [of 1])
  ultimately show ?thesis by (auto simp: log2_floor_def q Let_def)
qed

lemma div_pow2: "e \<le> 0 \<Longrightarrow> r / pow2 e = r * 2 ^ nat (- e)"
  by (cases "e = 0") (simp_all add: pow2_def)

text \<open>An integer of at most 53 bits is a double: sums and widths in that range are exact.\<close>

lemma double_near_int:
  assumes "\<bar>n\<bar> < 2 ^ 53"
  shows "double_near (of_int n) = of_int n"
proof (cases "n = 0")
  case False
  define e where "e = max (- 1074) (log2_floor \<bar>of_int n\<bar> - 52)"
  have "log2_floor (of_int \<bar>n\<bar>) < int 53"
    using False assms by (intro log2_floor_int) auto
  then have e: "e \<le> 0" by (simp add: e_def)
  have "\<bar>of_int n\<bar> / pow2 e = of_int (\<bar>n\<bar> * 2 ^ nat (- e))"
    using e by (simp add: div_pow2)
  then have "of_int (round_half_even (\<bar>of_int n\<bar> / pow2 e)) * pow2 e = \<bar>of_int n\<bar> / pow2 e * pow2 e"
    by (metis round_half_even_int)
  also have "\<dots> = \<bar>of_int n\<bar>" using pow2_pos [of e] by simp
  finally have m: "of_int (round_half_even (\<bar>of_int n\<bar> / pow2 e)) * pow2 e = \<bar>rat_of_int n\<bar>" .
  have "double_near (of_int n) = (if rat_of_int n < 0 then - \<bar>rat_of_int n\<bar> else \<bar>rat_of_int n\<bar>)"
    unfolding double_near_def Let_def e_def [symmetric] m using False by simp
  then show ?thesis by simp
qed (simp add: double_near_def)

lemma py_float_int: "\<bar>n\<bar> < 2 ^ 53 \<Longrightarrow> py_float (of_int n) = FNum (of_int n)"
proof -
  assume n: "\<bar>n\<bar> < 2 ^ 53"
  have "\<not> 2 ^ 1024 - 2 ^ 970 \<le> \<bar>rat_of_int n\<bar>"
  proof -
    have "(2 :: int) ^ 53 \<le> 2 ^ 1024 - 2 ^ 970" by simp
    then have "\<bar>n\<bar> < 2 ^ 1024 - 2 ^ 970" using n by linarith
    then have "rat_of_int \<bar>n\<bar> < rat_of_int (2 ^ 1024 - 2 ^ 970)" by (simp only: of_int_less_iff)
    then show ?thesis by simp
  qed
  then show ?thesis using double_near_int [OF n] by (simp only: py_float_def if_False)
qed

end
