(* ===== verification/SignedArtifacts.thy ===== *)
theory SignedArtifacts
  imports CanonicalJson Instants Doubles
begin

text \<open>
  The signature layer of \<open>polaris_verify_cli/verifier.py\<close> and the artifacts a holder presents: the
  accepted algorithms, the two witnesses and their agreement, the validity window, and
  \<open>verify_pack\<close>, \<open>verify_status_assertion\<close>, \<open>verify_stapled\<close> and \<open>verify_manifest\<close> on top.

  What the code takes from outside is one record: SHA3-256, \<open>float.__repr__\<close>, \<open>repr\<close> of a list or dict,
  \<open>str.lower\<close> of text that is not ASCII, the clock, and the two libraries as the code sees them (an
  import that fails, a call that raises, a boolean). A verifier that raises is \<open>None\<close>. Every place that writes a note has a constructor; the texts are left out.
\<close>

section \<open>Outside the code\<close>

record env =
  sha3 :: "bytes \<Rightarrow> bytes"
  frepr :: "pyfloat \<Rightarrow> ustr"
  pyrepr :: "pyval \<Rightarrow> ustr"
  ulower :: "ustr \<Rightarrow> ustr"
  clock :: int
  dev_mode :: bool
  liboqs :: "(ustr \<Rightarrow> bytes \<Rightarrow> bytes \<Rightarrow> bytes \<Rightarrow> bool option) option"
  openssl :: "(ustr \<Rightarrow> bytes \<Rightarrow> (bytes \<Rightarrow> bytes \<Rightarrow> bool) option) option"

section \<open>Notes\<close>

datatype serial_note = NotText | EmptySerial | Unpaired | BeginsStatement | TooLong nat | ControlCharacter

datatype vnote =
    NotA ustr | Placeholder | NotHex | NotJson | UnknownAlgorithm pyval | WrongLength string nat nat
  | NoVerifier | Disagree | BadSignature | BadInstants | OutsideWindow | WindowTooWide
  | MissingFields | NotSerial serial_note | NoSignatureFields | UntrustedKey | NotOwnAnchor
  | CommitmentMismatch | BadTreeSize | NotThisCredential | UnboundKey | BadProofInstant

section \<open>Algorithms and lengths\<close>

text \<open>Name, class of the second witness, public key and signature lengths.\<close>

definition ACCEPTED :: "(ustr \<times> (ustr option \<times> nat \<times> nat)) list" where
  "ACCEPTED =
     [(lit ''ML-DSA-65'', (Some (lit ''MLDSA65PublicKey''), 1952, 3309)),
      (lit ''ML-DSA-87'', (Some (lit ''MLDSA87PublicKey''), 2592, 4627)),
      (lit ''Falcon-padded-1024'', (None, 1793, 1280))]"

definition PLACEHOLDER :: ustr where
  "PLACEHOLDER = lit ''DETERMINISTIC-PLACEHOLDER-SHA3-256''"

definition accepted_entry :: "pyval \<Rightarrow> (ustr option \<times> nat \<times> nat) option" where
  "accepted_entry alg = (case alg of PStr a \<Rightarrow> map_of ACCEPTED a | _ \<Rightarrow> None)"

definition accepted_alg :: "pyval \<Rightarrow> bool" where
  "accepted_alg alg \<longleftrightarrow> accepted_entry alg \<noteq> None"

definition size_problem :: "pyval \<Rightarrow> bytes \<Rightarrow> bytes \<Rightarrow> vnote option" where
  "size_problem alg pk sg =
     (case accepted_entry alg of None \<Rightarrow> Some (UnknownAlgorithm alg)
      | Some (cls, pk_len, sig_len) \<Rightarrow>
          if pk = [] \<or> length pk \<noteq> pk_len then Some (WrongLength ''public key'' (length pk) pk_len)
          else if sg = [] \<or> length sg \<noteq> sig_len then Some (WrongLength ''signature'' (length sg) sig_len)
          else None)"

section \<open>The two witnesses\<close>

definition verify_liboqs :: "env \<Rightarrow> bytes \<Rightarrow> bytes \<Rightarrow> bytes \<Rightarrow> pyval \<Rightarrow> bool option" where
  "verify_liboqs E digest sg pk alg =
     (if dev_mode E then None
      else if \<not> accepted_alg alg then Some False
      else if size_problem alg pk sg \<noteq> None then Some False
      else
        (case (liboqs E, alg) of
           (Some verify, PStr a) \<Rightarrow> Some (verify a digest sg pk = Some True)
         | _ \<Rightarrow> None))"

definition verify_cryptography :: "env \<Rightarrow> bytes \<Rightarrow> bytes \<Rightarrow> bytes \<Rightarrow> pyval \<Rightarrow> bool option" where
  "verify_cryptography E digest sg pk alg =
     (if dev_mode E then None
      else if accepted_alg alg \<and> size_problem alg pk sg \<noteq> None then Some False
      else
        (case openssl E of None \<Rightarrow> None
         | Some load \<Rightarrow>
             (case accepted_entry alg of
                Some (Some cls, _) \<Rightarrow> (case load cls pk of None \<Rightarrow> None | Some check \<Rightarrow> Some (check sg digest))
              | _ \<Rightarrow> None)))"

definition ran_of :: "bool option \<Rightarrow> bool option \<Rightarrow> (string \<times> bool) list" where
  "ran_of primary witness =
     (case primary of None \<Rightarrow> [] | Some b \<Rightarrow> [(''liboqs'', b)])
     @ (case witness of None \<Rightarrow> [] | Some b \<Rightarrow> [(''cryptography'', b)])"

text \<open>What the two said together: agreement, none ran, or they disagree.\<close>

definition agreed :: "bool option \<Rightarrow> bool option \<Rightarrow> vnote + bool" where
  "agreed primary witness =
     (case (primary, witness) of
        (None, None) \<Rightarrow> Inl NoVerifier
      | (Some a, Some b) \<Rightarrow> if a \<noteq> b then Inl Disagree else Inr a
      | (Some a, None) \<Rightarrow> Inr a
      | (None, Some b) \<Rightarrow> Inr b)"

definition two_witness_verify ::
    "env \<Rightarrow> bytes option \<Rightarrow> bytes \<Rightarrow> bytes \<Rightarrow> pyval \<Rightarrow> bool option \<times> (string \<times> bool) list \<times> vnote option" where
  "two_witness_verify E digest sg pk alg =
     (case digest of None \<Rightarrow> (None, [], Some NotJson)
      | Some dg \<Rightarrow>
          if \<not> accepted_alg alg then (None, [], Some (UnknownAlgorithm alg))
          else
            (case size_problem alg pk sg of Some why \<Rightarrow> (Some False, [], Some why)
             | None \<Rightarrow>
                 let primary = verify_liboqs E dg sg pk alg; witness = verify_cryptography E dg sg pk alg;
                     ran = ran_of primary witness
                 in case agreed primary witness of Inl why \<Rightarrow> (None, ran, Some why) | Inr ok \<Rightarrow> (Some ok, ran, None)))"

text \<open>\<open>_canonical_digest\<close> of the statement with these fields.\<close>

definition canonical_digest :: "env \<Rightarrow> string list \<Rightarrow> pydict \<Rightarrow> bytes option" where
  "canonical_digest E names obj = map_option (sha3 E) (canonical_json (frepr E) (statement names obj))"

section \<open>The validity window\<close>

text \<open>
  \<open>(ea - ia).total_seconds()\<close>: microseconds divided by a million, rounded to a double. A cap is a number the caller
  passes; \<open>FInf True\<close> is minus infinity.
\<close>

definition width_seconds :: "int \<Rightarrow> int \<Rightarrow> rat" where
  "width_seconds ia ea = double_near (of_int (ea - ia) / 1000000)"

definition below_cap :: "rat \<Rightarrow> pyval \<Rightarrow> bool option" where
  "below_cap w cap =
     (case cap of PFloat FNaN \<Rightarrow> Some False | PFloat (FInf neg) \<Rightarrow> Some (\<not> neg)
      | _ \<Rightarrow> (case num_value cap of None \<Rightarrow> None | Some c \<Rightarrow> Some (w \<le> c)))"

definition window_within :: "int \<Rightarrow> int \<Rightarrow> pyval \<Rightarrow> bool option" where
  "window_within ia ea cap =
     (case finite_num cap of None \<Rightarrow> None | Some False \<Rightarrow> Some False
      | Some True \<Rightarrow> if 0 < width_seconds ia ea then below_cap (width_seconds ia ea) cap else Some False)"

definition instant_at :: "pydict \<Rightarrow> string \<Rightarrow> int option" where
  "instant_at obj k = (case map_of obj (lit k) of Some (PStr s) \<Rightarrow> strict_instant s | _ \<Rightarrow> None)"

text \<open>\<open>now\<close>, \<open>issued_at\<close> and \<open>expires_at\<close>; any of the three unreadable is one refusal.\<close>

definition instants :: "env \<Rightarrow> pydict \<Rightarrow> now_arg \<Rightarrow> (int \<times> int \<times> int) option" where
  "instants E obj now =
     (case (instant (clock E) now, instant_at obj ''issued_at'', instant_at obj ''expires_at'') of
        (Some t, Some ia, Some ea) \<Rightarrow> Some (t, ia, ea) | _ \<Rightarrow> None)"

definition verify_window :: "env \<Rightarrow> pydict \<Rightarrow> now_arg \<Rightarrow> pyval option \<Rightarrow> (bool \<times> vnote option) option" where
  "verify_window E obj now cap =
     (case instants E obj now of None \<Rightarrow> Some (False, Some BadInstants)
      | Some (t, ia, ea) \<Rightarrow>
          (case (case cap of None \<Rightarrow> Some True | Some c \<Rightarrow> window_within ia ea c) of None \<Rightarrow> None
           | Some window_ok \<Rightarrow>
               let inside = ia \<le> t \<and> t < ea
               in Some (inside \<and> window_ok,
                    if \<not> inside then Some OutsideWindow else if \<not> window_ok then Some WindowTooWide else None)))"

text \<open>
  The two older copies of the gate, in \<open>verify_status_assertion\<close> and \<open>verify_manifest\<close>: the bound
  is compared directly, and written with \<open>%d\<close> into the note, which raises for a value that is not a
  finite number.
\<close>

definition writes_d :: "pyval \<Rightarrow> bool" where
  "writes_d v = (num_value v \<noteq> None)"

definition verify_window_inline :: "env \<Rightarrow> pydict \<Rightarrow> now_arg \<Rightarrow> pyval option \<Rightarrow> (bool \<times> vnote option) option" where
  "verify_window_inline E obj now cap =
     (case instants E obj now of None \<Rightarrow> Some (False, Some BadInstants)
      | Some (t, ia, ea) \<Rightarrow>
          (case (case cap of None \<Rightarrow> Some True
                 | Some c \<Rightarrow> if 0 < width_seconds ia ea then below_cap (width_seconds ia ea) c else Some False) of
             None \<Rightarrow> None
           | Some window_ok \<Rightarrow>
               if \<not> (ia \<le> t \<and> t < ea) then Some (False, Some OutsideWindow)
               else if \<not> window_ok then
                 (if (case cap of None \<Rightarrow> True | Some c \<Rightarrow> writes_d c) then Some (False, Some WindowTooWide) else None)
               else Some (True, None)))"

section \<open>The credential\<close>

definition TOKEN_VALUE_MAX_BYTES :: nat where "TOKEN_VALUE_MAX_BYTES = 128"

definition token_value_serial_problem :: "pyval \<Rightarrow> serial_note option" where
  "token_value_serial_problem v =
     (case v of PStr s \<Rightarrow>
        if s = [] then Some EmptySerial
        else
          (case utf8_encode s of None \<Rightarrow> Some Unpaired
           | Some raw \<Rightarrow>
               if hd s = 123 then Some BeginsStatement
               else if TOKEN_VALUE_MAX_BYTES < length raw then Some (TooLong (length raw))
               else if list_ex (\<lambda>c. c < 0x20 \<or> 0x7F \<le> c \<and> c \<le> 0x9F) s then Some ControlCharacter
               else None)
      | _ \<Rightarrow> Some NotText)"

datatype authenticity = NoAuthenticity | WitnessDisagreement | Genuine | ForgedOrTampered

record pack_verdict =
  pv_valid :: bool
  pv_witnesses :: "(string \<times> bool) list"
  pv_authenticity :: "authenticity option"
  pv_trusted :: "bool option"
  pv_evaluated :: bool
  pv_note :: "vnote option"

definition blank_pack :: "pyval list option \<Rightarrow> pack_verdict" where
  "blank_pack anchor_keys =
     \<lparr>pv_valid = False, pv_witnesses = [], pv_authenticity = None, pv_trusted = None,
      pv_evaluated = (anchor_keys \<noteq> None), pv_note = None\<rparr>"

text \<open>The signature is checked: what the two witnesses make of it, and the anchors.\<close>

definition pack_signature :: "env \<Rightarrow> pyval \<Rightarrow> pyval list option \<Rightarrow> bytes \<Rightarrow> bytes \<Rightarrow> bytes \<Rightarrow> pyval \<Rightarrow> pack_verdict" where
  "pack_signature E pk_hex anchor_keys dg sg pk alg =
     (let v = blank_pack anchor_keys;
          primary = verify_liboqs E dg sg pk alg; witness = verify_cryptography E dg sg pk alg;
          v2 = v\<lparr>pv_witnesses := ran_of primary witness\<rparr>
      in case agreed primary witness of
           Inl Disagree \<Rightarrow> v2\<lparr>pv_authenticity := Some WitnessDisagreement, pv_note := Some Disagree\<rparr>
         | Inl why \<Rightarrow> v2\<lparr>pv_note := Some why\<rparr>
         | Inr ok \<Rightarrow>
             let v3 = v2\<lparr>pv_valid := ok, pv_authenticity := Some (if ok then Genuine else ForgedOrTampered)\<rparr>
             in case anchor_keys of None \<Rightarrow> v3
                | Some anchors \<Rightarrow>
                    let trusted = hex_in pk_hex (map hex_text anchors)
                    in v3\<lparr>pv_trusted := Some trusted, pv_note := (if ok \<and> \<not> trusted then Some UntrustedKey else None)\<rparr>)"

definition verify_pack :: "env \<Rightarrow> pyval \<Rightarrow> pyval list option \<Rightarrow> pack_verdict" where
  "verify_pack E pack0 anchor_keys =
     (let pack = as_dict pack0; v = blank_pack anchor_keys;
          tok = py_get pack ''token_value''; alg = py_get pack ''algorithm'';
          sig_hex = py_get pack ''signature_hex''; pk_hex = py_get pack ''public_key_hex''
      in case tok of
           PStr s \<Rightarrow>
             if s = [] \<or> \<not> py_true alg then v\<lparr>pv_note := Some MissingFields\<rparr>
             else
               (case token_value_serial_problem tok of
                  Some why \<Rightarrow> v\<lparr>pv_note := Some (NotSerial why)\<rparr>
                | None \<Rightarrow>
                    if alg = PStr PLACEHOLDER then
                      v\<lparr>pv_authenticity := Some NoAuthenticity, pv_note := Some Placeholder\<rparr>
                    else if \<not> accepted_alg alg then v\<lparr>pv_note := Some (UnknownAlgorithm alg)\<rparr>
                    else if \<not> py_true sig_hex \<or> \<not> py_true pk_hex then v\<lparr>pv_note := Some NoSignatureFields\<rparr>
                    else
                      (case (unhex sig_hex, unhex pk_hex) of
                         (Some sg, Some pk) \<Rightarrow>
                           (case size_problem alg pk sg of Some why \<Rightarrow> v\<lparr>pv_note := Some why\<rparr>
                            | None \<Rightarrow> pack_signature E pk_hex anchor_keys (sha3 E (the (utf8_encode s))) sg pk alg)
                       | _ \<Rightarrow> v\<lparr>pv_note := Some NotHex\<rparr>))
         | _ \<Rightarrow> v\<lparr>pv_note := Some (NotSerial NotText)\<rparr>)"

section \<open>The status assertion\<close>

definition STATUS_ASSERTION_FORMAT :: ustr where "STATUS_ASSERTION_FORMAT = lit ''polaris-status-assertion/1''"

definition STATUS_ASSERTION_FIELDS :: "string list" where
  "STATUS_ASSERTION_FIELDS = [''format'', ''token_value'', ''status'', ''issued_at'', ''expires_at'']"

record sa_verdict =
  sa_authentic :: bool
  sa_fresh :: "bool option"
  sa_status :: pyval
  sa_issued_at :: pyval
  sa_expires_at :: pyval
  sa_trusted :: "bool option"
  sa_evaluated :: bool
  sa_witnesses :: "(string \<times> bool) list"
  sa_note :: "vnote option"

definition blank_assertion :: "pydict \<Rightarrow> pyval list option \<Rightarrow> sa_verdict" where
  "blank_assertion a anchor_keys =
     \<lparr>sa_authentic = False, sa_fresh = None, sa_status = py_get a ''status'', sa_issued_at = py_get a ''issued_at'',
      sa_expires_at = py_get a ''expires_at'', sa_trusted = None, sa_evaluated = (anchor_keys \<noteq> None),
      sa_witnesses = [], sa_note = None\<rparr>"

definition placeholder_envelope :: "pydict \<Rightarrow> bool" where
  "placeholder_envelope obj \<longleftrightarrow>
     py_get obj ''algorithm'' = PStr PLACEHOLDER \<or> \<not> py_true (py_get obj ''public_key_hex'')"

definition envelope_bytes :: "pydict \<Rightarrow> (bytes \<times> bytes) option" where
  "envelope_bytes obj =
     (case (unhex (py_get obj ''signature_hex''), unhex (py_get obj ''public_key_hex'')) of
        (Some sg, Some pk) \<Rightarrow> Some (sg, pk) | _ \<Rightarrow> None)"

definition sa_window :: "env \<Rightarrow> pydict \<Rightarrow> now_arg \<Rightarrow> pyval option \<Rightarrow> pyval list option \<Rightarrow> sa_verdict \<Rightarrow> sa_verdict option" where
  "sa_window E a now cap anchor_keys v =
     (case verify_window_inline E a now cap of None \<Rightarrow> None
      | Some (fresh, why) \<Rightarrow>
          let v2 = v\<lparr>sa_fresh := Some fresh, sa_note := why\<rparr>
          in Some (if why = Some BadInstants then v2
               else (case anchor_keys of None \<Rightarrow> v2
                     | Some anchors \<Rightarrow> v2\<lparr>sa_trusted := Some (hex_in (py_get a ''public_key_hex'') (map hex_text anchors))\<rparr>)))"

definition verify_status_assertion ::
    "env \<Rightarrow> pyval \<Rightarrow> now_arg \<Rightarrow> pyval option \<Rightarrow> pyval list option \<Rightarrow> sa_verdict option" where
  "verify_status_assertion E assertion now cap anchor_keys =
     (let a = as_dict assertion; v = blank_assertion a anchor_keys; alg = py_get a ''algorithm''
      in if placeholder_envelope a then Some (v\<lparr>sa_note := Some Placeholder\<rparr>)
         else if py_get a ''format'' \<noteq> PStr STATUS_ASSERTION_FORMAT then
           Some (v\<lparr>sa_note := Some (NotA STATUS_ASSERTION_FORMAT)\<rparr>)
         else
           (case envelope_bytes a of None \<Rightarrow> Some (v\<lparr>sa_note := Some NotHex\<rparr>)
            | Some (sg, pk) \<Rightarrow>
                (case canonical_digest E STATUS_ASSERTION_FIELDS a of None \<Rightarrow> Some (v\<lparr>sa_note := Some NotJson\<rparr>)
                 | Some dg \<Rightarrow>
                     if \<not> accepted_alg alg then Some (v\<lparr>sa_note := Some (UnknownAlgorithm alg)\<rparr>)
                     else
                       (case size_problem alg pk sg of Some why \<Rightarrow> Some (v\<lparr>sa_note := Some why\<rparr>)
                        | None \<Rightarrow>
                            let primary = verify_liboqs E dg sg pk alg; witness = verify_cryptography E dg sg pk alg;
                                v2 = v\<lparr>sa_witnesses := ran_of primary witness\<rparr>
                            in case agreed primary witness of
                                 Inl why \<Rightarrow> Some (v2\<lparr>sa_note := Some why\<rparr>)
                               | Inr False \<Rightarrow> Some (v2\<lparr>sa_note := Some BadSignature\<rparr>)
                               | Inr True \<Rightarrow> sa_window E a now cap anchor_keys (v2\<lparr>sa_authentic := True\<rparr>)))))"

section \<open>The stapled decision\<close>

datatype decision = Accept | Reject | Abstain

datatype reason =
    NotAuthentic | IssuerNotTrusted | NotBound | AssertionNotAuthentic "vnote option" | NotFresh "vnote option"
  | NotActiveStatus pyval | AssertionIssuerNotTrusted | NoIssuerAnchor

record stapled_verdict =
  st_decision :: decision
  st_authentic :: bool
  st_status :: pyval
  st_fresh :: "bool option"
  st_bound :: bool
  st_reasons :: "reason list"
  st_credential :: pack_verdict
  st_assertion :: sa_verdict

definition bound_to :: "pydict \<Rightarrow> pydict \<Rightarrow> bool" where
  "bound_to pack a \<longleftrightarrow>
     py_true (py_get pack ''token_value'') \<and> py_eq (py_get pack ''token_value'') (py_get a ''token_value'') \<and>
     same_hex (py_get pack ''public_key_hex'') (py_get a ''public_key_hex'')"

definition stapled_reasons :: "pack_verdict \<Rightarrow> sa_verdict \<Rightarrow> bool \<Rightarrow> bool \<Rightarrow> bool \<Rightarrow> reason list" where
  "stapled_reasons c s bound unevaluated signature_only =
     (if \<not> pv_valid c then [NotAuthentic] else [])
     @ (if pv_trusted c = Some False then [IssuerNotTrusted] else [])
     @ (if \<not> bound then [NotBound] else [])
     @ (if \<not> sa_authentic s then [AssertionNotAuthentic (sa_note s)]
        else if sa_fresh s \<noteq> Some True then [NotFresh (sa_note s)]
        else if sa_status s \<noteq> PStr (lit ''ACTIVE'') then [NotActiveStatus (sa_status s)] else [])
     @ (if sa_trusted s = Some False then [AssertionIssuerNotTrusted] else [])
     @ (if unevaluated \<and> \<not> signature_only then [NoIssuerAnchor] else [])"

definition verify_stapled ::
    "env \<Rightarrow> pyval \<Rightarrow> pyval \<Rightarrow> now_arg \<Rightarrow> pyval option \<Rightarrow> pyval list option \<Rightarrow> bool \<Rightarrow> stapled_verdict option" where
  "verify_stapled E pack0 assertion0 now cap anchor_keys signature_only =
     (let pack = as_dict pack0; assertion = as_dict assertion0; c = verify_pack E (PDict pack) anchor_keys
      in case verify_status_assertion E (PDict assertion) now cap anchor_keys of None \<Rightarrow> None
         | Some s \<Rightarrow>
             let bound = bound_to pack assertion;
                 unevaluated = pv_trusted c = None \<or> sa_trusted s = None;
                 rest = pv_valid c \<and> pv_trusted c \<noteq> Some False \<and> bound \<and> sa_authentic s \<and> sa_trusted s \<noteq> Some False \<and>
                   sa_fresh s = Some True \<and> sa_status s = PStr (lit ''ACTIVE'')
             in Some \<lparr>st_decision = (if \<not> rest then Reject else if unevaluated \<and> \<not> signature_only then Abstain else Accept),
                  st_authentic = pv_valid c, st_status = sa_status s, st_fresh = sa_fresh s, st_bound = bound,
                  st_reasons = stapled_reasons c s bound unevaluated signature_only,
                  st_credential = c, st_assertion = s\<rparr>)"

section \<open>The federation manifest\<close>

definition MANIFEST_FORMAT :: ustr where "MANIFEST_FORMAT = lit ''polaris-federation-manifest/1''"

definition MANIFEST_FIELDS :: "string list" where
  "MANIFEST_FIELDS = [''format'', ''authority'', ''anchors'', ''attestations'', ''epoch'', ''revocation'',
     ''issued_at'', ''expires_at'', ''algorithm'']"

record manifest_verdict =
  mv_authentic :: bool
  mv_fresh :: "bool option"
  mv_trusted :: "bool option"
  mv_authority :: pyval
  mv_anchors :: "pyval list"
  mv_attestations :: "pyval list"
  mv_witnesses :: "(string \<times> bool) list"
  mv_note :: "vnote option"

definition blank_manifest :: "pydict \<Rightarrow> manifest_verdict" where
  "blank_manifest m =
     \<lparr>mv_authentic = False, mv_fresh = None, mv_trusted = None, mv_authority = py_get m ''authority'',
      mv_anchors = as_list (py_get m ''anchors''), mv_attestations = as_list (py_get m ''attestations''),
      mv_witnesses = [], mv_note = None\<rparr>"

text \<open>\<open>a.get("public_key_hex", "")\<close> of the anchors that are active.\<close>

definition active_anchor_keys :: "pyval list \<Rightarrow> ustr option list" where
  "active_anchor_keys anchors =
     map (\<lambda>a. hex_text (py_get (as_dict a) ''public_key_hex''))
       (filter (\<lambda>a. (\<exists>d. a = PDict d) \<and> status_of (as_dict a) = PStr (lit ''active'')) anchors)"

definition manifest_window :: "env \<Rightarrow> pydict \<Rightarrow> now_arg \<Rightarrow> pyval option \<Rightarrow> pyval list option \<Rightarrow> manifest_verdict \<Rightarrow> manifest_verdict option" where
  "manifest_window E m now cap trusted_anchors v =
     (case verify_window_inline E m now cap of None \<Rightarrow> None
      | Some (fresh, why) \<Rightarrow>
          let v2 = v\<lparr>mv_fresh := Some fresh, mv_note := why\<rparr>
          in Some (if why = Some BadInstants then v2
               else (case trusted_anchors of None \<Rightarrow> v2
                     | Some anchors \<Rightarrow> v2\<lparr>mv_trusted := Some (hex_in (py_get m ''public_key_hex'') (map hex_text anchors))\<rparr>)))"

definition verify_manifest ::
    "env \<Rightarrow> pyval \<Rightarrow> now_arg \<Rightarrow> pyval option \<Rightarrow> pyval list option \<Rightarrow> manifest_verdict option" where
  "verify_manifest E manifest now cap trusted_anchors =
     (let m = as_dict manifest; v = blank_manifest m; alg = py_get m ''algorithm''
      in if py_get m ''format'' \<noteq> PStr MANIFEST_FORMAT then Some (v\<lparr>mv_note := Some (NotA MANIFEST_FORMAT)\<rparr>)
         else if placeholder_envelope m then Some (v\<lparr>mv_note := Some Placeholder\<rparr>)
         else
           (case envelope_bytes m of None \<Rightarrow> Some (v\<lparr>mv_note := Some NotHex\<rparr>)
            | Some (sg, pk) \<Rightarrow>
                if \<not> hex_in (py_get m ''public_key_hex'') (active_anchor_keys (mv_anchors v)) then
                  Some (v\<lparr>mv_note := Some NotOwnAnchor\<rparr>)
                else
                (case canonical_digest E MANIFEST_FIELDS m of None \<Rightarrow> Some (v\<lparr>mv_note := Some NotJson\<rparr>)
                 | Some dg \<Rightarrow>
                     if \<not> accepted_alg alg then Some (v\<lparr>mv_note := Some (UnknownAlgorithm alg)\<rparr>)
                     else
                       (case size_problem alg pk sg of Some why \<Rightarrow> Some (v\<lparr>mv_note := Some why\<rparr>)
                        | None \<Rightarrow>
                            let primary = verify_liboqs E dg sg pk alg; witness = verify_cryptography E dg sg pk alg;
                                v2 = v\<lparr>mv_witnesses := ran_of primary witness\<rparr>
                            in case agreed primary witness of
                                 Inl why \<Rightarrow> Some (v2\<lparr>mv_note := Some why\<rparr>)
                               | Inr False \<Rightarrow> Some (v2\<lparr>mv_note := Some BadSignature\<rparr>)
                               | Inr True \<Rightarrow> manifest_window E m now cap trusted_anchors (v2\<lparr>mv_authentic := True\<rparr>)))))"

section \<open>What the checks establish\<close>

lemma agreed_Inr_True:
  "agreed p w = Inr True \<longleftrightarrow> (p = Some True \<and> w \<noteq> Some False) \<or> (p = None \<and> w = Some True)"
  by (auto simp: agreed_def split: option.splits)

lemma unhex_PNone [simp]: "unhex PNone = None"
  by (simp add: unhex_def)

lemma not_accepted_placeholder: "accepted_alg alg \<Longrightarrow> alg \<noteq> PStr PLACEHOLDER"
  by (auto simp: accepted_alg_def accepted_entry_def ACCEPTED_def PLACEHOLDER_def)

lemma accepted_algD:
  assumes "accepted_alg alg"
  shows "py_true alg" "\<exists>a. alg = PStr a"
  using assms by (auto simp: accepted_alg_def accepted_entry_def ACCEPTED_def py_true_def split: pyval.splits if_splits)

lemma sized_not_empty:
  assumes "size_problem alg pk sg = None"
  shows "pk \<noteq> []" "sg \<noteq> []" "accepted_alg alg"
  using assms by (auto simp: size_problem_def accepted_alg_def split: option.splits if_splits)

lemma unhex_true: "unhex v = Some bs \<Longrightarrow> bs \<noteq> [] \<Longrightarrow> py_true v"
  by (auto simp: unhex_def py_true_def split: pyval.splits if_splits)

text \<open>
  The signature an artifact carries over a digest holds: the accepted lengths, and the two
  witnesses, of which one at least ran, say yes.
\<close>

definition signature_holds :: "env \<Rightarrow> pydict \<Rightarrow> bytes \<Rightarrow> bool" where
  "signature_holds E obj dg \<longleftrightarrow>
     (case envelope_bytes obj of None \<Rightarrow> False
      | Some (sg, pk) \<Rightarrow>
          size_problem (py_get obj ''algorithm'') pk sg = None \<and>
          agreed (verify_liboqs E dg sg pk (py_get obj ''algorithm''))
            (verify_cryptography E dg sg pk (py_get obj ''algorithm'')) = Inr True)"

lemma signature_holds_envelope:
  assumes "signature_holds E obj dg"
  shows "\<not> placeholder_envelope obj" "accepted_alg (py_get obj ''algorithm'')"
    "py_true (py_get obj ''signature_hex'')" "py_true (py_get obj ''public_key_hex'')"
proof -
  obtain sg pk where e: "unhex (py_get obj ''signature_hex'') = Some sg" "unhex (py_get obj ''public_key_hex'') = Some pk"
    and s: "size_problem (py_get obj ''algorithm'') pk sg = None"
    using assms by (auto simp: signature_holds_def envelope_bytes_def split: option.splits)
  note n = sized_not_empty [OF s]
  show "accepted_alg (py_get obj ''algorithm'')" by (rule n)
  show "py_true (py_get obj ''signature_hex'')" "py_true (py_get obj ''public_key_hex'')"
    using e n unhex_true by blast+
  then show "\<not> placeholder_envelope obj"
    using not_accepted_placeholder [OF n(3)] by (simp add: placeholder_envelope_def)
qed

lemma signature_holds_dev: "dev_mode E \<Longrightarrow> \<not> signature_holds E obj dg"
  by (auto simp: signature_holds_def verify_liboqs_def verify_cryptography_def agreed_def split: option.splits)

subsection \<open>The pack\<close>

lemma pack_signature_valid:
  "pv_valid (pack_signature E pk_hex ak dg sg pk alg) \<longleftrightarrow>
     agreed (verify_liboqs E dg sg pk alg) (verify_cryptography E dg sg pk alg) = Inr True"
  by (auto simp: pack_signature_def Let_def blank_pack_def split: sum.splits vnote.splits option.splits)

lemma pack_signature_trusted:
  "pv_valid (pack_signature E pk_hex ak dg sg pk alg) \<Longrightarrow>
     pv_trusted (pack_signature E pk_hex ak dg sg pk alg) = map_option (\<lambda>a. hex_in pk_hex (map hex_text a)) ak"
  by (auto simp: pack_signature_def Let_def blank_pack_def split: sum.splits vnote.splits option.splits)

lemma blank_pack_valid [simp]: "\<not> pv_valid (blank_pack ak)"
  by (simp add: blank_pack_def)

lemma verify_pack_signature:
  assumes "py_get p ''token_value'' = PStr s" "token_value_serial_problem (PStr s) = None"
    and "envelope_bytes p = Some (sg, pk)" "size_problem (py_get p ''algorithm'') pk sg = None"
  shows "verify_pack E (PDict p) ak =
    pack_signature E (py_get p ''public_key_hex'') ak (sha3 E (the (utf8_encode s))) sg pk (py_get p ''algorithm'')"
proof -
  note n = sized_not_empty [OF assms(4)]
  have e: "unhex (py_get p ''signature_hex'') = Some sg" "unhex (py_get p ''public_key_hex'') = Some pk"
    using assms(3) by (auto simp: envelope_bytes_def split: option.splits)
  have "s \<noteq> []" using assms(2) by (auto simp: token_value_serial_problem_def)
  then show ?thesis
    using assms n e unhex_true not_accepted_placeholder accepted_algD
    by (simp add: verify_pack_def Let_def)
qed

lemma verify_pack_valid_iff:
  "pv_valid (verify_pack E (PDict p) ak) \<longleftrightarrow>
     (\<exists>s. py_get p ''token_value'' = PStr s \<and> token_value_serial_problem (PStr s) = None \<and>
       signature_holds E p (sha3 E (the (utf8_encode s))))" (is "?l \<longleftrightarrow> ?r")
proof
  assume ?r
  then obtain s sg pk where s: "py_get p ''token_value'' = PStr s" "token_value_serial_problem (PStr s) = None"
    and e: "envelope_bytes p = Some (sg, pk)" "size_problem (py_get p ''algorithm'') pk sg = None"
    and a: "agreed (verify_liboqs E (sha3 E (the (utf8_encode s))) sg pk (py_get p ''algorithm''))
            (verify_cryptography E (sha3 E (the (utf8_encode s))) sg pk (py_get p ''algorithm'')) = Inr True"
    by (auto simp: signature_holds_def split: option.splits)
  show ?l
    by (simp only: verify_pack_signature [OF s e] pack_signature_valid a)
next
  assume l: ?l
  then obtain s where s: "py_get p ''token_value'' = PStr s"
    by (auto simp: verify_pack_def Let_def split: pyval.splits)
  moreover have t: "token_value_serial_problem (PStr s) = None"
    using l s by (auto simp: verify_pack_def Let_def split: option.splits if_splits)
  moreover obtain sg pk where "envelope_bytes p = Some (sg, pk)" "size_problem (py_get p ''algorithm'') pk sg = None"
    using l s t by (auto simp: verify_pack_def Let_def envelope_bytes_def split: option.splits if_splits)
  ultimately show ?r
    using l verify_pack_signature [OF s t] by (auto simp: signature_holds_def pack_signature_valid)
qed

lemma verify_pack_trusted:
  assumes "pv_valid (verify_pack E (PDict p) ak)"
  shows "pv_trusted (verify_pack E (PDict p) ak) = map_option (\<lambda>a. hex_in (py_get p ''public_key_hex'') (map hex_text a)) ak"
proof -
  obtain s sg pk where s: "py_get p ''token_value'' = PStr s" "token_value_serial_problem (PStr s) = None"
    and e: "envelope_bytes p = Some (sg, pk)" "size_problem (py_get p ''algorithm'') pk sg = None"
    using assms by (auto simp: verify_pack_valid_iff signature_holds_def split: option.splits)
  then show ?thesis
    using assms pack_signature_trusted by (metis verify_pack_signature)
qed

text \<open>
  A serial is no signed statement: the bytes a pack is signed over differ from those of any
  other artifact, whose canonical JSON begins with a brace.
\<close>


lemma utf8_decode_brace: "utf8_decode (123 # bs) = Some s \<Longrightarrow> hd s = 123"
  by (auto simp: utf8_decode.simps [of "123 # bs"] utf8_next_def)

lemma canonical_dict_head:
  assumes "canonical_json F (PDict d) = Some bs"
  obtains r where "bs = 123 # r"
  using assms by (auto simp: canonical_json_def byte_def split: if_splits)

lemma serial_not_statement:
  assumes "token_value_serial_problem (PStr s) = None" "canonical_json F (PDict d) = Some bs"
  shows "utf8_encode s \<noteq> Some bs"
proof
  assume e: "utf8_encode s = Some bs"
  obtain r where "bs = 123 # r" by (rule canonical_dict_head [OF assms(2)])
  then have "hd s = 123" using e utf8_decode_brace by (simp add: utf8_encode_Some_iff)
  then show False
    using assms(1) by (auto simp: token_value_serial_problem_def split: option.splits if_splits)
qed

lemma serial_encodes:
  assumes "token_value_serial_problem (PStr s) = None"
  obtains raw where "utf8_encode s = Some raw"
  using assms by (auto simp: token_value_serial_problem_def split: option.splits if_splits)

text \<open>Two named texts with one digest: what a forgery would have to come with.\<close>

definition sha3_collision :: "env \<Rightarrow> bytes \<Rightarrow> bytes \<Rightarrow> bool" where
  "sha3_collision E x y \<longleftrightarrow> x \<noteq> y \<and> sha3 E x = sha3 E y"

lemma transplant_collides:
  assumes "token_value_serial_problem (PStr s) = None"
    and "canonical_digest E names d = Some (sha3 E (the (utf8_encode s)))"
  shows "\<exists>bs. canonical_json (frepr E) (statement names d) = Some bs \<and> sha3_collision E (the (utf8_encode s)) bs"
proof -
  obtain bs where bs: "canonical_json (frepr E) (statement names d) = Some bs"
      and eq: "sha3 E bs = sha3 E (the (utf8_encode s))"
    using assms(2) by (auto simp: canonical_digest_def)
  obtain raw where raw: "utf8_encode s = Some raw" by (rule serial_encodes [OF assms(1)])
  have "raw \<noteq> bs"
    using serial_not_statement [OF assms(1)] bs raw by (auto simp: statement_def)
  then show ?thesis using bs eq raw by (simp add: sha3_collision_def)
qed

subsection \<open>The assertion\<close>

definition assertion_signed :: "env \<Rightarrow> pydict \<Rightarrow> bool" where
  "assertion_signed E a \<longleftrightarrow> py_get a ''format'' = PStr STATUS_ASSERTION_FORMAT \<and>
     (case canonical_digest E STATUS_ASSERTION_FIELDS a of None \<Rightarrow> False | Some dg \<Rightarrow> signature_holds E a dg)"

definition authentic_blank :: "env \<Rightarrow> pydict \<Rightarrow> pyval list option \<Rightarrow> sa_verdict" where
  "authentic_blank E a ak =
     (case (envelope_bytes a, canonical_digest E STATUS_ASSERTION_FIELDS a) of
        (Some (sg, pk), Some dg) \<Rightarrow>
          blank_assertion a ak\<lparr>sa_witnesses := ran_of (verify_liboqs E dg sg pk (py_get a ''algorithm''))
            (verify_cryptography E dg sg pk (py_get a ''algorithm'')), sa_authentic := True\<rparr>
      | _ \<Rightarrow> blank_assertion a ak)"

lemma verify_status_assertion_signed:
  assumes "assertion_signed E a"
  shows "verify_status_assertion E (PDict a) now cap ak = sa_window E a now cap ak (authentic_blank E a ak)"
proof -
  obtain dg where dg: "canonical_digest E STATUS_ASSERTION_FIELDS a = Some dg" and h: "signature_holds E a dg"
    and f: "py_get a ''format'' = PStr STATUS_ASSERTION_FORMAT"
    using assms by (auto simp: assertion_signed_def split: option.splits)
  obtain sg pk where e: "envelope_bytes a = Some (sg, pk)" "size_problem (py_get a ''algorithm'') pk sg = None"
    and g: "agreed (verify_liboqs E dg sg pk (py_get a ''algorithm''))
            (verify_cryptography E dg sg pk (py_get a ''algorithm'')) = Inr True"
    using h by (auto simp: signature_holds_def split: option.splits)
  show ?thesis
    using signature_holds_envelope [OF h] f e g dg
    by (simp add: verify_status_assertion_def Let_def authentic_blank_def)
qed

lemma verify_status_assertion_unsigned:
  assumes "\<not> assertion_signed E a"
  obtains v where "verify_status_assertion E (PDict a) now cap ak = Some v" "\<not> sa_authentic v" "sa_fresh v = None"
    "sa_trusted v = None"
proof (rule that)
  let ?m = "verify_status_assertion E (PDict a) now cap ak"
  have "?m \<noteq> None \<and> \<not> sa_authentic (the ?m) \<and> sa_fresh (the ?m) = None \<and> sa_trusted (the ?m) = None"
    using assms
    by (auto simp: verify_status_assertion_def Let_def assertion_signed_def signature_holds_def blank_assertion_def
        split: option.splits sum.splits if_splits bool.splits)
  then show "?m = Some (the ?m)" "\<not> sa_authentic (the ?m)" "sa_fresh (the ?m) = None" "sa_trusted (the ?m) = None"
    by auto
qed

lemma authentic_blank_simps:
  assumes "assertion_signed E a"
  shows "sa_authentic (authentic_blank E a ak)" "sa_status (authentic_blank E a ak) = py_get a ''status''"
    "sa_trusted (authentic_blank E a ak) = None"
  using assms
  by (auto simp: authentic_blank_def assertion_signed_def signature_holds_def blank_assertion_def split: option.splits)

lemma sa_window_fields:
  assumes "sa_window E a now cap ak v = Some v'" "sa_trusted v = None"
  shows "sa_authentic v' = sa_authentic v" "sa_status v' = sa_status v"
    "\<exists>why. verify_window_inline E a now cap = Some (sa_fresh v' = Some True, why) \<and>
       (why \<noteq> Some BadInstants \<longrightarrow> sa_trusted v' = map_option (\<lambda>k. hex_in (py_get a ''public_key_hex'') (map hex_text k)) ak)"
  using assms by (auto simp: sa_window_def Let_def split: option.splits if_splits)

lemma verify_window_inline_fresh_iff:
  "verify_window_inline E obj now cap = Some (True, why) \<longleftrightarrow> why = None \<and>
     (\<exists>t ia ea. instants E obj now = Some (t, ia, ea) \<and> ia \<le> t \<and> t < ea \<and>
        (cap = None \<or> (0 < width_seconds ia ea \<and> below_cap (width_seconds ia ea) (the cap) = Some True)))"
  by (auto simp: verify_window_inline_def split: option.splits if_splits)

lemma inline_nan_raises:
  "verify_window_inline E obj now (Some (PFloat FNaN)) = None \<longleftrightarrow>
     (\<exists>t ia ea. instants E obj now = Some (t, ia, ea) \<and> ia \<le> t \<and> t < ea)"
  by (auto simp: verify_window_inline_def below_cap_def writes_d_def num_value_def split: option.splits if_splits)

subsection \<open>The decision\<close>

definition key_anchored :: "pydict \<Rightarrow> pyval list \<Rightarrow> bool" where
  "key_anchored obj anchors \<longleftrightarrow> hex_in (py_get obj ''public_key_hex'') (map hex_text anchors)"

definition pack_signed :: "env \<Rightarrow> pydict \<Rightarrow> bool" where
  "pack_signed E p \<longleftrightarrow>
     (case py_get p ''token_value'' of
        PStr s \<Rightarrow> token_value_serial_problem (PStr s) = None \<and> signature_holds E p (sha3 E (the (utf8_encode s)))
      | _ \<Rightarrow> False)"

lemma pack_signed_iff: "pv_valid (verify_pack E (PDict p) ak) \<longleftrightarrow> pack_signed E p"
  by (auto simp: verify_pack_valid_iff pack_signed_def split: pyval.splits)

definition fresh_now :: "env \<Rightarrow> pydict \<Rightarrow> now_arg \<Rightarrow> pyval option \<Rightarrow> bool" where
  "fresh_now E obj now cap \<longleftrightarrow> verify_window_inline E obj now cap = Some (True, None)"

lemma stapled_accept:
  "map_option st_decision (verify_stapled E (PDict p) (PDict a) now cap ak so) = Some Accept \<longleftrightarrow>
     pack_signed E p \<and> assertion_signed E a \<and> bound_to p a \<and> fresh_now E a now cap \<and>
     py_get a ''status'' = PStr (lit ''ACTIVE'') \<and>
     (case ak of None \<Rightarrow> so | Some anchors \<Rightarrow> key_anchored p anchors \<and> key_anchored a anchors)"
  (is "?l \<longleftrightarrow> ?r")
proof (cases "pack_signed E p \<and> assertion_signed E a")
  case False
  moreover have "\<not> ?l"
  proof (cases "assertion_signed E a")
    case True
    then show ?thesis
      using False by (auto simp: verify_stapled_def Let_def pack_signed_iff split: option.splits)
  next
    case False
    then obtain v where "verify_status_assertion E (PDict a) now cap ak = Some v" "\<not> sa_authentic v"
      using verify_status_assertion_unsigned by blast
    then show ?thesis by (simp add: verify_stapled_def Let_def)
  qed
  ultimately show ?thesis by blast
next
  case True
  then have p: "pack_signed E p" and a: "assertion_signed E a" by auto
  note pt = verify_pack_trusted [of E p ak, unfolded pack_signed_iff, OF p]
  show ?thesis
  proof (cases "sa_window E a now cap ak (authentic_blank E a ak)")
    case None
    then have "verify_window_inline E a now cap = None" by (auto simp: sa_window_def Let_def split: option.splits)
    with None a show ?thesis
      by (simp add: verify_stapled_def Let_def verify_status_assertion_signed fresh_now_def)
  next
    case (Some s)
    note f = sa_window_fields [OF Some authentic_blank_simps(3) [OF a], unfolded authentic_blank_simps(2) [OF a]]
    obtain why where w: "verify_window_inline E a now cap = Some (sa_fresh s = Some True, why)"
      "why \<noteq> Some BadInstants \<longrightarrow> sa_trusted s = map_option (\<lambda>k. hex_in (py_get a ''public_key_hex'') (map hex_text k)) ak"
      using f(3) by blast
    have nw: "why = None" if "sa_fresh s = Some True"
      using w(1) that verify_window_inline_fresh_iff by auto
    let ?c = "verify_pack E (PDict p) ak"
    have "?l \<longleftrightarrow> pv_trusted ?c \<noteq> Some False \<and> bound_to p a \<and> sa_trusted s \<noteq> Some False \<and> sa_fresh s = Some True \<and>
        py_get a ''status'' = PStr (lit ''ACTIVE'') \<and> (so \<or> pv_trusted ?c \<noteq> None \<and> sa_trusted s \<noteq> None)"
      using Some p f(1,2) authentic_blank_simps(1) [OF a]
      by (auto simp: verify_stapled_def Let_def verify_status_assertion_signed [OF a] pack_signed_iff)
    also have "\<dots> \<longleftrightarrow> ?r"
    proof (cases "sa_fresh s = Some True")
      case True
      then show ?thesis
        using p a nw w pt by (cases ak) (auto simp: fresh_now_def key_anchored_def)
    next
      case False
      then show ?thesis using w(1) by (simp add: fresh_now_def)
    qed
    finally show ?thesis .
  qed
qed

subsection \<open>The manifest\<close>

definition manifest_signed :: "env \<Rightarrow> pydict \<Rightarrow> bool" where
  "manifest_signed E m \<longleftrightarrow> py_get m ''format'' = PStr MANIFEST_FORMAT \<and>
     hex_in (py_get m ''public_key_hex'') (active_anchor_keys (as_list (py_get m ''anchors''))) \<and>
     (case canonical_digest E MANIFEST_FIELDS m of None \<Rightarrow> False | Some dg \<Rightarrow> signature_holds E m dg)"

lemma verify_manifest_unsigned:
  assumes "\<not> manifest_signed E m"
  shows "\<exists>v. verify_manifest E (PDict m) now cap ta = Some v \<and> \<not> mv_authentic v \<and> mv_trusted v = None"
  using assms
  by (auto simp: verify_manifest_def Let_def manifest_signed_def signature_holds_def blank_manifest_def
      split: option.splits sum.splits if_splits bool.splits)

lemma verify_manifest_signed:
  assumes "manifest_signed E m"
  obtains v where "mv_authentic v" "mv_trusted v = None" "mv_anchors v = as_list (py_get m ''anchors'')"
    "verify_manifest E (PDict m) now cap ta = manifest_window E m now cap ta v"
proof -
  obtain dg where dg: "canonical_digest E MANIFEST_FIELDS m = Some dg" and h: "signature_holds E m dg"
    and f: "py_get m ''format'' = PStr MANIFEST_FORMAT"
      "hex_in (py_get m ''public_key_hex'') (active_anchor_keys (as_list (py_get m ''anchors'')))"
    using assms by (auto simp: manifest_signed_def split: option.splits)
  obtain sg pk where e: "envelope_bytes m = Some (sg, pk)" "size_problem (py_get m ''algorithm'') pk sg = None"
    and g: "agreed (verify_liboqs E dg sg pk (py_get m ''algorithm''))
            (verify_cryptography E dg sg pk (py_get m ''algorithm'')) = Inr True"
    using h by (auto simp: signature_holds_def split: option.splits)
  let ?v = "blank_manifest m\<lparr>mv_witnesses := ran_of (verify_liboqs E dg sg pk (py_get m ''algorithm''))
            (verify_cryptography E dg sg pk (py_get m ''algorithm'')), mv_authentic := True\<rparr>"
  have "verify_manifest E (PDict m) now cap ta = manifest_window E m now cap ta ?v"
    using signature_holds_envelope [OF h] f e g dg
    by (simp add: verify_manifest_def Let_def blank_manifest_def)
  then show ?thesis by (rule that [rotated 3]) (simp_all add: blank_manifest_def)
qed

lemma manifest_window_iff:
  assumes "mv_authentic v" "mv_trusted v = None"
  shows "map_option (\<lambda>v. (mv_authentic v, mv_fresh v, mv_trusted v)) (manifest_window E m now cap ta v) =
     Some (True, Some True, Some True) \<longleftrightarrow>
     fresh_now E m now cap \<and> (\<exists>anchors. ta = Some anchors \<and> key_anchored m anchors)"
proof (cases "verify_window_inline E m now cap")
  case None
  then show ?thesis by (simp add: manifest_window_def fresh_now_def)
next
  case (Some r)
  then obtain fresh why where r: "verify_window_inline E m now cap = Some (fresh, why)" by (cases r) simp
  have w: "why = None" if "fresh"
    using r that by (simp add: verify_window_inline_fresh_iff)
  show ?thesis
  proof (cases fresh)
    case True
    with r w assms show ?thesis
      by (cases ta) (simp_all add: manifest_window_def fresh_now_def key_anchored_def)
  next
    case False
    with r show ?thesis by (auto simp: manifest_window_def Let_def fresh_now_def split: option.split)
  qed
qed

lemma manifest_trusted:
  "map_option (\<lambda>v. (mv_authentic v, mv_fresh v, mv_trusted v)) (verify_manifest E (PDict m) now cap ta) =
     Some (True, Some True, Some True) \<longleftrightarrow>
     manifest_signed E m \<and> fresh_now E m now cap \<and> (\<exists>anchors. ta = Some anchors \<and> key_anchored m anchors)"
proof (cases "manifest_signed E m")
  case True
  then obtain v where v: "mv_authentic v" "mv_trusted v = None"
    and eq: "verify_manifest E (PDict m) now cap ta = manifest_window E m now cap ta v"
    by (rule verify_manifest_signed)
  show ?thesis unfolding eq manifest_window_iff [OF v] using True by simp
next
  case False
  then show ?thesis using verify_manifest_unsigned [OF False, of now cap ta] by auto
qed

section \<open>Properties\<close>

text \<open>
  C8. The offline decision accepts exactly when the token is a credential serial the pack's
  signature verifies over, the assertion's signature verifies over its own canonical statement,
  the two name the same token under the same key, the assertion is ACTIVE and its window holds
  now and fits the cap, and both keys are among the caller's anchors, or, where the caller gave
  none, the caller asked for signatures alone.
\<close>

theorem stapled_accepts_exactly:
  "map_option st_decision (verify_stapled E (PDict p) (PDict a) now cap ak so) = Some Accept \<longleftrightarrow>
     pack_signed E p \<and> assertion_signed E a \<and> bound_to p a \<and> fresh_now E a now cap \<and>
     py_get a ''status'' = PStr (lit ''ACTIVE'') \<and>
     (case ak of None \<Rightarrow> so | Some anchors \<Rightarrow> key_anchored p anchors \<and> key_anchored a anchors)"
  by (rule stapled_accept)

text \<open>
  C12. A signature over another artifact's statement is worth nothing as a credential: a pack whose
  token is a serial and whose digest is that of a canonical statement comes with a SHA3-256 collision, of
  its own serial with that statement's canonical text.
\<close>

theorem transplant_needs_a_collision:
  assumes "token_value_serial_problem (PStr s) = None"
    and "canonical_digest E names d = Some (sha3 E (the (utf8_encode s)))"
  shows "\<exists>bs. canonical_json (frepr E) (statement names d) = Some bs \<and> sha3_collision E (the (utf8_encode s)) bs"
  by (rule transplant_collides [OF assms])

definition no_backend :: env where
  "no_backend = \<lparr>sha3 = (\<lambda>_. []), frepr = (\<lambda>_. []), pyrepr = (\<lambda>_. []), ulower = (\<lambda>s. s), clock = 0, dev_mode = False, liboqs = None, openssl = None\<rparr>"

lemma transplant_needs_a_collision_witness:
  "\<exists>bs. canonical_json (frepr no_backend) (statement [] []) = Some bs \<and> sha3_collision no_backend (the (utf8_encode [65])) bs"
proof (rule transplant_needs_a_collision [where s = "[65]" and names = "[]" and d = "[]"])
  show "token_value_serial_problem (PStr [65]) = None"
    by (simp add: token_value_serial_problem_def utf8_encode_def scalar_def utf8_raw_def utf8_char_def
        TOKEN_VALUE_MAX_BYTES_def)
  show "canonical_digest no_backend [] [] = Some (sha3 no_backend (the (utf8_encode [65])))"
    by (simp add: canonical_digest_def no_backend_def canonical_json_def statement_def)
qed

text \<open>
  A cap that is no number: \<open>verify_status_assertion\<close> does not refuse it, it raises, and
  exactly when the assertion is authentic and now is inside its window; the shared gate
  \<open>_verify_window\<close> returns a refusal for the same artifact.
\<close>

theorem assertion_nan_cap_raises:
  "verify_status_assertion E (PDict a) now (Some (PFloat FNaN)) ak = None \<longleftrightarrow>
     assertion_signed E a \<and> verify_window E a now (Some (PFloat FNaN)) = Some (False, Some WindowTooWide)"
proof (cases "assertion_signed E a")
  case True
  have "sa_window E a now (Some (PFloat FNaN)) ak v = None \<longleftrightarrow>
      verify_window E a now (Some (PFloat FNaN)) = Some (False, Some WindowTooWide)" for v
    using inline_nan_raises [of E a now]
    by (auto simp: sa_window_def verify_window_def window_within_def finite_num_def Let_def split: option.splits if_splits)
  with True show ?thesis by (simp add: verify_status_assertion_signed)
next
  case False
  then show ?thesis using verify_status_assertion_unsigned [OF False, of now "Some (PFloat FNaN)" ak] by auto
qed

text \<open>
  A manifest is authentic, fresh and trusted exactly when its signature verifies over its
  statement under a key it declares as one of its own active anchors, its window holds now, and
  that same key is among the anchors the caller named: naming another trusted anchor in its list
  does not help.
\<close>

theorem manifest_trusted_exactly:
  "map_option (\<lambda>v. (mv_authentic v, mv_fresh v, mv_trusted v)) (verify_manifest E (PDict m) now cap ta) =
     Some (True, Some True, Some True) \<longleftrightarrow>
     manifest_signed E m \<and> fresh_now E m now cap \<and> (\<exists>anchors. ta = Some anchors \<and> key_anchored m anchors)"
  by (rule manifest_trusted)

end
