(* ===== verification/EpochFeeds.thy ===== *)
theory EpochFeeds
  imports SignedArtifacts "HOL-Library.Multiset"
begin

text \<open>
  Epoch checkpoints, revocation feeds and status bundles of \<open>polaris_verify_cli/verifier.py\<close>: the
  three signed artifacts, the commitments two of them carry, and the structural detectors that
  compare two of them (\<open>check_epoch_chain\<close>, \<open>epoch_aligned\<close>, \<open>check_revocation_progression\<close>).
\<close>

section \<open>Text\<close>

text \<open>\<open>str(x)\<close>, \<open>str.lower\<close> and \<open>"\n".join\<close>.\<close>

definition py_str :: "env \<Rightarrow> pyval \<Rightarrow> ustr" where
  "py_str E v =
     (case v of PNone \<Rightarrow> lit ''None'' | PBool b \<Rightarrow> if b then lit ''True'' else lit ''False'' | PInt n \<Rightarrow> int_str n
      | PFloat f \<Rightarrow> frepr E f | PStr s \<Rightarrow> s | _ \<Rightarrow> pyrepr E v)"

definition lower_text :: "env \<Rightarrow> ustr \<Rightarrow> ustr" where
  "lower_text E s = (if ascii s then py_lower s else ulower E s)"

definition leaf_texts :: "env \<Rightarrow> pyval list \<Rightarrow> ustr list" where
  "leaf_texts E xs = map (\<lambda>x. lower_text E (py_str E x)) xs"

fun join_lines :: "ustr list \<Rightarrow> ustr" where
  "join_lines [] = []"
| "join_lines [x] = x"
| "join_lines (x # y # r) = x @ 10 # join_lines (y # r)"

section \<open>Epoch checkpoints\<close>

definition EPOCH_CHECKPOINT_FORMAT :: ustr where "EPOCH_CHECKPOINT_FORMAT = lit ''polaris-epoch-checkpoint/1''"

definition EPOCH_CHECKPOINT_FIELDS :: "string list" where
  "EPOCH_CHECKPOINT_FIELDS = [''format'', ''authority'', ''epoch'', ''prev'', ''as_of'',
     ''issued_at'', ''expires_at'', ''algorithm'']"

record checkpoint_verdict =
  ec_authentic :: bool
  ec_fresh :: "bool option"
  ec_issuer_matches :: "bool option"
  ec_authority :: pyval
  ec_epoch :: pyval
  ec_prev :: pyval
  ec_witnesses :: "(string \<times> bool) list"
  ec_note :: "vnote option"

definition blank_checkpoint :: "pydict \<Rightarrow> checkpoint_verdict" where
  "blank_checkpoint cp =
     \<lparr>ec_authentic = False, ec_fresh = None, ec_issuer_matches = None, ec_authority = py_get cp ''authority'',
      ec_epoch = py_get cp ''epoch'', ec_prev = py_get cp ''prev'', ec_witnesses = [], ec_note = None\<rparr>"

definition or_note :: "vnote option \<Rightarrow> vnote \<Rightarrow> vnote option" where
  "or_note n d = (case n of None \<Rightarrow> Some d | Some w \<Rightarrow> Some w)"

definition verify_epoch_checkpoint ::
    "env \<Rightarrow> pyval \<Rightarrow> now_arg \<Rightarrow> pyval option \<Rightarrow> pyval option \<Rightarrow> checkpoint_verdict option" where
  "verify_epoch_checkpoint E checkpoint now cap issuer_key =
     (let cp = as_dict checkpoint; v = blank_checkpoint cp
      in if py_get cp ''format'' \<noteq> PStr EPOCH_CHECKPOINT_FORMAT then
           Some (v\<lparr>ec_note := Some (NotA EPOCH_CHECKPOINT_FORMAT)\<rparr>)
         else if placeholder_envelope cp then Some (v\<lparr>ec_note := Some Placeholder\<rparr>)
         else
           (case envelope_bytes cp of None \<Rightarrow> Some (v\<lparr>ec_note := Some NotHex\<rparr>)
            | Some (sg, pk) \<Rightarrow>
                (case two_witness_verify E (canonical_digest E EPOCH_CHECKPOINT_FIELDS cp) sg pk (py_get cp ''algorithm'') of
                   (None, tried, n) \<Rightarrow> Some (v\<lparr>ec_witnesses := tried, ec_note := n\<rparr>)
                 | (Some False, tried, n) \<Rightarrow> Some (v\<lparr>ec_witnesses := tried, ec_note := or_note n BadSignature\<rparr>)
                 | (Some True, tried, n) \<Rightarrow>
                     (case verify_window E cp now cap of None \<Rightarrow> None
                      | Some (fresh, why) \<Rightarrow>
                          Some (v\<lparr>ec_authentic := True, ec_fresh := Some fresh, ec_witnesses := tried, ec_note := why,
                            ec_issuer_matches := map_option (same_hex (py_get cp ''public_key_hex'')) issuer_key\<rparr>)))))"

section \<open>Two checkpoints\<close>

datatype chain_note =
    DifferentKeys | NotFinite nat pyval | ForkSameEpoch | IdenticalEpoch | ForkNotExtending | AdjacentChain | NonAdjacent

record chain_verdict =
  cv_consistent :: bool
  cv_fork :: bool
  cv_note :: chain_note

definition different_keys :: "pydict \<Rightarrow> pydict \<Rightarrow> bool" where
  "different_keys a b \<longleftrightarrow>
     (let k = hex_text (py_get a ''public_key_hex''); l = hex_text (py_get b ''public_key_hex'')
      in k \<noteq> None \<and> l \<noteq> None \<and> k \<noteq> l)"

text \<open>\<open>n + 1\<close>: exact on an integer, rounded on a float.\<close>

definition next_number :: "pyval \<Rightarrow> pyval" where
  "next_number n =
     (case n of PInt i \<Rightarrow> PInt (i + 1) | PFloat f \<Rightarrow> PFloat (py_float (the (num_value n) + 1)) | _ \<Rightarrow> PNone)"

definition compare_epochs :: "pydict \<Rightarrow> pydict \<Rightarrow> pydict \<Rightarrow> chain_verdict" where
  "compare_epochs elo hi ehi =
     (let nlo = py_get elo ''number''; nhi = py_get ehi ''number'';
          same_root = same_hex (py_get elo ''root_hex'') (py_get ehi ''root_hex'');
          hp = as_dict (py_get hi ''prev'')
      in if py_eq nlo nhi then
           (if \<not> same_root then \<lparr>cv_consistent = False, cv_fork = True, cv_note = ForkSameEpoch\<rparr>
            else \<lparr>cv_consistent = True, cv_fork = False, cv_note = IdenticalEpoch\<rparr>)
         else if py_eq nhi (next_number nlo) then
           (if \<not> py_eq (py_get hp ''number'') nlo \<or> \<not> same_hex (py_get hp ''root_hex'') (py_get elo ''root_hex'')
            then \<lparr>cv_consistent = False, cv_fork = True, cv_note = ForkNotExtending\<rparr>
            else \<lparr>cv_consistent = True, cv_fork = False, cv_note = AdjacentChain\<rparr>)
         else \<lparr>cv_consistent = True, cv_fork = False, cv_note = NonAdjacent\<rparr>)"

definition check_epoch_chain :: "pyval \<Rightarrow> pyval \<Rightarrow> chain_verdict option" where
  "check_epoch_chain a b =
     (let cp1 = as_dict a; cp2 = as_dict b;
          e1 = as_dict (py_get cp1 ''epoch''); e2 = as_dict (py_get cp2 ''epoch'');
          n1 = py_get e1 ''number''; n2 = py_get e2 ''number'';
          refused = (\<lambda>w. \<lparr>cv_consistent = False, cv_fork = False, cv_note = w\<rparr>)
      in if different_keys cp1 cp2 then Some (refused DifferentKeys)
         else
           (case finite_num n1 of None \<Rightarrow> None | Some False \<Rightarrow> Some (refused (NotFinite 1 n1))
            | Some True \<Rightarrow>
                (case finite_num n2 of None \<Rightarrow> None | Some False \<Rightarrow> Some (refused (NotFinite 2 n2))
                 | Some True \<Rightarrow>
                     Some (if the (num_value n1) \<le> the (num_value n2) then compare_epochs e1 cp2 e2
                           else compare_epochs e2 cp1 e1))))"

definition epoch_aligned :: "pyval \<Rightarrow> pyval \<Rightarrow> bool option" where
  "epoch_aligned manifest checkpoint =
     (let me = as_dict (py_get (as_dict manifest) ''epoch''); ce = as_dict (py_get (as_dict checkpoint) ''epoch'')
      in if py_get me ''number'' = PNone \<or> py_get ce ''number'' = PNone then None
         else Some (py_eq (py_get me ''number'') (py_get ce ''number'') \<and>
           same_hex (py_get me ''root_hex'') (py_get ce ''root_hex'')))"

section \<open>Revocation feeds\<close>

definition REVOCATION_FEED_FORMAT :: ustr where "REVOCATION_FEED_FORMAT = lit ''polaris-revocation-feed/1''"

definition REVOCATION_FEED_FIELDS :: "string list" where
  "REVOCATION_FEED_FIELDS = [''format'', ''authority'', ''epoch_number'', ''as_of'', ''revoked_root_hex'',
     ''revoked_count'', ''revoked_leaves'', ''issued_at'', ''expires_at'', ''algorithm'']"

definition hex64 :: "pyval \<Rightarrow> bool" where
  "hex64 x = (case x of PStr s \<Rightarrow> length s = 64 \<and> list_all (\<lambda>c. hex_digit c \<noteq> None) s | _ \<Rightarrow> False)"

definition leaves_are_hex :: "pyval \<Rightarrow> bool" where
  "leaves_are_hex leaves = (case leaves of PList xs \<Rightarrow> list_all hex64 xs | _ \<Rightarrow> False)"

text \<open>The list of a Python set of strings, sorted by code points.\<close>

definition revoked_root :: "env \<Rightarrow> pyval \<Rightarrow> ustr option" where
  "revoked_root E leaves =
     (let uniq = sort (remdups (leaf_texts E (as_list leaves)))
      in map_option (\<lambda>bs. hex_of (sha3 E bs)) (utf8_encode (join_lines uniq)))"

definition revocation_leaf :: "env \<Rightarrow> ustr \<Rightarrow> ustr option" where
  "revocation_leaf E token = map_option (\<lambda>bs. hex_of (sha3 E bs)) (utf8_encode token)"

text \<open>\<open>commitment_ok\<close>. The root is computed only of leaves that are hex, whose text is ASCII.\<close>

definition feed_commits :: "env \<Rightarrow> pydict \<Rightarrow> bool" where
  "feed_commits E feed \<longleftrightarrow>
     (let leaves = py_get feed ''revoked_leaves''; rc = py_get feed ''revoked_count'' in
      leaves_are_hex leaves \<and> revoked_root E leaves \<noteq> None \<and>
      revoked_root E leaves = hex_text (py_get feed ''revoked_root_hex'') \<and>
      signed_count rc \<and> py_eq (PInt (int (length (remdups (leaf_texts E (as_list leaves)))))) rc)"

record feed_verdict =
  rf_authentic :: bool
  rf_fresh :: "bool option"
  rf_commitment_ok :: "bool option"
  rf_issuer_matches :: "bool option"
  rf_authority :: pyval
  rf_as_of :: pyval
  rf_revoked_count :: pyval
  rf_witnesses :: "(string \<times> bool) list"
  rf_note :: "vnote option"

definition blank_feed :: "pydict \<Rightarrow> feed_verdict" where
  "blank_feed feed =
     \<lparr>rf_authentic = False, rf_fresh = None, rf_commitment_ok = None, rf_issuer_matches = None,
      rf_authority = py_get feed ''authority'', rf_as_of = py_get feed ''as_of'',
      rf_revoked_count = py_get feed ''revoked_count'', rf_witnesses = [], rf_note = None\<rparr>"

definition verify_revocation_feed ::
    "env \<Rightarrow> pyval \<Rightarrow> now_arg \<Rightarrow> pyval option \<Rightarrow> pyval option \<Rightarrow> feed_verdict option" where
  "verify_revocation_feed E feed0 now cap issuer_key =
     (let feed = as_dict feed0; v = blank_feed feed
      in if py_get feed ''format'' \<noteq> PStr REVOCATION_FEED_FORMAT then
           Some (v\<lparr>rf_note := Some (NotA REVOCATION_FEED_FORMAT)\<rparr>)
         else if placeholder_envelope feed then Some (v\<lparr>rf_note := Some Placeholder\<rparr>)
         else
           let commits = feed_commits E feed; v2 = v\<lparr>rf_commitment_ok := Some commits\<rparr>
           in (case envelope_bytes feed of None \<Rightarrow> Some (v2\<lparr>rf_note := Some NotHex\<rparr>)
               | Some (sg, pk) \<Rightarrow>
                   (case two_witness_verify E (canonical_digest E REVOCATION_FEED_FIELDS feed) sg pk (py_get feed ''algorithm'') of
                      (None, tried, n) \<Rightarrow> Some (v2\<lparr>rf_witnesses := tried, rf_note := n\<rparr>)
                    | (Some False, tried, n) \<Rightarrow> Some (v2\<lparr>rf_witnesses := tried, rf_note := or_note n BadSignature\<rparr>)
                    | (Some True, tried, n) \<Rightarrow>
                        if \<not> commits then Some (v2\<lparr>rf_witnesses := tried, rf_note := Some CommitmentMismatch\<rparr>)
                        else
                          (case verify_window E feed now cap of None \<Rightarrow> None
                           | Some (fresh, why) \<Rightarrow>
                               Some (v2\<lparr>rf_authentic := True, rf_fresh := Some fresh, rf_witnesses := tried, rf_note := why,
                                 rf_issuer_matches := map_option (same_hex (py_get feed ''public_key_hex'')) issuer_key\<rparr>)))))"

definition is_revoked :: "env \<Rightarrow> pyval \<Rightarrow> pyval \<Rightarrow> bool option" where
  "is_revoked E feed token_value =
     (case feed of PDict d \<Rightarrow>
        (case revocation_leaf E (if py_true token_value then py_str E token_value else []) of None \<Rightarrow> None
         | Some leaf \<Rightarrow>
             Some (case py_get d ''revoked_leaves'' of PList xs \<Rightarrow> lower_text E leaf \<in> set (leaf_texts E xs) | _ \<Rightarrow> False))
      | _ \<Rightarrow> Some False)"

section \<open>Two feeds\<close>

datatype progression_note =
    OtherIssuer | LeavesNotAList nat | DroppedLeaves nat | AsOfUnreadable | AsOfRegressed | Forward nat

record progression_verdict =
  pg_progresses :: bool
  pg_rolled_back :: bool
  pg_note :: progression_note

definition not_a_list :: "pydict \<Rightarrow> bool" where
  "not_a_list feed = (case py_get feed ''revoked_leaves'' of PNone \<Rightarrow> False | PList _ \<Rightarrow> False | _ \<Rightarrow> True)"

definition check_revocation_progression :: "env \<Rightarrow> pyval \<Rightarrow> pyval \<Rightarrow> progression_verdict" where
  "check_revocation_progression E older newer =
     (let p = as_dict older; n = as_dict newer;
          refused = (\<lambda>w. \<lparr>pg_progresses = False, pg_rolled_back = False, pg_note = w\<rparr>);
          rolled = (\<lambda>w. \<lparr>pg_progresses = False, pg_rolled_back = True, pg_note = w\<rparr>);
          prev_leaves = remdups (leaf_texts E (as_list (py_get p ''revoked_leaves'')));
          next_leaves = remdups (leaf_texts E (as_list (py_get n ''revoked_leaves'')));
          dropped = filter (\<lambda>x. x \<notin> set next_leaves) prev_leaves
      in if different_keys p n then refused OtherIssuer
         else if not_a_list p then refused (LeavesNotAList 1)
         else if not_a_list n then refused (LeavesNotAList 2)
         else if dropped \<noteq> [] then rolled (DroppedLeaves (length dropped))
         else
           (case (instant_at p ''as_of'', instant_at n ''as_of'') of
              (Some pa, Some na) \<Rightarrow>
                if na < pa then rolled AsOfRegressed
                else \<lparr>pg_progresses = True, pg_rolled_back = False,
                  pg_note = Forward (length (filter (\<lambda>x. x \<notin> set prev_leaves) next_leaves))\<rparr>
            | _ \<Rightarrow> refused AsOfUnreadable))"

section \<open>The status bundle\<close>

definition STATUS_BUNDLE_FORMAT :: ustr where "STATUS_BUNDLE_FORMAT = lit ''polaris-federation-status-bundle/1''"

definition STATUS_BUNDLE_FIELDS :: "string list" where
  "STATUS_BUNDLE_FIELDS = [''format'', ''publisher'', ''members_root_hex'', ''member_count'',
     ''issued_at'', ''expires_at'', ''algorithm'']"

definition bundle_members_root :: "env \<Rightarrow> pyval list \<Rightarrow> ustr option" where
  "bundle_members_root E members =
     (case those (map (canonical_json (frepr E)) members) of None \<Rightarrow> None
      | Some texts \<Rightarrow>
          Some (hex_of (sha3 E (map byte (join_lines (sort (map (\<lambda>bs. hex_of (sha3 E bs)) texts)))))))"

record bundle_verdict =
  sb_authentic :: bool
  sb_fresh :: "bool option"
  sb_commitment_ok :: "bool option"
  sb_publisher_matches :: "bool option"
  sb_publisher :: pyval
  sb_member_count :: pyval
  sb_members :: pyval
  sb_witnesses :: "(string \<times> bool) list"
  sb_note :: "vnote option"

definition blank_bundle :: "pydict \<Rightarrow> bundle_verdict" where
  "blank_bundle b =
     \<lparr>sb_authentic = False, sb_fresh = None, sb_commitment_ok = None, sb_publisher_matches = None,
      sb_publisher = py_get b ''publisher'', sb_member_count = py_get b ''member_count'',
      sb_members = (if py_true (py_get b ''members'') then py_get b ''members'' else PList []),
      sb_witnesses = [], sb_note = None\<rparr>"

definition bundle_commits :: "env \<Rightarrow> pydict \<Rightarrow> bool" where
  "bundle_commits E b \<longleftrightarrow>
     (let members = as_list (py_get b ''members''); count = py_get b ''member_count'' in
      bundle_members_root E members \<noteq> None \<and>
      bundle_members_root E members = hex_text (py_get b ''members_root_hex'') \<and>
      signed_count count \<and> py_eq count (PInt (int (length members))))"

definition verify_status_bundle ::
    "env \<Rightarrow> pyval \<Rightarrow> now_arg \<Rightarrow> pyval option \<Rightarrow> pyval option \<Rightarrow> bundle_verdict option" where
  "verify_status_bundle E bundle now cap publisher_key =
     (let b = as_dict bundle; v = blank_bundle b
      in if py_get b ''format'' \<noteq> PStr STATUS_BUNDLE_FORMAT then
           Some (v\<lparr>sb_note := Some (NotA STATUS_BUNDLE_FORMAT)\<rparr>)
         else if placeholder_envelope b then Some (v\<lparr>sb_note := Some Placeholder\<rparr>)
         else
           let commits = bundle_commits E b;
               v2 = v\<lparr>sb_commitment_ok := Some commits, sb_members := PList (as_list (py_get b ''members''))\<rparr>
           in (case envelope_bytes b of None \<Rightarrow> Some (v2\<lparr>sb_note := Some NotHex\<rparr>)
               | Some (sg, pk) \<Rightarrow>
                   (case two_witness_verify E (canonical_digest E STATUS_BUNDLE_FIELDS b) sg pk (py_get b ''algorithm'') of
                      (None, tried, n) \<Rightarrow> Some (v2\<lparr>sb_witnesses := tried, sb_note := n\<rparr>)
                    | (Some False, tried, n) \<Rightarrow> Some (v2\<lparr>sb_witnesses := tried, sb_note := or_note n BadSignature\<rparr>)
                    | (Some True, tried, n) \<Rightarrow>
                        if \<not> commits then Some (v2\<lparr>sb_witnesses := tried, sb_note := Some CommitmentMismatch\<rparr>)
                        else
                          (case verify_window E b now cap of None \<Rightarrow> None
                           | Some (fresh, why) \<Rightarrow>
                               Some (v2\<lparr>sb_authentic := True, sb_fresh := Some fresh, sb_witnesses := tried, sb_note := why,
                                 sb_publisher_matches := map_option (same_hex (py_get b ''public_key_hex'')) publisher_key\<rparr>)))))"

section \<open>What a verified artifact carries\<close>

definition signed_statement :: "env \<Rightarrow> string list \<Rightarrow> pydict \<Rightarrow> bool" where
  "signed_statement E names obj \<longleftrightarrow>
     (case canonical_digest E names obj of None \<Rightarrow> False | Some dg \<Rightarrow> signature_holds E obj dg)"

lemma two_witness_True:
  assumes "envelope_bytes obj = Some (sg, pk)"
    and "two_witness_verify E (canonical_digest E names obj) sg pk (py_get obj ''algorithm'') = (r, tried, n)"
  shows "r = Some True \<longleftrightarrow> signed_statement E names obj"
  using assms
  by (auto simp: two_witness_verify_def signed_statement_def signature_holds_def Let_def accepted_alg_def
      size_problem_def split: option.splits if_splits sum.splits)

lemma two_witness_TrueD:
  assumes "two_witness_verify E (canonical_digest E names obj) sg pk (py_get obj ''algorithm'') = (Some True, tried, n)"
    and "envelope_bytes obj = Some (sg, pk)"
  shows "signed_statement E names obj"
  using two_witness_True [OF assms(2,1)] by simp

lemma signed_statementE:
  assumes "signed_statement E names obj"
  obtains sg pk tried n where "\<not> placeholder_envelope obj" "envelope_bytes obj = Some (sg, pk)"
    "two_witness_verify E (canonical_digest E names obj) sg pk (py_get obj ''algorithm'') = (Some True, tried, n)"
proof -
  have p: "\<not> placeholder_envelope obj"
    using assms signature_holds_envelope(1) by (auto simp: signed_statement_def split: option.splits)
  obtain sg pk where e: "envelope_bytes obj = Some (sg, pk)"
    using assms by (auto simp: signed_statement_def signature_holds_def split: option.splits)
  obtain r tried n where w: "two_witness_verify E (canonical_digest E names obj) sg pk (py_get obj ''algorithm'') = (r, tried, n)"
    by (metis prod_cases3)
  then show ?thesis using that [OF p e] two_witness_True [OF e w] assms by simp
qed

lemma checkpoint_authentic_iff:
  "map_option (\<lambda>v. (ec_authentic v, ec_fresh v, ec_issuer_matches v))
     (verify_epoch_checkpoint E (PDict cp) now cap key) = Some (True, Some True, Some True) \<longleftrightarrow>
   py_get cp ''format'' = PStr EPOCH_CHECKPOINT_FORMAT \<and> signed_statement E EPOCH_CHECKPOINT_FIELDS cp \<and>
   map_option fst (verify_window E cp now cap) = Some True \<and>
   (\<exists>k. key = Some k \<and> same_hex (py_get cp ''public_key_hex'') k)"
proof (cases "signed_statement E EPOCH_CHECKPOINT_FIELDS cp")
  case True
  then show ?thesis
    by (elim signed_statementE) (auto simp: verify_epoch_checkpoint_def Let_def blank_checkpoint_def True split: option.splits)
next
  case False
  then show ?thesis
    by (auto simp: verify_epoch_checkpoint_def Let_def blank_checkpoint_def dest: two_witness_TrueD
        split: option.splits prod.splits bool.splits)
qed

lemma feed_authentic_iff:
  "map_option (\<lambda>v. (rf_authentic v, rf_fresh v, rf_issuer_matches v))
     (verify_revocation_feed E (PDict f) now cap key) = Some (True, Some True, Some True) \<longleftrightarrow>
   py_get f ''format'' = PStr REVOCATION_FEED_FORMAT \<and> signed_statement E REVOCATION_FEED_FIELDS f \<and>
   feed_commits E f \<and>
   map_option fst (verify_window E f now cap) = Some True \<and>
   (\<exists>k. key = Some k \<and> same_hex (py_get f ''public_key_hex'') k)"
proof (cases "signed_statement E REVOCATION_FEED_FIELDS f")
  case True
  then show ?thesis
    by (elim signed_statementE) (auto simp: verify_revocation_feed_def Let_def blank_feed_def True split: option.splits)
next
  case False
  then show ?thesis
    by (auto simp: verify_revocation_feed_def Let_def blank_feed_def dest: two_witness_TrueD
        split: option.splits prod.splits bool.splits)
qed

lemma bundle_authentic_iff:
  "map_option (\<lambda>v. (sb_authentic v, sb_fresh v, sb_publisher_matches v))
     (verify_status_bundle E (PDict b) now cap key) = Some (True, Some True, Some True) \<longleftrightarrow>
   py_get b ''format'' = PStr STATUS_BUNDLE_FORMAT \<and> signed_statement E STATUS_BUNDLE_FIELDS b \<and>
   bundle_commits E b \<and>
   map_option fst (verify_window E b now cap) = Some True \<and>
   (\<exists>k. key = Some k \<and> same_hex (py_get b ''public_key_hex'') k)"
proof (cases "signed_statement E STATUS_BUNDLE_FIELDS b")
  case True
  then show ?thesis
    by (elim signed_statementE) (auto simp: verify_status_bundle_def Let_def blank_bundle_def True split: option.splits)
next
  case False
  then show ?thesis
    by (auto simp: verify_status_bundle_def Let_def blank_bundle_def dest: two_witness_TrueD
        split: option.splits prod.splits bool.splits)
qed

section \<open>Commitments\<close>

text \<open>Lines without a line feed are read back from their join.\<close>

lemma join_lines_inject:
  assumes "join_lines xs = join_lines ys" "\<forall>x \<in> set xs. 10 \<notin> set x \<and> x \<noteq> []" "\<forall>y \<in> set ys. 10 \<notin> set y \<and> y \<noteq> []"
  shows "xs = ys"
  using assms
proof (induction xs arbitrary: ys rule: join_lines.induct)
  case 1
  then show ?case by (cases ys rule: join_lines.cases) auto
next
  case (2 x)
  then show ?case by (cases ys rule: join_lines.cases) auto
next
  case (3 x y r)
  then obtain u v s where ys: "ys = u # v # s" by (cases ys rule: join_lines.cases) auto
  have "x = u \<and> join_lines (y # r) = join_lines (v # s)"
    using "3.prems" ys by (auto simp: append_eq_append_conv2 append_eq_Cons_conv Cons_eq_append_conv)
  then show ?case using "3.IH" [of "v # s"] "3.prems" ys by auto
qed

lemma hex_of_inject: "hex_of a = hex_of b \<longleftrightarrow> a = b"
  by (metis fromhex_hex_of option.inject)

lemma hex_of_chars: "c \<in> set (hex_of bs) \<Longrightarrow> c \<noteq> 10 \<and> c < 0x80"
proof -
  assume "c \<in> set (hex_of bs)"
  then obtain n where "hex_digit c = Some n" using hex_digits_hex_of [of bs] by (auto simp: list_all_iff)
  then show ?thesis by (auto simp: hex_digit_def split: if_splits)
qed

lemma hex64_text:
  assumes "hex64 x"
  shows "ascii (lower_text E (py_str E x))" "lower_text E (py_str E x) \<noteq> []" "10 \<notin> set (lower_text E (py_str E x))"
proof -
  obtain s where x: "x = PStr s" "length s = 64" and h: "list_all (\<lambda>c. hex_digit c \<noteq> None) s"
    using assms by (auto simp: hex64_def split: pyval.splits)
  have c: "c < 0x80 \<and> c \<noteq> 10" if "c \<in> set s" for c
  proof -
    have "hex_digit c \<noteq> None" using h that by (simp add: list_all_iff)
    then obtain n where "hex_digit c = Some n" by blast
    then show ?thesis by (auto simp: hex_digit_def split: if_splits)
  qed
  then have a: "ascii s" by (simp add: ascii_def list_all_iff)
  then have t: "lower_text E (py_str E x) = py_lower s" by (simp add: lower_text_def py_str_def x)
  show "ascii (lower_text E (py_str E x))" "10 \<notin> set (lower_text E (py_str E x))"
    using c by (auto simp: t ascii_def list_all_iff py_lower_def)
  show "lower_text E (py_str E x) \<noteq> []" using x(2) by (auto simp: t py_lower_def)
qed

lemma join_lines_ascii: "\<forall>x \<in> set xs. ascii x \<Longrightarrow> ascii (join_lines xs)"
  by (induction xs rule: join_lines.induct) (auto simp: ascii_def)

lemma leaves_texts:
  assumes "leaves_are_hex v" "t \<in> set (leaf_texts E (as_list v))"
  shows "ascii t \<and> 10 \<notin> set t \<and> t \<noteq> []"
proof -
  obtain x where "x \<in> set (as_list v)" "t = lower_text E (py_str E x)"
    using assms(2) by (auto simp: leaf_texts_def)
  moreover have "list_all hex64 (as_list v)"
    using assms(1) by (auto simp: leaves_are_hex_def split: pyval.splits)
  ultimately show ?thesis using hex64_text [of x E] by (auto simp: list_all_iff)
qed

lemma revoked_root_hex:
  assumes "leaves_are_hex v"
  shows "revoked_root E v =
    Some (hex_of (sha3 E (map byte (join_lines (sort (remdups (leaf_texts E (as_list v))))))))"
proof -
  have "ascii (join_lines (sort (remdups (leaf_texts E (as_list v)))))"
    using leaves_texts [OF assms] by (intro join_lines_ascii) simp
  then show ?thesis by (simp add: revoked_root_def Let_def utf8_encode_ascii)
qed

lemma map_byte_inject:
  assumes "map byte xs = map byte ys" "ascii xs" "ascii ys"
  shows "xs = ys"
proof -
  have "utf8_encode xs = utf8_encode ys" using assms by (simp add: utf8_encode_ascii)
  then show ?thesis using assms by (metis utf8_encode_ascii utf8_encode_Some_iff option.inject)
qed

text \<open>What the root of a list of hex leaves is the digest of.\<close>

definition leaves_preimage :: "env \<Rightarrow> pyval \<Rightarrow> bytes" where
  "leaves_preimage E v = map byte (join_lines (sort (remdups (leaf_texts E (as_list v)))))"

lemma revoked_root_binds:
  assumes "leaves_are_hex v" "leaves_are_hex w" "revoked_root E v = revoked_root E w"
  shows "set (leaf_texts E (as_list v)) = set (leaf_texts E (as_list w)) \<or>
    sha3_collision E (leaves_preimage E v) (leaves_preimage E w)"
proof (rule disjCI)
  assume no: "\<not> sha3_collision E (leaves_preimage E v) (leaves_preimage E w)"
  let ?l = "\<lambda>v. sort (remdups (leaf_texts E (as_list v)))"
  have a: "ascii (join_lines (?l v))" if "leaves_are_hex v" for v
    using leaves_texts [OF that] by (intro join_lines_ascii) simp
  have "sha3 E (map byte (join_lines (?l v))) = sha3 E (map byte (join_lines (?l w)))"
    using assms(3) by (simp add: revoked_root_hex [OF assms(1)] revoked_root_hex [OF assms(2)] hex_of_inject)
  then have "map byte (join_lines (?l v)) = map byte (join_lines (?l w))"
    using no by (simp add: sha3_collision_def leaves_preimage_def)
  then have "join_lines (?l v) = join_lines (?l w)" using a assms by (intro map_byte_inject) auto
  then have "?l v = ?l w"
    using leaves_texts [OF assms(1)] leaves_texts [OF assms(2)] by (intro join_lines_inject) auto
  then have "set (?l v) = set (?l w)" by simp
  then show "set (leaf_texts E (as_list v)) = set (leaf_texts E (as_list w))" by simp
qed

lemma feed_commitment_binds:
  assumes "feed_commits E f" "feed_commits E g"
    and "same_hex (py_get f ''revoked_root_hex'') (py_get g ''revoked_root_hex'')"
  shows "set (leaf_texts E (as_list (py_get f ''revoked_leaves''))) = set (leaf_texts E (as_list (py_get g ''revoked_leaves'')))
    \<or> sha3_collision E (leaves_preimage E (py_get f ''revoked_leaves'')) (leaves_preimage E (py_get g ''revoked_leaves''))"
  using assms by (intro revoked_root_binds) (auto simp: feed_commits_def Let_def same_hex_def)

lemma those_Some_iff: "those xs = Some ys \<longleftrightarrow> xs = map Some ys"
proof (induction xs arbitrary: ys)
  case Nil
  then show ?case by auto
next
  case (Cons x xs)
  then show ?case by (cases ys) (auto split: option.splits)
qed

section \<open>The detectors\<close>

lemma finite_num_value: "finite_num n = Some True \<Longrightarrow> \<exists>r. num_value n = Some r"
  by (auto simp: finite_num_def num_value_def split: pyval.splits pyfloat.splits if_splits)

text \<open>A whole number on the wire, an integer or a float, small enough that adding one is exact.\<close>

definition whole :: "pyval \<Rightarrow> int \<Rightarrow> bool" where
  "whole n i \<longleftrightarrow> (n = PInt i \<or> n = PFloat (FNum (of_int i))) \<and> \<bar>i\<bar> < 2 ^ 53 - 1"

lemma whole_facts:
  assumes "whole n i"
  shows "finite_num n = Some True" "num_value n = Some (of_int i)" "num_value (next_number n) = Some (of_int i + 1)"
    "py_eq n w \<longleftrightarrow> num_value w = Some (of_int i)"
proof -
  have b: "\<bar>i\<bar> < 2 ^ 53 - 1" using assms by (simp add: whole_def)
  have "\<not> float_overflows i"
  proof -
    have "(2 :: int) ^ 53 \<le> 2 ^ 1024 - 2 ^ 970" by simp
    then show ?thesis using b unfolding float_overflows_def by linarith
  qed
  then show "finite_num n = Some True" using assms by (auto simp: whole_def finite_num_def)
  have "py_float (rat_of_int i + 1) = FNum (of_int (i + 1))"
    using py_float_int [of "i + 1"] b by simp
  then show "num_value n = Some (of_int i)" "num_value (next_number n) = Some (of_int i + 1)"
    "py_eq n w \<longleftrightarrow> num_value w = Some (of_int i)"
    using assms by (auto simp: whole_def num_value_def next_number_def)
qed

text \<open>The later checkpoint names the earlier epoch and its root as its predecessor.\<close>

definition extends_epoch :: "pydict \<Rightarrow> pydict \<Rightarrow> bool" where
  "extends_epoch hi elo \<longleftrightarrow>
     py_eq (py_get (as_dict (py_get hi ''prev'')) ''number'') (py_get elo ''number'') \<and>
     same_hex (py_get (as_dict (py_get hi ''prev'')) ''root_hex'') (py_get elo ''root_hex'')"

definition epoch_of :: "pydict \<Rightarrow> pydict" where
  "epoch_of cp = as_dict (py_get cp ''epoch'')"

lemma py_eq_whole: "whole n i \<Longrightarrow> whole m j \<Longrightarrow> py_eq n m \<longleftrightarrow> i = j"
  by (auto simp: whole_facts)

lemma py_eq_next:
  assumes "whole n i" "whole m j"
  shows "py_eq m (next_number n) \<longleftrightarrow> j = i + 1"
proof -
  have "rat_of_int i + 1 = rat_of_int (i + 1)" by simp
  then show ?thesis using whole_facts(3,4) [OF assms(1)] whole_facts(4) [OF assms(2)]
    by (metis of_int_eq_iff option.inject)
qed

lemma compare_epochs_fork:
  assumes "whole (py_get elo ''number'') i" "whole (py_get ehi ''number'') j"
  shows "cv_fork (compare_epochs elo hi ehi) \<longleftrightarrow>
     (i = j \<and> \<not> same_hex (py_get elo ''root_hex'') (py_get ehi ''root_hex'')) \<or> (j = i + 1 \<and> \<not> extends_epoch hi elo)"
    and "cv_consistent (compare_epochs elo hi ehi) \<longleftrightarrow> \<not> cv_fork (compare_epochs elo hi ehi)"
  by (auto simp: compare_epochs_def Let_def py_eq_whole [OF assms] py_eq_next [OF assms] extends_epoch_def)

lemma fork_exact:
  assumes "whole (py_get (epoch_of a) ''number'') i" "whole (py_get (epoch_of b) ''number'') j" "\<not> different_keys a b"
  shows "map_option cv_fork (check_epoch_chain (PDict a) (PDict b)) = Some
     ((i = j \<and> \<not> same_hex (py_get (epoch_of a) ''root_hex'') (py_get (epoch_of b) ''root_hex'')) \<or>
      (j = i + 1 \<and> \<not> extends_epoch b (epoch_of a)) \<or> (i = j + 1 \<and> \<not> extends_epoch a (epoch_of b)))"
proof -
  have c: "check_epoch_chain (PDict a) (PDict b) = Some
      (if i \<le> j then compare_epochs (epoch_of a) b (epoch_of b) else compare_epochs (epoch_of b) a (epoch_of a))"
    using assms whole_facts(1,2) [OF assms(1)] whole_facts(1,2) [OF assms(2)]
    by (simp add: check_epoch_chain_def Let_def epoch_of_def)
  show ?thesis
  proof (cases "i \<le> j")
    case True
    then show ?thesis using compare_epochs_fork(1) [OF assms(1,2)] by (auto simp: c)
  next
    case False
    then show ?thesis using compare_epochs_fork(1) [OF assms(2,1)] by (auto simp: c)
  qed
qed

lemma chain_raises:
  "check_epoch_chain (PDict a) (PDict b) = None \<longleftrightarrow> \<not> different_keys a b \<and>
     (finite_num (py_get (epoch_of a) ''number'') = None \<or>
      finite_num (py_get (epoch_of a) ''number'') = Some True \<and> finite_num (py_get (epoch_of b) ''number'') = None)"
  by (auto simp: check_epoch_chain_def Let_def epoch_of_def split: option.splits bool.splits)

lemma finite_num_None: "finite_num n = None \<longleftrightarrow> (\<exists>i. n = PInt i \<and> float_overflows i)"
  by (auto simp: finite_num_def split: pyval.splits pyfloat.splits)

lemma progresses_keeps:
  assumes "pg_progresses (check_revocation_progression E p n)" "is_revoked E p tok = Some True"
  shows "is_revoked E n tok = Some True"
proof -
  obtain d xs leaf where d: "p = PDict d" "py_get d ''revoked_leaves'' = PList xs"
    and l: "revocation_leaf E (if py_true tok then py_str E tok else []) = Some leaf"
      "lower_text E leaf \<in> set (leaf_texts E xs)"
    using assms(2) by (auto simp: is_revoked_def split: pyval.splits option.splits)
  have keep: "set (leaf_texts E xs) \<subseteq> set (leaf_texts E (as_list (py_get (as_dict n) ''revoked_leaves'')))"
    using assms(1) d by (auto simp: check_revocation_progression_def Let_def filter_empty_conv split: if_splits)
  then have n: "lower_text E leaf \<in> set (leaf_texts E (as_list (py_get (as_dict n) ''revoked_leaves'')))"
    using l by blast
  then have "py_get (as_dict n) ''revoked_leaves'' = PList (as_list (py_get (as_dict n) ''revoked_leaves''))"
    by (auto simp: as_list_def leaf_texts_def split: pyval.splits)
  then obtain ys where ys: "py_get (as_dict n) ''revoked_leaves'' = PList ys" by metis
  moreover from ys obtain e where "n = PDict e" by (cases n) (auto simp: as_dict_def)
  ultimately show ?thesis using l n by (simp add: is_revoked_def)
qed

lemma progression_keeps:
  assumes "successively (\<lambda>p n. pg_progresses (check_revocation_progression E p n)) (f # fs)"
    "is_revoked E f tok = Some True" "g \<in> set fs"
  shows "is_revoked E g tok = Some True"
  using assms
proof (induction fs arbitrary: f)
  case (Cons h fs)
  have h: "is_revoked E h tok = Some True"
    using progresses_keeps [of E f h tok] Cons.prems by simp
  show ?case
  proof (cases "g = h")
    case False
    then show ?thesis using Cons.IH [of h] Cons.prems h by simp
  qed (simp add: h)
qed simp

text \<open>
  The registry a feed stands for: the set of its leaves and its instant. One registry follows another
  when it keeps every leaf and does not go back in time.
\<close>

definition registry :: "env \<Rightarrow> pydict \<Rightarrow> ustr set \<times> int option" where
  "registry E d = (set (leaf_texts E (as_list (py_get d ''revoked_leaves''))), instant_at d ''as_of'')"

definition follows :: "ustr set \<times> int option \<Rightarrow> ustr set \<times> int option \<Rightarrow> bool" where
  "follows r s \<longleftrightarrow> fst r \<subseteq> fst s \<and>
     (case (snd r, snd s) of (Some a, Some b) \<Rightarrow> a \<le> b | _ \<Rightarrow> False)"

lemma progression_is_follows:
  "pg_progresses (check_revocation_progression E (PDict p) (PDict n)) \<longleftrightarrow>
     \<not> different_keys p n \<and> \<not> not_a_list p \<and> \<not> not_a_list n \<and> follows (registry E p) (registry E n)"
  by (auto simp: check_revocation_progression_def Let_def follows_def registry_def filter_empty_conv split: option.splits)

lemma is_revoked_is_member:
  "is_revoked E (PDict d) tok =
     map_option (\<lambda>leaf. lower_text E leaf \<in> fst (registry E d))
       (revocation_leaf E (if py_true tok then py_str E tok else []))"
  by (auto simp: is_revoked_def registry_def as_list_def leaf_texts_def split: option.split pyval.split)

section \<open>Properties\<close>

text \<open>
  C13. The fork detector is exact: for two checkpoints not signed by different keys, with whole epoch
  numbers, it reports a fork exactly when they sign two roots for one epoch, or the later of two
  adjacent epochs does not name the earlier one's number and root as its predecessor, whichever of
  the two is passed first.
\<close>

theorem fork_reported_exactly:
  assumes "whole (py_get (epoch_of a) ''number'') i" "whole (py_get (epoch_of b) ''number'') j" "\<not> different_keys a b"
  shows "map_option cv_fork (check_epoch_chain (PDict a) (PDict b)) = Some
     ((i = j \<and> \<not> same_hex (py_get (epoch_of a) ''root_hex'') (py_get (epoch_of b) ''root_hex'')) \<or>
      (j = i + 1 \<and> \<not> extends_epoch b (epoch_of a)) \<or> (i = j + 1 \<and> \<not> extends_epoch a (epoch_of b)))"
  by (rule fork_exact [OF assms])

lemma fork_reported_exactly_witness:
  "map_option cv_fork (check_epoch_chain
     (PDict [(lit ''epoch'', PDict [(lit ''number'', PInt 7), (lit ''root_hex'', PStr (lit ''aa''))])])
     (PDict [(lit ''epoch'', PDict [(lit ''number'', PFloat (FNum 7)), (lit ''root_hex'', PStr (lit ''ab''))])])) = Some True"
  using fork_reported_exactly [of "[(lit ''epoch'', PDict [(lit ''number'', PInt 7), (lit ''root_hex'', PStr (lit ''aa''))])]" 7
      "[(lit ''epoch'', PDict [(lit ''number'', PFloat (FNum 7)), (lit ''root_hex'', PStr (lit ''ab''))])]" 7]
  by (simp add: epoch_of_def whole_def different_keys_def hex_text_def same_hex_def lit_def py_lower_def)

text \<open>
  What defeats it: an epoch number past the range of a float. The pair is not refused and no
  fork is reported; \<open>_finite\<close> raises \<open>OverflowError\<close>, and only such a number makes it raise.
\<close>

theorem epoch_number_overflow:
  "check_epoch_chain (PDict a) (PDict b) = None \<longleftrightarrow> \<not> different_keys a b \<and>
     ((\<exists>i. py_get (epoch_of a) ''number'' = PInt i \<and> float_overflows i) \<or>
      finite_num (py_get (epoch_of a) ''number'') = Some True \<and>
      (\<exists>i. py_get (epoch_of b) ''number'' = PInt i \<and> float_overflows i))"
  by (simp only: chain_raises finite_num_None)

text \<open>
  C15. Revocation is for good: along a history of feeds each of which is a forward progression of the
  one before, a credential the first lists is listed by every later one.
\<close>

theorem revocation_is_for_good:
  assumes "successively (\<lambda>p n. pg_progresses (check_revocation_progression E p n)) (f # fs)"
    "is_revoked E f tok = Some True" "g \<in> set fs"
  shows "is_revoked E g tok = Some True"
  by (rule progression_keeps [OF assms])

definition digest_env :: env where
  "digest_env = no_backend\<lparr>sha3 := (\<lambda>_. replicate 32 171)\<rparr>"

definition sample_feed :: "bytes list \<Rightarrow> pyval" where
  "sample_feed leaves =
     PDict [(lit ''revoked_leaves'', PList (map (\<lambda>b. PStr (hex_of b)) leaves)),
       (lit ''as_of'', PStr (iso_text 2026 10 21 12 0 0)),
       (lit ''revoked_root_hex'', PStr (hex_of (replicate 32 171))), (lit ''revoked_count'', PInt 1)]"

lemma ascii_hex_of: "ascii (hex_of bs)"
  using hex_of_chars by (auto simp: ascii_def list_all_iff)

lemma lower_hex_of: "lower_text E (hex_of bs) = hex_of bs"
proof -
  have "hex_of bs = py_lower (hex_of bs)"
    using fromhex_hex_of_lower [OF fromhex_hex_of] .
  then show ?thesis by (simp add: lower_text_def ascii_hex_of)
qed

lemma leaf_texts_sample: "leaf_texts E (map (\<lambda>b. PStr (hex_of b)) leaves) = map hex_of leaves"
  by (simp add: leaf_texts_def py_str_def lower_hex_of)

lemma sample_feed_fields:
  "py_get (as_dict (sample_feed l)) ''revoked_leaves'' = PList (map (\<lambda>b. PStr (hex_of b)) l)"
  "hex_text (py_get (as_dict (sample_feed l)) ''public_key_hex'') = None"
  "not_a_list (as_dict (sample_feed l)) \<longleftrightarrow> False"
  by (simp_all add: sample_feed_def hex_text_def not_a_list_def)

lemma sample_feed_as_of: "\<exists>t. \<forall>l. instant_at (as_dict (sample_feed l)) ''as_of'' = Some t"
proof -
  have "instant_at (as_dict (sample_feed l)) ''as_of'' = strict_instant (iso_text 2026 10 21 12 0 0)" for l
    by (simp add: instant_at_def sample_feed_def)
  moreover have "strict_instant (iso_text 2026 10 21 12 0 0) \<noteq> None"
    by (simp add: strict_instant_iso_text make_instant_def valid_date_def days_in_month_def leap_year_def)
  ultimately show ?thesis by auto
qed

lemma revocation_is_for_good_witness:
  "is_revoked digest_env (sample_feed [replicate 32 171, replicate 32 205]) (PStr (lit ''c'')) = Some True"
proof (rule revocation_is_for_good [where f = "sample_feed [replicate 32 171]"
      and fs = "[sample_feed [replicate 32 171, replicate 32 205]]"])
  obtain t where t: "\<And>l. instant_at (as_dict (sample_feed l)) ''as_of'' = Some t"
    using sample_feed_as_of by blast
  show "successively (\<lambda>p n. pg_progresses (check_revocation_progression digest_env p n))
      [sample_feed [replicate 32 171], sample_feed [replicate 32 171, replicate 32 205]]"
    by (simp add: check_revocation_progression_def Let_def different_keys_def sample_feed_fields t
        leaf_texts_sample [of _ "[_]", simplified] leaf_texts_sample [of _ "[_, _]", simplified])
  show "is_revoked digest_env (sample_feed [replicate 32 171]) (PStr (lit ''c'')) = Some True"
    using utf8_encode_ascii [of "lit ''c''"]
    by (simp add: is_revoked_def revocation_leaf_def sample_feed_def py_true_def py_str_def lower_hex_of
        leaf_texts_sample [of _ "[_]", simplified] digest_env_def ascii_def lit_def)
qed simp

text \<open>
  A feed cannot be separated from what it lists: two feeds whose commitments hold under one root
  list the same leaves, or their joined leaves are a SHA3-256 collision.
\<close>

theorem feed_root_binds_the_leaves:
  assumes "feed_commits E f" "feed_commits E g"
    and "same_hex (py_get f ''revoked_root_hex'') (py_get g ''revoked_root_hex'')"
  shows "set (leaf_texts E (as_list (py_get f ''revoked_leaves''))) = set (leaf_texts E (as_list (py_get g ''revoked_leaves'')))
    \<or> sha3_collision E (leaves_preimage E (py_get f ''revoked_leaves'')) (leaves_preimage E (py_get g ''revoked_leaves''))"
  by (rule feed_commitment_binds [OF assms])

lemma feed_root_binds_the_leaves_witness:
  "set (leaf_texts digest_env (as_list (py_get (as_dict (sample_feed [replicate 32 171])) ''revoked_leaves''))) =
   set (leaf_texts digest_env (as_list (py_get (as_dict (sample_feed [replicate 32 171])) ''revoked_leaves''))) \<or>
   sha3_collision digest_env (leaves_preimage digest_env (py_get (as_dict (sample_feed [replicate 32 171])) ''revoked_leaves''))
     (leaves_preimage digest_env (py_get (as_dict (sample_feed [replicate 32 171])) ''revoked_leaves''))"
proof (rule feed_root_binds_the_leaves)
  have root: "py_get (as_dict (sample_feed [replicate 32 171])) ''revoked_root_hex'' = PStr (hex_of (replicate 32 171))"
    "py_get (as_dict (sample_feed [replicate 32 171])) ''revoked_count'' = PInt 1"
    by (simp_all add: sample_feed_def)
  have shown: "hex_text (PStr (hex_of (replicate 32 171))) = Some (hex_of (replicate 32 171))"
    using fromhex_hex_of_lower [OF fromhex_hex_of, of "replicate 32 171"]
    by (simp add: hex_text_def hex_of_def flip: length_greater_0_conv)
  show "same_hex (py_get (as_dict (sample_feed [replicate 32 171])) ''revoked_root_hex'')
      (py_get (as_dict (sample_feed [replicate 32 171])) ''revoked_root_hex'')"
    by (simp only: root same_hex_def shown) simp
  have hex: "leaves_are_hex (PList [PStr (hex_of (replicate 32 171))])"
    using hex_digits_hex_of by (simp add: leaves_are_hex_def hex64_def)
  show "feed_commits digest_env (as_dict (sample_feed [replicate 32 171]))"
    "feed_commits digest_env (as_dict (sample_feed [replicate 32 171]))"
    using hex revoked_root_hex [OF hex, of digest_env]
    by (simp_all only: feed_commits_def Let_def sample_feed_fields root shown list.map digest_env_def)
      (simp_all add: signed_count_def MAX_SAFE_INTEGER_def leaf_texts_def num_value_def)
qed

text \<open>
  C14. The two operations on feeds refine those on registries: a feed lists a credential exactly when
  its registry holds the credential's leaf, and one feed is a forward progression of another exactly
  when, under one key, its registry follows the other's.
\<close>

theorem feeds_refine_registries:
  "is_revoked E (PDict d) tok =
     map_option (\<lambda>leaf. lower_text E leaf \<in> fst (registry E d))
       (revocation_leaf E (if py_true tok then py_str E tok else [])) \<and>
   (pg_progresses (check_revocation_progression E (PDict p) (PDict n)) \<longleftrightarrow>
     \<not> different_keys p n \<and> \<not> not_a_list p \<and> \<not> not_a_list n \<and> follows (registry E p) (registry E n))"
  by (simp only: is_revoked_is_member progression_is_follows simp_thms)

end
