(* ===== verification/MerkleLog.thy ===== *)
theory MerkleLog
  imports PyValue CardProfile
begin

text \<open>
  The transparency log's Merkle tree (RFC 6962 over SHA3-256) of
  \<open>polaris_verify_cli/verifier.py\<close>: the tree head, the inclusion and consistency proofs, and
  their two verifiers, which walk a proof from the leaves up with no recursion and no tree. The
  reference the walks are proved against is the list of levels: a level is paired up into the
  next, the last node of an odd level promoted as it is. A proof is one sibling per level, and
  each step of a verifier's loop is one level.

  Sound means: if an entry that is not in the tree were proved to be, or a log that is not an
  extension to be one, two different inputs among those hashed by the verifier and by the tree
  head would have one hash. The hypothesis \<open>inj_on H\<close> of the soundness results is on exactly
  that finite list of inputs.
\<close>

section \<open>Trees\<close>

definition ih :: "(bytes \<Rightarrow> bytes) \<Rightarrow> bytes \<Rightarrow> bytes \<Rightarrow> bytes" where
  "ih H left right = H (1 # left @ right)"

text \<open>\<open>_lh\<close>; a text that is not UTF-8 encodable (a lone surrogate) raises.\<close>

definition lh :: "(bytes \<Rightarrow> bytes) \<Rightarrow> ustr \<Rightarrow> bytes option" where
  "lh H entry = (case utf8_encode entry of None \<Rightarrow> None | Some raw \<Rightarrow> Some (H (0 # raw)))"

text \<open>The doubling loop starts at 1; its guard against 0 is only for termination.\<close>

function pow2_loop :: "nat \<Rightarrow> nat \<Rightarrow> nat" where
  "pow2_loop k n = (if 0 < k \<and> k < n then pow2_loop (k * 2) n else k)"
  by pat_completeness auto
termination by (relation "measure (\<lambda>(k, n). n - k)") auto

declare pow2_loop.simps [simp del]

definition largest_pow2_below :: "nat \<Rightarrow> nat" where
  "largest_pow2_below n = pow2_loop 1 n div 2"

lemma pow2_loop_between:
  "2 ^ d < n \<Longrightarrow> n \<le> 2 ^ Suc (d + j) \<Longrightarrow> 2 ^ (d + j) < n \<Longrightarrow> pow2_loop (2 ^ d) n = 2 ^ Suc (d + j)"
proof (induction j arbitrary: d)
  case 0
  then have "pow2_loop (2 ^ d) n = pow2_loop (2 ^ Suc d) n"
    by (subst pow2_loop.simps) (simp add: mult.commute)
  also have "\<dots> = 2 ^ Suc d" using 0 by (subst pow2_loop.simps) simp
  finally show ?case by simp
next
  case (Suc j)
  have "(2 :: nat) ^ Suc d \<le> 2 ^ (d + Suc j)" by (rule power_increasing) simp_all
  then have "2 ^ Suc d < n" using Suc.prems(3) by linarith
  then have "pow2_loop (2 ^ Suc d) n = 2 ^ Suc (Suc d + j)"
    using Suc.prems by (intro Suc.IH) simp_all
  moreover have "pow2_loop (2 ^ d) n = pow2_loop (2 ^ Suc d) n"
    using Suc.prems(1) by (subst pow2_loop.simps) (simp add: mult.commute)
  ultimately show ?case by simp
qed

lemma largest_pow2_eq: "2 ^ d < n \<Longrightarrow> n \<le> 2 ^ Suc d \<Longrightarrow> largest_pow2_below n = 2 ^ d"
proof -
  assume d: "2 ^ d < n" "n \<le> 2 ^ Suc d"
  have "(1 :: nat) \<le> 2 ^ d" by simp
  then have "1 < n" using d(1) by linarith
  then show ?thesis
    using pow2_loop_between [of 0 n d] d by (simp add: largest_pow2_below_def)
qed

lemma pow2_between: "2 \<le> n \<Longrightarrow> \<exists>d. 2 ^ d < (n :: nat) \<and> n \<le> 2 ^ Suc d"
proof (induction n rule: less_induct)
  case (less n)
  show ?case
  proof (cases "n = 2")
    case True
    then show ?thesis by (intro exI [of _ 0]) simp
  next
    case False
    with less.prems have "(n + 1) div 2 < n" "2 \<le> (n + 1) div 2" by linarith+
    from less.IH [OF this] obtain d where "2 ^ d < (n + 1) div 2 \<and> (n + 1) div 2 \<le> 2 ^ Suc d" by blast
    then have "2 ^ Suc d < n \<and> n \<le> 2 ^ Suc (Suc d)" by (simp only: power_Suc) linarith
    then show ?thesis by blast
  qed
qed

lemma largest_pow2_bounds: "2 \<le> n \<Longrightarrow> 0 < largest_pow2_below n \<and> largest_pow2_below n < n"
  using pow2_between [of n] largest_pow2_eq [of _ n] by fastforce

lemma halves_shorter:
  assumes "\<not> length xs \<le> 1"
  shows "length (take (largest_pow2_below (length xs)) xs) < length xs"
    "length (drop (largest_pow2_below (length xs)) xs) < length xs"
  using assms largest_pow2_bounds [of "length xs"] by auto

lemma largest_pow2_half: "3 \<le> n \<Longrightarrow> largest_pow2_below n = 2 * largest_pow2_below ((n + 1) div 2)"
proof -
  assume n: "3 \<le> n"
  then have "2 \<le> (n + 1) div 2" by simp
  from pow2_between [OF this] obtain d where d: "2 ^ d < (n + 1) div 2" "(n + 1) div 2 \<le> 2 ^ Suc d" by blast
  then have "2 ^ Suc d < n \<and> n \<le> 2 ^ Suc (Suc d)" by (simp only: power_Suc) linarith
  then have "largest_pow2_below n = 2 ^ Suc d" using largest_pow2_eq by blast
  with largest_pow2_eq [OF d] show ?thesis by simp
qed

lemma largest_pow2_2 [simp]: "largest_pow2_below 2 = 1"
  using largest_pow2_eq [of 0 2] by simp

lemma largest_pow2_odd: "2 \<le> n \<Longrightarrow> odd (largest_pow2_below n) \<Longrightarrow> n = 2"
  using largest_pow2_half [of n] by (cases "n = 2") auto

text \<open>The tree head over the log entries, and over their leaf hashes.\<close>

function merkle_tree_head :: "(bytes \<Rightarrow> bytes) \<Rightarrow> ustr list \<Rightarrow> bytes option" where
  "merkle_tree_head H entries =
     (if length entries = 0 then Some (H [])
      else if length entries = 1 then lh H (entries ! 0)
      else let k = largest_pow2_below (length entries) in
        case merkle_tree_head H (take k entries) of None \<Rightarrow> None
        | Some l \<Rightarrow> (case merkle_tree_head H (drop k entries) of None \<Rightarrow> None | Some r \<Rightarrow> Some (ih H l r)))"
  by pat_completeness auto
termination
proof (relation "measure (\<lambda>(H, es). length es)", goal_cases)
  case (2 H es k)
  then have "\<not> length es \<le> 1" by linarith
  with 2 show ?case using halves_shorter(1) [of es] by simp
next
  case (3 H es k)
  then have "\<not> length es \<le> 1" by linarith
  with 3 show ?case using halves_shorter(2) [of es] by simp
qed simp

declare merkle_tree_head.simps [simp del]

function mth :: "(bytes \<Rightarrow> bytes) \<Rightarrow> bytes list \<Rightarrow> bytes" where
  "mth H ds =
     (if length ds \<le> 1 then (if ds = [] then H [] else hd ds)
      else let k = largest_pow2_below (length ds) in ih H (mth H (take k ds)) (mth H (drop k ds)))"
  by pat_completeness auto
termination
  by (relation "measure (\<lambda>(H, ds). length ds)") (use halves_shorter in \<open>auto simp del: length_take length_drop\<close>)

declare mth.simps [simp del]

lemma mth_singleton [simp]: "mth H [d] = d"
  by (simp add: mth.simps)

lemma mth_Nil [simp]: "mth H [] = H []"
  by (simp add: mth.simps)

lemma merkle_tree_head_small [simp]: "merkle_tree_head H [] = Some (H [])" "merkle_tree_head H [e] = lh H e"
  by (subst merkle_tree_head.simps, simp)+

lemma mth_split: "2 \<le> length ds \<Longrightarrow> k = largest_pow2_below (length ds) \<Longrightarrow> mth H ds = ih H (mth H (take k ds)) (mth H (drop k ds))"
  by (subst mth.simps) (simp add: Let_def)

definition leaf_hashes :: "(bytes \<Rightarrow> bytes) \<Rightarrow> ustr list \<Rightarrow> bytes list" where
  "leaf_hashes H entries = map (\<lambda>e. the (lh H e)) entries"

definition encodable :: "ustr list \<Rightarrow> bool" where
  "encodable entries \<longleftrightarrow> (\<forall>e \<in> set entries. utf8_encode e \<noteq> None)"

lemma lh_encodable: "encodable es \<Longrightarrow> e \<in> set es \<Longrightarrow> lh H e = Some (the (lh H e))"
  by (auto simp: encodable_def lh_def split: option.splits)

lemma merkle_tree_head_mth:
  "encodable es \<Longrightarrow> merkle_tree_head H es = Some (mth H (leaf_hashes H es))"
proof (induction H es rule: merkle_tree_head.induct)
  case (1 H es)
  let ?k = "largest_pow2_below (length es)"
  consider "es = []" | e where "es = [e]" | "2 \<le> length es"
    by (cases es; cases "tl es") auto
  then show ?case
  proof cases
    case 3
    have enc: "encodable (take ?k es)" "encodable (drop ?k es)"
      using "1.prems" by (auto simp: encodable_def dest: in_set_takeD in_set_dropD)
    have "length es \<noteq> 0" "length es \<noteq> 1" using 3 by auto
    then have "merkle_tree_head H (take ?k es) = Some (mth H (take ?k (leaf_hashes H es)))"
      "merkle_tree_head H (drop ?k es) = Some (mth H (drop ?k (leaf_hashes H es)))"
      using "1.IH" enc by (auto simp: leaf_hashes_def take_map drop_map)
    moreover have "mth H (leaf_hashes H es) = ih H (mth H (take ?k (leaf_hashes H es))) (mth H (drop ?k (leaf_hashes H es)))"
      using 3 by (intro mth_split) (simp_all add: leaf_hashes_def)
    ultimately show ?thesis
      using 3 by (subst merkle_tree_head.simps) (auto simp: Let_def)
  qed (use "1.prems" lh_encodable in \<open>auto simp: leaf_hashes_def\<close>)
qed

section \<open>Levels\<close>

text \<open>The next level up: neighbours hashed together, a last one without a neighbour promoted.\<close>

fun pair_up :: "(bytes \<Rightarrow> bytes) \<Rightarrow> bytes list \<Rightarrow> bytes list" where
  "pair_up H (x # y # ds) = ih H x y # pair_up H ds"
| "pair_up H ds = ds"

lemma length_pair_up [simp]: "length (pair_up H ds) = (length ds + 1) div 2"
  by (induction H ds rule: pair_up.induct) auto

lemma small_double: "2 * j \<le> Suc 0 \<longleftrightarrow> j = 0"
  by auto

lemma take_pair_up: "take j (pair_up H ds) = pair_up H (take (2 * j) ds)" if "2 * j \<le> length ds"
  using that
proof (induction H ds arbitrary: j rule: pair_up.induct)
  case (1 H x y ds)
  then show ?case by (cases j) auto
qed (auto simp: small_double)

lemma drop_pair_up: "drop j (pair_up H ds) = pair_up H (drop (2 * j) ds)" if "2 * j \<le> length ds"
  using that
proof (induction H ds arbitrary: j rule: pair_up.induct)
  case (1 H x y ds)
  then show ?case by (cases j) auto
qed (auto simp: small_double)

lemma nth_pair_up: "2 * j + 1 < length ds \<Longrightarrow> pair_up H ds ! j = ih H (ds ! (2 * j)) (ds ! (2 * j + 1))"
proof (induction H ds arbitrary: j rule: pair_up.induct)
  case (1 H x y ds)
  then show ?case by (cases j) auto
qed auto

lemma nth_pair_up_last: "2 * j + 1 = length ds \<Longrightarrow> pair_up H ds ! j = ds ! (2 * j)"
proof (induction H ds arbitrary: j rule: pair_up.induct)
  case (1 H x y ds)
  then obtain i where j: "j = Suc i" by (cases j) auto
  with 1 have "ds ! (2 * i) = pair_up H ds ! i" by simp
  with j show ?case by simp
qed auto

lemma level_split:
  assumes "3 \<le> length ds" "k = largest_pow2_below (length ds)"
  shows "\<exists>j. largest_pow2_below (length (pair_up H ds)) = j \<and> k = 2 * j \<and> 0 < j \<and> 2 * j < length ds \<and>
    take j (pair_up H ds) = pair_up H (take k ds) \<and> drop j (pair_up H ds) = pair_up H (drop k ds)"
proof -
  let ?j = "largest_pow2_below ((length ds + 1) div 2)"
  have k: "k = 2 * ?j" using assms largest_pow2_half by simp
  have "0 < k \<and> k < length ds" using assms largest_pow2_bounds [of "length ds"] by simp
  then show ?thesis using k by (simp add: take_pair_up drop_pair_up)
qed

lemma mth_pair_up: "ds \<noteq> [] \<Longrightarrow> mth H (pair_up H ds) = mth H ds"
proof (induction "length ds" arbitrary: ds rule: less_induct)
  case less
  consider d where "ds = [d]" | x y where "ds = [x, y]" | "3 \<le> length ds"
    using less.prems by (cases ds; cases "tl ds"; cases "tl (tl ds)") auto
  then show ?case
  proof cases
    case 2
    then show ?thesis using mth_split [of "[x, y]" 1 H] largest_pow2_2 by (simp add: numeral_2_eq_2)
  next
    case 3
    let ?k = "largest_pow2_below (length ds)"
    obtain j where j: "largest_pow2_below (length (pair_up H ds)) = j" "?k = 2 * j" "0 < j" "2 * j < length ds"
        "take j (pair_up H ds) = pair_up H (take ?k ds)" "drop j (pair_up H ds) = pair_up H (drop ?k ds)"
      using level_split [OF 3 refl, of H] by blast
    have "mth H (pair_up H (take ?k ds)) = mth H (take ?k ds)" "mth H (pair_up H (drop ?k ds)) = mth H (drop ?k ds)"
      using j(2-4) by (intro less.hyps; auto)+
    moreover have "mth H (pair_up H ds) = ih H (mth H (take j (pair_up H ds))) (mth H (drop j (pair_up H ds)))"
      using 3 j(1) by (intro mth_split) simp_all
    moreover have "mth H ds = ih H (mth H (take ?k ds)) (mth H (drop ?k ds))"
      using 3 by (intro mth_split) simp_all
    ultimately show ?thesis using j(5,6) by simp
  qed simp
qed

section \<open>Inclusion\<close>

function incl_sub :: "(bytes \<Rightarrow> bytes) \<Rightarrow> nat \<Rightarrow> ustr list \<Rightarrow> bytes list option" where
  "incl_sub H i ents =
     (if length ents \<le> 1 then Some []
      else let k = largest_pow2_below (length ents) in
        if i < k then
          (case incl_sub H i (take k ents) of None \<Rightarrow> None
           | Some p \<Rightarrow> (case merkle_tree_head H (drop k ents) of None \<Rightarrow> None | Some h \<Rightarrow> Some (p @ [h])))
        else
          (case incl_sub H (i - k) (drop k ents) of None \<Rightarrow> None
           | Some p \<Rightarrow> (case merkle_tree_head H (take k ents) of None \<Rightarrow> None | Some h \<Rightarrow> Some (p @ [h]))))"
  by pat_completeness auto
termination
  by (relation "measure (\<lambda>(H, i, ds). length ds)") (use halves_shorter in \<open>auto simp del: length_take length_drop\<close>)

declare incl_sub.simps [simp del]

definition inclusion_proof :: "(bytes \<Rightarrow> bytes) \<Rightarrow> int \<Rightarrow> ustr list \<Rightarrow> bytes list option" where
  "inclusion_proof H idx entries =
     (if idx < 0 \<or> int (length entries) \<le> idx then Some [] else incl_sub H (nat idx) entries)"

text \<open>The inner loop past the levels where the last node is promoted.\<close>

fun skip_promoted :: "nat \<Rightarrow> nat \<Rightarrow> nat \<times> nat" where
  "skip_promoted fn sn = (if fn \<noteq> 0 \<and> even fn then skip_promoted (fn div 2) (sn div 2) else (fn, sn))"

declare skip_promoted.simps [simp del]

fun incl_walk :: "(bytes \<Rightarrow> bytes) \<Rightarrow> nat \<Rightarrow> nat \<Rightarrow> bytes \<Rightarrow> bytes list \<Rightarrow> (nat \<times> bytes) option" where
  "incl_walk H fn sn r [] = Some (sn, r)"
| "incl_walk H fn sn r (p # proof) =
     (if sn = 0 then None
      else if odd fn \<or> fn = sn then
        (case (if odd fn then (fn, sn) else skip_promoted fn sn) of
           (fn2, sn2) \<Rightarrow> incl_walk H (fn2 div 2) (sn2 div 2) (ih H p r) proof)
      else incl_walk H (fn div 2) (sn div 2) (ih H r p) proof)"

definition verify_inclusion :: "(bytes \<Rightarrow> bytes) \<Rightarrow> pyval \<Rightarrow> pyval \<Rightarrow> bytes \<Rightarrow> bytes \<Rightarrow> bytes list \<Rightarrow> bool" where
  "verify_inclusion H idx tree_size leaf rt proof =
     (case (wire_int idx, wire_int tree_size) of
        (Inr i, Inr n) \<Rightarrow>
          if i < 0 \<or> n \<le> i then False
          else (case incl_walk H (nat i) (nat n - 1) leaf proof of None \<Rightarrow> False | Some (sn, r) \<Rightarrow> sn = 0 \<and> r = rt)
      | _ \<Rightarrow> False)"

text \<open>The proof by levels: the sibling on each level that has one.\<close>

definition sib :: "nat \<Rightarrow> bytes list \<Rightarrow> bytes list" where
  "sib i ds = (if odd i then [ds ! (i - 1)] else if i + 1 < length ds then [ds ! (i + 1)] else [])"

function iproof :: "(bytes \<Rightarrow> bytes) \<Rightarrow> nat \<Rightarrow> bytes list \<Rightarrow> bytes list" where
  "iproof H i ds = (if length ds \<le> 1 then [] else sib i ds @ iproof H (i div 2) (pair_up H ds))"
  by pat_completeness auto
termination by (relation "measure (\<lambda>(H, i, ds). length ds)") auto

declare iproof.simps [simp del]

lemma iproof_small [simp]: "length ds \<le> Suc 0 \<Longrightarrow> iproof H i ds = []"
  by (simp add: iproof.simps)

lemma iproof_step: "i < length ds \<Longrightarrow> iproof H i ds = sib i ds @ iproof H (i div 2) (pair_up H ds)"
proof (cases "length ds \<le> 1")
  case True
  assume "i < length ds"
  with True have "i = 0" "length ds = 1" by auto
  with True show ?thesis by (simp add: sib_def)
qed (simp add: iproof.simps [of H i ds])

lemma iproof_nonempty: "i < length ds \<Longrightarrow> 2 \<le> length ds \<Longrightarrow> iproof H i ds \<noteq> []"
proof (induction "length ds" arbitrary: i ds rule: less_induct)
  case less
  show ?case
  proof (cases "sib i ds = []")
    case True
    then have "even i" "i + 1 = length ds" using less.prems by (auto simp: sib_def split: if_splits)
    then have "3 \<le> length ds" using less.prems(2) by (auto elim!: evenE) presburger
    with less.prems have "iproof H (i div 2) (pair_up H ds) \<noteq> []" by (intro less.hyps) auto
    then show ?thesis using less.prems by (simp add: iproof_step)
  qed (use less.prems in \<open>simp add: iproof_step\<close>)
qed

lemma iproof_split:
  assumes "i < length ds" "2 \<le> length ds" "k = largest_pow2_below (length ds)"
  shows "iproof H i ds = (if i < k then iproof H i (take k ds) @ [mth H (drop k ds)]
    else iproof H (i - k) (drop k ds) @ [mth H (take k ds)])"
  using assms
proof (induction "length ds" arbitrary: i ds k rule: less_induct)
  case less
  show ?case
  proof (cases "length ds = 2")
    case True
    then obtain x y where ds: "ds = [x, y]" by (cases ds; cases "tl ds") auto
    have "k = 1" using less.prems(3) True by simp
    moreover have "i = 0 \<or> i = 1" using less.prems(1) True by auto
    ultimately show ?thesis by (auto simp: ds iproof_step sib_def)
  next
    case False
    with less.prems have "3 \<le> length ds" by simp
    then obtain j where j: "largest_pow2_below (length (pair_up H ds)) = j" "k = 2 * j" "0 < j" "2 * j < length ds"
        "take j (pair_up H ds) = pair_up H (take k ds)" "drop j (pair_up H ds) = pair_up H (drop k ds)"
      using level_split [OF _ less.prems(3), of H] by blast
    have up: "iproof H (i div 2) (pair_up H ds) =
        (if i div 2 < j then iproof H (i div 2) (take j (pair_up H ds)) @ [mth H (drop j (pair_up H ds))]
         else iproof H (i div 2 - j) (drop j (pair_up H ds)) @ [mth H (take j (pair_up H ds))])"
      using less.prems False j(1) by (intro less.hyps) auto
    show ?thesis
    proof (cases "i < k")
      case True
      then have "i div 2 < j" using j(2) by simp
      moreover have "sib i (take k ds) = sib i ds"
        using True j(2,4) by (auto simp: sib_def elim!: evenE)
      moreover have "iproof H i (take k ds) = sib i (take k ds) @ iproof H (i div 2) (pair_up H (take k ds))"
        using True less.prems(1) by (intro iproof_step) simp
      moreover have "mth H (pair_up H (drop k ds)) = mth H (drop k ds)"
        using j(2,4) by (intro mth_pair_up) simp
      ultimately show ?thesis using True up j(5,6) less.prems(1) by (simp add: iproof_step [of i ds])
    next
      case False
      then have "\<not> i div 2 < j" "(i - k) div 2 = i div 2 - j" using j(2) by simp_all
      moreover have "sib (i - k) (drop k ds) = sib i ds"
      proof (cases "odd i")
        case True
        then have "k + (i - k - 1) = i - 1" using False j(2) by (auto elim!: oddE)
        then show ?thesis using True False j(2,4) by (simp add: sib_def)
      next
        case ev: False
        then show ?thesis using False j(2,4) less.prems(1) by (auto simp: sib_def)
      qed
      moreover have "iproof H (i - k) (drop k ds) = sib (i - k) (drop k ds) @ iproof H ((i - k) div 2) (pair_up H (drop k ds))"
        using False less.prems(1) by (intro iproof_step) simp
      moreover have "mth H (pair_up H (take k ds)) = mth H (take k ds)"
        using j(2-4) by (intro mth_pair_up) auto
      ultimately show ?thesis using False up j(5,6) less.prems(1) by (simp add: iproof_step [of i ds])
    qed
  qed
qed

lemma encodable_parts: "encodable es \<Longrightarrow> encodable (take k es) \<and> encodable (drop k es)"
  by (auto simp: encodable_def dest: in_set_takeD in_set_dropD)

lemma leaf_hashes_parts: "leaf_hashes H (take k es) = take k (leaf_hashes H es)"
  "leaf_hashes H (drop k es) = drop k (leaf_hashes H es)" "length (leaf_hashes H es) = length es"
  by (simp_all add: leaf_hashes_def take_map drop_map)

lemma incl_sub_iproof: "encodable es \<Longrightarrow> i < length es \<Longrightarrow> incl_sub H i es = Some (iproof H i (leaf_hashes H es))"
proof (induction "length es" arbitrary: i es rule: less_induct)
  case less
  show ?case
  proof (cases "length es \<le> 1")
    case False
    let ?k = "largest_pow2_below (length es)"
    note heads = merkle_tree_head_mth [OF conjunct1 [OF encodable_parts [OF less.prems(1), of ?k]], of H]
      merkle_tree_head_mth [OF conjunct2 [OF encodable_parts [OF less.prems(1), of ?k]], of H]
    note shorter = halves_shorter [OF False]
    have split: "iproof H i (leaf_hashes H es) = (if i < ?k then iproof H i (leaf_hashes H (take ?k es)) @ [mth H (leaf_hashes H (drop ?k es))]
        else iproof H (i - ?k) (leaf_hashes H (drop ?k es)) @ [mth H (leaf_hashes H (take ?k es))])"
      using iproof_split [of i "leaf_hashes H es" ?k H] False less.prems(2) by (simp add: leaf_hashes_parts)
    show ?thesis
    proof (cases "i < ?k")
      case True
      have "incl_sub H i (take ?k es) = Some (iproof H i (leaf_hashes H (take ?k es)))"
        using less.hyps [OF shorter(1)] less.prems encodable_parts True by simp
      then show ?thesis using True False heads split by (subst incl_sub.simps) (simp add: Let_def)
    next
      case ge: False
      have "incl_sub H (i - ?k) (drop ?k es) = Some (iproof H (i - ?k) (leaf_hashes H (drop ?k es)))"
        using less.hyps [OF shorter(2)] less.prems encodable_parts ge by simp
      then show ?thesis using ge False heads split by (subst incl_sub.simps) (simp add: Let_def)
    qed
  qed (simp add: incl_sub.simps [of H i es] leaf_hashes_parts)
qed

section \<open>The inclusion walk, level by level\<close>

lemma skip_double: "0 < a \<Longrightarrow> skip_promoted (2 * a) (2 * a) = skip_promoted a a"
  by (subst skip_promoted.simps) simp

lemma skip_odd: "odd a \<Longrightarrow> skip_promoted a b = (a, b)"
  by (simp add: skip_promoted.simps)

lemma incl_walk_promoted:
  assumes "0 < a"
  shows "incl_walk H (2 * a) (2 * a) r (p # ps) = incl_walk H a a r (p # ps)"
  using assms by (simp add: skip_double skip_odd)

lemma incl_walk_odd: "odd fn \<Longrightarrow> sn \<noteq> 0 \<Longrightarrow> incl_walk H fn sn r (p # ps) = incl_walk H (fn div 2) (sn div 2) (ih H p r) ps"
  by simp

lemma incl_walk_even: "even fn \<Longrightarrow> fn < sn \<Longrightarrow> incl_walk H fn sn r (p # ps) = incl_walk H (fn div 2) (sn div 2) (ih H r p) ps"
  by simp

declare incl_walk.simps(2) [simp del]

text \<open>The three ways a node of a level goes up.\<close>

lemma level_cases:
  assumes "i < length ds" "2 \<le> length ds"
  obtains (right) "odd i" "pair_up H ds ! (i div 2) = ih H (ds ! (i - 1)) (ds ! i)" "sib i ds = [ds ! (i - 1)]"
  | (left) "even i" "i < length ds - 1" "pair_up H ds ! (i div 2) = ih H (ds ! i) (ds ! (i + 1))" "sib i ds = [ds ! (i + 1)]"
  | (promoted) a where "i = 2 * a" "0 < a" "length ds - 1 = 2 * a" "pair_up H ds ! (i div 2) = ds ! i" "sib i ds = []"
proof (cases "odd i")
  case True
  then have "2 * (i div 2) = i - 1" "2 * (i div 2) + 1 = i" by (auto elim!: oddE)
  with assms(1) show thesis using True nth_pair_up [of "i div 2" ds H] by (intro right) (simp_all add: sib_def)
next
  case even: False
  show thesis
  proof (cases "i + 1 < length ds")
    case True
    then show thesis using even nth_pair_up [of "i div 2" ds H] by (intro left) (auto simp: sib_def)
  next
    case False
    then have "i + 1 = length ds" using assms by simp
    then show thesis using even assms nth_pair_up_last [of "i div 2" ds H]
      by (intro promoted [of "i div 2"]) (auto simp: sib_def)
  qed
qed

lemma half_last: "2 \<le> n \<Longrightarrow> (n - 1) div 2 = (n + 1) div 2 - (1 :: nat)"
  by (cases n) auto

lemma incl_walk_complete:
  "i < length ds \<Longrightarrow> incl_walk H i (length ds - 1) (ds ! i) (iproof H i ds) = Some (0, mth H ds)"
proof (induction "length ds" arbitrary: i ds rule: less_induct)
  case less
  show ?case
  proof (cases "2 \<le> length ds")
    case True
    have up: "incl_walk H (i div 2) ((length ds - 1) div 2) (pair_up H ds ! (i div 2)) (iproof H (i div 2) (pair_up H ds)) = Some (0, mth H ds)"
      using less.hyps [of "pair_up H ds" "i div 2"] less.prems True mth_pair_up [of ds H] half_last [OF True] by fastforce
    from less.prems True show ?thesis
    proof (cases rule: level_cases [where H = H])
      case right
      then show ?thesis using up less.prems True by (simp add: iproof_step [of i ds] incl_walk_odd)
    next
      case left
      then show ?thesis using up less.prems True by (simp add: iproof_step [of i ds] incl_walk_even)
    next
      case (promoted a)
      have "iproof H a (pair_up H ds) \<noteq> []" using promoted less.prems by (intro iproof_nonempty) auto
      then obtain p ps where p: "iproof H a (pair_up H ds) = p # ps" by (cases "iproof H a (pair_up H ds)") auto
      have "iproof H i ds = p # ps" using iproof_step [OF less.prems(1), of H] promoted p by simp
      then show ?thesis using up promoted p incl_walk_promoted [OF promoted(2)] by simp
    qed
  next
    case False
    then obtain d where "ds = [d]" "i = 0" using less.prems by (cases ds; cases "tl ds") auto
    then show ?thesis by simp
  qed
qed

text \<open>The inputs hashed on the levels of a tree, and by the walk.\<close>

fun pair_inputs :: "bytes list \<Rightarrow> bytes list" where
  "pair_inputs (x # y # ds) = (1 # x @ y) # pair_inputs ds"
| "pair_inputs ds = []"

function node_inputs :: "(bytes \<Rightarrow> bytes) \<Rightarrow> bytes list \<Rightarrow> bytes list" where
  "node_inputs H ds = (if length ds \<le> 1 then [] else pair_inputs ds @ node_inputs H (pair_up H ds))"
  by pat_completeness auto
termination by (relation "measure (\<lambda>(H, ds). length ds)") auto

declare node_inputs.simps [simp del]

fun incl_inputs :: "(bytes \<Rightarrow> bytes) \<Rightarrow> nat \<Rightarrow> nat \<Rightarrow> bytes \<Rightarrow> bytes list \<Rightarrow> bytes list" where
  "incl_inputs H fn sn r [] = []"
| "incl_inputs H fn sn r (p # proof) =
     (if sn = 0 then []
      else if odd fn \<or> fn = sn then
        (case (if odd fn then (fn, sn) else skip_promoted fn sn) of
           (fn2, sn2) \<Rightarrow> (1 # p @ r) # incl_inputs H (fn2 div 2) (sn2 div 2) (ih H p r) proof)
      else (1 # r @ p) # incl_inputs H (fn div 2) (sn div 2) (ih H r p) proof)"

lemma incl_inputs_promoted: "0 < a \<Longrightarrow> incl_inputs H (2 * a) (2 * a) r (p # ps) = incl_inputs H a a r (p # ps)"
  by (simp add: skip_double skip_odd)

lemma incl_inputs_odd: "odd fn \<Longrightarrow> sn \<noteq> 0 \<Longrightarrow>
    incl_inputs H fn sn r (p # ps) = (1 # p @ r) # incl_inputs H (fn div 2) (sn div 2) (ih H p r) ps"
  by simp

lemma incl_inputs_even: "even fn \<Longrightarrow> fn < sn \<Longrightarrow>
    incl_inputs H fn sn r (p # ps) = (1 # r @ p) # incl_inputs H (fn div 2) (sn div 2) (ih H r p) ps"
  by simp

declare incl_inputs.simps(2) [simp del]

lemma pair_input: "2 * j + 1 < length ds \<Longrightarrow> 1 # ds ! (2 * j) @ ds ! (2 * j + 1) \<in> set (pair_inputs ds)"
proof (induction ds arbitrary: j rule: pair_inputs.induct)
  case (1 x y ds)
  then show ?case by (cases j) auto
qed auto

lemma node_input:
  "2 \<le> length ds \<Longrightarrow> 2 * j + 1 < length ds \<Longrightarrow> 1 # ds ! (2 * j) @ ds ! (2 * j + 1) \<in> set (node_inputs H ds)"
  using pair_input by (subst node_inputs.simps) auto

lemma node_inputs_up: "2 \<le> length ds \<Longrightarrow> set (node_inputs H (pair_up H ds)) \<subseteq> set (node_inputs H ds)"
  by (subst (2) node_inputs.simps) auto

definition digests :: "bytes list \<Rightarrow> bool" where
  "digests ds \<longleftrightarrow> (\<forall>d \<in> set ds. length d = 32)"

lemma digests_nth: "digests ds \<Longrightarrow> i < length ds \<Longrightarrow> length (ds ! i) = 32"
  by (simp add: digests_def)

lemma digests_pair_up: "hash32 H \<Longrightarrow> digests ds \<Longrightarrow> digests (pair_up H ds)"
  by (induction H ds rule: pair_up.induct) (auto simp: digests_def ih_def hash32_def)

lemma ih_inject:
  assumes "inj_on H S" "1 # a @ b \<in> S" "1 # c @ d \<in> S" "ih H a b = ih H c d"
  shows "a @ b = c @ d"
  using assms by (auto simp: ih_def dest: inj_onD)

lemma ih_inject_parts:
  assumes "inj_on H S" "1 # a @ b \<in> S" "1 # c @ d \<in> S" "ih H a b = ih H c d" "length a = length c \<or> length b = length d"
  shows "a = c \<and> b = d"
  using ih_inject [OF assms(1-4)] assms(5) by auto

lemma incl_walk_sound:
  "i < length ds \<Longrightarrow> digests ds \<Longrightarrow> hash32 H \<Longrightarrow> length r = 32 \<Longrightarrow>
    inj_on H (set (node_inputs H ds) \<union> set (incl_inputs H i (length ds - 1) r ps)) \<Longrightarrow>
    incl_walk H i (length ds - 1) r ps = Some (0, mth H ds) \<Longrightarrow> r = ds ! i \<and> ps = iproof H i ds"
proof (induction "length ds" arbitrary: i ds r ps rule: less_induct)
  case less
  show ?case
  proof (cases "2 \<le> length ds")
    case False
    then obtain d where "ds = [d]" "i = 0" using less.prems by (cases ds; cases "tl ds") auto
    then show ?thesis using less.prems(6) by (cases ps) (simp_all add: incl_walk.simps)
  next
    case True
    then obtain p qs where ps: "ps = p # qs" using less.prems(6) by (cases ps) auto
    have dl: "length (ds ! j) = 32" if "j < length ds" for j using digests_nth [OF less.prems(2) that] .
    have rl: "length (ih H a b) = 32" for a b using less.prems(3) by (simp add: ih_def hash32_def)
    have up: "r' = pair_up H ds ! (i div 2) \<and> qs' = iproof H (i div 2) (pair_up H ds)"
      if "length r' = 32" "incl_walk H (i div 2) ((length ds - 1) div 2) r' qs' = Some (0, mth H ds)"
        "set (incl_inputs H (i div 2) ((length ds - 1) div 2) r' qs') \<subseteq> set (incl_inputs H i (length ds - 1) r ps)" for r' qs'
    proof (rule less.hyps)
      show "inj_on H (set (node_inputs H (pair_up H ds)) \<union> set (incl_inputs H (i div 2) (length (pair_up H ds) - 1) r' qs'))"
        using node_inputs_up [OF True, of H] that(3) half_last [OF True] by (intro inj_on_subset [OF less.prems(5)]) auto
      show "incl_walk H (i div 2) (length (pair_up H ds) - 1) r' qs' = Some (0, mth H (pair_up H ds))"
        using that(2) half_last [OF True] mth_pair_up [of ds H] True by fastforce
    qed (use True less.prems that(1) digests_pair_up in auto)
    from less.prems(1) True show ?thesis
    proof (cases rule: level_cases [where H = H])
      case right
      then have walk: "incl_walk H (i div 2) ((length ds - 1) div 2) (ih H p r) qs = Some (0, mth H ds)"
        and inp: "incl_inputs H i (length ds - 1) r ps = (1 # p @ r) # incl_inputs H (i div 2) ((length ds - 1) div 2) (ih H p r) qs"
        using less.prems(6) True ps by (simp_all add: incl_walk_odd incl_inputs_odd)
      have node: "1 # ds ! (i - 1) @ ds ! i \<in> set (node_inputs H ds)"
        using node_input [of ds "i div 2" H] True less.prems(1) right(1) by (auto elim!: oddE)
      have eq: "ih H p r = ih H (ds ! (i - 1)) (ds ! i) \<and> qs = iproof H (i div 2) (pair_up H ds)"
        using up [OF rl walk] inp right(2) by auto
      have "p = ds ! (i - 1) \<and> r = ds ! i"
        by (rule ih_inject_parts [OF less.prems(5)]) (use inp node eq dl [of i] less.prems in auto)
      then show ?thesis using eq right(3) less.prems(1) by (simp add: ps iproof_step [of i ds])
    next
      case left
      then have walk: "incl_walk H (i div 2) ((length ds - 1) div 2) (ih H r p) qs = Some (0, mth H ds)"
        and inp: "incl_inputs H i (length ds - 1) r ps = (1 # r @ p) # incl_inputs H (i div 2) ((length ds - 1) div 2) (ih H r p) qs"
        using less.prems(6) True ps by (simp_all add: incl_walk_even incl_inputs_even)
      have node: "1 # ds ! i @ ds ! (i + 1) \<in> set (node_inputs H ds)"
        using node_input [of ds "i div 2" H] True left(1,2) by auto
      have eq: "ih H r p = ih H (ds ! i) (ds ! (i + 1)) \<and> qs = iproof H (i div 2) (pair_up H ds)"
        using up [OF rl walk] inp left(3) by auto
      have "r = ds ! i \<and> p = ds ! (i + 1)"
        by (rule ih_inject_parts [OF less.prems(5)]) (use inp node eq dl [of i] less.prems in auto)
      then show ?thesis using eq left(4) less.prems(1) by (simp add: ps iproof_step [of i ds])
    next
      case (promoted a)
      then have "r = pair_up H ds ! (i div 2) \<and> ps = iproof H (i div 2) (pair_up H ds)"
        using less.prems(4,6) ps incl_walk_promoted [OF promoted(2)] incl_inputs_promoted [OF promoted(2)]
        by (intro up) simp_all
      then show ?thesis using iproof_step [OF less.prems(1), of H] promoted by simp
    qed
  qed
qed

section \<open>Consistency\<close>

text \<open>The recursion of the generator; a single entry always has \<open>m = n\<close> there.\<close>

function cons_sub :: "(bytes \<Rightarrow> bytes) \<Rightarrow> nat \<Rightarrow> ustr list \<Rightarrow> bool \<Rightarrow> bytes list option" where
  "cons_sub H m ents b =
     (if m = length ents then (if b then Some [] else map_option (\<lambda>h. [h]) (merkle_tree_head H ents))
      else if length ents \<le> 1 then None
      else let k = largest_pow2_below (length ents) in
        if m \<le> k then
          (case cons_sub H m (take k ents) b of None \<Rightarrow> None
           | Some p \<Rightarrow> (case merkle_tree_head H (drop k ents) of None \<Rightarrow> None | Some h \<Rightarrow> Some (p @ [h])))
        else
          (case cons_sub H (m - k) (drop k ents) False of None \<Rightarrow> None
           | Some p \<Rightarrow> (case merkle_tree_head H (take k ents) of None \<Rightarrow> None | Some h \<Rightarrow> Some (p @ [h]))))"
  by pat_completeness auto
termination
  by (relation "measure (\<lambda>(H, m, ds, b). length ds)") (use halves_shorter in \<open>auto simp del: length_take length_drop\<close>)

declare cons_sub.simps [simp del]

definition consistency_proof :: "(bytes \<Rightarrow> bytes) \<Rightarrow> int \<Rightarrow> ustr list \<Rightarrow> bytes list option" where
  "consistency_proof H m entries =
     (if m \<le> 0 \<or> int (length entries) < m then Some [] else cons_sub H (nat m) entries True)"

text \<open>The verifier's three loops: past the levels the two trees share, then level by level.\<close>

function strip_shared :: "nat \<Rightarrow> nat \<Rightarrow> nat \<times> nat" where
  "strip_shared node lst = (if odd node then strip_shared (node div 2) (lst div 2) else (node, lst))"
  by pat_completeness auto
termination by (relation "measure fst") (auto elim!: oddE)

declare strip_shared.simps [simp del]

function cons_walk :: "(bytes \<Rightarrow> bytes) \<Rightarrow> nat \<Rightarrow> nat \<Rightarrow> bytes \<Rightarrow> bytes \<Rightarrow> bytes list \<Rightarrow> (nat \<times> bytes \<times> bytes \<times> bytes list) option" where
  "cons_walk H node lst h1 h2 it =
     (if node = 0 then Some (lst, h1, h2, it)
      else if odd node then
        (case it of [] \<Rightarrow> None
         | s # it2 \<Rightarrow> cons_walk H (node div 2) (lst div 2) (ih H s h1) (ih H s h2) it2)
      else if node < lst then
        (case it of [] \<Rightarrow> None | s # it2 \<Rightarrow> cons_walk H (node div 2) (lst div 2) h1 (ih H h2 s) it2)
      else cons_walk H (node div 2) (lst div 2) h1 h2 it)"
  by pat_completeness auto
termination by (relation "measure (\<lambda>(H, node, lst, h1, h2, it). node)") auto

declare cons_walk.simps [simp del]

function cons_tail :: "(bytes \<Rightarrow> bytes) \<Rightarrow> nat \<Rightarrow> bytes \<Rightarrow> bytes list \<Rightarrow> (bytes \<times> bytes list) option" where
  "cons_tail H lst h2 it =
     (if lst = 0 then Some (h2, it)
      else (case it of [] \<Rightarrow> None | s # it2 \<Rightarrow> cons_tail H (lst div 2) (ih H h2 s) it2))"
  by pat_completeness auto
termination by (relation "measure (\<lambda>(H, lst, h2, it). lst)") auto

declare cons_tail.simps [simp del]

definition cons_first :: "nat \<Rightarrow> bytes \<Rightarrow> bytes list \<Rightarrow> (bytes \<times> bytes list) option" where
  "cons_first node root1 proof =
     (if node = 0 then Some (root1, proof) else (case proof of [] \<Rightarrow> None | h # it \<Rightarrow> Some (h, it)))"

definition cons_check :: "(bytes \<Rightarrow> bytes) \<Rightarrow> nat \<Rightarrow> nat \<Rightarrow> bytes \<Rightarrow> bytes \<Rightarrow> bytes list \<Rightarrow> bool" where
  "cons_check H node0 lst0 root1 root2 proof =
     (case strip_shared node0 lst0 of (node, lst) \<Rightarrow>
        (case cons_first node root1 proof of None \<Rightarrow> False
         | Some (h, it) \<Rightarrow>
             (case cons_walk H node lst h h it of None \<Rightarrow> False
              | Some (lst2, h1, h2, it2) \<Rightarrow>
                  (case cons_tail H lst2 h2 it2 of None \<Rightarrow> False
                   | Some (h2', it3) \<Rightarrow> h1 = root1 \<and> h2' = root2 \<and> it3 = []))))"

definition verify_consistency :: "(bytes \<Rightarrow> bytes) \<Rightarrow> pyval \<Rightarrow> pyval \<Rightarrow> bytes \<Rightarrow> bytes \<Rightarrow> bytes list \<Rightarrow> bool" where
  "verify_consistency H m0 n0 root1 root2 proof =
     (case (wire_int m0, wire_int n0) of
        (Inr m, Inr n) \<Rightarrow>
          if m < 0 \<or> n < m then False
          else if m = n then proof = [] \<and> root1 = root2
          else if m = 0 then proof = []
          else if proof = [] then False
          else cons_check H (nat m - 1) (nat n - 1) root1 root2 proof
      | _ \<Rightarrow> False)"

section \<open>The generator, by levels\<close>

function dsub :: "(bytes \<Rightarrow> bytes) \<Rightarrow> nat \<Rightarrow> bytes list \<Rightarrow> bool \<Rightarrow> bytes list" where
  "dsub H m ds b =
     (if m = length ds then (if b then [] else [mth H ds])
      else if length ds \<le> 1 then []
      else let k = largest_pow2_below (length ds) in
        if m \<le> k then dsub H m (take k ds) b @ [mth H (drop k ds)]
        else dsub H (m - k) (drop k ds) False @ [mth H (take k ds)])"
  by pat_completeness auto
termination
  by (relation "measure (\<lambda>(H, m, ds, b). length ds)") (use halves_shorter in \<open>auto simp del: length_take length_drop\<close>)

declare dsub.simps [simp del]

lemma dsub_whole: "m = length ds \<Longrightarrow> dsub H m ds b = (if b then [] else [mth H ds])"
  by (simp add: dsub.simps)

lemma dsub_split: "m < length ds \<Longrightarrow> 2 \<le> length ds \<Longrightarrow> k = largest_pow2_below (length ds) \<Longrightarrow>
    dsub H m ds b = (if m \<le> k then dsub H m (take k ds) b @ [mth H (drop k ds)] else dsub H (m - k) (drop k ds) False @ [mth H (take k ds)])"
  by (subst dsub.simps) (simp add: Let_def)

lemma cons_sub_dsub:
  "encodable es \<Longrightarrow> 0 < m \<Longrightarrow> m \<le> length es \<Longrightarrow> cons_sub H m es b = Some (dsub H m (leaf_hashes H es) b)"
proof (induction "length es" arbitrary: m es b rule: less_induct)
  case less
  show ?case
  proof (cases "m = length es")
    case True
    then show ?thesis
      using merkle_tree_head_mth [OF less.prems(1), of H] dsub_whole [of m "leaf_hashes H es" H b]
      by (subst cons_sub.simps) (simp add: leaf_hashes_parts)
  next
    case False
    then have two: "\<not> length es \<le> 1" using less.prems by simp
    let ?k = "largest_pow2_below (length es)"
    note heads = merkle_tree_head_mth [OF conjunct1 [OF encodable_parts [OF less.prems(1), of ?k]], of H]
      merkle_tree_head_mth [OF conjunct2 [OF encodable_parts [OF less.prems(1), of ?k]], of H]
    note shorter = halves_shorter [OF two]
    have split: "dsub H m (leaf_hashes H es) b =
        (if m \<le> ?k then dsub H m (leaf_hashes H (take ?k es)) b @ [mth H (leaf_hashes H (drop ?k es))]
         else dsub H (m - ?k) (leaf_hashes H (drop ?k es)) False @ [mth H (leaf_hashes H (take ?k es))])"
      using dsub_split [of m "leaf_hashes H es" ?k H b] two False less.prems(3) by (simp add: leaf_hashes_parts)
    show ?thesis
    proof (cases "m \<le> ?k")
      case True
      have "cons_sub H m (take ?k es) b = Some (dsub H m (leaf_hashes H (take ?k es)) b)"
        using less.hyps [OF shorter(1)] less.prems encodable_parts True by simp
      then show ?thesis using True False two heads split by (subst cons_sub.simps) (simp add: Let_def)
    next
      case ge: False
      have "cons_sub H (m - ?k) (drop ?k es) False = Some (dsub H (m - ?k) (leaf_hashes H (drop ?k es)) False)"
        using less.hyps [OF shorter(2)] less.prems encodable_parts ge by simp
      then show ?thesis using ge False two heads split by (subst cons_sub.simps) (simp add: Let_def)
    qed
  qed
qed

lemma dsub_even:
  "even m \<Longrightarrow> 0 < m \<Longrightarrow> m \<le> length ds \<Longrightarrow> dsub H m ds b = dsub H (m div 2) (pair_up H ds) b"
proof (induction "length ds" arbitrary: m ds b rule: less_induct)
  case less
  show ?case
  proof (cases "m = length ds")
    case True
    then have "m div 2 = length (pair_up H ds)" "ds \<noteq> []" using less.prems(1,2) by (auto elim!: evenE)
    moreover from this have "mth H (pair_up H ds) = mth H ds" by (intro mth_pair_up) simp
    ultimately show ?thesis using True by (simp only: dsub_whole)
  next
    case False
    then have three: "3 \<le> length ds" using less.prems by (auto elim!: evenE)
    let ?k = "largest_pow2_below (length ds)"
    obtain j where j: "largest_pow2_below (length (pair_up H ds)) = j" "?k = 2 * j" "0 < j" "2 * j < length ds"
        "take j (pair_up H ds) = pair_up H (take ?k ds)" "drop j (pair_up H ds) = pair_up H (drop ?k ds)"
      using level_split [OF three refl, of H] by blast
    have le: "m \<le> ?k \<longleftrightarrow> m div 2 \<le> j" and half: "(m - ?k) div 2 = m div 2 - j"
      using j(2) less.prems(1) by (auto elim!: evenE)
    have here: "dsub H m ds b = (if m \<le> ?k then dsub H m (take ?k ds) b @ [mth H (drop ?k ds)]
        else dsub H (m - ?k) (drop ?k ds) False @ [mth H (take ?k ds)])"
      using False less.prems(3) three by (intro dsub_split) simp_all
    have "m div 2 < length (pair_up H ds)" "2 \<le> length (pair_up H ds)" using False less.prems three by auto
    then have up: "dsub H (m div 2) (pair_up H ds) b =
        (if m div 2 \<le> j then dsub H (m div 2) (pair_up H (take ?k ds)) b @ [mth H (pair_up H (drop ?k ds))]
         else dsub H (m div 2 - j) (pair_up H (drop ?k ds)) False @ [mth H (pair_up H (take ?k ds))])"
      using dsub_split [of "m div 2" "pair_up H ds" j H b] j by simp
    have heads: "mth H (pair_up H (drop ?k ds)) = mth H (drop ?k ds)" "mth H (pair_up H (take ?k ds)) = mth H (take ?k ds)"
      using j(2-4) by (intro mth_pair_up; auto)+
    show ?thesis
    proof (cases "m \<le> ?k")
      case True
      have "dsub H m (take ?k ds) b = dsub H (m div 2) (pair_up H (take ?k ds)) b"
        using less.prems True j(2,4) by (intro less.hyps) simp_all
      then show ?thesis using here up heads True le by simp
    next
      case gt: False
      have "dsub H (m - ?k) (drop ?k ds) False = dsub H ((m - ?k) div 2) (pair_up H (drop ?k ds)) False"
        using less.prems gt j(2-4) by (intro less.hyps) simp_all
      then show ?thesis using here up heads gt le half by simp
    qed
  qed
qed

lemma dsub_odd:
  "odd m \<Longrightarrow> m < length ds \<or> m = 1 \<and> length ds = 1 \<Longrightarrow>
    dsub H m ds b = (if b \<and> m = 1 then [] else [ds ! (m - 1)]) @ iproof H (m - 1) ds"
proof (induction "length ds" arbitrary: m ds b rule: less_induct)
  case less
  show ?case
  proof (cases "length ds \<le> 1")
    case True
    then obtain d where "ds = [d]" "m = 1" using less.prems by (cases ds; cases "tl ds") auto
    then show ?thesis by (simp add: dsub_whole)
  next
    case False
    then have two: "2 \<le> length ds" and mlt: "m < length ds" using less.prems by auto
    let ?k = "largest_pow2_below (length ds)"
    have k: "0 < ?k" "?k < length ds" using largest_pow2_bounds [OF two] by auto
    have here: "dsub H m ds b = (if m \<le> ?k then dsub H m (take ?k ds) b @ [mth H (drop ?k ds)]
        else dsub H (m - ?k) (drop ?k ds) False @ [mth H (take ?k ds)])"
      using dsub_split [OF mlt two refl] .
    have path: "iproof H (m - 1) ds = (if m - 1 < ?k then iproof H (m - 1) (take ?k ds) @ [mth H (drop ?k ds)]
        else iproof H (m - 1 - ?k) (drop ?k ds) @ [mth H (take ?k ds)])"
      using mlt by (intro iproof_split) (use two in simp_all)
    have m0: "0 < m" using less.prems(1) by (cases m) auto
    show ?thesis
    proof (cases "m \<le> ?k")
      case True
      have "m < length (take ?k ds) \<or> m = 1 \<and> length (take ?k ds) = 1"
        using True k less.prems(1) largest_pow2_odd [OF two] by (cases "m = ?k") auto
      then have "dsub H m (take ?k ds) b = (if b \<and> m = 1 then [] else [take ?k ds ! (m - 1)]) @ iproof H (m - 1) (take ?k ds)"
        using less.prems(1) k by (intro less.hyps) simp_all
      then show ?thesis using here path True m0 by auto
    next
      case gt: False
      have "even ?k"
      proof (rule ccontr)
        assume "odd ?k"
        then have "length ds = 2" by (rule largest_pow2_odd [OF two])
        then show False using gt mlt k by simp
      qed
      then have "dsub H (m - ?k) (drop ?k ds) False = [drop ?k ds ! (m - ?k - 1)] @ iproof H (m - ?k - 1) (drop ?k ds)"
        using less.hyps [of "drop ?k ds" "m - ?k" False] less.prems(1) gt k mlt by (simp add: diff_less_mono)
      moreover have "?k + (m - ?k - 1) = m - 1" "m - ?k - 1 = m - 1 - ?k" using gt by auto
      moreover have "\<not> (b \<and> m = 1)" "\<not> m - 1 < ?k" using gt k by auto
      ultimately show ?thesis using here path gt k by simp
    qed
  qed
qed

section \<open>The consistency walk, level by level\<close>

definition cons_run :: "(bytes \<Rightarrow> bytes) \<Rightarrow> nat \<Rightarrow> nat \<Rightarrow> bytes \<Rightarrow> bytes \<Rightarrow> bytes list \<Rightarrow> (bytes \<times> bytes \<times> bytes list) option" where
  "cons_run H node lst h1 h2 it =
     (case cons_walk H node lst h1 h2 it of None \<Rightarrow> None
      | Some (lst2, k1, k2, it2) \<Rightarrow> map_option (\<lambda>(k2', it3). (k1, k2', it3)) (cons_tail H lst2 k2 it2))"

lemma cons_run_done: "cons_run H 0 0 h1 h2 it = Some (h1, h2, it)"
  by (simp add: cons_run_def cons_walk.simps cons_tail.simps)

lemma cons_run_odd: "odd node \<Longrightarrow> cons_run H node lst h1 h2 it =
    (case it of [] \<Rightarrow> None | s # it2 \<Rightarrow> cons_run H (node div 2) (lst div 2) (ih H s h1) (ih H s h2) it2)"
  by (cases "node = 0") (auto simp: cons_run_def cons_walk.simps [of H node] split: list.split)

lemma cons_run_left: "even node \<Longrightarrow> node < lst \<Longrightarrow> cons_run H node lst h1 h2 it =
    (case it of [] \<Rightarrow> None | s # it2 \<Rightarrow> cons_run H (node div 2) (lst div 2) h1 (ih H h2 s) it2)"
  by (cases "node = 0")
    (auto simp: cons_run_def cons_walk.simps [of H node] cons_walk.simps [of H 0] cons_tail.simps [of H lst] split: list.split)

lemma cons_run_promoted: "0 < a \<Longrightarrow> cons_run H (2 * a) (2 * a) h1 h2 it = cons_run H a a h1 h2 it"
  by (simp add: cons_run_def cons_walk.simps [of H "2 * a"])

lemma take_level:
  assumes "take node P = take node L" "length P = Suc node" "node < length L"
  shows "take (node div 2) (pair_up H P) = take (node div 2) (pair_up H L)"
proof -
  have "take (2 * (node div 2)) P = take (2 * (node div 2)) (take node P)" by (simp add: min_def)
  also have "\<dots> = take (2 * (node div 2)) L" using assms(1) by (simp add: min_def)
  finally show ?thesis using assms(2,3) by (simp add: take_pair_up)
qed

lemma cons_run_complete:
  "node < length L \<Longrightarrow> length P = Suc node \<Longrightarrow> take node P = take node L \<Longrightarrow>
    cons_run H node (length L - 1) (P ! node) (L ! node) (iproof H node L) = Some (mth H P, mth H L, [])"
proof (induction "length L" arbitrary: node L P rule: less_induct)
  case less
  show ?case
  proof (cases "2 \<le> length L")
    case False
    then obtain d e where "L = [d]" "node = 0" "P = [e]"
      using less.prems by (cases L; cases "tl L"; cases P) auto
    then show ?thesis by (simp add: cons_run_done)
  next
    case True
    have P: "P \<noteq> []" "length (pair_up H P) = Suc (node div 2)" using less.prems(2) by auto
    have "cons_run H (node div 2) (length (pair_up H L) - 1) (pair_up H P ! (node div 2)) (pair_up H L ! (node div 2))
        (iproof H (node div 2) (pair_up H L)) = Some (mth H (pair_up H P), mth H (pair_up H L), [])"
      using less.prems True take_level [OF less.prems(3,2,1)] P(2) by (intro less.hyps) auto
    then have up: "cons_run H (node div 2) ((length L - 1) div 2) (pair_up H P ! (node div 2)) (pair_up H L ! (node div 2))
        (iproof H (node div 2) (pair_up H L)) = Some (mth H P, mth H L, [])"
      using mth_pair_up [of P H] mth_pair_up [of L H] P(1) True half_last [OF True] by fastforce
    note path = iproof_step [OF less.prems(1), of H]
    from less.prems(1) True show ?thesis
    proof (cases rule: level_cases [where H = H])
      case right
      then have "node - 1 < node" "2 * (node div 2) = node - 1" "2 * (node div 2) + 1 = node" by (auto elim!: oddE)
      moreover have "P ! (node - 1) = L ! (node - 1)"
        using less.prems(3) right(1) by (metis odd_pos diff_less less_numeral_extra(1) nth_take)
      ultimately have "pair_up H P ! (node div 2) = ih H (L ! (node - 1)) (P ! node)"
        using nth_pair_up [of "node div 2" P H] less.prems(2) by simp
      then show ?thesis using up right path by (simp add: cons_run_odd)
    next
      case left
      then have "pair_up H P ! (node div 2) = P ! node"
        using nth_pair_up_last [of "node div 2" P H] less.prems(2) by simp
      then show ?thesis using up left path by (simp add: cons_run_left)
    next
      case (promoted a)
      then have "pair_up H P ! a = P ! node"
        using nth_pair_up_last [of a P H] less.prems(2) by simp
      then show ?thesis using up promoted path by (simp add: cons_run_promoted)
    qed
  qed
qed

text \<open>The inputs the two loops hash.\<close>

function cons_inputs :: "(bytes \<Rightarrow> bytes) \<Rightarrow> nat \<Rightarrow> nat \<Rightarrow> bytes \<Rightarrow> bytes \<Rightarrow> bytes list \<Rightarrow> bytes list" where
  "cons_inputs H node lst h1 h2 it =
     (if node = 0 \<and> lst = 0 then []
      else if odd node then
        (case it of [] \<Rightarrow> []
         | s # it2 \<Rightarrow> (1 # s @ h1) # (1 # s @ h2) # cons_inputs H (node div 2) (lst div 2) (ih H s h1) (ih H s h2) it2)
      else if node < lst then
        (case it of [] \<Rightarrow> []
         | s # it2 \<Rightarrow> (1 # h2 @ s) # cons_inputs H (node div 2) (lst div 2) h1 (ih H h2 s) it2)
      else cons_inputs H (node div 2) (lst div 2) h1 h2 it)"
  by pat_completeness auto
termination by (relation "measure (\<lambda>(H, node, lst, h1, h2, it). node + lst)") (auto elim!: oddE evenE)

declare cons_inputs.simps [simp del]

lemma node_inject:
  assumes "inj_on H (set (node_inputs H L) \<union> set (node_inputs H P) \<union> S)" "digests L" "digests P"
    and "2 * j + 1 < length P" "2 * j + 1 < length L" "pair_up H P ! j = pair_up H L ! j"
  shows "P ! (2 * j) = L ! (2 * j) \<and> P ! (2 * j + 1) = L ! (2 * j + 1)"
proof (rule ih_inject_parts [OF assms(1)])
  show "1 # P ! (2 * j) @ P ! (2 * j + 1) \<in> set (node_inputs H L) \<union> set (node_inputs H P) \<union> S"
    using node_input [of P j H] assms(4) by auto
  show "1 # L ! (2 * j) @ L ! (2 * j + 1) \<in> set (node_inputs H L) \<union> set (node_inputs H P) \<union> S"
    using node_input [of L j H] assms(5) by auto
  show "ih H (P ! (2 * j)) (P ! (2 * j + 1)) = ih H (L ! (2 * j)) (L ! (2 * j + 1))"
    using assms(4-6) by (simp add: nth_pair_up)
qed (use assms(2-5) digests_nth in auto)

lemma take_inject:
  assumes "inj_on H (set (node_inputs H L) \<union> set (node_inputs H P) \<union> S)" "digests L" "digests P"
    and "2 * j \<le> length P" "2 * j \<le> length L" "take j (pair_up H P) = take j (pair_up H L)"
  shows "take (2 * j) P = take (2 * j) L"
proof (rule nth_equalityI)
  fix i assume "i < length (take (2 * j) P)"
  then have i: "i < 2 * j" "2 * (i div 2) + 1 < 2 * j" using assms(4) by (simp, simp, presburger)
  have "pair_up H P ! (i div 2) = pair_up H L ! (i div 2)"
    using arg_cong [OF assms(6), of "\<lambda>xs. xs ! (i div 2)"] i by simp
  then have "P ! (2 * (i div 2)) = L ! (2 * (i div 2)) \<and> P ! (2 * (i div 2) + 1) = L ! (2 * (i div 2) + 1)"
    using i(2) assms(4,5) by (intro node_inject [OF assms(1-3)]) simp_all
  then show "take (2 * j) P ! i = take (2 * j) L ! i"
    using i(1) by (cases "even i") (auto elim!: evenE oddE)
qed (use assms(4,5) in simp)

lemma cons_run_sound:
  "node < length L \<Longrightarrow> length P = Suc node \<Longrightarrow> digests L \<Longrightarrow> digests P \<Longrightarrow> hash32 H \<Longrightarrow> h1 = h2 \<or> length h2 = 32 \<Longrightarrow>
    inj_on H (set (node_inputs H L) \<union> set (node_inputs H P) \<union> set (cons_inputs H node (length L - 1) h1 h2 it)) \<Longrightarrow>
    cons_run H node (length L - 1) h1 h2 it = Some (mth H P, mth H L, []) \<Longrightarrow>
    take node P = take node L \<and> (h1 = h2 \<longrightarrow> P ! node = L ! node) \<and>
      (length h2 = 32 \<longrightarrow> P ! node = h1 \<and> L ! node = h2)"
proof (induction "length L" arbitrary: node L P h1 h2 it rule: less_induct)
  case less
  show ?case
  proof (cases "2 \<le> length L")
    case False
    then obtain d e where "L = [d]" "node = 0" "P = [e]"
      using less.prems by (cases L; cases "tl L"; cases P) auto
    then show ?thesis using less.prems(8) by (simp add: cons_run_done)
  next
    case True
    have P: "P \<noteq> []" "length (pair_up H P) = Suc (node div 2)" using less.prems(2) by auto
    have dL: "length (L ! j) = 32" if "j < length L" for j using digests_nth [OF less.prems(3) that] .
    have dP: "length (P ! j) = 32" if "j \<le> node" for j using digests_nth [OF less.prems(4)] that less.prems(2) by simp
    have rl: "length (ih H a b) = 32" for a b using less.prems(5) by (simp add: ih_def hash32_def)
    have upP: "set (node_inputs H (pair_up H P)) \<subseteq> set (node_inputs H P)"
      using node_inputs_up [of P H] by (cases "2 \<le> length P") (auto simp: node_inputs.simps [of H "pair_up H P"])
    have up: "take (node div 2) (pair_up H P) = take (node div 2) (pair_up H L) \<and>
        (k1 = k2 \<longrightarrow> pair_up H P ! (node div 2) = pair_up H L ! (node div 2)) \<and>
        (length k2 = 32 \<longrightarrow> pair_up H P ! (node div 2) = k1 \<and> pair_up H L ! (node div 2) = k2)"
      if "cons_run H (node div 2) ((length L - 1) div 2) k1 k2 it2 = Some (mth H P, mth H L, [])" "k1 = k2 \<or> length k2 = 32"
        "set (cons_inputs H (node div 2) ((length L - 1) div 2) k1 k2 it2) \<subseteq> set (cons_inputs H node (length L - 1) h1 h2 it)"
      for k1 k2 it2
    proof (rule less.hyps)
      show "inj_on H (set (node_inputs H (pair_up H L)) \<union> set (node_inputs H (pair_up H P)) \<union>
          set (cons_inputs H (node div 2) (length (pair_up H L) - 1) k1 k2 it2))"
        using node_inputs_up [OF True, of H] upP that(3) half_last [OF True]
        by (intro inj_on_subset [OF less.prems(7)]) auto
      show "cons_run H (node div 2) (length (pair_up H L) - 1) k1 k2 it2 = Some (mth H (pair_up H P), mth H (pair_up H L), [])"
        using that(1) half_last [OF True] mth_pair_up [of L H] mth_pair_up [OF P(1), of H] True by fastforce
    qed (use True less.prems P that(2) digests_pair_up in auto)
    have lower: "take (2 * (node div 2)) P = take (2 * (node div 2)) L"
      if "take (node div 2) (pair_up H P) = take (node div 2) (pair_up H L)"
      by (rule take_inject [OF less.prems(7,3,4) _ _ that]) (use less.prems(1,2) in auto)
    from less.prems(1) True show ?thesis
    proof (cases rule: level_cases [where H = H])
      case right
      then have n: "2 * (node div 2) = node - 1" "2 * (node div 2) + 1 = node" "node \<noteq> 0" by (auto elim!: oddE)
      from right(1) less.prems(8) obtain s it2 where it: "it = s # it2"
        by (cases it) (auto simp: cons_run_odd)
      have run: "cons_run H (node div 2) ((length L - 1) div 2) (ih H s h1) (ih H s h2) it2 = Some (mth H P, mth H L, [])"
        using less.prems(8) right(1) it by (simp add: cons_run_odd)
      have inp: "cons_inputs H node (length L - 1) h1 h2 it =
          (1 # s @ h1) # (1 # s @ h2) # cons_inputs H (node div 2) ((length L - 1) div 2) (ih H s h1) (ih H s h2) it2"
        using right(1) n(3) it by (subst cons_inputs.simps) simp
      have pP: "pair_up H P ! (node div 2) = ih H (P ! (node - 1)) (P ! node)"
        using nth_pair_up [of "node div 2" P H] n less.prems(2) by simp
      have eq: "take (node div 2) (pair_up H P) = take (node div 2) (pair_up H L)"
          "ih H (P ! (node - 1)) (P ! node) = ih H s h1" "ih H (L ! (node - 1)) (L ! node) = ih H s h2"
        using up [OF run] rl inp pP right(2) by auto
      have nodes: "1 # P ! (node - 1) @ P ! node \<in> set (node_inputs H P)" "1 # L ! (node - 1) @ L ! node \<in> set (node_inputs H L)"
        using node_input [of P "node div 2" H] node_input [of L "node div 2" H] n less.prems(1,2) True by auto
      have cP: "P ! (node - 1) @ P ! node = s @ h1"
        by (rule ih_inject [OF less.prems(7) _ _ eq(2)]) (use nodes inp in auto)
      have cL: "L ! (node - 1) @ L ! node = s @ h2"
        by (rule ih_inject [OF less.prems(7) _ _ eq(3)]) (use nodes inp in auto)
      have lens: "length (P ! (node - 1)) = 32" "length (P ! node) = 32" "length (L ! (node - 1)) = 32" "length (L ! node) = 32"
        using dP [of "node - 1"] dP [of node] dL [of "node - 1"] dL [of node] less.prems(1) by auto
      have same: "P ! (node - 1) = L ! (node - 1) \<and> (h1 = h2 \<longrightarrow> P ! node = L ! node) \<and>
          (length h2 = 32 \<longrightarrow> P ! node = h1 \<and> L ! node = h2)"
      proof (cases "length h2 = 32")
        case True
        then have "L ! (node - 1) = s \<and> L ! node = h2" using cL lens by (auto simp: append_eq_append_conv)
        moreover have "P ! (node - 1) = s \<and> P ! node = h1"
        proof -
          have "length s = 32" using calculation lens by auto
          then show ?thesis using cP lens by (auto simp: append_eq_append_conv)
        qed
        ultimately show ?thesis by simp
      next
        case False
        then show ?thesis using less.prems(6) cP cL lens by (metis append_eq_append_conv)
      qed
      have "take (node - 1) P = take (node - 1) L"
        using lower [OF eq(1)] n(1) by simp
      then have "take node P = take node L"
        using same n less.prems(1,2) by (metis (no_types, lifting) Suc_diff_1 Suc_lessD lessI less_trans_Suc neq0_conv take_Suc_conv_app_nth)
      with same show ?thesis by simp
    next
      case left
      have even2: "2 * (node div 2) = node" using left(1) by auto
      from left less.prems(8) obtain s it2 where it: "it = s # it2"
        by (cases it) (auto simp: cons_run_left)
      have run: "cons_run H (node div 2) ((length L - 1) div 2) h1 (ih H h2 s) it2 = Some (mth H P, mth H L, [])"
        using less.prems(8) left(1,2) it by (simp add: cons_run_left)
      have inp: "cons_inputs H node (length L - 1) h1 h2 it =
          (1 # h2 @ s) # cons_inputs H (node div 2) ((length L - 1) div 2) h1 (ih H h2 s) it2"
        using left(1,2) True it by (subst cons_inputs.simps) auto
      have pP: "pair_up H P ! (node div 2) = P ! node"
        using nth_pair_up_last [of "node div 2" P H] even2 less.prems(2) by simp
      have eq: "take (node div 2) (pair_up H P) = take (node div 2) (pair_up H L)"
          "P ! node = h1" "ih H (L ! node) (L ! (node + 1)) = ih H h2 s"
        using up [OF run] rl inp pP left(3) by auto
      have nodeL: "1 # L ! node @ L ! (node + 1) \<in> set (node_inputs H L)"
        using node_input [of L "node div 2" H] even2 left(2) True by simp
      have cL: "L ! node @ L ! (node + 1) = h2 @ s"
        by (rule ih_inject [OF less.prems(7) _ _ eq(3)]) (use nodeL inp in auto)
      have "length h2 = 32" using less.prems(6) eq(2) dP [of node] by auto
      then have "L ! node = h2" using cL dL [of node] less.prems(1) by (simp add: append_eq_append_conv)
      then show ?thesis using lower [OF eq(1)] even2 eq(2) by simp
    next
      case (promoted a)
      have inp: "cons_inputs H node (length L - 1) h1 h2 it = cons_inputs H (node div 2) ((length L - 1) div 2) h1 h2 it"
        using promoted by (subst cons_inputs.simps) simp
      have "cons_run H (node div 2) ((length L - 1) div 2) h1 h2 it = Some (mth H P, mth H L, [])"
        using less.prems(8) promoted by (simp add: cons_run_promoted)
      from up [OF this less.prems(6)] have "take (node div 2) (pair_up H P) = take (node div 2) (pair_up H L)"
        and ends: "(h1 = h2 \<longrightarrow> pair_up H P ! (node div 2) = pair_up H L ! (node div 2)) \<and>
          (length h2 = 32 \<longrightarrow> pair_up H P ! (node div 2) = h1 \<and> pair_up H L ! (node div 2) = h2)"
        using inp by simp_all
      moreover have "pair_up H P ! (node div 2) = P ! node"
        using nth_pair_up_last [of "node div 2" P H] promoted(1) less.prems(2) by simp
      ultimately show ?thesis using lower promoted by simp
    qed
  qed
qed

section \<open>From the stripped level down\<close>

lemma strip_even: "even m \<Longrightarrow> 0 < m \<Longrightarrow> m < n \<Longrightarrow>
    strip_shared (m - 1) (n - 1) = strip_shared (m div 2 - 1) ((n + 1) div 2 - 1)"
proof -
  assume m: "even m" "0 < m" "m < n"
  then have "odd (m - 1)" "(m - 1) div 2 = m div 2 - 1" "(n - 1) div 2 = (n + 1) div 2 - 1"
    using half_last [of n] by (auto elim!: evenE)
  then show ?thesis by (subst strip_shared.simps) (simp only: if_True not_False_eq_True)
qed

lemma strip_odd: "odd m \<Longrightarrow> strip_shared (m - 1) l = (m - 1, l)"
  by (subst strip_shared.simps) (auto elim!: oddE)

lemma cons_check_even: "even m \<Longrightarrow> 0 < m \<Longrightarrow> m < n \<Longrightarrow>
    cons_check H (m - 1) (n - 1) r1 r2 p = cons_check H (m div 2 - 1) ((n + 1) div 2 - 1) r1 r2 p"
  by (simp only: cons_check_def strip_even)

lemma cons_check_odd: "odd m \<Longrightarrow> cons_check H (m - 1) l r1 r2 p \<longleftrightarrow>
    (\<exists>h it. cons_first (m - 1) r1 p = Some (h, it) \<and> cons_run H (m - 1) l h h it = Some (r1, r2, []))"
  unfolding cons_check_def cons_run_def by (subst strip_odd) (auto split: option.splits)

lemma half_prefix: "even m \<Longrightarrow> m \<le> length ds \<Longrightarrow> take (m div 2) (pair_up H ds) = pair_up H (take m ds)"
  by (auto elim!: evenE simp: take_pair_up)

lemma cons_check_complete:
  "0 < m \<Longrightarrow> m < length ds \<Longrightarrow> cons_check H (m - 1) (length ds - 1) (mth H (take m ds)) (mth H ds) (dsub H m ds True) \<and>
    dsub H m ds True \<noteq> []"
proof (induction "length ds" arbitrary: m ds rule: less_induct)
  case less
  show ?case
  proof (cases "even m")
    case True
    have half: "0 < m div 2" "m div 2 < length (pair_up H ds)" "length (pair_up H ds) < length ds"
      using True less.prems by (auto elim!: evenE)
    have "mth H (take (m div 2) (pair_up H ds)) = mth H (take m ds)"
    proof -
      have "take m ds \<noteq> []" using less.prems by auto
      then show ?thesis using half_prefix [OF True, of ds H] mth_pair_up [of "take m ds" H] less.prems(2) by simp
    qed
    moreover have "mth H (pair_up H ds) = mth H ds" using less.prems by (intro mth_pair_up) auto
    ultimately show ?thesis
      using less.hyps [OF half(3,1,2)] cons_check_even [OF True less.prems] dsub_even [OF True less.prems(1), of ds H True] less.prems(2)
      by simp
  next
    case False
    then have d: "dsub H m ds True = (if m = 1 then [] else [ds ! (m - 1)]) @ iproof H (m - 1) ds"
      using dsub_odd [of m ds H True] less.prems by simp
    have "take (m - 1) (take m ds) = take (m - 1) ds" by simp
    moreover have "length (take m ds) = Suc (m - 1)" "m - 1 < length ds" using less.prems by auto
    ultimately have run: "cons_run H (m - 1) (length ds - 1) (ds ! (m - 1)) (ds ! (m - 1)) (iproof H (m - 1) ds) =
        Some (mth H (take m ds), mth H ds, [])"
      using cons_run_complete [of "m - 1" ds "take m ds" H] less.prems by simp
    have "iproof H (m - 1) ds \<noteq> []" using less.prems by (intro iproof_nonempty) auto
    moreover have "mth H (take 1 ds) = ds ! 0" using less.prems by (cases ds) auto
    ultimately show ?thesis
      using run d less.prems(1) unfolding cons_check_odd [OF False] by (cases "m = 1") (auto simp: cons_first_def)
  qed
qed

definition check_inputs :: "(bytes \<Rightarrow> bytes) \<Rightarrow> nat \<Rightarrow> nat \<Rightarrow> bytes \<Rightarrow> bytes list \<Rightarrow> bytes list" where
  "check_inputs H node0 lst0 root1 proof =
     (case strip_shared node0 lst0 of (node, lst) \<Rightarrow>
        (case cons_first node root1 proof of None \<Rightarrow> [] | Some (h, it) \<Rightarrow> cons_inputs H node lst h h it))"

lemma check_inputs_even: "even m \<Longrightarrow> 0 < m \<Longrightarrow> m < n \<Longrightarrow>
    check_inputs H (m - 1) (n - 1) r1 p = check_inputs H (m div 2 - 1) ((n + 1) div 2 - 1) r1 p"
  by (simp only: check_inputs_def strip_even)

lemma check_inputs_odd: "odd m \<Longrightarrow> cons_first (m - 1) r1 p = Some (h, it) \<Longrightarrow>
    check_inputs H (m - 1) l r1 p = cons_inputs H (m - 1) l h h it"
  unfolding check_inputs_def by (subst strip_odd) simp_all

lemma node_inputs_up_subset: "set (node_inputs H (pair_up H ds)) \<subseteq> set (node_inputs H ds)"
  using node_inputs_up [of ds H] by (cases "2 \<le> length ds") (auto simp: node_inputs.simps [of H "pair_up H ds"])

lemma cons_check_sound:
  "0 < length P \<Longrightarrow> length P < length L \<Longrightarrow> digests L \<Longrightarrow> digests P \<Longrightarrow> hash32 H \<Longrightarrow>
    inj_on H (set (node_inputs H L) \<union> set (node_inputs H P) \<union> set (check_inputs H (length P - 1) (length L - 1) (mth H P) p)) \<Longrightarrow>
    cons_check H (length P - 1) (length L - 1) (mth H P) (mth H L) p \<Longrightarrow> P = take (length P) L"
proof (induction "length L" arbitrary: L P rule: less_induct)
  case less
  show ?case
  proof (cases "even (length P)")
    case True
    have sizes: "length (pair_up H P) = length P div 2" "0 < length (pair_up H P)" "length (pair_up H P) < length (pair_up H L)"
        "length (pair_up H L) < length L"
    proof -
      obtain b where b: "length P = 2 * b" using True by (auto elim!: evenE)
      then show "length (pair_up H P) = length P div 2" "0 < length (pair_up H P)"
        "length (pair_up H P) < length (pair_up H L)" "length (pair_up H L) < length L"
        using less.prems(1,2) by simp_all
    qed
    have heads: "mth H (pair_up H P) = mth H P" "mth H (pair_up H L) = mth H L"
      using less.prems(1,2) by (intro mth_pair_up; auto)+
    have "pair_up H P = take (length (pair_up H P)) (pair_up H L)"
    proof (rule less.hyps [OF sizes(4,2,3)])
      have "check_inputs H (length (pair_up H P) - 1) (length (pair_up H L) - 1) (mth H (pair_up H P)) p =
          check_inputs H (length P - 1) (length L - 1) (mth H P) p"
        using check_inputs_even [OF True less.prems(1,2), of H] sizes(1) heads(1) by simp
      then show "inj_on H (set (node_inputs H (pair_up H L)) \<union> set (node_inputs H (pair_up H P)) \<union>
          set (check_inputs H (length (pair_up H P) - 1) (length (pair_up H L) - 1) (mth H (pair_up H P)) p))"
        using node_inputs_up_subset [of H L] node_inputs_up_subset [of H P] by (intro inj_on_subset [OF less.prems(6)]) auto
      show "cons_check H (length (pair_up H P) - 1) (length (pair_up H L) - 1) (mth H (pair_up H P)) (mth H (pair_up H L)) p"
        using less.prems(7) cons_check_even [OF True less.prems(1,2), of H] sizes(1) heads by simp
    qed (use less.prems digests_pair_up in auto)
    then have "take (length P div 2) (pair_up H P) = take (length P div 2) (pair_up H L)" using sizes(1) by simp
    then have "take (2 * (length P div 2)) P = take (2 * (length P div 2)) L"
      by (intro take_inject [OF less.prems(6,3,4)]) (use less.prems(2) in auto)
    then show ?thesis using True by simp
  next
    case False
    then obtain h it where first: "cons_first (length P - 1) (mth H P) p = Some (h, it)"
      and run: "cons_run H (length P - 1) (length L - 1) h h it = Some (mth H P, mth H L, [])"
      using less.prems(7) unfolding cons_check_odd [OF False] by blast
    have "take (length P - 1) P = take (length P - 1) L \<and> P ! (length P - 1) = L ! (length P - 1)"
      using cons_run_sound [of "length P - 1" L P H h h it] less.prems run check_inputs_odd [OF False first] by simp
    then have "take (Suc (length P - 1)) P = take (Suc (length P - 1)) L"
      using less.prems(1,2) by (simp only: take_Suc_conv_app_nth)
    then show ?thesis using less.prems(1) by simp
  qed
qed

lemma mth_inject:
  "length P = length L \<Longrightarrow> digests L \<Longrightarrow> digests P \<Longrightarrow> hash32 H \<Longrightarrow>
    inj_on H (set (node_inputs H L) \<union> set (node_inputs H P) \<union> S) \<Longrightarrow> mth H P = mth H L \<Longrightarrow> P = L"
proof (induction "length L" arbitrary: L P rule: less_induct)
  case less
  show ?case
  proof (cases "2 \<le> length L")
    case False
    then show ?thesis using less.prems(1,6) by (cases L; cases P; cases "tl L"; cases "tl P") auto
  next
    case True
    have heads: "mth H (pair_up H P) = mth H P" "mth H (pair_up H L) = mth H L"
      using True less.prems(1) by (intro mth_pair_up; auto)+
    have up: "pair_up H P = pair_up H L"
    proof (rule less.hyps)
      show "inj_on H (set (node_inputs H (pair_up H L)) \<union> set (node_inputs H (pair_up H P)) \<union> S)"
        using node_inputs_up_subset by (intro inj_on_subset [OF less.prems(5)]) blast
    qed (use True less.prems heads digests_pair_up in auto)
    then have lower: "take (2 * (length L div 2)) P = take (2 * (length L div 2)) L"
      by (intro take_inject [OF less.prems(5,2,3)]) (use less.prems(1) in auto)
    show ?thesis
    proof (cases "even (length L)")
      case True
      then show ?thesis using lower less.prems(1) by simp
    next
      case False
      then have n: "Suc (2 * (length L div 2)) = length L" by (auto elim!: oddE)
      then have "P ! (2 * (length L div 2)) = L ! (2 * (length L div 2))"
        using nth_pair_up_last [of "length L div 2" L H] nth_pair_up_last [of "length L div 2" P H] up less.prems(1) by simp
      with lower have "take (Suc (2 * (length L div 2))) P = take (Suc (2 * (length L div 2))) L"
        using n less.prems(1) take_Suc_conv_app_nth [of "2 * (length L div 2)" P] take_Suc_conv_app_nth [of "2 * (length L div 2)" L]
        by simp
      then show ?thesis unfolding n using less.prems(1) by simp
    qed
  qed
qed

section \<open>Properties\<close>

text \<open>Every input hashed by a tree head.\<close>

definition tree_inputs :: "(bytes \<Rightarrow> bytes) \<Rightarrow> ustr list \<Rightarrow> bytes list" where
  "tree_inputs H es = map (\<lambda>e. 0 # the (utf8_encode e)) es @ node_inputs H (leaf_hashes H es)"

lemma digests_leaf_hashes: "hash32 H \<Longrightarrow> encodable es \<Longrightarrow> digests (leaf_hashes H es)"
  by (auto simp: digests_def leaf_hashes_def encodable_def lh_def hash32_def split: option.splits)

lemma lh_inject:
  assumes "inj_on H S" "lh H e = Some d" "lh H f = Some d" "0 # the (utf8_encode e) \<in> S" "0 # the (utf8_encode f) \<in> S"
  shows "e = f"
proof -
  have "the (utf8_encode e) = the (utf8_encode f)"
    using assms by (auto simp: lh_def dest: inj_onD split: option.splits)
  then show ?thesis using assms(2,3) by (auto simp: lh_def utf8_encode_Some_iff split: option.splits)
qed

lemma generated_inclusion:
  assumes "encodable es" "i < length es" "signed_count (PInt (int (length es)))"
  shows "\<exists>rt leaf p. merkle_tree_head H es = Some rt \<and> lh H (es ! i) = Some leaf \<and>
    inclusion_proof H (int i) es = Some p \<and> verify_inclusion H (PInt (int i)) (PInt (int (length es))) leaf rt p"
proof -
  have "signed_count (PInt (int i))" using assms(2,3) by (simp add: signed_count_def)
  then have ints: "wire_int (PInt (int i)) = Inr (int i)" "wire_int (PInt (int (length es))) = Inr (int (length es))"
    using assms(3) by (intro signed_count_wire_int; simp)+
  have leaf: "lh H (es ! i) = Some (leaf_hashes H es ! i)"
    using lh_encodable [OF assms(1), of "es ! i" H] assms(2) by (simp add: leaf_hashes_def)
  have "incl_walk H i (length es - 1) (leaf_hashes H es ! i) (iproof H i (leaf_hashes H es)) = Some (0, mth H (leaf_hashes H es))"
    using incl_walk_complete [of i "leaf_hashes H es" H] assms(2) by (simp add: leaf_hashes_parts)
  then have "verify_inclusion H (PInt (int i)) (PInt (int (length es))) (leaf_hashes H es ! i) (mth H (leaf_hashes H es))
      (iproof H i (leaf_hashes H es))"
    using ints assms(2) by (simp add: verify_inclusion_def)
  then show ?thesis
    using merkle_tree_head_mth [OF assms(1), of H] leaf incl_sub_iproof [OF assms(1,2), of H] assms(2)
    by (simp add: inclusion_proof_def)
qed

text \<open>
  Proofs of inclusion verify. For any log of up to \<open>2 ^ 53 - 1\<close> entries and any index in it,
  the generated proof verifies for that entry's leaf hash under the log's head.
\<close>

theorem inclusion_proofs_verify:
  assumes "encodable es" "i < length es" "signed_count (PInt (int (length es)))"
  shows "\<exists>rt leaf p. merkle_tree_head H es = Some rt \<and> lh H (es ! i) = Some leaf \<and>
    inclusion_proof H (int i) es = Some p \<and> verify_inclusion H (PInt (int i)) (PInt (int (length es))) leaf rt p"
  by (rule generated_inclusion [OF assms])

lemma accepted_inclusion:
  assumes "verify_inclusion H idx tree_size leaf rt p" "wire_int tree_size = Inr (int (length es))"
    and "merkle_tree_head H es = Some rt" "lh H e = Some leaf" "encodable es" "hash32 H"
    and "inj_on H ({0 # the (utf8_encode e)} \<union> set (tree_inputs H es) \<union>
      set (incl_inputs H (nat (projr (wire_int idx))) (length es - 1) leaf p))"
  shows "\<exists>i. wire_int idx = Inr (int i) \<and> i < length es \<and> e = es ! i \<and> inclusion_proof H (int i) es = Some p"
proof -
  let ?ds = "leaf_hashes H es"
  obtain j where j: "wire_int idx = Inr j" "0 \<le> j" "j < int (length es)"
    and walk: "incl_walk H (nat j) (length es - 1) leaf p = Some (0, rt)"
    using assms(1,2) by (auto simp: verify_inclusion_def split: sum.splits if_splits option.splits)
  have rt: "rt = mth H ?ds" using merkle_tree_head_mth [OF assms(5), of H] assms(3) by simp
  have len: "length ?ds = length es" by (simp add: leaf_hashes_parts)
  have "leaf = ?ds ! nat j \<and> p = iproof H (nat j) ?ds"
  proof (rule incl_walk_sound)
    show "inj_on H (set (node_inputs H ?ds) \<union> set (incl_inputs H (nat j) (length ?ds - 1) leaf p))"
      using j(1) len by (intro inj_on_subset [OF assms(7)]) (auto simp: tree_inputs_def)
    show "length leaf = 32" using assms(4,6) by (auto simp: lh_def hash32_def split: option.splits)
  qed (use j len walk rt digests_leaf_hashes [OF assms(6,5)] assms(6) in auto)
  moreover have "lh H (es ! nat j) = Some (?ds ! nat j)"
    using lh_encodable [OF assms(5), of "es ! nat j" H] j by (simp add: leaf_hashes_def)
  moreover have "e = es ! nat j" if "lh H (es ! nat j) = Some leaf"
    by (rule lh_inject [OF assms(7,4) that]) (use j in \<open>auto simp: tree_inputs_def\<close>)
  moreover have "inclusion_proof H j es = Some (iproof H (nat j) ?ds)"
    using incl_sub_iproof [OF assms(5), of "nat j" H] j by (simp add: inclusion_proof_def)
  ultimately show ?thesis using j by (intro exI [of _ "nat j"]) auto
qed

text \<open>
  An accepted inclusion proof is true. If the verifier accepts a proof for an entry's leaf
  hash under the head of a log, and no two of the inputs hashed have one hash, then the entry is
  the log's entry at that index, and the proof is the one the generator makes.
\<close>

theorem inclusion_is_sound:
  assumes "verify_inclusion H idx tree_size leaf rt p" "wire_int tree_size = Inr (int (length es))"
    and "merkle_tree_head H es = Some rt" "lh H e = Some leaf" "encodable es" "hash32 H"
    and "inj_on H ({0 # the (utf8_encode e)} \<union> set (tree_inputs H es) \<union>
      set (incl_inputs H (nat (projr (wire_int idx))) (length es - 1) leaf p))"
  shows "\<exists>i. wire_int idx = Inr (int i) \<and> i < length es \<and> e = es ! i \<and> inclusion_proof H (int i) es = Some p"
  by (rule accepted_inclusion [OF assms])

lemma generated_consistency:
  assumes "encodable es" "m \<le> length es" "signed_count (PInt (int (length es)))"
  shows "\<exists>h1 h2 p. merkle_tree_head H (take m es) = Some h1 \<and> merkle_tree_head H es = Some h2 \<and>
    consistency_proof H (int m) es = Some p \<and> verify_consistency H (PInt (int m)) (PInt (int (length es))) h1 h2 p"
proof -
  let ?ds = "leaf_hashes H es"
  have "signed_count (PInt (int m))" using assms(2,3) by (simp add: signed_count_def)
  then have ints: "wire_int (PInt (int m)) = Inr (int m)" "wire_int (PInt (int (length es))) = Inr (int (length es))"
    using assms(3) by (intro signed_count_wire_int; simp)+
  have heads: "merkle_tree_head H (take m es) = Some (mth H (take m ?ds))" "merkle_tree_head H es = Some (mth H ?ds)"
    using merkle_tree_head_mth [of "take m es" H] merkle_tree_head_mth [OF assms(1), of H] encodable_parts [OF assms(1)]
    by (simp_all add: leaf_hashes_parts)
  have len: "length ?ds = length es" by (simp add: leaf_hashes_parts)
  have "\<exists>p. consistency_proof H (int m) es = Some p \<and>
      verify_consistency H (PInt (int m)) (PInt (int (length es))) (mth H (take m ?ds)) (mth H ?ds) p"
  proof (cases "m = 0")
    case False
    then have p: "consistency_proof H (int m) es = Some (dsub H m ?ds True)"
      using cons_sub_dsub [OF assms(1), of m H True] assms(2) by (simp add: consistency_proof_def)
    have "verify_consistency H (PInt (int m)) (PInt (int (length es))) (mth H (take m ?ds)) (mth H ?ds) (dsub H m ?ds True)"
    proof (cases "m = length es")
      case True
      then show ?thesis using ints len by (simp add: verify_consistency_def dsub_whole)
    next
      case False
      then show ?thesis
        using cons_check_complete [of m ?ds H] \<open>m \<noteq> 0\<close> assms(2) ints len by (simp add: verify_consistency_def nat_minus_as_int)
    qed
    with p show ?thesis by blast
  next
    case True
    then show ?thesis
      using ints by (cases "es = []") (simp_all add: consistency_proof_def verify_consistency_def leaf_hashes_def)
  qed
  with heads show ?thesis by blast
qed

text \<open>
  Proofs of consistency verify. For any log of up to \<open>2 ^ 53 - 1\<close> entries and any prefix of
  it, the generated proof shows the head of the whole log to extend the head of the prefix.
\<close>

theorem consistency_proofs_verify:
  assumes "encodable es" "m \<le> length es" "signed_count (PInt (int (length es)))"
  shows "\<exists>h1 h2 p. merkle_tree_head H (take m es) = Some h1 \<and> merkle_tree_head H es = Some h2 \<and>
    consistency_proof H (int m) es = Some p \<and> verify_consistency H (PInt (int m)) (PInt (int (length es))) h1 h2 p"
  by (rule generated_consistency [OF assms])

lemma accepted_consistency:
  assumes "verify_consistency H vm vn h1 h2 p" "wire_int vm = Inr (int (length old))" "wire_int vn = Inr (int (length new))"
    and "merkle_tree_head H old = Some h1" "merkle_tree_head H new = Some h2" "encodable old" "encodable new" "hash32 H"
    and "inj_on H (set (tree_inputs H old) \<union> set (tree_inputs H new) \<union>
      set (check_inputs H (length old - 1) (length new - 1) h1 p))"
  shows "length old \<le> length new \<and> old = take (length old) new"
proof -
  let ?P = "leaf_hashes H old" and ?L = "leaf_hashes H new"
  have heads: "h1 = mth H ?P" "h2 = mth H ?L"
    using merkle_tree_head_mth [OF assms(6), of H] merkle_tree_head_mth [OF assms(7), of H] assms(4,5) by simp_all
  have len: "length ?P = length old" "length ?L = length new" by (simp_all add: leaf_hashes_parts)
  note dig = digests_leaf_hashes [OF assms(8,7)] digests_leaf_hashes [OF assms(8,6)]
  have le: "length old \<le> length new"
    using assms(1-3) by (auto simp: verify_consistency_def split: if_splits)
  have "?P = take (length old) ?L"
  proof (cases "old = []")
    case False
    have inj: "inj_on H (set (node_inputs H ?L) \<union> set (node_inputs H ?P) \<union>
        set (check_inputs H (length ?P - 1) (length ?L - 1) (mth H ?P) p))"
      using heads(1) len by (intro inj_on_subset [OF assms(9)]) (auto simp: tree_inputs_def)
    show ?thesis
    proof (cases "length old = length new")
      case True
      then have "mth H ?P = mth H ?L"
        using assms(1-3) heads by (simp add: verify_consistency_def split: if_splits)
      then have "?P = ?L" using True by (intro mth_inject [OF _ dig assms(8) inj]) (simp_all add: len)
      then show ?thesis using True len by simp
    next
      case False
      then have "cons_check H (length ?P - 1) (length ?L - 1) (mth H ?P) (mth H ?L) p"
        using assms(1-3) \<open>old \<noteq> []\<close> le heads len by (simp add: verify_consistency_def split: if_splits)
      then have "?P = take (length ?P) ?L"
        using False le \<open>old \<noteq> []\<close> len by (intro cons_check_sound [OF _ _ dig assms(8) inj]) simp_all
      then show ?thesis using len by simp
    qed
  qed (simp add: leaf_hashes_def)
  then have eq: "leaf_hashes H old = leaf_hashes H (take (length old) new)" by (simp add: leaf_hashes_parts)
  have "old = take (length old) new"
  proof (rule nth_equalityI)
    show "length old = length (take (length old) new)" using le by simp
    fix i assume i: "i < length old"
    then have i2: "i < length new" using le by simp
    have "the (lh H (old ! i)) = the (lh H (new ! i))"
      using arg_cong [OF eq, of "\<lambda>xs. xs ! i"] i i2 by (simp add: leaf_hashes_def)
    then have d: "lh H (old ! i) = Some (the (lh H (old ! i)))" "lh H (new ! i) = Some (the (lh H (old ! i)))"
      using lh_encodable [OF assms(6), of "old ! i" H] lh_encodable [OF assms(7), of "new ! i" H] i i2 by simp_all
    have "old ! i = new ! i"
      by (rule lh_inject [OF assms(9) d]) (use i i2 in \<open>auto simp: tree_inputs_def\<close>)
    then show "old ! i = take (length old) new ! i" using i by simp
  qed
  with le show ?thesis by simp
qed

text \<open>
  An accepted consistency proof is true: the log only appended. If the verifier accepts a
  proof between the heads of two logs, at their sizes, and no two of the inputs hashed have one
  hash, then the first log is a prefix of the second.
\<close>

theorem consistency_is_sound:
  assumes "verify_consistency H vm vn h1 h2 p" "wire_int vm = Inr (int (length old))" "wire_int vn = Inr (int (length new))"
    and "merkle_tree_head H old = Some h1" "merkle_tree_head H new = Some h2" "encodable old" "encodable new" "hash32 H"
    and "inj_on H (set (tree_inputs H old) \<union> set (tree_inputs H new) \<union>
      set (check_inputs H (length old - 1) (length new - 1) h1 p))"
  shows "length old \<le> length new \<and> old = take (length old) new"
  by (rule accepted_consistency [OF assms])

text \<open>
  C34. The split of RFC 6962: the doubling loop ends, just past the length it is given, so that both
  parts of a log of two entries or more are shorter than the log, and the first is a perfect tree at
  least as long as the second.
\<close>

theorem tree_split_terminates:
  assumes "2 \<le> n"
  shows "\<exists>d. pow2_loop 1 n = 2 ^ Suc d \<and> largest_pow2_below n = 2 ^ d \<and> 2 ^ d < n \<and> n - 2 ^ d \<le> 2 ^ d"
proof -
  obtain d where d: "2 ^ d < n" "n \<le> 2 ^ Suc d" using pow2_between [OF assms] by blast
  have "pow2_loop 1 n = 2 ^ Suc d" using pow2_loop_between [of 0 n d] d assms by simp
  then show ?thesis using d largest_pow2_eq [OF d] by (intro exI [of _ d]) simp
qed

section \<open>Witnesses\<close>

theorem tree_split_terminates_witness:
  "\<exists>d. pow2_loop 1 6 = 2 ^ Suc d \<and> largest_pow2_below 6 = 2 ^ d \<and> 2 ^ d < (6 :: nat) \<and> 6 - 2 ^ d \<le> (2 :: nat) ^ d"
  by (rule tree_split_terminates) simp

text \<open>A hash with 32-byte values that tells the inputs of a small log apart.\<close>

definition pad :: "8 word \<Rightarrow> bytes" where
  "pad b = replicate 31 0 @ [b]"

definition toy_hash :: "bytes \<Rightarrow> bytes" where
  "toy_hash x = pad (last x + byte (length x))"

definition sample_log :: "ustr list" where
  "sample_log = [[97], [98], [99]]"

lemma pad_simps [simp]: "length (pad b) = 32" "pad a = pad b \<longleftrightarrow> a = b" "last (pad b) = b" "pad b \<noteq> []" "hash32 toy_hash"
  by (auto simp: pad_def hash32_def toy_hash_def)

lemma toy_node [simp]: "toy_hash (1 # pad a @ pad b) = pad (b + 65)" "ih toy_hash (pad a) (pad b) = pad (b + 65)"
  by (simp_all add: toy_hash_def ih_def byte_def)

lemma toy_leaf [simp]: "toy_hash [0, b] = pad (b + 2)"
  by (simp add: toy_hash_def byte_def)

lemma sample_leaves: "map (lh toy_hash) sample_log = [Some (pad 99), Some (pad 100), Some (pad 101)]"
  "leaf_hashes toy_hash sample_log = [pad 99, pad 100, pad 101]" "leaf_hashes toy_hash [[97], [98]] = [pad 99, pad 100]"
  "encodable sample_log" "encodable [[97], [98]]"
  by (simp_all add: leaf_hashes_def sample_log_def lh_def encodable_def utf8_encode_ascii ascii_def byte_def)

lemma sample_heads: "mth toy_hash [pad 99, pad 100, pad 101] = pad 166" "mth toy_hash [pad 99, pad 100] = pad 165"
  using mth_pair_up [of "[pad 99, pad 100, pad 101]" toy_hash] mth_pair_up [of "[pad 165, pad 101]" toy_hash]
    mth_pair_up [of "[pad 99, pad 100]" toy_hash]
  by simp_all

lemma sample_inputs: "set (tree_inputs toy_hash sample_log) = {[0, 97], [0, 98], [0, 99], 1 # pad 99 @ pad 100, 1 # pad 165 @ pad 101}"
  "set (tree_inputs toy_hash [[97], [98]]) = {[0, 97], [0, 98], 1 # pad 99 @ pad 100}"
  unfolding tree_inputs_def sample_leaves
  by (auto simp: sample_log_def utf8_encode_ascii ascii_def byte_def node_inputs.simps)

lemma sample_inj: "inj_on toy_hash {[0, 97], [0, 98], [0, 99], 1 # pad 99 @ pad 100, 1 # pad 165 @ pad 101}"
  by simp

lemma small_ints [simp]: "wire_int (PInt 1) = Inr 1" "wire_int (PInt 2) = Inr 2" "wire_int (PInt 3) = Inr 3"
  by (rule signed_count_wire_int; simp add: signed_count_def MAX_SAFE_INTEGER_def)+

lemma sample_log_facts:
  "merkle_tree_head toy_hash [[97], [98]] = Some (pad 165)" "merkle_tree_head toy_hash sample_log = Some (pad 166)"
  "length sample_log = 3" "verify_consistency toy_hash (PInt 2) (PInt 3) (pad 165) (pad 166) [pad 101]"
  "inj_on toy_hash (set (tree_inputs toy_hash [[97], [98]]) \<union> set (tree_inputs toy_hash sample_log) \<union>
      set (check_inputs toy_hash (length [[97 :: nat], [98]] - 1) (length sample_log - 1) (pad 165) [pad 101]))"
proof -
  show "merkle_tree_head toy_hash [[97], [98]] = Some (pad 165)" "merkle_tree_head toy_hash sample_log = Some (pad 166)"
    using sample_leaves merkle_tree_head_mth [OF sample_leaves(4), of toy_hash]
      merkle_tree_head_mth [OF sample_leaves(5), of toy_hash] sample_heads by simp_all
  show "length sample_log = 3" by (simp add: sample_log_def)
  show "verify_consistency toy_hash (PInt 2) (PInt 3) (pad 165) (pad 166) [pad 101]"
    by (simp add: verify_consistency_def cons_check_def strip_shared.simps cons_first_def cons_walk.simps cons_tail.simps)
  show "inj_on toy_hash (set (tree_inputs toy_hash [[97], [98]]) \<union> set (tree_inputs toy_hash sample_log) \<union>
      set (check_inputs toy_hash (length [[97 :: nat], [98]] - 1) (length sample_log - 1) (pad 165) [pad 101]))"
    by (rule inj_on_subset [OF sample_inj], unfold sample_inputs)
      (simp add: sample_log_def check_inputs_def strip_shared.simps cons_first_def cons_inputs.simps)
qed

theorem inclusion_proofs_verify_witness:
  "\<exists>rt leaf p. merkle_tree_head toy_hash sample_log = Some rt \<and>
    verify_inclusion toy_hash (PInt 1) (PInt 3) leaf rt p"
proof -
  have "1 < length sample_log" "signed_count (PInt (int (length sample_log)))"
    by (simp_all add: sample_log_def signed_count_def MAX_SAFE_INTEGER_def)
  from inclusion_proofs_verify [OF sample_leaves(4) this, of toy_hash] show ?thesis
    by (auto simp: sample_log_def)
qed

theorem inclusion_is_sound_witness:
  "verify_inclusion toy_hash (PInt 1) (PInt 3) (pad 100) (pad 166) [pad 99, pad 101] \<and>
    inclusion_proof toy_hash 1 sample_log = Some [pad 99, pad 101]"
proof -
  have v: "verify_inclusion toy_hash (PInt 1) (PInt 3) (pad 100) (pad 166) [pad 99, pad 101]"
    by (simp add: verify_inclusion_def incl_walk.simps)
  have facts: "wire_int (PInt 3) = Inr (int (length sample_log))" "merkle_tree_head toy_hash sample_log = Some (pad 166)"
    "lh toy_hash [98] = Some (pad 100)"
    using sample_leaves merkle_tree_head_mth [OF sample_leaves(4), of toy_hash] sample_heads by (simp_all add: sample_log_def)
  have "inj_on toy_hash ({0 # the (utf8_encode [98])} \<union> set (tree_inputs toy_hash sample_log) \<union>
      set (incl_inputs toy_hash (nat (projr (wire_int (PInt 1)))) (length sample_log - 1) (pad 100) [pad 99, pad 101]))"
    by (rule inj_on_subset [OF sample_inj], unfold sample_inputs)
      (auto simp: sample_log_def incl_inputs.simps utf8_encode_ascii ascii_def byte_def)
  from inclusion_is_sound [OF v facts sample_leaves(4) pad_simps(5) this] v show ?thesis by auto
qed

theorem consistency_proofs_verify_witness:
  "\<exists>h1 h2 p. merkle_tree_head toy_hash sample_log = Some h2 \<and> verify_consistency toy_hash (PInt 2) (PInt 3) h1 h2 p"
proof -
  have "2 \<le> length sample_log" "signed_count (PInt (int (length sample_log)))"
    by (simp_all add: sample_log_def signed_count_def MAX_SAFE_INTEGER_def)
  from consistency_proofs_verify [OF sample_leaves(4) this, of toy_hash] show ?thesis
    by (auto simp: sample_log_def)
qed

theorem consistency_is_sound_witness:
  "verify_consistency toy_hash (PInt 2) (PInt 3) (pad 165) (pad 166) [pad 101] \<and> [[97], [98]] = take 2 sample_log"
proof -
  note v = sample_log_facts(4)
  have sizes: "wire_int (PInt 2) = Inr (int (length [[97 :: nat], [98]]))" "wire_int (PInt 3) = Inr (int (length sample_log))"
    by (simp_all add: sample_log_def)
  from consistency_is_sound [OF v sizes sample_log_facts(1,2) sample_leaves(5,4) pad_simps(5) sample_log_facts(5)] v
  show ?thesis by (simp add: numeral_2_eq_2)
qed

end
