(* ===== verification/LogAudit.thy ===== *)
theory LogAudit
  imports EpochFeeds MerkleLog
begin

text \<open>
  What a monitor or a relying party decides about the transparency log of
  \<open>polaris_verify_cli/verifier.py\<close>: signed tree heads, append-only consistency between two,
  witness cosignatures over one, equivocation proven by two, and publication in a ledger. The
  Merkle proofs are those of \<open>MerkleLog\<close>, under the same hash as the signatures' digests.
\<close>

section \<open>Signed tree heads\<close>

definition STH_FORMAT :: ustr where "STH_FORMAT = lit ''polaris-transparency-sth/1''"

definition STH_FIELDS :: "string list" where
  "STH_FIELDS = [''format'', ''log_id'', ''tree_size'', ''root_hash_hex'', ''timestamp'']"

record sth_verdict =
  th_authentic :: bool
  th_tree_size :: pyval
  th_root_hash_hex :: pyval
  th_issuer_matches :: "bool option"
  th_witnesses :: "(string \<times> bool) list"
  th_note :: "vnote option"

definition blank_sth :: "pydict \<Rightarrow> sth_verdict" where
  "blank_sth sth =
     \<lparr>th_authentic = False, th_tree_size = py_get sth ''tree_size'', th_root_hash_hex = py_get sth ''root_hash_hex'',
      th_issuer_matches = None, th_witnesses = [], th_note = None\<rparr>"

definition verify_sth :: "env \<Rightarrow> pyval \<Rightarrow> pyval option \<Rightarrow> sth_verdict" where
  "verify_sth E sth0 issuer_key =
     (let sth = as_dict sth0; v = blank_sth sth
      in if py_get sth ''format'' \<noteq> PStr STH_FORMAT then v\<lparr>th_note := Some (NotA STH_FORMAT)\<rparr>
         else if \<not> signed_count (py_get sth ''tree_size'') then v\<lparr>th_note := Some BadTreeSize\<rparr>
         else if placeholder_envelope sth then v\<lparr>th_note := Some Placeholder\<rparr>
         else
           (case envelope_bytes sth of None \<Rightarrow> v\<lparr>th_note := Some NotHex\<rparr>
            | Some (sg, pk) \<Rightarrow>
                (case two_witness_verify E (canonical_digest E STH_FIELDS sth) sg pk (py_get sth ''algorithm'') of
                   (None, tried, n) \<Rightarrow> v\<lparr>th_witnesses := tried, th_note := n\<rparr>
                 | (Some ok, tried, n) \<Rightarrow>
                     v\<lparr>th_authentic := ok, th_witnesses := tried, th_note := (if ok then None else or_note n BadSignature),
                       th_issuer_matches := map_option (same_hex (py_get sth ''public_key_hex'')) issuer_key\<rparr>)))"

section \<open>Consistency\<close>

datatype log_note =
    HeadNotAuthentic "vnote option" | NoLogKey | NotLogKey | DifferentLogs | SizeInvalid | TreeShrank int int
  | RootOrProofNotHex | SameSize bool | AppendOnly int int | RewroteHistory int int

record log_verdict =
  lc_consistent :: bool
  lc_fork :: bool
  lc_note :: log_note

text \<open>\<open>[_unhex(h) for h in (proof or [])]\<close>: what is iterated is a list, or the keys of a dict.\<close>

definition proof_bytes :: "pyval \<Rightarrow> bytes list option" where
  "proof_bytes p =
     (if \<not> py_true p then Some []
      else (case p of PList xs \<Rightarrow> those (map unhex xs) | PDict d \<Rightarrow> those (map (\<lambda>(k, _). unhex (PStr k)) d)
            | PStr s \<Rightarrow> those (map (\<lambda>c. unhex (PStr [c])) s) | _ \<Rightarrow> None))"

definition field :: "pydict \<Rightarrow> string \<Rightarrow> pyval option" where
  "field d k = map_of d (lit k)"

definition verify_log_consistency :: "env \<Rightarrow> pyval \<Rightarrow> pyval \<Rightarrow> pyval \<Rightarrow> pyval option \<Rightarrow> log_verdict" where
  "verify_log_consistency E old_sth new_sth proof issuer_key =
     (let ov = verify_sth E old_sth issuer_key; nv = verify_sth E new_sth issuer_key;
          old = as_dict old_sth; new = as_dict new_sth;
          refused = (\<lambda>w. \<lparr>lc_consistent = False, lc_fork = False, lc_note = w\<rparr>)
      in if \<not> (th_authentic ov \<and> th_authentic nv) then
           refused (HeadNotAuthentic (th_note (if th_authentic ov then nv else ov)))
         else if issuer_key = None then refused NoLogKey
         else if \<not> (th_issuer_matches ov = Some True \<and> th_issuer_matches nv = Some True) then refused NotLogKey
         else if \<not> py_eq (py_get old ''log_id'') (py_get new ''log_id'') then refused DifferentLogs
         else if \<not> signed_count (py_get old ''tree_size'') \<or> \<not> signed_count (py_get new ''tree_size'') then
           refused SizeInvalid
         else
           (case (py_get old ''tree_size'', py_get new ''tree_size'') of
              (PInt m, PInt n) \<Rightarrow>
                if n < m then \<lparr>lc_consistent = False, lc_fork = True, lc_note = TreeShrank m n\<rparr>
                else
                  (case (Option.bind (field old ''root_hash_hex'') unhex, Option.bind (field new ''root_hash_hex'') unhex,
                         proof_bytes proof) of
                     (Some root1, Some root2, Some pf) \<Rightarrow>
                       if m = n then
                         \<lparr>lc_consistent = (root1 = root2), lc_fork = (root1 \<noteq> root2), lc_note = SameSize (root1 = root2)\<rparr>
                       else if verify_consistency (sha3 E) (PInt m) (PInt n) root1 root2 pf then
                         \<lparr>lc_consistent = True, lc_fork = False, lc_note = AppendOnly m n\<rparr>
                       else \<lparr>lc_consistent = False, lc_fork = True, lc_note = RewroteHistory m n\<rparr>
                   | _ \<Rightarrow> refused RootOrProofNotHex)
            | _ \<Rightarrow> refused SizeInvalid))"

section \<open>Witness cosignatures\<close>

definition COSIGNATURE_FORMAT :: ustr where "COSIGNATURE_FORMAT = lit ''polaris-transparency-cosignature/1''"

definition COSIGNATURE_FIELDS :: "string list" where
  "COSIGNATURE_FIELDS = [''format'', ''log_id'', ''tree_size'', ''root_hash_hex'']"

record cosignature_verdict =
  cs_authentic :: bool
  cs_log_id :: pyval
  cs_tree_size :: pyval
  cs_root_hash_hex :: pyval
  cs_witness :: pyval
  cs_witness_matches :: "bool option"
  cs_witnesses :: "(string \<times> bool) list"
  cs_note :: "vnote option"

definition blank_cosignature :: "pydict \<Rightarrow> cosignature_verdict" where
  "blank_cosignature c =
     \<lparr>cs_authentic = False, cs_log_id = py_get c ''log_id'', cs_tree_size = py_get c ''tree_size'',
      cs_root_hash_hex = py_get c ''root_hash_hex'', cs_witness = py_get c ''public_key_hex'',
      cs_witness_matches = None, cs_witnesses = [], cs_note = None\<rparr>"

definition verify_cosignature :: "env \<Rightarrow> pyval \<Rightarrow> pyval option \<Rightarrow> cosignature_verdict" where
  "verify_cosignature E cosig witness_key =
     (let c = as_dict cosig; v = blank_cosignature c
      in if py_get c ''format'' \<noteq> PStr COSIGNATURE_FORMAT then v\<lparr>cs_note := Some (NotA COSIGNATURE_FORMAT)\<rparr>
         else if \<not> signed_count (py_get c ''tree_size'') then v\<lparr>cs_note := Some BadTreeSize\<rparr>
         else if placeholder_envelope c then v\<lparr>cs_note := Some Placeholder\<rparr>
         else
           (case envelope_bytes c of None \<Rightarrow> v\<lparr>cs_note := Some NotHex\<rparr>
            | Some (sg, pk) \<Rightarrow>
                (case two_witness_verify E (canonical_digest E COSIGNATURE_FIELDS c) sg pk (py_get c ''algorithm'') of
                   (None, tried, n) \<Rightarrow> v\<lparr>cs_witnesses := tried, cs_note := n\<rparr>
                 | (Some ok, tried, n) \<Rightarrow>
                     v\<lparr>cs_authentic := ok, cs_witnesses := tried, cs_note := (if ok then None else or_note n BadSignature),
                       cs_witness_matches := map_option (same_hex (py_get c ''public_key_hex'')) witness_key\<rparr>)))"

datatype witnessed_note =
    BadThreshold pyval | HeadNotLogAuthentic | HeadNotLogKey | EnoughWitnesses nat | TooFewWitnesses nat

record witnessed_verdict =
  wc_witnessed :: bool
  wc_cosigner_count :: nat
  wc_note :: witnessed_note

text \<open>One pass of the loop: the set of witnesses seen is a list without repeats.\<close>

definition note_witness :: "env \<Rightarrow> pydict \<Rightarrow> ustr option list \<Rightarrow> pyval \<Rightarrow> ustr list \<Rightarrow> ustr list" where
  "note_witness E sth trusted c0 seen =
     (let c = as_dict c0 in
      if \<not> cs_authentic (verify_cosignature E c0 None) then seen
      else if py_eq (py_get c ''log_id'') (py_get sth ''log_id'') \<and> py_eq (py_get c ''tree_size'') (py_get sth ''tree_size'') \<and>
        same_hex (py_get c ''root_hash_hex'') (py_get sth ''root_hash_hex'')
      then (case hex_text (py_get c ''public_key_hex'') of None \<Rightarrow> seen
            | Some w \<Rightarrow> if Some w \<in> set trusted then List.insert w seen else seen)
      else seen)"

definition verify_witnessed_checkpoint ::
    "env \<Rightarrow> pyval \<Rightarrow> pyval \<Rightarrow> pyval list option \<Rightarrow> pyval \<Rightarrow> pyval option \<Rightarrow> witnessed_verdict option" where
  "verify_witnessed_checkpoint E sth cosignatures trusted_witnesses threshold issuer_key =
     (case finite_num threshold of None \<Rightarrow> None
      | Some fin \<Rightarrow>
          if \<not> fin \<or> the (num_value threshold) \<notin> \<int> \<or> the (num_value threshold) < 1 then
            Some \<lparr>wc_witnessed = False, wc_cosigner_count = 0, wc_note = BadThreshold threshold\<rparr>
          else
            let sv = verify_sth E sth issuer_key in
            if \<not> th_authentic sv then
              Some \<lparr>wc_witnessed = False, wc_cosigner_count = 0, wc_note = HeadNotLogAuthentic\<rparr>
            else if issuer_key \<noteq> None \<and> th_issuer_matches sv = Some False then
              Some \<lparr>wc_witnessed = False, wc_cosigner_count = 0, wc_note = HeadNotLogKey\<rparr>
            else
              let trusted = map hex_text (case trusted_witnesses of None \<Rightarrow> [] | Some ts \<Rightarrow> ts);
                  seen = fold (note_witness E (as_dict sth) trusted) (as_list cosignatures) [];
                  n = length seen; ok = the (num_value threshold) \<le> of_nat n
              in Some \<lparr>wc_witnessed = ok, wc_cosigner_count = n,
                   wc_note = (if ok then EnoughWitnesses n else TooFewWitnesses n)\<rparr>)"

section \<open>Equivocation\<close>

datatype equivocation_note = HeadsNotByLogKey | HeadsOfDifferentLogs | ProvenAt pyval | IdenticalHeads | DifferentSizes

definition verify_equivocation :: "env \<Rightarrow> pyval \<Rightarrow> pyval \<Rightarrow> pyval option \<Rightarrow> bool \<times> equivocation_note" where
  "verify_equivocation E sth_a sth_b log_key =
     (let a = verify_sth E sth_a log_key; b = verify_sth E sth_b log_key; da = as_dict sth_a; db = as_dict sth_b
      in if \<not> (th_authentic a \<and> th_issuer_matches a = Some True \<and> th_authentic b \<and> th_issuer_matches b = Some True) then
           (False, HeadsNotByLogKey)
         else if \<not> py_eq (py_get da ''log_id'') (py_get db ''log_id'') then (False, HeadsOfDifferentLogs)
         else if py_eq (py_get da ''tree_size'') (py_get db ''tree_size'') then
           (if \<not> same_hex (py_get da ''root_hash_hex'') (py_get db ''root_hash_hex'') then
              (True, ProvenAt (py_get da ''tree_size''))
            else (False, IdenticalHeads))
         else (False, DifferentSizes))"

section \<open>Publication\<close>

definition PUBLICATION_FORMAT :: ustr where "PUBLICATION_FORMAT = lit ''polaris-transparency-publication/1''"

text \<open>\<open>(root_hash_hex or "").lower()\<close> of the text the callers pass.\<close>

definition publication_entry :: "env \<Rightarrow> pyval \<Rightarrow> pyval \<Rightarrow> ustr \<Rightarrow> ustr" where
  "publication_entry E log_id tree_size root_hash_hex =
     lit ''polaris-published-head/1|'' @ py_str E log_id @ [124] @ py_str E tree_size @ [124] @ lower_text E root_hash_hex"

datatype publication_note =
    NotAPublication | HeadSizeInvalid | NotBoundToHead | LedgerNotAuthentic "vnote option" | NotLedgerKey
  | MalformedProof | LedgerSizeInvalid | RecordedAt int pyval pyval | NotInLedger

record publication_verdict =
  pb_published :: bool
  pb_ledger_size :: pyval
  pb_note :: publication_note

definition receipt_binds :: "pydict \<Rightarrow> pydict \<Rightarrow> bool" where
  "receipt_binds receipt sth \<longleftrightarrow>
     py_eq (py_get receipt ''log_id'') (py_get sth ''log_id'') \<and>
     (case wire_int (py_get receipt ''tree_size'') of Inl _ \<Rightarrow> False | Inr n \<Rightarrow> py_eq (PInt n) (py_get sth ''tree_size'')) \<and>
     same_hex (py_get receipt ''root_hash_hex'') (py_get sth ''root_hash_hex'')"

definition text_of :: "pyval \<Rightarrow> ustr" where
  "text_of v = (case v of PStr s \<Rightarrow> s | _ \<Rightarrow> [])"

definition verify_publication :: "env \<Rightarrow> pyval \<Rightarrow> pyval \<Rightarrow> pyval option \<Rightarrow> publication_verdict option" where
  "verify_publication E log_sth receipt0 ledger_key =
     (let receipt = as_dict receipt0; sth = as_dict log_sth;
          refused = (\<lambda>w. Some \<lparr>pb_published = False, pb_ledger_size = PNone, pb_note = w\<rparr>)
      in if py_get receipt ''format'' \<noteq> PStr PUBLICATION_FORMAT then refused NotAPublication
         else if \<not> signed_count (py_get sth ''tree_size'') then refused HeadSizeInvalid
         else if \<not> receipt_binds receipt sth then refused NotBoundToHead
         else
           let ledger = as_dict (py_get receipt ''ledger_sth''); lv = verify_sth E (PDict ledger) ledger_key;
               size = py_get ledger ''tree_size'';
               refused2 = (\<lambda>w. Some \<lparr>pb_published = False, pb_ledger_size = size, pb_note = w\<rparr>)
           in if \<not> th_authentic lv then refused (LedgerNotAuthentic (th_note lv))
              else if ledger_key \<noteq> None \<and> th_issuer_matches lv = Some False then refused NotLedgerKey
              else
                let entry = publication_entry E (py_get sth ''log_id'') (py_get sth ''tree_size'')
                      (text_of (py_get sth ''root_hash_hex''))
                in (case (map_option wire_int (field receipt ''leaf_index''), Option.bind (field ledger ''root_hash_hex'') unhex,
                          wire_path (py_get receipt ''inclusion_proof_hex'')) of
                      (Some (Inr idx), Some rt, Some proof) \<Rightarrow>
                        if \<not> signed_count size then refused2 LedgerSizeInvalid
                        else
                          (case lh (sha3 E) entry of None \<Rightarrow> None
                           | Some leaf \<Rightarrow>
                               if verify_inclusion (sha3 E) (PInt idx) size leaf rt proof then
                                 Some \<lparr>pb_published = True, pb_ledger_size = size,
                                   pb_note = RecordedAt idx (py_get ledger ''log_id'') size\<rparr>
                               else refused2 NotInLedger)
                    | _ \<Rightarrow> refused2 MalformedProof))"

section \<open>Signed heads\<close>

definition sth_signed :: "env \<Rightarrow> pydict \<Rightarrow> bool" where
  "sth_signed E h \<longleftrightarrow> py_get h ''format'' = PStr STH_FORMAT \<and> signed_count (py_get h ''tree_size'') \<and>
     signed_statement E STH_FIELDS h"

definition signed_by_key :: "pydict \<Rightarrow> pyval option \<Rightarrow> bool" where
  "signed_by_key h key \<longleftrightarrow> (case key of None \<Rightarrow> False | Some k \<Rightarrow> same_hex (py_get h ''public_key_hex'') k)"

lemma verify_sth_authentic: "th_authentic (verify_sth E (PDict h) key) \<longleftrightarrow> sth_signed E h"
proof (cases "signed_statement E STH_FIELDS h")
  case True
  then show ?thesis
    by (elim signed_statementE) (auto simp: verify_sth_def sth_signed_def Let_def blank_sth_def True)
next
  case False
  then show ?thesis
    by (auto simp: verify_sth_def sth_signed_def Let_def blank_sth_def dest: two_witness_TrueD
        split: option.splits prod.splits)
qed

lemma verify_sth_issuer:
  assumes "sth_signed E h"
  shows "th_issuer_matches (verify_sth E (PDict h) key) = map_option (same_hex (py_get h ''public_key_hex'')) key"
proof -
  have s: "signed_statement E STH_FIELDS h" using assms by (simp add: sth_signed_def)
  then show ?thesis
    using assms by (elim signed_statementE) (auto simp: verify_sth_def sth_signed_def Let_def blank_sth_def)
qed

lemma verify_sth_matches:
  "th_authentic (verify_sth E (PDict h) key) \<and> th_issuer_matches (verify_sth E (PDict h) key) = Some True \<longleftrightarrow>
     sth_signed E h \<and> signed_by_key h key"
  by (auto simp: verify_sth_authentic verify_sth_issuer signed_by_key_def split: option.splits)

lemma field_unhex: "Option.bind (field d k) unhex = unhex (py_get d k)"
  by (auto simp: field_def py_get_def split: option.splits)

lemma field_wire_int: "map_option wire_int (field d k) = Some (Inr n) \<Longrightarrow> wire_int (py_get d k) = Inr n"
  by (auto simp: field_def py_get_def)

lemma consistent_iff:
  "lc_consistent (verify_log_consistency E (PDict old) (PDict new) proof key) \<longleftrightarrow>
     sth_signed E old \<and> sth_signed E new \<and> signed_by_key old key \<and> signed_by_key new key \<and>
     py_eq (py_get old ''log_id'') (py_get new ''log_id'') \<and>
     (\<exists>m n r1 r2 pf. py_get old ''tree_size'' = PInt m \<and> py_get new ''tree_size'' = PInt n \<and> m \<le> n \<and>
        unhex (py_get old ''root_hash_hex'') = Some r1 \<and> unhex (py_get new ''root_hash_hex'') = Some r2 \<and>
        proof_bytes proof = Some pf \<and>
        (if m = n then r1 = r2 else verify_consistency (sha3 E) (PInt m) (PInt n) r1 r2 pf))"
proof (cases "sth_signed E old \<and> sth_signed E new \<and> signed_by_key old key \<and> signed_by_key new key")
  case True
  then obtain m n k where sizes: "py_get old ''tree_size'' = PInt m" "py_get new ''tree_size'' = PInt n"
      "signed_count (PInt m)" "signed_count (PInt n)" and k: "key = Some k"
      "same_hex (py_get old ''public_key_hex'') k" "same_hex (py_get new ''public_key_hex'') k"
    using that True unfolding sth_signed_def signed_by_key_def
    by (metis option.case_eq_if option.collapse signed_countD)
  show ?thesis
    using True sizes k
    by (auto simp: verify_log_consistency_def Let_def verify_sth_authentic verify_sth_issuer field_unhex split: option.splits)
next
  case False
  then show ?thesis
    by (auto simp: verify_log_consistency_def Let_def verify_sth_authentic verify_sth_issuer signed_by_key_def
        split: option.splits)
qed

lemma strip_shared_same: "strip_shared n n = (a, b) \<Longrightarrow> a = b"
proof (induction n arbitrary: a b rule: less_induct)
  case (less n)
  show ?case
  proof (cases "odd n")
    case True
    then have "n div 2 < n" by (auto elim!: oddE)
    moreover have "strip_shared (n div 2) (n div 2) = (a, b)"
      using less.prems True strip_shared.simps [of n n] by simp
    ultimately show ?thesis by (rule less.IH)
  next
    case False
    then show ?thesis using less.prems strip_shared.simps [of n n] by simp
  qed
qed

lemma same_size_heads:
  assumes "merkle_tree_head H old = Some h" "merkle_tree_head H new = Some h" "length old = length new"
    and "signed_count (PInt (int (length new)))" "encodable old" "encodable new" "hash32 H"
    and "inj_on H (set (tree_inputs H old) \<union> set (tree_inputs H new))"
  shows "old = new"
proof -
  have c: "check_inputs H (length old - 1) (length new - 1) h [] = []"
  proof (cases "strip_shared (length old - 1) (length old - 1)")
    case (Pair a b)
    moreover have "a = b" by (rule strip_shared_same [OF Pair])
    ultimately show ?thesis using assms(3) cons_inputs.simps [of H 0 0]
      by (auto simp: check_inputs_def cons_first_def)
  qed
  have w: "wire_int (PInt (int (length new))) = Inr (int (length new))" by (rule signed_count_wire_int [OF assms(4)])
  then have v: "verify_consistency H (PInt (int (length old))) (PInt (int (length new))) h h []"
    by (simp add: verify_consistency_def assms(3))
  have "old = take (length old) new"
    using accepted_consistency [OF v _ w assms(1,2,5,6,7)] w assms(3,8) c by simp
  then show ?thesis using assms(3) by simp
qed

lemma consistent_prefix:
  assumes "lc_consistent (verify_log_consistency E (PDict old) (PDict new) proof key)"
    and "unhex (py_get old ''root_hash_hex'') = merkle_tree_head (sha3 E) olds" "py_get old ''tree_size'' = PInt (int (length olds))"
    and "unhex (py_get new ''root_hash_hex'') = merkle_tree_head (sha3 E) news" "py_get new ''tree_size'' = PInt (int (length news))"
    and "encodable olds" "encodable news" "hash32 (sha3 E)"
    and "inj_on (sha3 E) (set (tree_inputs (sha3 E) olds) \<union> set (tree_inputs (sha3 E) news) \<union>
      set (check_inputs (sha3 E) (length olds - 1) (length news - 1) (the (merkle_tree_head (sha3 E) olds)) (the (proof_bytes proof))))"
  shows "\<exists>added. news = olds @ added"
proof -
  obtain r1 r2 pf where le: "length olds \<le> length news"
    and r: "merkle_tree_head (sha3 E) olds = Some r1" "merkle_tree_head (sha3 E) news = Some r2"
    and pf: "proof_bytes proof = Some pf"
    and ok: "if length olds = length news then r1 = r2
      else verify_consistency (sha3 E) (PInt (int (length olds))) (PInt (int (length news))) r1 r2 pf"
    and s: "sth_signed E old" "sth_signed E new"
    using assms(1-5) unfolding consistent_iff by (auto split: if_splits)
  have sc: "signed_count (PInt (int (length olds)))" "signed_count (PInt (int (length news)))"
    using s assms(3,5) by (simp_all add: sth_signed_def)
  have "olds = take (length olds) news"
  proof (cases "length olds = length news")
    case True
    have "olds = news"
    proof (rule same_size_heads [OF r(1) _ True sc(2) assms(6,7,8)])
      show "merkle_tree_head (sha3 E) news = Some r1" using r(2) ok True by simp
      show "inj_on (sha3 E) (set (tree_inputs (sha3 E) olds) \<union> set (tree_inputs (sha3 E) news))"
        by (rule inj_on_subset [OF assms(9)]) blast
    qed
    then show ?thesis by simp
  next
    case False
    then have "verify_consistency (sha3 E) (PInt (int (length olds))) (PInt (int (length news))) r1 r2 pf"
      using ok by simp
    from accepted_consistency [OF this signed_count_wire_int [OF sc(1)] signed_count_wire_int [OF sc(2)] r assms(6,7,8)]
    show ?thesis using assms(9) r pf by simp
  qed
  then show ?thesis by (metis append_take_drop_id)
qed

section \<open>Witnesses of a head\<close>

text \<open>The cosignature is a trusted witness's, of this head.\<close>

definition cosigns :: "env \<Rightarrow> pydict \<Rightarrow> pyval list \<Rightarrow> pyval \<Rightarrow> ustr \<Rightarrow> bool" where
  "cosigns E h trusted c0 w \<longleftrightarrow>
     (let c = as_dict c0 in
      py_get c ''format'' = PStr COSIGNATURE_FORMAT \<and> signed_count (py_get c ''tree_size'') \<and>
      signed_statement E COSIGNATURE_FIELDS c \<and>
      py_eq (py_get c ''log_id'') (py_get h ''log_id'') \<and> py_eq (py_get c ''tree_size'') (py_get h ''tree_size'') \<and>
      same_hex (py_get c ''root_hash_hex'') (py_get h ''root_hash_hex'') \<and>
      hex_text (py_get c ''public_key_hex'') = Some w \<and> Some w \<in> set (map hex_text trusted))"

lemma verify_cosignature_authentic:
  "cs_authentic (verify_cosignature E c0 key) \<longleftrightarrow>
     py_get (as_dict c0) ''format'' = PStr COSIGNATURE_FORMAT \<and> signed_count (py_get (as_dict c0) ''tree_size'') \<and>
     signed_statement E COSIGNATURE_FIELDS (as_dict c0)"
proof (cases "signed_statement E COSIGNATURE_FIELDS (as_dict c0)")
  case True
  then show ?thesis
    by (elim signed_statementE) (auto simp: verify_cosignature_def Let_def blank_cosignature_def True)
next
  case False
  then show ?thesis
    by (auto simp: verify_cosignature_def Let_def blank_cosignature_def dest: two_witness_TrueD
        split: option.splits prod.splits)
qed

lemma set_note_witness:
  "set (note_witness E h (map hex_text trusted) c seen) = set seen \<union> {w. cosigns E h trusted c w}"
  "distinct seen \<Longrightarrow> distinct (note_witness E h (map hex_text trusted) c seen)"
  by (auto simp: note_witness_def Let_def cosigns_def verify_cosignature_authentic split: option.splits)

lemma fold_note_witness:
  "set (fold (note_witness E h (map hex_text trusted)) cs seen) = set seen \<union> {w. \<exists>c \<in> set cs. cosigns E h trusted c w}"
  "distinct seen \<Longrightarrow> distinct (fold (note_witness E h (map hex_text trusted)) cs seen)"
  by (induction cs arbitrary: seen) (auto simp: set_note_witness)

lemma witnessed_exact:
  "map_option wc_witnessed (verify_witnessed_checkpoint E (PDict h) (PList cs) (Some trusted) threshold (Some k)) = Some True \<longleftrightarrow>
     sth_signed E h \<and> signed_by_key h (Some k) \<and> finite_num threshold = Some True \<and>
     (\<exists>t. num_value threshold = Some (of_nat t) \<and> 0 < t \<and> t \<le> card {w. \<exists>c \<in> set cs. cosigns E h trusted c w})"
proof -
  let ?seen = "fold (note_witness E h (map hex_text trusted)) cs []"
  have n: "length ?seen = card {w. \<exists>c \<in> set cs. cosigns E h trusted c w}"
    using fold_note_witness(1) [of E h trusted cs "[]"] fold_note_witness(2) [of "[]" E h trusted cs] distinct_card [of ?seen] by simp
  have nat: "r \<in> \<int> \<and> \<not> r < 1 \<longleftrightarrow> (\<exists>t. r = of_nat t \<and> 0 < t)" for r :: rat
  proof
    assume r: "r \<in> \<int> \<and> \<not> r < 1"
    then obtain i where i: "r = of_int i" by (auto elim: Ints_cases)
    then have "1 \<le> i" using r by simp
    then show "\<exists>t. r = of_nat t \<and> 0 < t" using i by (intro exI [of _ "nat i"]) simp
  qed auto
  show ?thesis
  proof (cases "finite_num threshold = Some True")
    case True
    then obtain r where r: "num_value threshold = Some r" using finite_num_value by blast
    show ?thesis
    proof (cases "sth_signed E h \<and> signed_by_key h (Some k) \<and> r \<in> \<int> \<and> \<not> r < 1")
      case ok: True
      then obtain t where "r = of_nat t" "0 < t" using nat [of r] by auto
      then show ?thesis using True r ok n
        by (simp add: verify_witnessed_checkpoint_def Let_def verify_sth_authentic verify_sth_issuer signed_by_key_def)
    next
      case False
      then show ?thesis using True r nat [of r]
        by (auto simp: verify_witnessed_checkpoint_def Let_def verify_sth_authentic verify_sth_issuer signed_by_key_def)
    qed
  next
    case False
    then show ?thesis by (auto simp: verify_witnessed_checkpoint_def split: option.splits)
  qed
qed

section \<open>Publication\<close>

definition ledger_head :: "pydict \<Rightarrow> pydict" where
  "ledger_head receipt = as_dict (py_get receipt ''ledger_sth'')"

definition head_entry :: "env \<Rightarrow> pydict \<Rightarrow> ustr" where
  "head_entry E h = publication_entry E (py_get h ''log_id'') (py_get h ''tree_size'') (text_of (py_get h ''root_hash_hex''))"

text \<open>Every check before the leaf is hashed holds.\<close>

definition publication_checked :: "env \<Rightarrow> pydict \<Rightarrow> pydict \<Rightarrow> pyval option \<Rightarrow> int \<Rightarrow> bytes \<Rightarrow> bytes list \<Rightarrow> bool" where
  "publication_checked E h r key idx rt proof \<longleftrightarrow>
     py_get r ''format'' = PStr PUBLICATION_FORMAT \<and> signed_count (py_get h ''tree_size'') \<and> receipt_binds r h \<and>
     sth_signed E (ledger_head r) \<and> (key = None \<or> signed_by_key (ledger_head r) key) \<and>
     map_option wire_int (field r ''leaf_index'') = Some (Inr idx) \<and>
     Option.bind (field (ledger_head r) ''root_hash_hex'') unhex = Some rt \<and>
     wire_path (py_get r ''inclusion_proof_hex'') = Some proof"

lemma verify_publication_checked:
  assumes "publication_checked E h r key idx rt proof"
  shows "verify_publication E (PDict h) (PDict r) key =
    (case lh (sha3 E) (head_entry E h) of None \<Rightarrow> None
     | Some leaf \<Rightarrow> Some (if verify_inclusion (sha3 E) (PInt idx) (py_get (ledger_head r) ''tree_size'') leaf rt proof
         then \<lparr>pb_published = True, pb_ledger_size = py_get (ledger_head r) ''tree_size'',
           pb_note = RecordedAt idx (py_get (ledger_head r) ''log_id'') (py_get (ledger_head r) ''tree_size'')\<rparr>
         else \<lparr>pb_published = False, pb_ledger_size = py_get (ledger_head r) ''tree_size'', pb_note = NotInLedger\<rparr>))"
  using assms
  by (auto simp: verify_publication_def publication_checked_def Let_def ledger_head_def head_entry_def
      verify_sth_authentic verify_sth_issuer sth_signed_def signed_by_key_def split: option.splits)

lemma verify_publication_unchecked:
  assumes "\<forall>idx rt proof. \<not> publication_checked E h r key idx rt proof"
  shows "\<exists>v. verify_publication E (PDict h) (PDict r) key = Some v \<and> \<not> pb_published v"
proof -
  have "verify_publication E (PDict h) (PDict r) key \<noteq> None \<and>
    (\<forall>v. verify_publication E (PDict h) (PDict r) key = Some v \<longrightarrow> \<not> pb_published v)"
    using assms
    by (auto simp: verify_publication_def publication_checked_def Let_def ledger_head_def
        verify_sth_authentic verify_sth_issuer signed_by_key_def
        split: option.splits sum.splits if_splits)
  then show ?thesis by auto
qed

text \<open>The one way it raises: a text no UTF-8 encodes, which a log may well have signed.\<close>

lemma publication_raises_iff:
  "verify_publication E (PDict h) (PDict r) key = None \<longleftrightarrow>
     (\<exists>idx rt proof. publication_checked E h r key idx rt proof) \<and> utf8_encode (head_entry E h) = None"
proof (cases "\<exists>idx rt proof. publication_checked E h r key idx rt proof")
  case True
  then obtain idx rt pth where c: "publication_checked E h r key idx rt pth" by blast
  show ?thesis using True by (auto simp: verify_publication_checked [OF c] lh_def split: option.splits)
next
  case False
  then show ?thesis using verify_publication_unchecked [of E h r key] by auto
qed

lemma published_recorded:
  assumes "map_option pb_published (verify_publication E (PDict h) (PDict r) key) = Some True"
    and "unhex (py_get (ledger_head r) ''root_hash_hex'') = merkle_tree_head (sha3 E) es"
    and "py_get (ledger_head r) ''tree_size'' = PInt (int (length es))" "encodable es" "hash32 (sha3 E)"
    and "inj_on (sha3 E) ({0 # the (utf8_encode (head_entry E h))} \<union> set (tree_inputs (sha3 E) es) \<union>
      set (incl_inputs (sha3 E) (nat (projr (wire_int (py_get r ''leaf_index'')))) (length es - 1)
        (the (lh (sha3 E) (head_entry E h))) (the (wire_path (py_get r ''inclusion_proof_hex'')))))"
  shows "\<exists>i. wire_int (py_get r ''leaf_index'') = Inr (int i) \<and> i < length es \<and> es ! i = head_entry E h"
proof -
  obtain idx rt pth where c: "publication_checked E h r key idx rt pth"
    using verify_publication_unchecked [of E h r key] assms(1) by (metis map_option_eq_Some option.inject)
  then have f: "wire_int (py_get r ''leaf_index'') = Inr idx" "unhex (py_get (ledger_head r) ''root_hash_hex'') = Some rt"
      "wire_path (py_get r ''inclusion_proof_hex'') = Some pth" and s: "sth_signed E (ledger_head r)"
    by (simp_all add: publication_checked_def field_unhex field_wire_int)
  obtain leaf where leaf: "lh (sha3 E) (head_entry E h) = Some leaf"
      and v: "verify_inclusion (sha3 E) (PInt idx) (PInt (int (length es))) leaf rt pth"
    using assms(1,3) by (auto simp: verify_publication_checked [OF c] split: option.splits if_splits)
  have w: "wire_int (PInt (int (length es))) = Inr (int (length es))"
    using s assms(3) by (intro signed_count_wire_int) (simp add: sth_signed_def)
  have i: "wire_int (PInt idx) = Inr idx"
    using v by (auto simp: verify_inclusion_def wire_int_def finite_num_def split: sum.splits option.splits if_splits)
  show ?thesis
    using accepted_inclusion [OF v w _ leaf assms(4,5)] assms(2,6) f leaf i by auto
qed

lemma equivocation_iff:
  "fst (verify_equivocation E (PDict a) (PDict b) key) \<longleftrightarrow>
     sth_signed E a \<and> signed_by_key a key \<and> sth_signed E b \<and> signed_by_key b key \<and>
     py_eq (py_get a ''log_id'') (py_get b ''log_id'') \<and> py_eq (py_get a ''tree_size'') (py_get b ''tree_size'') \<and>
     \<not> same_hex (py_get a ''root_hash_hex'') (py_get b ''root_hash_hex'')"
  using verify_sth_matches [of E a key] verify_sth_matches [of E b key]
  by (auto simp: verify_equivocation_def Let_def)

lemma one_head:
  "fst (verify_equivocation E (PDict h) (PDict h) key) \<longleftrightarrow>
     sth_signed E h \<and> signed_by_key h key \<and> py_eq (py_get h ''log_id'') (py_get h ''log_id'') \<and>
     hex_text (py_get h ''root_hash_hex'') = None"
proof (cases "sth_signed E h")
  case True
  then obtain n where "py_get h ''tree_size'' = PInt n" by (auto simp: sth_signed_def dest: signed_countD)
  then show ?thesis unfolding equivocation_iff by (auto simp: same_hex_def num_value_def)
qed (simp add: equivocation_iff)

section \<open>Properties\<close>

text \<open>
  C10. An audited log only appended. When the verifier calls two signed heads consistent and the
  heads are those of two lists of entries, with no two of the inputs hashed colliding, the newer
  list is the older one with entries added at its end.
\<close>

theorem consistent_log_only_appended:
  assumes "lc_consistent (verify_log_consistency E (PDict old) (PDict new) proof key)"
    and "unhex (py_get old ''root_hash_hex'') = merkle_tree_head (sha3 E) olds" "py_get old ''tree_size'' = PInt (int (length olds))"
    and "unhex (py_get new ''root_hash_hex'') = merkle_tree_head (sha3 E) news" "py_get new ''tree_size'' = PInt (int (length news))"
    and "encodable olds" "encodable news" "hash32 (sha3 E)"
    and "inj_on (sha3 E) (set (tree_inputs (sha3 E) olds) \<union> set (tree_inputs (sha3 E) news) \<union>
      set (check_inputs (sha3 E) (length olds - 1) (length news - 1) (the (merkle_tree_head (sha3 E) olds)) (the (proof_bytes proof))))"
  shows "\<exists>added. news = olds @ added"
  by (rule consistent_prefix [OF assms])

text \<open>
  C16. A head is witnessed exactly when its log signed it and at least the threshold's number of
  different trusted witnesses, one or more, signed this very head: a repeated, forged or foreign
  cosignature adds nothing.
\<close>

theorem witnessed_exactly:
  "map_option wc_witnessed (verify_witnessed_checkpoint E (PDict h) (PList cs) (Some trusted) threshold (Some k)) = Some True \<longleftrightarrow>
     sth_signed E h \<and> signed_by_key h (Some k) \<and> finite_num threshold = Some True \<and>
     (\<exists>t. num_value threshold = Some (of_nat t) \<and> 0 < t \<and> t \<le> card {w. \<exists>c \<in> set cs. cosigns E h trusted c w})"
  by (rule witnessed_exact)

text \<open>
  One head is enough to convict a log: shown the same signed head twice, the verifier reports a
  proven equivocation exactly when the head's root is missing, null, empty or no string at all.
\<close>

theorem one_head_proves_equivocation:
  "fst (verify_equivocation E (PDict h) (PDict h) key) \<longleftrightarrow>
     sth_signed E h \<and> signed_by_key h key \<and> py_eq (py_get h ''log_id'') (py_get h ''log_id'') \<and>
     hex_text (py_get h ''root_hash_hex'') = None"
  by (rule one_head)

text \<open>
  A published head is in the ledger: when the verifier accepts a receipt whose ledger head is
  that of a list of entries, with no two of the inputs hashed colliding, the list holds the head's
  entry, at the index the receipt names.
\<close>

theorem published_head_is_recorded:
  assumes "map_option pb_published (verify_publication E (PDict h) (PDict r) key) = Some True"
    and "unhex (py_get (ledger_head r) ''root_hash_hex'') = merkle_tree_head (sha3 E) es"
    and "py_get (ledger_head r) ''tree_size'' = PInt (int (length es))" "encodable es" "hash32 (sha3 E)"
    and "inj_on (sha3 E) ({0 # the (utf8_encode (head_entry E h))} \<union> set (tree_inputs (sha3 E) es) \<union>
      set (incl_inputs (sha3 E) (nat (projr (wire_int (py_get r ''leaf_index'')))) (length es - 1)
        (the (lh (sha3 E) (head_entry E h))) (the (wire_path (py_get r ''inclusion_proof_hex'')))))"
  shows "\<exists>i. wire_int (py_get r ''leaf_index'') = Inr (int i) \<and> i < length es \<and> es ! i = head_entry E h"
  by (rule published_recorded [OF assms])

section \<open>Witnesses\<close>

definition trusting_env :: env where
  "trusting_env = no_backend\<lparr>sha3 := toy_hash, liboqs := Some (\<lambda>_ _ _ _. Some True)\<rparr>"

definition sample_envelope :: pydict where
  "sample_envelope = [(lit ''algorithm'', PStr (lit ''ML-DSA-65'')),
     (lit ''public_key_hex'', PStr (hex_of (replicate 1952 1))), (lit ''signature_hex'', PStr (hex_of (replicate 3309 2)))]"

lemma trusting_env_simps [simp]: "sha3 trusting_env = toy_hash" "dev_mode trusting_env = False"
  "openssl trusting_env = None" "liboqs trusting_env = Some (\<lambda>_ _ _ _. Some True)" "frepr trusting_env = (\<lambda>_. [])"
  by (simp_all add: trusting_env_def no_backend_def)

lemma sample_signature_holds:
  assumes "py_get d ''algorithm'' = PStr (lit ''ML-DSA-65'')"
    "py_get d ''public_key_hex'' = PStr (hex_of (replicate 1952 1))" "py_get d ''signature_hex'' = PStr (hex_of (replicate 3309 2))"
  shows "signature_holds trusting_env d dg"
proof -
  have entry: "accepted_entry (PStr (lit ''ML-DSA-65'')) = Some (Some (lit ''MLDSA65PublicKey''), 1952, 3309)"
    by (simp add: accepted_entry_def ACCEPTED_def)
  have e: "envelope_bytes d = Some (replicate 3309 2, replicate 1952 1)"
    by (simp only: envelope_bytes_def assms unhex_hex_of option.case prod.case)
  have s: "size_problem (PStr (lit ''ML-DSA-65'')) (replicate 1952 1) (replicate 3309 2) = None"
    by (simp add: size_problem_def entry flip: length_greater_0_conv)
  have l: "verify_liboqs trusting_env dg (replicate 3309 2) (replicate 1952 1) (PStr (lit ''ML-DSA-65'')) = Some True"
    by (simp only: verify_liboqs_def trusting_env_simps accepted_alg_def entry s if_False option.case pyval.case) simp
  have c: "verify_cryptography trusting_env dg (replicate 3309 2) (replicate 1952 1) (PStr (lit ''ML-DSA-65'')) = None"
    by (simp only: verify_cryptography_def trusting_env_simps accepted_alg_def entry s if_False option.case) simp
  show ?thesis
    by (simp only: signature_holds_def e assms(1) option.case prod.case s l c agreed_Inr_True) simp
qed

definition sample_head :: "int \<Rightarrow> bytes \<Rightarrow> pydict" where
  "sample_head n rt = [(lit ''format'', PStr STH_FORMAT), (lit ''tree_size'', PInt n),
     (lit ''root_hash_hex'', PStr (hex_of rt))] @ sample_envelope"

lemma sample_head_fields:
  "py_get (sample_head n rt) ''format'' = PStr STH_FORMAT" "py_get (sample_head n rt) ''tree_size'' = PInt n"
  "py_get (sample_head n rt) ''root_hash_hex'' = PStr (hex_of rt)" "py_get (sample_head n rt) ''log_id'' = PNone"
  "py_get (sample_head n rt) ''timestamp'' = PNone"
  "py_get (sample_head n rt) ''algorithm'' = PStr (lit ''ML-DSA-65'')"
  "py_get (sample_head n rt) ''public_key_hex'' = PStr (hex_of (replicate 1952 1))"
  "py_get (sample_head n rt) ''signature_hex'' = PStr (hex_of (replicate 3309 2))"
  by (simp_all only: sample_head_def sample_envelope_def append.simps py_get_Cons py_get_Nil lit_eq_iff) simp_all

lemma sample_head_signed:
  assumes "0 \<le> n" "n < 10"
  shows "sth_signed trusting_env (sample_head n rt)" "signed_by_key (sample_head n rt) (Some (PStr (hex_of (replicate 1952 1))))"
proof -
  have "nat n < 10" using assms by linarith
  then have "json_ok (PInt n)" using assms nat_digits.simps [of "nat n"] by simp
  then have "canonical_digest trusting_env STH_FIELDS (sample_head n rt) \<noteq> None"
    by (simp add: canonical_digest_def canonical_json_def statement_def STH_FIELDS_def sample_head_fields)
  then have "signed_statement trusting_env STH_FIELDS (sample_head n rt)"
    using sample_signature_holds [of "sample_head n rt"] by (auto simp: signed_statement_def sample_head_fields)
  then show "sth_signed trusting_env (sample_head n rt)"
    using assms by (simp add: sth_signed_def sample_head_fields signed_count_def MAX_SAFE_INTEGER_def)
  have "hex_of (replicate 1952 1) \<noteq> []" by (simp flip: length_greater_0_conv)
  then show "signed_by_key (sample_head n rt) (Some (PStr (hex_of (replicate 1952 1))))"
    by (simp only: signed_by_key_def option.case sample_head_fields same_hex_def hex_text_def pyval.case) simp
qed

lemma consistent_log_only_appended_witness:
  "\<exists>added. sample_log = [[97], [98]] @ added"
proof -
  let ?key = "Some (PStr (hex_of (replicate 1952 1)))" and ?proof = "PList [PStr (hex_of (pad 101))]"
  have pf: "proof_bytes ?proof = Some [pad 101]"
    by (simp add: proof_bytes_def py_true_def)
  have two: "sth_signed trusting_env (sample_head 2 (pad 165))" "signed_by_key (sample_head 2 (pad 165)) ?key"
    by (rule sample_head_signed; simp)+
  have three: "sth_signed trusting_env (sample_head 3 (pad 166))" "signed_by_key (sample_head 3 (pad 166)) ?key"
    by (rule sample_head_signed; simp)+
  have c: "lc_consistent (verify_log_consistency trusting_env (PDict (sample_head 2 (pad 165)))
      (PDict (sample_head 3 (pad 166))) ?proof ?key)"
    unfolding consistent_iff sample_head_fields unhex_hex_of pf using two three sample_log_facts(4) by simp
  show ?thesis
  proof (rule consistent_log_only_appended [OF c])
    show "unhex (py_get (sample_head 2 (pad 165)) ''root_hash_hex'') = merkle_tree_head (sha3 trusting_env) [[97], [98]]"
      "unhex (py_get (sample_head 3 (pad 166)) ''root_hash_hex'') = merkle_tree_head (sha3 trusting_env) sample_log"
      "py_get (sample_head 2 (pad 165)) ''tree_size'' = PInt (int (length [[97 :: nat], [98]]))"
      "py_get (sample_head 3 (pad 166)) ''tree_size'' = PInt (int (length sample_log))"
      by (simp_all add: sample_head_fields sample_log_facts)
    show "encodable [[97], [98]]" "encodable sample_log" "hash32 (sha3 trusting_env)"
      by (simp_all add: sample_leaves)
    show "inj_on (sha3 trusting_env) (set (tree_inputs (sha3 trusting_env) [[97], [98]]) \<union>
        set (tree_inputs (sha3 trusting_env) sample_log) \<union>
        set (check_inputs (sha3 trusting_env) (length [[97 :: nat], [98]] - 1) (length sample_log - 1)
          (the (merkle_tree_head (sha3 trusting_env) [[97], [98]])) (the (proof_bytes ?proof))))"
      using sample_log_facts(5) by (simp only: trusting_env_simps sample_log_facts(1) pf option.sel)
  qed
qed

definition published_head :: pydict where
  "published_head = sample_head 1 (pad 7)"

definition sample_receipt :: "bytes \<Rightarrow> pydict" where
  "sample_receipt rt = [(lit ''format'', PStr PUBLICATION_FORMAT), (lit ''tree_size'', PInt 1),
     (lit ''root_hash_hex'', PStr (hex_of (pad 7))), (lit ''leaf_index'', PInt 0), (lit ''ledger_sth'', PDict (sample_head 1 rt))]"

lemma published_head_is_recorded_witness:
  "\<exists>i. i < length [head_entry trusting_env published_head] \<and>
    [head_entry trusting_env published_head] ! i = head_entry trusting_env published_head"
proof -
  let ?e = "head_entry trusting_env published_head"
  have hexed: "hex_text (PStr (hex_of (pad 7))) = Some (hex_of (pad 7))"
    using fromhex_hex_of_lower [OF fromhex_hex_of, of "pad 7"] by (simp add: hex_text_def flip: length_greater_0_conv)
  have "ascii ?e"
    using lower_hex_of [of trusting_env "pad 7"] ascii_hex_of [of "pad 7"] nat_digits.simps [of 1]
    by (simp add: head_entry_def published_head_def sample_head_fields publication_entry_def py_str_def text_of_def
        ascii_def lit_def int_str_def)
  then have enc: "utf8_encode ?e = Some (map byte ?e)" by (rule utf8_encode_ascii)
  define rt where "rt = toy_hash (0 # map byte ?e)"
  have leaf: "lh toy_hash ?e = Some rt" by (simp add: lh_def enc rt_def)
  have led: "ledger_head (sample_receipt rt) = sample_head 1 rt"
    by (simp add: ledger_head_def sample_receipt_def)
  have zero: "wire_int (PInt 0) = Inr 0"
    by (rule signed_count_wire_int) (simp add: signed_count_def MAX_SAFE_INTEGER_def)
  have one: "sth_signed trusting_env (sample_head 1 rt)" by (rule sample_head_signed; simp)
  have "publication_checked trusting_env published_head (sample_receipt rt) None 0 rt []"
    unfolding publication_checked_def led field_unhex sample_head_fields unhex_hex_of
    using one hexed zero small_ints
    by (simp add: sample_receipt_def field_def published_head_def sample_head_fields receipt_binds_def same_hex_def
        signed_count_def MAX_SAFE_INTEGER_def num_value_def wire_path_def)
  from verify_publication_checked [OF this]
  have v: "map_option pb_published (verify_publication trusting_env (PDict published_head) (PDict (sample_receipt rt)) None) = Some True"
    using leaf zero by (simp add: led sample_head_fields verify_inclusion_def incl_walk.simps)
  have "\<exists>i. wire_int (py_get (sample_receipt rt) ''leaf_index'') = Inr (int i) \<and> i < length [?e] \<and> [?e] ! i = ?e"
  proof (rule published_head_is_recorded [OF v])
    show "unhex (py_get (ledger_head (sample_receipt rt)) ''root_hash_hex'') = merkle_tree_head (sha3 trusting_env) [?e]"
      "py_get (ledger_head (sample_receipt rt)) ''tree_size'' = PInt (int (length [?e]))"
      by (simp_all add: led sample_head_fields leaf)
    show "encodable [?e]" "hash32 (sha3 trusting_env)" using enc by (simp_all add: encodable_def)
    show "inj_on (sha3 trusting_env) ({0 # the (utf8_encode ?e)} \<union> set (tree_inputs (sha3 trusting_env) [?e]) \<union>
      set (incl_inputs (sha3 trusting_env) (nat (projr (wire_int (py_get (sample_receipt rt) ''leaf_index'')))) (length [?e] - 1)
        (the (lh (sha3 trusting_env) ?e)) (the (wire_path (py_get (sample_receipt rt) ''inclusion_proof_hex'')))))"
      by (simp add: tree_inputs_def leaf_hashes_def node_inputs.simps sample_receipt_def wire_path_def incl_inputs.simps)
  qed
  then show ?thesis by blast
qed

end
