(* ===== verification/ChainAnchor.thy ===== *)
theory ChainAnchor
  imports LogAudit
begin

unbundle bit_operations_syntax

text \<open>
  The checkpoint of the transparency logs and its anchor in Bitcoin, in
  \<open>polaris_verify_cli/verifier.py\<close>: the checkpoint text (\<open>chain_checkpoint\<close>, \<open>_checkpoint_heads\<close>), the
  OpenTimestamps proof replayed operation by operation (\<open>_OtsReader\<close>, \<open>_ots_walk\<close>), the block header and
  its proof of work, and the decision over the caller's sources (\<open>verify_chain_anchor\<close>). The hash
  functions of \<open>hashlib\<close> are a record; RIPEMD-160 is missing from some builds. \<open>json.loads\<close> is an
  argument. A \<open>ValueError\<close> or \<open>TypeError\<close> the callers catch is \<open>None\<close>.
\<close>

section \<open>The reader\<close>

text \<open>A reader is the bytes it has not read yet.\<close>

definition read_bytes :: "nat \<Rightarrow> bytes \<Rightarrow> (bytes \<times> bytes) option" where
  "read_bytes n r = (if length r < n then None else Some (take n r, drop n r))"

definition read_byte :: "bytes \<Rightarrow> (8 word \<times> bytes) option" where
  "read_byte r = (case r of [] \<Rightarrow> None | b # s \<Rightarrow> Some (b, s))"

fun varuint_loop :: "nat \<Rightarrow> nat \<Rightarrow> bytes \<Rightarrow> (nat \<times> bytes) option" where
  "varuint_loop acc shift [] = None"
| "varuint_loop acc shift (b # r) =
     (let acc2 = acc OR push_bit shift (unat b AND 0x7F) in
      if unat b AND 0x80 = 0 then Some (acc2, r)
      else if 63 < shift + 7 then None
      else varuint_loop acc2 (shift + 7) r)"

definition varuint :: "bytes \<Rightarrow> (nat \<times> bytes) option" where
  "varuint r = varuint_loop 0 0 r"

definition varbytes :: "nat \<Rightarrow> nat \<Rightarrow> bytes \<Rightarrow> (bytes \<times> bytes) option" where
  "varbytes min_len max_len r =
     (case varuint r of None \<Rightarrow> None
      | Some (n, s) \<Rightarrow> if \<not> (min_len \<le> n \<and> n \<le> max_len) then None else read_bytes n s)"

section \<open>The operations\<close>

record hashes =
  sha256 :: "bytes \<Rightarrow> bytes"
  sha1 :: "bytes \<Rightarrow> bytes"
  ripemd160 :: "(bytes \<Rightarrow> bytes) option"

definition OTS_MAX_PROOF :: nat where "OTS_MAX_PROOF = 65536"
definition OTS_MAX_MSG :: nat where "OTS_MAX_MSG = 4096"
definition OTS_MAX_DEPTH :: nat where "OTS_MAX_DEPTH = 256"

definition OTS_MAGIC :: bytes where
  "OTS_MAGIC = [0x00] @ map byte (lit ''OpenTimestamps'') @ [0x00, 0x00] @ map byte (lit ''Proof'')
     @ [0x00, 0xbf, 0x89, 0xe2, 0xe8, 0x84, 0xe8, 0x92, 0x94]"

definition OTS_BITCOIN :: bytes where
  "OTS_BITCOIN = [0x05, 0x88, 0x96, 0x0d, 0x73, 0xd7, 0x19, 0x01]"

text \<open>A tag that hashes: \<open>None\<close> for a tag that is none, \<open>Some None\<close> for a hash this Python lacks.\<close>

definition ots_unary :: "hashes \<Rightarrow> 8 word \<Rightarrow> (bytes \<Rightarrow> bytes) option option" where
  "ots_unary H tag =
     (if tag = 0x08 then Some (Some (sha256 H)) else if tag = 0x02 then Some (Some (sha1 H))
      else if tag = 0x03 then Some (ripemd160 H) else None)"

datatype ots_node = Attested "(nat \<times> bytes) list" | Message bytes

text \<open>\<open>branch\<close> up to the recursive call: an attestation, or the message the walk goes on with.\<close>

definition ots_attestation :: "bytes \<Rightarrow> bytes \<Rightarrow> (ots_node \<times> bytes) option" where
  "ots_attestation msg r =
     (case read_bytes 8 r of None \<Rightarrow> None
      | Some (kind, r1) \<Rightarrow>
          (case varbytes 0 8192 r1 of None \<Rightarrow> None
           | Some (payload, r2) \<Rightarrow>
               if kind = OTS_BITCOIN then
                 (case varuint payload of None \<Rightarrow> None
                  | Some (height, left) \<Rightarrow> if left \<noteq> [] then None else Some (Attested [(height, msg)], r2))
               else Some (Attested [], r2)))"

definition ots_operation :: "hashes \<Rightarrow> 8 word \<Rightarrow> bytes \<Rightarrow> bytes \<Rightarrow> (bytes \<times> bytes) option" where
  "ots_operation H tag msg r =
     (if tag = 0xF0 \<or> tag = 0xF1 then
        (case varbytes 1 OTS_MAX_MSG r of None \<Rightarrow> None
         | Some (arg, s) \<Rightarrow> Some (if tag = 0xF0 then msg @ arg else arg @ msg, s))
      else if tag = 0xF2 then Some (rev msg, r)
      else if tag = 0xF3 then Some (map byte (hex_of msg), r)
      else (case ots_unary H tag of Some (Some f) \<Rightarrow> Some (f msg, r) | _ \<Rightarrow> None))"

definition ots_step :: "hashes \<Rightarrow> 8 word \<Rightarrow> bytes \<Rightarrow> bytes \<Rightarrow> (ots_node \<times> bytes) option" where
  "ots_step H tag msg r =
     (if tag = 0x00 then ots_attestation msg r
      else
        (case ots_operation H tag msg r of None \<Rightarrow> None
         | Some (nxt, s) \<Rightarrow> if OTS_MAX_MSG < length nxt then None else Some (Message nxt, s)))"

text \<open>Every read leaves less.\<close>

lemma read_bytes_length: "read_bytes n r = Some (a, s) \<Longrightarrow> length s \<le> length r"
  by (auto simp: read_bytes_def split: if_splits)

lemma varuint_loop_length: "varuint_loop acc k r = Some (n, s) \<Longrightarrow> length s < length r"
  by (induction acc k r rule: varuint_loop.induct) (auto simp: Let_def split: if_splits)

lemma varbytes_length: "varbytes lo hi r = Some (a, s) \<Longrightarrow> length s < length r"
  by (auto simp: varbytes_def varuint_def split: option.splits if_splits dest!: varuint_loop_length read_bytes_length)

lemma ots_step_length: "ots_step H tag msg r = Some (x, s) \<Longrightarrow> length s \<le> length r"
  by (auto simp: ots_step_def ots_attestation_def ots_operation_def split: option.splits if_splits
      dest!: varbytes_length read_bytes_length)

text \<open>
  The walk. The loop over \<open>0xFF\<close> is the call at the same depth on what the first branch left; its
  argument is a result of the walk itself, so termination needs that the walk leaves less than it read.
\<close>

function ots_branch :: "hashes \<Rightarrow> nat \<Rightarrow> 8 word \<Rightarrow> bytes \<Rightarrow> bytes \<Rightarrow> ((nat \<times> bytes) list \<times> bytes) option"
  and ots_walk :: "hashes \<Rightarrow> nat \<Rightarrow> bytes \<Rightarrow> bytes \<Rightarrow> ((nat \<times> bytes) list \<times> bytes) option" where
  "ots_branch H depth tag msg r =
     (case ots_step H tag msg r of None \<Rightarrow> None
      | Some (Attested found, s) \<Rightarrow> Some (found, s)
      | Some (Message nxt, s) \<Rightarrow> ots_walk H (depth + 1) nxt s)"
| "ots_walk H depth msg r =
     (if OTS_MAX_DEPTH < depth then None
      else
        (case r of [] \<Rightarrow> None
         | tag # r1 \<Rightarrow>
             if tag \<noteq> 0xFF then ots_branch H depth tag msg r1
             else
               (case r1 of [] \<Rightarrow> None
                | tag2 # r2 \<Rightarrow>
                    (case ots_branch H depth tag2 msg r2 of None \<Rightarrow> None
                     | Some (found, s) \<Rightarrow>
                         (case ots_walk H depth msg s of None \<Rightarrow> None
                          | Some (rest, s2) \<Rightarrow> Some (found @ rest, s2))))))"
  by pat_completeness auto

lemma ots_length:
  "ots_branch_ots_walk_dom (Inl (H, depth, tag, msg, r)) \<Longrightarrow>
     ots_branch H depth tag msg r = Some (found, s) \<Longrightarrow> length s \<le> length r"
  "ots_branch_ots_walk_dom (Inr (H, depth, msg, r)) \<Longrightarrow>
     ots_walk H depth msg r = Some (found, s) \<Longrightarrow> length s < length r"
proof (induction H depth tag msg r and H depth msg r arbitrary: found s and found s rule: ots_branch_ots_walk.pinduct)
  case (1 H depth tag msg r)
  then show ?case
    by (auto simp: ots_branch.psimps split: option.splits ots_node.splits prod.splits dest!: ots_step_length) (metis le_trans less_imp_le_nat)
next
  case (2 H depth msg r)
  then show ?case
    by (auto simp: ots_walk.psimps split: if_splits option.splits list.splits) force+
qed

termination ots_branch
proof (relation "measure (case_sum (\<lambda>(H, depth, tag, msg, r). 2 * length r + 1) (\<lambda>(H, depth, msg, r). 2 * length r))")
  fix H depth tag2 msg r2 x found s tag r1 and r :: bytes
  assume "r = tag # r1" "r1 = tag2 # r2" "ots_branch H depth tag2 msg r2 = Some x" "(found, s) = x"
    "ots_branch_ots_walk_dom (Inl (H, depth, tag2, msg, r2))"
  then have "length s \<le> length r2" using ots_length(1) by metis
  then show "(Inr (H, depth, msg, s), Inr (H, depth, msg, r))
      \<in> measure (case_sum (\<lambda>(H, depth, tag, msg, r). 2 * length r + 1) (\<lambda>(H, depth, msg, r). 2 * length r))"
    using \<open>r = tag # r1\<close> \<open>r1 = tag2 # r2\<close> by simp
qed (auto dest!: ots_step_length)

declare ots_branch.simps [simp del] ots_walk.simps [simp del]

section \<open>The proof\<close>

definition ots_bitcoin_attestations :: "hashes \<Rightarrow> bytes \<Rightarrow> bytes \<Rightarrow> (nat \<times> bytes) list option" where
  "ots_bitcoin_attestations H proof digest =
     (if OTS_MAX_PROOF < length proof then None
      else
        (case read_bytes (length OTS_MAGIC) proof of None \<Rightarrow> None
         | Some (magic, r1) \<Rightarrow>
             if magic \<noteq> OTS_MAGIC then None
             else
               (case varuint r1 of None \<Rightarrow> None
                | Some (version, r2) \<Rightarrow>
                    if version \<noteq> 1 then None
                    else
                      (case read_byte r2 of None \<Rightarrow> None
                       | Some (hash_tag, r3) \<Rightarrow>
                           if hash_tag \<noteq> 0x08 then None
                           else
                             (case read_bytes 32 r3 of None \<Rightarrow> None
                              | Some (d, r4) \<Rightarrow>
                                  if d \<noteq> digest then None
                                  else
                                    (case ots_walk H 0 digest r4 of None \<Rightarrow> None
                                     | Some (found, left) \<Rightarrow> if left \<noteq> [] then None else Some found))))))"

section \<open>The block header\<close>

definition BITCOIN_POW_LIMIT :: nat where "BITCOIN_POW_LIMIT = push_bit 208 0x00000000FFFF"

record header =
  bh_block_hash :: ustr
  bh_merkle_root :: bytes
  bh_time :: nat
  bh_pow_ok :: bool

text \<open>\<open>int.from_bytes(raw[i:j], "little")\<close>.\<close>

definition le_field :: "nat \<Rightarrow> nat \<Rightarrow> bytes \<Rightarrow> nat" where
  "le_field i j raw = be_decode (rev (take (j - i) (drop i raw)))"

definition header_target :: "nat \<Rightarrow> nat" where
  "header_target bits =
     (let exponent = drop_bit 24 bits; mantissa = bits AND 0x007FFFFF
      in if exponent \<le> 3 then drop_bit (8 * (3 - exponent)) mantissa else push_bit (8 * (exponent - 3)) mantissa)"

definition bitcoin_header :: "hashes \<Rightarrow> pyval \<Rightarrow> header option" where
  "bitcoin_header H header_hex =
     (case unhex header_hex of None \<Rightarrow> None
      | Some raw \<Rightarrow>
          if length raw \<noteq> 80 then None
          else
            let h = sha256 H (sha256 H raw); bits = le_field 72 76 raw; target = header_target bits
            in Some \<lparr>bh_block_hash = hex_of (rev h), bh_merkle_root = take 32 (drop 36 raw), bh_time = le_field 68 72 raw,
                 bh_pow_ok = (bits AND 0x00800000 = 0 \<and> 0 < target \<and> target \<le> BITCOIN_POW_LIMIT \<and> be_decode (rev h) \<le> target)\<rparr>)"

section \<open>The checkpoint\<close>

definition CHAIN_CHECKPOINT_FORMAT :: ustr where "CHAIN_CHECKPOINT_FORMAT = lit ''polaris-chain-checkpoint/1''"
definition CHAIN_ANCHOR_FORMAT :: ustr where "CHAIN_ANCHOR_FORMAT = lit ''polaris-chain-anchor/1''"

definition chain_checkpoint :: "env \<Rightarrow> pyval list \<Rightarrow> bytes option" where
  "chain_checkpoint E heads =
     canonical_json (frepr E) (PDict [(lit ''format'', PStr CHAIN_CHECKPOINT_FORMAT),
       (lit ''heads'', PList (sort_key (\<lambda>h. py_str E (py_get (as_dict h) ''log_id'')) heads))])"

datatype anchor_note =
    NotAnAnchor | NoCheckpointText | OtherDigest | CheckpointNotJson | NotACheckpoint | NoHeads | NotCanonical | NotAHead
  | LogNamedTwice | ProofDoesNotOpen | Pending | BadMinSources | SourcesDisagree nat "ustr list" | HeaderMalformed nat
  | NoProofOfWork nat | OtherMerkleRoot nat bytes bytes | TooFewSources "(nat \<times> nat) list" | InBlock nat nat

record checkpoint_head =
  ch_log_id :: ustr
  ch_tree_size :: int
  ch_root_hash_hex :: ustr
  ch_timestamp :: ustr
  ch_algorithm :: "ustr option"

text \<open>A head as it is listed, or nothing for one that is not a tree-head statement.\<close>

definition read_head :: "pyval \<Rightarrow> checkpoint_head option" where
  "read_head h0 =
     (let h = as_dict h0 in
      case (py_get h ''log_id'', py_get h ''tree_size'', py_get h ''root_hash_hex'', py_get h ''timestamp'') of
        (PStr log_id, PInt n, PStr rt, PStr time) \<Rightarrow>
          if py_get h ''format'' \<noteq> PStr STH_FORMAT \<or> \<not> safe_int (PInt n) \<or> n < 0 \<or> rt = [] then None
          else Some \<lparr>ch_log_id = log_id, ch_tree_size = n, ch_root_hash_hex = rt, ch_timestamp = time,
            ch_algorithm = (case (py_get h ''signature_hex'', py_get h ''algorithm'') of (PStr _, PStr a) \<Rightarrow> Some a | _ \<Rightarrow> None)\<rparr>
      | _ \<Rightarrow> None)"

text \<open>The outer option is the \<open>ValueError\<close> of a head that holds a number JSON does not.\<close>

definition checkpoint_heads :: "env \<Rightarrow> (ustr \<Rightarrow> pyval option) \<Rightarrow> ustr \<Rightarrow> (anchor_note + checkpoint_head list) option" where
  "checkpoint_heads E loads text_in =
     (case loads text_in of None \<Rightarrow> Some (Inl CheckpointNotJson)
      | Some (PDict doc) \<Rightarrow>
          if py_get doc ''format'' \<noteq> PStr CHAIN_CHECKPOINT_FORMAT then Some (Inl NotACheckpoint)
          else
            (case py_get doc ''heads'' of PList heads \<Rightarrow>
               if heads = [] \<or> \<not> list_all (\<lambda>h. \<exists>d. h = PDict d) heads then Some (Inl NoHeads)
               else
                 (case chain_checkpoint E heads of None \<Rightarrow> None
                  | Some bs \<Rightarrow>
                      if Some bs \<noteq> utf8_encode text_in \<or> set (map fst doc) \<noteq> {lit ''format'', lit ''heads''} then
                        Some (Inl NotCanonical)
                      else
                        (case those (map read_head heads) of None \<Rightarrow> Some (Inl NotAHead)
                         | Some out \<Rightarrow> if distinct (map ch_log_id out) then Some (Inr out) else Some (Inl LogNamedTwice)))
             | _ \<Rightarrow> Some (Inl NoHeads))
      | Some _ \<Rightarrow> Some (Inl NotACheckpoint))"

section \<open>The decision\<close>

text \<open>What a source returned: block heights, as integers or as decimal text, with header hex; \<open>None\<close> is no dict.\<close>

datatype height_key = HeightInt nat | HeightText ustr

type_synonym source = "ustr \<times> (height_key \<times> pyval) list option"

definition source_header :: "env \<Rightarrow> (height_key \<times> pyval) list option \<Rightarrow> nat \<Rightarrow> pyval" where
  "source_header E headers height =
     (let hx = (case headers of None \<Rightarrow> PNone
        | Some hs \<Rightarrow>
            (case map_of hs (HeightInt height) of Some v \<Rightarrow> v
             | None \<Rightarrow> (case map_of hs (HeightText (int_str (int height))) of Some v \<Rightarrow> v | None \<Rightarrow> PNone)))
      in case hx of PStr s \<Rightarrow> PStr (lower_text E s) | _ \<Rightarrow> hx)"

definition seen_headers :: "env \<Rightarrow> source list \<Rightarrow> nat \<Rightarrow> (ustr \<times> pyval) list" where
  "seen_headers E sources height =
     filter (\<lambda>(s, hx). hx \<noteq> PNone) (map (\<lambda>(s, headers). (s, source_header E headers height)) (sort_key fst sources))"

record block_found =
  bf_height :: nat
  bf_header :: header
  bf_sources :: "ustr list"

text \<open>The loop over the attested heights. Values with one \<open>repr\<close> are one value here.\<close>

fun find_block :: "env \<Rightarrow> hashes \<Rightarrow> source list \<Rightarrow> int \<Rightarrow> (nat \<times> bytes) list \<Rightarrow> (nat \<times> nat) list \<Rightarrow> anchor_note + block_found" where
  "find_block E H sources min_sources [] misses = Inl (TooFewSources misses)"
| "find_block E H sources min_sources ((height, msg) # found) misses =
     (let seen = seen_headers E sources height in
      if 1 < length (remdups (map snd seen)) then Inl (SourcesDisagree height (map fst seen))
      else if int (length seen) < min_sources then
        find_block E H sources min_sources found (misses @ [(height, length seen)])
      else
        (case bitcoin_header H (snd (hd seen)) of None \<Rightarrow> Inl (HeaderMalformed height)
         | Some h \<Rightarrow>
             if \<not> bh_pow_ok h then Inl (NoProofOfWork height)
             else if bh_merkle_root h \<noteq> msg then Inl (OtherMerkleRoot height (bh_merkle_root h) msg)
             else Inr \<lparr>bf_height = height, bf_header = h, bf_sources = map fst seen\<rparr>))"

record chain_anchor_verdict =
  ca_anchored :: bool
  ca_block :: "block_found option"
  ca_heads :: "checkpoint_head list"
  ca_sha256 :: "ustr option"
  ca_note :: "anchor_note option"

definition blank_anchor :: chain_anchor_verdict where
  "blank_anchor = \<lparr>ca_anchored = False, ca_block = None, ca_heads = [], ca_sha256 = None, ca_note = None\<rparr>"

definition verify_chain_anchor ::
    "env \<Rightarrow> hashes \<Rightarrow> (ustr \<Rightarrow> pyval option) \<Rightarrow> pyval \<Rightarrow> source list \<Rightarrow> pyval \<Rightarrow> chain_anchor_verdict option" where
  "verify_chain_anchor E H loads anchor0 sources min_sources =
     (let anchor = as_dict anchor0; v = blank_anchor in
      if py_get anchor ''format'' \<noteq> PStr CHAIN_ANCHOR_FORMAT then Some (v\<lparr>ca_note := Some NotAnAnchor\<rparr>)
      else
        (case py_get anchor ''checkpoint'' of PStr text_in \<Rightarrow>
           (case utf8_encode text_in of None \<Rightarrow> None
            | Some data \<Rightarrow>
                let digest = sha256 H data; v2 = v\<lparr>ca_sha256 := Some (hex_of digest)\<rparr> in
                if map_of anchor (lit ''checkpoint_sha256'') \<noteq> None \<and>
                    \<not> same_hex (py_get anchor ''checkpoint_sha256'') (PStr (hex_of digest)) then
                  Some (v2\<lparr>ca_note := Some OtherDigest\<rparr>)
                else
                  (case checkpoint_heads E loads text_in of None \<Rightarrow> None
                   | Some (Inl why) \<Rightarrow> Some (v2\<lparr>ca_note := Some why\<rparr>)
                   | Some (Inr heads) \<Rightarrow>
                       let v3 = v2\<lparr>ca_heads := heads\<rparr> in
                       (case Option.bind (unhex (py_get anchor ''proof_hex'')) (\<lambda>p. ots_bitcoin_attestations H p digest) of
                          None \<Rightarrow> Some (v3\<lparr>ca_note := Some ProofDoesNotOpen\<rparr>)
                        | Some found \<Rightarrow>
                            if found = [] then Some (v3\<lparr>ca_note := Some Pending\<rparr>)
                            else
                              (case min_sources of PInt k \<Rightarrow>
                                 if \<not> safe_int (PInt k) \<or> k < 1 then Some (v3\<lparr>ca_note := Some BadMinSources\<rparr>)
                                 else
                                   (case find_block E H sources k (sort_key fst found) [] of
                                      Inl why \<Rightarrow> Some (v3\<lparr>ca_note := Some why\<rparr>)
                                    | Inr b \<Rightarrow> Some (v3\<lparr>ca_anchored := True, ca_block := Some b,
                                        ca_note := Some (InBlock (bf_height b) (length (bf_sources b)))\<rparr>))
                               | _ \<Rightarrow> Some (v3\<lparr>ca_note := Some BadMinSources\<rparr>)))))
         | _ \<Rightarrow> Some (v\<lparr>ca_note := Some NoCheckpointText\<rparr>)))"

text \<open>\<open>chain_anchor_heights\<close>: sorted, without repeats, and empty for whatever cannot be read.\<close>

definition chain_anchor_heights :: "hashes \<Rightarrow> pyval \<Rightarrow> nat list" where
  "chain_anchor_heights H anchor0 =
     (let anchor = as_dict anchor0 in
      case py_get anchor ''checkpoint'' of PStr text_in \<Rightarrow>
        (case (utf8_encode text_in, unhex (py_get anchor ''proof_hex'')) of
           (Some data, Some p) \<Rightarrow>
             (case ots_bitcoin_attestations H p (sha256 H data) of None \<Rightarrow> []
              | Some found \<Rightarrow> sort (remdups (map fst found)))
         | _ \<Rightarrow> [])
      | _ \<Rightarrow> [])"

section \<open>What a replayed path is\<close>

datatype ots_op = OpAppend bytes | OpPrepend bytes | OpReverse | OpHexlify | OpSha256 | OpSha1 | OpRipemd160

fun apply_op :: "hashes \<Rightarrow> ots_op \<Rightarrow> bytes \<Rightarrow> bytes option" where
  "apply_op H (OpAppend arg) msg = Some (msg @ arg)"
| "apply_op H (OpPrepend arg) msg = Some (arg @ msg)"
| "apply_op H OpReverse msg = Some (rev msg)"
| "apply_op H OpHexlify msg = Some (map byte (hex_of msg))"
| "apply_op H OpSha256 msg = Some (sha256 H msg)"
| "apply_op H OpSha1 msg = Some (sha1 H msg)"
| "apply_op H OpRipemd160 msg = map_option (\<lambda>f. f msg) (ripemd160 H)"

fun run_ops :: "hashes \<Rightarrow> ots_op list \<Rightarrow> bytes \<Rightarrow> bytes option" where
  "run_ops H [] msg = Some msg"
| "run_ops H (op # ops) msg = Option.bind (apply_op H op msg) (run_ops H ops)"

text \<open>Two inputs one of the hash functions maps to one value.\<close>

definition collides :: "(bytes \<Rightarrow> bytes) \<Rightarrow> bool" where
  "collides f \<longleftrightarrow> (\<exists>x y. x \<noteq> y \<and> f x = f y)"

definition collision :: "hashes \<Rightarrow> bool" where
  "collision H \<longleftrightarrow> collides (sha256 H) \<or> collides (sha1 H) \<or> (\<exists>f. ripemd160 H = Some f \<and> collides f)"

lemma collidesI: "f x = f y \<Longrightarrow> x = y \<or> collides f"
  by (auto simp: collides_def)

lemma map_byte_hex_inject: "map byte (hex_of a) = map byte (hex_of b) \<Longrightarrow> a = b"
  using map_byte_inject [of "hex_of a" "hex_of b"] ascii_hex_of by (simp add: hex_of_inject)

lemma apply_op_inject:
  assumes "apply_op H op x = Some m" "apply_op H op y = Some m"
  shows "x = y \<or> collision H"
  using assms collidesI [of "sha256 H" x y] collidesI [of "sha1 H" x y] collidesI [of "the (ripemd160 H)" x y]
  by (cases op) (auto simp: collision_def dest: map_byte_hex_inject)

lemma run_ops_inject:
  "run_ops H ops x = Some m \<Longrightarrow> run_ops H ops y = Some m \<Longrightarrow> x = y \<or> collision H"
proof (induction ops arbitrary: x y)
  case (Cons op ops)
  then obtain a b where ab: "apply_op H op x = Some a" "apply_op H op y = Some b"
      "run_ops H ops a = Some m" "run_ops H ops b = Some m"
    by (auto simp: bind_eq_Some_conv)
  then show ?case using Cons.IH [OF ab(3,4)] apply_op_inject [of H op x a y] by auto
qed simp

lemma ots_operation_op: "ots_operation H tag msg r = Some (nxt, s) \<Longrightarrow> \<exists>op. apply_op H op msg = Some nxt"
proof -
  assume o: "ots_operation H tag msg r = Some (nxt, s)"
  have "\<exists>arg. nxt = msg @ arg \<or> nxt = arg @ msg" if "tag = 0xF0 \<or> tag = 0xF1"
    using o that by (auto simp: ots_operation_def split: option.splits if_splits)
  moreover have "nxt = sha256 H msg \<or> nxt = sha1 H msg \<or> (\<exists>f. ripemd160 H = Some f \<and> nxt = f msg)"
    if "tag \<noteq> 0xF0" "tag \<noteq> 0xF1" "tag \<noteq> 0xF2" "tag \<noteq> 0xF3"
    using o that by (auto simp: ots_operation_def ots_unary_def split: option.splits if_splits)
  moreover have "nxt = rev msg" if "tag = 0xF2" using o that by (simp add: ots_operation_def)
  moreover have "nxt = map byte (hex_of msg)" if "tag = 0xF3" using o that by (simp add: ots_operation_def)
  ultimately have "(\<exists>arg. nxt = msg @ arg \<or> nxt = arg @ msg) \<or> nxt = sha256 H msg \<or> nxt = sha1 H msg \<or>
      (\<exists>f. ripemd160 H = Some f \<and> nxt = f msg) \<or> nxt = rev msg \<or> nxt = map byte (hex_of msg)" by blast
  then show ?thesis
    by (elim disjE exE conjE; (intro exI [of _ "OpAppend _"], simp; fail | intro exI [of _ "OpPrepend _"], simp; fail |
      intro exI [of _ OpSha256], simp; fail | intro exI [of _ OpSha1], simp; fail | intro exI [of _ OpRipemd160], simp; fail |
      intro exI [of _ OpReverse], simp; fail | intro exI [of _ OpHexlify], simp; fail))
qed

definition path_from :: "hashes \<Rightarrow> nat \<Rightarrow> bytes \<Rightarrow> nat \<times> bytes \<Rightarrow> bool" where
  "path_from H depth msg hm \<longleftrightarrow> (\<exists>ops. length ops + depth \<le> OTS_MAX_DEPTH \<and> run_ops H ops msg = Some (snd hm))"

lemma path_from_step:
  "apply_op H op msg = Some nxt \<Longrightarrow> path_from H (depth + 1) nxt hm \<Longrightarrow> path_from H depth msg hm"
  unfolding path_from_def by (elim exE conjE) (rule_tac x = "op # ops" in exI, simp)

lemma ots_paths:
  "depth \<le> OTS_MAX_DEPTH \<Longrightarrow> ots_branch H depth tag msg r = Some (found, s) \<Longrightarrow> \<forall>hm \<in> set found. path_from H depth msg hm"
  "ots_walk H depth msg r = Some (found, s) \<Longrightarrow> \<forall>hm \<in> set found. path_from H depth msg hm"
proof (induction H depth tag msg r and H depth msg r arbitrary: found s and found s rule: ots_branch_ots_walk.induct)
  case (1 H depth tag msg r)
  obtain node s' where step: "ots_step H tag msg r = Some (node, s')"
    using "1.prems"(2) by (auto simp: ots_branch.simps [of H depth tag msg r] split: option.splits)
  show ?case
  proof (cases node)
    case (Attested fs)
    then have "set found \<subseteq> {(h, m). m = msg}"
      using "1.prems"(2) step
      by (auto simp: ots_branch.simps [of H depth tag msg r] ots_step_def ots_attestation_def split: option.splits if_splits)
    moreover have "path_from H depth msg (h, msg)" for h
      unfolding path_from_def using "1.prems"(1) by (intro exI [of _ "[]"]) simp
    ultimately show ?thesis by auto
  next
    case (Message nxt)
    then have "ots_operation H tag msg r = Some (nxt, s')"
      using step by (auto simp: ots_step_def ots_attestation_def split: option.splits if_splits)
    then obtain op where "apply_op H op msg = Some nxt" using ots_operation_op by blast
    moreover have "ots_walk H (depth + 1) nxt s' = Some (found, s)"
      using "1.prems"(2) step Message by (simp add: ots_branch.simps [of H depth tag msg r])
    then have "\<forall>hm \<in> set found. path_from H (depth + 1) nxt hm"
      using "1.IH" step Message by blast
    ultimately show ?thesis using path_from_step by blast
  qed
next
  case (2 H depth msg r)
  have d: "depth \<le> OTS_MAX_DEPTH" using "2.prems" by (simp add: ots_walk.simps [of H depth msg r] split: if_splits)
  obtain tag r1 where r: "r = tag # r1"
    using "2.prems" by (auto simp: ots_walk.simps [of H depth msg r] split: if_splits list.splits)
  show ?case
  proof (cases "tag = 0xFF")
    case False
    then show ?thesis using "2.prems" d "2.IH"(1) by (simp add: ots_walk.simps [of H depth msg "tag # r1"] r)
  next
    case True
    then obtain tag2 r2 f1 s1 f2 s2 where w: "r1 = tag2 # r2" "ots_branch H depth tag2 msg r2 = Some (f1, s1)"
        "ots_walk H depth msg s1 = Some (f2, s2)" "found = f1 @ f2"
      using "2.prems" d True by (auto simp: ots_walk.simps [of H depth msg "0xFF # r1"] r split: list.splits option.splits)
    have "\<forall>hm \<in> set f1. path_from H depth msg hm"
      using "2.IH"(2) d True r w by auto
    moreover have "\<forall>hm \<in> set f2. path_from H depth msg hm"
      using "2.IH"(3) d True r w by auto
    ultimately show ?thesis using w(4) by auto
  qed
qed

lemma attested_paths:
  assumes "ots_bitcoin_attestations H p digest = Some found" "hm \<in> set found"
  shows "path_from H 0 digest hm"
  using assms ots_paths(2) [of H 0 digest] by (auto simp: ots_bitcoin_attestations_def split: option.splits if_splits)

section \<open>The block\<close>

lemma all_same:
  assumes "\<not> 1 < length (remdups xs)" "x \<in> set xs" "y \<in> set xs"
  shows "x = y"
proof -
  have "card (set xs) \<le> 1" using assms(1) by (simp add: length_remdups_card_conv)
  then show ?thesis using assms(2,3) by (metis List.finite_set card_le_Suc0_iff_eq One_nat_def)
qed

definition returned :: "env \<Rightarrow> source list \<Rightarrow> nat \<Rightarrow> pyval \<Rightarrow> source list" where
  "returned E sources height hx = filter (\<lambda>s. source_header E (snd s) height = hx) sources"

definition agree_on :: "env \<Rightarrow> source list \<Rightarrow> nat \<Rightarrow> pyval \<Rightarrow> bool" where
  "agree_on E sources height hx \<longleftrightarrow> list_all (\<lambda>s. source_header E (snd s) height \<in> {PNone, hx}) sources"

lemma seen_set: "set (map snd (seen_headers E sources height)) = (\<lambda>s. source_header E (snd s) height) ` set sources - {PNone}"
  by (force simp: seen_headers_def)

lemma length_filter_sort: "length (filter P (sort_key f xs)) = length (filter P xs)"
  by (metis filter_sort length_sort)

lemma seen_count: "length (seen_headers E sources height) = length (filter (\<lambda>s. source_header E (snd s) height \<noteq> PNone) sources)"
  by (simp add: seen_headers_def filter_map comp_def case_prod_beta length_filter_sort)

lemma find_block_sound:
  assumes "find_block E H sources k found misses = Inr b" "1 \<le> k"
  shows "\<exists>hx. agree_on E sources (bf_height b) hx \<and> k \<le> int (length (returned E sources (bf_height b) hx)) \<and>
    bitcoin_header H hx = Some (bf_header b) \<and> bh_pow_ok (bf_header b) \<and>
    (bf_height b, bh_merkle_root (bf_header b)) \<in> set found"
  using assms(1)
proof (induction found arbitrary: misses)
  case (Cons hm found)
  obtain height msg where hm: "hm = (height, msg)" by (cases hm)
  let ?seen = "seen_headers E sources height"
  have same: "\<not> 1 < length (remdups (map snd ?seen))"
    using Cons.prems by (auto simp: hm Let_def split: if_splits)
  show ?case
  proof (cases "int (length ?seen) < k")
    case True
    then have "find_block E H sources k found (misses @ [(height, length ?seen)]) = Inr b"
      using Cons.prems same by (simp add: hm Let_def)
    from Cons.IH [OF this] show ?thesis by auto
  next
    case False
    then have ne: "?seen \<noteq> []" using assms(2) by auto
    let ?hx = "snd (hd ?seen)"
    have hx: "?hx \<in> set (map snd ?seen)" using ne by simp
    obtain h where h: "bitcoin_header H ?hx = Some h" "bh_pow_ok h" "bh_merkle_root h = msg"
        "b = \<lparr>bf_height = height, bf_header = h, bf_sources = map fst ?seen\<rparr>"
      using Cons.prems same False by (auto simp: hm Let_def split: option.splits if_splits)
    have only: "source_header E (snd s) height = PNone \<or> source_header E (snd s) height = ?hx" if "s \<in> set sources" for s
    proof (cases "source_header E (snd s) height = PNone")
      case False
      then have "source_header E (snd s) height \<in> set (map snd ?seen)" using that unfolding seen_set by blast
      then show ?thesis using all_same [OF same _ hx] by blast
    qed simp
    have "?hx \<noteq> PNone" using hx unfolding seen_set by blast
    then have "returned E sources height ?hx = filter (\<lambda>s. source_header E (snd s) height \<noteq> PNone) sources"
      unfolding returned_def using only by (intro filter_cong) auto
    then have "k \<le> int (length (returned E sources height ?hx))" using False by (simp add: seen_count)
    moreover have "agree_on E sources height ?hx" using only by (simp add: agree_on_def list_all_iff)
    ultimately show ?thesis using h by (auto simp: hm intro!: exI [of _ ?hx])
  qed
qed simp

lemma checkpoint_heads_canonical:
  assumes "checkpoint_heads E loads t = Some (Inr hs)"
  shows "\<exists>heads. chain_checkpoint E heads = utf8_encode t \<and> those (map read_head heads) = Some hs"
  using assms by (auto simp: checkpoint_heads_def split: option.splits pyval.splits if_splits)

lemma anchored_sound:
  assumes "verify_chain_anchor E H loads (PDict a) sources (PInt k) = Some v" "ca_anchored v"
  shows "\<exists>heads data ops b hx. chain_checkpoint E heads = Some data \<and> those (map read_head heads) = Some (ca_heads v) \<and>
    ca_block v = Some b \<and> length ops \<le> OTS_MAX_DEPTH \<and> run_ops H ops (sha256 H data) = Some (bh_merkle_root (bf_header b)) \<and>
    bitcoin_header H hx = Some (bf_header b) \<and> bh_pow_ok (bf_header b) \<and>
    agree_on E sources (bf_height b) hx \<and> k \<le> int (length (returned E sources (bf_height b) hx))"
proof -
  obtain t data where t: "py_get a ''checkpoint'' = PStr t" "utf8_encode t = Some data"
    using assms by (auto simp: verify_chain_anchor_def Let_def blank_anchor_def as_dict_def split: pyval.splits option.splits if_splits)
  let ?d = "sha256 H data"
  obtain hs where hs: "checkpoint_heads E loads t = Some (Inr hs)"
    using assms t by (auto simp: verify_chain_anchor_def Let_def blank_anchor_def as_dict_def split: option.splits sum.splits if_splits)
  obtain p found where p: "ots_bitcoin_attestations H p ?d = Some found"
      and att: "Option.bind (unhex (py_get a ''proof_hex'')) (\<lambda>p. ots_bitcoin_attestations H p ?d) = Some found"
    using assms t hs
    by (auto simp: verify_chain_anchor_def Let_def blank_anchor_def as_dict_def bind_eq_Some_conv split: option.splits if_splits)
  obtain b where b: "find_block E H sources k (sort_key fst found) [] = Inr b" "1 \<le> k" "ca_heads v = hs" "ca_block v = Some b"
    using assms t hs att
    by (auto simp: verify_chain_anchor_def Let_def blank_anchor_def as_dict_def split: sum.splits if_splits)
  obtain hx where hx: "agree_on E sources (bf_height b) hx" "k \<le> int (length (returned E sources (bf_height b) hx))"
      "bitcoin_header H hx = Some (bf_header b)" "bh_pow_ok (bf_header b)"
      and m: "(bf_height b, bh_merkle_root (bf_header b)) \<in> set found"
    using find_block_sound [OF b(1,2)] by auto
  obtain heads where "chain_checkpoint E heads = Some data" "those (map read_head heads) = Some (ca_heads v)"
    using checkpoint_heads_canonical [OF hs] t(2) b(3) by auto
  moreover obtain ops where "length ops \<le> OTS_MAX_DEPTH" "run_ops H ops ?d = Some (bh_merkle_root (bf_header b))"
    using attested_paths [OF p m] by (auto simp: path_from_def)
  ultimately show ?thesis using hx b(4) by blast
qed

text \<open>What makes the decision raise: a checkpoint text no UTF-8 encodes, or a head no JSON writer writes.\<close>

lemma chain_anchor_raises_iff:
  "verify_chain_anchor E H loads (PDict a) sources m = None \<longleftrightarrow>
     py_get a ''format'' = PStr CHAIN_ANCHOR_FORMAT \<and>
     (\<exists>t. py_get a ''checkpoint'' = PStr t \<and>
       (utf8_encode t = None \<or>
        (\<exists>data. utf8_encode t = Some data \<and> checkpoint_heads E loads t = None \<and>
           (map_of a (lit ''checkpoint_sha256'') = None \<or>
            same_hex (py_get a ''checkpoint_sha256'') (PStr (hex_of (sha256 H data)))))))"
  by (auto simp: verify_chain_anchor_def Let_def split: pyval.splits option.splits sum.splits if_splits)

section \<open>Properties\<close>

text \<open>
  C27. An anchored checkpoint is in a Bitcoin block: the decision is positive only when the checkpoint's
  heads in their canonical text hash, by a path of at most 256 of the known operations, each applied
  here, to the Merkle root of a header that meets its own proof of work, and at least as many sources
  as the caller asked for returned that header while none returned another for its height.
\<close>

theorem anchored_checkpoint_is_in_block:
  assumes "verify_chain_anchor E H loads (PDict a) sources (PInt k) = Some v" "ca_anchored v"
  shows "\<exists>heads data ops b hx. chain_checkpoint E heads = Some data \<and> those (map read_head heads) = Some (ca_heads v) \<and>
    ca_block v = Some b \<and> length ops \<le> OTS_MAX_DEPTH \<and> run_ops H ops (sha256 H data) = Some (bh_merkle_root (bf_header b)) \<and>
    bitcoin_header H hx = Some (bf_header b) \<and> bh_pow_ok (bf_header b) \<and>
    agree_on E sources (bf_height b) hx \<and> k \<le> int (length (returned E sources (bf_height b) hx))"
  by (rule anchored_sound [OF assms])

definition zero_hashes :: hashes where
  "zero_hashes = \<lparr>sha256 = (\<lambda>_. replicate 32 0), sha1 = (\<lambda>_. replicate 20 0), ripemd160 = None\<rparr>"

definition sample_chain_head :: pyval where
  "sample_chain_head = PDict [(lit ''format'', PStr STH_FORMAT), (lit ''log_id'', PStr (lit ''a'')), (lit ''tree_size'', PInt 0),
     (lit ''root_hash_hex'', PStr (lit ''00'')), (lit ''timestamp'', PStr (lit ''t''))]"

definition sample_checkpoint :: pyval where
  "sample_checkpoint = PDict [(lit ''format'', PStr CHAIN_CHECKPOINT_FORMAT), (lit ''heads'', PList [sample_chain_head])]"

definition sample_ots :: bytes where
  "sample_ots = OTS_MAGIC @ [1, 8] @ replicate 32 0 @ [0x00] @ OTS_BITCOIN @ [1, 5]"

definition sample_block :: bytes where
  "sample_block = replicate 72 0 @ [0xff, 0xff, 0x00, 0x1d] @ replicate 4 0"

definition sample_anchor :: pydict where
  "sample_anchor = [(lit ''format'', PStr CHAIN_ANCHOR_FORMAT),
     (lit ''checkpoint'', PStr (json_raw sample_repr sample_checkpoint)), (lit ''proof_hex'', PStr (hex_of sample_ots))]"

lemma sample_ots_opens: "ots_bitcoin_attestations zero_hashes sample_ots (replicate 32 0) = Some [(5, replicate 32 0)]"
proof -
  have m: "length OTS_MAGIC = 31" by (simp add: OTS_MAGIC_def lit_def)
  have v: "varuint (1 # r) = Some (1, r)" "varuint [5] = Some (5, [])" for r
    by (simp_all add: varuint_def Let_def)
  have "ots_walk zero_hashes 0 (replicate 32 0) ([0x00] @ OTS_BITCOIN @ [1, 5]) = Some ([(5, replicate 32 0)], [])"
    by (simp add: ots_walk.simps ots_branch.simps ots_step_def ots_attestation_def read_bytes_def varbytes_def v OTS_BITCOIN_def)
  moreover have "read_bytes 31 sample_ots = Some (OTS_MAGIC, [1, 8] @ replicate 32 0 @ [0x00] @ OTS_BITCOIN @ [1, 5])"
    by (simp add: read_bytes_def sample_ots_def m)
  moreover have "read_bytes 32 (replicate 32 0 @ r) = Some (replicate 32 0, r)" for r
    by (simp add: read_bytes_def)
  moreover have "length sample_ots \<le> OTS_MAX_PROOF" by (simp add: sample_ots_def m OTS_BITCOIN_def OTS_MAX_PROOF_def)
  ultimately show ?thesis by (simp add: ots_bitcoin_attestations_def m v read_byte_def)
qed

lemma sample_block_header:
  "bitcoin_header zero_hashes (PStr (hex_of sample_block)) =
     Some \<lparr>bh_block_hash = hex_of (replicate 32 0), bh_merkle_root = replicate 32 0, bh_time = 0, bh_pow_ok = True\<rparr>"
proof -
  have parts: "sample_block = replicate 36 0 @ replicate 32 0 @ replicate 4 0 @ [0xff, 0xff, 0x00, 0x1d] @ replicate 4 0"
    by (simp add: sample_block_def numeral_eq_Suc)
  have "take 4 (drop 72 sample_block) = [0xff, 0xff, 0x00, 0x1d]" "take 4 (drop 68 sample_block) = replicate 4 0"
    "take 32 (drop 36 sample_block) = replicate 32 0" "length sample_block = 80"
    by (simp_all add: parts)
  moreover have "be_decode (replicate n 0) = 0" for n
    by (induction n) (simp_all add: replicate_append_same [symmetric])
  moreover have "header_target 0x1d00ffff = BITCOIN_POW_LIMIT"
    by (simp add: header_target_def BITCOIN_POW_LIMIT_def drop_bit_eq_div push_bit_eq_mult)
  ultimately show ?thesis
    by (simp add: bitcoin_header_def zero_hashes_def le_field_def Let_def BITCOIN_POW_LIMIT_def push_bit_eq_mult be_decode_def)
qed

lemma anchored_checkpoint_is_in_block_witness:
  "\<exists>heads data ops. chain_checkpoint (no_backend\<lparr>frepr := sample_repr\<rparr>) heads = Some data \<and> length ops \<le> OTS_MAX_DEPTH \<and>
     run_ops zero_hashes ops (sha256 zero_hashes data) = Some (replicate 32 0)"
proof -
  let ?E = "no_backend\<lparr>frepr := sample_repr\<rparr>"
  define t where "t = json_raw sample_repr sample_checkpoint"
  let ?h = "\<lparr>ch_log_id = lit ''a'', ch_tree_size = 0, ch_root_hash_hex = lit ''00'', ch_timestamp = lit ''t'', ch_algorithm = None\<rparr>"
  let ?b = "\<lparr>bf_height = 5,
      bf_header = \<lparr>bh_block_hash = hex_of (replicate 32 0), bh_merkle_root = replicate 32 0, bh_time = 0, bh_pow_ok = True\<rparr>,
      bf_sources = [lit ''n'']\<rparr>"
  have "wf_val sample_checkpoint"
    by (simp add: sample_checkpoint_def sample_chain_head_def lit_def CHAIN_CHECKPOINT_FORMAT_def STH_FORMAT_def)
  then have "ascii t" using json_raw_ascii [OF sample_repr_ok] by (auto simp: t_def ascii_def list_all_iff)
  then have u: "utf8_encode t = Some (map byte t)" by (rule utf8_encode_ascii)
  have j: "json_ok sample_checkpoint"
    using nat_digits.simps [of 0] by (simp add: sample_checkpoint_def sample_chain_head_def)
  have "chain_checkpoint ?E [sample_chain_head] = canonical_json sample_repr sample_checkpoint"
    by (simp add: chain_checkpoint_def sample_checkpoint_def)
  then have c: "chain_checkpoint ?E [sample_chain_head] = Some (map byte t)" using j by (simp add: canonical_json_def t_def)
  have r: "read_head sample_chain_head = Some ?h"
    by (simp add: read_head_def sample_chain_head_def as_dict_def safe_int_def MAX_SAFE_INTEGER_def Let_def)
  have d: "\<exists>d. sample_chain_head = PDict d" by (simp add: sample_chain_head_def)
  have hs: "checkpoint_heads ?E (\<lambda>_. Some sample_checkpoint) t = Some (Inr [?h])"
    unfolding checkpoint_heads_def by (simp add: sample_checkpoint_def c u r d)
  have s: "source_header ?E (Some [(HeightInt 5, PStr (hex_of sample_block))]) 5 = PStr (hex_of sample_block)"
    by (simp add: source_header_def lower_hex_of)
  have f: "find_block ?E zero_hashes [(lit ''n'', Some [(HeightInt 5, PStr (hex_of sample_block))])] 1 [(5, replicate 32 0)] [] = Inr ?b"
    using s by (simp add: seen_headers_def sample_block_header Let_def)
  have "sha256 zero_hashes x = replicate 32 0" for x by (simp add: zero_hashes_def)
  then have o: "Option.bind (unhex (PStr (hex_of sample_ots))) (\<lambda>p. ots_bitcoin_attestations zero_hashes p (sha256 zero_hashes x))
      = Some [(5, replicate 32 0)]" for x
    using sample_ots_opens by simp
  have "\<exists>v. verify_chain_anchor ?E zero_hashes (\<lambda>_. Some sample_checkpoint) (PDict sample_anchor)
      [(lit ''n'', Some [(HeightInt 5, PStr (hex_of sample_block))])] (PInt 1) = Some v \<and> ca_anchored v \<and> ca_block v = Some ?b"
    unfolding verify_chain_anchor_def Let_def as_dict_def pyval.case
    by (simp add: sample_anchor_def t_def [symmetric] u hs o f safe_int_def MAX_SAFE_INTEGER_def blank_anchor_def del: unhex_hex_of find_block.simps)
  then obtain v where v: "verify_chain_anchor ?E zero_hashes (\<lambda>_. Some sample_checkpoint) (PDict sample_anchor)
      [(lit ''n'', Some [(HeightInt 5, PStr (hex_of sample_block))])] (PInt 1) = Some v" "ca_anchored v" "ca_block v = Some ?b"
    by blast
  from anchored_checkpoint_is_in_block [OF v(1,2)] v(3) show ?thesis by auto
qed

end
