(* ===== verification/Cbor.thy ===== *)
theory Cbor
  imports Utf8 PyValue
begin

text \<open>
  The CBOR subset an mdoc uses (\<open>_cbor_load\<close>, \<open>_cbor_decode\<close> and the writers \<open>_cbor_bstr_header\<close>,
  \<open>_cbor_text\<close>, \<open>_cbor_sig_structure\<close> of \<open>verifier.py\<close>), the grammar of that subset, and the proof that the
  decoder, which walks the buffer by index, accepts exactly the words of the grammar.
\<close>

section \<open>Values and refusals\<close>

text \<open>\<open>CborTagged\<close> is the tuple \<open>("tag", 24, inner, raw)\<close>; the tag is always 24. A map keeps its keys in order.\<close>

datatype cbor =
    CborInt int | CborBytes bytes | CborText ustr | CborList "cbor list" | CborMap "(cbor \<times> cbor) list" | CborTagged bytes bytes | CborBool bool | CborNull

text \<open>\<open>HeaderPastEnd\<close> is the \<open>IndexError\<close> of \<open>buf[i]\<close>; all others are \<open>ValueError\<close>.\<close>

datatype cbor_note =
    NestsTooDeep | TruncatedItem | HeaderPastEnd | IndefiniteLength | ReservedArgument nat | TruncatedString | TextNotUtf8
  | KeyNotScalar | KeyRepeated cbor | OtherTag nat | TagNotBytes | OtherSimple nat | TrailingBytes int

definition CBOR_MAX_DEPTH :: nat where
  "CBOR_MAX_DEPTH = 64"

text \<open>Python's \<open>==\<close> on the keys a map may have: \<open>True\<close> is 1 and \<open>False\<close> is 0.\<close>

definition scalar_key :: "cbor \<Rightarrow> bool" where
  "scalar_key k = (case k of CborList xs \<Rightarrow> False | CborMap kvs \<Rightarrow> False | CborTagged b r \<Rightarrow> False | _ \<Rightarrow> True)"

definition key_number :: "cbor \<Rightarrow> int option" where
  "key_number k = (case k of CborInt n \<Rightarrow> Some n | CborBool b \<Rightarrow> Some (if b then 1 else 0) | _ \<Rightarrow> None)"

definition key_eq :: "cbor \<Rightarrow> cbor \<Rightarrow> bool" where
  "key_eq a b \<longleftrightarrow> a = b \<or> key_number a \<noteq> None \<and> key_number a = key_number b"

section \<open>The decoder\<close>

text \<open>A slice past the end of the buffer is short, as in Python; the index moves on all the same.\<close>

definition slice :: "'a list \<Rightarrow> nat \<Rightarrow> nat \<Rightarrow> 'a list" where
  "slice buf i j = take (j - i) (drop i buf)"

text \<open>The argument of an item, read after its first byte: value and next index.\<close>

definition cbor_argument :: "bytes \<Rightarrow> nat \<Rightarrow> nat \<Rightarrow> cbor_note + nat \<times> nat" where
  "cbor_argument buf i info =
     (if info < 24 then Inr (info, i)
      else if info = 24 then (if i < length buf then Inr (unat (buf ! i), i + 1) else Inl HeaderPastEnd)
      else if info = 25 then Inr (be_decode (slice buf i (i + 2)), i + 2)
      else if info = 26 then Inr (be_decode (slice buf i (i + 4)), i + 4)
      else if info = 27 then Inr (be_decode (slice buf i (i + 8)), i + 8)
      else if info = 31 then Inl IndefiniteLength
      else Inl (ReservedArgument info))"

definition cbor_string :: "nat \<Rightarrow> bytes \<Rightarrow> nat \<Rightarrow> nat \<Rightarrow> cbor_note + cbor \<times> nat" where
  "cbor_string major buf j val =
     (if length buf < j + val then Inl TruncatedString
      else let raw = slice buf j (j + val)
           in if major = 2 then Inr (CborBytes raw, j + val)
              else (case utf8_decode raw of None \<Rightarrow> Inl TextNotUtf8 | Some s \<Rightarrow> Inr (CborText s, j + val)))"

definition cbor_simple :: "nat \<Rightarrow> nat \<Rightarrow> cbor_note + cbor \<times> nat" where
  "cbor_simple info j =
     (if info = 20 then Inr (CborBool False, j) else if info = 21 then Inr (CborBool True, j)
      else if info = 22 \<or> info = 23 then Inr (CborNull, j) else Inl (OtherSimple info))"

function (sequential) cbor_load :: "bytes \<Rightarrow> nat \<Rightarrow> nat \<Rightarrow> cbor_note + cbor \<times> nat"
  and cbor_items :: "bytes \<Rightarrow> nat \<Rightarrow> nat \<Rightarrow> nat \<Rightarrow> cbor_note + cbor list \<times> nat"
  and cbor_pairs :: "bytes \<Rightarrow> nat \<Rightarrow> nat \<Rightarrow> nat \<Rightarrow> (cbor \<times> cbor) list \<Rightarrow> cbor_note + (cbor \<times> cbor) list \<times> nat" where
  "cbor_load buf i depth =
     (if CBOR_MAX_DEPTH < depth then Inl NestsTooDeep
      else if length buf \<le> i then Inl TruncatedItem
      else
        let ib = unat (buf ! i); major = ib div 32; info = ib mod 32 in
        (case cbor_argument buf (i + 1) info of Inl e \<Rightarrow> Inl e
         | Inr (val, j) \<Rightarrow>
             if major = 0 then Inr (CborInt (int val), j)
             else if major = 1 then Inr (CborInt (-1 - int val), j)
             else if major = 2 \<or> major = 3 then cbor_string major buf j val
             else if major = 4 then
               (case cbor_items buf j depth val of Inl e \<Rightarrow> Inl e | Inr (xs, k) \<Rightarrow> Inr (CborList xs, k))
             else if major = 5 then
               (case cbor_pairs buf j depth val [] of Inl e \<Rightarrow> Inl e | Inr (kvs, k) \<Rightarrow> Inr (CborMap kvs, k))
             else if major = 6 then
               (if val \<noteq> 24 then Inl (OtherTag val)
                else (case cbor_load buf j (depth + 1) of Inl e \<Rightarrow> Inl e
                      | Inr (inner, k) \<Rightarrow>
                          (case inner of CborBytes b \<Rightarrow> Inr (CborTagged b (slice buf i k), k) | _ \<Rightarrow> Inl TagNotBytes)))
             else cbor_simple info j))"
| "cbor_items buf i depth 0 = Inr ([], i)"
| "cbor_items buf i depth (Suc n) =
     (case cbor_load buf i (depth + 1) of Inl e \<Rightarrow> Inl e
      | Inr (x, j) \<Rightarrow> (case cbor_items buf j depth n of Inl e \<Rightarrow> Inl e | Inr (xs, k) \<Rightarrow> Inr (x # xs, k)))"
| "cbor_pairs buf i depth 0 acc = Inr (acc, i)"
| "cbor_pairs buf i depth (Suc n) acc =
     (case cbor_load buf i (depth + 1) of Inl e \<Rightarrow> Inl e
      | Inr (key, j) \<Rightarrow>
          (case cbor_load buf j (depth + 1) of Inl e \<Rightarrow> Inl e
           | Inr (val, k) \<Rightarrow>
               if \<not> scalar_key key then Inl KeyNotScalar
               else if list_ex (\<lambda>x. key_eq key x) (map fst acc) then Inl (KeyRepeated key)
               else cbor_pairs buf k depth n (acc @ [(key, val)])))"
  by pat_completeness auto
termination
  by (relation "measures [case_sum (\<lambda>(buf, i, d). 2 * (65 - d)) (case_sum (\<lambda>(buf, i, d, n). 2 * (64 - d) + 1)
        (\<lambda>(buf, i, d, n, acc). 2 * (64 - d) + 1)),
      case_sum (\<lambda>_. 0) (case_sum (\<lambda>(buf, i, d, n). n) (\<lambda>(buf, i, d, n, acc). n))]")
    (auto simp: CBOR_MAX_DEPTH_def)

declare cbor_load.simps [simp del]

definition cbor_decode :: "bytes \<Rightarrow> cbor_note + cbor" where
  "cbor_decode buf =
     (case cbor_load buf 0 0 of Inl e \<Rightarrow> Inl e
      | Inr (v, i) \<Rightarrow> if i \<noteq> length buf then Inl (TrailingBytes (int (length buf) - int i)) else Inr v)"

section \<open>The grammar\<close>

text \<open>A header of major type \<open>m\<close> with argument \<open>n\<close>, of any of the five lengths that hold it.\<close>

definition cbor_head :: "nat \<Rightarrow> nat \<Rightarrow> bytes \<Rightarrow> bool" where
  "cbor_head m n h \<longleftrightarrow> m < 8 \<and>
     (n < 24 \<and> h = [byte (32 * m + n)] \<or>
      (\<exists>(info, w) \<in> {(24, 1), (25, 2), (26, 4), (27, 8)}. n < 256 ^ w \<and> h = byte (32 * m + info) # be_encode w n))"

definition distinct_keys :: "(cbor \<times> cbor) list \<Rightarrow> bool" where
  "distinct_keys kvs \<longleftrightarrow> list_all scalar_key (map fst kvs) \<and> sorted_wrt (\<lambda>x y. \<not> key_eq y x) (map fst kvs)"

inductive cbor_item :: "nat \<Rightarrow> cbor \<Rightarrow> bytes \<Rightarrow> bool" where
  pos: "d \<le> 64 \<Longrightarrow> cbor_head 0 n h \<Longrightarrow> cbor_item d (CborInt (int n)) h"
| neg: "d \<le> 64 \<Longrightarrow> cbor_head 1 n h \<Longrightarrow> cbor_item d (CborInt (-1 - int n)) h"
| bytes: "d \<le> 64 \<Longrightarrow> cbor_head 2 (length raw) h \<Longrightarrow> cbor_item d (CborBytes raw) (h @ raw)"
| str: "d \<le> 64 \<Longrightarrow> cbor_head 3 (length raw) h \<Longrightarrow> utf8_decode raw = Some s \<Longrightarrow> cbor_item d (CborText s) (h @ raw)"
| list: "d \<le> 64 \<Longrightarrow> cbor_head 4 (length xs) h \<Longrightarrow> list_all2 (cbor_item (Suc d)) xs bs \<Longrightarrow>
    cbor_item d (CborList xs) (h @ concat bs)"
| map: "d \<le> 64 \<Longrightarrow> cbor_head 5 (length kvs) h \<Longrightarrow> distinct_keys kvs \<Longrightarrow>
    list_all2 (\<lambda>kv b. cbor_item (Suc d) (fst kv) b) kvs bs \<Longrightarrow> list_all2 (\<lambda>kv c. cbor_item (Suc d) (snd kv) c) kvs cs \<Longrightarrow>
    cbor_item d (CborMap kvs) (h @ concat (map2 (@) bs cs))"
| tag: "d \<le> 64 \<Longrightarrow> cbor_head 6 24 h \<Longrightarrow> cbor_item (Suc d) (CborBytes inner) b \<Longrightarrow> cbor_item d (CborTagged inner (h @ b)) (h @ b)"
| false: "d \<le> 64 \<Longrightarrow> cbor_item d (CborBool False) [0xF4]"
| true: "d \<le> 64 \<Longrightarrow> cbor_item d (CborBool True) [0xF5]"
| null: "d \<le> 64 \<Longrightarrow> x = 0xF6 \<or> x = 0xF7 \<Longrightarrow> cbor_item d CborNull [x]"

section \<open>Slices and headers\<close>

lemma slice_append: "i \<le> j \<Longrightarrow> j \<le> k \<Longrightarrow> slice buf i j @ slice buf j k = slice buf i k"
  using take_add [of "j - i" "k - j" "drop i buf"] by (simp add: slice_def add.commute)

lemma slice_self [simp]: "slice buf i i = []" by (simp add: slice_def)

lemma slice_all [simp]: "slice buf 0 (length buf) = buf" by (simp add: slice_def)

lemma length_slice [simp]: "j \<le> length buf \<Longrightarrow> length (slice buf i j) = j - i"
  by (simp add: slice_def)

lemma slice_Cons: "i < length buf \<Longrightarrow> i < j \<Longrightarrow> slice buf i j = buf ! i # slice buf (Suc i) j"
  by (subst slice_append [of i "Suc i", symmetric]) (simp_all add: slice_def Cons_nth_drop_Suc [symmetric])

lemma slice_inside [simp]: "slice (pre @ b @ post) (length pre) (length pre + length b) = b"
  by (simp add: slice_def)

lemma first_byte: "unat (b :: 8 word) = 32 * (unat b div 32) + unat b mod 32" by simp

lemma head_read:
  assumes "i < length buf" "cbor_argument buf (i + 1) (unat (buf ! i) mod 32) = Inr (n, j)" "j \<le> length buf"
  shows "cbor_head (unat (buf ! i) div 32) n (slice buf i j)" "i < j"
proof -
  let ?b = "unat (buf ! i)"
  have m: "?b div 32 < 8" using unat_byte_lt [of "buf ! i"] by linarith
  have b: "byte (32 * (?b div 32) + ?b mod 32) = buf ! i" by simp
  have w: "n < 256 ^ w \<and> slice buf i j = byte (32 * (?b div 32) + info) # be_encode w n"
    if h: "?b mod 32 = info" "n = be_decode (slice buf (i + 1) (i + 1 + w))" "j = i + 1 + w" for info w
  proof -
    have l: "length (slice buf (i + 1) (i + 1 + w)) = w" using assms(3) h(3) by simp
    have "slice buf i j = buf ! i # slice buf (i + 1) (i + 1 + w)" using slice_Cons [OF assms(1), of j] h(3) by simp
    then show ?thesis using be_decode_lt_width [OF l] be_encode_decode [OF l] b by (simp only: h(1) [symmetric] h(2))
  qed
  have one: "n < 256 ^ 1 \<and> slice buf i j = byte (32 * (?b div 32) + 24) # be_encode 1 n" if "?b mod 32 = 24"
  proof -
    have e: "n = unat (buf ! (i + 1))" "j = i + 1 + 1" "i + 1 < length buf"
      using assms(2) that by (auto simp: cbor_argument_def split: if_splits)
    have "slice buf (i + 1) (i + 1 + 1) = [buf ! (i + 1)]" using slice_Cons [OF e(3), of "i + 1 + 1"] by simp
    then show ?thesis using w [OF that _ e(2)] e(1) by simp
  qed
  show "i < j" using assms(2) by (auto simp: cbor_argument_def split: if_splits)
  have cases: "?b mod 32 < 24 \<and> n = ?b mod 32 \<and> j = i + 1 \<or> ?b mod 32 = 24 \<or>
      ?b mod 32 = 25 \<and> n = be_decode (slice buf (i + 1) (i + 1 + 2)) \<and> j = i + 1 + 2 \<or>
      ?b mod 32 = 26 \<and> n = be_decode (slice buf (i + 1) (i + 1 + 4)) \<and> j = i + 1 + 4 \<or>
      ?b mod 32 = 27 \<and> n = be_decode (slice buf (i + 1) (i + 1 + 8)) \<and> j = i + 1 + 8"
    using assms(2) unfolding cbor_argument_def by (simp split: if_split_asm; auto)
  consider "?b mod 32 < 24" "n = ?b mod 32" "j = i + 1" | "?b mod 32 = 24" | "?b mod 32 = 25" "n = be_decode (slice buf (i + 1) (i + 1 + 2))" "j = i + 1 + 2"
    | "?b mod 32 = 26" "n = be_decode (slice buf (i + 1) (i + 1 + 4))" "j = i + 1 + 4"
    | "?b mod 32 = 27" "n = be_decode (slice buf (i + 1) (i + 1 + 8))" "j = i + 1 + 8"
    using cases by blast
  then show "cbor_head (?b div 32) n (slice buf i j)"
  proof cases
    case 1
    then show ?thesis using assms(1) m b by (simp add: cbor_head_def slice_Cons)
  next
    case 2
    then show ?thesis using m one by (simp add: cbor_head_def)
  next
    case 3
    then show ?thesis using m w [OF 3] by (simp add: cbor_head_def)
  next
    case 4
    then show ?thesis using m w [OF 4] by (simp add: cbor_head_def)
  next
    case 5
    then show ?thesis using m w [OF 5] by (simp add: cbor_head_def)
  qed
qed

lemma head_written:
  assumes "cbor_head m n h"
  shows "h \<noteq> []" "unat (hd h) div 32 = m" "cbor_argument (pre @ h @ post) (length pre + 1) (unat (hd h) mod 32) = Inr (n, length pre + length h)"
proof -
  have m: "m < 8" using assms by (simp add: cbor_head_def)
  have u: "unat (byte (32 * m + info)) div 32 = m \<and> unat (byte (32 * m + info)) mod 32 = info" if "info < 32" for info
    using that m by (simp add: unat_byte)
  have s: "slice (pre @ (x # be_encode w n) @ post) (length pre + 1) (length pre + 1 + w) = be_encode w n" for x w
    using slice_inside [of "pre @ [x]" "be_encode w n" post] by simp
  have n1: "(pre @ [x, y] @ post) ! (length pre + 1) = y" for x y by (simp add: nth_append)
  let ?ok = "h \<noteq> [] \<and> unat (hd h) div 32 = m \<and>
    cbor_argument (pre @ h @ post) (length pre + 1) (unat (hd h) mod 32) = Inr (n, length pre + length h)"
  have wide: ?ok if h: "n < 256 ^ w" "h = byte (32 * m + info) # be_encode w n" and i: "info = 25 \<and> w = 2 \<or> info = 26 \<and> w = 4 \<or> info = 27 \<and> w = 8"
    for w info
  proof -
    have "be_decode (slice (pre @ h @ post) (length pre + 1) (length pre + 1 + w)) = n"
      unfolding h(2) s using h(1) by simp
    moreover have "info < 32" using i by auto
    ultimately show ?thesis using u [of info] i by (auto simp: cbor_argument_def h(2))
  qed
  consider "n < 24" "h = [byte (32 * m + n)]" | "n < 256" "h = [byte (32 * m + 24), byte n]"
    | "n < 256 ^ 2" "h = byte (32 * m + 25) # be_encode 2 n" | "n < 256 ^ 4" "h = byte (32 * m + 26) # be_encode 4 n"
    | "n < 256 ^ 8" "h = byte (32 * m + 27) # be_encode 8 n"
    using assms by (auto simp: cbor_head_def)
  then have ?ok
  proof cases
    case 1
    then show ?thesis using u [of n] by (simp add: cbor_argument_def)
  next
    case 2
    then show ?thesis using u [of 24] n1 by (simp add: cbor_argument_def)
  next
    case 3
    then show ?thesis by (rule wide) simp
  next
    case 4
    then show ?thesis by (rule wide) simp
  next
    case 5
    then show ?thesis by (rule wide) simp
  qed
  then show "h \<noteq> []" "unat (hd h) div 32 = m"
    "cbor_argument (pre @ h @ post) (length pre + 1) (unat (hd h) mod 32) = Inr (n, length pre + length h)" by simp_all
qed

section \<open>The decoder accepts the grammar\<close>

lemma load_advances:
  "cbor_load buf i d = Inr (v, j) \<Longrightarrow> i < j"
  "cbor_items buf i d n = Inr (xs, j) \<Longrightarrow> i \<le> j \<and> length xs = n"
  "cbor_pairs buf i d n acc = Inr (kvs, j) \<Longrightarrow> i \<le> j"
proof (induction buf i d and buf i d n and buf i d n acc arbitrary: v j and xs j and kvs j rule: cbor_load_cbor_items_cbor_pairs.induct)
  case (1 buf i depth)
  obtain n k where a: "cbor_argument buf (i + 1) (unat (buf ! i) mod 32) = Inr (n, k)" "i < length buf" "\<not> CBOR_MAX_DEPTH < depth"
    using "1.prems" by (subst (asm) cbor_load.simps) (auto simp: Let_def split: if_splits sum.splits)
  then have k: "i < k" by (auto simp: cbor_argument_def split: if_splits)
  note prems = "1.prems" [unfolded cbor_load.simps [of buf i depth] Let_def]
  show ?case
    using k a prems "1.IH"(1,2,3) [OF a(3) _ refl refl refl a(1) refl]
    by (auto simp: not_le cbor_string_def cbor_simple_def Let_def split: if_splits sum.splits option.splits cbor.splits prod.splits)
next
  case (3 buf i depth n)
  then show ?case by (fastforce split: sum.splits prod.splits)
next
  case (5 buf i depth n acc)
  then show ?case by (fastforce split: sum.splits prod.splits if_splits)
qed simp_all

lemma distinct_keys_snoc:
  "distinct_keys (acc @ [(k, v)]) \<longleftrightarrow> distinct_keys acc \<and> scalar_key k \<and> \<not> list_ex (\<lambda>x. key_eq k x) (map fst acc)"
  by (auto simp: distinct_keys_def sorted_wrt_append list_ex_iff list_all_iff)

text \<open>What is known of an item once its header is read.\<close>

lemma cbor_load_header:
  assumes "cbor_load buf i d = Inr (v, j)"
  obtains n k where "i < length buf" "d \<le> 64" "cbor_argument buf (i + 1) (unat (buf ! i) mod 32) = Inr (n, k)" "i < k"
    "k \<le> length buf \<Longrightarrow> cbor_head (unat (buf ! i) div 32) n (slice buf i k)"
proof -
  obtain n k where a: "cbor_argument buf (i + 1) (unat (buf ! i) mod 32) = Inr (n, k)" "i < length buf" "\<not> CBOR_MAX_DEPTH < d"
    using assms by (subst (asm) cbor_load.simps) (auto simp: Let_def split: if_splits sum.splits)
  then have "i < k" by (auto simp: cbor_argument_def split: if_splits)
  then show ?thesis using that a head_read(1) [OF a(2,1)] by (simp add: CBOR_MAX_DEPTH_def)
qed

lemma load_sound:
  "cbor_load buf i d = Inr (v, j) \<Longrightarrow> j \<le> length buf \<Longrightarrow> cbor_item d v (slice buf i j)"
  "cbor_items buf i d n = Inr (xs, j) \<Longrightarrow> j \<le> length buf \<Longrightarrow>
     \<exists>bs. list_all2 (cbor_item (Suc d)) xs bs \<and> concat bs = slice buf i j"
  "cbor_pairs buf i d n acc = Inr (kvs, j) \<Longrightarrow> j \<le> length buf \<Longrightarrow>
     \<exists>new bs cs. kvs = acc @ new \<and> length new = n \<and> (distinct_keys acc \<longrightarrow> distinct_keys kvs) \<and>
       list_all2 (\<lambda>kv b. cbor_item (Suc d) (fst kv) b) new bs \<and> list_all2 (\<lambda>kv c. cbor_item (Suc d) (snd kv) c) new cs \<and>
       concat (map2 (@) bs cs) = slice buf i j"
proof (induction buf i d and buf i d n and buf i d n acc arbitrary: v j and xs j and kvs j rule: cbor_load_cbor_items_cbor_pairs.induct)
  case (1 buf i d)
  obtain n k where i: "i < length buf" and d: "d \<le> 64" and a: "cbor_argument buf (i + 1) (unat (buf ! i) mod 32) = Inr (n, k)" and k: "i < k"
    and h: "k \<le> length buf \<Longrightarrow> cbor_head (unat (buf ! i) div 32) n (slice buf i k)"
    using cbor_load_header [OF "1.prems"(1)] by metis
  have c: "\<not> CBOR_MAX_DEPTH < d" "\<not> length buf \<le> i" using d i by (simp_all add: CBOR_MAX_DEPTH_def)
  define m where "m = unat (buf ! i) div 32"
  note load = "1.prems"(1) [unfolded cbor_load.simps [of buf i d] Let_def a sum.case prod.case if_not_P [OF c(1)] if_not_P [OF c(2)],
      folded m_def]
  note IH = "1.IH" [OF c refl refl refl a refl, folded m_def]
  note head = h [folded m_def]
  have "m < 8" using unat_byte_lt [of "buf ! i"] unfolding m_def by linarith
  then consider "m = 0" | "m = 1" | "m = 2" | "m = 3" | "m = 4" | "m = 5" | "m = 6" | "m = 7" by linarith
  then show ?case
  proof cases
    case 1
    then show ?thesis using load head "1.prems"(2) d by (auto intro: cbor_item.pos)
  next
    case 2
    then show ?thesis using load head "1.prems"(2) d by (auto intro: cbor_item.neg)
  next
    case 3
    then have s: "v = CborBytes (slice buf k j)" "j = k + n" using load by (auto simp: cbor_string_def Let_def split: if_splits)
    then have "cbor_item d v (slice buf i k @ slice buf k j)"
      using head "1.prems"(2) d 3 by (auto intro!: cbor_item.bytes)
    then show ?thesis using k s by (simp add: slice_append)
  next
    case 4
    then obtain t where s: "v = CborText t" "utf8_decode (slice buf k j) = Some t" "j = k + n"
      using load by (auto simp: cbor_string_def Let_def split: if_splits option.splits)
    then have "cbor_item d v (slice buf i k @ slice buf k j)"
      using head "1.prems"(2) d 4 by (auto intro!: cbor_item.str)
    then show ?thesis using k s by (simp add: slice_append)
  next
    case 5
    then obtain ys where s: "v = CborList ys" "cbor_items buf k d n = Inr (ys, j)"
      using load by (auto split: sum.splits)
    have l: "k \<le> j" "length ys = n" using load_advances(2) [OF s(2)] by simp_all
    obtain bs where b: "list_all2 (cbor_item (Suc d)) ys bs" "concat bs = slice buf k j"
      using IH(1) [OF _ _ _ _ s(2) "1.prems"(2)] 5 by auto
    have "cbor_item d v (slice buf i k @ concat bs)"
      using head "1.prems"(2) d 5 l b(1) unfolding s(1) by (intro cbor_item.list) auto
    then show ?thesis using k l b(2) by (simp add: slice_append)
  next
    case 6
    then obtain kvs where s: "v = CborMap kvs" "cbor_pairs buf k d n [] = Inr (kvs, j)"
      using load by (auto split: sum.splits)
    have l: "k \<le> j" using load_advances(3) [OF s(2)] .
    obtain bs cs where b: "list_all2 (\<lambda>kv b. cbor_item (Suc d) (fst kv) b) kvs bs" "list_all2 (\<lambda>kv c. cbor_item (Suc d) (snd kv) c) kvs cs"
        "concat (map2 (@) bs cs) = slice buf k j" "length kvs = n" "distinct_keys kvs"
      using IH(2) [OF _ _ _ _ _ s(2) "1.prems"(2)] 6 by (auto simp: distinct_keys_def)
    have "cbor_item d v (slice buf i k @ concat (map2 (@) bs cs))"
      using head "1.prems"(2) d 6 l b unfolding s(1) by (intro cbor_item.map) auto
    then show ?thesis using k l b(3) by (simp add: slice_append)
  next
    case 7
    then obtain b where s: "v = CborTagged b (slice buf i j)" "cbor_load buf k (d + 1) = Inr (CborBytes b, j)" "n = 24"
      using load by (auto split: if_splits sum.splits cbor.splits)
    have l: "k < j" using load_advances(1) [OF s(2)] .
    have inner: "cbor_item (Suc d) (CborBytes b) (slice buf k j)"
      using IH(3) [OF _ _ _ _ _ _ _ s(2) "1.prems"(2)] 7 s(3) by simp
    have "cbor_item d (CborTagged b (slice buf i k @ slice buf k j)) (slice buf i k @ slice buf k j)"
      using head "1.prems"(2) d 7 l inner s(3) by (intro cbor_item.tag) auto
    then show ?thesis using k l s(1) by (simp add: slice_append)
  next
    case 8
    define info where "info = unat (buf ! i) mod 32"
    have b: "buf ! i = byte (32 * 7 + info)" using 8 unfolding m_def info_def by (metis byte_unat div_mult_mod_eq mult.commute)
    have s: "cbor_simple info k = Inr (v, j)" using load 8 by (simp add: info_def)
    then have i4: "info \<in> {20, 21, 22, 23}" "j = k" by (auto simp: cbor_simple_def split: if_splits)
    then have "k = i + 1" using a by (auto simp: cbor_argument_def info_def [symmetric])
    then have "slice buf i j = [buf ! i]" using i i4(2) by (simp add: slice_Cons)
    then show ?thesis
      using s i4 d b by (auto simp: cbor_simple_def byte_def intro: cbor_item.false cbor_item.true cbor_item.null)
  qed
next
  case (2 buf i d)
  then show ?case by auto
next
  case (3 buf i d n)
  then obtain x k ys where s: "cbor_load buf i (d + 1) = Inr (x, k)" "cbor_items buf k d n = Inr (ys, j)" "xs = x # ys"
    by (auto split: sum.splits)
  have l: "i < k" "k \<le> j" using load_advances(1) [OF s(1)] load_advances(2) [OF s(2)] by simp_all
  obtain bs where b: "list_all2 (cbor_item (Suc d)) ys bs" "concat bs = slice buf k j"
    using "3.IH"(2) [OF s(1) refl s(2) "3.prems"(2)] by blast
  have "cbor_item (Suc d) x (slice buf i k)" using "3.IH"(1) [OF s(1)] l "3.prems"(2) by simp
  then have "list_all2 (cbor_item (Suc d)) xs (slice buf i k # bs)" using b(1) by (simp add: s(3))
  moreover have "concat (slice buf i k # bs) = slice buf i j" using b(2) l by (simp add: slice_append)
  ultimately show ?case by blast
next
  case (4 buf i d acc)
  then show ?case by auto
next
  case (5 buf i d n acc)
  then obtain x y k l where s: "cbor_load buf i (d + 1) = Inr (x, k)" "cbor_load buf k (d + 1) = Inr (y, l)"
      "cbor_pairs buf l d n (acc @ [(x, y)]) = Inr (kvs, j)" and q: "scalar_key x" "\<not> list_ex (\<lambda>z. key_eq x z) (map fst acc)"
    by (auto split: sum.splits if_splits)
  have ord: "i < k" "k < l" "l \<le> j" using load_advances(1) [OF s(1)] load_advances(1) [OF s(2)] load_advances(3) [OF s(3)] by simp_all
  obtain new bs cs where b: "kvs = (acc @ [(x, y)]) @ new" "length new = n" "distinct_keys (acc @ [(x, y)]) \<longrightarrow> distinct_keys kvs"
      "list_all2 (\<lambda>kv b. cbor_item (Suc d) (fst kv) b) new bs" "list_all2 (\<lambda>kv c. cbor_item (Suc d) (snd kv) c) new cs"
      "concat (map2 (@) bs cs) = slice buf l j"
    using "5.IH"(3) [OF s(1) refl s(2) refl _ _ s(3) "5.prems"(2)] q by blast
  have "cbor_item (Suc d) x (slice buf i k)" "cbor_item (Suc d) y (slice buf k l)"
    using "5.IH"(1) [OF s(1)] "5.IH"(2) [OF s(1) refl s(2)] ord "5.prems"(2) by simp_all
  then have "list_all2 (\<lambda>kv b. cbor_item (Suc d) (fst kv) b) ((x, y) # new) (slice buf i k # bs)"
      "list_all2 (\<lambda>kv c. cbor_item (Suc d) (snd kv) c) ((x, y) # new) (slice buf k l # cs)" using b by simp_all
  moreover have "concat (map2 (@) (slice buf i k # bs) (slice buf k l # cs)) = slice buf i j"
    using b(6) ord by (simp add: slice_append)
  moreover have "kvs = acc @ ((x, y) # new)" "length ((x, y) # new) = Suc n" "distinct_keys acc \<longrightarrow> distinct_keys kvs"
    using b q by (simp_all add: distinct_keys_snoc)
  ultimately show ?case by blast
qed

lemma header_in_place:
  assumes "cbor_head m n h"
  shows "\<not> length (pre @ h @ post) \<le> length pre" "unat ((pre @ h @ post) ! length pre) div 32 = m"
    "cbor_argument (pre @ h @ post) (length pre + 1) (unat ((pre @ h @ post) ! length pre) mod 32) = Inr (n, length pre + length h)"
proof -
  note w = head_written [OF assms]
  have "(pre @ h @ post) ! length pre = hd h" using w(1) by (cases h) (simp_all add: nth_append)
  then show "\<not> length (pre @ h @ post) \<le> length pre" "unat ((pre @ h @ post) ! length pre) div 32 = m"
    "cbor_argument (pre @ h @ post) (length pre + 1) (unat ((pre @ h @ post) ! length pre) mod 32) = Inr (n, length pre + length h)"
    using w by simp_all
qed

text \<open>\<open>b\<close> is read as \<open>v\<close> wherever it stands.\<close>

definition read_as :: "nat \<Rightarrow> cbor \<Rightarrow> bytes \<Rightarrow> bool" where
  "read_as d v b \<longleftrightarrow> (\<forall>pre post. cbor_load (pre @ b @ post) (length pre) d = Inr (v, length pre + length b))"

lemma items_read:
  assumes "list_all2 (read_as (Suc d)) xs bs"
  shows "cbor_items (pre @ concat bs @ post) (length pre) d (length xs) = Inr (xs, length pre + length (concat bs))"
  using assms
proof (induction arbitrary: pre rule: list_all2_induct)
  case (Cons x xs b bs)
  have "cbor_load (pre @ b @ concat bs @ post) (length pre) (d + 1) = Inr (x, length pre + length b)"
    using Cons.hyps(1) by (simp add: read_as_def)
  moreover have "cbor_items ((pre @ b) @ concat bs @ post) (length (pre @ b)) d (length xs) = Inr (xs, length (pre @ b) + length (concat bs))"
    by (rule Cons.IH)
  ultimately show ?case by simp
qed simp

lemma pairs_read:
  assumes "list_all2 (\<lambda>kv b. read_as (Suc d) (fst kv) b) kvs bs" "list_all2 (\<lambda>kv c. read_as (Suc d) (snd kv) c) kvs cs"
    and "distinct_keys (acc @ kvs)"
  shows "cbor_pairs (pre @ concat (map2 (@) bs cs) @ post) (length pre) d (length kvs) acc =
    Inr (acc @ kvs, length pre + length (concat (map2 (@) bs cs)))"
  using assms
proof (induction kvs arbitrary: bs cs pre acc)
  case (Cons kv kvs)
  then obtain b bs' c cs' where e: "bs = b # bs'" "cs = c # cs'" by (metis list_all2_Cons1)
  let ?rest = "concat (map2 (@) bs' cs') @ post"
  have l1: "cbor_load (pre @ b @ c @ ?rest) (length pre) (d + 1) = Inr (fst kv, length pre + length b)"
    using Cons.prems(1) by (simp add: e read_as_def)
  have "read_as (Suc d) (snd kv) c" using Cons.prems(2) by (simp add: e)
  then have "cbor_load ((pre @ b) @ c @ ?rest) (length (pre @ b)) (Suc d) = Inr (snd kv, length (pre @ b) + length c)"
    unfolding read_as_def by blast
  then have l2: "cbor_load (pre @ b @ c @ ?rest) (length pre + length b) (d + 1) = Inr (snd kv, length pre + length b + length c)" by simp
  have k: "distinct_keys ((acc @ [(fst kv, snd kv)]) @ kvs)" using Cons.prems(3) by simp
  then have q: "scalar_key (fst kv)" "\<not> list_ex (\<lambda>x. key_eq (fst kv) x) (map fst acc)"
    by (auto simp: distinct_keys_def sorted_wrt_append list_ex_iff)
  have "cbor_pairs ((pre @ b @ c) @ ?rest) (length (pre @ b @ c)) d (length kvs) (acc @ [(fst kv, snd kv)]) =
      Inr ((acc @ [(fst kv, snd kv)]) @ kvs, length (pre @ b @ c) + length (concat (map2 (@) bs' cs')))"
    by (rule Cons.IH [OF _ _ k]) (use Cons.prems(1,2) in \<open>simp_all add: e\<close>)
  then show ?case using l1 l2 q by (simp add: e add.assoc)
qed simp

lemma item_read: "cbor_item d v b \<Longrightarrow> read_as d v b"
proof (induction rule: cbor_item.induct)
  case (pos d n h)
  then show ?case using header_in_place [OF pos(2)] by (simp add: read_as_def cbor_load.simps [of _ _ d] CBOR_MAX_DEPTH_def Let_def)
next
  case (neg d n h)
  then show ?case using header_in_place [OF neg(2)] by (simp add: read_as_def cbor_load.simps [of _ _ d] CBOR_MAX_DEPTH_def Let_def)
next
  case (bytes d raw h)
  have "slice (pre @ h @ raw @ post) (length pre + length h) (length pre + length h + length raw) = raw" for pre post
    using slice_inside [of "pre @ h" raw post] by simp
  then show ?case using header_in_place [OF bytes(2)] bytes(1)
    by (simp add: read_as_def cbor_load.simps [of _ _ d] CBOR_MAX_DEPTH_def Let_def cbor_string_def add.assoc)
next
  case (str d raw h s)
  have "slice (pre @ h @ raw @ post) (length pre + length h) (length pre + length h + length raw) = raw" for pre post
    using slice_inside [of "pre @ h" raw post] by simp
  then show ?case using header_in_place [OF str(2)] str(1,3)
    by (simp add: read_as_def cbor_load.simps [of _ _ d] CBOR_MAX_DEPTH_def Let_def cbor_string_def add.assoc)
next
  case (list d xs h bs)
  have a: "list_all2 (read_as (Suc d)) xs bs" using list(3) by (rule list_all2_mono) simp
  have "cbor_items (pre @ h @ concat bs @ post) (length pre + length h) d (length xs) =
      Inr (xs, length pre + length h + length (concat bs))" for pre post
    using items_read [OF a, of "pre @ h" post] by simp
  then show ?case using header_in_place [OF list(2)] list(1)
    by (simp add: read_as_def cbor_load.simps [of _ _ d] CBOR_MAX_DEPTH_def Let_def)
next
  case (map d kvs h bs cs)
  have a: "list_all2 (\<lambda>kv b. read_as (Suc d) (fst kv) b) kvs bs" using map(4) by (rule list_all2_mono) simp
  have b: "list_all2 (\<lambda>kv c. read_as (Suc d) (snd kv) c) kvs cs" using map(5) by (rule list_all2_mono) simp
  have "cbor_pairs (pre @ h @ concat (map2 (@) bs cs) @ post) (length pre + length h) d (length kvs) [] =
      Inr (kvs, length pre + length h + length (concat (map2 (@) bs cs)))" for pre post
    using pairs_read [OF a b, of "[]" "pre @ h" post] map(3) by simp
  then show ?case using header_in_place [OF map(2)] map(1)
    by (simp add: read_as_def cbor_load.simps [of _ _ d] CBOR_MAX_DEPTH_def Let_def)
next
  case (tag d h inner b)
  have "cbor_load (pre @ h @ b @ post) (length pre + length h) (Suc d) = Inr (CborBytes inner, length pre + length h + length b)" for pre post
    using tag.IH unfolding read_as_def by (metis append.assoc length_append)
  moreover have "slice (pre @ h @ b @ post) (length pre) (length pre + length h + length b) = h @ b" for pre post
    using slice_inside [of pre "h @ b" post] by (simp add: add.assoc)
  ultimately show ?case using header_in_place [OF tag(2)] tag(1)
    by (simp add: read_as_def cbor_load.simps [of _ _ d] CBOR_MAX_DEPTH_def Let_def add.assoc)
next
  case (false d)
  then show ?case
    by (simp add: read_as_def cbor_load.simps [of _ _ d] CBOR_MAX_DEPTH_def Let_def cbor_argument_def cbor_simple_def nth_append)
next
  case (true d)
  then show ?case
    by (simp add: read_as_def cbor_load.simps [of _ _ d] CBOR_MAX_DEPTH_def Let_def cbor_argument_def cbor_simple_def nth_append)
next
  case (null d x)
  have "read_as d CborNull [0xF6]" "read_as d CborNull [0xF7]"
    using null(1)
    by (simp_all add: read_as_def cbor_load.simps [of _ _ d] CBOR_MAX_DEPTH_def Let_def cbor_argument_def cbor_simple_def nth_append)
  then show ?case using null(2) by blast
qed

lemma cbor_decode_iff: "cbor_decode buf = Inr v \<longleftrightarrow> cbor_item 0 v buf"
proof
  assume "cbor_decode buf = Inr v"
  then have "cbor_load buf 0 0 = Inr (v, length buf)" by (auto simp: cbor_decode_def split: sum.splits if_splits)
  then show "cbor_item 0 v buf" using load_sound(1) [of buf 0 0 v "length buf"] by simp
next
  assume "cbor_item 0 v buf"
  then have "read_as 0 v buf" by (rule item_read)
  then have "cbor_load ([] @ buf @ []) (length ([] :: bytes)) 0 = Inr (v, length ([] :: bytes) + length buf)" unfolding read_as_def by blast
  then show "cbor_decode buf = Inr v" by (simp add: cbor_decode_def)
qed

text \<open>
  C23. The CBOR decoder accepts exactly the words of the grammar, with the value the grammar gives them:
  nothing truncated, nothing left over, no key twice, no float and no tag but 24, nothing nested deeper
  than 64.
\<close>

theorem cbor_decode_exact: "cbor_decode buf = Inr v \<longleftrightarrow> cbor_item 0 v buf"
  by (rule cbor_decode_iff)

section \<open>The writers\<close>

text \<open>\<open>n.to_bytes(4, "big")\<close> and \<open>n.to_bytes(2, "big")\<close> raise \<open>OverflowError\<close> for what does not fit: \<open>None\<close>.\<close>

definition cbor_bstr_header :: "nat \<Rightarrow> bytes option" where
  "cbor_bstr_header n =
     (if n < 24 then Some [byte (0x40 + n)]
      else if n < 256 then Some [0x58, byte n]
      else if n < 65536 then Some (0x59 # be_encode 2 n)
      else if n < 256 ^ 4 then Some (0x5A # be_encode 4 n) else None)"

definition cbor_text :: "ustr \<Rightarrow> bytes option" where
  "cbor_text s =
     (case utf8_encode s of None \<Rightarrow> None
      | Some raw \<Rightarrow>
          let n = length raw
          in if n < 24 then Some (byte (0x60 + n) # raw)
             else if n < 256 then Some ([0x78, byte n] @ raw)
             else if n < 65536 then Some (0x79 # be_encode 2 n @ raw) else None)"

definition cbor_sig_structure :: "bytes \<Rightarrow> bytes \<Rightarrow> bytes option" where
  "cbor_sig_structure protected payload =
     (case (cbor_text (lit ''Signature1''), cbor_bstr_header (length protected), cbor_bstr_header (length payload)) of
        (Some t, Some h, Some k) \<Rightarrow> Some ([0x84] @ t @ h @ protected @ [0x40] @ k @ payload)
      | _ \<Rightarrow> None)"

lemma bstr_header_head: "cbor_bstr_header n = Some h \<Longrightarrow> cbor_head 2 n h"
  by (auto simp: cbor_bstr_header_def cbor_head_def byte_def split: if_splits)

lemma cbor_text_item: "cbor_text s = Some b \<Longrightarrow> d \<le> 64 \<Longrightarrow> cbor_item d (CborText s) b"
proof -
  assume t: "cbor_text s = Some b" and d: "d \<le> 64"
  then obtain raw where u: "utf8_encode s = Some raw" by (auto simp: cbor_text_def split: option.splits)
  have "\<exists>h. b = h @ raw \<and> cbor_head 3 (length raw) h"
    using t by (auto simp: cbor_text_def u Let_def cbor_head_def byte_def split: if_splits)
  then show ?thesis using cbor_item.str [OF d _ u [unfolded utf8_encode_Some_iff]] by blast
qed

text \<open>The structure a COSE signature is over reads back as the four items it was written from.\<close>

lemma sig_structure_decodes:
  assumes "cbor_sig_structure protected payload = Some b"
  shows "cbor_decode b = Inr (CborList [CborText (lit ''Signature1''), CborBytes protected, CborBytes [], CborBytes payload])"
proof -
  obtain t h k where s: "cbor_text (lit ''Signature1'') = Some t" "cbor_bstr_header (length protected) = Some h"
      "cbor_bstr_header (length payload) = Some k" "b = [0x84] @ t @ (h @ protected) @ [0x40] @ (k @ payload)"
    using assms by (auto simp: cbor_sig_structure_def split: option.splits)
  have "cbor_item 1 (CborBytes []) ([0x40] @ [])"
    by (rule cbor_item.bytes) (simp_all add: cbor_head_def byte_def)
  then have "list_all2 (cbor_item (Suc 0)) [CborText (lit ''Signature1''), CborBytes protected, CborBytes [], CborBytes payload]
      [t, h @ protected, [0x40], k @ payload]"
    using cbor_text_item [OF s(1), of 1] cbor_item.bytes [OF _ bstr_header_head [OF s(2)], of 1] cbor_item.bytes [OF _ bstr_header_head [OF s(3)], of 1]
    by simp
  then have "cbor_item 0 (CborList [CborText (lit ''Signature1''), CborBytes protected, CborBytes [], CborBytes payload])
      ([0x84] @ concat [t, h @ protected, [0x40], k @ payload])"
    by (intro cbor_item.list) (simp_all add: cbor_head_def byte_def)
  then show ?thesis using s(4) by (simp add: cbor_decode_iff)
qed

lemma sig_structure_fits:
  assumes "length protected < 256 ^ 4" "length payload < 256 ^ 4"
  obtains b where "cbor_sig_structure protected payload = Some b"
proof -
  have "\<exists>h. cbor_bstr_header n = Some h" if "n < 256 ^ 4" for n using that by (simp add: cbor_bstr_header_def)
  then obtain h k where "cbor_bstr_header (length protected) = Some h" "cbor_bstr_header (length payload) = Some k" using assms by metis
  moreover have "utf8_encode (lit ''Signature1'') = Some (map byte (lit ''Signature1''))"
    by (rule utf8_encode_ascii) (simp add: ascii_def lit_def)
  then have "cbor_text (lit ''Signature1'') = Some (byte 0x6A # map byte (lit ''Signature1''))" by (simp add: cbor_text_def Let_def)
  ultimately show ?thesis using that by (simp add: cbor_sig_structure_def)
qed

lemma sig_structure_inj:
  assumes "cbor_sig_structure p q = Some b" "cbor_sig_structure p' q' = Some b"
  shows "p = p' \<and> q = q'"
  using sig_structure_decodes [OF assms(1)] sig_structure_decodes [OF assms(2)] by simp

section \<open>Every value of the subset has an encoding\<close>

definition write_head :: "nat \<Rightarrow> nat \<Rightarrow> bytes" where
  "write_head m n =
     (if n < 24 then [byte (32 * m + n)] else if n < 256 then byte (32 * m + 24) # be_encode 1 n
      else if n < 65536 then byte (32 * m + 25) # be_encode 2 n else if n < 256 ^ 4 then byte (32 * m + 26) # be_encode 4 n
      else byte (32 * m + 27) # be_encode 8 n)"

fun cbor_write :: "cbor \<Rightarrow> bytes" where
  "cbor_write (CborInt n) = (if 0 \<le> n then write_head 0 (nat n) else write_head 1 (nat (-1 - n)))"
| "cbor_write (CborBytes b) = write_head 2 (length b) @ b"
| "cbor_write (CborText s) = write_head 3 (length (utf8_raw s)) @ utf8_raw s"
| "cbor_write (CborList xs) = write_head 4 (length xs) @ concat (map cbor_write xs)"
| "cbor_write (CborMap kvs) = write_head 5 (length kvs) @ concat (map (\<lambda>kv. cbor_write (fst kv) @ cbor_write (snd kv)) kvs)"
| "cbor_write (CborTagged b r) = r"
| "cbor_write (CborBool b) = [if b then 0xF5 else 0xF4]"
| "cbor_write CborNull = [0xF6]"

fun cbor_ok :: "nat \<Rightarrow> cbor \<Rightarrow> bool" where
  "cbor_ok d (CborInt n) \<longleftrightarrow> d \<le> 64 \<and> (if 0 \<le> n then nat n < 256 ^ 8 else nat (-1 - n) < 256 ^ 8)"
| "cbor_ok d (CborBytes b) \<longleftrightarrow> d \<le> 64 \<and> length b < 256 ^ 8"
| "cbor_ok d (CborText s) \<longleftrightarrow> d \<le> 64 \<and> list_all scalar s \<and> length (utf8_raw s) < 256 ^ 8"
| "cbor_ok d (CborList xs) \<longleftrightarrow> d \<le> 64 \<and> length xs < 256 ^ 8 \<and> (\<forall>x \<in> set xs. cbor_ok (Suc d) x)"
| "cbor_ok d (CborMap kvs) \<longleftrightarrow> d \<le> 64 \<and> length kvs < 256 ^ 8 \<and> distinct_keys kvs \<and>
     (\<forall>kv \<in> set kvs. cbor_ok (Suc d) (fst kv) \<and> cbor_ok (Suc d) (snd kv))"
| "cbor_ok d (CborTagged b r) \<longleftrightarrow> d < 64 \<and> length b < 256 ^ 8 \<and> r = write_head 6 24 @ write_head 2 (length b) @ b"
| "cbor_ok d (CborBool b) \<longleftrightarrow> d \<le> 64"
| "cbor_ok d CborNull \<longleftrightarrow> d \<le> 64"

lemma write_head: "m < 8 \<Longrightarrow> n < 256 ^ 8 \<Longrightarrow> cbor_head m n (write_head m n)"
  by (simp add: cbor_head_def write_head_def)

lemma cbor_write_item: "cbor_ok d v \<Longrightarrow> cbor_item d v (cbor_write v)"
proof (induction d v rule: cbor_ok.induct)
  case (1 d n)
  then show ?case
    using cbor_item.pos [OF _ write_head, of d "nat n"] cbor_item.neg [OF _ write_head, of d "nat (-1 - n)"] by (auto split: if_splits)
next
  case (2 d b)
  then show ?case by (auto intro!: cbor_item.bytes write_head)
next
  case (3 d s)
  then show ?case by (auto intro!: cbor_item.str write_head utf8_decode_raw)
next
  case (4 d xs)
  have "list_all2 (cbor_item (Suc d)) xs (map cbor_write xs)" using 4 by (simp add: list_all2_conv_all_nth)
  then show ?case using "4.prems" by (auto intro!: cbor_item.list write_head)
next
  case (5 d kvs)
  have c: "concat (map (\<lambda>kv. cbor_write (fst kv) @ cbor_write (snd kv)) kvs) =
      concat (map2 (@) (map (cbor_write \<circ> fst) kvs) (map (cbor_write \<circ> snd) kvs))"
    by (induction kvs) simp_all
  have "list_all2 (\<lambda>kv b. cbor_item (Suc d) (fst kv) b) kvs (map (cbor_write \<circ> fst) kvs)"
      "list_all2 (\<lambda>kv b. cbor_item (Suc d) (snd kv) b) kvs (map (cbor_write \<circ> snd) kvs)"
    using 5 by (simp_all add: list_all2_conv_all_nth)
  then show ?case using "5.prems" unfolding cbor_write.simps c by (intro cbor_item.map write_head) simp_all
next
  case (6 d b r)
  then show ?case using cbor_item.tag [OF _ write_head cbor_item.bytes [OF _ write_head]] by (simp del: power_Suc)
next
  case (7 d b)
  then show ?case by (cases b) (auto intro: cbor_item.false cbor_item.true)
next
  case (8 d)
  then show ?case by (auto intro: cbor_item.null)
qed

text \<open>
  An argument of one byte cut off raises \<open>IndexError\<close>; one of two bytes is read short, and the document is then
  refused for minus one trailing bytes.
\<close>

lemma cut_off_arguments: "cbor_decode [0x18] = Inl HeaderPastEnd" "cbor_decode [0x19, 1] = Inl (TrailingBytes (-1))"
  by (simp_all add: cbor_decode_def cbor_load.simps cbor_argument_def slice_def CBOR_MAX_DEPTH_def)

lemma cbor_round_trip: "cbor_ok 0 v \<Longrightarrow> cbor_decode (cbor_write v) = Inr v"
  by (simp add: cbor_decode_iff cbor_write_item)

section \<open>The parts of an item\<close>

lemma map_parts: "cbor_item d (CborMap kvs) b \<Longrightarrow> (k, v) \<in> set kvs \<Longrightarrow> \<exists>c. cbor_item (Suc d) v c"
  by (erule cbor_item.cases) (auto simp: list_all2_conv_all_nth in_set_conv_nth, metis snd_conv)

lemma list_parts: "cbor_item d (CborList xs) b \<Longrightarrow> x \<in> set xs \<Longrightarrow> \<exists>c. cbor_item (Suc d) x c"
  by (erule cbor_item.cases) (auto simp: list_all2_conv_all_nth in_set_conv_nth)

lemma tagged_part: "cbor_item d (CborTagged i r) b \<Longrightarrow> b = r"
  by (erule cbor_item.cases) auto

lemma item_unique: "cbor_item d x b \<Longrightarrow> cbor_item d y b \<Longrightarrow> x = y"
  by (drule item_read, drule item_read) (auto simp: read_as_def)

text \<open>
  C26. The structure a COSE signature is computed over reads back as the four items it was written from,
  so a signature over it is a signature over the protected header and the payload, each whole.
\<close>

theorem sig_structure_reads_back:
  assumes "cbor_sig_structure protected payload = Some b"
  shows "cbor_decode b = Inr (CborList [CborText (lit ''Signature1''), CborBytes protected, CborBytes [], CborBytes payload])"
  by (rule sig_structure_decodes [OF assms])

lemma sig_structure_reads_back_witness:
  "\<exists>b. cbor_sig_structure [0xA1, 1, 0x38, 48] (replicate 300 7) = Some b \<and>
     cbor_decode b = Inr (CborList [CborText (lit ''Signature1''), CborBytes [0xA1, 1, 0x38, 48], CborBytes [], CborBytes (replicate 300 7)])"
proof -
  obtain b where b: "cbor_sig_structure [0xA1, 1, 0x38, 48] (replicate 300 7) = Some b"
    by (rule sig_structure_fits [of "[0xA1, 1, 0x38, 48]" "replicate 300 7"]) simp_all
  then show ?thesis using sig_structure_reads_back [OF b] by blast
qed

end
