(* ===== verification/Mdoc.thy ===== *)
theory Mdoc
  imports Cbor LogAudit "HOL-Library.AList"
begin

text \<open>
  The mdoc bridge (\<open>verify_mdoc\<close>, \<open>_cose_sign1_verdict\<close>): a CBOR document whose elements are committed to by
  digests in a Mobile Security Object, which the issuer signs as COSE_Sign1 under ML-DSA. SHA-256 and
  Python's \<open>str\<close> of bytes and containers are arguments.
\<close>

section \<open>Reading maps\<close>

definition cbor_get :: "(cbor \<times> cbor) list \<Rightarrow> cbor \<Rightarrow> cbor option" where
  "cbor_get d key = map_option snd (find (\<lambda>kv. key_eq key (fst kv)) d)"

text \<open>\<open>d.get("...")\<close>.\<close>

definition cbor_field :: "(cbor \<times> cbor) list \<Rightarrow> string \<Rightarrow> cbor" where
  "cbor_field d name = (case cbor_get d (CborText (lit name)) of None \<Rightarrow> CborNull | Some v \<Rightarrow> v)"

definition cbor_true :: "cbor \<Rightarrow> bool" where
  "cbor_true v =
     (case v of CborInt n \<Rightarrow> n \<noteq> 0 | CborBytes b \<Rightarrow> b \<noteq> [] | CborText s \<Rightarrow> s \<noteq> [] | CborList xs \<Rightarrow> xs \<noteq> [] | CborMap d \<Rightarrow> d \<noteq> []
      | CborTagged b r \<Rightarrow> True | CborBool b \<Rightarrow> b | CborNull \<Rightarrow> False)"

definition cbor_str :: "(cbor \<Rightarrow> ustr) \<Rightarrow> cbor \<Rightarrow> ustr" where
  "cbor_str shown v =
     (case v of CborText s \<Rightarrow> s | CborInt n \<Rightarrow> int_str n | CborBool b \<Rightarrow> lit (if b then ''True'' else ''False'') | CborNull \<Rightarrow> lit ''None''
      | _ \<Rightarrow> shown v)"

text \<open>A decoded text handed on to the shared readers; anything else is none of theirs.\<close>

definition text_value :: "cbor \<Rightarrow> pyval" where
  "text_value v = (case v of CborText s \<Rightarrow> PStr s | _ \<Rightarrow> PNone)"

section \<open>The COSE signature\<close>

definition COSE_ALGS :: "ustr \<Rightarrow> int option" where
  "COSE_ALGS alg = (if alg = lit ''ML-DSA-65'' then Some (-49) else if alg = lit ''ML-DSA-87'' then Some (-50) else None)"

datatype cose_note = HeaderUndecodable cbor_note | OtherCoseAlgorithm cbor | CoseNote vnote

text \<open>\<open>None\<close>: the structure is longer than its writer allows, which raises.\<close>

definition cose_sign1_verdict ::
    "env \<Rightarrow> bytes \<Rightarrow> bytes \<Rightarrow> bytes \<Rightarrow> bytes \<Rightarrow> ustr \<Rightarrow> (bool option \<times> (string \<times> bool) list \<times> cose_note option) option" where
  "cose_sign1_verdict E protected payload sg pk alg =
     (case cbor_decode protected of Inl e \<Rightarrow> Some (Some False, [], Some (HeaderUndecodable e))
      | Inr header \<Rightarrow>
          let cose_alg = (case header of CborMap d \<Rightarrow> (case cbor_get d (CborInt 1) of None \<Rightarrow> CborNull | Some v \<Rightarrow> v) | _ \<Rightarrow> CborNull)
          in if cose_alg = CborNull \<or> map_option CborInt (COSE_ALGS alg) \<noteq> Some cose_alg then
               Some (Some False, [], Some (OtherCoseAlgorithm cose_alg))
             else
               (case cbor_sig_structure protected payload of None \<Rightarrow> None
                | Some structure \<Rightarrow>
                    (case two_witness_verify E (Some structure) sg pk (PStr alg) of
                       (ok, tried, n) \<Rightarrow> Some (ok, tried, map_option CoseNote n))))"

section \<open>The verdict\<close>

definition MDOC_DOC_TYPE :: ustr where
  "MDOC_DOC_TYPE = lit ''id.polaris.credential.1''"

definition MDOC_NAMESPACE :: string where
  "MDOC_NAMESPACE = ''id.polaris.1''"

definition MDOC_FORBIDDEN :: "ustr list" where
  "MDOC_FORBIDDEN = map lit [''token_value'', ''token_id'', ''individual_id'', ''legal_name'', ''date_of_birth'', ''signature_hex'',
     ''public_key_hex'']"

datatype mdoc_input = DocumentBytes bytes | DocumentText ustr | DocumentOther

datatype mdoc_note =
    NeitherBytesNorHex | DocumentNotBytes | DocumentUndecodable cbor_note | NotPolarisDocument | NoIssuerSigned | NotCoseSign1
  | HeaderOrPayloadNotBytes | MsoUndecodable "cbor_note option" | OtherMsoDocType | OtherDigestAlgorithm cbor | NamespaceMalformed
  | CarriesForbidden ustr | ElementUndecodable | DigestMismatch | WindowUnreadable | CoseSignatureNotBytes | CoseUnusable
  | CoseAlgorithmUnknown cbor | CoseRefused "cose_note option"

text \<open>\<open>doc_type\<close> and \<open>reader_interop\<close> are constants set with \<open>structure_valid\<close> and left out.\<close>

record mdoc_verdict =
  md_structure_valid :: bool
  md_digests_match :: "bool option"
  md_authentic :: bool
  md_elements :: "(ustr \<times> cbor) list option"
  md_fresh :: "bool option"
  md_trusted :: "bool option"
  md_witnesses :: "(string \<times> bool) list"
  md_note :: "mdoc_note option"

definition blank_mdoc :: mdoc_verdict where
  "blank_mdoc = \<lparr>md_structure_valid = False, md_digests_match = None, md_authentic = False, md_elements = None, md_fresh = None,
     md_trusted = None, md_witnesses = [], md_note = None\<rparr>"

section \<open>The parts\<close>

text \<open>The Mobile Security Object, out of its tag-24 wrapper.\<close>

definition mdoc_mso :: "bytes \<Rightarrow> mdoc_note + (cbor \<times> cbor) list" where
  "mdoc_mso payload =
     (case cbor_decode payload of Inl e \<Rightarrow> Inl (MsoUndecodable (Some e))
      | Inr tagged \<Rightarrow>
          (case tagged of CborTagged inner raw \<Rightarrow>
             (case cbor_decode inner of Inl e \<Rightarrow> Inl (MsoUndecodable (Some e))
              | Inr mso \<Rightarrow>
                  (case mso of CborMap d \<Rightarrow>
                     if cbor_field d ''docType'' \<noteq> CborText MDOC_DOC_TYPE then Inl OtherMsoDocType
                     else if cbor_field d ''digestAlgorithm'' \<noteq> CborText (lit ''SHA-256'') then
                       Inl (OtherDigestAlgorithm (cbor_field d ''digestAlgorithm''))
                     else Inr d
                   | _ \<Rightarrow> Inl OtherMsoDocType))
           | _ \<Rightarrow> Inl (MsoUndecodable None)))"

text \<open>
  One disclosed element: whether its digest over the bytes received is the committed one, its name and
  its value; \<open>None\<close> for every exception the loop catches (no tag, no map, no \<open>digestID\<close>, an unhashable one).
\<close>

definition mdoc_element :: "(bytes \<Rightarrow> bytes) \<Rightarrow> (cbor \<Rightarrow> ustr) \<Rightarrow> (cbor \<times> cbor) list \<Rightarrow> cbor \<Rightarrow> (bool \<times> ustr \<times> cbor) option" where
  "mdoc_element sha256 shown committed tagged_item =
     (case tagged_item of CborTagged inner raw \<Rightarrow>
        (case cbor_decode inner of Inr (CborMap item) \<Rightarrow>
           (case cbor_get item (CborText (lit ''digestID'')) of None \<Rightarrow> None
            | Some did \<Rightarrow>
                (case did of CborList xs \<Rightarrow> None | CborMap d \<Rightarrow> None
                 | _ \<Rightarrow> Some (cbor_get committed did = Some (CborBytes (sha256 raw)), cbor_str shown (cbor_field item ''elementIdentifier''),
                     cbor_field item ''elementValue'')))
         | _ \<Rightarrow> None)
      | _ \<Rightarrow> None)"

fun mdoc_elements ::
    "(bytes \<Rightarrow> bytes) \<Rightarrow> (cbor \<Rightarrow> ustr) \<Rightarrow> (cbor \<times> cbor) list \<Rightarrow> cbor list \<Rightarrow> bool \<Rightarrow> (ustr \<times> cbor) list \<Rightarrow>
     mdoc_note + bool \<times> (ustr \<times> cbor) list" where
  "mdoc_elements sha256 shown committed [] ok elems = Inr (ok, elems)"
| "mdoc_elements sha256 shown committed (x # xs) ok elems =
     (case mdoc_element sha256 shown committed x of None \<Rightarrow> Inl ElementUndecodable
      | Some (matches, name, val) \<Rightarrow>
          if name \<in> set MDOC_FORBIDDEN then Inl (CarriesForbidden name)
          else mdoc_elements sha256 shown committed xs (ok \<and> matches) (AList.update name val elems))"

text \<open>The validity window: \<open>None\<close> for one that cannot be read.\<close>

definition cbor_instant :: "(cbor \<times> cbor) list \<Rightarrow> string \<Rightarrow> int option" where
  "cbor_instant d name = (case cbor_get d (CborText (lit name)) of Some (CborText s) \<Rightarrow> strict_instant s | _ \<Rightarrow> None)"

definition mdoc_fresh :: "env \<Rightarrow> (cbor \<times> cbor) list \<Rightarrow> now_arg \<Rightarrow> bool option" where
  "mdoc_fresh E mso now =
     (case cbor_field mso ''validityInfo'' of CborMap d \<Rightarrow>
        (case (instant (clock E) now, cbor_instant d ''validFrom'', cbor_instant d ''validUntil'') of
           (Some t, Some vf, Some vu) \<Rightarrow> Some (vf \<le> t \<and> t < vu) | _ \<Rightarrow> None)
      | _ \<Rightarrow> None)"

text \<open>The issuer's signature, once the digests match.\<close>

definition mdoc_signature ::
    "env \<Rightarrow> (cbor \<Rightarrow> ustr) \<Rightarrow> bytes \<Rightarrow> cbor \<Rightarrow> bytes \<Rightarrow> cbor \<Rightarrow> pyval list option \<Rightarrow> mdoc_verdict \<Rightarrow> mdoc_verdict option" where
  "mdoc_signature E shown protected unprotected payload signature anchors v =
     (case signature of CborBytes sg \<Rightarrow>
        (let header = (\<lambda>name. case unprotected of CborMap d \<Rightarrow> cbor_field d name | _ \<Rightarrow> CborNull);
             key_hex = header ''polaris_public_key_hex''; alg = header ''polaris_algorithm''
         in case unhex (PStr (if cbor_true key_hex then cbor_str shown key_hex else [])) of
              None \<Rightarrow> Some (v\<lparr>md_note := Some CoseUnusable\<rparr>)
            | Some pk \<Rightarrow>
                if \<not> accepted_alg (text_value alg) then Some (v\<lparr>md_note := Some (CoseAlgorithmUnknown alg)\<rparr>)
                else
                  (case cose_sign1_verdict E protected payload sg pk (cbor_str shown alg) of None \<Rightarrow> None
                   | Some (ok, tried, n) \<Rightarrow>
                       if ok = None then Some (v\<lparr>md_witnesses := tried, md_note := Some (CoseRefused n)\<rparr>)
                       else if ok = Some False then Some (v\<lparr>md_witnesses := tried, md_note := Some (CoseRefused n)\<rparr>)
                       else Some (v\<lparr>md_witnesses := tried, md_authentic := True,
                         md_trusted := map_option (\<lambda>ks. hex_in (text_value key_hex) (map hex_text ks)) anchors\<rparr>)))
      | _ \<Rightarrow> Some (v\<lparr>md_note := Some CoseSignatureNotBytes\<rparr>))"

text \<open>The digests and what follows, once the MSO is read.\<close>

definition mdoc_checked ::
    "env \<Rightarrow> (bytes \<Rightarrow> bytes) \<Rightarrow> (cbor \<Rightarrow> ustr) \<Rightarrow> (cbor \<times> cbor) list \<Rightarrow> (cbor \<times> cbor) list \<Rightarrow> bytes \<Rightarrow> cbor \<Rightarrow> bytes \<Rightarrow> cbor \<Rightarrow>
     pyval list option \<Rightarrow> now_arg \<Rightarrow> mdoc_verdict \<Rightarrow> mdoc_verdict option" where
  "mdoc_checked E sha256 shown issuer_signed mso protected unprotected payload signature anchors now v =
     (case (case cbor_field issuer_signed ''nameSpaces'' of CborMap d \<Rightarrow> cbor_field d MDOC_NAMESPACE | _ \<Rightarrow> CborNull,
            case cbor_field mso ''valueDigests'' of CborMap d \<Rightarrow> cbor_field d MDOC_NAMESPACE | _ \<Rightarrow> CborNull) of
        (CborList items, CborMap committed) \<Rightarrow>
          (case mdoc_elements sha256 shown committed items True [] of
             Inl why \<Rightarrow> Some (v\<lparr>md_note := Some why, md_digests_match := Some False\<rparr>)
           | Inr (ok, elems) \<Rightarrow>
               let v1 = v\<lparr>md_digests_match := Some ok, md_elements := Some elems\<rparr>
               in if \<not> ok then Some (v1\<lparr>md_note := Some DigestMismatch\<rparr>)
                  else
                    let v2 = (case mdoc_fresh E mso now of None \<Rightarrow> v1\<lparr>md_fresh := Some False, md_note := Some WindowUnreadable\<rparr>
                              | Some b \<Rightarrow> v1\<lparr>md_fresh := Some b\<rparr>)
                    in mdoc_signature E shown protected unprotected payload signature anchors v2)
      | _ \<Rightarrow> Some (v\<lparr>md_note := Some NamespaceMalformed\<rparr>))"

definition verify_mdoc ::
    "env \<Rightarrow> (bytes \<Rightarrow> bytes) \<Rightarrow> (cbor \<Rightarrow> ustr) \<Rightarrow> mdoc_input \<Rightarrow> pyval list option \<Rightarrow> now_arg \<Rightarrow> mdoc_verdict option" where
  "verify_mdoc E sha256 shown document anchors now =
     (let v = blank_mdoc
      in case (case document of DocumentBytes b \<Rightarrow> Inr b
               | DocumentText s \<Rightarrow> (case unhex (PStr s) of None \<Rightarrow> Inl NeitherBytesNorHex | Some b \<Rightarrow> Inr b)
               | DocumentOther \<Rightarrow> Inl DocumentNotBytes) of
           Inl why \<Rightarrow> Some (v\<lparr>md_note := Some why\<rparr>)
         | Inr buf \<Rightarrow>
             (case cbor_decode buf of Inl e \<Rightarrow> Some (v\<lparr>md_note := Some (DocumentUndecodable e)\<rparr>)
              | Inr doc \<Rightarrow>
                  let fields = (case doc of CborMap d \<Rightarrow> d | _ \<Rightarrow> [])
                  in if cbor_field fields ''docType'' \<noteq> CborText MDOC_DOC_TYPE then Some (v\<lparr>md_note := Some NotPolarisDocument\<rparr>)
                     else
                       (case cbor_field fields ''issuerSigned'' of CborMap issuer_signed \<Rightarrow>
                          let v1 = v\<lparr>md_structure_valid := True\<rparr>
                          in (case cbor_field issuer_signed ''issuerAuth'' of
                                CborList [protected, unprotected, payload, signature] \<Rightarrow>
                                  (case (protected, payload) of
                                     (CborBytes p, CborBytes q) \<Rightarrow>
                                       (case mdoc_mso q of Inl why \<Rightarrow> Some (v1\<lparr>md_note := Some why\<rparr>)
                                        | Inr mso \<Rightarrow>
                                            mdoc_checked E sha256 shown issuer_signed mso p unprotected q signature anchors now v1)
                                   | _ \<Rightarrow> Some (v1\<lparr>md_note := Some HeaderOrPayloadNotBytes\<rparr>))
                              | _ \<Rightarrow> Some (v1\<lparr>md_note := Some NotCoseSign1\<rparr>))
                        | _ \<Rightarrow> Some (v\<lparr>md_note := Some NoIssuerSigned\<rparr>))))"

section \<open>What an authentic document is\<close>

definition mdoc_carries :: "bytes \<Rightarrow> (cbor \<times> cbor) list \<Rightarrow> bytes \<Rightarrow> cbor \<Rightarrow> bytes \<Rightarrow> cbor \<Rightarrow> bool" where
  "mdoc_carries buf issuer_signed p unprotected q signature \<longleftrightarrow>
     (\<exists>d. cbor_decode buf = Inr (CborMap d) \<and> cbor_field d ''docType'' = CborText MDOC_DOC_TYPE \<and>
        cbor_field d ''issuerSigned'' = CborMap issuer_signed \<and>
        cbor_field issuer_signed ''issuerAuth'' = CborList [CborBytes p, unprotected, CborBytes q, signature])"

definition mdoc_discloses :: "(cbor \<times> cbor) list \<Rightarrow> cbor list \<Rightarrow> bool" where
  "mdoc_discloses issuer_signed items \<longleftrightarrow>
     (\<exists>d. cbor_field issuer_signed ''nameSpaces'' = CborMap d \<and> cbor_field d MDOC_NAMESPACE = CborList items)"

definition mdoc_commits :: "(cbor \<times> cbor) list \<Rightarrow> (cbor \<times> cbor) list \<Rightarrow> bool" where
  "mdoc_commits mso committed \<longleftrightarrow>
     (\<exists>d. cbor_field mso ''valueDigests'' = CborMap d \<and> cbor_field d MDOC_NAMESPACE = CborMap committed)"

text \<open>Every element disclosed is committed to, as received, and none is one the presentation layer bounds.\<close>

definition mdoc_committed :: "(bytes \<Rightarrow> bytes) \<Rightarrow> (cbor \<Rightarrow> ustr) \<Rightarrow> (cbor \<times> cbor) list \<Rightarrow> cbor list \<Rightarrow> bool" where
  "mdoc_committed sha256 shown committed items \<longleftrightarrow>
     (\<forall>x \<in> set items. \<exists>name val. mdoc_element sha256 shown committed x = Some (True, name, val) \<and> name \<notin> set MDOC_FORBIDDEN)"

text \<open>The signature, under the algorithm the protected header names, over the structure of header and payload.\<close>

definition mdoc_signed :: "env \<Rightarrow> (cbor \<Rightarrow> ustr) \<Rightarrow> bytes \<Rightarrow> cbor \<Rightarrow> bytes \<Rightarrow> cbor \<Rightarrow> bool" where
  "mdoc_signed E shown p unprotected q signature \<longleftrightarrow>
     (\<exists>u key alg n header sg pk structure. unprotected = CborMap u \<and> signature = CborBytes sg \<and> cbor_field u ''polaris_algorithm'' = CborText alg \<and>
        key = cbor_field u ''polaris_public_key_hex'' \<and> unhex (PStr (if cbor_true key then cbor_str shown key else [])) = Some pk \<and>
        accepted_alg (PStr alg) \<and> cbor_decode p = Inr (CborMap header) \<and> cbor_get header (CborInt 1) = Some (CborInt n) \<and>
        COSE_ALGS alg = Some n \<and> cbor_sig_structure p q = Some structure \<and>
        fst (two_witness_verify E (Some structure) sg pk (PStr alg)) = Some True)"

definition mdoc_issued :: "env \<Rightarrow> (bytes \<Rightarrow> bytes) \<Rightarrow> (cbor \<Rightarrow> ustr) \<Rightarrow> bytes \<Rightarrow> bool" where
  "mdoc_issued E sha256 shown buf \<longleftrightarrow>
     (\<exists>issuer_signed p unprotected q signature mso items committed.
        mdoc_carries buf issuer_signed p unprotected q signature \<and> mdoc_mso q = Inr mso \<and> mdoc_discloses issuer_signed items \<and>
        mdoc_commits mso committed \<and> mdoc_committed sha256 shown committed items \<and> mdoc_signed E shown p unprotected q signature)"

lemma mdoc_elements_iff:
  "(\<exists>elems. mdoc_elements sha256 shown committed items ok elems0 = Inr (True, elems)) \<longleftrightarrow>
     ok \<and> mdoc_committed sha256 shown committed items"
  by (induction sha256 shown committed items ok elems0 rule: mdoc_elements.induct)
    (auto simp: mdoc_committed_def split: option.splits)

lemma cose_signed_iff:
  "map_option fst (cose_sign1_verdict E p q sg pk alg) = Some (Some True) \<longleftrightarrow>
     (\<exists>header n structure. cbor_decode p = Inr (CborMap header) \<and> cbor_get header (CborInt 1) = Some (CborInt n) \<and> COSE_ALGS alg = Some n \<and>
        cbor_sig_structure p q = Some structure \<and> fst (two_witness_verify E (Some structure) sg pk (PStr alg)) = Some True)"
  by (auto simp: cose_sign1_verdict_def Let_def split: sum.splits option.splits prod.splits cbor.splits if_splits)

lemma mdoc_signature_iff:
  assumes "\<not> md_authentic v"
  shows "map_option md_authentic (mdoc_signature E shown p unprotected q signature anchors v) = Some True \<longleftrightarrow>
    mdoc_signed E shown p unprotected q signature"
proof (cases "\<exists>u sg alg. unprotected = CborMap u \<and> signature = CborBytes sg \<and> cbor_field u ''polaris_algorithm'' = CborText alg")
  case True
  then obtain u sg alg where t: "unprotected = CborMap u" "signature = CborBytes sg" "cbor_field u ''polaris_algorithm'' = CborText alg" by blast
  define key where "key = cbor_field u ''polaris_public_key_hex''"
  show ?thesis
  proof (cases "unhex (PStr (if cbor_true key then cbor_str shown key else []))")
    case None
    then show ?thesis
      using assms unfolding mdoc_signature_def mdoc_signed_def Let_def t cbor.case by (auto simp: key_def)
  next
    case (Some pk)
    have "mdoc_signature E shown p unprotected q signature anchors v =
       (if \<not> accepted_alg (PStr alg) then Some (v\<lparr>md_note := Some (CoseAlgorithmUnknown (CborText alg))\<rparr>)
        else
          (case cose_sign1_verdict E p q sg pk alg of None \<Rightarrow> None
           | Some (ok, tried, n) \<Rightarrow>
               if ok = None then Some (v\<lparr>md_witnesses := tried, md_note := Some (CoseRefused n)\<rparr>)
               else if ok = Some False then Some (v\<lparr>md_witnesses := tried, md_note := Some (CoseRefused n)\<rparr>)
               else Some (v\<lparr>md_witnesses := tried, md_authentic := True,
                 md_trusted := map_option (\<lambda>ks. hex_in (text_value key) (map hex_text ks)) anchors\<rparr>)))"
      unfolding mdoc_signature_def Let_def t cbor.case text_value_def cbor_str_def key_def [symmetric]
        Some [unfolded cbor_str_def] option.case by (rule refl)
    then have "map_option md_authentic (mdoc_signature E shown p unprotected q signature anchors v) = Some True \<longleftrightarrow>
        accepted_alg (PStr alg) \<and> map_option fst (cose_sign1_verdict E p q sg pk alg) = Some (Some True)"
      using assms by (cases "cose_sign1_verdict E p q sg pk alg") (auto split: if_splits)
    then show ?thesis
      unfolding cose_signed_iff mdoc_signed_def t using Some t(3) by (auto simp: key_def)
  qed
next
  case False
  then have "\<not> mdoc_signed E shown p unprotected q signature" by (auto simp: mdoc_signed_def)
  moreover have "\<not> accepted_alg PNone" using accepted_algD(1) [of PNone] by (auto simp: py_true_def)
  then have "map_option md_authentic (mdoc_signature E shown p unprotected q signature anchors v) \<noteq> Some True"
    using assms False
    by (cases signature; cases unprotected)
      (auto simp: mdoc_signature_def Let_def text_value_def split: option.splits cbor.splits)
  ultimately show ?thesis by simp
qed

lemma mdoc_checked_iff:
  assumes "\<not> md_authentic v"
  shows "map_option md_authentic (mdoc_checked E sha256 shown S mso p unprotected q signature anchors now v) = Some True \<longleftrightarrow>
    (\<exists>items committed. mdoc_discloses S items \<and> mdoc_commits mso committed \<and> mdoc_committed sha256 shown committed items) \<and>
    mdoc_signed E shown p unprotected q signature"
proof (cases "\<exists>items committed. mdoc_discloses S items \<and> mdoc_commits mso committed")
  case True
  then obtain items committed d e where t: "cbor_field S ''nameSpaces'' = CborMap d" "cbor_field d MDOC_NAMESPACE = CborList items"
      "cbor_field mso ''valueDigests'' = CborMap e" "cbor_field e MDOC_NAMESPACE = CborMap committed"
    by (auto simp: mdoc_discloses_def mdoc_commits_def)
  have only: "(\<exists>i c. mdoc_discloses S i \<and> mdoc_commits mso c \<and> mdoc_committed sha256 shown c i) \<longleftrightarrow>
      mdoc_committed sha256 shown committed items"
    using t by (auto simp: mdoc_discloses_def mdoc_commits_def)
  note red = mdoc_checked_def t cbor.case prod.case Let_def
  show ?thesis
  proof (cases "\<exists>elems. mdoc_elements sha256 shown committed items True [] = Inr (True, elems)")
    case True
    then obtain elems where m: "mdoc_elements sha256 shown committed items True [] = Inr (True, elems)" by blast
    then have c: "mdoc_committed sha256 shown committed items"
      using mdoc_elements_iff [of sha256 shown committed items True "[]"] by blast
    have "map_option md_authentic (mdoc_checked E sha256 shown S mso p unprotected q signature anchors now v) = Some True \<longleftrightarrow>
        mdoc_signed E shown p unprotected q signature"
      unfolding red m sum.case not_True_eq_False if_False
      by (rule mdoc_signature_iff) (simp add: assms split: option.split)
    then show ?thesis unfolding only using c by simp
  next
    case False
    then have "map_option md_authentic (mdoc_checked E sha256 shown S mso p unprotected q signature anchors now v) \<noteq> Some True"
      unfolding red using assms by (auto split: sum.splits)
    moreover have "\<not> mdoc_committed sha256 shown committed items"
      using False mdoc_elements_iff [of sha256 shown committed items True "[]"] by blast
    ultimately show ?thesis unfolding only by simp
  qed
next
  case False
  then have "map_option md_authentic (mdoc_checked E sha256 shown S mso p unprotected q signature anchors now v) \<noteq> Some True"
  proof -
    define A where "A = (case cbor_field S ''nameSpaces'' of CborMap d \<Rightarrow> cbor_field d MDOC_NAMESPACE | _ \<Rightarrow> CborNull)"
    define B where "B = (case cbor_field mso ''valueDigests'' of CborMap d \<Rightarrow> cbor_field d MDOC_NAMESPACE | _ \<Rightarrow> CborNull)"
    have "\<exists>items. mdoc_discloses S items" if "A = CborList xs" for xs
      using that unfolding A_def mdoc_discloses_def by (cases "cbor_field S ''nameSpaces''") auto
    moreover have "\<exists>committed. mdoc_commits mso committed" if "B = CborMap e" for e
      using that unfolding B_def mdoc_commits_def by (cases "cbor_field mso ''valueDigests''") auto
    ultimately have "(\<forall>xs. A \<noteq> CborList xs) \<or> (\<forall>e. B \<noteq> CborMap e)" using False by blast
    then show ?thesis
      unfolding mdoc_checked_def A_def [symmetric] B_def [symmetric] using assms by (cases A; cases B) simp_all
  qed
  then show ?thesis using False by blast
qed

lemma mdoc_authentic_iff:
  "map_option md_authentic (verify_mdoc E sha256 shown (DocumentBytes buf) anchors now) = Some True \<longleftrightarrow> mdoc_issued E sha256 shown buf"
proof (cases "\<exists>S p unprotected q signature mso. mdoc_carries buf S p unprotected q signature \<and> mdoc_mso q = Inr mso")
  case True
  then obtain S p unprotected q signature mso where c: "mdoc_carries buf S p unprotected q signature" and m: "mdoc_mso q = Inr mso" by blast
  then obtain d where d: "cbor_decode buf = Inr (CborMap d)" "cbor_field d ''docType'' = CborText MDOC_DOC_TYPE"
      "cbor_field d ''issuerSigned'' = CborMap S" "cbor_field S ''issuerAuth'' = CborList [CborBytes p, unprotected, CborBytes q, signature]"
    by (auto simp: mdoc_carries_def)
  have v: "verify_mdoc E sha256 shown (DocumentBytes buf) anchors now =
      mdoc_checked E sha256 shown S mso p unprotected q signature anchors now (blank_mdoc\<lparr>md_structure_valid := True\<rparr>)"
    by (simp add: verify_mdoc_def Let_def d m)
  have only: "mdoc_carries buf S' p' u' q' s' \<longleftrightarrow> S' = S \<and> p' = p \<and> u' = unprotected \<and> q' = q \<and> s' = signature" for S' p' u' q' s'
    using d by (auto simp: mdoc_carries_def)
  have "map_option md_authentic (verify_mdoc E sha256 shown (DocumentBytes buf) anchors now) = Some True \<longleftrightarrow>
    (\<exists>items committed. mdoc_discloses S items \<and> mdoc_commits mso committed \<and> mdoc_committed sha256 shown committed items) \<and>
    mdoc_signed E shown p unprotected q signature"
    unfolding v by (rule mdoc_checked_iff) (simp add: blank_mdoc_def)
  then show ?thesis unfolding mdoc_issued_def only using m by (metis sum.inject(2))
next
  case False
  then have "\<not> mdoc_issued E sha256 shown buf" unfolding mdoc_issued_def by blast
  moreover have "map_option md_authentic (verify_mdoc E sha256 shown (DocumentBytes buf) anchors now) \<noteq> Some True"
  proof (cases "\<exists>d S. cbor_decode buf = Inr (CborMap d) \<and> cbor_field d ''docType'' = CborText MDOC_DOC_TYPE \<and> cbor_field d ''issuerSigned'' = CborMap S")
    case True
    then obtain d S where d: "cbor_decode buf = Inr (CborMap d)" "cbor_field d ''docType'' = CborText MDOC_DOC_TYPE" "cbor_field d ''issuerSigned'' = CborMap S"
      by blast
    show ?thesis
    proof (cases "\<exists>p u q s. cbor_field S ''issuerAuth'' = CborList [CborBytes p, u, CborBytes q, s]")
      case True
      then obtain p u q s where a: "cbor_field S ''issuerAuth'' = CborList [CborBytes p, u, CborBytes q, s]" by blast
      then have "mdoc_carries buf S p u q s" using d by (auto simp: mdoc_carries_def)
      then obtain why where "mdoc_mso q = Inl why" using False by (cases "mdoc_mso q") blast+
      then show ?thesis by (simp add: verify_mdoc_def Let_def d a blank_mdoc_def)
    next
      case False
      then show ?thesis by (auto simp: verify_mdoc_def Let_def d blank_mdoc_def split: cbor.split list.split)
    qed
  next
    case False
    show ?thesis
    proof (cases "cbor_decode buf")
      case (Inr doc)
      then show ?thesis using False
        by (cases doc) (auto simp: verify_mdoc_def Let_def blank_mdoc_def cbor_field_def [of "[]"] cbor_get_def [of "[]"] split: cbor.split)
    qed (simp add: verify_mdoc_def Let_def blank_mdoc_def)
  qed
  ultimately show ?thesis by simp
qed

text \<open>
  C24. An mdoc is reported authentic exactly when it is one: a document of the Polaris type whose Mobile
  Security Object commits, by digests over the bytes received, to every element disclosed, none of them a
  value the presentation layer bounds, and whose COSE signature holds under the algorithm its protected
  header names, over the structure of that header and that object.
\<close>

theorem mdoc_authentic_exactly:
  "map_option md_authentic (verify_mdoc E sha256 shown (DocumentBytes buf) anchors now) = Some True \<longleftrightarrow> mdoc_issued E sha256 shown buf"
  by (rule mdoc_authentic_iff)

section \<open>A digest fixes its element\<close>

definition element_id :: "cbor \<Rightarrow> cbor option" where
  "element_id x =
     (case x of CborTagged inner raw \<Rightarrow> (case cbor_decode inner of Inr (CborMap m) \<Rightarrow> cbor_get m (CborText (lit ''digestID'')) | _ \<Rightarrow> None)
      | _ \<Rightarrow> None)"

definition received :: "cbor \<Rightarrow> bytes" where
  "received x = (case x of CborTagged inner raw \<Rightarrow> raw | _ \<Rightarrow> [])"

definition digest_collision :: "(bytes \<Rightarrow> bytes) \<Rightarrow> bytes \<Rightarrow> bytes \<Rightarrow> bool" where
  "digest_collision h a b \<longleftrightarrow> a \<noteq> b \<and> h a = h b"

lemma cbor_get_in: "cbor_get d k = Some v \<Longrightarrow> \<exists>k'. (k', v) \<in> set d"
proof -
  assume "cbor_get d k = Some v"
  then obtain kv where kv: "find (\<lambda>kv. key_eq k (fst kv)) d = Some kv" "snd kv = v" by (auto simp: cbor_get_def)
  then have "kv \<in> set d" by (auto simp: find_Some_iff)
  then show ?thesis using kv(2) by (metis prod.collapse)
qed

lemma field_part:
  assumes "cbor_item d (CborMap m) b" "cbor_field m name = v" "v \<noteq> CborNull"
  shows "\<exists>c. cbor_item (Suc d) v c"
proof -
  have "cbor_get m (CborText (lit name)) = Some v" using assms(2,3) by (auto simp: cbor_field_def split: option.splits)
  then obtain k where "(k, v) \<in> set m" using cbor_get_in by blast
  then show ?thesis by (rule map_parts [OF assms(1)])
qed

text \<open>A disclosed item stands in the document at depth 4, as the bytes received.\<close>

lemma disclosed_item:
  assumes "mdoc_carries buf S p u q s" "mdoc_discloses S items" "x \<in> set items"
  shows "\<exists>c. cbor_item 4 x c"
proof -
  obtain d where d: "cbor_decode buf = Inr (CborMap d)" "cbor_field d ''issuerSigned'' = CborMap S"
    using assms(1) by (auto simp: mdoc_carries_def)
  obtain n where n: "cbor_field S ''nameSpaces'' = CborMap n" "cbor_field n MDOC_NAMESPACE = CborList items"
    using assms(2) by (auto simp: mdoc_discloses_def)
  have "cbor_item 0 (CborMap d) buf" using d(1) by (simp add: cbor_decode_iff)
  then obtain b1 where "cbor_item (Suc 0) (CborMap S) b1" using field_part d(2) by blast
  then obtain b2 where "cbor_item (Suc (Suc 0)) (CborMap n) b2" using field_part n(1) by blast
  then obtain b3 where "cbor_item (Suc (Suc (Suc 0))) (CborList items) b3" using field_part n(2) by blast
  then obtain c where "cbor_item (Suc (Suc (Suc (Suc 0)))) x c" using list_parts assms(3) by blast
  then show ?thesis by (auto simp: numeral_eq_Suc)
qed

lemma committed_element:
  assumes "mdoc_committed sha256 shown committed items" "x \<in> set items" "element_id x = Some did"
  shows "cbor_get committed did = Some (CborBytes (sha256 (received x)))" "\<exists>inner. x = CborTagged inner (received x)"
proof -
  obtain name val where e: "mdoc_element sha256 shown committed x = Some (True, name, val)"
    using assms(1,2) by (auto simp: mdoc_committed_def)
  then obtain inner raw where x: "x = CborTagged inner raw" by (auto simp: mdoc_element_def split: cbor.splits)
  then obtain m where "cbor_decode inner = Inr (CborMap m)" "cbor_get m (CborText (lit ''digestID'')) = Some did"
    using assms(3) by (auto simp: element_id_def split: sum.splits cbor.splits)
  then show "cbor_get committed did = Some (CborBytes (sha256 (received x)))" "\<exists>inner. x = CborTagged inner (received x)"
    using e x by (auto simp: mdoc_element_def received_def split: cbor.splits)
qed

lemma issued_commits:
  assumes "mdoc_issued E sha256 shown buf" "mdoc_carries buf S p u q s" "mdoc_discloses S items"
  obtains mso committed where "mdoc_mso q = Inr mso" "mdoc_commits mso committed" "mdoc_committed sha256 shown committed items"
proof -
  obtain S' p' u' q' s' mso items' committed where i: "mdoc_carries buf S' p' u' q' s'" "mdoc_mso q' = Inr mso" "mdoc_discloses S' items'"
      "mdoc_commits mso committed" "mdoc_committed sha256 shown committed items'"
    using assms(1) by (auto simp: mdoc_issued_def)
  have "S' = S" "q' = q" using i(1) assms(2) by (auto simp: mdoc_carries_def)
  moreover from this have "items' = items" using i(3) assms(3) by (auto simp: mdoc_discloses_def)
  ultimately show ?thesis using that i by simp
qed

lemma digest_fixes:
  assumes "mdoc_issued E sha256 shown buf" "mdoc_carries buf S p u q s" "mdoc_discloses S items" "x \<in> set items" "element_id x = Some did"
    and "mdoc_issued E sha256 shown buf'" "mdoc_carries buf' S' p' u' q s'" "mdoc_discloses S' items'" "y \<in> set items'"
      "element_id y = Some did"
  shows "x = y \<or> digest_collision sha256 (received x) (received y)"
proof -
  obtain mso com where a: "mdoc_mso q = Inr mso" "mdoc_commits mso com" "mdoc_committed sha256 shown com items"
    by (rule issued_commits [OF assms(1-3)])
  obtain mso' com' where b: "mdoc_mso q = Inr mso'" "mdoc_commits mso' com'" "mdoc_committed sha256 shown com' items'"
    by (rule issued_commits [OF assms(6-8)])
  have "com' = com" using a b by (auto simp: mdoc_commits_def)
  then have h: "sha256 (received x) = sha256 (received y)"
    using committed_element(1) [OF a(3) assms(4,5)] committed_element(1) [OF b(3) assms(9,10)] by simp
  obtain c c' where i: "cbor_item 4 x c" "cbor_item 4 y c'"
    using disclosed_item [OF assms(2-4)] disclosed_item [OF assms(7-9)] by blast
  have "c = received x" "c' = received y"
    using i tagged_part committed_element(2) [OF a(3) assms(4,5)] committed_element(2) [OF b(3) assms(9,10)] by metis+
  then show ?thesis using h i item_unique by (metis digest_collision_def)
qed

text \<open>
  C25. A holder chooses which elements to disclose, not what they say: two authentic documents under one
  signed object that disclose an element with the same digest id disclose the same element, byte for
  byte, or SHA-256 collides on the two received items.
\<close>

theorem mdoc_digest_fixes_element:
  assumes "map_option md_authentic (verify_mdoc E sha256 shown (DocumentBytes buf) anchors now) = Some True"
    and "mdoc_carries buf S p u q s" "mdoc_discloses S items" "x \<in> set items" "element_id x = Some did"
    and "map_option md_authentic (verify_mdoc E sha256 shown (DocumentBytes buf') anchors' now') = Some True"
    and "mdoc_carries buf' S' p' u' q s'" "mdoc_discloses S' items'" "y \<in> set items'" "element_id y = Some did"
  shows "x = y \<or> digest_collision sha256 (received x) (received y)"
  by (rule digest_fixes [OF assms(1) [unfolded mdoc_authentic_iff] assms(2-5) assms(6) [unfolded mdoc_authentic_iff] assms(7-10)])

section \<open>A document\<close>

definition tag24 :: "cbor \<Rightarrow> cbor" where
  "tag24 v = CborTagged (cbor_write v) (write_head 6 24 @ write_head 2 (length (cbor_write v)) @ cbor_write v)"

definition ctext :: "string \<Rightarrow> cbor" where
  "ctext s = CborText (lit s)"

definition sample_item :: "nat \<Rightarrow> string \<Rightarrow> cbor" where
  "sample_item n name = CborMap [(ctext ''digestID'', CborInt (int n)), (ctext ''elementIdentifier'', ctext name), (ctext ''elementValue'', CborBool True)]"

definition sample_element :: "nat \<Rightarrow> string \<Rightarrow> cbor" where
  "sample_element n name =
     tag24 (sample_item n name)"

definition sample_mso :: cbor where
  "sample_mso = CborMap [(ctext ''docType'', CborText MDOC_DOC_TYPE), (ctext ''digestAlgorithm'', ctext ''SHA-256''),
     (ctext ''valueDigests'', CborMap [(ctext MDOC_NAMESPACE,
        CborMap [(CborInt 1, CborBytes (toy_hash (received (sample_element 1 ''adult'')))), (CborInt 2, CborBytes (toy_hash (received (sample_element 2 ''resident''))))])])]"

definition sample_header :: bytes where
  "sample_header = cbor_write (CborMap [(CborInt 1, CborInt (-49))])"

definition sample_issuer_signed :: "cbor list \<Rightarrow> (cbor \<times> cbor) list" where
  "sample_issuer_signed items =
     [(ctext ''nameSpaces'', CborMap [(ctext MDOC_NAMESPACE, CborList items)]),
      (ctext ''issuerAuth'', CborList [CborBytes sample_header,
         CborMap [(ctext ''polaris_algorithm'', ctext ''ML-DSA-65''), (ctext ''polaris_public_key_hex'', CborText (hex_of (replicate 1952 1)))],
         CborBytes (cbor_write (tag24 sample_mso)), CborBytes (replicate 3309 2)])]"

definition sample_document :: "cbor list \<Rightarrow> cbor" where
  "sample_document items = CborMap [(ctext ''docType'', CborText MDOC_DOC_TYPE), (ctext ''issuerSigned'', CborMap (sample_issuer_signed items))]"

lemma length_write_head: "length (write_head m n) \<le> 9"
  by (simp add: write_head_def)

lemma ascii_text:
  assumes "list_all (\<lambda>c. of_char c < (128 :: nat)) s"
  shows "length (utf8_raw (lit s)) = length s" "list_all scalar (lit s)"
proof -
  have a: "ascii (lit s)" using assms by (simp add: ascii_def lit_def list_all_iff)
  show "length (utf8_raw (lit s)) = length s" by (simp add: utf8_raw_ascii [OF a])
  show "list_all scalar (lit s)" by (rule ascii_scalar [OF a])
qed

lemma ctext_ok: "list_all (\<lambda>c. of_char c < (128 :: nat)) s \<Longrightarrow> length s < 256 \<Longrightarrow> d \<le> 64 \<Longrightarrow> cbor_ok d (ctext s)"
  by (simp add: ctext_def ascii_text)

lemma ctext_length: "list_all (\<lambda>c. of_char c < (128 :: nat)) s \<Longrightarrow> length (cbor_write (ctext s)) \<le> 9 + length s"
  using length_write_head [of 3 "length s"] by (simp add: ctext_def ascii_text)

lemma int_length: "length (cbor_write (CborInt n)) \<le> 9"
  using length_write_head by simp

lemma bytes_length: "length (cbor_write (CborBytes b)) \<le> 9 + length b"
  using length_write_head [of 2 "length b"] by simp

lemma map_length:
  "length (cbor_write (CborMap kvs)) \<le> 9 + (\<Sum>kv\<leftarrow>kvs. length (cbor_write (fst kv)) + length (cbor_write (snd kv)))"
  using length_write_head [of 5 "length kvs"] by (simp add: length_concat o_def)

lemma tag24_ok: "d < 64 \<Longrightarrow> length (cbor_write v) < 256 ^ 8 \<Longrightarrow> cbor_ok d (tag24 v)"
  by (simp add: tag24_def)

lemma tag24_received: "cbor_write (tag24 v) = received (tag24 v)" "length (received (tag24 v)) \<le> 18 + length (cbor_write v)"
  using length_write_head [of 6 24] length_write_head [of 2 "length (cbor_write v)"] by (simp_all add: tag24_def received_def)

lemma keys_ctext: "key_eq (CborText x) (CborText y) \<longleftrightarrow> x = y" "scalar_key (CborText x)" "scalar_key (CborInt n)"
    "key_eq (CborInt m) (CborInt n) \<longleftrightarrow> m = n"
  by (auto simp: key_eq_def key_number_def scalar_key_def)

lemma sample_item:
  assumes "list_all (\<lambda>c. of_char c < (128 :: nat)) name" "length name < 256" "n < 256" "d \<le> 60"
  shows "cbor_ok d (sample_item n name)" "length (cbor_write (sample_item n name)) < 1000"
proof -
  have k: "distinct_keys [(ctext ''digestID'', CborInt (int n)), (ctext ''elementIdentifier'', ctext name), (ctext ''elementValue'', CborBool True)]"
    by (simp add: distinct_keys_def ctext_def keys_ctext)
  show "cbor_ok d (sample_item n name)"
    using assms k by (simp add: sample_item_def ctext_ok)
  show "length (cbor_write (sample_item n name)) < 1000"
    using map_length [of "[(ctext ''digestID'', CborInt (int n)), (ctext ''elementIdentifier'', ctext name), (ctext ''elementValue'', CborBool True)]"]
      assms(2) ctext_length [OF assms(1)] int_length [of "int n"] ctext_length [of "''digestID''"] ctext_length [of "''elementIdentifier''"]
      ctext_length [of "''elementValue''"]
    by (simp add: sample_item_def del: cbor_write.simps(1-6))
qed

lemma key_text_ok:
  assumes "d \<le> 64"
  shows "cbor_ok d (CborText (hex_of (replicate 1952 1)))"
proof -
  have a: "ascii (hex_of (replicate 1952 1))" by (rule ascii_hex_of)
  show ?thesis using assms by (simp add: utf8_raw_ascii [OF a] ascii_scalar [OF a])
qed

lemma sample_mso_ok: "cbor_ok 0 sample_mso" "length (cbor_write sample_mso) < 2000"
proof -
  let ?inner = "[(CborInt 1, CborBytes (toy_hash (received (sample_element 1 ''adult'')))), (CborInt 2, CborBytes (toy_hash (received (sample_element 2 ''resident''))))]"
  have l: "length (toy_hash b) = 32" for b by (simp add: toy_hash_def)
  have k: "distinct_keys ?inner" "distinct_keys [(ctext ''docType'', CborText MDOC_DOC_TYPE), (ctext ''digestAlgorithm'', ctext ''SHA-256''),
      (ctext ''valueDigests'', x)]" "distinct_keys [(ctext MDOC_NAMESPACE, y)]" for x y
    by (simp_all add: distinct_keys_def ctext_def keys_ctext)
  show "cbor_ok 0 sample_mso"
    using k by (simp add: sample_mso_def ctext_ok MDOC_DOC_TYPE_def ctext_def [symmetric] MDOC_NAMESPACE_def l)
  have b: "length (cbor_write (CborMap ?inner)) \<le> 200"
    using map_length [of ?inner] int_length [of 1] int_length [of 2] bytes_length [of "toy_hash (received (sample_element 1 ''adult''))"]
      bytes_length [of "toy_hash (received (sample_element 2 ''resident''))"]
    by (simp add: l del: cbor_write.simps(1-6))
  have c: "length (cbor_write (CborMap [(ctext MDOC_NAMESPACE, CborMap ?inner)])) \<le> 300"
    using map_length [of "[(ctext MDOC_NAMESPACE, CborMap ?inner)]"] b ctext_length [of MDOC_NAMESPACE]
    by (simp add: MDOC_NAMESPACE_def del: cbor_write.simps(1-6))
  show "length (cbor_write sample_mso) < 2000"
    using map_length [of "[(ctext ''docType'', CborText MDOC_DOC_TYPE), (ctext ''digestAlgorithm'', ctext ''SHA-256''),
        (ctext ''valueDigests'', CborMap [(ctext MDOC_NAMESPACE, CborMap ?inner)])]"] c ctext_length [of "''docType''"]
      ctext_length [of "''digestAlgorithm''"] ctext_length [of "''SHA-256''"] ctext_length [of "''valueDigests''"]
      ctext_length [of "''id.polaris.credential.1''"]
    by (simp add: sample_mso_def MDOC_DOC_TYPE_def ctext_def [symmetric] del: cbor_write.simps(1-6))
qed

lemma sample_document_ok:
  assumes "\<forall>x \<in> set items. cbor_ok 4 x" "length items < 256"
  shows "cbor_ok 0 (sample_document items)"
proof -
  have k: "distinct_keys [(ctext ''docType'', x), (ctext ''issuerSigned'', y)]" "distinct_keys [(ctext MDOC_NAMESPACE, x)]"
      "distinct_keys [(ctext ''nameSpaces'', x), (ctext ''issuerAuth'', y)]"
      "distinct_keys [(ctext ''polaris_algorithm'', x), (ctext ''polaris_public_key_hex'', y)]" for x y
    by (simp_all add: distinct_keys_def ctext_def keys_ctext)
  have h: "length sample_header \<le> 30"
    using map_length [of "[(CborInt 1, CborInt (-49))]"] int_length [of 1] int_length [of "-49"]
    by (simp add: sample_header_def del: cbor_write.simps(1-6))
  have q: "length (cbor_write (tag24 sample_mso)) < 256 ^ 8"
    using tag24_received(2) [of sample_mso] sample_mso_ok(2) unfolding tag24_received(1) by simp
  have four: "Suc (Suc (Suc (Suc 0))) = 4" by simp
  show ?thesis
    using assms k h q key_text_ok [of 4]
    by (simp add: sample_document_def sample_issuer_signed_def ctext_ok MDOC_DOC_TYPE_def ctext_def [symmetric] MDOC_NAMESPACE_def four
        del: cbor_write.simps)
qed

lemma sample_elements_ok: "cbor_ok 4 (sample_element 1 ''adult'')" "cbor_ok 4 (sample_element 2 ''resident'')"
  using sample_item(2) [of "''adult''" 1 0] sample_item(2) [of "''resident''" 2 0] by (simp_all add: sample_element_def tag24_ok)

lemma sample_committed:
  assumes "set items \<subseteq> {sample_element 1 ''adult'', sample_element 2 ''resident''}"
  shows "mdoc_committed toy_hash shown
    [(CborInt 1, CborBytes (toy_hash (received (sample_element 1 ''adult'')))), (CborInt 2, CborBytes (toy_hash (received (sample_element 2 ''resident''))))] items"
proof -
  have d: "cbor_decode (cbor_write (sample_item n name)) = Inr (sample_item n name)"
    if "list_all (\<lambda>c. of_char c < (128 :: nat)) name" "length name < 256" "n < 256" for n name
    by (rule cbor_round_trip, rule sample_item(1)) (use that in simp_all)
  show ?thesis
    unfolding mdoc_committed_def
  proof
    fix x assume "x \<in> set items"
    then consider "x = sample_element 1 ''adult''" | "x = sample_element 2 ''resident''" using assms by blast
    then show "\<exists>name val. mdoc_element toy_hash shown [(CborInt 1, CborBytes (toy_hash (received (sample_element 1 ''adult'')))),
        (CborInt 2, CborBytes (toy_hash (received (sample_element 2 ''resident''))))] x = Some (True, name, val) \<and> name \<notin> set MDOC_FORBIDDEN"
    proof cases
      case 1
      then show ?thesis using d [of "''adult''" 1]
        by (simp add: sample_element_def tag24_def mdoc_element_def received_def sample_item_def cbor_get_def cbor_field_def keys_ctext ctext_def
            cbor_str_def MDOC_FORBIDDEN_def)
    next
      case 2
      then show ?thesis using d [of "''resident''" 2]
        by (simp add: sample_element_def tag24_def mdoc_element_def received_def sample_item_def cbor_get_def cbor_field_def keys_ctext ctext_def
            cbor_str_def MDOC_FORBIDDEN_def)
    qed
  qed
qed

lemma sample_document_decodes:
  "set items \<subseteq> {sample_element 1 ''adult'', sample_element 2 ''resident''} \<Longrightarrow> length items < 256 \<Longrightarrow>
     cbor_decode (cbor_write (sample_document items)) = Inr (sample_document items)"
  by (rule cbor_round_trip, rule sample_document_ok) (use sample_elements_ok in blast)

lemma sample_carries:
  assumes "set items \<subseteq> {sample_element 1 ''adult'', sample_element 2 ''resident''}" "length items < 256"
  shows "mdoc_carries (cbor_write (sample_document items)) (sample_issuer_signed items) sample_header
     (CborMap [(ctext ''polaris_algorithm'', ctext ''ML-DSA-65''), (ctext ''polaris_public_key_hex'', CborText (hex_of (replicate 1952 1)))])
     (cbor_write (tag24 sample_mso)) (CborBytes (replicate 3309 2))" "mdoc_discloses (sample_issuer_signed items) items"
proof -
  show "mdoc_carries (cbor_write (sample_document items)) (sample_issuer_signed items) sample_header
     (CborMap [(ctext ''polaris_algorithm'', ctext ''ML-DSA-65''), (ctext ''polaris_public_key_hex'', CborText (hex_of (replicate 1952 1)))])
     (cbor_write (tag24 sample_mso)) (CborBytes (replicate 3309 2))"
    unfolding mdoc_carries_def
  proof (intro exI conjI)
    show "cbor_decode (cbor_write (sample_document items)) =
        Inr (CborMap [(ctext ''docType'', CborText MDOC_DOC_TYPE), (ctext ''issuerSigned'', CborMap (sample_issuer_signed items))])"
      using sample_document_decodes [OF assms] by (simp only: sample_document_def [of items])
  qed (simp_all add: sample_issuer_signed_def cbor_field_def cbor_get_def ctext_def keys_ctext)
  show "mdoc_discloses (sample_issuer_signed items) items"
    by (simp add: mdoc_discloses_def sample_issuer_signed_def cbor_field_def cbor_get_def ctext_def keys_ctext MDOC_NAMESPACE_def)
qed

lemma sample_mso_read:
  "\<exists>mso. mdoc_mso (cbor_write (tag24 sample_mso)) = Inr mso \<and> mdoc_commits mso
     [(CborInt 1, CborBytes (toy_hash (received (sample_element 1 ''adult'')))), (CborInt 2, CborBytes (toy_hash (received (sample_element 2 ''resident''))))]"
proof -
  have "cbor_ok 0 (tag24 sample_mso)" using sample_mso_ok(2) by (intro tag24_ok) simp_all
  then have "cbor_decode (cbor_write (tag24 sample_mso)) = Inr (tag24 sample_mso)" by (rule cbor_round_trip)
  moreover have "cbor_decode (cbor_write sample_mso) = Inr sample_mso" by (rule cbor_round_trip [OF sample_mso_ok(1)])
  ultimately show ?thesis
    by (simp add: mdoc_mso_def tag24_def sample_mso_def cbor_field_def cbor_get_def ctext_def keys_ctext mdoc_commits_def MDOC_NAMESPACE_def
        del: cbor_write.simps)
qed

lemma sample_cose:
  "mdoc_signed trusting_env shown sample_header
     (CborMap [(ctext ''polaris_algorithm'', ctext ''ML-DSA-65''), (ctext ''polaris_public_key_hex'', CborText (hex_of (replicate 1952 1)))])
     (cbor_write (tag24 sample_mso)) (CborBytes (replicate 3309 2))"
proof -
  have h: "cbor_decode sample_header = Inr (CborMap [(CborInt 1, CborInt (-49))])"
    unfolding sample_header_def by (rule cbor_round_trip) (simp add: distinct_keys_def keys_ctext)
  have "length sample_header \<le> 30"
    using map_length [of "[(CborInt 1, CborInt (-49))]"] int_length [of 1] int_length [of "-49"]
    by (simp add: sample_header_def del: cbor_write.simps(1-6))
  moreover have "length (cbor_write (tag24 sample_mso)) < 256 ^ 4"
    using tag24_received(2) [of sample_mso] sample_mso_ok(2) unfolding tag24_received(1) by simp
  ultimately obtain sigs where st: "cbor_sig_structure sample_header (cbor_write (tag24 sample_mso)) = Some sigs"
    using sig_structure_fits [of sample_header "cbor_write (tag24 sample_mso)"] by auto
  let ?d = "sample_envelope"
  have f: "py_get ?d ''algorithm'' = PStr (lit ''ML-DSA-65'')" "py_get ?d ''public_key_hex'' = PStr (hex_of (replicate 1952 1))"
      "py_get ?d ''signature_hex'' = PStr (hex_of (replicate 3309 2))"
    by (simp_all only: sample_envelope_def py_get_Cons py_get_Nil lit_eq_iff) simp_all
  have e: "envelope_bytes ?d = Some (replicate 3309 2, replicate 1952 1)"
    by (simp only: envelope_bytes_def f unhex_hex_of option.case prod.case)
  have g: "size_problem (PStr (lit ''ML-DSA-65'')) (replicate 1952 1) (replicate 3309 2) = None"
      "agreed (verify_liboqs trusting_env sigs (replicate 3309 2) (replicate 1952 1) (PStr (lit ''ML-DSA-65'')))
         (verify_cryptography trusting_env sigs (replicate 3309 2) (replicate 1952 1) (PStr (lit ''ML-DSA-65''))) = Inr True"
    using sample_signature_holds [OF f, of sigs] unfolding signature_holds_def e f(1) option.case prod.case by blast+
  note a = sized_not_empty(3) [OF g(1)]
  have t: "fst (two_witness_verify trusting_env (Some sigs) (replicate 3309 2) (replicate 1952 1) (PStr (lit ''ML-DSA-65''))) = Some True"
    by (simp only: two_witness_verify_def option.case Let_def a not_True_eq_False if_False g sum.case fst_conv)
  have n: "hex_of (replicate 1952 1) \<noteq> []" by (simp flip: length_greater_0_conv)
  have u: "unhex (PStr (if cbor_true (CborText (hex_of (replicate 1952 1))) then cbor_str shown (CborText (hex_of (replicate 1952 1))) else [])) =
      Some (replicate 1952 1)"
    by (simp only: cbor_true_def cbor_str_def cbor.case n not_False_eq_True if_True unhex_hex_of)
  define u0 where "u0 = [(ctext ''polaris_algorithm'', ctext ''ML-DSA-65''), (ctext ''polaris_public_key_hex'', CborText (hex_of (replicate 1952 1)))]"
  have f1: "cbor_field u0 ''polaris_algorithm'' = CborText (lit ''ML-DSA-65'')"
    and f2: "cbor_field u0 ''polaris_public_key_hex'' = CborText (hex_of (replicate 1952 1))"
    by (simp_all add: u0_def cbor_field_def cbor_get_def ctext_def keys_ctext)
  have f3: "cbor_get [(CborInt 1, CborInt (-49))] (CborInt 1) = Some (CborInt (-49))" "COSE_ALGS (lit ''ML-DSA-65'') = Some (-49)"
    by (simp_all add: cbor_get_def keys_ctext COSE_ALGS_def)
  show ?thesis
    unfolding mdoc_signed_def u0_def [symmetric] using f1 u [folded f2] a h f3 st t by blast
qed

lemma sample_issued:
  assumes "set items \<subseteq> {sample_element 1 ''adult'', sample_element 2 ''resident''}" "length items < 256"
  shows "mdoc_issued trusting_env toy_hash shown (cbor_write (sample_document items))"
  using sample_carries [OF assms] sample_mso_read sample_committed [OF assms(1)] sample_cose unfolding mdoc_issued_def by blast

lemma sample_element_id: "element_id (sample_element 1 ''adult'') = Some (CborInt 1)"
proof -
  have "cbor_decode (cbor_write (sample_item 1 ''adult'')) = Inr (sample_item 1 ''adult'')"
    by (rule cbor_round_trip, rule sample_item(1)) simp_all
  then show ?thesis
    by (simp add: element_id_def sample_element_def tag24_def sample_item_def cbor_get_def ctext_def keys_ctext del: cbor_write.simps)
qed

lemma mdoc_digest_fixes_element_witness:
  "sample_element 1 ''adult'' = sample_element 1 ''adult'' \<or>
     digest_collision toy_hash (received (sample_element 1 ''adult'')) (received (sample_element 1 ''adult''))"
proof -
  let ?x = "sample_element 1 ''adult''" and ?y = "sample_element 2 ''resident''"
  have s: "set [?x] \<subseteq> {?x, ?y}" "length [?x] < 256" "set [?y, ?x] \<subseteq> {?x, ?y}" "length [?y, ?x] < 256" by simp_all
  have a: "map_option md_authentic (verify_mdoc trusting_env toy_hash (\<lambda>_. []) (DocumentBytes (cbor_write (sample_document items))) None NoNow) = Some True"
    if "set items \<subseteq> {?x, ?y}" "length items < 256" for items
    unfolding mdoc_authentic_iff by (rule sample_issued [OF that])
  show ?thesis
    by (rule mdoc_digest_fixes_element [OF a [OF s(1,2)] sample_carries [OF s(1,2)] _ sample_element_id a [OF s(3,4)] sample_carries [OF s(3,4)] _
          sample_element_id]) simp_all
qed

end
