(* ===== verification/Federation.thy ===== *)
theory Federation
  imports EpochFeeds
begin

text \<open>
  Trust between authorities, in \<open>polaris_verify_cli/verifier.py\<close>: the trust list and the status it
  gives a key at an instant, the attestation one authority signs for another's key, and the decision on
  a credential of another authority, with its revocation feed beside it (\<open>verify_cross_authority\<close>) or
  inside a bundle (\<open>verify_cross_authority_via_bundle\<close>). An argument that Python defaults to \<open>None\<close> is
  \<open>PNone\<close> where it is a value off the wire; a call that raises is \<open>None\<close>.
\<close>

section \<open>The trust list\<close>

definition TRUST_LIST_FORMAT :: ustr where "TRUST_LIST_FORMAT = lit ''polaris-trust-list/1''"

definition TRUST_LIST_FIELDS :: "string list" where
  "TRUST_LIST_FIELDS = [''format'', ''publisher'', ''keys'', ''issued_at'', ''expires_at'', ''algorithm'']"

text \<open>\<open>_unhex(str(x))\<close> of the signature and of the key.\<close>

definition envelope_text_bytes :: "env \<Rightarrow> pydict \<Rightarrow> (bytes \<times> bytes) option" where
  "envelope_text_bytes E obj =
     (case (unhex (PStr (py_str E (py_get obj ''signature_hex''))), unhex (PStr (py_str E (py_get obj ''public_key_hex'')))) of
        (Some sg, Some pk) \<Rightarrow> Some (sg, pk) | _ \<Rightarrow> None)"

definition trust_list_publisher_keys :: "pydict \<Rightarrow> ustr option list" where
  "trust_list_publisher_keys tlist =
     (let pub = as_dict (py_get tlist ''publisher'') in
      map (\<lambda>k. hex_text (py_get (as_dict k) ''public_key_hex''))
        (filter (\<lambda>k. (\<exists>d. k = PDict d) \<and> same_id (py_get (as_dict k) ''agency_id'') (py_get pub ''agency_id'') \<and>
            py_get (as_dict k) ''status'' = PStr (lit ''active'') \<and> py_true (py_get (as_dict k) ''public_key_hex''))
          (as_list (py_get tlist ''keys''))))"

text \<open>The window where every exception is one refusal: \<open>try: ... except Exception\<close>.\<close>

definition caught_window :: "env \<Rightarrow> pydict \<Rightarrow> now_arg \<Rightarrow> pyval option \<Rightarrow> bool \<times> vnote option" where
  "caught_window E obj now cap =
     (case instants E obj now of None \<Rightarrow> (False, Some BadInstants)
      | Some (t, ia, ea) \<Rightarrow>
          (case (case cap of None \<Rightarrow> Some True | Some c \<Rightarrow> window_within ia ea c) of
             None \<Rightarrow> (False, Some BadInstants)
           | Some window_ok \<Rightarrow> (ia \<le> t \<and> t < ea \<and> window_ok, None)))"

record trust_verdict =
  tl_authentic :: bool
  tl_fresh :: "bool option"
  tl_trusted :: "bool option"
  tl_publisher :: pyval
  tl_key_count :: nat
  tl_witnesses :: "(string \<times> bool) list"
  tl_note :: "vnote option"

definition blank_trust :: "pydict \<Rightarrow> trust_verdict" where
  "blank_trust tlist =
     \<lparr>tl_authentic = False, tl_fresh = None, tl_trusted = None, tl_publisher = py_get tlist ''publisher'',
      tl_key_count = length (as_list (py_get tlist ''keys'')), tl_witnesses = [], tl_note = None\<rparr>"

text \<open>
  The body repeats \<open>_two_witness_verify\<close> line by line, with the same outcome in every branch; it is
  written with it here.
\<close>

definition verify_trust_list ::
    "env \<Rightarrow> pyval \<Rightarrow> now_arg \<Rightarrow> pyval option \<Rightarrow> pyval list option \<Rightarrow> trust_verdict" where
  "verify_trust_list E trust_list now cap trusted_anchors =
     (let tlist = as_dict trust_list; v = blank_trust tlist
      in if py_get tlist ''format'' \<noteq> PStr TRUST_LIST_FORMAT then v\<lparr>tl_note := Some (NotA TRUST_LIST_FORMAT)\<rparr>
         else if placeholder_envelope tlist then v\<lparr>tl_note := Some Placeholder\<rparr>
         else
           (case envelope_text_bytes E tlist of None \<Rightarrow> v\<lparr>tl_note := Some NotHex\<rparr>
            | Some (sg, pk) \<Rightarrow>
                if \<not> hex_in (py_get tlist ''public_key_hex'') (trust_list_publisher_keys tlist) then v\<lparr>tl_note := Some NotOwnAnchor\<rparr>
                else
                  (case two_witness_verify E (canonical_digest E TRUST_LIST_FIELDS tlist) sg pk (py_get tlist ''algorithm'') of
                     (None, tried, n) \<Rightarrow> v\<lparr>tl_witnesses := tried, tl_note := n\<rparr>
                   | (Some False, tried, n) \<Rightarrow> v\<lparr>tl_witnesses := tried, tl_note := or_note n BadSignature\<rparr>
                   | (Some True, tried, n) \<Rightarrow>
                       let (fresh, why) = caught_window E tlist now cap
                       in v\<lparr>tl_authentic := True, tl_witnesses := tried, tl_fresh := Some fresh, tl_note := why,
                            tl_trusted := map_option (\<lambda>ks. hex_in (py_get tlist ''public_key_hex'') (map hex_text ks)) trusted_anchors\<rparr>)))"

section \<open>A key's status at an instant\<close>

datatype key_status = KeyActive | KeyRetired | KeyCompromised | KeyUnknown

text \<open>
  The caller's instant, as the code keeps it: \<open>None\<close> is a text it cannot read, \<open>Some None\<close> a value that
  raises when it is compared with an aware datetime.
\<close>

definition key_instant :: "env \<Rightarrow> now_arg \<Rightarrow> int option option" where
  "key_instant E now =
     (case now of NoNow \<Rightarrow> Some (Some (clock E)) | NowText s \<Rightarrow> map_option Some (strict_instant s)
      | NowDatetime t \<Rightarrow> Some (Some t) | NowNaive _ \<Rightarrow> Some None | NowInt _ \<Rightarrow> Some None)"

text \<open>\<open>_at\<close>: a \<open>Z\<close> is appended to a text that has neither a final \<open>Z\<close> nor a plus sign.\<close>

definition key_date :: "env \<Rightarrow> pydict \<Rightarrow> string \<Rightarrow> int option" where
  "key_date E k name =
     (let val = py_get k name; s = py_str E val in
      if \<not> py_true val then None
      else if (s \<noteq> [] \<and> List.last s = 90) \<or> 43 \<in> set s then (case val of PStr w \<Rightarrow> strict_instant w | _ \<Rightarrow> None)
      else strict_instant (s @ [90]))"

text \<open>\<open>bound is not None and instant >= bound\<close>, or the other answer where there is no bound.\<close>

definition reached :: "int option \<Rightarrow> int option \<Rightarrow> bool \<Rightarrow> bool option" where
  "reached i bound absent = (case bound of None \<Rightarrow> Some absent | Some b \<Rightarrow> map_option (\<lambda>t. b \<le> t) i)"

definition entry_status_at :: "env \<Rightarrow> pydict \<Rightarrow> int option \<Rightarrow> key_status option option" where
  "entry_status_at E k i =
     (let st = py_get k ''status''; ret = key_date E k ''retired_at'' in
      case reached i (key_date E k ''registered_at'') True of None \<Rightarrow> None | Some False \<Rightarrow> Some None
      | Some True \<Rightarrow>
          if st = PStr (lit ''compromised'') then
            (case reached i (key_date E k ''compromised_at'') True of None \<Rightarrow> None | Some True \<Rightarrow> Some (Some KeyCompromised)
             | Some False \<Rightarrow>
                 (case reached i ret False of None \<Rightarrow> None
                  | Some r \<Rightarrow> Some (Some (if r then KeyRetired else KeyActive))))
          else if st = PStr (lit ''retired'') then
            (case reached i ret True of None \<Rightarrow> None | Some r \<Rightarrow> Some (Some (if r then KeyRetired else KeyActive)))
          else if st = PStr (lit ''active'') then Some (Some KeyActive)
          else Some (Some KeyUnknown))"

definition key_entry :: "pydict \<Rightarrow> ustr \<Rightarrow> pydict option" where
  "key_entry tlist want =
     map_option as_dict (List.find (\<lambda>k. hex_text (py_get (as_dict k) ''public_key_hex'') = Some want) (as_list (py_get tlist ''keys'')))"

definition key_status_at :: "env \<Rightarrow> pyval \<Rightarrow> pyval \<Rightarrow> now_arg \<Rightarrow> key_status option option" where
  "key_status_at E trust_list public_key_hex now =
     (case (trust_list, hex_text public_key_hex, key_instant E now) of
        (PDict tlist, Some want, Some i) \<Rightarrow>
          (case key_entry tlist want of None \<Rightarrow> Some None | Some k \<Rightarrow> entry_status_at E k i)
      | _ \<Rightarrow> Some None)"

section \<open>The attestation\<close>

definition ATTESTATION_FORMAT :: ustr where "ATTESTATION_FORMAT = lit ''polaris-trust-attestation/1''"

definition ATTESTATION_FIELDS :: "string list" where
  "ATTESTATION_FIELDS = [''format'', ''attesting_agency_id'', ''attested_agency_id'', ''attested_public_key_hex'',
     ''context_id'', ''attested_date'', ''valid_until'', ''algorithm'']"

text \<open>\<open>_parse_iso(str(until)) >= _instant(now)\<close>; what cannot be read is closed.\<close>

definition attestation_window_open :: "env \<Rightarrow> pyval \<Rightarrow> now_arg \<Rightarrow> bool" where
  "attestation_window_open E att now =
     (case att of PDict a \<Rightarrow>
        (let until = py_get a ''valid_until'' in
         if until = PNone then True
         else (case (strict_instant (py_str E until), instant (clock E) now) of (Some u, Some t) \<Rightarrow> t \<le> u | _ \<Rightarrow> False))
      | _ \<Rightarrow> False)"

datatype attestation_note =
    NotAnAttestation | LegacyAttestation | SignatureNote vnote | OtherAttester | OtherAttestedKey | UntilUnreadable | WindowClosed

record attestation_verdict =
  at_signed :: bool
  at_authentic :: bool
  at_attester_matches :: "bool option"
  at_key_matches :: "bool option"
  at_expired :: "bool option"
  at_valid_until :: pyval
  at_witnesses :: "(string \<times> bool) list"
  at_note :: "attestation_note option"

definition blank_attestation :: attestation_verdict where
  "blank_attestation =
     \<lparr>at_signed = False, at_authentic = False, at_attester_matches = None, at_key_matches = None, at_expired = None,
      at_valid_until = PNone, at_witnesses = [], at_note = None\<rparr>"

text \<open>After the signature: the agency and the key the caller expects, then the window.\<close>

definition attestation_names :: "pydict \<Rightarrow> pyval \<Rightarrow> pyval \<Rightarrow> attestation_verdict \<Rightarrow> attestation_verdict" where
  "attestation_names a agency key v =
     (let v1 = (if agency = PNone then v
            else
              let ok = same_id (py_get a ''attesting_agency_id'') agency
              in v\<lparr>at_attester_matches := Some ok, at_note := (if ok then at_note v else Some OtherAttester)\<rparr>)
      in if key = PNone then v1
         else
           let ok = same_hex (py_get a ''attested_public_key_hex'') key
           in v1\<lparr>at_key_matches := Some ok, at_note := (if ok then at_note v1 else Some OtherAttestedKey)\<rparr>)"

definition attestation_window :: "env \<Rightarrow> pydict \<Rightarrow> now_arg \<Rightarrow> attestation_verdict \<Rightarrow> attestation_verdict" where
  "attestation_window E a now v =
     (let until = py_get a ''valid_until'' in
      if until = PNone then v\<lparr>at_valid_until := until\<rparr>
      else
        let expired = \<not> attestation_window_open E (PDict a) now;
            n = (if strict_instant (py_str E until) = None then Some UntilUnreadable else at_note v)
        in v\<lparr>at_valid_until := until, at_expired := Some expired,
             at_note := (if expired \<and> n = None then Some WindowClosed else n)\<rparr>)"

definition verify_attestation :: "env \<Rightarrow> pyval \<Rightarrow> pyval \<Rightarrow> pyval \<Rightarrow> now_arg \<Rightarrow> attestation_verdict" where
  "verify_attestation E att attesting_agency_id expected_key now =
     (case att of PDict a \<Rightarrow>
        if \<not> py_true (py_get a ''signature_hex'') \<and> \<not> py_true (py_get a ''public_key_hex'') then
          blank_attestation\<lparr>at_note := Some LegacyAttestation\<rparr>
        else
          let v = blank_attestation\<lparr>at_signed := True\<rparr>; noted = (\<lambda>w. v\<lparr>at_note := Some (SignatureNote w)\<rparr>)
          in if py_get a ''format'' \<noteq> PStr ATTESTATION_FORMAT then noted (NotA ATTESTATION_FORMAT)
             else if placeholder_envelope a then noted Placeholder
             else
               (case envelope_bytes a of None \<Rightarrow> noted NotHex
                | Some (sg, pk) \<Rightarrow>
                    (case two_witness_verify E (canonical_digest E ATTESTATION_FIELDS a) sg pk (py_get a ''algorithm'') of
                       (None, tried, n) \<Rightarrow> v\<lparr>at_witnesses := tried, at_note := map_option SignatureNote n\<rparr>
                     | (Some False, tried, n) \<Rightarrow> v\<lparr>at_witnesses := tried, at_note := map_option SignatureNote (or_note n BadSignature)\<rparr>
                     | (Some True, tried, n) \<Rightarrow>
                         attestation_window E a now
                           (attestation_names a attesting_agency_id expected_key
                             (v\<lparr>at_witnesses := tried, at_authentic := True\<rparr>))))
      | _ \<Rightarrow> blank_attestation\<lparr>at_note := Some NotAnAttestation\<rparr>)"

section \<open>One edge of a manifest\<close>

text \<open>
  \<open>(admitted, signed)\<close>. The manifest is a verified one, so its anchors are a list: one of them is the key
  that signed it.
\<close>

definition edge_signature_admits ::
    "env \<Rightarrow> pyval \<Rightarrow> pydict \<Rightarrow> manifest_verdict \<Rightarrow> pyval \<Rightarrow> now_arg \<Rightarrow> bool \<Rightarrow> bool \<times> bool" where
  "edge_signature_admits E att manifest mv expected_key now require_signed =
     (let agency = py_get (as_dict (mv_authority mv)) ''agency_id'';
          av = verify_attestation E att agency expected_key now;
          roots = active_anchor_keys (as_list (py_get manifest ''anchors''))
      in if at_signed av \<and> \<not> (at_authentic av \<and> at_attester_matches av \<noteq> Some False \<and> at_key_matches av \<noteq> Some False \<and>
              hex_in (py_get (as_dict att) ''public_key_hex'') roots) then (False, True)
         else if at_expired av = Some True then (False, at_signed av)
         else if require_signed \<and> \<not> at_signed av then (False, False)
         else (True, at_signed av))"

section \<open>The decision on another authority's credential\<close>

datatype cross_reason =
    CredentialNotAuthentic | NoTrustAnchors | NoAttestation bool | TrustListUnusable | IssuerKeyCompromised
  | IssuerKeyStatusUnknown | FeedUnusable | CredentialRevoked | BundleUnusable | OtherPublisher | NotInBundle

record cross_verdict =
  xa_decision :: decision
  xa_authentic :: "bool option"
  xa_reasons :: "cross_reason list"
  xa_via :: pyval
  xa_revocation_checked :: bool
  xa_revoked :: "bool option"
  xa_key_status :: "key_status option"
  xa_attestation_signed :: "bool option"

definition blank_cross :: cross_verdict where
  "blank_cross =
     \<lparr>xa_decision = Reject, xa_authentic = Some True, xa_reasons = [], xa_via = PNone, xa_revocation_checked = False,
      xa_revoked = None, xa_key_status = None, xa_attestation_signed = None\<rparr>"

definition cross_reject :: "cross_reason \<Rightarrow> cross_verdict" where
  "cross_reject why = blank_cross\<lparr>xa_reasons := [why]\<rparr>"

text \<open>Whether an attestation of the manifest is an edge to the key in the context, and whether it is signed.\<close>

definition edge_to ::
    "env \<Rightarrow> ustr option \<Rightarrow> pyval \<Rightarrow> now_arg \<Rightarrow> bool \<Rightarrow> pydict \<Rightarrow> manifest_verdict \<Rightarrow> pyval \<Rightarrow> bool option" where
  "edge_to E token_key context_id now require_signed manifest mv att =
     (case att of PDict a \<Rightarrow>
        if token_key \<noteq> None \<and> hex_text (py_get a ''attested_public_key_hex'') = token_key \<and>
            same_id (py_get a ''context_id'') context_id then
          (case edge_signature_admits E att manifest mv (case token_key of None \<Rightarrow> PNone | Some k \<Rightarrow> PStr k) now require_signed of
             (admitted, edge_signed) \<Rightarrow>
               if \<not> admitted \<or> \<not> edge_signed \<and> \<not> attestation_window_open E att now then None else Some edge_signed)
        else None
      | _ \<Rightarrow> None)"

fun first_some :: "('a \<Rightarrow> 'b option) \<Rightarrow> 'a list \<Rightarrow> 'b option" where
  "first_some f [] = None"
| "first_some f (x # xs) = (case f x of None \<Rightarrow> first_some f xs | Some y \<Rightarrow> Some y)"

text \<open>The loop over the manifests: the authority and whether its edge is signed; the outer option is what raises.\<close>

fun trust_path ::
    "env \<Rightarrow> ustr option \<Rightarrow> pyval \<Rightarrow> now_arg \<Rightarrow> pyval option \<Rightarrow> pyval list \<Rightarrow> bool \<Rightarrow> pyval list \<Rightarrow> (pyval \<times> bool) option option"
  where
  "trust_path E token_key context_id now cap anchors require_signed [] = Some None"
| "trust_path E token_key context_id now cap anchors require_signed (m # ms) =
     (case verify_manifest E m now cap (Some anchors) of None \<Rightarrow> None
      | Some mv \<Rightarrow>
          if \<not> (mv_authentic mv \<and> mv_fresh mv = Some True) \<or> mv_trusted mv \<noteq> Some True then
            trust_path E token_key context_id now cap anchors require_signed ms
          else
            (case first_some (edge_to E token_key context_id now require_signed (as_dict m) mv) (mv_attestations mv) of
               None \<Rightarrow> trust_path E token_key context_id now cap anchors require_signed ms
             | Some edge_signed \<Rightarrow>
                 if py_true (mv_authority mv) then Some (Some (mv_authority mv, edge_signed))
                 else trust_path E token_key context_id now cap anchors require_signed ms))"

text \<open>What a trust list beside the decision makes of the issuer's key: a rejection, or nothing.\<close>

definition trust_list_problem ::
    "env \<Rightarrow> pyval \<Rightarrow> ustr option \<Rightarrow> now_arg \<Rightarrow> pyval option \<Rightarrow> pyval list \<Rightarrow> (cross_reason \<times> key_status option) option option" where
  "trust_list_problem E trust_list token_key now cap anchors =
     (if trust_list = PNone then Some None
      else
        let tv = verify_trust_list E trust_list now cap (Some anchors)
        in if \<not> (tl_authentic tv \<and> tl_fresh tv = Some True) \<or> tl_trusted tv \<noteq> Some True then Some (Some (TrustListUnusable, None))
           else
             (case key_status_at E trust_list (case token_key of None \<Rightarrow> PNone | Some k \<Rightarrow> PStr k) now of None \<Rightarrow> None
              | Some st \<Rightarrow>
                  if st = Some KeyCompromised then Some (Some (IssuerKeyCompromised, st))
                  else if st = Some KeyUnknown then Some (Some (IssuerKeyStatusUnknown, st))
                  else Some None))"

definition cross_feed ::
    "env \<Rightarrow> pydict \<Rightarrow> pyval \<Rightarrow> ustr option \<Rightarrow> now_arg \<Rightarrow> pyval option \<Rightarrow> cross_verdict \<Rightarrow> cross_verdict option" where
  "cross_feed E pack revocation_feed token_key now cap v =
     (if revocation_feed = PNone then Some (v\<lparr>xa_decision := Accept, xa_reasons := []\<rparr>)
      else
        (case verify_revocation_feed E revocation_feed now cap (map_option PStr token_key) of None \<Rightarrow> None
         | Some rv \<Rightarrow>
             let v2 = v\<lparr>xa_revocation_checked := True\<rparr>
             in if \<not> (rf_authentic rv \<and> rf_fresh rv = Some True \<and> rf_issuer_matches rv = Some True) then
                  Some (v2\<lparr>xa_reasons := [FeedUnusable]\<rparr>)
                else
                  (case is_revoked E revocation_feed
                          (if py_true (py_get pack ''token_value'') then py_get pack ''token_value'' else PStr []) of
                     None \<Rightarrow> None
                   | Some True \<Rightarrow> Some (v2\<lparr>xa_reasons := [CredentialRevoked], xa_revoked := Some True\<rparr>)
                   | Some False \<Rightarrow> Some (v2\<lparr>xa_decision := Accept, xa_reasons := [], xa_revoked := Some False\<rparr>))))"

definition verify_cross_authority ::
    "env \<Rightarrow> pyval \<Rightarrow> pyval \<Rightarrow> pyval \<Rightarrow> now_arg \<Rightarrow> pyval option \<Rightarrow> pyval list option \<Rightarrow> pyval \<Rightarrow> pyval \<Rightarrow> bool \<Rightarrow>
      cross_verdict option" where
  "verify_cross_authority E pack0 context_id trusted_manifests now cap trusted_anchors revocation_feed trust_list require_signed =
     (let pack = as_dict pack0; token_key = hex_text (py_get pack ''public_key_hex'')
      in if \<not> pv_valid (verify_pack E (PDict pack) None) then Some ((cross_reject CredentialNotAuthentic)\<lparr>xa_authentic := Some False\<rparr>)
         else
           (case trusted_anchors of None \<Rightarrow> Some (cross_reject NoTrustAnchors)
            | Some anchors \<Rightarrow>
                (case trust_path E token_key context_id now cap anchors require_signed (as_list trusted_manifests) of
                   None \<Rightarrow> None
                 | Some None \<Rightarrow> Some (cross_reject (NoAttestation require_signed))
                 | Some (Some (via, edge_signed)) \<Rightarrow>
                     let v = blank_cross\<lparr>xa_via := via, xa_attestation_signed := Some edge_signed\<rparr>
                     in (case trust_list_problem E trust_list token_key now cap anchors of
                           None \<Rightarrow> None
                         | Some (Some (why, st)) \<Rightarrow> Some (v\<lparr>xa_reasons := [why], xa_key_status := st\<rparr>)
                         | Some None \<Rightarrow> cross_feed E pack revocation_feed token_key now cap v))))"

section \<open>The same decision, with the feed inside a bundle\<close>

record bundled_verdict =
  bd_verdict :: cross_verdict
  bd_in_bundle :: "bool option"
  bd_epoch_bound :: "bool option"
  bd_bundle_ok :: bool

definition bundled_reject :: "cross_reason \<Rightarrow> bool \<Rightarrow> bool option \<Rightarrow> bundled_verdict" where
  "bundled_reject why ok present =
     \<lparr>bd_verdict = (cross_reject why)\<lparr>xa_authentic := None\<rparr>, bd_in_bundle = present, bd_epoch_bound = None, bd_bundle_ok = ok\<rparr>"

definition bundle_member :: "ustr option \<Rightarrow> pyval list \<Rightarrow> pydict option" where
  "bundle_member token_key members =
     map_option as_dict (List.find (\<lambda>m. (case py_get (as_dict m) ''revocation_feed'' of
        PDict feed \<Rightarrow> token_key \<noteq> None \<and> hex_text (py_get feed ''public_key_hex'') = token_key | _ \<Rightarrow> False)) members)"

definition epoch_binding ::
    "env \<Rightarrow> pyval \<Rightarrow> now_arg \<Rightarrow> pyval option \<Rightarrow> ustr option \<Rightarrow> bool option option" where
  "epoch_binding E cp now cap token_key =
     (if cp = PNone then Some None
      else map_option (\<lambda>cv. Some (ec_authentic cv \<and> ec_fresh cv = Some True \<and> ec_issuer_matches cv = Some True))
             (verify_epoch_checkpoint E cp now cap (map_option PStr token_key)))"

definition verify_cross_authority_via_bundle ::
    "env \<Rightarrow> pyval \<Rightarrow> pyval \<Rightarrow> pyval \<Rightarrow> pyval \<Rightarrow> now_arg \<Rightarrow> pyval option \<Rightarrow> pyval list option \<Rightarrow> pyval option \<Rightarrow> bool \<Rightarrow>
      bundled_verdict option" where
  "verify_cross_authority_via_bundle E pack0 context_id trusted_manifests bundle now cap trusted_anchors publisher_key require_signed =
     (let pack = as_dict pack0; token_key = hex_text (py_get pack ''public_key_hex'') in
      case verify_status_bundle E bundle now cap publisher_key of None \<Rightarrow> None
      | Some bv \<Rightarrow>
          if \<not> (sb_authentic bv \<and> sb_fresh bv = Some True) then Some (bundled_reject BundleUnusable False None)
          else if publisher_key \<noteq> None \<and> sb_publisher_matches bv \<noteq> Some True then Some (bundled_reject OtherPublisher True None)
          else
            (case bundle_member token_key (as_list (sb_members bv)) of
               None \<Rightarrow> Some (bundled_reject NotInBundle True (Some False))
             | Some m \<Rightarrow>
                 (case verify_cross_authority E (PDict pack) context_id (PList (as_list trusted_manifests)) now cap
                         trusted_anchors (py_get m ''revocation_feed'') PNone require_signed of
                    None \<Rightarrow> None
                  | Some d \<Rightarrow>
                      (case epoch_binding E (py_get m ''epoch_checkpoint'') now cap token_key of None \<Rightarrow> None
                       | Some bound \<Rightarrow>
                           Some \<lparr>bd_verdict = d, bd_in_bundle = Some True, bd_epoch_bound = bound, bd_bundle_ok = True\<rparr>))))"

section \<open>What an accepted edge establishes\<close>

lemma first_some_iff: "first_some f xs \<noteq> None \<longleftrightarrow> (\<exists>x \<in> set xs. f x \<noteq> None)"
  by (induction xs) (auto split: option.splits)

lemma py_lower_idem: "py_lower (py_lower s) = py_lower s"
  by (simp add: py_lower_def)

lemma hex_text_idem: "hex_text v = Some k \<Longrightarrow> hex_text (PStr k) = Some k"
  by (auto simp: hex_text_def py_lower_idem split: pyval.splits if_splits) (simp add: py_lower_def)

definition unsigned_edge :: "pydict \<Rightarrow> bool" where
  "unsigned_edge a \<longleftrightarrow> \<not> py_true (py_get a ''signature_hex'') \<and> \<not> py_true (py_get a ''public_key_hex'')"

definition edge_genuine :: "env \<Rightarrow> pydict \<Rightarrow> pydict \<Rightarrow> bool" where
  "edge_genuine E m a \<longleftrightarrow>
     py_get a ''format'' = PStr ATTESTATION_FORMAT \<and> signed_statement E ATTESTATION_FIELDS a \<and>
     hex_in (py_get a ''public_key_hex'') (active_anchor_keys (as_list (py_get m ''anchors''))) \<and>
     (py_get (as_dict (py_get m ''authority'')) ''agency_id'' = PNone \<or>
      same_id (py_get a ''attesting_agency_id'') (py_get (as_dict (py_get m ''authority'')) ''agency_id''))"

definition edge_holds :: "env \<Rightarrow> pydict \<Rightarrow> pyval \<Rightarrow> now_arg \<Rightarrow> bool \<Rightarrow> pydict \<Rightarrow> pydict \<Rightarrow> bool" where
  "edge_holds E p context_id now require_signed m a \<longleftrightarrow>
     same_hex (py_get p ''public_key_hex'') (py_get a ''attested_public_key_hex'') \<and>
     same_id (py_get a ''context_id'') context_id \<and> attestation_window_open E (PDict a) now \<and>
     (if unsigned_edge a then \<not> require_signed else edge_genuine E m a)"

lemma verify_attestation_unsigned:
  "unsigned_edge a \<Longrightarrow> verify_attestation E (PDict a) agency key now = blank_attestation\<lparr>at_note := Some LegacyAttestation\<rparr>"
  by (simp add: verify_attestation_def unsigned_edge_def)

lemma attestation_window_fields:
  "at_signed (attestation_window E a now v) = at_signed v" "at_authentic (attestation_window E a now v) = at_authentic v"
  "at_attester_matches (attestation_window E a now v) = at_attester_matches v"
  "at_key_matches (attestation_window E a now v) = at_key_matches v"
  "at_expired v = None \<Longrightarrow>
    at_expired (attestation_window E a now v) = Some True \<longleftrightarrow> \<not> attestation_window_open E (PDict a) now"
  by (simp_all add: attestation_window_def Let_def attestation_window_open_def)

lemma attestation_names_fields:
  "at_signed (attestation_names a agency key v) = at_signed v" "at_authentic (attestation_names a agency key v) = at_authentic v"
  "at_expired (attestation_names a agency key v) = at_expired v"
  "at_attester_matches v = None \<Longrightarrow> at_attester_matches (attestation_names a agency key v) \<noteq> Some False \<longleftrightarrow>
    agency = PNone \<or> same_id (py_get a ''attesting_agency_id'') agency"
  "at_key_matches v = None \<Longrightarrow> at_key_matches (attestation_names a agency key v) \<noteq> Some False \<longleftrightarrow>
    key = PNone \<or> same_hex (py_get a ''attested_public_key_hex'') key"
  by (simp_all add: attestation_names_def Let_def)

lemma verify_attestation_signed:
  assumes "\<not> unsigned_edge a"
  shows "at_signed (verify_attestation E (PDict a) agency key now)"
    "at_authentic (verify_attestation E (PDict a) agency key now) \<longleftrightarrow>
       py_get a ''format'' = PStr ATTESTATION_FORMAT \<and> signed_statement E ATTESTATION_FIELDS a"
    "at_authentic (verify_attestation E (PDict a) agency key now) \<Longrightarrow>
       (at_expired (verify_attestation E (PDict a) agency key now) = Some True \<longleftrightarrow> \<not> attestation_window_open E (PDict a) now) \<and>
       (at_attester_matches (verify_attestation E (PDict a) agency key now) \<noteq> Some False \<longleftrightarrow>
          agency = PNone \<or> same_id (py_get a ''attesting_agency_id'') agency) \<and>
       (at_key_matches (verify_attestation E (PDict a) agency key now) \<noteq> Some False \<longleftrightarrow>
          key = PNone \<or> same_hex (py_get a ''attested_public_key_hex'') key)"
proof -
  let ?v = "verify_attestation E (PDict a) agency key now"
  have u: "py_true (py_get a ''signature_hex'') \<or> py_true (py_get a ''public_key_hex'')"
    using assms by (simp add: unsigned_edge_def)
  show "at_signed ?v"
    using u by (auto simp: verify_attestation_def Let_def blank_attestation_def attestation_window_fields attestation_names_fields
        split: option.splits prod.splits bool.splits)
  have signed: "\<exists>tried. ?v = attestation_window E a now (attestation_names a agency key
      (blank_attestation\<lparr>at_signed := True, at_witnesses := tried, at_authentic := True\<rparr>))"
    if "py_get a ''format'' = PStr ATTESTATION_FORMAT" "signed_statement E ATTESTATION_FIELDS a"
    using that(2) u that(1) by (elim signed_statementE) (auto simp: verify_attestation_def Let_def)
  show auth: "at_authentic ?v \<longleftrightarrow> py_get a ''format'' = PStr ATTESTATION_FORMAT \<and> signed_statement E ATTESTATION_FIELDS a"
  proof
    assume "py_get a ''format'' = PStr ATTESTATION_FORMAT \<and> signed_statement E ATTESTATION_FIELDS a"
    then show "at_authentic ?v"
      using signed by (auto simp: attestation_window_fields attestation_names_fields)
  next
    assume "at_authentic ?v"
    then show "py_get a ''format'' = PStr ATTESTATION_FORMAT \<and> signed_statement E ATTESTATION_FIELDS a"
      by (auto simp: verify_attestation_def Let_def blank_attestation_def dest: two_witness_TrueD
          split: option.splits prod.splits bool.splits if_splits)
  qed
  show "(at_expired ?v = Some True \<longleftrightarrow> \<not> attestation_window_open E (PDict a) now) \<and>
       (at_attester_matches ?v \<noteq> Some False \<longleftrightarrow> agency = PNone \<or> same_id (py_get a ''attesting_agency_id'') agency) \<and>
       (at_key_matches ?v \<noteq> Some False \<longleftrightarrow> key = PNone \<or> same_hex (py_get a ''attested_public_key_hex'') key)"
    if genuine: "at_authentic ?v"
  proof -
    obtain tried where t: "?v = attestation_window E a now (attestation_names a agency key
      (blank_attestation\<lparr>at_signed := True, at_witnesses := tried, at_authentic := True\<rparr>))"
      using signed auth genuine by blast
    show ?thesis
      unfolding t attestation_window_fields(3,4)
      by (subst attestation_window_fields(5) attestation_names_fields(4,5); simp add: attestation_names_fields blank_attestation_def)+
  qed
qed

lemma edge_to_iff:
  assumes "mv_authority mv = py_get m ''authority''"
  shows "edge_to E (hex_text (py_get p ''public_key_hex'')) context_id now req m mv (PDict a) \<noteq> None \<longleftrightarrow>
    edge_holds E p context_id now req m a"
proof (cases "same_hex (py_get p ''public_key_hex'') (py_get a ''attested_public_key_hex'')")
  case False
  then show ?thesis by (auto simp: edge_to_def edge_holds_def same_hex_def)
next
  case True
  then obtain k where k: "hex_text (py_get p ''public_key_hex'') = Some k" "hex_text (py_get a ''attested_public_key_hex'') = Some k"
    unfolding same_hex_def by (metis option.exhaust)
  have s: "same_hex (py_get a ''attested_public_key_hex'') (PStr k)"
    using k hex_text_idem by (simp add: same_hex_def)
  show ?thesis
  proof (cases "unsigned_edge a")
    case u: True
    then show ?thesis
      using True by (auto simp: edge_to_def edge_holds_def edge_signature_admits_def Let_def k verify_attestation_unsigned
          blank_attestation_def split: if_splits)
  next
    case False
    note v = verify_attestation_signed [OF False, of E "py_get (as_dict (py_get m ''authority'')) ''agency_id''" "PStr k" now]
    show ?thesis
      using True False v(1,2) v(3) s
      by (auto simp: edge_to_def edge_holds_def edge_signature_admits_def Let_def k assms edge_genuine_def)
  qed
qed

section \<open>The path through the manifests\<close>

definition attests :: "env \<Rightarrow> pydict \<Rightarrow> pyval \<Rightarrow> now_arg \<Rightarrow> pyval option \<Rightarrow> pyval list \<Rightarrow> bool \<Rightarrow> pyval \<Rightarrow> bool" where
  "attests E p context_id now cap anchors req manifest \<longleftrightarrow>
     (\<exists>m. manifest = PDict m \<and> manifest_signed E m \<and> fresh_now E m now cap \<and> key_anchored m anchors \<and>
        py_true (py_get m ''authority'') \<and>
        (\<exists>a. PDict a \<in> set (as_list (py_get m ''attestations'')) \<and> edge_holds E p context_id now req m a))"

text \<open>The first manifest that attests is reached: no manifest before it makes the verifier raise.\<close>

definition attested ::
    "env \<Rightarrow> pydict \<Rightarrow> pyval \<Rightarrow> now_arg \<Rightarrow> pyval option \<Rightarrow> pyval list \<Rightarrow> bool \<Rightarrow> pyval list \<Rightarrow> bool" where
  "attested E p context_id now cap anchors req ms \<longleftrightarrow>
     (\<exists>m rest. attests E p context_id now cap anchors req m \<and>
        dropWhile (\<lambda>m. verify_manifest E m now cap (Some anchors) \<noteq> None \<and> \<not> attests E p context_id now cap anchors req m) ms
          = m # rest)"

lemma verify_manifest_fields:
  assumes "verify_manifest E m now cap ta = Some mv"
  shows "mv_authority mv = py_get (as_dict m) ''authority''" "mv_attestations mv = as_list (py_get (as_dict m) ''attestations'')"
proof -
  have w: "mv_authority v' = mv_authority v \<and> mv_attestations v' = mv_attestations v"
    if "manifest_window E d now cap ta v = Some v'" for d v v'
    using that by (auto simp: manifest_window_def Let_def split: option.splits if_splits)
  have "mv_authority mv = py_get (as_dict m) ''authority'' \<and> mv_attestations mv = as_list (py_get (as_dict m) ''attestations'')"
    using assms by (auto simp: verify_manifest_def Let_def blank_manifest_def dest!: w
        split: option.splits sum.splits if_splits bool.splits)
  then show "mv_authority mv = py_get (as_dict m) ''authority''" "mv_attestations mv = as_list (py_get (as_dict m) ''attestations'')"
    by auto
qed

lemma empty_not_authentic:
  assumes "verify_manifest E m now cap ta = Some mv" "mv_authentic mv"
  obtains d where "m = PDict d"
proof -
  have "py_get (as_dict m) ''format'' = PStr MANIFEST_FORMAT"
    using assms by (auto simp: verify_manifest_def Let_def blank_manifest_def split: if_splits)
  then show ?thesis using that by (cases m) (auto simp: as_dict_def)
qed

lemma attests_iff:
  assumes "verify_manifest E m now cap (Some anchors) = Some mv"
  shows "attests E p context_id now cap anchors req m \<longleftrightarrow>
     (mv_authentic mv \<and> mv_fresh mv = Some True) \<and> mv_trusted mv = Some True \<and> py_true (mv_authority mv) \<and>
     first_some (edge_to E (hex_text (py_get p ''public_key_hex'')) context_id now req (as_dict m) mv) (mv_attestations mv) \<noteq> None"
proof (cases m)
  case (PDict d)
  have t: "mv_authentic mv \<and> mv_fresh mv = Some True \<and> mv_trusted mv = Some True \<longleftrightarrow>
      manifest_signed E d \<and> fresh_now E d now cap \<and> key_anchored d anchors"
    using manifest_trusted [of E d now cap "Some anchors"] assms by (simp add: PDict)
  have e: "first_some (edge_to E (hex_text (py_get p ''public_key_hex'')) context_id now req d mv) (mv_attestations mv) \<noteq> None
      \<longleftrightarrow> (\<exists>a. PDict a \<in> set (mv_attestations mv) \<and> edge_holds E p context_id now req d a)"
    (is "_ \<longleftrightarrow> ?r")
  proof
    assume "first_some (edge_to E (hex_text (py_get p ''public_key_hex'')) context_id now req d mv) (mv_attestations mv) \<noteq> None"
    then obtain x where x: "x \<in> set (mv_attestations mv)"
        "edge_to E (hex_text (py_get p ''public_key_hex'')) context_id now req d mv x \<noteq> None"
      by (auto simp only: first_some_iff)
    moreover from x(2) obtain a where a: "x = PDict a" by (cases x) (auto simp: edge_to_def)
    ultimately show ?r
      using edge_to_iff [of mv d E p context_id now req a] verify_manifest_fields [OF assms] by (auto simp: PDict as_dict_def)
  next
    assume ?r
    moreover have "mv_authority mv = py_get d ''authority''"
      using verify_manifest_fields [OF assms] by (simp add: PDict as_dict_def)
    note edge_to_iff [OF this, of E p context_id now req]
    ultimately show "first_some (edge_to E (hex_text (py_get p ''public_key_hex'')) context_id now req d mv) (mv_attestations mv) \<noteq> None"
      unfolding first_some_iff by blast
  qed
  show ?thesis
    using t e verify_manifest_fields [OF assms] by (auto simp: attests_def PDict as_dict_def)
qed (use empty_not_authentic [OF assms] in \<open>auto simp: attests_def\<close>)

lemma trust_path_iff:
  "(\<exists>via s. trust_path E (hex_text (py_get p ''public_key_hex'')) context_id now cap anchors req ms = Some (Some (via, s))) \<longleftrightarrow>
     attested E p context_id now cap anchors req ms"
proof (induction ms)
  case Nil
  then show ?case by (simp add: attested_def)
next
  case (Cons m ms)
  show ?case
  proof (cases "verify_manifest E m now cap (Some anchors)")
    case None
    then have "\<not> attests E p context_id now cap anchors req m"
    proof -
      have False if "m = PDict d" "manifest_signed E d" "fresh_now E d now cap" "key_anchored d anchors" for d
        using manifest_trusted [of E d now cap "Some anchors"] that None by simp
      then show ?thesis by (auto simp: attests_def)
    qed
    then show ?thesis using None by (auto simp: attested_def)
  next
    case (Some mv)
    note a = attests_iff [OF Some, of p context_id req]
    show ?thesis
    proof (cases "attests E p context_id now cap anchors req m")
      case True
      then have "attested E p context_id now cap anchors req (m # ms)" by (auto simp: attested_def)
      moreover obtain s where "first_some (edge_to E (hex_text (py_get p ''public_key_hex'')) context_id now req (as_dict m) mv)
          (mv_attestations mv) = Some s"
        using a True by blast
      ultimately show ?thesis using a True by (simp add: Some)
    next
      case False
      then have "attested E p context_id now cap anchors req (m # ms) \<longleftrightarrow> attested E p context_id now cap anchors req ms"
        using Some by (simp add: attested_def)
      moreover have "trust_path E (hex_text (py_get p ''public_key_hex'')) context_id now cap anchors req (m # ms) =
          trust_path E (hex_text (py_get p ''public_key_hex'')) context_id now cap anchors req ms"
        using a False by (auto simp: Some split: option.split)
      ultimately show ?thesis using Cons.IH by simp
    qed
  qed
qed

section \<open>The issuer's key and the feed\<close>

definition text_signed :: "env \<Rightarrow> string list \<Rightarrow> pydict \<Rightarrow> bool" where
  "text_signed E names obj \<longleftrightarrow>
     (case envelope_text_bytes E obj of None \<Rightarrow> False
      | Some (sg, pk) \<Rightarrow>
          fst (two_witness_verify E (canonical_digest E names obj) sg pk (py_get obj ''algorithm'')) = Some True)"

text \<open>A signature field that is text, as in every signed artifact, is read as elsewhere.\<close>

lemma text_signed_text:
  assumes "py_get obj ''signature_hex'' = PStr s" "py_get obj ''public_key_hex'' = PStr k"
  shows "text_signed E names obj \<longleftrightarrow> signed_statement E names obj"
proof -
  have e: "envelope_text_bytes E obj = envelope_bytes obj"
    by (simp add: envelope_text_bytes_def envelope_bytes_def assms py_str_def)
  show ?thesis
  proof (cases "envelope_bytes obj")
    case None
    then show ?thesis
      by (simp add: text_signed_def e signed_statement_def signature_holds_def split: option.split)
  next
    case (Some b)
    obtain sg pk where b: "b = (sg, pk)" by (cases b)
    obtain r tried n where w: "two_witness_verify E (canonical_digest E names obj) sg pk (py_get obj ''algorithm'') = (r, tried, n)"
      by (metis prod_cases3)
    show ?thesis
      using two_witness_True [OF _ w] Some by (simp add: text_signed_def e b w)
  qed
qed

definition trust_list_signed :: "env \<Rightarrow> pydict \<Rightarrow> bool" where
  "trust_list_signed E l \<longleftrightarrow> py_get l ''format'' = PStr TRUST_LIST_FORMAT \<and> \<not> placeholder_envelope l \<and>
     hex_in (py_get l ''public_key_hex'') (trust_list_publisher_keys l) \<and> text_signed E TRUST_LIST_FIELDS l"

lemma trust_list_trusted:
  "tl_authentic (verify_trust_list E (PDict l) now cap (Some anchors)) \<and>
   tl_fresh (verify_trust_list E (PDict l) now cap (Some anchors)) = Some True \<and>
   tl_trusted (verify_trust_list E (PDict l) now cap (Some anchors)) = Some True \<longleftrightarrow>
     trust_list_signed E l \<and> fst (caught_window E l now cap) \<and> key_anchored l anchors"
  by (auto simp: verify_trust_list_def Let_def blank_trust_def trust_list_signed_def text_signed_def key_anchored_def
      split: option.splits prod.splits bool.splits)

lemma trust_list_no_dict: "\<not> tl_authentic (verify_trust_list E (PList xs) now cap ta)"
  "\<forall>d. v \<noteq> PDict d \<Longrightarrow> \<not> tl_authentic (verify_trust_list E v now cap ta)"
  by (auto simp: verify_trust_list_def Let_def blank_trust_def as_dict_def py_get_def split: pyval.splits)

definition key_usable :: "env \<Rightarrow> pyval \<Rightarrow> pydict \<Rightarrow> now_arg \<Rightarrow> pyval option \<Rightarrow> pyval list \<Rightarrow> bool" where
  "key_usable E trust_list p now cap anchors \<longleftrightarrow>
     trust_list = PNone \<or>
     (\<exists>l. trust_list = PDict l \<and> trust_list_signed E l \<and> fst (caught_window E l now cap) \<and> key_anchored l anchors \<and>
        (\<exists>st. key_status_at E trust_list (py_get p ''public_key_hex'') now = Some st \<and>
           st \<noteq> Some KeyCompromised \<and> st \<noteq> Some KeyUnknown))"

lemma key_status_at_text:
  "hex_text v = Some k \<Longrightarrow> key_status_at E l (PStr k) now = key_status_at E l v now"
  using hex_text_idem by (simp add: key_status_at_def)

lemma trust_list_problem_none:
  assumes "hex_text (py_get p ''public_key_hex'') = Some k"
  shows "trust_list_problem E l (Some k) now cap anchors = Some None \<longleftrightarrow> key_usable E l p now cap anchors"
proof (cases "\<exists>d. l = PDict d")
  case True
  then obtain d where d: "l = PDict d" by blast
  show ?thesis
    using trust_list_trusted [of E d now cap anchors]
    by (auto simp: trust_list_problem_def Let_def key_usable_def d key_status_at_text [OF assms]
        split: option.splits)
next
  case False
  then show ?thesis
    using trust_list_no_dict(2) [of l E now cap "Some anchors"] by (auto simp: trust_list_problem_def Let_def key_usable_def)
qed

definition not_listed :: "env \<Rightarrow> pyval \<Rightarrow> pydict \<Rightarrow> now_arg \<Rightarrow> pyval option \<Rightarrow> bool" where
  "not_listed E feed p now cap \<longleftrightarrow>
     feed = PNone \<or>
     (\<exists>f. feed = PDict f \<and> py_get f ''format'' = PStr REVOCATION_FEED_FORMAT \<and>
        signed_statement E REVOCATION_FEED_FIELDS f \<and> feed_commits E f \<and>
        map_option fst (verify_window E f now cap) = Some True \<and>
        same_hex (py_get f ''public_key_hex'') (py_get p ''public_key_hex'') \<and>
        is_revoked E feed (py_get p ''token_value'') = Some False)"

lemma feed_no_dict:
  "\<forall>d. v \<noteq> PDict d \<Longrightarrow> \<exists>r. verify_revocation_feed E v now cap key = Some r \<and> \<not> rf_authentic r"
  by (auto simp: verify_revocation_feed_def Let_def blank_feed_def as_dict_def py_get_def split: pyval.splits)

lemma is_revoked_or_empty: "is_revoked E f (if py_true v then v else PStr []) = is_revoked E f v"
  by (simp add: is_revoked_def py_true_def split: pyval.split)

lemma cross_feed_accept:
  assumes "hex_text (py_get p ''public_key_hex'') = Some k" "xa_decision v = Reject"
  shows "map_option xa_decision (cross_feed E p feed (Some k) now cap v) = Some Accept \<longleftrightarrow> not_listed E feed p now cap"
proof (cases "\<exists>f. feed = PDict f")
  case True
  then obtain f where f: "feed = PDict f" by blast
  have k: "same_hex (py_get f ''public_key_hex'') (PStr k) \<longleftrightarrow> same_hex (py_get f ''public_key_hex'') (py_get p ''public_key_hex'')"
    using assms(1) hex_text_idem by (auto simp: same_hex_def)
  have "map_option xa_decision (cross_feed E p feed (Some k) now cap v) = Some Accept \<longleftrightarrow>
      map_option (\<lambda>v. (rf_authentic v, rf_fresh v, rf_issuer_matches v))
        (verify_revocation_feed E (PDict f) now cap (Some (PStr k))) = Some (True, Some True, Some True) \<and>
      is_revoked E feed (py_get p ''token_value'') = Some False"
    using assms(2) unfolding cross_feed_def is_revoked_or_empty Let_def
    by (auto simp: f split: option.splits bool.splits)
  then show ?thesis
    unfolding feed_authentic_iff not_listed_def f by (simp add: k)
next
  case False
  then obtain r where "feed \<noteq> PNone \<longrightarrow>
      verify_revocation_feed E feed now cap (Some (PStr k)) = Some r \<and> \<not> rf_authentic r"
    using feed_no_dict by blast
  then show ?thesis
    using assms(2) False by (auto simp: cross_feed_def not_listed_def Let_def)
qed

lemma pack_signed_key:
  assumes "pack_signed E p"
  obtains k where "hex_text (py_get p ''public_key_hex'') = Some k"
proof -
  obtain dg where s: "signature_holds E p dg"
    using assms by (auto simp: pack_signed_def split: pyval.splits)
  have "py_true (py_get p ''public_key_hex'')" by (rule signature_holds_envelope [OF s])
  moreover obtain s where "py_get p ''public_key_hex'' = PStr s"
    using s by (auto simp: signature_holds_def envelope_bytes_def unhex_def split: option.splits pyval.splits)
  ultimately show ?thesis using that by (auto simp: py_true_def hex_text_def)
qed

lemma cross_accept:
  "map_option xa_decision (verify_cross_authority E (PDict p) ctx ms now cap ta feed l req) = Some Accept \<longleftrightarrow>
     pack_signed E p \<and> not_listed E feed p now cap \<and>
     (\<exists>anchors. ta = Some anchors \<and> attested E p ctx now cap anchors req (as_list ms) \<and> key_usable E l p now cap anchors)"
  (is "?l \<longleftrightarrow> ?r")
proof (cases "pack_signed E p")
  case False
  then show ?thesis
    by (simp add: verify_cross_authority_def Let_def as_dict_def pack_signed_iff cross_reject_def blank_cross_def)
next
  case True
  then obtain k where k: "hex_text (py_get p ''public_key_hex'') = Some k" by (rule pack_signed_key)
  show ?thesis
  proof (cases ta)
    case None
    then show ?thesis
      by (simp add: verify_cross_authority_def Let_def as_dict_def pack_signed_iff cross_reject_def blank_cross_def)
  next
    case (Some anchors)
    note t = trust_path_iff [of E p ctx now cap anchors req "as_list ms", unfolded k]
    show ?thesis
    proof (cases "attested E p ctx now cap anchors req (as_list ms)")
      case False
      with t have "\<nexists>via s. trust_path E (Some k) ctx now cap anchors req (as_list ms) = Some (Some (via, s))" by blast
      then have "\<not> ?l"
        by (auto simp: verify_cross_authority_def Let_def as_dict_def Some k cross_reject_def blank_cross_def split: option.splits if_splits)
      then show ?thesis using False Some by blast
    next
      case at: True
      then obtain via s where p: "trust_path E (Some k) ctx now cap anchors req (as_list ms) = Some (Some (via, s))"
        using t by blast
      note n = trust_list_problem_none [OF k, of E l now cap anchors]
      show ?thesis
      proof (cases "key_usable E l p now cap anchors")
        case usable: True
        then have "?l \<longleftrightarrow> not_listed E feed p now cap"
          using n cross_feed_accept [OF k]
          by (simp add: verify_cross_authority_def Let_def as_dict_def Some k True pack_signed_iff p blank_cross_def)
        then show ?thesis using usable True Some at by blast
      next
        case False
        then have "\<not> ?l"
          using n True by (auto simp: verify_cross_authority_def Let_def as_dict_def Some k pack_signed_iff p blank_cross_def
              split: option.splits if_splits)
        then show ?thesis using False Some by blast
      qed
    qed
  qed
qed

section \<open>The bundle\<close>

definition bundle_current :: "env \<Rightarrow> pyval \<Rightarrow> now_arg \<Rightarrow> pyval option \<Rightarrow> pyval option \<Rightarrow> bool" where
  "bundle_current E bundle now cap publisher_key \<longleftrightarrow>
     (\<exists>b. bundle = PDict b \<and> py_get b ''format'' = PStr STATUS_BUNDLE_FORMAT \<and> signed_statement E STATUS_BUNDLE_FIELDS b \<and>
        bundle_commits E b \<and> map_option fst (verify_window E b now cap) = Some True \<and>
        (\<forall>k. publisher_key = Some k \<longrightarrow> same_hex (py_get b ''public_key_hex'') k))"

lemma bundle_current_iff:
  "bundle_current E bundle now cap key \<longleftrightarrow>
     (\<exists>bv. verify_status_bundle E bundle now cap key = Some bv \<and> sb_authentic bv \<and> sb_fresh bv = Some True \<and>
        (key = None \<or> sb_publisher_matches bv = Some True) \<and>
        sb_members bv = PList (as_list (py_get (as_dict bundle) ''members'')))" (is "?l \<longleftrightarrow> ?r")
proof
  assume ?l
  then obtain b where b: "bundle = PDict b" "py_get b ''format'' = PStr STATUS_BUNDLE_FORMAT"
      "signed_statement E STATUS_BUNDLE_FIELDS b" "bundle_commits E b" "map_option fst (verify_window E b now cap) = Some True"
      "\<forall>k. key = Some k \<longrightarrow> same_hex (py_get b ''public_key_hex'') k"
    by (auto simp: bundle_current_def)
  then show ?r
    by (elim signed_statementE) (cases key; auto simp: verify_status_bundle_def Let_def blank_bundle_def as_dict_def)
next
  assume r: ?r
  then obtain b where b: "bundle = PDict b"
    by (cases "bundle") (auto simp: verify_status_bundle_def Let_def blank_bundle_def as_dict_def py_get_def)
  show ?l
    using r by (auto simp: verify_status_bundle_def Let_def blank_bundle_def b bundle_current_def dest: two_witness_TrueD
        split: option.splits prod.splits bool.splits if_splits)
qed

lemma bundled_accept:
  "map_option (xa_decision \<circ> bd_verdict)
     (verify_cross_authority_via_bundle E (PDict p) ctx ms bundle now cap ta key req) = Some Accept \<longleftrightarrow>
   bundle_current E bundle now cap key \<and>
   (\<exists>m. bundle_member (hex_text (py_get p ''public_key_hex'')) (as_list (py_get (as_dict bundle) ''members'')) = Some m \<and>
      map_option xa_decision (verify_cross_authority E (PDict p) ctx (PList (as_list ms)) now cap ta
        (py_get m ''revocation_feed'') PNone req) = Some Accept \<and>
      epoch_binding E (py_get m ''epoch_checkpoint'') now cap (hex_text (py_get p ''public_key_hex'')) \<noteq> None)"
  (is "?l \<longleftrightarrow> ?r")
proof (cases "bundle_current E bundle now cap key")
  case True
  then obtain bv where bv: "verify_status_bundle E bundle now cap key = Some bv" "sb_authentic bv" "sb_fresh bv = Some True"
      "key = None \<or> sb_publisher_matches bv = Some True" "sb_members bv = PList (as_list (py_get (as_dict bundle) ''members''))"
    by (auto simp: bundle_current_iff)
  have l: "as_list (PList xs) = xs" for xs by (simp add: as_list_def)
  show ?thesis
    using True bv(4) unfolding verify_cross_authority_via_bundle_def Let_def bv(1) option.case
    by (auto simp: bv(2,3,5) l as_dict_def bundled_reject_def cross_reject_def blank_cross_def split: option.splits)
next
  case False
  have "\<not> ?l"
  proof (cases "verify_status_bundle E bundle now cap key")
    case (Some bv)
    have m: "sb_members bv = PList (as_list (py_get (as_dict bundle) ''members''))" if "sb_authentic bv"
      using Some that by (auto simp: verify_status_bundle_def Let_def blank_bundle_def
          split: option.splits prod.splits bool.splits if_splits)
    show ?thesis
      using False m by (auto simp: bundle_current_iff Some verify_cross_authority_via_bundle_def Let_def bundled_reject_def
          cross_reject_def blank_cross_def)
  qed (simp add: verify_cross_authority_via_bundle_def Let_def)
  then show ?thesis using False by blast
qed

lemma bundle_memberD:
  assumes "bundle_member (hex_text v) members = Some m"
  shows "\<exists>f. PDict m \<in> set members \<and> py_get m ''revocation_feed'' = PDict f \<and> same_hex (py_get f ''public_key_hex'') v"
proof -
  obtain x where x: "x \<in> set members" "m = as_dict x"
    and f: "case py_get (as_dict x) ''revocation_feed'' of
        PDict feed \<Rightarrow> hex_text v \<noteq> None \<and> hex_text (py_get feed ''public_key_hex'') = hex_text v | _ \<Rightarrow> False"
    using assms unfolding bundle_member_def by (auto simp: find_Some_iff) (metis nth_mem)
  from f have "\<exists>d. x = PDict d" by (cases x) (auto simp: as_dict_def py_get_def)
  with x f show ?thesis by (auto simp: as_dict_def same_hex_def split: pyval.splits)
qed

section \<open>A key's status over time\<close>

text \<open>From bad to worse.\<close>

fun severity :: "key_status \<Rightarrow> nat" where
  "severity KeyActive = 0"
| "severity KeyRetired = 1"
| "severity KeyCompromised = 2"
| "severity KeyUnknown = 3"

lemma reached_at:
  "reached (Some t) bound absent = Some (case bound of None \<Rightarrow> absent | Some b \<Rightarrow> b \<le> t)"
  by (simp add: reached_def split: option.split)

lemma entry_status_worsens:
  assumes "entry_status_at E k (Some t) = Some (Some s)" "t \<le> u"
  shows "\<exists>s'. entry_status_at E k (Some u) = Some (Some s') \<and> severity s \<le> severity s'"
  using assms by (auto simp: entry_status_at_def Let_def reached_at split: option.splits if_splits bool.splits)

lemma key_status_worsens:
  assumes "key_status_at E l pk (NowDatetime t) = Some (Some s)" "t \<le> u"
  shows "\<exists>s'. key_status_at E l pk (NowDatetime u) = Some (Some s') \<and> severity s \<le> severity s'"
  using assms entry_status_worsens [OF _ assms(2)]
  by (auto simp: key_status_at_def key_instant_def split: pyval.splits option.splits)

text \<open>Which comparisons a naive instant meets, each of which raises.\<close>

definition dated :: "env \<Rightarrow> pydict \<Rightarrow> bool" where
  "dated E k \<longleftrightarrow> key_date E k ''registered_at'' \<noteq> None \<or>
     py_get k ''status'' = PStr (lit ''compromised'') \<and> key_date E k ''compromised_at'' \<noteq> None \<or>
     py_get k ''status'' = PStr (lit ''retired'') \<and> key_date E k ''retired_at'' \<noteq> None"

lemma entry_naive: "entry_status_at E k None = None \<longleftrightarrow> dated E k"
  by (auto simp: entry_status_at_def Let_def reached_def dated_def lit_eq_iff split: option.splits)

lemma key_status_naive:
  "key_status_at E l pk (NowNaive t) = None \<longleftrightarrow>
     (\<exists>d want k. l = PDict d \<and> hex_text pk = Some want \<and> key_entry d want = Some k \<and> dated E k)"
  by (auto simp: key_status_at_def key_instant_def entry_naive split: pyval.splits option.splits)

text \<open>A date west of Greenwich, which \<open>_parse_iso\<close> reads and \<open>_at\<close>, appending a \<open>Z\<close>, does not.\<close>

definition west_text :: "nat \<Rightarrow> nat \<Rightarrow> nat \<Rightarrow> nat \<Rightarrow> nat \<Rightarrow> nat \<Rightarrow> nat \<Rightarrow> nat \<Rightarrow> ustr" where
  "west_text y m d hh mi ss oh om =
     digits4 y @ [45] @ digits2 m @ [45] @ digits2 d @ [84] @ digits2 hh @ [58] @ digits2 mi @ [58] @ digits2 ss
     @ [45] @ digits2 oh @ [58] @ digits2 om"

lemma west_text_instant:
  assumes "valid_date y m d" "hh \<le> 23" "mi \<le> 59" "ss \<le> 59" "oh \<le> 23" "om \<le> 59"
  shows "strict_instant (west_text y m d hh mi ss oh om) = make_instant y m d hh mi ss 0 (- int (oh * 60 + om))"
    and "strict_instant (west_text y m d hh mi ss oh om @ [90]) = None"
proof -
  have d31: "days_in_month y m \<le> 31" by (simp add: days_in_month_def)
  then have lt: "y < 10000" "m < 100" "d < 100" "hh < 100" "mi < 100" "ss < 100" "oh < 100" "om < 100"
    using assms unfolding valid_date_def by linarith+
  have z: "zone_part (45 # digits2 oh @ 58 # digits2 om) = Some (- int (oh * 60 + om))"
    "zone_part (45 # digits2 oh @ 58 # digits2 om @ [90]) = None"
    using assms lt take_digits2 [of om 0 "[]"] by (simp_all add: zone_part_def take_digits2)
  have "seconds_part (58 # digits2 ss @ 45 # r) = (ss, 0, 45 # r)" for r
    by (cases r) (simp_all add: seconds_part_def take_digits2 lt fraction_part_def)
  then have t: "time_part (84 # digits2 hh @ 58 # digits2 mi @ 58 # digits2 ss @ 45 # r) = (hh, mi, ss, 0, 45 # r)" for r
    by (simp add: time_part_def take_digits2 lt)
  show "strict_instant (west_text y m d hh mi ss oh om) = make_instant y m d hh mi ss 0 (- int (oh * 60 + om))"
    "strict_instant (west_text y m d hh mi ss oh om @ [90]) = None"
    using t z by (simp_all add: west_text_def strict_instant_def take_digits4 take_digits2 lt)
qed

lemma west_not_plus:
  assumes "y < 10000" "m < 100" "d < 100" "hh < 100" "mi < 100" "ss < 100" "oh < 100" "om < 100"
  shows "43 \<notin> set (west_text y m d hh mi ss oh om)" "List.last (west_text y m d hh mi ss oh om) \<noteq> 90"
    "west_text y m d hh mi ss oh om \<noteq> []"
proof -
  have "om mod 10 < 10" by simp
  then show "List.last (west_text y m d hh mi ss oh om) \<noteq> 90"
    by (simp add: west_text_def digits2_def)
  show "43 \<notin> set (west_text y m d hh mi ss oh om)" "west_text y m d hh mi ss oh om \<noteq> []"
    by (simp_all add: west_text_def digits4_def digits2_def)
qed

lemma west_date_ignored:
  assumes "valid_date y m d" "hh \<le> 23" "mi \<le> 59" "ss \<le> 59" "oh \<le> 23" "om \<le> 59"
    and "py_get k name = PStr (west_text y m d hh mi ss oh om)"
  shows "key_date E k name = None"
proof -
  have d31: "days_in_month y m \<le> 31" by (simp add: days_in_month_def)
  then have lt: "y < 10000" "m < 100" "d < 100" "hh < 100" "mi < 100" "ss < 100" "oh < 100" "om < 100"
    using assms unfolding valid_date_def by linarith+
  show ?thesis
    using west_text_instant(2) [OF assms(1-6)] west_not_plus [OF lt] by (simp add: key_date_def Let_def assms(7) py_str_def)
qed

lemma registration_ignored:
  assumes "valid_date y m d" "hh \<le> 23" "mi \<le> 59" "ss \<le> 59" "oh \<le> 23" "om \<le> 59"
    and "py_get k ''registered_at'' = PStr (west_text y m d hh mi ss oh om)" "py_get k ''status'' = PStr (lit ''active'')"
  shows "entry_status_at E k i = Some (Some KeyActive)"
  using west_date_ignored [OF assms(1-7), of E] by (simp add: entry_status_at_def Let_def reached_def assms(8) lit_eq_iff)

section \<open>Properties\<close>

text \<open>
  C17. The decision on another authority's credential accepts exactly when the credential is genuine,
  some manifest that a trusted anchor signed and that is fresh carries an edge to the credential's key
  in the presented context, the edge being open now and, where it is signed or has to be, signed by an
  active root of that manifest's authority; a trust list beside it is genuine and does not hold the key
  compromised or under a status it does not know; and a revocation feed beside it is the issuer's own,
  genuine and fresh, and does not list the credential.
\<close>

theorem cross_authority_accepts_exactly:
  "map_option xa_decision (verify_cross_authority E (PDict p) ctx ms now cap ta feed l req) = Some Accept \<longleftrightarrow>
     pack_signed E p \<and> not_listed E feed p now cap \<and>
     (\<exists>anchors. ta = Some anchors \<and> attested E p ctx now cap anchors req (as_list ms) \<and> key_usable E l p now cap anchors)"
  by (rule cross_accept)

text \<open>
  The aggregator cannot change the answer: with a bundle the decision accepts exactly when the
  bundle is genuine, fresh and its publisher's, it has a member for the credential's key, and the
  decision on that member's own feed accepts (the member's checkpoint, where it has one, not making its
  check raise). A credential whose issuer the bundle leaves out is never accepted.
\<close>

theorem bundle_decides_as_the_feed:
  "map_option (xa_decision \<circ> bd_verdict)
     (verify_cross_authority_via_bundle E (PDict p) ctx ms bundle now cap ta key req) = Some Accept \<longleftrightarrow>
   bundle_current E bundle now cap key \<and>
   (\<exists>m. bundle_member (hex_text (py_get p ''public_key_hex'')) (as_list (py_get (as_dict bundle) ''members'')) = Some m \<and>
      map_option xa_decision (verify_cross_authority E (PDict p) ctx (PList (as_list ms)) now cap ta
        (py_get m ''revocation_feed'') PNone req) = Some Accept \<and>
      epoch_binding E (py_get m ''epoch_checkpoint'') now cap (hex_text (py_get p ''public_key_hex'')) \<noteq> None)"
  by (rule bundled_accept)

text \<open>
  C18. A key never recovers: once a trust list gives a key a status at an instant, at every later instant
  it gives the key one at least as bad, in the order active, retired, compromised, unknown.
\<close>

theorem key_never_recovers:
  assumes "key_status_at E l pk (NowDatetime t) = Some (Some s)" "t \<le> u"
  shows "\<exists>s'. key_status_at E l pk (NowDatetime u) = Some (Some s') \<and> severity s \<le> severity s'"
  by (rule key_status_worsens [OF assms])

definition sample_trust :: pyval where
  "sample_trust = PDict [(lit ''keys'', PList [PDict [(lit ''public_key_hex'', PStr (lit ''AB'')),
     (lit ''status'', PStr (lit ''compromised'')), (lit ''compromised_at'', PStr (iso_text 2026 10 21 12 0 0))]])]"

lemma key_never_recovers_witness:
  "\<exists>s'. key_status_at no_backend sample_trust (PStr (lit ''ab'')) (NowDatetime (10 ^ 18)) = Some (Some s') \<and>
     severity KeyActive \<le> severity s'"
proof (rule key_never_recovers [where t = 0])
  have i: "strict_instant (iso_text 2026 10 21 12 0 0) = make_instant 2026 10 21 12 0 0 0 0"
    by (rule strict_instant_iso_text) (simp_all add: valid_date_def days_in_month_def leap_year_def)
  moreover have "List.last (iso_text 2026 10 21 12 0 0) = 90" "iso_text 2026 10 21 12 0 0 \<noteq> []"
    by (simp_all add: iso_text_def)
  ultimately have "reached (Some 0) (key_date no_backend [(lit ''public_key_hex'', PStr (lit ''AB'')),
     (lit ''status'', PStr (lit ''compromised'')), (lit ''compromised_at'', PStr (iso_text 2026 10 21 12 0 0))] ''compromised_at'') True
       = Some False"
    by (simp add: reached_def key_date_def Let_def py_str_def py_true_def make_instant_def valid_date_def days_in_month_def
        leap_year_def days_before_year_def)
  then show "key_status_at no_backend sample_trust (PStr (lit ''ab'')) (NowDatetime 0) = Some (Some KeyActive)"
    by (simp add: key_status_at_def key_instant_def sample_trust_def key_entry_def hex_text_def py_lower_def lit_def
        entry_status_at_def Let_def key_date_def reached_def py_true_def)
qed simp

text \<open>
  The instant has to be aware: with a naive datetime, which every other gate reads as UTC,
  \<open>key_status_at\<close> raises exactly when the list holds the key and gives it a date its status makes the
  code compare.
\<close>

theorem naive_instant_raises:
  "key_status_at E l pk (NowNaive t) = None \<longleftrightarrow>
     (\<exists>d want k. l = PDict d \<and> hex_text pk = Some want \<and> key_entry d want = Some k \<and> dated E k)"
  by (rule key_status_naive)

end
