(* ===== verification/Timestamps.thy ===== *)
theory Timestamps
  imports LogAudit Federation
begin

text \<open>
  Timestamps and the two logs of past events, in \<open>polaris_verify_cli/verifier.py\<close>: the timestamp
  (\<open>verify_timestamp\<close>, \<open>timestamp_binds\<close>), its anchor in the timestamp log
  (\<open>verify_timestamp_anchor\<close>) and the inclusion of an exchange receipt in the receipt log
  (\<open>verify_receipt_inclusion\<close>).
\<close>

section \<open>The timestamp\<close>

definition TIMESTAMP_FORMAT :: ustr where "TIMESTAMP_FORMAT = lit ''polaris-timestamp/1''"
definition EXCHANGE_RECEIPT_FORMAT :: ustr where "EXCHANGE_RECEIPT_FORMAT = lit ''polaris-exchange-receipt/1''"

definition TIMESTAMP_FIELDS :: "string list" where
  "TIMESTAMP_FIELDS = [''format'', ''authority'', ''digest_hex'', ''digest_algorithm'', ''nonce'', ''issued_at'', ''algorithm'']"

definition EXCHANGE_RECEIPT_FIELDS :: "string list" where
  "EXCHANGE_RECEIPT_FIELDS = [''format'', ''requester'', ''responder'', ''context_id'', ''request_hash'',
     ''response_hash'', ''authorized_via'', ''occurred_at'', ''algorithm'']"

datatype timestamp_note = TsNote vnote | TsBadInstant | TsNotLowercaseDigest

record timestamp_verdict =
  ts_authentic :: bool
  ts_trusted :: "bool option"
  ts_digest_hex :: pyval
  ts_digest_algorithm :: pyval
  ts_nonce :: pyval
  ts_issued_at :: pyval
  ts_witnesses :: "(string \<times> bool) list"
  ts_note :: "timestamp_note option"

definition blank_timestamp :: "pydict \<Rightarrow> timestamp_verdict" where
  "blank_timestamp ts =
     \<lparr>ts_authentic = False, ts_trusted = None, ts_digest_hex = py_get ts ''digest_hex'',
      ts_digest_algorithm = py_get ts ''digest_algorithm'', ts_nonce = py_get ts ''nonce'',
      ts_issued_at = py_get ts ''issued_at'', ts_witnesses = [], ts_note = None\<rparr>"

text \<open>\<open>digest_algorithm\<close> is SHA3-256 and \<open>digest_hex\<close> its 64 lower-case digits.\<close>

definition lower_digest :: "pydict \<Rightarrow> bool" where
  "lower_digest ts \<longleftrightarrow> py_get ts ''digest_algorithm'' = PStr (lit ''SHA3-256'') \<and>
     (case py_get ts ''digest_hex'' of
        PStr s \<Rightarrow> length s = 64 \<and> list_all (\<lambda>c. 48 \<le> c \<and> c \<le> 57 \<or> 97 \<le> c \<and> c \<le> 102) s
      | _ \<Rightarrow> False)"

text \<open>The body repeats \<open>_two_witness_verify\<close> line by line, as that of \<open>verify_trust_list\<close> does.\<close>

definition verify_timestamp :: "env \<Rightarrow> pyval \<Rightarrow> pyval list option \<Rightarrow> timestamp_verdict" where
  "verify_timestamp E timestamp anchor_keys =
     (let ts = as_dict timestamp; v = blank_timestamp ts; noted = (\<lambda>w. v\<lparr>ts_note := Some (TsNote w)\<rparr>)
      in if placeholder_envelope ts then noted Placeholder
         else if py_get ts ''format'' \<noteq> PStr TIMESTAMP_FORMAT then noted (NotA TIMESTAMP_FORMAT)
         else
           (case envelope_text_bytes E ts of None \<Rightarrow> noted NotHex
            | Some (sg, pk) \<Rightarrow>
                (case two_witness_verify E (canonical_digest E TIMESTAMP_FIELDS ts) sg pk (py_get ts ''algorithm'') of
                   (None, tried, n) \<Rightarrow> v\<lparr>ts_witnesses := tried, ts_note := map_option TsNote n\<rparr>
                 | (Some False, tried, n) \<Rightarrow> v\<lparr>ts_witnesses := tried, ts_note := map_option TsNote (or_note n BadSignature)\<rparr>
                 | (Some True, tried, n) \<Rightarrow>
                     let v2 = v\<lparr>ts_witnesses := tried\<rparr>
                     in if instant_at ts ''issued_at'' = None then v2\<lparr>ts_note := Some TsBadInstant\<rparr>
                        else if \<not> lower_digest ts then v2\<lparr>ts_note := Some TsNotLowercaseDigest\<rparr>
                        else v2\<lparr>ts_authentic := True,
                          ts_trusted := map_option (\<lambda>ks. hex_in (py_get ts ''public_key_hex'') (map hex_text ks)) anchor_keys\<rparr>)))"

text \<open>
  \<open>str(x or "SHA3-256").upper() != "SHA3-256"\<close>. Of the characters outside a to z, only the long s
  (U+017F) has an upper case that is a letter of the name.
\<close>

definition upper_char :: "nat \<Rightarrow> nat" where
  "upper_char c = (if 97 \<le> c \<and> c \<le> 122 then c - 32 else if c = 0x17F then 83 else c)"

definition names_sha3 :: "env \<Rightarrow> pyval \<Rightarrow> bool" where
  "names_sha3 E v \<longleftrightarrow> (if py_true v then map upper_char (py_str E v) = lit ''SHA3-256'' else True)"

definition timestamp_binds :: "env \<Rightarrow> pyval \<Rightarrow> bytes \<Rightarrow> bool option" where
  "timestamp_binds E timestamp data =
     (case timestamp of PDict ts \<Rightarrow>
        if \<not> names_sha3 E (py_get ts ''digest_algorithm'') then None
        else Some (Some (hex_of (sha3 E data)) = hex_text (py_get ts ''digest_hex''))
      | _ \<Rightarrow> None)"

section \<open>An entry in a log\<close>

definition RECEIPT_LOG_ID :: ustr where "RECEIPT_LOG_ID = lit ''polaris-exchange-receipt-log''"
definition TIMESTAMP_LOG_ID :: ustr where "TIMESTAMP_LOG_ID = lit ''polaris-timestamp-log''"

text \<open>The hexadecimal digest of the canonical statement; \<open>None\<close> where there is no canonical text.\<close>

definition receipt_hash :: "env \<Rightarrow> pydict \<Rightarrow> ustr option" where
  "receipt_hash E receipt = map_option hex_of (canonical_digest E EXCHANGE_RECEIPT_FIELDS receipt)"

definition timestamp_hash :: "env \<Rightarrow> pydict \<Rightarrow> ustr option" where
  "timestamp_hash E ts = map_option hex_of (canonical_digest E TIMESTAMP_FIELDS ts)"

datatype inclusion_note =
    NotAnObject | NoAnchor | AnchorPartsNotObjects | HashNotJson | ProofForOther | HeadOfOtherLog | ProofMalformed | DifferentTrees
  | HeadUnsigned "vnote option" | NoLogKeyNamed | NotByLogKey | NotReconstructed | NotWitnessed witnessed_note

record inclusion_verdict =
  iv_included :: bool
  iv_sth_authentic :: bool
  iv_log_matches :: "bool option"
  iv_hash :: "ustr option"
  iv_index :: "int option"
  iv_tree_size :: "int option"
  iv_note :: "inclusion_note option"

definition blank_inclusion :: inclusion_verdict where
  "blank_inclusion =
     \<lparr>iv_included = False, iv_sth_authentic = False, iv_log_matches = None, iv_hash = None, iv_index = None,
      iv_tree_size = None, iv_note = None\<rparr>"

text \<open>
  The steps the two functions share, from the hash on: the proof is for it, the head is of the log
  (\<open>log_ok\<close>), signed by its key, of the tree the proof is about, and reconstructed by it.
\<close>

definition read_proof :: "env \<Rightarrow> pydict \<Rightarrow> pydict \<Rightarrow> (int \<times> int \<times> bytes \<times> bytes list) option" where
  "read_proof E proof sth =
     (case (wire_int (py_get proof ''index''), wire_int (py_get proof ''tree_size''),
            unhex (PStr (py_str E (py_get sth ''root_hash_hex''))), wire_path (py_get proof ''proof_hex'')) of
        (Inr idx, Inr width, Some rt, Some pth) \<Rightarrow> Some (idx, width, rt, pth) | _ \<Rightarrow> None)"

definition included_under ::
    "env \<Rightarrow> ustr \<Rightarrow> pydict \<Rightarrow> pydict \<Rightarrow> pyval option \<Rightarrow> bool \<Rightarrow> inclusion_verdict" where
  "included_under E h proof sth log_key log_ok =
     (let v = blank_inclusion\<lparr>iv_hash := Some h\<rparr> in
      if hex_text (py_get proof ''entry_hex'') \<noteq> Some h then v\<lparr>iv_note := Some ProofForOther\<rparr>
      else
        let sv = verify_sth E (PDict sth) log_key;
            v2 = v\<lparr>iv_sth_authentic := th_authentic sv,
              iv_log_matches := (if log_key = None then None else th_issuer_matches sv)\<rparr>
        in if \<not> log_ok then v2\<lparr>iv_note := Some HeadOfOtherLog\<rparr>
           else
             (case read_proof E proof sth of None \<Rightarrow> v2\<lparr>iv_note := Some ProofMalformed\<rparr>
              | Some (idx, width, rt, pth) \<Rightarrow>
                  let v3 = v2\<lparr>iv_index := Some idx, iv_tree_size := Some width\<rparr>
                  in if \<not> py_eq (PInt width) (py_get sth ''tree_size'') \<or>
                        \<not> same_hex (py_get proof ''root_hash_hex'') (py_get sth ''root_hash_hex'') then
                       v3\<lparr>iv_note := Some DifferentTrees\<rparr>
                     else if \<not> th_authentic sv then v3\<lparr>iv_note := Some (HeadUnsigned (th_note sv))\<rparr>
                     else if log_key = None then v3\<lparr>iv_note := Some NoLogKeyNamed\<rparr>
                     else if iv_log_matches v2 \<noteq> Some True then v3\<lparr>iv_note := Some NotByLogKey\<rparr>
                     else
                       let ok = (case lh (sha3 E) h of None \<Rightarrow> False
                         | Some leaf \<Rightarrow> verify_inclusion (sha3 E) (PInt idx) (PInt width) leaf rt pth)
                       in v3\<lparr>iv_included := ok, iv_note := (if ok then None else Some NotReconstructed)\<rparr>))"

record anchor_verdict =
  ta_inclusion :: inclusion_verdict
  ta_witnessed :: "bool option"
  ta_cosigner_count :: nat
  ta_note :: "inclusion_note option"

definition unanchored :: "inclusion_note \<Rightarrow> anchor_verdict" where
  "unanchored why =
     \<lparr>ta_inclusion = blank_inclusion, ta_witnessed = None, ta_cosigner_count = 0, ta_note = Some why\<rparr>"

text \<open>Witnesses are asked for only of a head the proof reconstructs; a threshold past a float's range raises.\<close>

definition verify_timestamp_anchor ::
    "env \<Rightarrow> pyval \<Rightarrow> pyval option \<Rightarrow> pyval list option \<Rightarrow> pyval \<Rightarrow> anchor_verdict option" where
  "verify_timestamp_anchor E timestamp log_key trusted_witnesses threshold =
     (case timestamp of PDict ts \<Rightarrow>
        (case py_get ts ''anchor'' of PDict anchor \<Rightarrow>
           (case (py_get anchor ''proof'', py_get anchor ''sth'') of
              (PDict proof, PDict sth) \<Rightarrow>
                (case timestamp_hash E ts of None \<Rightarrow> Some (unanchored HashNotJson)
                 | Some h \<Rightarrow>
                     let iv = included_under E h proof sth log_key
                           (py_get sth ''log_id'' = PStr TIMESTAMP_LOG_ID \<and>
                            py_get proof ''log_id'' \<in> {PNone, PStr TIMESTAMP_LOG_ID});
                         v = \<lparr>ta_inclusion = iv, ta_witnessed = None, ta_cosigner_count = 0, ta_note = iv_note iv\<rparr>
                     in if \<not> iv_included iv \<or> trusted_witnesses = None then Some v
                        else
                          (case verify_witnessed_checkpoint E (PDict sth)
                                  (if py_true (py_get anchor ''cosignatures'') then py_get anchor ''cosignatures'' else PList [])
                                  trusted_witnesses threshold log_key of
                             None \<Rightarrow> None
                           | Some wv \<Rightarrow>
                               Some (v\<lparr>ta_witnessed := Some (wc_witnessed wv), ta_cosigner_count := wc_cosigner_count wv,
                                 ta_note := (if wc_witnessed wv then None else Some (NotWitnessed (wc_note wv)))\<rparr>)))
            | _ \<Rightarrow> Some (unanchored AnchorPartsNotObjects))
         | _ \<Rightarrow> Some (unanchored NoAnchor))
      | _ \<Rightarrow> Some (unanchored NotAnObject))"

text \<open>\<open>receipt_hash\<close> is called outside any \<open>try\<close>: a receipt with no canonical text makes it raise.\<close>

definition verify_receipt_inclusion ::
    "env \<Rightarrow> pyval \<Rightarrow> pyval \<Rightarrow> pyval \<Rightarrow> pyval option \<Rightarrow> inclusion_verdict option" where
  "verify_receipt_inclusion E receipt0 proof0 sth0 log_key =
     (case (receipt0, proof0, sth0) of
        (PDict receipt, PDict proof, PDict sth) \<Rightarrow>
          map_option (\<lambda>h. included_under E h proof sth log_key (py_get sth ''log_id'' = PStr RECEIPT_LOG_ID))
            (receipt_hash E receipt)
      | _ \<Rightarrow> Some (blank_inclusion\<lparr>iv_note := Some NotAnObject\<rparr>))"

section \<open>What the checks establish\<close>

lemma timestamp_authentic_iff:
  "ts_authentic (verify_timestamp E (PDict ts) ak) \<longleftrightarrow>
     py_get ts ''format'' = PStr TIMESTAMP_FORMAT \<and> \<not> placeholder_envelope ts \<and> text_signed E TIMESTAMP_FIELDS ts \<and>
     instant_at ts ''issued_at'' \<noteq> None \<and> lower_digest ts"
  by (auto simp: verify_timestamp_def Let_def blank_timestamp_def text_signed_def split: option.splits prod.splits bool.splits)

lemma timestamp_trusted:
  assumes "ts_authentic (verify_timestamp E (PDict ts) ak)"
  shows "ts_trusted (verify_timestamp E (PDict ts) ak) = map_option (key_anchored ts) ak"
  using assms by (auto simp: verify_timestamp_def Let_def blank_timestamp_def key_anchored_def [abs_def]
      split: option.splits prod.splits bool.splits if_splits)

lemma fromhex_total: "list_all (\<lambda>c. hex_digit c \<noteq> None) s \<Longrightarrow> even (length s) \<Longrightarrow> \<exists>bs. fromhex s = Some bs"
  by (induction s rule: fromhex.induct) (auto split: option.splits)

lemma lower_digest_hex:
  assumes "lower_digest ts"
  obtains d where "length d = 32" "py_get ts ''digest_hex'' = PStr (hex_of d)"
proof -
  obtain s where s: "py_get ts ''digest_hex'' = PStr s" "length s = 64"
    and c: "list_all (\<lambda>c. 48 \<le> c \<and> c \<le> 57 \<or> 97 \<le> c \<and> c \<le> 102) s"
    using assms by (auto simp: lower_digest_def split: pyval.splits)
  have "list_all (\<lambda>c. hex_digit c \<noteq> None) s"
    using c by (auto simp: list_all_iff hex_digit_def)
  then obtain d where d: "fromhex s = Some d" using s(2) fromhex_total by force
  have "py_lower s = s"
    using c unfolding py_lower_def by (intro map_idI) (auto simp: list_all_iff)
  with fromhex_hex_of_lower [OF d] have h: "s = hex_of d" by simp
  then have "length d = 32" using s(2) by simp
  then show ?thesis using that s(1) h by simp
qed

text \<open>An authentic timestamp binds exactly the data whose digest it names.\<close>

lemma binds_exact:
  assumes "ts_authentic (verify_timestamp E (PDict ts) ak)"
  shows "timestamp_binds E (PDict ts) data = Some (py_get ts ''digest_hex'' = PStr (hex_of (sha3 E data)))"
proof -
  have l: "lower_digest ts" using assms by (simp add: timestamp_authentic_iff)
  then obtain d where d: "length d = 32" "py_get ts ''digest_hex'' = PStr (hex_of d)" by (rule lower_digest_hex)
  have a: "py_get ts ''digest_algorithm'' = PStr (lit ''SHA3-256'')" using l by (simp add: lower_digest_def)
  have n: "names_sha3 E (PStr (lit ''SHA3-256''))"
    by (simp add: names_sha3_def py_true_def py_str_def upper_char_def lit_def)
  have "hex_of d \<noteq> []" using d(1) by (simp flip: length_greater_0_conv)
  then have "hex_text (PStr (hex_of d)) = Some (hex_of d)"
    using fromhex_hex_of_lower [OF fromhex_hex_of, of d] by (simp add: hex_text_def)
  then show ?thesis by (simp add: timestamp_binds_def a n d(2) hex_of_inject) metis
qed

text \<open>Every check on the proof and the head holds.\<close>

definition head_for :: "env \<Rightarrow> pydict \<Rightarrow> pydict \<Rightarrow> pyval option \<Rightarrow> int \<Rightarrow> int \<Rightarrow> bytes \<Rightarrow> bytes list \<Rightarrow> bool" where
  "head_for E proof sth log_key idx width rt pth \<longleftrightarrow>
     read_proof E proof sth = Some (idx, width, rt, pth) \<and> py_eq (PInt width) (py_get sth ''tree_size'') \<and>
     same_hex (py_get proof ''root_hash_hex'') (py_get sth ''root_hash_hex'') \<and> sth_signed E sth \<and> signed_by_key sth log_key"

lemma included_iff:
  "iv_included (included_under E h proof sth log_key log_ok) \<longleftrightarrow>
     hex_text (py_get proof ''entry_hex'') = Some h \<and> log_ok \<and>
     (\<exists>idx width rt pth leaf. head_for E proof sth log_key idx width rt pth \<and> lh (sha3 E) h = Some leaf \<and>
        verify_inclusion (sha3 E) (PInt idx) (PInt width) leaf rt pth)"
  using verify_sth_matches [of E sth log_key] verify_sth_authentic [of E sth log_key] verify_sth_issuer [of E sth log_key]
  by (cases log_key) (auto simp: included_under_def Let_def blank_inclusion_def head_for_def signed_by_key_def split: option.splits if_splits)

lemma included_recorded:
  assumes "iv_included (included_under E h proof sth log_key log_ok)"
    and "unhex (py_get sth ''root_hash_hex'') = merkle_tree_head (sha3 E) es"
    and "py_get sth ''tree_size'' = PInt (int (length es))" "encodable es" "hash32 (sha3 E)"
    and "inj_on (sha3 E) ({0 # the (utf8_encode h)} \<union> set (tree_inputs (sha3 E) es) \<union>
      set (incl_inputs (sha3 E) (nat (projr (wire_int (py_get proof ''index'')))) (length es - 1)
        (the (lh (sha3 E) h)) (the (wire_path (py_get proof ''proof_hex'')))))"
  shows "\<exists>i. wire_int (py_get proof ''index'') = Inr (int i) \<and> i < length es \<and> es ! i = h"
proof -
  obtain idx width rt pth leaf where c: "head_for E proof sth log_key idx width rt pth" and leaf: "lh (sha3 E) h = Some leaf"
    and v: "verify_inclusion (sha3 E) (PInt idx) (PInt width) leaf rt pth"
    using assms(1) by (auto simp: included_iff)
  have r: "wire_int (py_get proof ''index'') = Inr idx" "unhex (PStr (py_str E (py_get sth ''root_hash_hex''))) = Some rt"
      "wire_path (py_get proof ''proof_hex'') = Some pth"
    using c by (auto simp: head_for_def read_proof_def split: sum.splits option.splits)
  obtain s where "py_get sth ''root_hash_hex'' = PStr s"
    using c by (auto simp: head_for_def same_hex_def hex_text_def split: pyval.splits)
  then have rt: "unhex (py_get sth ''root_hash_hex'') = Some rt" using r(2) by (simp add: py_str_def)
  have w: "width = int (length es)" using c assms(3) by (simp add: head_for_def num_value_def)
  have "wire_int (PInt (int (length es))) = Inr (int (length es))"
    using c assms(3) by (intro signed_count_wire_int) (simp add: head_for_def sth_signed_def)
  moreover have "wire_int (PInt idx) = Inr idx"
    using v by (auto simp: verify_inclusion_def wire_int_def finite_num_def split: sum.splits option.splits if_splits)
  ultimately show ?thesis
    using accepted_inclusion [OF v _ _ leaf assms(4,5)] assms(2,6) r rt leaf w by auto
qed

lemma receipt_inclusion_raises:
  "verify_receipt_inclusion E (PDict r) (PDict pr) (PDict sth) key = None \<longleftrightarrow>
     canonical_json (frepr E) (statement EXCHANGE_RECEIPT_FIELDS r) = None"
  by (simp add: verify_receipt_inclusion_def receipt_hash_def canonical_digest_def)

definition anchor_parts :: "pydict \<Rightarrow> pydict \<times> pydict" where
  "anchor_parts ts = (let anchor = as_dict (py_get ts ''anchor'') in (as_dict (py_get anchor ''proof''), as_dict (py_get anchor ''sth'')))"

lemma anchored_included:
  assumes "map_option (iv_included \<circ> ta_inclusion) (verify_timestamp_anchor E (PDict ts) key tw th) = Some True"
  shows "\<exists>h log_ok. timestamp_hash E ts = Some h \<and>
    iv_included (included_under E h (fst (anchor_parts ts)) (snd (anchor_parts ts)) key log_ok)"
proof -
  note u = unanchored_def blank_inclusion_def
  obtain anchor where a: "py_get ts ''anchor'' = PDict anchor"
    using assms by (cases "py_get ts ''anchor''") (simp_all add: verify_timestamp_anchor_def u)
  obtain pr sth where ps: "py_get anchor ''proof'' = PDict pr" "py_get anchor ''sth'' = PDict sth"
    using assms by (cases "py_get anchor ''proof''"; cases "py_get anchor ''sth''") (simp_all add: verify_timestamp_anchor_def a u)
  obtain h where h: "timestamp_hash E ts = Some h"
    using assms by (cases "timestamp_hash E ts") (simp_all add: verify_timestamp_anchor_def a ps u)
  show ?thesis
    using assms unfolding verify_timestamp_anchor_def Let_def
    by (auto simp: a ps h anchor_parts_def as_dict_def split: if_splits option.splits)
qed

lemma anchored_recorded:
  assumes "map_option (iv_included \<circ> ta_inclusion) (verify_timestamp_anchor E (PDict ts) key tw th) = Some True"
    and "anchor_parts ts = (pr, sth)" "timestamp_hash E ts = Some h"
    and "unhex (py_get sth ''root_hash_hex'') = merkle_tree_head (sha3 E) es"
    and "py_get sth ''tree_size'' = PInt (int (length es))" "encodable es" "hash32 (sha3 E)"
    and "inj_on (sha3 E) ({0 # the (utf8_encode h)} \<union> set (tree_inputs (sha3 E) es) \<union>
      set (incl_inputs (sha3 E) (nat (projr (wire_int (py_get pr ''index'')))) (length es - 1)
        (the (lh (sha3 E) h)) (the (wire_path (py_get pr ''proof_hex'')))))"
  shows "sth_signed E sth \<and> signed_by_key sth key \<and>
    (\<exists>i. wire_int (py_get pr ''index'') = Inr (int i) \<and> i < length es \<and> es ! i = h)"
proof -
  obtain ok where i: "iv_included (included_under E h pr sth key ok)"
    using anchored_included [OF assms(1)] assms(2,3) by auto
  moreover have "sth_signed E sth \<and> signed_by_key sth key"
    using i unfolding included_iff by (auto simp: head_for_def)
  ultimately show ?thesis using included_recorded [OF i assms(4-8)] by blast
qed

section \<open>Properties\<close>

text \<open>
  An anchored timestamp is on record: when the verifier accepts an anchor whose head is that of a
  list of entries, with no two of the inputs hashed colliding, the key the caller named signed that
  head and the list holds the timestamp's hash, at the index the proof names.
\<close>

theorem anchored_timestamp_is_recorded:
  assumes "map_option (iv_included \<circ> ta_inclusion) (verify_timestamp_anchor E (PDict ts) key tw th) = Some True"
    and "anchor_parts ts = (pr, sth)" "timestamp_hash E ts = Some h"
    and "unhex (py_get sth ''root_hash_hex'') = merkle_tree_head (sha3 E) es"
    and "py_get sth ''tree_size'' = PInt (int (length es))" "encodable es" "hash32 (sha3 E)"
    and "inj_on (sha3 E) ({0 # the (utf8_encode h)} \<union> set (tree_inputs (sha3 E) es) \<union>
      set (incl_inputs (sha3 E) (nat (projr (wire_int (py_get pr ''index'')))) (length es - 1)
        (the (lh (sha3 E) h)) (the (wire_path (py_get pr ''proof_hex'')))))"
  shows "sth_signed E sth \<and> signed_by_key sth key \<and>
    (\<exists>i. wire_int (py_get pr ''index'') = Inr (int i) \<and> i < length es \<and> es ! i = h)"
  by (rule anchored_recorded [OF assms])

definition sample_ts_hash :: ustr where
  "sample_ts_hash = the (timestamp_hash trusting_env [])"

definition sample_root :: bytes where
  "sample_root = toy_hash (0 # map byte sample_ts_hash)"

definition sample_ts_head :: pydict where
  "sample_ts_head = (lit ''log_id'', PStr TIMESTAMP_LOG_ID) # sample_head 1 sample_root"

definition sample_ts_proof :: pydict where
  "sample_ts_proof = [(lit ''entry_hex'', PStr sample_ts_hash), (lit ''index'', PInt 0), (lit ''tree_size'', PInt 1),
     (lit ''root_hash_hex'', PStr (hex_of sample_root))]"

definition sample_timestamp :: pydict where
  "sample_timestamp = [(lit ''anchor'', PDict [(lit ''proof'', PDict sample_ts_proof), (lit ''sth'', PDict sample_ts_head)])]"

lemma sample_ts_hash: "timestamp_hash trusting_env [] = Some sample_ts_hash" "\<exists>d. sample_ts_hash = hex_of d \<and> length d = 32"
proof -
  have "canonical_digest trusting_env TIMESTAMP_FIELDS [] \<noteq> None"
    by (simp add: canonical_digest_def canonical_json_def statement_def TIMESTAMP_FIELDS_def)
  then obtain bs where "canonical_json (frepr trusting_env) (statement TIMESTAMP_FIELDS []) = Some bs"
    by (auto simp: canonical_digest_def)
  then have "timestamp_hash trusting_env [] = Some (hex_of (toy_hash bs))"
    by (simp add: timestamp_hash_def canonical_digest_def)
  then show "timestamp_hash trusting_env [] = Some sample_ts_hash" "\<exists>d. sample_ts_hash = hex_of d \<and> length d = 32"
    by (auto simp: sample_ts_hash_def toy_hash_def)
qed

lemma sample_timestamp_hash: "timestamp_hash trusting_env sample_timestamp = Some sample_ts_hash"
proof -
  have "statement TIMESTAMP_FIELDS sample_timestamp = statement TIMESTAMP_FIELDS []"
    by (simp add: statement_def TIMESTAMP_FIELDS_def sample_timestamp_def lit_eq_iff)
  then show ?thesis using sample_ts_hash(1) by (simp add: timestamp_hash_def canonical_digest_def)
qed

lemma anchored_timestamp_is_recorded_witness:
  "sth_signed trusting_env sample_ts_head \<and> [sample_ts_hash] ! 0 = sample_ts_hash"
proof -
  let ?key = "Some (PStr (hex_of (replicate 1952 1)))" and ?h = sample_ts_hash
  obtain d where d: "?h = hex_of d" "length d = 32" using sample_ts_hash(2) by blast
  have hexed: "hex_text (PStr (hex_of b)) = Some (hex_of b)" if "length b = 32" for b
    using that fromhex_hex_of_lower [OF fromhex_hex_of, of b] by (simp add: hex_text_def flip: length_greater_0_conv)
  have len: "length sample_root = 32" by (simp add: sample_root_def toy_hash_def)
  have enc: "utf8_encode ?h = Some (map byte ?h)" using ascii_hex_of [of d] by (simp add: d utf8_encode_ascii)
  have leaf: "lh toy_hash ?h = Some sample_root" by (simp add: lh_def enc sample_root_def)
  have f: "py_get sample_ts_head k = (if k = ''log_id'' then PStr TIMESTAMP_LOG_ID else py_get (sample_head 1 sample_root) k)" for k
    by (simp add: sample_ts_head_def lit_eq_iff)
  have "json_ok (PInt 1)" using nat_digits.simps [of 1] by simp
  then have "canonical_digest trusting_env STH_FIELDS sample_ts_head \<noteq> None"
    by (simp add: canonical_digest_def canonical_json_def statement_def STH_FIELDS_def f sample_head_fields)
  then have "signed_statement trusting_env STH_FIELDS sample_ts_head"
    using sample_signature_holds [of sample_ts_head] by (auto simp: signed_statement_def f sample_head_fields)
  then have s: "sth_signed trusting_env sample_ts_head"
    by (simp add: sth_signed_def f sample_head_fields signed_count_def MAX_SAFE_INTEGER_def)
  have k: "signed_by_key sample_ts_head ?key"
    using sample_head_signed(2) [of 1 sample_root] by (simp add: signed_by_key_def f)
  have n: "wire_int (PInt 0) = Inr 0" "wire_int (PInt 1) = Inr 1"
    by (rule signed_count_wire_int; simp add: signed_count_def MAX_SAFE_INTEGER_def)+
  have c: "head_for trusting_env sample_ts_proof sample_ts_head ?key 0 1 sample_root []"
    using s k n hexed [OF len]
    by (simp add: head_for_def read_proof_def sample_ts_proof_def f sample_head_fields py_str_def wire_path_def same_hex_def num_value_def)
  have "iv_included (included_under trusting_env ?h sample_ts_proof sample_ts_head ?key True)"
    using c leaf n hexed [OF d(2)]
    by (auto simp: included_iff sample_ts_proof_def d(1) verify_inclusion_def incl_walk.simps intro!: exI)
  then have v: "map_option (iv_included \<circ> ta_inclusion)
      (verify_timestamp_anchor trusting_env (PDict sample_timestamp) ?key None (PInt 1)) = Some True"
    using sample_timestamp_hash
    by (simp add: verify_timestamp_anchor_def sample_timestamp_def f sample_ts_proof_def Let_def)
  have "sth_signed trusting_env sample_ts_head \<and> signed_by_key sample_ts_head ?key \<and>
    (\<exists>i. wire_int (py_get sample_ts_proof ''index'') = Inr (int i) \<and> i < length [?h] \<and> [?h] ! i = ?h)"
  proof (rule anchored_timestamp_is_recorded [OF v _ sample_timestamp_hash])
    show "anchor_parts sample_timestamp = (sample_ts_proof, sample_ts_head)"
      by (simp add: anchor_parts_def sample_timestamp_def as_dict_def Let_def)
    show "unhex (py_get sample_ts_head ''root_hash_hex'') = merkle_tree_head (sha3 trusting_env) [?h]"
      "py_get sample_ts_head ''tree_size'' = PInt (int (length [?h]))"
      by (simp_all add: f sample_head_fields leaf)
    show "encodable [?h]" "hash32 (sha3 trusting_env)" using enc by (simp_all add: encodable_def)
    show "inj_on (sha3 trusting_env) ({0 # the (utf8_encode ?h)} \<union> set (tree_inputs (sha3 trusting_env) [?h]) \<union>
      set (incl_inputs (sha3 trusting_env) (nat (projr (wire_int (py_get sample_ts_proof ''index'')))) (length [?h] - 1)
        (the (lh (sha3 trusting_env) ?h)) (the (wire_path (py_get sample_ts_proof ''proof_hex'')))))"
      by (simp add: tree_inputs_def leaf_hashes_def node_inputs.simps sample_ts_proof_def wire_path_def incl_inputs.simps)
  qed
  then show ?thesis by simp
qed

end
