(* ===== verification/Exchange.thy ===== *)
theory Exchange
  imports Timestamps
begin

text \<open>
  An exchange between two services, in \<open>polaris_verify_cli/verifier.py\<close>: the registry in which they
  find each other (\<open>verify_registry\<close> and its readers), the request a requester signs
  (\<open>verify_exchange_request\<close>), the mint statement and the receipt a responder signs
  (\<open>verify_exchange_mint\<close>, \<open>verify_exchange_receipt\<close>), and the pair of them as evidence
  (\<open>exchange_evidence\<close>).
\<close>

section \<open>One signature check\<close>

text \<open>
  What every verifier here makes of \<open>_two_witness_verify\<close>, called or written out line by line: whether the
  signature is good, which witnesses ran, and the note.
\<close>

definition judged ::
    "env \<Rightarrow> string list \<Rightarrow> pydict \<Rightarrow> bytes \<Rightarrow> bytes \<Rightarrow> pyval \<Rightarrow> bool \<times> (string \<times> bool) list \<times> vnote option" where
  "judged E names obj sg pk alg =
     (case two_witness_verify E (canonical_digest E names obj) sg pk alg of
        (None, tried, n) \<Rightarrow> (False, tried, n)
      | (Some False, tried, n) \<Rightarrow> (False, tried, or_note n BadSignature)
      | (Some True, tried, n) \<Rightarrow> (True, tried, None))"

section \<open>The registry\<close>

definition is_dict :: "pyval \<Rightarrow> bool" where
  "is_dict v = (case v of PDict _ \<Rightarrow> True | _ \<Rightarrow> False)"

definition REGISTRY_FORMAT :: ustr where "REGISTRY_FORMAT = lit ''polaris-registry/1''"

definition REGISTRY_FIELDS :: "string list" where
  "REGISTRY_FIELDS = [''format'', ''publisher'', ''instance'', ''authorities'', ''contexts'', ''trust'',
     ''relying_parties'', ''issued_at'', ''expires_at'', ''algorithm'']"

text \<open>The first active authority that is the publisher and has a key decides; its key may not be text.\<close>

definition registry_publisher_key :: "pydict \<Rightarrow> ustr option" where
  "registry_publisher_key reg =
     (let pub = as_dict (py_get reg ''publisher'') in
      case List.find (\<lambda>a. is_dict a \<and> same_id (py_get (as_dict a) ''agency_id'') (py_get pub ''agency_id'') \<and>
          status_of (as_dict a) = PStr (lit ''active'') \<and> py_true (py_get (as_dict a) ''public_key_hex''))
        (as_list (py_get reg ''authorities'')) of
        None \<Rightarrow> None
      | Some a \<Rightarrow> hex_text (py_get (as_dict a) ''public_key_hex''))"

record registry_verdict =
  rg_authentic :: bool
  rg_fresh :: "bool option"
  rg_trusted :: "bool option"
  rg_publisher :: pyval
  rg_services :: pyval
  rg_witnesses :: "(string \<times> bool) list"
  rg_note :: "vnote option"

definition blank_registry :: "pydict \<Rightarrow> registry_verdict" where
  "blank_registry reg =
     \<lparr>rg_authentic = False, rg_fresh = None, rg_trusted = None, rg_publisher = py_get reg ''publisher'',
      rg_services = py_get (as_dict (py_get reg ''instance'')) ''services'', rg_witnesses = [], rg_note = None\<rparr>"

definition verify_registry :: "env \<Rightarrow> pyval \<Rightarrow> now_arg \<Rightarrow> pyval option \<Rightarrow> pyval list option \<Rightarrow> registry_verdict" where
  "verify_registry E registry0 now cap trusted_anchors =
     (let reg = as_dict registry0; v = blank_registry reg; key = py_get reg ''public_key_hex''
      in if py_get reg ''format'' \<noteq> PStr REGISTRY_FORMAT then v\<lparr>rg_note := Some (NotA REGISTRY_FORMAT)\<rparr>
         else if placeholder_envelope reg then v\<lparr>rg_note := Some Placeholder\<rparr>
         else
           (case envelope_text_bytes E reg of None \<Rightarrow> v\<lparr>rg_note := Some NotHex\<rparr>
            | Some (sg, pk) \<Rightarrow>
                (let published_by = registry_publisher_key reg in
                 if published_by = None \<or> published_by \<noteq> hex_text key then v\<lparr>rg_note := Some NotOwnAnchor\<rparr>
                 else
                   (case judged E REGISTRY_FIELDS reg sg pk (py_get reg ''algorithm'') of
                      (False, tried, n) \<Rightarrow> v\<lparr>rg_witnesses := tried, rg_note := n\<rparr>
                    | (True, tried, n) \<Rightarrow>
                        let (fresh, why) = caught_window E reg now cap
                        in v\<lparr>rg_authentic := True, rg_witnesses := tried, rg_fresh := Some fresh, rg_note := why,
                             rg_trusted := map_option (\<lambda>ks. hex_in key (map hex_text ks)) trusted_anchors\<rparr>))))"

text \<open>Reading a verified registry: a service, a format, a key's status, the authority of a key.\<close>

definition registry_service :: "pyval \<Rightarrow> pyval \<Rightarrow> pydict option" where
  "registry_service registry0 kind =
     map_option as_dict
       (List.find (\<lambda>s. is_dict s \<and> py_eq (py_get (as_dict s) ''kind'') kind)
         (as_list (py_get (as_dict (py_get (as_dict registry0) ''instance'')) ''services'')))"

fun partition_slash :: "ustr \<Rightarrow> ustr \<times> ustr" where
  "partition_slash [] = ([], [])"
| "partition_slash (c # s) = (if c = 47 then ([], s) else (let (a, b) = partition_slash s in (c # a, b)))"

definition registry_speaks :: "env \<Rightarrow> pyval \<Rightarrow> pyval \<Rightarrow> bool" where
  "registry_speaks E registry0 format_string =
     (let (name, major) = partition_slash (if py_true format_string then py_str E format_string else [])
      in case py_get (as_dict (py_get (as_dict (py_get (as_dict registry0) ''instance'')) ''protocol'')) ''formats'' of
           PDict formats \<Rightarrow>
             name \<noteq> [] \<and> py_str E (case map_of formats name of None \<Rightarrow> PNone | Some x \<Rightarrow> x) = major
         | _ \<Rightarrow> False)"

definition authority_key_status :: "pyval \<Rightarrow> pydict \<Rightarrow> pyval option" where
  "authority_key_status key a =
     (case List.find (\<lambda>k. is_dict k \<and> same_hex (py_get (as_dict k) ''public_key_hex'') key) (as_list (py_get a ''keys'')) of
        Some k \<Rightarrow> Some (status_of (as_dict k))
      | None \<Rightarrow> if same_hex (py_get a ''public_key_hex'') key then Some (status_of a) else None)"

definition registry_key_status :: "pyval \<Rightarrow> pyval \<Rightarrow> pyval option" where
  "registry_key_status registry0 key =
     first_some (\<lambda>a. case a of PDict d \<Rightarrow> authority_key_status key d | _ \<Rightarrow> None)
       (as_list (py_get (as_dict registry0) ''authorities''))"

definition has_active_key :: "pyval \<Rightarrow> ustr \<Rightarrow> pydict \<Rightarrow> bool" where
  "has_active_key key want a \<longleftrightarrow>
     hex_text (py_get a ''public_key_hex'') = Some want \<and> status_of a = PStr (lit ''active'') \<or>
     list_ex (\<lambda>k. is_dict k \<and> same_hex (py_get (as_dict k) ''public_key_hex'') key \<and>
        status_of (as_dict k) = PStr (lit ''active'')) (as_list (py_get a ''keys''))"

definition registry_authority :: "pyval \<Rightarrow> pyval \<Rightarrow> pydict option" where
  "registry_authority registry0 key =
     (case hex_text key of None \<Rightarrow> None
      | Some want \<Rightarrow>
          first_some (\<lambda>a. case a of PDict d \<Rightarrow> if has_active_key key want d then Some d else None | _ \<Rightarrow> None)
            (as_list (py_get (as_dict registry0) ''authorities'')))"

section \<open>The request\<close>

definition EXCHANGE_REQUEST_FORMAT :: ustr where "EXCHANGE_REQUEST_FORMAT = lit ''polaris-exchange-request/1''"

definition EXCHANGE_REQUEST_FIELDS :: "string list" where
  "EXCHANGE_REQUEST_FIELDS = [''format'', ''requester'', ''target'', ''context_id'', ''request_hash'', ''nonce'',
     ''issued_at'', ''algorithm'']"

text \<open>\<open>canonical_body_hash\<close>, which raises where there is no canonical text.\<close>

definition canonical_body_hash :: "env \<Rightarrow> pyval \<Rightarrow> ustr option" where
  "canonical_body_hash E body = map_option (hex_of \<circ> sha3 E) (canonical_json (frepr E) body)"

text \<open>Whether an attestation of the manifest authorizes the key in the context, and whether it is signed.\<close>

definition edge_authorizes ::
    "env \<Rightarrow> ustr option \<Rightarrow> pyval \<Rightarrow> now_arg \<Rightarrow> pydict \<Rightarrow> manifest_verdict \<Rightarrow> pyval \<Rightarrow> bool option" where
  "edge_authorizes E key ctx now manifest mv att =
     (case (key, att) of
        (Some k, PDict a) \<Rightarrow>
          if hex_text (py_get a ''attested_public_key_hex'') = Some k \<and> same_id (py_get a ''context_id'') ctx \<and>
             attestation_window_open E att now then
            (case edge_signature_admits E att manifest mv (PStr k) now False of
               (admitted, edge_signed) \<Rightarrow> if admitted then Some edge_signed else None)
          else None
      | _ \<Rightarrow> None)"

text \<open>The loop over the manifests; the outer option is what raises.\<close>

fun authorized_edge ::
    "env \<Rightarrow> ustr option \<Rightarrow> pyval \<Rightarrow> now_arg \<Rightarrow> pyval list \<Rightarrow> bool option option" where
  "authorized_edge E key ctx now [] = Some None"
| "authorized_edge E key ctx now (m # ms) =
     (case verify_manifest E m now None None of None \<Rightarrow> None
      | Some mv \<Rightarrow>
          if \<not> (mv_authentic mv \<and> mv_fresh mv = Some True) then authorized_edge E key ctx now ms
          else
            (case first_some (edge_authorizes E key ctx now (as_dict m) mv) (mv_attestations mv) of
               None \<Rightarrow> authorized_edge E key ctx now ms
             | Some edge_signed \<Rightarrow> Some (Some edge_signed)))"

datatype request_note = RequestNote vnote | KeyNotRequester

record request_verdict =
  rq_authentic :: bool
  rq_requester_matches :: "bool option"
  rq_authorized :: "bool option"
  rq_attestation_signed :: "bool option"
  rq_body_bound :: "bool option"
  rq_witnesses :: "(string \<times> bool) list"
  rq_note :: "request_note option"

definition blank_request :: request_verdict where
  "blank_request =
     \<lparr>rq_authentic = False, rq_requester_matches = None, rq_authorized = None, rq_attestation_signed = None,
      rq_body_bound = None, rq_witnesses = [], rq_note = None\<rparr>"

text \<open>The checks beside the signature: the expected requester, the trust it has, the body it binds.\<close>

definition request_checks ::
    "env \<Rightarrow> pydict \<Rightarrow> ustr \<Rightarrow> pyval option \<Rightarrow> pyval option \<Rightarrow> pyval option \<Rightarrow> now_arg \<Rightarrow> request_verdict \<Rightarrow> request_verdict option"
  where
  "request_checks E envelope key requester_key trusted_manifests body now v =
     (let v1 = (case requester_key of None \<Rightarrow> v
            | Some rk \<Rightarrow> v\<lparr>rq_requester_matches := Some (Some key = hex_text rk)\<rparr>);
          v2 = (case trusted_manifests of None \<Rightarrow> Some v1
            | Some ms \<Rightarrow>
                map_option (\<lambda>edge. v1\<lparr>rq_authorized := Some (edge \<noteq> None), rq_attestation_signed := edge\<rparr>)
                  (authorized_edge E (Some key) (py_get envelope ''context_id'') now (as_list ms)))
      in map_option
           (\<lambda>w. case body of None \<Rightarrow> w
              | Some b \<Rightarrow>
                  let h = canonical_body_hash E b
                  in w\<lparr>rq_body_bound := Some (h \<noteq> None \<and> h = hex_text (py_get envelope ''request_hash''))\<rparr>)
           v2)"

definition verify_exchange_request ::
    "env \<Rightarrow> pyval \<Rightarrow> pyval option \<Rightarrow> pyval option \<Rightarrow> pyval option \<Rightarrow> now_arg \<Rightarrow> request_verdict option" where
  "verify_exchange_request E envelope0 requester_key trusted_manifests body now =
     (let envelope = as_dict envelope0; alg = py_get envelope ''algorithm''; v = blank_request;
          claimed = hex_text (py_get (as_dict (py_get envelope ''requester'')) ''public_key_hex'');
          noted = (\<lambda>w. Some (v\<lparr>rq_note := Some (RequestNote w)\<rparr>))
      in if py_get envelope ''format'' \<noteq> PStr EXCHANGE_REQUEST_FORMAT then noted (NotA EXCHANGE_REQUEST_FORMAT)
         else
           (case hex_text (py_get envelope ''public_key_hex'') of None \<Rightarrow> noted Placeholder
            | Some key \<Rightarrow>
                if alg = PStr PLACEHOLDER then noted Placeholder
                else if Some key \<noteq> claimed then Some (v\<lparr>rq_note := Some KeyNotRequester\<rparr>)
                else
                  (case (unhex (PStr (py_str E (py_get envelope ''signature_hex''))), unhex (PStr key)) of
                     (Some sg, Some pk) \<Rightarrow>
                       (case judged E EXCHANGE_REQUEST_FIELDS envelope sg pk alg of
                          (False, tried, n) \<Rightarrow> Some (v\<lparr>rq_witnesses := tried, rq_note := map_option RequestNote n\<rparr>)
                        | (True, tried, n) \<Rightarrow>
                            request_checks E envelope key requester_key trusted_manifests body now
                              (v\<lparr>rq_authentic := True, rq_witnesses := tried\<rparr>))
                   | _ \<Rightarrow> noted NotHex)))"

section \<open>The mint statement\<close>

definition EXCHANGE_MINT_FORMAT :: ustr where "EXCHANGE_MINT_FORMAT = lit ''polaris-exchange-mint/1''"

definition EXCHANGE_MINT_FIELDS :: "string list" where
  "EXCHANGE_MINT_FIELDS = [''format'', ''requester_public_key_hex'', ''context_id'', ''request_hash'', ''response_hash'',
     ''responder_agency_id'', ''occurred_at'']"

text \<open>\<open>_unhex(pk_hex or "")\<close>: a value that is false is the empty text.\<close>

definition alg_for_key_length :: "pyval \<Rightarrow> pyval" where
  "alg_for_key_length key =
     (case unhex (if py_true key then key else PStr []) of None \<Rightarrow> PNone
      | Some bs \<Rightarrow>
          (case List.find (\<lambda>(name, cls, pk_len, sig_len). length bs = pk_len) ACCEPTED of
             None \<Rightarrow> PNone | Some (name, _) \<Rightarrow> PStr name))"

record mint_verdict =
  mt_authentic :: bool
  mt_responder_matches :: "bool option"
  mt_witnesses :: "(string \<times> bool) list"
  mt_note :: "vnote option"

definition blank_mint :: mint_verdict where
  "blank_mint = \<lparr>mt_authentic = False, mt_responder_matches = None, mt_witnesses = [], mt_note = None\<rparr>"

definition mint_algorithm :: "pydict \<Rightarrow> pyval" where
  "mint_algorithm mint =
     (if py_get mint ''algorithm'' \<noteq> PNone then py_get mint ''algorithm'' else alg_for_key_length (py_get mint ''public_key_hex''))"

definition verify_exchange_mint :: "env \<Rightarrow> pyval \<Rightarrow> pyval option \<Rightarrow> mint_verdict" where
  "verify_exchange_mint E mint0 responder_key =
     (let mint = as_dict mint0; v = blank_mint; key = py_get mint ''public_key_hex''; alg = mint_algorithm mint
      in if py_get mint ''format'' \<noteq> PStr EXCHANGE_MINT_FORMAT then v\<lparr>mt_note := Some (NotA EXCHANGE_MINT_FORMAT)\<rparr>
         else if alg = PStr PLACEHOLDER \<or> \<not> py_true key then v\<lparr>mt_note := Some Placeholder\<rparr>
         else if \<not> accepted_alg alg then v\<lparr>mt_note := Some (UnknownAlgorithm alg)\<rparr>
         else
           (case envelope_bytes mint of None \<Rightarrow> v\<lparr>mt_note := Some NotHex\<rparr>
            | Some (sg, pk) \<Rightarrow>
                (case judged E EXCHANGE_MINT_FIELDS mint sg pk alg of
                   (False, tried, n) \<Rightarrow> v\<lparr>mt_witnesses := tried, mt_note := n\<rparr>
                 | (True, tried, n) \<Rightarrow>
                     v\<lparr>mt_authentic := True, mt_witnesses := tried, mt_responder_matches := map_option (same_hex key) responder_key\<rparr>)))"

section \<open>The receipt\<close>

text \<open>A body the caller holds: bytes, or a value whose \<open>str\<close> is encoded, which raises for text that has no UTF-8.\<close>

datatype body_arg = BodyBytes bytes | BodyValue pyval

definition body_bytes :: "env \<Rightarrow> body_arg \<Rightarrow> bytes option" where
  "body_bytes E b = (case b of BodyBytes bs \<Rightarrow> Some bs | BodyValue x \<Rightarrow> utf8_encode (py_str E x))"

definition body_binds :: "env \<Rightarrow> pydict \<Rightarrow> string \<Rightarrow> body_arg option \<Rightarrow> bool option option" where
  "body_binds E receipt name b =
     (case b of None \<Rightarrow> Some None
      | Some x \<Rightarrow>
          map_option (\<lambda>bs. Some (Some (hex_of (sha3 E bs)) = hex_text (py_get receipt name))) (body_bytes E x))"

text \<open>
  The loop of the receipt: it ends only at a manifest that names its authority, and carries the authority
  and the edge of the last match.
\<close>

fun authorized_via ::
    "env \<Rightarrow> ustr option \<Rightarrow> pyval \<Rightarrow> now_arg \<Rightarrow> pyval option \<Rightarrow> pyval \<times> bool option \<Rightarrow> pyval list \<Rightarrow>
      (pyval \<times> bool option) option" where
  "authorized_via E key ctx now cap found [] = Some found"
| "authorized_via E key ctx now cap found (m # ms) =
     (case verify_manifest E m now cap None of None \<Rightarrow> None
      | Some mv \<Rightarrow>
          if \<not> (mv_authentic mv \<and> mv_fresh mv = Some True) then authorized_via E key ctx now cap found ms
          else
            (case first_some (edge_authorizes E key ctx now (as_dict m) mv) (mv_attestations mv) of
               None \<Rightarrow> authorized_via E key ctx now cap found ms
             | Some edge_signed \<Rightarrow>
                 if py_true (mv_authority mv) then Some (mv_authority mv, Some edge_signed)
                 else authorized_via E key ctx now cap (mv_authority mv, Some edge_signed) ms))"

record receipt_verdict =
  er_authentic :: bool
  er_responder_matches :: "bool option"
  er_authorized :: "bool option"
  er_attestation_signed :: "bool option"
  er_request_bound :: "bool option"
  er_response_bound :: "bool option"
  er_via :: pyval
  er_responder :: pyval
  er_witnesses :: "(string \<times> bool) list"
  er_note :: "vnote option"

definition blank_receipt :: receipt_verdict where
  "blank_receipt =
     \<lparr>er_authentic = False, er_responder_matches = None, er_authorized = None, er_attestation_signed = None,
      er_request_bound = None, er_response_bound = None, er_via = PNone, er_responder = PNone, er_witnesses = [],
      er_note = None\<rparr>"

definition receipt_authorization ::
    "env \<Rightarrow> pydict \<Rightarrow> pyval option \<Rightarrow> now_arg \<Rightarrow> pyval option \<Rightarrow> receipt_verdict \<Rightarrow> receipt_verdict option" where
  "receipt_authorization E receipt trusted_manifests now cap v =
     (case trusted_manifests of None \<Rightarrow> Some v
      | Some ms \<Rightarrow>
          map_option
            (\<lambda>(via, signed_edge). v\<lparr>er_authorized := Some (py_true via), er_via := via,
               er_attestation_signed := (if py_true via then signed_edge else None)\<rparr>)
            (authorized_via E (hex_text (py_get (as_dict (py_get receipt ''requester'')) ''public_key_hex''))
              (py_get receipt ''context_id'') now cap (PNone, None) (as_list ms)))"

definition verify_exchange_receipt ::
    "env \<Rightarrow> pyval \<Rightarrow> now_arg \<Rightarrow> pyval option \<Rightarrow> pyval option \<Rightarrow> body_arg option \<Rightarrow> body_arg option \<Rightarrow> pyval option \<Rightarrow>
      receipt_verdict option" where
  "verify_exchange_receipt E receipt0 now trusted_manifests responder_key req_body resp_body cap =
     (let receipt = as_dict receipt0; v = blank_receipt; key = py_get receipt ''public_key_hex'';
          noted = (\<lambda>w. Some (v\<lparr>er_note := Some w\<rparr>))
      in if py_get receipt ''format'' \<noteq> PStr EXCHANGE_RECEIPT_FORMAT then noted (NotA EXCHANGE_RECEIPT_FORMAT)
         else if placeholder_envelope receipt then noted Placeholder
         else
           (case envelope_bytes receipt of None \<Rightarrow> noted NotHex
            | Some (sg, pk) \<Rightarrow>
                (case judged E EXCHANGE_RECEIPT_FIELDS receipt sg pk (py_get receipt ''algorithm'') of
                   (False, tried, n) \<Rightarrow> Some (v\<lparr>er_witnesses := tried, er_note := n\<rparr>)
                 | (True, tried, n) \<Rightarrow>
                     let by_responder = map_option (same_hex key) responder_key;
                         v1 = v\<lparr>er_authentic := True, er_witnesses := tried, er_responder_matches := by_responder,
                           er_responder := (if by_responder = Some True then py_get receipt ''responder'' else PNone)\<rparr>
                     in (case (body_binds E receipt ''request_hash'' req_body, body_binds E receipt ''response_hash'' resp_body) of
                           (Some rq, Some rs) \<Rightarrow>
                             receipt_authorization E receipt trusted_manifests now cap
                               (v1\<lparr>er_request_bound := rq, er_response_bound := rs\<rparr>)
                         | _ \<Rightarrow> None))))"

section \<open>The pair as evidence\<close>

definition exchange_evidence :: "pyval \<Rightarrow> pyval \<Rightarrow> bool option" where
  "exchange_evidence envelope0 receipt0 =
     (case (envelope0, receipt0) of
        (PDict e, PDict r) \<Rightarrow>
          Some (same_hex (py_get (as_dict (py_get e ''requester'')) ''public_key_hex'')
                  (py_get (as_dict (py_get r ''requester'')) ''public_key_hex'') \<and>
                same_id (py_get e ''context_id'') (py_get r ''context_id'') \<and>
                same_hex (py_get e ''request_hash'') (py_get r ''request_hash'') \<and>
                py_eq (py_get e ''issued_at'') (py_get r ''occurred_at''))
      | _ \<Rightarrow> None)"

section \<open>What the signatures establish\<close>

lemma judged_True:
  "fst (judged E names obj sg pk alg) \<longleftrightarrow>
     fst (two_witness_verify E (canonical_digest E names obj) sg pk alg) = Some True"
  by (auto simp: judged_def split: prod.split option.split bool.split)

lemma judged_text: "envelope_text_bytes E obj = Some (sg, pk) \<Longrightarrow>
    fst (judged E names obj sg pk (py_get obj ''algorithm'')) \<longleftrightarrow> text_signed E names obj"
  by (simp add: judged_True text_signed_def)

lemma judged_signed: "envelope_bytes obj = Some (sg, pk) \<Longrightarrow>
    fst (judged E names obj sg pk (py_get obj ''algorithm'')) \<longleftrightarrow> signed_statement E names obj"
  by (metis judged_True two_witness_True fst_conv prod_cases3)

lemma signed_text_signed:
  assumes "text_signed E names obj"
  shows "accepted_alg (py_get obj ''algorithm'')" "py_get obj ''algorithm'' \<noteq> PStr PLACEHOLDER"
proof -
  show "accepted_alg (py_get obj ''algorithm'')"
    using assms by (auto simp: text_signed_def two_witness_verify_def split: option.splits if_splits)
  then show "py_get obj ''algorithm'' \<noteq> PStr PLACEHOLDER" by (rule not_accepted_placeholder)
qed

subsection \<open>The registry\<close>

definition registry_signed :: "env \<Rightarrow> pydict \<Rightarrow> bool" where
  "registry_signed E reg \<longleftrightarrow> py_get reg ''format'' = PStr REGISTRY_FORMAT \<and>
     hex_text (py_get reg ''public_key_hex'') \<noteq> None \<and>
     registry_publisher_key reg = hex_text (py_get reg ''public_key_hex'') \<and> text_signed E REGISTRY_FIELDS reg"

lemma registry_trusted:
  "rg_authentic (verify_registry E (PDict reg) now cap (Some anchors)) \<and>
   rg_fresh (verify_registry E (PDict reg) now cap (Some anchors)) = Some True \<and>
   rg_trusted (verify_registry E (PDict reg) now cap (Some anchors)) = Some True \<longleftrightarrow>
     registry_signed E reg \<and> fst (caught_window E reg now cap) \<and> key_anchored reg anchors"
proof -
  have "\<not> placeholder_envelope reg" if "hex_text (py_get reg ''public_key_hex'') \<noteq> None"
      "registry_publisher_key reg = hex_text (py_get reg ''public_key_hex'')" "text_signed E REGISTRY_FIELDS reg"
    using that(1,2) signed_text_signed(2) [OF that(3)]
    by (auto simp: placeholder_envelope_def hex_text_def py_true_def split: pyval.splits if_splits)
  then show ?thesis
    by (auto simp: verify_registry_def Let_def blank_registry_def registry_signed_def key_anchored_def judged_True text_signed_def
        judged_def split: option.splits prod.splits bool.splits) (metis option.distinct(1))+
qed

text \<open>
  A format the registry does not list is \<open>None\<close>, whose text is compared like a version: every registry
  with a table of formats speaks version None of whatever it does not list.
\<close>

lemma speaks_None:
  assumes "py_get i ''protocol'' = PDict p" "py_get p ''formats'' = PDict formats" "name \<noteq> []" "47 \<notin> set name"
    "map_of formats name = None" "py_get reg ''instance'' = PDict i"
  shows "registry_speaks E (PDict reg) (PStr (name @ 47 # lit ''None''))"
proof -
  have "partition_slash (name @ 47 # t) = (name, t)" for t
    using assms(4) by (induction name) (auto split: prod.split)
  then show ?thesis using assms by (simp add: registry_speaks_def py_true_def py_str_def as_dict_def)
qed

text \<open>
  The two readers disagree on a key that is configured for an active authority and compromised in its
  register: one answers compromised, the other gives the authority out as one whose active key it is.
\<close>

lemma compromised_key_has_authority:
  assumes "as_list (py_get reg ''authorities'') = [PDict a]" "py_get a ''status'' = PStr (lit ''active'')"
    and "py_get a ''public_key_hex'' = PStr k" "k \<noteq> []"
    and "as_list (py_get a ''keys'') = [PDict [(lit ''public_key_hex'', PStr k), (lit ''status'', PStr (lit ''compromised''))]]"
  shows "registry_key_status (PDict reg) (PStr k) = Some (PStr (lit ''compromised''))"
    and "registry_authority (PDict reg) (PStr k) = Some a"
  using assms
  by (simp_all add: registry_key_status_def authority_key_status_def is_dict_def same_hex_def hex_text_def status_of_def
      registry_authority_def has_active_key_def as_dict_def)

subsection \<open>Who is authorized\<close>

text \<open>The rule is that of a foreign credential, with unsigned edges admitted.\<close>

lemma edge_authorizes_as_credential:
  "edge_authorizes E key ctx now m mv att = edge_to E key ctx now False m mv att"
proof (cases "\<exists>k a. key = Some k \<and> att = PDict a")
  case True
  then obtain k a where ka: "key = Some k" "att = PDict a" by blast
  show ?thesis
  proof (cases "unsigned_edge a")
    case u: True
    then show ?thesis
      by (auto simp: ka edge_authorizes_def edge_to_def edge_signature_admits_def Let_def verify_attestation_unsigned
          blank_attestation_def)
  next
    case False
    note v = verify_attestation_signed [OF False, of E "py_get (as_dict (mv_authority mv)) ''agency_id''" "PStr k" now]
    show ?thesis
      using v(1) v(3) by (auto simp: ka edge_authorizes_def edge_to_def edge_signature_admits_def Let_def)
  qed
next
  case False
  then show ?thesis by (auto simp: edge_authorizes_def edge_to_def split: option.split pyval.split)
qed

definition manifest_authorizes ::
    "env \<Rightarrow> pydict \<Rightarrow> pyval \<Rightarrow> now_arg \<Rightarrow> pyval \<Rightarrow> bool" where
  "manifest_authorizes E p ctx now manifest \<longleftrightarrow>
     (\<exists>m. manifest = PDict m \<and> manifest_signed E m \<and> fresh_now E m now None \<and>
        (\<exists>a. PDict a \<in> set (as_list (py_get m ''attestations'')) \<and> edge_holds E p ctx now False m a))"

lemma window_never_raises: "verify_window_inline E m now None \<noteq> None"
  by (auto simp: verify_window_inline_def split: option.split)

lemma manifest_current:
  obtains mv where "verify_manifest E m now None None = Some mv"
    "mv_authentic mv \<and> mv_fresh mv = Some True \<longleftrightarrow> (\<exists>d. m = PDict d \<and> manifest_signed E d \<and> fresh_now E d now None)"
proof (cases "manifest_signed E (as_dict m)")
  case True
  then have d: "m = PDict (as_dict m)"
    by (cases m) (auto simp: manifest_signed_def as_dict_def)
  obtain v where v: "mv_authentic v" and eq: "verify_manifest E m now None None = manifest_window E (as_dict m) now None None v"
    using verify_manifest_signed [OF True, of now None None] d by metis
  obtain fresh why where w: "verify_window_inline E (as_dict m) now None = Some (fresh, why)"
    using window_never_raises [of E "as_dict m" now] by auto
  have "why = None" if fresh using w that by (simp add: verify_window_inline_fresh_iff)
  then have "mv_authentic (the (manifest_window E (as_dict m) now None None v)) \<and>
      mv_fresh (the (manifest_window E (as_dict m) now None None v)) = Some True \<longleftrightarrow> fresh_now E (as_dict m) now None"
    using w v by (auto simp: manifest_window_def Let_def fresh_now_def)
  moreover have "manifest_window E (as_dict m) now None None v \<noteq> None" using w by (simp add: manifest_window_def Let_def)
  moreover have "fresh_now E (as_dict m) now None \<longleftrightarrow> (\<exists>d. m = PDict d \<and> manifest_signed E d \<and> fresh_now E d now None)"
    using True d by (metis as_dict_PDict)
  ultimately show ?thesis using that eq by (metis option.exhaust_sel)
next
  case False
  obtain mv where mv: "verify_manifest E (PDict (as_dict m)) now None None = Some mv" "\<not> mv_authentic mv"
    using verify_manifest_unsigned [OF False] by blast
  then have "verify_manifest E m now None None = Some mv" by (simp add: verify_manifest_def)
  then show ?thesis using that mv(2) False by fastforce
qed

lemma authorizes_first_some:
  assumes "verify_manifest E m now None None = Some mv" "hex_text (py_get p ''public_key_hex'') = key"
    and "mv_authentic mv \<and> mv_fresh mv = Some True \<longleftrightarrow> (\<exists>d. m = PDict d \<and> manifest_signed E d \<and> fresh_now E d now None)"
  shows "manifest_authorizes E p ctx now m \<longleftrightarrow>
    (mv_authentic mv \<and> mv_fresh mv = Some True) \<and> first_some (edge_authorizes E key ctx now (as_dict m) mv) (mv_attestations mv) \<noteq> None"
proof (cases m)
  case (PDict d)
  have a: "mv_authority mv = py_get d ''authority''" "mv_attestations mv = as_list (py_get d ''attestations'')"
    using verify_manifest_fields [OF assms(1)] by (simp_all add: PDict)
  have "first_some (edge_authorizes E key ctx now d mv) (mv_attestations mv) \<noteq> None \<longleftrightarrow>
      (\<exists>a. PDict a \<in> set (mv_attestations mv) \<and> edge_holds E p ctx now False d a)"
    (is "?l \<longleftrightarrow> ?r")
  proof
    assume ?l
    then obtain x where x: "x \<in> set (mv_attestations mv)" "edge_authorizes E key ctx now d mv x \<noteq> None"
      unfolding first_some_iff by blast
    then obtain a where "x = PDict a" by (auto simp: edge_authorizes_def split: pyval.splits option.splits)
    then show ?r
      using x edge_to_iff [OF a(1), of E p ctx now False a] by (auto simp: edge_authorizes_as_credential assms(2))
  next
    assume ?r
    then show ?l
      unfolding first_some_iff edge_authorizes_as_credential
      using edge_to_iff [OF a(1), of E p ctx now False] assms(2) by blast
  qed
  then show ?thesis using assms(3) a by (auto simp: manifest_authorizes_def PDict)
qed (use assms(3) in \<open>auto simp: manifest_authorizes_def\<close>)

lemma authorized_edge_iff:
  assumes "hex_text (py_get p ''public_key_hex'') = key"
  obtains r where "authorized_edge E key ctx now ms = Some r"
    "r \<noteq> None \<longleftrightarrow> (\<exists>m \<in> set ms. manifest_authorizes E p ctx now m)"
proof (induction ms arbitrary: thesis)
  case Nil
  then show ?case by simp
next
  case (Cons m ms)
  obtain mv where mv: "verify_manifest E m now None None = Some mv"
    "mv_authentic mv \<and> mv_fresh mv = Some True \<longleftrightarrow> (\<exists>d. m = PDict d \<and> manifest_signed E d \<and> fresh_now E d now None)"
    by (rule manifest_current)
  note a = authorizes_first_some [OF mv(1) assms mv(2), of ctx]
  obtain r where r: "authorized_edge E key ctx now ms = Some r" "r \<noteq> None \<longleftrightarrow> (\<exists>m \<in> set ms. manifest_authorizes E p ctx now m)"
    by (rule Cons.IH)
  show ?case
  proof (cases "manifest_authorizes E p ctx now m")
    case True
    then show ?thesis using a mv(1) by (auto intro: Cons.prems)
  next
    case False
    then have eq: "authorized_edge E key ctx now (m # ms) = Some r"
      using a mv(1) r(1) by (auto split: option.split)
    show ?thesis by (rule Cons.prems [OF eq]) (use r(2) False in auto)
  qed
qed

definition names_authority :: "pyval \<Rightarrow> bool" where
  "names_authority m \<longleftrightarrow> py_true (py_get (as_dict m) ''authority'')"

lemma authorized_via_iff:
  assumes "hex_text (py_get p ''public_key_hex'') = key" "\<not> py_true (fst found)"
  obtains via edge where "authorized_via E key ctx now None found ms = Some (via, edge)"
    "py_true via \<longleftrightarrow> (\<exists>m \<in> set ms. manifest_authorizes E p ctx now m \<and> names_authority m)"
  using assms(2)
proof (induction ms arbitrary: found thesis)
  case Nil
  then show ?case by (cases found) simp
next
  case (Cons m ms)
  obtain mv where mv: "verify_manifest E m now None None = Some mv"
    "mv_authentic mv \<and> mv_fresh mv = Some True \<longleftrightarrow> (\<exists>d. m = PDict d \<and> manifest_signed E d \<and> fresh_now E d now None)"
    by (rule manifest_current)
  note a = authorizes_first_some [OF mv(1) assms(1) mv(2), of ctx]
  have n: "py_true (mv_authority mv) \<longleftrightarrow> names_authority m"
    using verify_manifest_fields(1) [OF mv(1)] by (simp add: names_authority_def)
  show ?case
  proof (cases "manifest_authorizes E p ctx now m \<and> names_authority m")
    case True
    then show ?thesis using a n mv(1) by (auto intro: Cons.prems(1))
  next
    case False
    let ?ok = "mv_authentic mv \<and> mv_fresh mv = Some True"
    let ?edge = "first_some (edge_authorizes E key ctx now (as_dict m) mv) (mv_attestations mv)"
    let ?found = "if ?ok \<and> ?edge \<noteq> None then (mv_authority mv, ?edge) else found"
    have "authorized_via E key ctx now None found (m # ms) = authorized_via E key ctx now None ?found ms"
        "\<not> py_true (fst ?found)"
      using a n False Cons.prems(2) by (auto simp: mv(1) split: option.split)
    then obtain found' where f: "authorized_via E key ctx now None found (m # ms) = authorized_via E key ctx now None found' ms"
        "\<not> py_true (fst found')"
      by blast
    obtain via edge where r: "authorized_via E key ctx now None found' ms = Some (via, edge)"
        "py_true via \<longleftrightarrow> (\<exists>m \<in> set ms. manifest_authorizes E p ctx now m \<and> names_authority m)"
      by (rule Cons.IH [OF _ f(2)])
    show ?thesis by (rule Cons.prems(1) [OF f(1) [unfolded r(1)]]) (use r(2) False in auto)
  qed
qed

subsection \<open>Requests and receipts\<close>

lemma hex_digit_lower: "hex_digit (if 65 \<le> c \<and> c \<le> 90 then c + 32 else c) = hex_digit c"
  by (auto simp: hex_digit_def)

lemma fromhex_lower: "fromhex (py_lower s) = fromhex s"
  by (induction s rule: fromhex.induct) (simp_all add: py_lower_def hex_digit_lower split: option.split)

lemma unhex_lower: "unhex (PStr (py_lower s)) = unhex (PStr s)"
proof -
  have "list_all (\<lambda>c. hex_digit c \<noteq> None) (py_lower s) = list_all (\<lambda>c. hex_digit c \<noteq> None) s"
    by (induction s) (simp_all add: py_lower_def hex_digit_lower)
  then show ?thesis by (simp add: unhex_def fromhex_lower) (simp add: py_lower_def)
qed

definition request_signed :: "env \<Rightarrow> pydict \<Rightarrow> bool" where
  "request_signed E e \<longleftrightarrow> py_get e ''format'' = PStr EXCHANGE_REQUEST_FORMAT \<and>
     same_hex (py_get (as_dict (py_get e ''requester'')) ''public_key_hex'') (py_get e ''public_key_hex'') \<and>
     text_signed E EXCHANGE_REQUEST_FIELDS e"

lemma envelope_text_key:
  assumes "hex_text (py_get e ''public_key_hex'') = Some key"
  shows "envelope_text_bytes E e =
    (case (unhex (PStr (py_str E (py_get e ''signature_hex''))), unhex (PStr key)) of (Some sg, Some pk) \<Rightarrow> Some (sg, pk) | _ \<Rightarrow> None)"
proof -
  obtain k where "py_get e ''public_key_hex'' = PStr k" "key = py_lower k"
    using assms by (auto simp: hex_text_def split: pyval.splits if_splits)
  then show ?thesis by (simp add: envelope_text_bytes_def py_str_def unhex_lower)
qed

lemma verify_request_signed:
  assumes "request_signed E e" "hex_text (py_get e ''public_key_hex'') = Some key"
  obtains tried where "verify_exchange_request E (PDict e) rk ms body now =
    request_checks E e key rk ms body now (blank_request\<lparr>rq_authentic := True, rq_witnesses := tried\<rparr>)"
proof -
  obtain sg pk where b: "envelope_text_bytes E e = Some (sg, pk)"
    using assms(1) by (auto simp: request_signed_def text_signed_def split: option.splits)
  then have u: "unhex (PStr (py_str E (py_get e ''signature_hex''))) = Some sg" "unhex (PStr key) = Some pk"
    by (auto simp: envelope_text_key [OF assms(2)] split: option.splits)
  obtain tried n where j: "judged E EXCHANGE_REQUEST_FIELDS e sg pk (py_get e ''algorithm'') = (True, tried, n)"
    using judged_text [OF b, of EXCHANGE_REQUEST_FIELDS] assms(1)
    by (metis request_signed_def prod.exhaust_sel)
  have "hex_text (py_get (as_dict (py_get e ''requester'')) ''public_key_hex'') = Some key"
    using assms by (simp add: request_signed_def same_hex_def)
  moreover have "py_get e ''algorithm'' \<noteq> PStr PLACEHOLDER"
    using assms(1) signed_text_signed(2) by (auto simp: request_signed_def)
  ultimately have "verify_exchange_request E (PDict e) rk ms body now =
      request_checks E e key rk ms body now (blank_request\<lparr>rq_authentic := True, rq_witnesses := tried\<rparr>)"
    using assms u j by (simp add: verify_exchange_request_def Let_def request_signed_def)
  then show ?thesis by (rule that)
qed

lemma request_unsigned:
  assumes "\<not> request_signed E e"
  shows "\<exists>v. verify_exchange_request E (PDict e) rk ms body now = Some v \<and> \<not> rq_authentic v"
proof (cases "hex_text (py_get e ''public_key_hex'')")
  case None
  then show ?thesis by (simp add: verify_exchange_request_def Let_def blank_request_def)
next
  case (Some key)
  have "\<not> fst (judged E EXCHANGE_REQUEST_FIELDS e sg pk (py_get e ''algorithm''))"
    if "unhex (PStr (py_str E (py_get e ''signature_hex''))) = Some sg" "unhex (PStr key) = Some pk"
      "py_get e ''format'' = PStr EXCHANGE_REQUEST_FORMAT"
      "hex_text (py_get (as_dict (py_get e ''requester'')) ''public_key_hex'') = Some key" for sg pk
  proof -
    have "envelope_text_bytes E e = Some (sg, pk)" using that(1,2) by (simp add: envelope_text_key [OF Some])
    then show ?thesis
      using assms that(3,4) Some by (simp add: judged_text request_signed_def same_hex_def)
  qed
  then show ?thesis
    by (auto simp: verify_exchange_request_def Let_def blank_request_def Some split: option.splits prod.splits bool.splits) (metis fst_conv)
qed

lemma request_checks_authorized:
  assumes "hex_text (py_get e ''public_key_hex'') = Some key"
  obtains w where "request_checks E e key rk (Some ms) body now v = Some w" "rq_authentic w = rq_authentic v"
    "rq_authorized w = Some (\<exists>m \<in> set (as_list ms). manifest_authorizes E e (py_get e ''context_id'') now m)"
    "rq_requester_matches w = (case rk of None \<Rightarrow> rq_requester_matches v | Some k \<Rightarrow> Some (Some key = hex_text k))"
proof -
  obtain r where "authorized_edge E (Some key) (py_get e ''context_id'') now (as_list ms) = Some r"
    "r \<noteq> None \<longleftrightarrow> (\<exists>m \<in> set (as_list ms). manifest_authorizes E e (py_get e ''context_id'') now m)"
    by (rule authorized_edge_iff [OF assms, of E "py_get e ''context_id''" now "as_list ms"])
  then show ?thesis
    by (intro that [of "the (request_checks E e key rk (Some ms) body now v)"])
      (simp_all add: request_checks_def Let_def split: option.split)
qed

lemma request_authorized:
  "map_option (\<lambda>v. (rq_authentic v, rq_authorized v)) (verify_exchange_request E (PDict e) rk (Some ms) body now) =
     Some (True, Some True) \<longleftrightarrow>
   request_signed E e \<and> (\<exists>m \<in> set (as_list ms). manifest_authorizes E e (py_get e ''context_id'') now m)"
proof (cases "request_signed E e")
  case True
  then obtain key where k: "hex_text (py_get e ''public_key_hex'') = Some key"
    by (auto simp: request_signed_def same_hex_def)
  obtain tried where "verify_exchange_request E (PDict e) rk (Some ms) body now =
      request_checks E e key rk (Some ms) body now (blank_request\<lparr>rq_authentic := True, rq_witnesses := tried\<rparr>)"
    by (rule verify_request_signed [OF True k])
  moreover obtain w where "request_checks E e key rk (Some ms) body now (blank_request\<lparr>rq_authentic := True, rq_witnesses := tried\<rparr>) = Some w"
    "rq_authentic w" "rq_authorized w = Some (\<exists>m \<in> set (as_list ms). manifest_authorizes E e (py_get e ''context_id'') now m)"
    by (rule request_checks_authorized [OF k]) auto
  ultimately show ?thesis using True by simp
next
  case False
  then show ?thesis using request_unsigned [OF False, of rk "Some ms" body now] by auto
qed

definition receipt_signed :: "env \<Rightarrow> pydict \<Rightarrow> bool" where
  "receipt_signed E r \<longleftrightarrow> py_get r ''format'' = PStr EXCHANGE_RECEIPT_FORMAT \<and> signed_statement E EXCHANGE_RECEIPT_FIELDS r"

lemma receipt_authorized:
  "map_option (\<lambda>v. (er_authentic v, er_authorized v)) (verify_exchange_receipt E (PDict r) now (Some ms) rk None None None) =
     Some (True, Some True) \<longleftrightarrow>
   receipt_signed E r \<and>
   (\<exists>m \<in> set (as_list ms). manifest_authorizes E (as_dict (py_get r ''requester'')) (py_get r ''context_id'') now m \<and> names_authority m)"
proof (cases "receipt_signed E r")
  case True
  then obtain sg pk where e: "\<not> placeholder_envelope r" "envelope_bytes r = Some (sg, pk)"
    by (auto simp: receipt_signed_def elim: signed_statementE)
  obtain tried n where j: "judged E EXCHANGE_RECEIPT_FIELDS r sg pk (py_get r ''algorithm'') = (True, tried, n)"
    using judged_signed [OF e(2), of E EXCHANGE_RECEIPT_FIELDS] True by (metis receipt_signed_def prod.exhaust_sel)
  obtain via edge where "authorized_via E (hex_text (py_get (as_dict (py_get r ''requester'')) ''public_key_hex'')) (py_get r ''context_id'')
      now None (PNone, None) (as_list ms) = Some (via, edge)"
    "py_true via \<longleftrightarrow> (\<exists>m \<in> set (as_list ms). manifest_authorizes E (as_dict (py_get r ''requester'')) (py_get r ''context_id'') now m \<and>
       names_authority m)"
    by (rule authorized_via_iff [OF refl, where found = "(PNone, None)"]) (auto simp: py_true_def)
  then show ?thesis
    using True e j by (simp add: verify_exchange_receipt_def Let_def receipt_signed_def body_binds_def receipt_authorization_def)
next
  case False
  then have "\<exists>v. verify_exchange_receipt E (PDict r) now (Some ms) rk None None None = Some v \<and> \<not> er_authentic v"
    using judged_signed [of r _ _ E EXCHANGE_RECEIPT_FIELDS]
    by (auto simp: verify_exchange_receipt_def Let_def blank_receipt_def receipt_signed_def
        split: option.splits prod.splits bool.splits)
  then show ?thesis using False by auto
qed

text \<open>A body the caller holds has the digest the receipt commits to.\<close>

definition body_committed :: "env \<Rightarrow> pydict \<Rightarrow> string \<Rightarrow> body_arg option \<Rightarrow> bool" where
  "body_committed E r name b \<longleftrightarrow>
     (case b of None \<Rightarrow> True
      | Some x \<Rightarrow> \<exists>bs. body_bytes E x = Some bs \<and> hex_text (py_get r name) = Some (hex_of (sha3 E bs)))"

lemma body_binds_iff:
  "(\<exists>res. body_binds E r name b = Some res \<and> res \<noteq> Some False) \<longleftrightarrow> body_committed E r name b"
  by (auto simp: body_binds_def body_committed_def split: option.split)

lemma receipt_in_every_respect:
  "(\<exists>v. verify_exchange_receipt E (PDict r) now (Some ms) (Some responder_key) req_body resp_body None = Some v \<and>
      er_authentic v \<and> er_responder_matches v = Some True \<and> er_request_bound v \<noteq> Some False \<and> er_response_bound v \<noteq> Some False \<and>
      er_authorized v = Some True) \<longleftrightarrow>
   receipt_signed E r \<and> same_hex (py_get r ''public_key_hex'') responder_key \<and>
   body_committed E r ''request_hash'' req_body \<and> body_committed E r ''response_hash'' resp_body \<and>
   (\<exists>m \<in> set (as_list ms). manifest_authorizes E (as_dict (py_get r ''requester'')) (py_get r ''context_id'') now m \<and> names_authority m)"
proof (cases "receipt_signed E r")
  case True
  then obtain sg pk where e: "\<not> placeholder_envelope r" "envelope_bytes r = Some (sg, pk)"
    by (auto simp: receipt_signed_def elim: signed_statementE)
  obtain tried n where j: "judged E EXCHANGE_RECEIPT_FIELDS r sg pk (py_get r ''algorithm'') = (True, tried, n)"
    using judged_signed [OF e(2), of E EXCHANGE_RECEIPT_FIELDS] True by (metis receipt_signed_def prod.exhaust_sel)
  obtain via edge where v: "authorized_via E (hex_text (py_get (as_dict (py_get r ''requester'')) ''public_key_hex'')) (py_get r ''context_id'')
      now None (PNone, None) (as_list ms) = Some (via, edge)"
    "py_true via \<longleftrightarrow> (\<exists>m \<in> set (as_list ms). manifest_authorizes E (as_dict (py_get r ''requester'')) (py_get r ''context_id'') now m \<and>
       names_authority m)"
    by (rule authorized_via_iff [OF refl, where found = "(PNone, None)"]) (auto simp: py_true_def)
  then show ?thesis
    using True e j
    by (auto simp: verify_exchange_receipt_def Let_def receipt_signed_def receipt_authorization_def body_binds_iff [symmetric]
        split: option.splits)
next
  case False
  have "\<exists>v. verify_exchange_receipt E (PDict r) now (Some ms) (Some responder_key) req_body resp_body None = Some v \<and> \<not> er_authentic v"
    using judged_signed [of r _ _ E EXCHANGE_RECEIPT_FIELDS] False
    by (auto simp: verify_exchange_receipt_def Let_def blank_receipt_def receipt_signed_def
        split: option.splits prod.splits bool.splits)
  then show ?thesis using False by auto
qed

lemma same_id_iff:
  "same_id a b \<longleftrightarrow> (\<exists>s. a = PStr s \<and> b = PStr s) \<or> (\<exists>n. a = PInt n \<and> b = PInt n \<and> \<bar>n\<bar> \<le> MAX_SAFE_INTEGER)"
  by (cases a; cases b) (auto simp: same_id_def safe_int_def is_str_def num_value_def)

lemma same_id_sym: "same_id a b \<Longrightarrow> same_id b a"
  by (auto simp: same_id_iff)

lemma same_id_trans: "same_id a b \<Longrightarrow> same_id b c \<Longrightarrow> same_id a c"
  by (auto simp: same_id_iff)

text \<open>Who is authorized depends on the key and the context alone.\<close>

lemma manifest_authorizes_same:
  assumes "manifest_authorizes E p ctx now m" "same_hex (py_get q ''public_key_hex'') (py_get p ''public_key_hex'')" "same_id ctx' ctx"
  shows "manifest_authorizes E q ctx' now m"
proof -
  have "edge_holds E q ctx' now False d a" if "edge_holds E p ctx now False d a" for d a
    using that same_hex_trans [OF assms(2)] same_id_trans [OF _ same_id_sym [OF assms(3)]] by (auto simp: edge_holds_def)
  then show ?thesis using assms(1) unfolding manifest_authorizes_def by blast
qed

lemma evidence_authorizes:
  assumes "exchange_evidence (PDict e) (PDict r) = Some True" "request_signed E e"
    and "manifest_authorizes E (as_dict (py_get r ''requester'')) (py_get r ''context_id'') now m"
  shows "manifest_authorizes E e (py_get e ''context_id'') now m"
    and "hex_text (py_get e ''public_key_hex'') = hex_text (py_get (as_dict (py_get r ''requester'')) ''public_key_hex'')"
proof -
  let ?rk = "py_get (as_dict (py_get r ''requester'')) ''public_key_hex''"
  have "same_hex (py_get (as_dict (py_get e ''requester'')) ''public_key_hex'') ?rk"
    and i: "same_id (py_get e ''context_id'') (py_get r ''context_id'')"
    using assms(1) by (simp_all add: exchange_evidence_def)
  moreover have "same_hex (py_get (as_dict (py_get e ''requester'')) ''public_key_hex'') (py_get e ''public_key_hex'')"
    using assms(2) by (simp add: request_signed_def)
  ultimately have h: "same_hex (py_get e ''public_key_hex'') ?rk" using same_hex_sym same_hex_trans by blast
  show "manifest_authorizes E e (py_get e ''context_id'') now m"
    by (rule manifest_authorizes_same [OF assms(3) h i])
  show "hex_text (py_get e ''public_key_hex'') = hex_text ?rk" using h by (simp add: same_hex_def)
qed

lemma carries_over:
  assumes "exchange_evidence (PDict e) (PDict r) = Some True"
    and "map_option (\<lambda>v. (er_authentic v, er_authorized v)) (verify_exchange_receipt E (PDict r) now (Some ms) rk None None None) =
      Some (True, Some True)"
    and "map_option rq_authentic (verify_exchange_request E (PDict e) None None None now) = Some True"
  shows "map_option (\<lambda>v. (rq_authentic v, rq_requester_matches v, rq_authorized v))
     (verify_exchange_request E (PDict e) (Some (py_get (as_dict (py_get r ''requester'')) ''public_key_hex'')) (Some ms) None now) =
     Some (True, Some True, Some True)"
proof -
  have s: "request_signed E e"
    by (rule ccontr) (use assms(3) request_unsigned [of E e None None None now] in auto)
  then obtain key where k: "hex_text (py_get e ''public_key_hex'') = Some key"
    by (auto simp: request_signed_def same_hex_def)
  obtain m where m: "m \<in> set (as_list ms)"
      "manifest_authorizes E (as_dict (py_get r ''requester'')) (py_get r ''context_id'') now m"
    using assms(2) unfolding receipt_authorized by blast
  note a = evidence_authorizes [OF assms(1) s m(2)]
  let ?rk = "Some (py_get (as_dict (py_get r ''requester'')) ''public_key_hex'')"
  obtain tried where "verify_exchange_request E (PDict e) ?rk (Some ms) None now =
      request_checks E e key ?rk (Some ms) None now (blank_request\<lparr>rq_authentic := True, rq_witnesses := tried\<rparr>)"
    by (rule verify_request_signed [OF s k])
  moreover obtain w where "request_checks E e key ?rk (Some ms) None now (blank_request\<lparr>rq_authentic := True, rq_witnesses := tried\<rparr>)
      = Some w"
    "rq_authentic w" "rq_authorized w = Some (\<exists>m \<in> set (as_list ms). manifest_authorizes E e (py_get e ''context_id'') now m)"
    "rq_requester_matches w = Some (Some key = hex_text (the ?rk))"
    by (rule request_checks_authorized [OF k, of E ?rk ms None now]) auto
  ultimately show ?thesis using m(1) a k by auto
qed

section \<open>Properties\<close>

text \<open>
  C21. A receipt shows, to a party that knows the responder's key, an exchange that responder vouches for
  with an authorized requester, over the bodies the party holds: the verdict says so in every respect
  exactly when the receipt is signed under the key it carries, that key is the responder's, every body
  given hashes to what the receipt commits to, and one of the manifests the caller trusts, signed by its
  own authority, current (no cap is put on its window) and naming that authority, carries an edge to the
  requester's key in the receipt's context that is open now and, if signed, genuinely signed by an active
  root of the manifest.
\<close>

theorem receipt_authorized_exactly:
  "(\<exists>v. verify_exchange_receipt E (PDict r) now (Some ms) (Some responder_key) req_body resp_body None = Some v \<and>
      er_authentic v \<and> er_responder_matches v = Some True \<and> er_request_bound v \<noteq> Some False \<and> er_response_bound v \<noteq> Some False \<and>
      er_authorized v = Some True) \<longleftrightarrow>
   receipt_signed E r \<and> same_hex (py_get r ''public_key_hex'') responder_key \<and>
   body_committed E r ''request_hash'' req_body \<and> body_committed E r ''response_hash'' resp_body \<and>
   (\<exists>m \<in> set (as_list ms). manifest_authorizes E (as_dict (py_get r ''requester'')) (py_get r ''context_id'') now m \<and> names_authority m)"
  by (rule receipt_in_every_respect)

text \<open>
  The two sides of an exchange agree: where an envelope and a receipt are accepted as one evidence,
  the envelope's signature verifies, and the receipt shows an authorized exchange under some manifests,
  the envelope is signed by the very requester the receipt names and is authorized under the same
  manifests.
\<close>

theorem receipt_authorization_carries_over:
  assumes "exchange_evidence (PDict e) (PDict r) = Some True"
    and "map_option (\<lambda>v. (er_authentic v, er_authorized v)) (verify_exchange_receipt E (PDict r) now (Some ms) rk None None None) =
      Some (True, Some True)"
    and "map_option rq_authentic (verify_exchange_request E (PDict e) None None None now) = Some True"
  shows "map_option (\<lambda>v. (rq_authentic v, rq_requester_matches v, rq_authorized v))
     (verify_exchange_request E (PDict e) (Some (py_get (as_dict (py_get r ''requester'')) ''public_key_hex'')) (Some ms) None now) =
     Some (True, Some True, Some True)"
  by (rule carries_over [OF assms])

definition sample_key :: pyval where
  "sample_key = PStr (hex_of (replicate 1952 1))"

definition sample_requester :: pydict where
  "sample_requester = [(lit ''public_key_hex'', sample_key)]"

definition sample_request :: pydict where
  "sample_request = [(lit ''format'', PStr EXCHANGE_REQUEST_FORMAT), (lit ''requester'', PDict sample_requester),
     (lit ''context_id'', PStr (lit ''c'')), (lit ''request_hash'', PStr (lit ''ab'')), (lit ''issued_at'', PStr (lit ''t''))] @ sample_envelope"

definition sample_receipt :: pydict where
  "sample_receipt = [(lit ''format'', PStr EXCHANGE_RECEIPT_FORMAT), (lit ''requester'', PDict sample_requester),
     (lit ''context_id'', PStr (lit ''c'')), (lit ''request_hash'', PStr (lit ''ab'')), (lit ''occurred_at'', PStr (lit ''t''))] @ sample_envelope"

definition sample_edge :: pydict where
  "sample_edge = [(lit ''attested_public_key_hex'', sample_key), (lit ''context_id'', PStr (lit ''c''))]"

definition sample_manifest :: pydict where
  "sample_manifest = [(lit ''format'', PStr MANIFEST_FORMAT), (lit ''authority'', PDict [(lit ''agency_id'', PStr (lit ''a''))]),
     (lit ''anchors'', PList [PDict sample_requester]), (lit ''attestations'', PList [PDict sample_edge]),
     (lit ''issued_at'', PStr (iso_text 2026 10 21 12 0 0)), (lit ''expires_at'', PStr (iso_text 2026 10 22 12 0 0))] @ sample_envelope"

lemma sample_key: "json_ok sample_key" "same_hex sample_key sample_key" "hex_text sample_key \<noteq> None"
proof -
  have "hex_of (replicate 1952 1) \<noteq> []" by (simp flip: length_greater_0_conv)
  then show "same_hex sample_key sample_key" "hex_text sample_key \<noteq> None"
    by (simp_all only: same_hex_def hex_text_def sample_key_def pyval.case) simp_all
qed (simp add: sample_key_def)

lemma sample_envelope_fields:
  assumes "d = own @ sample_envelope" "lit ''algorithm'' \<notin> fst ` set own" "lit ''public_key_hex'' \<notin> fst ` set own"
    "lit ''signature_hex'' \<notin> fst ` set own"
  shows "py_get d ''algorithm'' = PStr (lit ''ML-DSA-65'')" "py_get d ''public_key_hex'' = sample_key"
    "py_get d ''signature_hex'' = PStr (hex_of (replicate 3309 2))"
proof -
  have "py_get (own @ sample_envelope) n = py_get sample_envelope n" if "lit n \<notin> fst ` set own" for n
    using that by (induction own) (auto simp: py_get_def)
  then show "py_get d ''algorithm'' = PStr (lit ''ML-DSA-65'')" "py_get d ''public_key_hex'' = sample_key"
    "py_get d ''signature_hex'' = PStr (hex_of (replicate 3309 2))"
    using assms by (simp_all only: sample_envelope_def sample_key_def py_get_Cons py_get_Nil lit_eq_iff) simp_all
qed

lemma json_ok_statement: "json_ok (PDict d) \<Longrightarrow> json_ok (statement names d)"
  by (induction d) (auto simp: statement_def list_all_iff py_get_def split: option.split dest!: map_of_SomeD)

lemma sample_signed:
  assumes "d = own @ sample_envelope" "lit ''algorithm'' \<notin> fst ` set own" "lit ''public_key_hex'' \<notin> fst ` set own"
    "lit ''signature_hex'' \<notin> fst ` set own" "json_ok (PDict own)"
  shows "signed_statement trusting_env names d" "text_signed trusting_env names d"
proof -
  note f = sample_envelope_fields [OF assms(1-4)]
  have "json_ok (PDict sample_envelope)" by (simp add: sample_envelope_def)
  then have "json_ok (statement names d)"
    using assms(5) by (intro json_ok_statement) (simp add: assms(1))
  then have "canonical_digest trusting_env names d \<noteq> None"
    by (simp add: canonical_digest_def canonical_json_def)
  then show s: "signed_statement trusting_env names d"
    using sample_signature_holds [OF f(1) f(2) [unfolded sample_key_def] f(3)] by (auto simp: signed_statement_def)
  show "text_signed trusting_env names d"
    using text_signed_text [OF f(3) f(2) [unfolded sample_key_def]] s by blast
qed

lemma sample_manifest_authorizes: "manifest_authorizes trusting_env sample_requester (PStr (lit ''c'')) (NowText (iso_text 2026 10 21 12 0 0)) (PDict sample_manifest)"
proof -
  have m: "signed_statement trusting_env MANIFEST_FIELDS sample_manifest"
    by (rule sample_signed [OF sample_manifest_def])
      (use sample_key(1) in \<open>auto simp: lit_eq_iff sample_requester_def sample_edge_def\<close>)
  have k: "py_get sample_manifest ''public_key_hex'' = sample_key"
    by (rule sample_envelope_fields [OF sample_manifest_def]) (auto simp: lit_eq_iff)
  have signed: "manifest_signed trusting_env sample_manifest"
    using m k sample_key(3)
    by (simp add: manifest_signed_def signed_statement_def)
      (simp add: sample_manifest_def sample_requester_def active_anchor_keys_def status_of_def hex_in_def)
  have i: "strict_instant (iso_text 2026 10 21 12 0 0) = make_instant 2026 10 21 12 0 0 0 0"
      "strict_instant (iso_text 2026 10 22 12 0 0) = make_instant 2026 10 22 12 0 0 0 0"
    by (rule strict_instant_iso_text; simp add: valid_date_def days_in_month_def leap_year_def)+
  have "instants trusting_env sample_manifest (NowText (iso_text 2026 10 21 12 0 0)) =
      Some (the (make_instant 2026 10 21 12 0 0 0 0), the (make_instant 2026 10 21 12 0 0 0 0), the (make_instant 2026 10 22 12 0 0 0 0))"
    by (simp add: instants_def instant_at_def instant_def i sample_manifest_def lit_eq_iff make_instant_def valid_date_def
        days_in_month_def leap_year_def)
  then have "fresh_now trusting_env sample_manifest (NowText (iso_text 2026 10 21 12 0 0)) None"
    by (simp add: fresh_now_def verify_window_inline_fresh_iff make_instant_def valid_date_def days_in_month_def leap_year_def
        days_before_year_def)
  moreover have "edge_holds trusting_env sample_requester (PStr (lit ''c'')) (NowText (iso_text 2026 10 21 12 0 0)) False sample_manifest sample_edge"
    using sample_key(2)
    by (simp add: edge_holds_def sample_requester_def sample_edge_def same_id_def is_str_def attestation_window_open_def
        unsigned_edge_def py_true_def)
  ultimately show ?thesis
    unfolding manifest_authorizes_def using signed
    by (intro exI [of _ sample_manifest] conjI exI [of _ sample_edge]) (simp_all add: sample_manifest_def)
qed

lemma receipt_authorization_carries_over_witness:
  "map_option (\<lambda>v. (rq_authentic v, rq_requester_matches v, rq_authorized v))
     (verify_exchange_request trusting_env (PDict sample_request) (Some (py_get (as_dict (py_get sample_receipt ''requester'')) ''public_key_hex''))
       (Some (PList [PDict sample_manifest])) None (NowText (iso_text 2026 10 21 12 0 0))) =
   Some (True, Some True, Some True)"
proof (rule receipt_authorization_carries_over [where rk = None])
  show "exchange_evidence (PDict sample_request) (PDict sample_receipt) = Some True"
    using sample_key(2)
    by (simp add: exchange_evidence_def sample_request_def sample_receipt_def sample_requester_def same_id_def is_str_def
        same_hex_def hex_text_def lit_def)
  have r: "receipt_signed trusting_env sample_receipt"
    unfolding receipt_signed_def
    by (rule conjI, simp add: sample_receipt_def, rule sample_signed [OF sample_receipt_def])
      (use sample_key(1) in \<open>auto simp: lit_eq_iff sample_requester_def sample_edge_def\<close>)
  show "map_option (\<lambda>v. (er_authentic v, er_authorized v)) (verify_exchange_receipt trusting_env (PDict sample_receipt)
      (NowText (iso_text 2026 10 21 12 0 0)) (Some (PList [PDict sample_manifest])) None None None None) = Some (True, Some True)"
    unfolding receipt_authorized using r sample_manifest_authorizes
    by (simp add: sample_receipt_def names_authority_def sample_manifest_def py_true_def)
  have "request_signed trusting_env sample_request"
    unfolding request_signed_def
  proof (intro conjI)
    have "py_get sample_request ''public_key_hex'' = sample_key"
      by (rule sample_envelope_fields [OF sample_request_def]) (auto simp: lit_eq_iff)
    then show "same_hex (py_get (as_dict (py_get sample_request ''requester'')) ''public_key_hex'') (py_get sample_request ''public_key_hex'')"
      using sample_key(2) by (simp add: sample_request_def sample_requester_def)
    show "text_signed trusting_env EXCHANGE_REQUEST_FIELDS sample_request"
      by (rule sample_signed [OF sample_request_def])
        (use sample_key(1) in \<open>auto simp: lit_eq_iff sample_requester_def sample_edge_def\<close>)
  qed (simp add: sample_request_def)
  moreover obtain key where "hex_text (py_get sample_request ''public_key_hex'') = Some key"
    using calculation by (auto simp: request_signed_def same_hex_def)
  ultimately obtain tried where "verify_exchange_request trusting_env (PDict sample_request) None None None (NowText (iso_text 2026 10 21 12 0 0)) =
      request_checks trusting_env sample_request key None None None (NowText (iso_text 2026 10 21 12 0 0))
        (blank_request\<lparr>rq_authentic := True, rq_witnesses := tried\<rparr>)"
    by (rule verify_request_signed)
  then show "map_option rq_authentic (verify_exchange_request trusting_env (PDict sample_request) None None None
      (NowText (iso_text 2026 10 21 12 0 0))) = Some True"
    by (simp add: request_checks_def)
qed

end
