(* ===== verification/Documents.thy ===== *)
theory Documents
  imports Exchange
begin

text \<open>
  Signed documents and login tokens, in \<open>polaris_verify_cli/verifier.py\<close>: the document container and its
  long-term validation (\<open>verify_signed_document\<close>, \<open>attach_ltv\<close>, \<open>document_signature_material\<close>,
  \<open>is_revoked_leaf\<close>) and the token a relying party receives at login (\<open>verify_id_token\<close>).
\<close>

section \<open>The container\<close>

definition SIGNED_DOCUMENT_FORMAT :: ustr where "SIGNED_DOCUMENT_FORMAT = lit ''polaris-signed-document/1''"

definition SIGNED_DOCUMENT_FIELDS :: "string list" where
  "SIGNED_DOCUMENT_FIELDS = [''format'', ''document'', ''signer'', ''on_behalf_of'', ''purpose'', ''signed_at'', ''algorithm'']"

text \<open>
  What a timestamp over the document binds. The inner \<open>None\<close> is the one the code returns for a statement
  with no canonical text, the outer one a signature field that has no UTF-8.
\<close>

definition document_signature_material :: "env \<Rightarrow> pyval \<Rightarrow> bytes option option" where
  "document_signature_material E doc0 =
     (case doc0 of PDict doc \<Rightarrow>
        (case canonical_json (frepr E) (statement SIGNED_DOCUMENT_FIELDS doc) of None \<Rightarrow> Some None
         | Some canonical \<Rightarrow>
             let sg = py_get doc ''signature_hex''
             in map_option (\<lambda>bs. Some (canonical @ 10 # bs))
                  (utf8_encode (lower_text E (if py_true sg then py_str E sg else []))))
      | _ \<Rightarrow> Some (Some []))"

definition is_revoked_leaf :: "env \<Rightarrow> pyval \<Rightarrow> pyval \<Rightarrow> bool" where
  "is_revoked_leaf E feed leaf_hex =
     (case feed of PDict f \<Rightarrow>
        (case py_get f ''revoked_leaves'' of
           PList xs \<Rightarrow> lower_text E (if py_true leaf_hex then py_str E leaf_hex else []) \<in> set (leaf_texts E xs)
         | _ \<Rightarrow> False)
      | _ \<Rightarrow> False)"

text \<open>\<open>d[k] = v\<close> of a dict, and \<open>list(x or [])\<close>, which raises for a value that cannot be iterated.\<close>

fun dict_set :: "pydict \<Rightarrow> ustr \<Rightarrow> pyval \<Rightarrow> pydict" where
  "dict_set [] k v = [(k, v)]"
| "dict_set ((k', w) # d) k v = (if k' = k then (k, v) # d else (k', w) # dict_set d k v)"

definition iterated :: "pyval \<Rightarrow> pyval list option" where
  "iterated x =
     (if \<not> py_true x then Some []
      else (case x of PList xs \<Rightarrow> Some xs | PStr s \<Rightarrow> Some (map (\<lambda>c. PStr [c]) s) | PDict d \<Rightarrow> Some (map (PStr \<circ> fst) d)
            | _ \<Rightarrow> None))"

definition set_unless_none :: "string \<times> pyval \<Rightarrow> pydict \<Rightarrow> pydict" where
  "set_unless_none kv d = (if snd kv = PNone then d else dict_set d (lit (fst kv)) (snd kv))"

definition attach_ltv :: "pyval \<Rightarrow> pyval \<Rightarrow> pyval \<Rightarrow> pyval \<Rightarrow> pyval \<Rightarrow> pyval list \<Rightarrow> pydict option" where
  "attach_ltv doc timestamp manifest epoch_checkpoint revocation_feed timestamps =
     (let out = as_dict doc; ltv = as_dict (py_get out ''ltv'')
      in map_option
           (\<lambda>l. dict_set out (lit ''ltv'') (PDict
              (fold set_unless_none [(''timestamp'', timestamp), (''manifest'', manifest), (''epoch_checkpoint'', epoch_checkpoint),
                 (''revocation_feed'', revocation_feed)] l)))
           (if timestamps = [] then Some ltv
            else map_option (\<lambda>xs. dict_set ltv (lit ''timestamps'') (PList (xs @ filter is_dict timestamps)))
                   (iterated (py_get ltv ''timestamps''))))"

section \<open>One timestamp as evidence\<close>

record ltv_entry =
  le_authentic :: bool
  le_binds :: bool
  le_trusted :: "bool option"
  le_independent :: bool
  le_anchored :: "bool option"
  le_witnessed :: "bool option"
  le_key_status :: "key_status option"
  le_qualifies :: bool

text \<open>What the caller asks of the evidence.\<close>

record ltv_policy =
  lp_timestamp_anchors :: "pyval list option"
  lp_require_anchored :: bool
  lp_trusted_witnesses :: "pyval list option"
  lp_witness_threshold :: pyval
  lp_timestamp_quorum :: int
  lp_timestamp_log_key :: "pyval option"

text \<open>The key's status per the trust list; \<open>usable\<close> says whether the list was authentic and fresh.\<close>

definition listed_status :: "env \<Rightarrow> pyval \<Rightarrow> bool \<Rightarrow> int option \<Rightarrow> ustr option \<Rightarrow> key_status option option" where
  "listed_status E trust_list usable i key =
     (case (usable, i) of
        (True, Some t) \<Rightarrow> key_status_at E trust_list (case key of None \<Rightarrow> PNone | Some k \<Rightarrow> PStr k) (NowDatetime t)
      | _ \<Rightarrow> Some None)"

definition judge_timestamp ::
    "env \<Rightarrow> ltv_policy \<Rightarrow> ustr option \<Rightarrow> bytes option \<Rightarrow> int option \<Rightarrow> pyval \<Rightarrow> bool \<Rightarrow> pydict \<Rightarrow> ltv_entry option" where
  "judge_timestamp E P signer_key material i trust_list usable t =
     (let tv = verify_timestamp E (PDict t) (lp_timestamp_anchors P); t_key = hex_text (py_get t ''public_key_hex'');
          binds = (case material of None \<Rightarrow> False | Some m \<Rightarrow> timestamp_binds E (PDict t) m = Some True);
          apart = t_key \<noteq> None \<and> t_key \<noteq> signer_key
      in case listed_status E trust_list (usable \<and> t_key \<noteq> None) i t_key of None \<Rightarrow> None
         | Some status \<Rightarrow>
             (case (if is_dict (py_get t ''anchor'') then
                      map_option Some (verify_timestamp_anchor E (PDict t) (lp_timestamp_log_key P) (lp_trusted_witnesses P) (lp_witness_threshold P))
                    else Some None) of None \<Rightarrow> None
              | Some av \<Rightarrow>
                  Some \<lparr>le_authentic = ts_authentic tv, le_binds = binds, le_trusted = ts_trusted tv, le_independent = apart,
                    le_anchored = map_option (iv_included \<circ> ta_inclusion) av,
                    le_witnessed = Option.bind av ta_witnessed, le_key_status = status,
                    le_qualifies = (ts_authentic tv \<and> binds \<and> ts_trusted tv = Some True \<and> apart \<and>
                      (trust_list = PNone \<or> status = Some KeyActive))\<rparr>))"

text \<open>The timestamps in order, with their keys; \<open>None\<close> where one of them raises.\<close>

definition judge_all ::
    "env \<Rightarrow> ltv_policy \<Rightarrow> ustr option \<Rightarrow> bytes option \<Rightarrow> int option \<Rightarrow> pyval \<Rightarrow> bool \<Rightarrow> pydict list \<Rightarrow> (ustr option \<times> ltv_entry) list option"
  where
  "judge_all E P signer_key material i trust_list usable ts =
     those (map (\<lambda>t. map_option (Pair (hex_text (py_get t ''public_key_hex'')))
       (judge_timestamp E P signer_key material i trust_list usable t)) ts)"

definition carried_timestamps :: "pydict \<Rightarrow> pydict list option" where
  "carried_timestamps ltv =
     map_option (\<lambda>xs. map as_dict (filter is_dict (py_get ltv ''timestamp'' # xs))) (iterated (py_get ltv ''timestamps''))"

section \<open>The signer at the instant\<close>

definition signer_active_at :: "env \<Rightarrow> ustr option \<Rightarrow> pyval \<Rightarrow> int option \<Rightarrow> bool option" where
  "signer_active_at E signer_key manifest i =
     (case (i, manifest) of
        (Some t, PDict m) \<Rightarrow>
          map_option
            (\<lambda>mv. mv_authentic mv \<and> mv_fresh mv = Some True \<and> hex_text (py_get m ''public_key_hex'') = signer_key \<and>
               signer_key \<noteq> None \<and>
               list_ex (\<lambda>a. is_dict a \<and> hex_text (py_get (as_dict a) ''public_key_hex'') = signer_key \<and>
                   status_of (as_dict a) = PStr (lit ''active'')) (mv_anchors mv))
            (verify_manifest E manifest (NowDatetime t) None None)
      | _ \<Rightarrow> Some False)"

datatype ltv_failure =
    TimestampNotAuthentic | TimestampNotBound | TimestampNotIndependent | SignerKeyNotActive | NoTimestampAnchors
  | TimestampAuthorityUntrusted | TimestampKeyNotActive | QuorumNotMet nat int | NotAnchoredPolicy bool | HeadNotWitnessed
  | RevokedAtInstant | NoUsableFeed | NoFeedGiven | NoSignerAnchors | SignerUntrusted

text \<open>For a signature a holder authorized: the credential is not in the signer's feed at the instant.\<close>

definition unrevoked_at ::
    "env \<Rightarrow> ustr option \<Rightarrow> pydict \<Rightarrow> pyval \<Rightarrow> int option \<Rightarrow> (bool option \<times> ltv_failure) option" where
  "unrevoked_at E signer_key doc feed i =
     (let credential = py_get (as_dict (py_get doc ''on_behalf_of'')) ''credential_hash''
      in if \<not> py_true credential then Some (None, NoFeedGiven)
         else
           (case (i, feed) of
              (Some t, PDict f) \<Rightarrow>
                map_option
                  (\<lambda>fv. let feed_ok = rf_authentic fv \<and> rf_fresh fv = Some True \<and> rf_issuer_matches fv \<noteq> Some False;
                            listed = is_revoked_leaf E feed credential
                        in (Some (feed_ok \<and> \<not> listed), if feed_ok \<and> listed then RevokedAtInstant else NoUsableFeed))
                  (verify_revocation_feed E feed (NowDatetime t) None (map_option PStr signer_key))
            | _ \<Rightarrow> Some (Some False, NoFeedGiven)))"

section \<open>Long-term validation\<close>

record ltv_verdict =
  lv_ts_authentic :: bool
  lv_ts_binds :: bool
  lv_instant :: pyval
  lv_ts_trusted :: "bool option"
  lv_ts_independent :: bool
  lv_entries :: "ltv_entry list"
  lv_independent_timestamps :: nat
  lv_anchored :: bool
  lv_witnessed :: "bool option"
  lv_ts_key_status :: "key_status option"
  lv_signer_active :: bool
  lv_unrevoked :: "bool option"
  lv_signer_status :: "key_status option"

datatype doc_note = DocNote vnote | NotLowercaseDigest | NoLtvEvidence | LtvFailed "ltv_failure list"

record doc_verdict =
  dv_authentic :: bool
  dv_signer_trusted :: "bool option"
  dv_binds :: "bool option"
  dv_ltv :: "ltv_verdict option"
  dv_valid_long_term :: bool
  dv_witnesses :: "(string \<times> bool) list"
  dv_note :: "doc_note option"

definition blank_document :: doc_verdict where
  "blank_document =
     \<lparr>dv_authentic = False, dv_signer_trusted = None, dv_binds = None, dv_ltv = None, dv_valid_long_term = False,
      dv_witnesses = [], dv_note = None\<rparr>"

text \<open>\<open>max(1, int(timestamp_quorum or 1))\<close> of an integer.\<close>

definition quorum_of :: "ltv_policy \<Rightarrow> int" where
  "quorum_of P = max 1 (if lp_timestamp_quorum P = 0 then 1 else lp_timestamp_quorum P)"

definition anchored_ok :: "ltv_policy \<Rightarrow> ltv_verdict \<Rightarrow> bool" where
  "anchored_ok P L \<longleftrightarrow> \<not> lp_require_anchored P \<or>
     lv_anchored L \<and> (lp_trusted_witnesses P = None \<or> lv_witnessed L = Some True)"

definition valid_long_term :: "ltv_policy \<Rightarrow> pyval \<Rightarrow> bool \<Rightarrow> ltv_verdict \<Rightarrow> bool" where
  "valid_long_term P trust_list signer_trust_ok L \<longleftrightarrow>
     lv_ts_authentic L \<and> lv_ts_binds L \<and> lv_ts_trusted L = Some True \<and> lv_ts_independent L \<and>
     (trust_list = PNone \<or> lv_ts_key_status L = Some KeyActive) \<and>
     quorum_of P \<le> int (lv_independent_timestamps L) \<and> anchored_ok P L \<and> lv_signer_active L \<and>
     lv_unrevoked L \<noteq> Some False \<and> (trust_list = PNone \<or> lv_signer_status L = Some KeyActive) \<and> signer_trust_ok"

definition ltv_failures ::
    "ltv_policy \<Rightarrow> pyval \<Rightarrow> pyval list option \<Rightarrow> bool \<Rightarrow> ltv_failure \<Rightarrow> ltv_verdict \<Rightarrow> ltv_failure list" where
  "ltv_failures P trust_list trusted_anchors signer_trust_ok revocation_why L =
     (if lv_ts_authentic L then [] else [TimestampNotAuthentic]) @ (if lv_ts_binds L then [] else [TimestampNotBound]) @
     (if lv_ts_independent L then [] else [TimestampNotIndependent]) @ (if lv_signer_active L then [] else [SignerKeyNotActive]) @
     (case lv_ts_trusted L of None \<Rightarrow> [NoTimestampAnchors] | Some False \<Rightarrow> [TimestampAuthorityUntrusted] | Some True \<Rightarrow> []) @
     (if trust_list \<noteq> PNone \<and> lv_ts_key_status L \<noteq> Some KeyActive then [TimestampKeyNotActive] else []) @
     (if int (lv_independent_timestamps L) < quorum_of P then [QuorumNotMet (lv_independent_timestamps L) (quorum_of P)] else []) @
     (if lp_require_anchored P \<and> \<not> lv_anchored L then [NotAnchoredPolicy (lp_timestamp_log_key P = None)]
      else if lp_require_anchored P \<and> lp_trusted_witnesses P \<noteq> None \<and> lv_witnessed L \<noteq> Some True then [HeadNotWitnessed] else []) @
     (if lv_unrevoked L = Some False then [revocation_why] else []) @
     (if trusted_anchors = None then [NoSignerAnchors] else if \<not> signer_trust_ok then [SignerUntrusted] else [])"

text \<open>From the judged timestamps: how many authorities qualify, and whether an anchored one does.\<close>

definition ltv_facts ::
    "ltv_policy \<Rightarrow> timestamp_verdict \<Rightarrow> bool \<Rightarrow> bool \<Rightarrow> (ustr option \<times> ltv_entry) list \<Rightarrow> bool \<Rightarrow> bool option \<Rightarrow> key_status option \<Rightarrow>
      ltv_verdict" where
  "ltv_facts P tv binds apart judged_ts active unrevoked signer_status =
     (let good = filter (le_qualifies \<circ> snd) judged_ts; anchored = filter (\<lambda>e. le_anchored (snd e) = Some True) good
      in \<lparr>lv_ts_authentic = ts_authentic tv, lv_ts_binds = binds, lv_instant = ts_issued_at tv, lv_ts_trusted = ts_trusted tv,
          lv_ts_independent = apart, lv_entries = map snd judged_ts,
          lv_independent_timestamps = length (remdups (map fst good)), lv_anchored = (anchored \<noteq> []),
          lv_witnessed = (if lp_trusted_witnesses P = None then None
                          else Some (list_ex (\<lambda>e. le_witnessed (snd e) = Some True) anchored)),
          lv_ts_key_status = (case judged_ts of [] \<Rightarrow> None | e # _ \<Rightarrow> le_key_status (snd e)),
          lv_signer_active = active, lv_unrevoked = unrevoked, lv_signer_status = signer_status\<rparr>)"

text \<open>The evidence, for a document whose signature holds; the trust list is checked with the caller's signer anchors.\<close>

definition validate_evidence ::
    "env \<Rightarrow> ltv_policy \<Rightarrow> pydict \<Rightarrow> pydict \<Rightarrow> ustr option \<Rightarrow> now_arg \<Rightarrow> pyval list option \<Rightarrow> pyval \<Rightarrow> bool option \<Rightarrow>
      (ltv_verdict \<times> bool \<times> ltv_failure) option" where
  "validate_evidence E P doc ltv signer_key now trusted_anchors trust_list signer_trusted =
     (let ts = py_get ltv ''timestamp''; tv = verify_timestamp E ts (lp_timestamp_anchors P);
          ts_key = hex_text (py_get (as_dict ts) ''public_key_hex'');
          i = (case ts_issued_at tv of PStr s \<Rightarrow> strict_instant s | _ \<Rightarrow> None);
          tlv = verify_trust_list E trust_list now None trusted_anchors;
          usable = trust_list \<noteq> PNone \<and> tl_authentic tlv \<and> tl_fresh tlv = Some True
      in case (document_signature_material E (PDict doc), carried_timestamps ltv) of
           (Some material, Some carried) \<Rightarrow>
             (case (signer_active_at E signer_key (py_get ltv ''manifest'') i,
                    unrevoked_at E signer_key doc (py_get ltv ''revocation_feed'') i,
                    listed_status E trust_list usable i signer_key,
                    judge_all E P signer_key material i trust_list usable carried) of
                (Some active, Some (unrevoked, why), Some status, Some entries) \<Rightarrow>
                  let binds = (case material of None \<Rightarrow> False | Some m \<Rightarrow> timestamp_binds E ts m = Some True);
                      L = ltv_facts P tv binds (ts_key \<noteq> None \<and> ts_key \<noteq> signer_key) entries active unrevoked status;
                      signer_trust_ok = signer_trusted = Some True \<or>
                        trust_list \<noteq> PNone \<and> tl_trusted tlv = Some True \<and> status = Some KeyActive
                  in Some (L, signer_trust_ok, why)
              | _ \<Rightarrow> None)
         | _ \<Rightarrow> None)"

definition verify_signed_document ::
    "env \<Rightarrow> pyval \<Rightarrow> now_arg \<Rightarrow> pyval list option \<Rightarrow> body_arg option \<Rightarrow> pyval \<Rightarrow> ltv_policy \<Rightarrow> doc_verdict option" where
  "verify_signed_document E doc0 now trusted_anchors document_bytes trust_list P =
     (let doc = as_dict doc0; d = as_dict (py_get doc ''document''); key = py_get doc ''public_key_hex'';
          v = blank_document; noted = (\<lambda>w. Some (v\<lparr>dv_note := Some (DocNote w)\<rparr>))
      in if py_get doc ''format'' \<noteq> PStr SIGNED_DOCUMENT_FORMAT then noted (NotA SIGNED_DOCUMENT_FORMAT)
         else if placeholder_envelope doc then noted Placeholder
         else
           (case envelope_text_bytes E doc of None \<Rightarrow> noted NotHex
            | Some (sg, pk) \<Rightarrow>
                (case judged E SIGNED_DOCUMENT_FIELDS doc sg pk (py_get doc ''algorithm'') of
                   (False, tried, n) \<Rightarrow> Some (v\<lparr>dv_witnesses := tried, dv_note := map_option DocNote n\<rparr>)
                 | (True, tried, n) \<Rightarrow>
                     if \<not> lower_digest d then Some (v\<lparr>dv_witnesses := tried, dv_note := Some NotLowercaseDigest\<rparr>)
                     else
                       let trusted = map_option (\<lambda>ks. hex_in key (map hex_text ks)) trusted_anchors;
                           v2 = v\<lparr>dv_authentic := True, dv_witnesses := tried, dv_signer_trusted := trusted,
                             dv_binds := map_option (\<lambda>b. case b of
                                 BodyBytes bs \<Rightarrow> Some (hex_of (sha3 E bs)) = hex_text (py_get d ''digest_hex'')
                               | BodyValue _ \<Rightarrow> False) document_bytes\<rparr>
                       in (case py_get doc ''ltv'' of
                             PDict (kv # ltv) \<Rightarrow>
                               (case validate_evidence E P doc (kv # ltv) (hex_text key) now trusted_anchors trust_list trusted of
                                  None \<Rightarrow> None
                                | Some (L, signer_trust_ok, why) \<Rightarrow>
                                    let ok = valid_long_term P trust_list signer_trust_ok L
                                    in Some (v2\<lparr>dv_ltv := Some L, dv_valid_long_term := ok,
                                         dv_note := (if ok then None
                                           else Some (LtvFailed (ltv_failures P trust_list trusted_anchors signer_trust_ok why L)))\<rparr>))
                           | _ \<Rightarrow> Some (v2\<lparr>dv_note := Some NoLtvEvidence\<rparr>)))))"

section \<open>What the signature covers\<close>

lemma py_get_dict_set [simp]: "py_get (dict_set d k v) n = (if lit n = k then v else py_get d n)"
  by (induction d) (auto simp: py_get_def)

text \<open>Evidence is attached outside the signed statement: it neither makes nor breaks the signature.\<close>

lemma attach_keeps_statement:
  assumes "attach_ltv (PDict doc) timestamp manifest cp feed timestamps = Some out"
  shows "statement SIGNED_DOCUMENT_FIELDS out = statement SIGNED_DOCUMENT_FIELDS doc"
    "envelope_text_bytes E out = envelope_text_bytes E doc" "py_get out ''algorithm'' = py_get doc ''algorithm''"
    "document_signature_material E (PDict out) = document_signature_material E (PDict doc)"
proof -
  obtain l where o: "out = dict_set doc (lit ''ltv'') l"
    using assms by (auto simp: attach_ltv_def Let_def)
  then show "statement SIGNED_DOCUMENT_FIELDS out = statement SIGNED_DOCUMENT_FIELDS doc"
    "envelope_text_bytes E out = envelope_text_bytes E doc" "py_get out ''algorithm'' = py_get doc ''algorithm''"
    by (simp_all add: statement_def SIGNED_DOCUMENT_FIELDS_def envelope_text_bytes_def lit_eq_iff)
  then show "document_signature_material E (PDict out) = document_signature_material E (PDict doc)"
    by (simp add: document_signature_material_def o lit_eq_iff Let_def split: option.split)
qed

definition document_signed :: "env \<Rightarrow> pydict \<Rightarrow> bool" where
  "document_signed E doc \<longleftrightarrow> py_get doc ''format'' = PStr SIGNED_DOCUMENT_FORMAT \<and> \<not> placeholder_envelope doc \<and>
     text_signed E SIGNED_DOCUMENT_FIELDS doc \<and> lower_digest (as_dict (py_get doc ''document''))"

definition evidence :: "pydict \<Rightarrow> pydict" where
  "evidence doc = as_dict (py_get doc ''ltv'')"

text \<open>The document beside its evidence, once the signature holds.\<close>

lemma signed_document_cases:
  assumes "document_signed E doc"
  obtains v where "dv_authentic v" "\<not> dv_valid_long_term v"
    "verify_signed_document E (PDict doc) now ta db trl P =
      (case evidence doc of [] \<Rightarrow> Some v
       | _ \<Rightarrow> map_option (\<lambda>(L, ok, why). v\<lparr>dv_ltv := Some L, dv_valid_long_term := valid_long_term P trl ok L,
                   dv_note := (if valid_long_term P trl ok L then None else Some (LtvFailed (ltv_failures P trl ta ok why L)))\<rparr>)
                (validate_evidence E P doc (evidence doc) (hex_text (py_get doc ''public_key_hex'')) now ta trl
                  (map_option (key_anchored doc) ta)))"
proof -
  obtain sg pk where b: "envelope_text_bytes E doc = Some (sg, pk)"
    using assms by (auto simp: document_signed_def text_signed_def split: option.splits)
  obtain tried n where j: "judged E SIGNED_DOCUMENT_FIELDS doc sg pk (py_get doc ''algorithm'') = (True, tried, n)"
    using judged_text [OF b, of SIGNED_DOCUMENT_FIELDS] assms by (metis document_signed_def prod.exhaust_sel)
  let ?v = "blank_document\<lparr>dv_authentic := True, dv_witnesses := tried, dv_signer_trusted := map_option (key_anchored doc) ta,
      dv_binds := map_option (\<lambda>b. case b of
          BodyBytes bs \<Rightarrow> Some (hex_of (sha3 E bs)) = hex_text (py_get (as_dict (py_get doc ''document'')) ''digest_hex'')
        | BodyValue _ \<Rightarrow> False) db\<rparr>"
  have k: "map_option (\<lambda>ks. hex_in (py_get doc ''public_key_hex'') (map hex_text ks)) ta = map_option (key_anchored doc) ta"
    by (simp add: key_anchored_def [abs_def])
  show ?thesis
  proof (cases "evidence doc")
    case Nil
    then have "(case py_get doc ''ltv'' of PDict (kv # l) \<Rightarrow> False | _ \<Rightarrow> True)"
      by (auto simp: evidence_def split: pyval.splits list.splits)
    then show ?thesis
      using assms b j k Nil
      by (intro that [of "?v\<lparr>dv_note := Some NoLtvEvidence\<rparr>"])
        (auto simp: verify_signed_document_def Let_def document_signed_def blank_document_def split: pyval.splits list.splits)
  next
    case (Cons kv l)
    then have "py_get doc ''ltv'' = PDict (kv # l)"
      by (cases "py_get doc ''ltv''") (auto simp: evidence_def as_dict_def)
    then show ?thesis
      using assms b j k Cons
      by (intro that [of ?v])
        (auto simp: verify_signed_document_def Let_def document_signed_def blank_document_def split: option.splits)
  qed
qed

lemma document_unsigned:
  assumes "\<not> document_signed E doc"
  shows "\<exists>v. verify_signed_document E (PDict doc) now ta db trl P = Some v \<and> \<not> dv_valid_long_term v"
proof (cases "envelope_text_bytes E doc")
  case None
  then show ?thesis by (simp add: verify_signed_document_def Let_def blank_document_def)
next
  case (Some b)
  obtain sg pk where b: "b = (sg, pk)" by (cases b)
  obtain ok tried n where j: "judged E SIGNED_DOCUMENT_FIELDS doc sg pk (py_get doc ''algorithm'') = (ok, tried, n)"
    by (metis prod_cases3)
  have "ok \<longleftrightarrow> text_signed E SIGNED_DOCUMENT_FIELDS doc"
    using judged_text [OF Some [unfolded b], of SIGNED_DOCUMENT_FIELDS] j by simp
  then show ?thesis
    using assms Some b j
    by (cases ok) (auto simp: verify_signed_document_def Let_def document_signed_def blank_document_def)
qed

section \<open>When the validation raises\<close>

lemma unhex_ascii: "unhex (PStr s) = Some bs \<Longrightarrow> ascii s"
  by (auto simp: unhex_def ascii_def list_all_iff hex_digit_def split: if_splits)

lemma ascii_lower: "ascii s \<Longrightarrow> ascii (lower_text E s)"
  by (auto simp: lower_text_def py_lower_def ascii_def list_all_iff)

lemma material_exists:
  assumes "text_signed E names doc"
  shows "document_signature_material E (PDict doc) \<noteq> None"
proof -
  have "ascii (py_str E (py_get doc ''signature_hex''))"
    using assms unhex_ascii by (auto simp: text_signed_def envelope_text_bytes_def split: option.splits)
  then have "utf8_encode (lower_text E (if py_true (py_get doc ''signature_hex'') then py_str E (py_get doc ''signature_hex'') else [])) \<noteq> None"
    using ascii_lower utf8_encode_ascii by (simp add: ascii_def lower_text_def)
  then show ?thesis by (auto simp: document_signature_material_def Let_def split: option.split)
qed

lemma listed_status_returns: "listed_status E trl usable i key \<noteq> None"
proof -
  have r: "(reached (Some t) b absent = None) = False" for t b absent
    by (simp add: reached_def split: option.split)
  have "entry_status_at E k (Some t) \<noteq> None" for k t
    unfolding entry_status_at_def Let_def by (auto simp: r split: option.split bool.split)
  then show ?thesis
    by (auto simp: listed_status_def key_status_at_def key_instant_def split: option.split bool.split pyval.split)
qed

lemma signer_active_returns: "signer_active_at E key m i \<noteq> None"
proof -
  have "verify_manifest E m (NowDatetime t) None None \<noteq> None" for t
    by (rule manifest_current [of E m "NowDatetime t"]) simp
  then show ?thesis by (auto simp: signer_active_at_def split: option.split pyval.split)
qed

lemma unrevoked_returns: "unrevoked_at E key doc feed i \<noteq> None"
proof -
  have w: "(verify_window E f now None = None) = False" for f now
    by (auto simp: verify_window_def Let_def split: option.split)
  have "verify_revocation_feed E f now None k \<noteq> None" for f now k
    unfolding verify_revocation_feed_def Let_def by (auto simp: w split: option.split prod.split bool.split)
  then show ?thesis by (auto simp: unrevoked_at_def Let_def split: option.split pyval.split)
qed

text \<open>The anchor a timestamp carries, no witnesses asked for, shows it in the timestamp log of the policy.\<close>

definition anchored_in_log :: "env \<Rightarrow> ltv_policy \<Rightarrow> pydict \<Rightarrow> bool" where
  "anchored_in_log E P t \<longleftrightarrow> (\<exists>v. verify_timestamp_anchor E (PDict t) (lp_timestamp_log_key P) None PNone = Some v \<and>
     iv_included (ta_inclusion v))"

text \<open>Such an anchor makes the verifier raise when witnesses are asked for in a number no float holds.\<close>

definition anchor_raises :: "env \<Rightarrow> ltv_policy \<Rightarrow> pydict \<Rightarrow> bool" where
  "anchor_raises E P t \<longleftrightarrow> anchored_in_log E P t \<and> lp_trusted_witnesses P \<noteq> None \<and>
     (\<exists>n. lp_witness_threshold P = PInt n \<and> float_overflows n)"

lemma witnessed_raises:
  "verify_witnessed_checkpoint E sth cs w threshold k = None \<longleftrightarrow> (\<exists>n. threshold = PInt n \<and> float_overflows n)"
  by (auto simp: verify_witnessed_checkpoint_def finite_num_def Let_def split: option.splits pyval.splits pyfloat.splits if_splits)

lemma timestamp_anchor_raises:
  "verify_timestamp_anchor E ts k w threshold = None \<longleftrightarrow>
     (\<exists>v. verify_timestamp_anchor E ts k None PNone = Some v \<and> iv_included (ta_inclusion v)) \<and> w \<noteq> None \<and>
     (\<exists>n. threshold = PInt n \<and> float_overflows n)"
proof (cases "\<exists>n. threshold = PInt n \<and> float_overflows n")
  case True
  then have "verify_witnessed_checkpoint E sth cs w threshold k = None" for sth cs w by (simp only: witnessed_raises)
  with True show ?thesis
    by (auto simp: verify_timestamp_anchor_def Let_def unanchored_def blank_inclusion_def split: pyval.splits option.splits)
next
  case False
  then have "verify_witnessed_checkpoint E sth cs w threshold k \<noteq> None" for sth cs w unfolding witnessed_raises .
  then have "\<exists>x. verify_witnessed_checkpoint E sth cs w threshold k = Some x" for sth cs w by auto
  then obtain f where "\<forall>sth cs w. verify_witnessed_checkpoint E sth cs w threshold k = Some (f sth cs w)" by metis
  with False show ?thesis
    by (auto simp: verify_timestamp_anchor_def Let_def split: pyval.split option.split)
qed

lemma anchored_is_dict: "anchored_in_log E P t \<Longrightarrow> is_dict (py_get t ''anchor'')"
  by (auto simp: anchored_in_log_def verify_timestamp_anchor_def unanchored_def blank_inclusion_def is_dict_def split: pyval.splits)

lemma judge_timestamp_raises:
  "judge_timestamp E P key material i trl usable t = None \<longleftrightarrow> anchor_raises E P t"
  using listed_status_returns [of E trl "usable \<and> hex_text (py_get t ''public_key_hex'') \<noteq> None" i "hex_text (py_get t ''public_key_hex'')"]
    anchored_is_dict [of E P t] timestamp_anchor_raises [of E "PDict t" "lp_timestamp_log_key P" "lp_trusted_witnesses P" "lp_witness_threshold P"]
  by (auto simp: judge_timestamp_def Let_def anchor_raises_def anchored_in_log_def [symmetric] split: option.splits)

lemma those_eq_None: "those xs = None \<longleftrightarrow> None \<in> set xs"
  by (induction xs) (auto split: option.splits)

lemma judge_all_raises:
  "judge_all E P key material i trl usable ts = None \<longleftrightarrow> list_ex (anchor_raises E P) ts"
  by (auto simp: judge_all_def those_eq_None list_ex_iff image_iff judge_timestamp_raises)

definition evidence_raises :: "env \<Rightarrow> ltv_policy \<Rightarrow> pydict \<Rightarrow> bool" where
  "evidence_raises E P ltv \<longleftrightarrow>
     (case carried_timestamps ltv of None \<Rightarrow> True | Some ts \<Rightarrow> list_ex (anchor_raises E P) ts)"

lemma validate_raises:
  assumes "text_signed E names doc"
  shows "validate_evidence E P doc ltv key now ta trl trusted = None \<longleftrightarrow> evidence_raises E P ltv"
proof (cases "carried_timestamps ltv")
  case None
  then show ?thesis by (simp add: validate_evidence_def Let_def evidence_raises_def split: option.split)
next
  case (Some ts)
  let ?i = "case ts_issued_at (verify_timestamp E (py_get ltv ''timestamp'') (lp_timestamp_anchors P)) of PStr s \<Rightarrow> strict_instant s | _ \<Rightarrow> None"
  let ?v = "verify_trust_list E trl now None ta"
  let ?u = "trl \<noteq> PNone \<and> tl_authentic ?v \<and> tl_fresh ?v = Some True"
  obtain material where m: "document_signature_material E (PDict doc) = Some material"
    using material_exists [OF assms] by blast
  obtain active where a: "signer_active_at E key (py_get ltv ''manifest'') ?i = Some active"
    using signer_active_returns by blast
  obtain unrevoked why where n: "unrevoked_at E key doc (py_get ltv ''revocation_feed'') ?i = Some (unrevoked, why)"
    using unrevoked_returns by fast
  obtain status where st: "listed_status E trl ?u ?i key = Some status"
    using listed_status_returns by blast
  have "validate_evidence E P doc ltv key now ta trl trusted = None \<longleftrightarrow> judge_all E P key material ?i trl ?u ts = None"
    unfolding validate_evidence_def Let_def m Some a n st by (auto split: option.split)
  also have "\<dots> \<longleftrightarrow> evidence_raises E P ltv" by (simp add: judge_all_raises evidence_raises_def Some)
  finally show ?thesis .
qed

lemma document_raises:
  "verify_signed_document E (PDict doc) now ta db trl P = None \<longleftrightarrow>
     document_signed E doc \<and> evidence doc \<noteq> [] \<and> evidence_raises E P (evidence doc)"
proof (cases "document_signed E doc")
  case True
  obtain v where v: "verify_signed_document E (PDict doc) now ta db trl P =
      (case evidence doc of [] \<Rightarrow> Some v
       | _ \<Rightarrow> map_option (\<lambda>(L, ok, why). v\<lparr>dv_ltv := Some L, dv_valid_long_term := valid_long_term P trl ok L,
                   dv_note := (if valid_long_term P trl ok L then None else Some (LtvFailed (ltv_failures P trl ta ok why L)))\<rparr>)
                (validate_evidence E P doc (evidence doc) (hex_text (py_get doc ''public_key_hex'')) now ta trl
                  (map_option (key_anchored doc) ta)))"
    by (rule signed_document_cases [OF True])
  show ?thesis
    using True validate_raises [of E SIGNED_DOCUMENT_FIELDS doc P "evidence doc"]
    by (auto simp: v document_signed_def split: list.split)
next
  case False
  then show ?thesis using document_unsigned [OF False, of now ta db trl P] by auto
qed

section \<open>What long-term validity means\<close>

text \<open>A timestamp that counts: signed, over this signature, by a trusted authority that is not the signer.\<close>

definition timestamp_signed :: "env \<Rightarrow> pydict \<Rightarrow> bool" where
  "timestamp_signed E t \<longleftrightarrow> py_get t ''format'' = PStr TIMESTAMP_FORMAT \<and> \<not> placeholder_envelope t \<and>
     text_signed E TIMESTAMP_FIELDS t \<and> instant_at t ''issued_at'' \<noteq> None \<and> lower_digest t"

definition list_usable :: "env \<Rightarrow> pyval \<Rightarrow> now_arg \<Rightarrow> pyval list option \<Rightarrow> bool" where
  "list_usable E trl now ta \<longleftrightarrow> trl \<noteq> PNone \<and> tl_authentic (verify_trust_list E trl now None ta) \<and>
     tl_fresh (verify_trust_list E trl now None ta) = Some True"

definition active_at :: "env \<Rightarrow> pyval \<Rightarrow> bool \<Rightarrow> int \<Rightarrow> pydict \<Rightarrow> bool" where
  "active_at E trl usable i obj \<longleftrightarrow> trl = PNone \<or>
     listed_status E trl usable (Some i) (hex_text (py_get obj ''public_key_hex'')) = Some (Some KeyActive)"

definition timestamp_counts ::
    "env \<Rightarrow> ltv_policy \<Rightarrow> pydict \<Rightarrow> bytes \<Rightarrow> int \<Rightarrow> pyval \<Rightarrow> bool \<Rightarrow> pydict \<Rightarrow> bool" where
  "timestamp_counts E P doc m i trl usable t \<longleftrightarrow>
     timestamp_signed E t \<and> py_get t ''digest_hex'' = PStr (hex_of (sha3 E m)) \<and>
     (\<exists>ks. lp_timestamp_anchors P = Some ks \<and> key_anchored t ks) \<and>
     \<not> same_hex (py_get t ''public_key_hex'') (py_get doc ''public_key_hex'') \<and> active_at E trl usable i t"

lemma judge_timestamp_qualifies:
  assumes "judge_timestamp E P (hex_text (py_get doc ''public_key_hex'')) (Some m) (Some i) trl usable t = Some e"
  shows "le_qualifies e \<longleftrightarrow> timestamp_counts E P doc m i trl usable t"
    "le_anchored e = (if is_dict (py_get t ''anchor'') then map_option (iv_included \<circ> ta_inclusion)
       (verify_timestamp_anchor E (PDict t) (lp_timestamp_log_key P) (lp_trusted_witnesses P) (lp_witness_threshold P)) else None)"
proof -
  let ?tv = "verify_timestamp E (PDict t) (lp_timestamp_anchors P)"
  have a: "ts_authentic ?tv \<longleftrightarrow> timestamp_signed E t"
    by (simp add: timestamp_authentic_iff timestamp_signed_def)
  have b: "timestamp_binds E (PDict t) m = Some True \<longleftrightarrow> py_get t ''digest_hex'' = PStr (hex_of (sha3 E m))" if "ts_authentic ?tv"
    using binds_exact [OF that] by simp
  have c: "ts_trusted ?tv = Some True \<longleftrightarrow> (\<exists>ks. lp_timestamp_anchors P = Some ks \<and> key_anchored t ks)" if "ts_authentic ?tv"
    using timestamp_trusted [OF that] by auto
  have k: "hex_text (py_get t ''public_key_hex'') \<noteq> None" if "key_anchored t ks" for ks
    using that by (auto simp: key_anchored_def hex_in_def)
  show "le_qualifies e \<longleftrightarrow> timestamp_counts E P doc m i trl usable t"
  proof (cases "timestamp_signed E t \<and> (\<exists>ks. lp_timestamp_anchors P = Some ks \<and> key_anchored t ks)")
    case True
    then have "hex_text (py_get t ''public_key_hex'') \<noteq> None" using k by blast
    then show ?thesis
      using assms True a b c
      by (auto simp: judge_timestamp_def Let_def timestamp_counts_def active_at_def same_hex_def split: option.splits)
  next
    case False
    then show ?thesis
      using assms a c by (auto simp: judge_timestamp_def Let_def timestamp_counts_def split: option.splits)
  qed
  show "le_anchored e = (if is_dict (py_get t ''anchor'') then map_option (iv_included \<circ> ta_inclusion)
       (verify_timestamp_anchor E (PDict t) (lp_timestamp_log_key P) (lp_trusted_witnesses P) (lp_witness_threshold P)) else None)"
    using assms by (auto simp: judge_timestamp_def Let_def split: option.splits if_splits)
qed

lemma manifest_anchors:
  assumes "verify_manifest E m now cap ta = Some mv"
  shows "mv_anchors mv = as_list (py_get (as_dict m) ''anchors'')"
proof -
  have w: "mv_anchors v' = mv_anchors v" if "manifest_window E d now cap ta v = Some v'" for d v v'
    using that by (auto simp: manifest_window_def Let_def split: option.splits if_splits)
  show ?thesis
    using assms by (auto simp: verify_manifest_def Let_def blank_manifest_def dest!: w
        split: option.splits sum.splits if_splits bool.splits)
qed

text \<open>The manifest vouches for the signer: it is the signer's own, signed, and current at the instant.\<close>

definition vouches_at :: "env \<Rightarrow> pydict \<Rightarrow> pyval \<Rightarrow> int \<Rightarrow> bool" where
  "vouches_at E doc manifest i \<longleftrightarrow>
     (\<exists>m. manifest = PDict m \<and> manifest_signed E m \<and> fresh_now E m (NowDatetime i) None \<and>
        same_hex (py_get m ''public_key_hex'') (py_get doc ''public_key_hex''))"

lemma signer_active_iff:
  "signer_active_at E (hex_text (py_get doc ''public_key_hex'')) manifest (Some i) = Some True \<longleftrightarrow> vouches_at E doc manifest i"
proof (cases manifest)
  case (PDict m)
  obtain mv where mv: "verify_manifest E manifest (NowDatetime i) None None = Some mv"
    "mv_authentic mv \<and> mv_fresh mv = Some True \<longleftrightarrow> (\<exists>d. manifest = PDict d \<and> manifest_signed E d \<and> fresh_now E d (NowDatetime i) None)"
    by (rule manifest_current)
  have "list_ex (\<lambda>a. is_dict a \<and> hex_text (py_get (as_dict a) ''public_key_hex'') = hex_text (py_get m ''public_key_hex'') \<and>
          status_of (as_dict a) = PStr (lit ''active'')) (mv_anchors mv)" if "manifest_signed E m"
    using that manifest_anchors [OF mv(1)]
    by (auto simp: PDict manifest_signed_def hex_in_def active_anchor_keys_def list_ex_iff is_dict_def as_dict_def split: pyval.splits)
  then show ?thesis
    using mv by (auto simp: signer_active_at_def vouches_at_def PDict same_hex_def) metis
qed (simp_all add: signer_active_at_def vouches_at_def)

text \<open>The credential behind a holder's signature is in no revocation of the signer at the instant.\<close>

definition unrevoked_then :: "env \<Rightarrow> pydict \<Rightarrow> pyval \<Rightarrow> int \<Rightarrow> bool" where
  "unrevoked_then E doc feed i \<longleftrightarrow>
     (let credential = py_get (as_dict (py_get doc ''on_behalf_of'')) ''credential_hash'' in
      \<not> py_true credential \<or>
      (\<exists>f. feed = PDict f \<and> py_get f ''format'' = PStr REVOCATION_FEED_FORMAT \<and> signed_statement E REVOCATION_FEED_FIELDS f \<and>
         feed_commits E f \<and> map_option fst (verify_window E f (NowDatetime i) None) = Some True \<and>
         same_hex (py_get f ''public_key_hex'') (py_get doc ''public_key_hex'') \<and> \<not> is_revoked_leaf E feed credential))"

lemma unrevoked_iff:
  assumes "hex_text (py_get doc ''public_key_hex'') = Some k"
  shows "map_option fst (unrevoked_at E (Some k) doc feed (Some i)) \<noteq> Some (Some False) \<longleftrightarrow> unrevoked_then E doc feed i"
proof (cases "py_true (py_get (as_dict (py_get doc ''on_behalf_of'')) ''credential_hash'') \<and> (\<exists>f. feed = PDict f)")
  case True
  then obtain f where f: "feed = PDict f" by blast
  have k: "same_hex (py_get f ''public_key_hex'') (PStr k) \<longleftrightarrow> same_hex (py_get f ''public_key_hex'') (py_get doc ''public_key_hex'')"
    using hex_text_idem [OF assms] assms by (simp add: same_hex_def)
  obtain fv where v: "verify_revocation_feed E feed (NowDatetime i) None (Some (PStr k)) = Some fv"
    using unrevoked_returns [of E "Some k" doc feed "Some i"] True f
    by (auto simp: unrevoked_at_def Let_def)
  have m: "rf_issuer_matches fv \<noteq> None" if "rf_authentic fv"
    using v that by (auto simp: verify_revocation_feed_def Let_def blank_feed_def split: option.splits prod.splits bool.splits if_splits)
  then have "rf_authentic fv \<and> rf_fresh fv = Some True \<and> rf_issuer_matches fv \<noteq> Some False \<longleftrightarrow>
      rf_authentic fv \<and> rf_fresh fv = Some True \<and> rf_issuer_matches fv = Some True" by auto
  moreover have "rf_authentic fv \<and> rf_fresh fv = Some True \<and> rf_issuer_matches fv = Some True \<longleftrightarrow>
      py_get f ''format'' = PStr REVOCATION_FEED_FORMAT \<and> signed_statement E REVOCATION_FEED_FIELDS f \<and> feed_commits E f \<and>
      map_option fst (verify_window E f (NowDatetime i) None) = Some True \<and> same_hex (py_get f ''public_key_hex'') (PStr k)"
    using feed_authentic_iff [of E f "NowDatetime i" None "Some (PStr k)"] v f by simp
  ultimately show ?thesis
    using True v k by (simp add: unrevoked_at_def unrevoked_then_def Let_def f) argo
next
  case False
  then show ?thesis
    by (cases feed) (auto simp: unrevoked_at_def unrevoked_then_def Let_def)
qed

lemma those_map_SomeD: "those (map f xs) = Some ys \<Longrightarrow> ys = map (the \<circ> f) xs \<and> (\<forall>x \<in> set xs. f x \<noteq> None)"
  by (induction xs arbitrary: ys) (auto split: option.splits)

lemma material_of_signed:
  assumes "text_signed E SIGNED_DOCUMENT_FIELDS doc"
  obtains m where "document_signature_material E (PDict doc) = Some (Some m)"
proof -
  have "canonical_json (frepr E) (statement SIGNED_DOCUMENT_FIELDS doc) \<noteq> None"
    using assms by (auto simp: text_signed_def two_witness_verify_def canonical_digest_def split: option.splits)
  then show ?thesis
    using material_exists [OF assms] that by (auto simp: document_signature_material_def Let_def split: option.splits)
qed

lemma timestamp_issued_at: "ts_issued_at (verify_timestamp E ts ak) = py_get (as_dict ts) ''issued_at''"
  by (auto simp: verify_timestamp_def Let_def blank_timestamp_def split: option.split prod.split bool.split)

lemma instant_at_py_get: "instant_at d k = (case py_get d k of PStr s \<Rightarrow> strict_instant s | _ \<Rightarrow> None)"
  by (simp add: instant_at_def py_get_def split: option.split)

definition anchored_for :: "env \<Rightarrow> ltv_policy \<Rightarrow> pydict \<Rightarrow> bool" where
  "anchored_for E P t \<longleftrightarrow> is_dict (py_get t ''anchor'') \<and>
     (\<exists>av. verify_timestamp_anchor E (PDict t) (lp_timestamp_log_key P) (lp_trusted_witnesses P) (lp_witness_threshold P) = Some av \<and>
        iv_included (ta_inclusion av) \<and> (lp_trusted_witnesses P = None \<or> ta_witnessed av = Some True))"

lemma judged_anchored:
  assumes "judge_timestamp E P key m i trl usable t = Some e"
  shows "le_anchored e = Some True \<and> (lp_trusted_witnesses P = None \<or> le_witnessed e = Some True) \<longleftrightarrow> anchored_for E P t"
  using assms by (auto simp: judge_timestamp_def Let_def anchored_for_def split: option.splits if_splits)

lemma judged_facts:
  assumes j: "judge_all E P (hex_text (py_get doc ''public_key_hex'')) (Some m) (Some i) trl usable ts = Some entries"
  shows "length (remdups (map fst (filter (le_qualifies \<circ> snd) entries))) =
      card ((\<lambda>t. hex_text (py_get t ''public_key_hex'')) ` {t \<in> set ts. timestamp_counts E P doc m i trl usable t})"
    and "filter (\<lambda>e. le_anchored (snd e) = Some True) (filter (le_qualifies \<circ> snd) entries) \<noteq> [] \<and>
      (lp_trusted_witnesses P = None \<or>
       list_ex (\<lambda>e. le_witnessed (snd e) = Some True)
         (filter (\<lambda>e. le_anchored (snd e) = Some True) (filter (le_qualifies \<circ> snd) entries))) \<longleftrightarrow>
      (\<exists>t \<in> set ts. timestamp_counts E P doc m i trl usable t \<and> anchored_for E P t)"
    and "entries = [] \<longleftrightarrow> ts = []"
proof -
  let ?key = "\<lambda>t. hex_text (py_get t ''public_key_hex'')"
  let ?judge = "judge_timestamp E P (?key doc) (Some m) (Some i) trl usable"
  let ?f = "\<lambda>t. (?key t, the (?judge t))"
  have e: "entries = map ?f ts"
    using those_map_SomeD [OF j [unfolded judge_all_def]] by (auto simp: option.map_sel)
  have d: "?judge t = Some (the (?judge t))" if "t \<in> set ts" for t
    using those_map_SomeD [OF j [unfolded judge_all_def]] that by auto
  have q: "le_qualifies (the (?judge t)) \<longleftrightarrow> timestamp_counts E P doc m i trl usable t" if "t \<in> set ts" for t
    by (rule judge_timestamp_qualifies(1) [OF d [OF that]])
  have a: "le_anchored (the (?judge t)) = Some True \<and> (lp_trusted_witnesses P = None \<or> le_witnessed (the (?judge t)) = Some True)
      \<longleftrightarrow> anchored_for E P t" if "t \<in> set ts" for t
    by (rule judged_anchored [OF d [OF that]])
  have "set (map fst (filter (le_qualifies \<circ> snd) entries)) = ?key ` {t \<in> set ts. timestamp_counts E P doc m i trl usable t}"
  proof -
    have "filter (le_qualifies \<circ> snd) entries = map ?f (filter (timestamp_counts E P doc m i trl usable) ts)"
      using q by (simp add: e filter_map o_def cong: filter_cong)
    then show ?thesis by (simp add: image_image)
  qed
  then show "length (remdups (map fst (filter (le_qualifies \<circ> snd) entries))) =
      card (?key ` {t \<in> set ts. timestamp_counts E P doc m i trl usable t})"
    by (simp only: length_remdups_card_conv)
  show "filter (\<lambda>e. le_anchored (snd e) = Some True) (filter (le_qualifies \<circ> snd) entries) \<noteq> [] \<and>
      (lp_trusted_witnesses P = None \<or>
       list_ex (\<lambda>e. le_witnessed (snd e) = Some True)
         (filter (\<lambda>e. le_anchored (snd e) = Some True) (filter (le_qualifies \<circ> snd) entries))) \<longleftrightarrow>
      (\<exists>t \<in> set ts. timestamp_counts E P doc m i trl usable t \<and> anchored_for E P t)"
    using q a by (auto simp: e list_ex_iff filter_empty_conv)
  show "entries = [] \<longleftrightarrow> ts = []" by (simp add: e)
qed

definition signer_trusted :: "env \<Rightarrow> pydict \<Rightarrow> now_arg \<Rightarrow> pyval list option \<Rightarrow> pyval \<Rightarrow> bool" where
  "signer_trusted E doc now ta trl \<longleftrightarrow> (\<exists>ks. ta = Some ks \<and> key_anchored doc ks) \<or>
     trl \<noteq> PNone \<and> tl_trusted (verify_trust_list E trl now None ta) = Some True"

definition long_term_holds :: "env \<Rightarrow> ltv_policy \<Rightarrow> pydict \<Rightarrow> now_arg \<Rightarrow> pyval list option \<Rightarrow> pyval \<Rightarrow> bool" where
  "long_term_holds E P doc now ta trl \<longleftrightarrow>
     (\<exists>ts i m carried. py_get (evidence doc) ''timestamp'' = PDict ts \<and> instant_at ts ''issued_at'' = Some i \<and>
        document_signature_material E (PDict doc) = Some (Some m) \<and> carried_timestamps (evidence doc) = Some carried \<and>
        timestamp_counts E P doc m i trl (list_usable E trl now ta) ts \<and>
        quorum_of P \<le> int (card ((\<lambda>t. hex_text (py_get t ''public_key_hex'')) `
          {t \<in> set carried. timestamp_counts E P doc m i trl (list_usable E trl now ta) t})) \<and>
        (\<not> lp_require_anchored P \<or>
         (\<exists>t \<in> set carried. timestamp_counts E P doc m i trl (list_usable E trl now ta) t \<and> anchored_for E P t)) \<and>
        vouches_at E doc (py_get (evidence doc) ''manifest'') i \<and>
        unrevoked_then E doc (py_get (evidence doc) ''revocation_feed'') i \<and>
        active_at E trl (list_usable E trl now ta) i doc \<and> signer_trusted E doc now ta trl)"

lemma validate_iff:
  assumes s: "document_signed E doc" and c: "carried_timestamps (evidence doc) = Some carried"
    and r: "\<not> list_ex (anchor_raises E P) carried"
  obtains L ok why where "validate_evidence E P doc (evidence doc) (hex_text (py_get doc ''public_key_hex'')) now ta trl
      (map_option (key_anchored doc) ta) = Some (L, ok, why)"
    "valid_long_term P trl ok L \<longleftrightarrow> long_term_holds E P doc now ta trl"
proof -
  let ?ltv = "evidence doc" and ?u = "list_usable E trl now ta" and ?key = "hex_text (py_get doc ''public_key_hex'')"
  let ?ts = "py_get ?ltv ''timestamp''" and ?tlv = "verify_trust_list E trl now None ta"
  let ?tv = "verify_timestamp E ?ts (lp_timestamp_anchors P)"
  let ?i = "case ts_issued_at ?tv of PStr s \<Rightarrow> strict_instant s | _ \<Rightarrow> None"
  obtain m where m: "document_signature_material E (PDict doc) = Some (Some m)"
    using material_of_signed s by (auto simp: document_signed_def)
  obtain active where a: "signer_active_at E ?key (py_get ?ltv ''manifest'') ?i = Some active"
    using signer_active_returns by blast
  obtain unrevoked why where n: "unrevoked_at E ?key doc (py_get ?ltv ''revocation_feed'') ?i = Some (unrevoked, why)"
    using unrevoked_returns by fast
  obtain status where st: "listed_status E trl ?u ?i ?key = Some status"
    using listed_status_returns by blast
  obtain entries where j: "judge_all E P ?key (Some m) ?i trl ?u carried = Some entries"
    using r judge_all_raises [of E P ?key "Some m" ?i trl ?u carried] by auto
  define binds where "binds = (timestamp_binds E ?ts m = Some True)"
  define apart where "apart = (hex_text (py_get (as_dict ?ts) ''public_key_hex'') \<noteq> None \<and> hex_text (py_get (as_dict ?ts) ''public_key_hex'') \<noteq> ?key)"
  define ok where "ok = (map_option (key_anchored doc) ta = Some True \<or> trl \<noteq> PNone \<and> tl_trusted ?tlv = Some True \<and> status = Some KeyActive)"
  let ?L = "ltv_facts P ?tv binds apart entries active unrevoked status"
  have v: "validate_evidence E P doc ?ltv ?key now ta trl (map_option (key_anchored doc) ta) = Some (?L, ok, why)"
    unfolding validate_evidence_def Let_def
    by (simp add: m c a n j binds_def apart_def ok_def flip: list_usable_def) (use st in simp)
  have "valid_long_term P trl ok ?L \<longleftrightarrow> long_term_holds E P doc now ta trl"
  proof (cases "\<exists>ts i. ?ts = PDict ts \<and> instant_at ts ''issued_at'' = Some i")
    case False
    have "\<not> ts_authentic ?tv"
    proof
      assume t: "ts_authentic ?tv"
      then obtain ts where "?ts = PDict ts"
        by (cases ?ts) (auto simp: verify_timestamp_def Let_def blank_timestamp_def as_dict_def py_get_def split: if_splits)
      then show False using t False by (auto simp: timestamp_authentic_iff)
    qed
    then show ?thesis
      using False by (auto simp: valid_long_term_def ltv_facts_def Let_def long_term_holds_def)
  next
    case True
    then obtain ts i where ts: "?ts = PDict ts" "instant_at ts ''issued_at'' = Some i" by blast
    then have i: "?i = Some i" by (simp add: timestamp_issued_at instant_at_py_get)
    note j' = j [unfolded i]
    obtain rest where carried: "carried = ts # rest"
      using c ts by (auto simp: carried_timestamps_def is_dict_def as_dict_def)
    obtain e others where entries: "entries = (hex_text (py_get ts ''public_key_hex''), e) # others"
      and e: "judge_timestamp E P ?key (Some m) (Some i) trl ?u ts = Some e"
      using j' by (auto simp: carried judge_all_def split: option.splits)
    have first: "ts_authentic ?tv \<and> binds \<and> ts_trusted ?tv = Some True \<and> apart \<and> (trl = PNone \<or> le_key_status e = Some KeyActive)
        \<longleftrightarrow> timestamp_counts E P doc m i trl ?u ts"
      unfolding judge_timestamp_qualifies(1) [OF e, symmetric]
      using e by (auto simp: judge_timestamp_def Let_def binds_def apart_def ts(1) split: option.splits)
    have act: "active \<longleftrightarrow> vouches_at E doc (py_get ?ltv ''manifest'') i"
      using a signer_active_iff [of E doc "py_get ?ltv ''manifest''" i] by (simp add: i)
    have unr: "unrevoked \<noteq> Some False \<longleftrightarrow> unrevoked_then E doc (py_get ?ltv ''revocation_feed'') i" if "active"
    proof -
      have "?key \<noteq> None" using that act by (auto simp: vouches_at_def same_hex_def) metis
      then obtain k where k: "?key = Some k" by blast
      show ?thesis using n unrevoked_iff [OF k, of E "py_get ?ltv ''revocation_feed''" i] by (simp add: i k)
    qed
    have sig: "trl = PNone \<or> status = Some KeyActive \<longleftrightarrow> active_at E trl ?u i doc"
      using st by (simp add: active_at_def i)
    have ok: "ok \<longleftrightarrow> signer_trusted E doc now ta trl" if "trl = PNone \<or> status = Some KeyActive"
      using that by (auto simp: ok_def signer_trusted_def)
    note facts = judged_facts [OF j']
    have "valid_long_term P trl ok ?L \<longleftrightarrow>
        timestamp_counts E P doc m i trl ?u ts \<and>
        quorum_of P \<le> int (length (remdups (map fst (filter (le_qualifies \<circ> snd) entries)))) \<and> anchored_ok P ?L \<and>
        active \<and> unrevoked \<noteq> Some False \<and> (trl = PNone \<or> status = Some KeyActive) \<and> ok"
      unfolding first [symmetric] by (auto simp: valid_long_term_def ltv_facts_def Let_def entries)
    also have "anchored_ok P ?L \<longleftrightarrow> \<not> lp_require_anchored P \<or>
        (\<exists>t \<in> set carried. timestamp_counts E P doc m i trl ?u t \<and> anchored_for E P t)"
      unfolding facts(2) [symmetric] by (auto simp: anchored_ok_def ltv_facts_def Let_def)
    finally show ?thesis
      unfolding facts(1) using act unr sig ok m c ts by (auto simp: long_term_holds_def)
  qed
  then show ?thesis using that v by blast
qed

lemma long_term_iff:
  "map_option dv_valid_long_term (verify_signed_document E (PDict doc) now ta db trl P) = Some True \<longleftrightarrow>
     document_signed E doc \<and> \<not> evidence_raises E P (evidence doc) \<and> long_term_holds E P doc now ta trl"
proof (cases "document_signed E doc \<and> evidence doc \<noteq> [] \<and> \<not> evidence_raises E P (evidence doc)")
  case True
  then obtain carried where c: "carried_timestamps (evidence doc) = Some carried" "\<not> list_ex (anchor_raises E P) carried"
    by (auto simp: evidence_raises_def split: option.splits)
  obtain L ok why where v: "validate_evidence E P doc (evidence doc) (hex_text (py_get doc ''public_key_hex'')) now ta trl
      (map_option (key_anchored doc) ta) = Some (L, ok, why)"
    "valid_long_term P trl ok L \<longleftrightarrow> long_term_holds E P doc now ta trl"
    using validate_iff [OF _ c] True by blast
  have s: "document_signed E doc" using True by blast
  obtain w where w: "verify_signed_document E (PDict doc) now ta db trl P =
      (case evidence doc of [] \<Rightarrow> Some w
       | _ \<Rightarrow> map_option (\<lambda>(L, ok, why). w\<lparr>dv_ltv := Some L, dv_valid_long_term := valid_long_term P trl ok L,
                   dv_note := (if valid_long_term P trl ok L then None else Some (LtvFailed (ltv_failures P trl ta ok why L)))\<rparr>)
                (validate_evidence E P doc (evidence doc) (hex_text (py_get doc ''public_key_hex'')) now ta trl
                  (map_option (key_anchored doc) ta)))"
    by (rule signed_document_cases [OF s])
  show ?thesis using True w v by (cases "evidence doc") simp_all
next
  case False
  have "\<not> long_term_holds E P doc now ta trl" if "evidence doc = []"
    using that by (simp add: long_term_holds_def)
  moreover have "\<not> map_option dv_valid_long_term (verify_signed_document E (PDict doc) now ta db trl P) = Some True"
  proof (cases "document_signed E doc")
    case True
    then show ?thesis
      using False document_raises [of E doc now ta db trl P]
      by (cases "evidence doc = []") (auto elim: signed_document_cases [where now = now and ta = ta and db = db and trl = trl and P = P])
  qed (use document_unsigned [of E doc now ta db trl P] in auto)
  ultimately show ?thesis using False by blast
qed

section \<open>The clock plays no part\<close>

lemma clock_fields:
  "sha3 (E\<lparr>clock := c\<rparr>) = sha3 E" "frepr (E\<lparr>clock := c\<rparr>) = frepr E" "pyrepr (E\<lparr>clock := c\<rparr>) = pyrepr E"
  "ulower (E\<lparr>clock := c\<rparr>) = ulower E" "dev_mode (E\<lparr>clock := c\<rparr>) = dev_mode E" "liboqs (E\<lparr>clock := c\<rparr>) = liboqs E"
  "openssl (E\<lparr>clock := c\<rparr>) = openssl E"
  by simp_all

lemma clock_signatures:
  "verify_liboqs (E\<lparr>clock := c\<rparr>) = verify_liboqs E" "verify_cryptography (E\<lparr>clock := c\<rparr>) = verify_cryptography E"
  "canonical_digest (E\<lparr>clock := c\<rparr>) = canonical_digest E" "py_str (E\<lparr>clock := c\<rparr>) = py_str E"
  "lower_text (E\<lparr>clock := c\<rparr>) = lower_text E"
  unfolding verify_liboqs_def verify_cryptography_def canonical_digest_def py_str_def lower_text_def clock_fields by (rule refl)+

lemma clock_two_witness: "two_witness_verify (E\<lparr>clock := c\<rparr>) = two_witness_verify E"
  unfolding two_witness_verify_def clock_signatures by (rule refl)+

lemma clock_texts:
  "leaf_texts (E\<lparr>clock := c\<rparr>) = leaf_texts E" "envelope_text_bytes (E\<lparr>clock := c\<rparr>) = envelope_text_bytes E"
  "judged (E\<lparr>clock := c\<rparr>) = judged E" "names_sha3 (E\<lparr>clock := c\<rparr>) = names_sha3 E"
  unfolding leaf_texts_def envelope_text_bytes_def judged_def names_sha3_def clock_signatures clock_two_witness by (rule refl)+

lemma clock_timestamp:
  "verify_timestamp (E\<lparr>clock := c\<rparr>) = verify_timestamp E" "timestamp_binds (E\<lparr>clock := c\<rparr>) = timestamp_binds E"
  "document_signature_material (E\<lparr>clock := c\<rparr>) = document_signature_material E" "is_revoked_leaf (E\<lparr>clock := c\<rparr>) = is_revoked_leaf E"
  "feed_commits (E\<lparr>clock := c\<rparr>) = feed_commits E"
  unfolding verify_timestamp_def timestamp_binds_def document_signature_material_def is_revoked_leaf_def
      feed_commits_def revoked_root_def clock_fields clock_signatures clock_two_witness clock_texts by (rule refl)+

lemma clock_log:
  "verify_sth (E\<lparr>clock := c\<rparr>) = verify_sth E" "verify_cosignature (E\<lparr>clock := c\<rparr>) = verify_cosignature E"
  "timestamp_hash (E\<lparr>clock := c\<rparr>) = timestamp_hash E" "read_proof (E\<lparr>clock := c\<rparr>) = read_proof E"
  unfolding verify_sth_def verify_cosignature_def timestamp_hash_def read_proof_def clock_signatures clock_two_witness
      clock_texts by (rule refl)+

lemma clock_anchor: "verify_timestamp_anchor (E\<lparr>clock := c\<rparr>) = verify_timestamp_anchor E"
proof -
  have n: "note_witness (E\<lparr>clock := c\<rparr>) = note_witness E"
    unfolding note_witness_def clock_log by (rule refl)+
  have w: "verify_witnessed_checkpoint (E\<lparr>clock := c\<rparr>) = verify_witnessed_checkpoint E"
    unfolding verify_witnessed_checkpoint_def clock_log n by (rule refl)+
  have i: "included_under (E\<lparr>clock := c\<rparr>) = included_under E"
    unfolding included_under_def clock_log clock_fields by (rule refl)+
  show ?thesis unfolding verify_timestamp_anchor_def clock_log w i by (rule refl)+
qed

lemma clock_instant: "instants (E\<lparr>clock := c\<rparr>) obj (NowDatetime t) = instants E obj (NowDatetime t)"
  by (simp add: instants_def instant_def)

lemma clock_manifest: "verify_manifest (E\<lparr>clock := c\<rparr>) m (NowDatetime t) cap ta = verify_manifest E m (NowDatetime t) cap ta"
  unfolding verify_manifest_def manifest_window_def verify_window_inline_def clock_instant clock_signatures by (rule refl)

lemma clock_feed: "verify_revocation_feed (E\<lparr>clock := c\<rparr>) f (NowDatetime t) cap k = verify_revocation_feed E f (NowDatetime t) cap k"
  unfolding verify_revocation_feed_def verify_window_def clock_instant clock_signatures clock_two_witness clock_timestamp by (rule refl)

lemma unlisted: "listed_status E trl False i key = Some None"
  by (simp add: listed_status_def)

lemma clock_judge:
  "judge_timestamp (E\<lparr>clock := c\<rparr>) P key m i trl False t = judge_timestamp E P key m i trl False t"
  unfolding judge_timestamp_def clock_timestamp clock_anchor simp_thms unlisted by (rule TrueI)

lemma clock_at_instant:
  "signer_active_at (E\<lparr>clock := c\<rparr>) = signer_active_at E" "unrevoked_at (E\<lparr>clock := c\<rparr>) = unrevoked_at E"
  unfolding signer_active_at_def unrevoked_at_def clock_manifest clock_feed clock_timestamp by (rule refl)+

lemma clock_evidence:
  "validate_evidence (E\<lparr>clock := c\<rparr>) P doc ltv key now ta PNone trusted = validate_evidence E P doc ltv key now' ta PNone trusted"
  unfolding validate_evidence_def judge_all_def clock_timestamp clock_at_instant simp_thms Let_def unlisted clock_judge by (rule TrueI)

lemma clock_document:
  "verify_signed_document (E\<lparr>clock := c\<rparr>) doc now ta db PNone P = verify_signed_document E doc now' ta db PNone P"
  unfolding verify_signed_document_def clock_texts clock_fields clock_evidence [where now = now and now' = now'] by (rule refl)

section \<open>The login token\<close>

definition ID_TOKEN_FORMAT :: ustr where "ID_TOKEN_FORMAT = lit ''polaris-id-token/1''"

definition ID_TOKEN_FIELDS :: "string list" where
  "ID_TOKEN_FIELDS = [''format'', ''iss'', ''sub'', ''aud'', ''nonce'', ''context_id'', ''disclosure_level'', ''acr'',
     ''enrollment'', ''auth_time'', ''iat'', ''exp'', ''algorithm'']"

datatype id_note = IdNote vnote | IdBadInstants

record id_verdict =
  it_authentic :: bool
  it_audience_matches :: "bool option"
  it_nonce_matches :: "bool option"
  it_fresh :: "bool option"
  it_trusted :: "bool option"
  it_witnesses :: "(string \<times> bool) list"
  it_note :: "id_note option"

definition blank_id_token :: id_verdict where
  "blank_id_token =
     \<lparr>it_authentic = False, it_audience_matches = None, it_nonce_matches = None, it_fresh = None, it_trusted = None,
      it_witnesses = [], it_note = None\<rparr>"

text \<open>\<open>_parse_iso(iat) <= now < _parse_iso(exp)\<close>: \<open>exp\<close> is not read of a token issued later.\<close>

definition id_token_fresh :: "env \<Rightarrow> pydict \<Rightarrow> now_arg \<Rightarrow> bool option" where
  "id_token_fresh E tok now =
     (case (instant (clock E) now, instant_at tok ''iat'') of
        (Some t, Some iat) \<Rightarrow> if t < iat then Some False else map_option (\<lambda>ex. t < ex) (instant_at tok ''exp'')
      | _ \<Rightarrow> None)"

definition verify_id_token ::
    "env \<Rightarrow> pyval \<Rightarrow> pyval \<Rightarrow> pyval \<Rightarrow> now_arg \<Rightarrow> pyval list option \<Rightarrow> id_verdict" where
  "verify_id_token E tok0 audience nonce now trusted_anchors =
     (let tok = as_dict tok0; v = blank_id_token; noted = (\<lambda>w. v\<lparr>it_note := Some (IdNote w)\<rparr>)
      in if py_get tok ''format'' \<noteq> PStr ID_TOKEN_FORMAT then noted (NotA ID_TOKEN_FORMAT)
         else if placeholder_envelope tok then noted Placeholder
         else
           (case envelope_text_bytes E tok of None \<Rightarrow> noted NotHex
            | Some (sg, pk) \<Rightarrow>
                (case judged E ID_TOKEN_FIELDS tok sg pk (py_get tok ''algorithm'') of
                   (False, tried, n) \<Rightarrow> v\<lparr>it_witnesses := tried, it_note := map_option IdNote n\<rparr>
                 | (True, tried, n) \<Rightarrow>
                     v\<lparr>it_authentic := True, it_witnesses := tried,
                       it_audience_matches := (if audience = PNone then None else Some (same_id (py_get tok ''aud'') audience)),
                       it_nonce_matches := (if nonce = PNone then None else Some (same_id (py_get tok ''nonce'') nonce)),
                       it_fresh := Some (id_token_fresh E tok now = Some True),
                       it_note := (if id_token_fresh E tok now = None then Some IdBadInstants else None),
                       it_trusted := map_option (\<lambda>ks. hex_in (py_get tok ''public_key_hex'') (map hex_text ks)) trusted_anchors\<rparr>)))"

lemma login_accepted:
  "(let v = verify_id_token E (PDict tok) audience nonce now (Some anchors)
    in it_authentic v \<and> it_audience_matches v = Some True \<and> it_nonce_matches v = Some True \<and> it_fresh v = Some True \<and>
       it_trusted v = Some True) \<longleftrightarrow>
   py_get tok ''format'' = PStr ID_TOKEN_FORMAT \<and> \<not> placeholder_envelope tok \<and> text_signed E ID_TOKEN_FIELDS tok \<and>
   same_id (py_get tok ''aud'') audience \<and> same_id (py_get tok ''nonce'') nonce \<and>
   id_token_fresh E tok now = Some True \<and> key_anchored tok anchors"
proof -
  have "x \<noteq> PNone" if "same_id y x" for x y using that by (auto simp: same_id_iff)
  then show ?thesis
    by (auto simp: verify_id_token_def Let_def blank_id_token_def judged_def text_signed_def key_anchored_def
        split: option.splits prod.splits bool.splits if_splits)
qed

section \<open>Properties\<close>

text \<open>
  C20. A document is valid in the long term exactly when the signer's signature holds over its statement
  and a lower-case SHA3-256 digest, and the evidence attached to it holds: the first timestamp, and a
  quorum of distinct authorities among all of them, are signed by trusted authorities other than the
  signer over this very signature; where the policy asks, one of these is anchored and witnessed; the
  signer's own manifest, current at that timestamp's instant, lists its key; the credential a holder
  signed with was not revoked then; a trust list, if given, holds the keys active then; and the signer is
  trusted.
\<close>

theorem long_term_valid_exactly:
  "map_option dv_valid_long_term (verify_signed_document E (PDict doc) now ta db trl P) = Some True \<longleftrightarrow>
     document_signed E doc \<and> \<not> evidence_raises E P (evidence doc) \<and> long_term_holds E P doc now ta trl"
  by (rule long_term_iff)

text \<open>
  Long-term validity is decided at the instant the evidence fixes: without a trust list the whole
  verdict is the same whatever instant the caller passes and whatever the clock says.
\<close>

theorem document_verdict_is_timeless:
  "verify_signed_document (E\<lparr>clock := c\<rparr>) doc now ta db PNone P = verify_signed_document E doc now' ta db PNone P"
  by (rule clock_document)

text \<open>
  C22. The verifier raises exactly for a genuinely signed document whose evidence, which anyone may
  attach, lists its further timestamps in a value that cannot be iterated (a number or true), or carries
  a timestamp whose anchor shows it in the timestamp log while the policy asks for witnesses with a
  threshold past the range of a float.
\<close>

theorem document_raises_exactly:
  "verify_signed_document E (PDict doc) now ta db trl P = None \<longleftrightarrow>
     document_signed E doc \<and> evidence doc \<noteq> [] \<and> evidence_raises E P (evidence doc)"
  by (rule document_raises)

text \<open>
  A login is accepted in every respect exactly when the issuer signed this token, for this audience
  and the nonce this login started with, it is current, and the issuer's key is one the relying party
  trusts.
\<close>

theorem login_accepted_exactly:
  "(let v = verify_id_token E (PDict tok) audience nonce now (Some anchors)
    in it_authentic v \<and> it_audience_matches v = Some True \<and> it_nonce_matches v = Some True \<and> it_fresh v = Some True \<and>
       it_trusted v = Some True) \<longleftrightarrow>
   py_get tok ''format'' = PStr ID_TOKEN_FORMAT \<and> \<not> placeholder_envelope tok \<and> text_signed E ID_TOKEN_FIELDS tok \<and>
   same_id (py_get tok ''aud'') audience \<and> same_id (py_get tok ''nonce'') nonce \<and>
   id_token_fresh E tok now = Some True \<and> key_anchored tok anchors"
  by (rule login_accepted)

end
