(* ===== verification/AgentGrants.thy ===== *)
theory AgentGrants
  imports LogAudit
begin

text \<open>
  The holder's key and what it delegates, in \<open>polaris_verify_cli/verifier.py\<close>: the pairwise handle,
  the issuer's binding of a holder key to a credential, the holder's proof of possession, and the
  agent grant with its limits, its revocation and the agent's proof (\<open>verify_agent_grant\<close>). An
  argument that Python defaults to \<open>None\<close> is \<open>PNone\<close>; a call that raises is \<open>None\<close>.
\<close>

section \<open>Text on the wire\<close>

definition wire_text :: "pyval \<Rightarrow> ustr option" where
  "wire_text x = (case x of PStr s \<Rightarrow> Some s | PInt n \<Rightarrow> if safe_int x then Some (int_str n) else None | _ \<Rightarrow> None)"

definition wire_text_equal :: "pyval \<Rightarrow> pyval \<Rightarrow> bool" where
  "wire_text_equal sgd expected \<longleftrightarrow> wire_text sgd \<noteq> None \<and> wire_text sgd = wire_text expected"

text \<open>\<open>s.strip(_ASCII_WS)\<close>.\<close>

definition ascii_ws :: "nat \<Rightarrow> bool" where
  "ascii_ws c \<longleftrightarrow> c \<in> {32, 9, 10, 13, 11, 12}"

definition strip_ws :: "ustr \<Rightarrow> ustr" where
  "strip_ws s = rev (dropWhile ascii_ws (rev (dropWhile ascii_ws s)))"

section \<open>The pairwise handle\<close>

definition handle_material :: "env \<Rightarrow> ustr \<Rightarrow> ustr \<Rightarrow> ustr" where
  "handle_material E key scope =
     lit ''polaris-pairwise/1|'' @ lower_text E (strip_ws key) @ [124] @ strip_ws scope"

text \<open>The outer option is what raises: text no UTF-8 encodes.\<close>

definition pairwise_handle :: "env \<Rightarrow> pyval \<Rightarrow> pyval \<Rightarrow> ustr option option" where
  "pairwise_handle E holder_public_key_hex verifier_scope =
     (case holder_public_key_hex of
        PStr key \<Rightarrow>
          if strip_ws key = [] then Some None
          else if verifier_scope = PNone \<or> strip_ws (py_str E verifier_scope) = [] then Some None
          else
            (case utf8_encode (handle_material E key (py_str E verifier_scope)) of None \<Rightarrow> None
             | Some bs \<Rightarrow> Some (Some (hex_of (sha3 E bs))))
      | _ \<Rightarrow> Some None)"

definition handles_link :: "env \<Rightarrow> pyval \<Rightarrow> pyval \<Rightarrow> bool" where
  "handles_link E a b =
     (case (a, b) of (PStr s, PStr t) \<Rightarrow> lower_text E (strip_ws s) = lower_text E (strip_ws t) | _ \<Rightarrow> False)"

section \<open>The holder binding\<close>

definition HOLDER_BINDING_FORMAT :: ustr where "HOLDER_BINDING_FORMAT = lit ''polaris-holder-binding/1''"

definition HOLDER_BINDING_FIELDS :: "string list" where
  "HOLDER_BINDING_FIELDS = [''format'', ''token_value'', ''holder_public_key_hex'', ''holder_algorithm'',
     ''bound_at'', ''status'', ''issued_at'', ''expires_at'', ''algorithm'']"

record binding_verdict =
  hb_authentic :: bool
  hb_fresh :: "bool option"
  hb_issuer_trusted :: "bool option"
  hb_bound_to_credential :: "bool option"
  hb_status :: pyval
  hb_holder_key :: pyval
  hb_holder_algorithm :: pyval
  hb_witnesses :: "(string \<times> bool) list"
  hb_note :: "vnote option"

definition blank_binding :: binding_verdict where
  "blank_binding =
     \<lparr>hb_authentic = False, hb_fresh = None, hb_issuer_trusted = None, hb_bound_to_credential = None,
      hb_status = PNone, hb_holder_key = PNone, hb_holder_algorithm = PNone, hb_witnesses = [], hb_note = None\<rparr>"

text \<open>The steps after the signature: the window, the anchors, the credential beside it.\<close>

definition bind_credential :: "pydict \<Rightarrow> pyval \<Rightarrow> binding_verdict \<Rightarrow> binding_verdict" where
  "bind_credential b credential v =
     (case credential of PDict c \<Rightarrow>
        let bound = wire_text_equal (py_get b ''token_value'') (py_get c ''token_value'') \<and>
              same_hex (py_get b ''public_key_hex'') (py_get c ''public_key_hex'')
        in v\<lparr>hb_bound_to_credential := Some bound, hb_note := (if bound then hb_note v else Some NotThisCredential)\<rparr>
      | _ \<Rightarrow> v)"

definition verify_holder_binding ::
    "env \<Rightarrow> pyval \<Rightarrow> pyval \<Rightarrow> now_arg \<Rightarrow> pyval option \<Rightarrow> pyval list option \<Rightarrow> binding_verdict option" where
  "verify_holder_binding E binding credential now cap anchor_keys =
     (case binding of PDict b \<Rightarrow>
        if py_get b ''format'' \<noteq> PStr HOLDER_BINDING_FORMAT then
          Some (blank_binding\<lparr>hb_note := Some (NotA HOLDER_BINDING_FORMAT)\<rparr>)
        else
          let v = blank_binding\<lparr>hb_status := py_get b ''status'', hb_holder_key := py_get b ''holder_public_key_hex'',
                hb_holder_algorithm := py_get b ''holder_algorithm''\<rparr>
          in if placeholder_envelope b then Some (v\<lparr>hb_note := Some Placeholder\<rparr>)
             else
               (case envelope_bytes b of None \<Rightarrow> Some (v\<lparr>hb_note := Some NotHex\<rparr>)
                | Some (sg, pk) \<Rightarrow>
                    (case two_witness_verify E (canonical_digest E HOLDER_BINDING_FIELDS b) sg pk (py_get b ''algorithm'') of
                       (None, tried, n) \<Rightarrow> Some (v\<lparr>hb_witnesses := tried, hb_note := n\<rparr>)
                     | (Some False, tried, n) \<Rightarrow> Some (v\<lparr>hb_witnesses := tried, hb_note := or_note n BadSignature\<rparr>)
                     | (Some True, tried, n) \<Rightarrow>
                         (case verify_window E b now cap of None \<Rightarrow> None
                          | Some (fresh, why) \<Rightarrow>
                              Some (bind_credential b credential
                                (v\<lparr>hb_authentic := True, hb_witnesses := tried, hb_fresh := Some fresh, hb_note := why,
                                   hb_issuer_trusted := map_option (\<lambda>ks. hex_in (py_get b ''public_key_hex'') (map hex_text ks))
                                     anchor_keys\<rparr>)))))
      | _ \<Rightarrow> Some (blank_binding\<lparr>hb_note := Some (NotA HOLDER_BINDING_FORMAT)\<rparr>))"

section \<open>The holder proof\<close>

definition HOLDER_PROOF_FORMAT :: ustr where "HOLDER_PROOF_FORMAT = lit ''polaris-holder-proof/1''"

definition HOLDER_PROOF_FIELDS :: "string list" where
  "HOLDER_PROOF_FIELDS = [''format'', ''token_value'', ''context_id'', ''verifier_nonce'', ''issued_at'', ''algorithm'']"

record proof_verdict =
  hp_authentic :: bool
  hp_key_matches_binding :: "bool option"
  hp_nonce_matches :: "bool option"
  hp_context_matches :: "bool option"
  hp_fresh :: "bool option"
  hp_witnesses :: "(string \<times> bool) list"
  hp_note :: "vnote option"

definition blank_proof :: proof_verdict where
  "blank_proof =
     \<lparr>hp_authentic = False, hp_key_matches_binding = None, hp_nonce_matches = None, hp_context_matches = None,
      hp_fresh = None, hp_witnesses = [], hp_note = None\<rparr>"

text \<open>At most a minute ahead of the clock and no older than the maximum age, in seconds.\<close>

definition proof_fresh :: "int \<Rightarrow> int \<Rightarrow> int \<Rightarrow> bool" where
  "proof_fresh issued ref max_age \<longleftrightarrow>
     issued \<le> ref + 60000000 \<and> double_near (of_int (ref - issued) / 1000000) \<le> of_int (if max_age = 0 then 300 else max_age)"

definition check_proof ::
    "env \<Rightarrow> pydict \<Rightarrow> pyval \<Rightarrow> pyval \<Rightarrow> pyval \<Rightarrow> now_arg \<Rightarrow> int \<Rightarrow> proof_verdict \<Rightarrow> proof_verdict" where
  "check_proof E pr binding expected_nonce expected_context now max_age v =
     (let v1 = (if expected_nonce = PNone then v
            else v\<lparr>hp_nonce_matches := Some (wire_text_equal (py_get pr ''verifier_nonce'') expected_nonce)\<rparr>);
          v2 = (if expected_context = PNone then v1
            else v1\<lparr>hp_context_matches := Some (same_id (py_get pr ''context_id'') expected_context)\<rparr>);
          v3 = (case (instant_at pr ''issued_at'', instant (clock E) now) of
             (Some issued, Some ref) \<Rightarrow> v2\<lparr>hp_fresh := Some (proof_fresh issued ref max_age)\<rparr>
           | _ \<Rightarrow> v2\<lparr>hp_fresh := Some False, hp_note := Some BadProofInstant\<rparr>)
      in case binding of PDict b \<Rightarrow>
           let ok = same_hex (py_get pr ''public_key_hex'') (py_get b ''holder_public_key_hex'') \<and>
                 wire_text_equal (py_get pr ''token_value'') (py_get b ''token_value'') \<and>
                 status_of b = PStr (lit ''active'')
           in v3\<lparr>hp_key_matches_binding := Some ok, hp_note := (if ok then hp_note v3 else Some UnboundKey)\<rparr>
         | _ \<Rightarrow> v3)"

definition verify_holder_proof ::
    "env \<Rightarrow> pyval \<Rightarrow> pyval \<Rightarrow> pyval \<Rightarrow> pyval \<Rightarrow> now_arg \<Rightarrow> int \<Rightarrow> proof_verdict" where
  "verify_holder_proof E proof binding expected_nonce expected_context now max_age =
     (case proof of PDict pr \<Rightarrow>
        if py_get pr ''format'' \<noteq> PStr HOLDER_PROOF_FORMAT then blank_proof\<lparr>hp_note := Some (NotA HOLDER_PROOF_FORMAT)\<rparr>
        else if placeholder_envelope pr then blank_proof\<lparr>hp_note := Some Placeholder\<rparr>
        else
          (case envelope_bytes pr of None \<Rightarrow> blank_proof\<lparr>hp_note := Some NotHex\<rparr>
           | Some (sg, pk) \<Rightarrow>
               (case two_witness_verify E (canonical_digest E HOLDER_PROOF_FIELDS pr) sg pk (py_get pr ''algorithm'') of
                  (None, tried, n) \<Rightarrow> blank_proof\<lparr>hp_witnesses := tried, hp_note := n\<rparr>
                | (Some False, tried, n) \<Rightarrow> blank_proof\<lparr>hp_witnesses := tried, hp_note := or_note n BadSignature\<rparr>
                | (Some True, tried, n) \<Rightarrow>
                    check_proof E pr binding expected_nonce expected_context now max_age
                      (blank_proof\<lparr>hp_witnesses := tried, hp_authentic := True\<rparr>)))
      | _ \<Rightarrow> blank_proof\<lparr>hp_note := Some (NotA HOLDER_PROOF_FORMAT)\<rparr>)"

section \<open>Limits\<close>

datatype limit_note =
    GrantNotAnObject | LimitsNotAnObject | UnknownLimits "ustr list" | UsesNotFinite | AmountNotFinite | MaxUsesNotFinite
  | UsesNotWhole | Exhausted | MaxAmountNotFinite | AmountExceeds

text \<open>\<open>float(x)\<close> of a finite number, and \<open>float(x) == int(x)\<close>.\<close>

definition to_float :: "pyval \<Rightarrow> rat" where
  "to_float v = (case v of PInt n \<Rightarrow> double_near (of_int n) | _ \<Rightarrow> the (num_value v))"

definition to_int :: "pyval \<Rightarrow> int" where
  "to_int v = (case v of PInt n \<Rightarrow> n | _ \<Rightarrow> (let r = the (num_value v) in if r < 0 then \<lceil>r\<rceil> else \<lfloor>r\<rfloor>))"

definition float_is_int :: "pyval \<Rightarrow> bool" where
  "float_is_int v \<longleftrightarrow> to_float v = of_int (to_int v)"

text \<open>Whether an argument that is present is a finite number; \<open>None\<close> where \<open>_finite\<close> raises.\<close>

definition present_finite :: "pyval \<Rightarrow> bool option" where
  "present_finite v = (if v = PNone then Some True else finite_num v)"

definition check_uses :: "pyval \<Rightarrow> pyval \<Rightarrow> (limit_note option) option" where
  "check_uses max_uses uses =
     (if max_uses = PNone then Some None
      else
        (case finite_num max_uses of None \<Rightarrow> None | Some False \<Rightarrow> Some (Some MaxUsesNotFinite)
         | Some True \<Rightarrow>
             if \<not> float_is_int max_uses \<or> \<not> float_is_int uses then Some (Some UsesNotWhole)
             else if to_int max_uses \<le> to_int uses then Some (Some Exhausted) else Some None))"

definition check_amount :: "pyval \<Rightarrow> pyval \<Rightarrow> (limit_note option) option" where
  "check_amount max_amount amount =
     (case present_finite max_amount of None \<Rightarrow> None | Some False \<Rightarrow> Some (Some MaxAmountNotFinite)
      | Some True \<Rightarrow>
          if max_amount \<noteq> PNone \<and> amount \<noteq> PNone \<and> to_float max_amount < to_float amount then Some (Some AmountExceeds)
          else Some None)"

definition grant_within_limits :: "pyval \<Rightarrow> pyval \<Rightarrow> pyval \<Rightarrow> (bool \<times> limit_note option) option" where
  "grant_within_limits grant uses amount =
     (case grant of PDict g \<Rightarrow>
        (case (case py_get g ''limits'' of PNone \<Rightarrow> Some [] | PDict l \<Rightarrow> Some l | _ \<Rightarrow> None) of
           None \<Rightarrow> Some (False, Some LimitsNotAnObject)
         | Some limits \<Rightarrow>
             let unknown = filter (\<lambda>k. k \<noteq> lit ''max_uses'' \<and> k \<noteq> lit ''max_amount'') (map fst limits)
             in if unknown \<noteq> [] then Some (False, Some (UnknownLimits (sort unknown)))
                else
                  (case finite_num uses of None \<Rightarrow> None | Some False \<Rightarrow> Some (False, Some UsesNotFinite)
                   | Some True \<Rightarrow>
                       (case present_finite amount of None \<Rightarrow> None | Some False \<Rightarrow> Some (False, Some AmountNotFinite)
                        | Some True \<Rightarrow>
                            (case check_uses (py_get limits ''max_uses'') uses of None \<Rightarrow> None
                             | Some (Some why) \<Rightarrow> Some (False, Some why)
                             | Some None \<Rightarrow>
                                 (case check_amount (py_get limits ''max_amount'') amount of None \<Rightarrow> None
                                  | Some (Some why) \<Rightarrow> Some (False, Some why)
                                  | Some None \<Rightarrow> Some (True, None))))))
      | _ \<Rightarrow> Some (False, Some GrantNotAnObject))"

section \<open>The grant\<close>

definition AGENT_GRANT_FORMAT :: ustr where "AGENT_GRANT_FORMAT = lit ''polaris-agent-grant/1''"
definition GRANT_REVOCATION_FORMAT :: ustr where "GRANT_REVOCATION_FORMAT = lit ''polaris-grant-revocation/1''"
definition AGENT_PROOF_FORMAT :: ustr where "AGENT_PROOF_FORMAT = lit ''polaris-agent-proof/1''"

definition AGENT_GRANT_FIELDS :: "string list" where
  "AGENT_GRANT_FIELDS = [''format'', ''grant_id'', ''agent_public_key_hex'', ''agent_algorithm'', ''actions'',
     ''limits'', ''context_id'', ''issued_at'', ''expires_at'', ''algorithm'']"

definition GRANT_REVOCATION_FIELDS :: "string list" where
  "GRANT_REVOCATION_FIELDS = [''format'', ''grant_id'', ''revoked_at'', ''algorithm'']"

definition AGENT_PROOF_FIELDS :: "string list" where
  "AGENT_PROOF_FIELDS = [''format'', ''grant_id'', ''action'', ''service_nonce'', ''issued_at'', ''algorithm'']"

text \<open>\<open>_signed_by\<close>: \<open>str(x or "")\<close> of the two hex fields, then the algorithm, then the witnesses.\<close>

definition str_or_empty :: "env \<Rightarrow> pyval \<Rightarrow> ustr" where
  "str_or_empty E v = (if py_true v then py_str E v else [])"

definition signed_by ::
    "env \<Rightarrow> string list \<Rightarrow> pydict \<Rightarrow> pyval \<Rightarrow> pyval \<Rightarrow> bool option \<times> (string \<times> bool) list \<times> vnote option" where
  "signed_by E names obj key alg =
     (case canonical_digest E names obj of None \<Rightarrow> (None, [], Some NotJson)
      | Some dg \<Rightarrow>
          (case (unhex (PStr (str_or_empty E (py_get obj ''signature_hex''))), unhex (PStr (str_or_empty E key))) of
             (Some sg, Some pk) \<Rightarrow>
               if \<not> accepted_alg alg then (None, [], Some (UnknownAlgorithm alg))
               else two_witness_verify E (Some dg) sg pk alg
           | _ \<Rightarrow> (None, [], Some NotHex)))"

record standalone_verdict =
  sv_authentic :: bool
  sv_witnesses :: "(string \<times> bool) list"
  sv_note :: "vnote option"

definition verify_standalone :: "env \<Rightarrow> ustr \<Rightarrow> string list \<Rightarrow> pyval \<Rightarrow> standalone_verdict" where
  "verify_standalone E fmt names obj0 =
     (case obj0 of PDict obj \<Rightarrow>
        if py_get obj ''format'' \<noteq> PStr fmt then \<lparr>sv_authentic = False, sv_witnesses = [], sv_note = Some (NotA fmt)\<rparr>
        else
          (case signed_by E names obj (py_get obj ''public_key_hex'') (py_get obj ''algorithm'') of
             (None, tried, n) \<Rightarrow> \<lparr>sv_authentic = False, sv_witnesses = tried, sv_note = n\<rparr>
           | (Some ok, tried, n) \<Rightarrow>
               \<lparr>sv_authentic = ok, sv_witnesses = tried, sv_note = (if ok then None else or_note n BadSignature)\<rparr>)
      | _ \<Rightarrow> \<lparr>sv_authentic = False, sv_witnesses = [], sv_note = Some (NotA fmt)\<rparr>)"

definition verify_grant_revocation :: "env \<Rightarrow> pyval \<Rightarrow> standalone_verdict" where
  "verify_grant_revocation E r = verify_standalone E GRANT_REVOCATION_FORMAT GRANT_REVOCATION_FIELDS r"

definition verify_agent_proof :: "env \<Rightarrow> pyval \<Rightarrow> standalone_verdict" where
  "verify_agent_proof E pr = verify_standalone E AGENT_PROOF_FORMAT AGENT_PROOF_FIELDS pr"

datatype unbound_why =
    NoCredential | CredentialUnverified "vnote option" | AnchorsDoNotHold | BindingRevoked | BindingFailed "vnote option"

datatype grant_note =
    Plain vnote | NoGrantId | OtherContext | HolderUnbound unbound_why | OutOfScope
  | NotARevocation | RevocationOfOther | RevocationByOther | HolderRevoked
  | NotAnAgentProof | ProofForOtherGrant | ProofByOtherKey | Replayed | ProofForOtherAction | ProofByOtherAlgorithm
  | ProofNotDated | ProofOutsideWindow | ProofAhead
  | LimitNote limit_note | ChainIncomplete "string list" | NotAnchored

record grant_verdict =
  gv_authentic :: bool
  gv_fresh :: "bool option"
  gv_principal_bound :: "bool option"
  gv_credential_authentic :: "bool option"
  gv_issuer_trusted :: "bool option"
  gv_action_in_scope :: "bool option"
  gv_limits :: "pydict option"
  gv_revoked :: "bool option"
  gv_agent_proved :: "bool option"
  gv_context_matches :: "bool option"
  gv_pairwise_handle :: "ustr option"
  gv_exposed :: bool
  gv_usable :: bool
  gv_witnesses :: "(string \<times> bool) list"
  gv_note :: "grant_note option"

definition blank_grant :: grant_verdict where
  "blank_grant =
     \<lparr>gv_authentic = False, gv_fresh = None, gv_principal_bound = None, gv_credential_authentic = None,
      gv_issuer_trusted = None, gv_action_in_scope = None, gv_limits = None, gv_revoked = None, gv_agent_proved = None,
      gv_context_matches = None, gv_pairwise_handle = None, gv_exposed = False, gv_usable = False,
      gv_witnesses = [], gv_note = None\<rparr>"

text \<open>The context the holder signed, against this service's.\<close>

definition grant_context :: "pydict \<Rightarrow> pyval \<Rightarrow> grant_verdict \<Rightarrow> grant_verdict" where
  "grant_context g expected_context v =
     (if expected_context = PNone then v
      else
        let ok = same_id (py_get g ''context_id'') expected_context
        in v\<lparr>gv_context_matches := Some ok, gv_note := (if ok then gv_note v else Some OtherContext)\<rparr>)"

text \<open>Links 1 and 2: the credential, and the issuer's binding of the holder's key to it.\<close>

definition why_unbound :: "pack_verdict option \<Rightarrow> bool \<Rightarrow> bool option \<Rightarrow> binding_verdict \<Rightarrow> bool \<Rightarrow> unbound_why" where
  "why_unbound cv credential_ok issuer_trusted bv active =
     (case cv of None \<Rightarrow> NoCredential
      | Some c \<Rightarrow>
          if \<not> credential_ok then CredentialUnverified (pv_note c)
          else if issuer_trusted = Some False then AnchorsDoNotHold
          else if hb_authentic bv \<and> \<not> active then BindingRevoked
          else BindingFailed (hb_note bv))"

definition grant_binding ::
    "env \<Rightarrow> pydict \<Rightarrow> pyval \<Rightarrow> pyval \<Rightarrow> now_arg \<Rightarrow> pyval list option \<Rightarrow> pyval \<Rightarrow> grant_verdict \<Rightarrow> grant_verdict option" where
  "grant_binding E g binding credential now anchor_keys verifier_scope v =
     (if binding = PNone then Some v
      else
        let cv = (case credential of PDict c \<Rightarrow> Some (verify_pack E credential anchor_keys) | _ \<Rightarrow> None);
            credential_ok = (case cv of None \<Rightarrow> False | Some c \<Rightarrow> pv_valid c);
            issuer_trusted = (case anchor_keys of None \<Rightarrow> gv_issuer_trusted v
              | Some _ \<Rightarrow> Some (case cv of None \<Rightarrow> False | Some c \<Rightarrow> pv_trusted c = Some True))
        in case verify_holder_binding E binding credential now None anchor_keys of None \<Rightarrow> None
           | Some bv \<Rightarrow>
               let active = (case binding of PDict b \<Rightarrow> status_of b = PStr (lit ''active'') | _ \<Rightarrow> False);
                   bound = hb_authentic bv \<and> hb_fresh bv \<noteq> Some False \<and> active \<and>
                     same_hex (hb_holder_key bv) (py_get g ''public_key_hex'') \<and>
                     hb_bound_to_credential bv \<noteq> Some False \<and> credential_ok \<and> issuer_trusted \<noteq> Some False;
                   v2 = v\<lparr>gv_credential_authentic := Some credential_ok, gv_issuer_trusted := issuer_trusted,
                     gv_principal_bound := Some bound,
                     gv_note := (if bound then gv_note v
                       else Some (HolderUnbound (why_unbound cv credential_ok issuer_trusted bv active)))\<rparr>
               in if verifier_scope = PNone then Some v2
                  else (case pairwise_handle E (hb_holder_key bv) verifier_scope of None \<Rightarrow> None
                        | Some h \<Rightarrow> Some (v2\<lparr>gv_pairwise_handle := h, gv_exposed := True\<rparr>)))"

text \<open>Link 3: the action asked for, as text, among those the grant names.\<close>

definition in_scope :: "pydict \<Rightarrow> pyval \<Rightarrow> bool" where
  "in_scope g requested_action \<longleftrightarrow> wire_text requested_action \<noteq> None \<and>
     list_ex (\<lambda>a. wire_text a = wire_text requested_action) (as_list (py_get g ''actions''))"

definition grant_scope :: "pydict \<Rightarrow> pyval \<Rightarrow> grant_verdict \<Rightarrow> grant_verdict" where
  "grant_scope g requested_action v =
     (let v2 = (if requested_action = PNone then v
            else v\<lparr>gv_action_in_scope := Some (in_scope g requested_action),
              gv_note := (if in_scope g requested_action then gv_note v else Some OutOfScope)\<rparr>)
      in v2\<lparr>gv_limits := Some (as_dict (py_get g ''limits''))\<rparr>)"

text \<open>Link 4: what a revocation beside the grant amounts to.\<close>

definition revocation_note :: "env \<Rightarrow> pydict \<Rightarrow> pyval \<Rightarrow> grant_note" where
  "revocation_note E g revocation =
     (case revocation of PDict r \<Rightarrow>
        if py_get r ''format'' \<noteq> PStr GRANT_REVOCATION_FORMAT then NotARevocation
        else if \<not> wire_text_equal (py_get r ''grant_id'') (py_get g ''grant_id'') then RevocationOfOther
        else
          (case signed_by E GRANT_REVOCATION_FIELDS r (py_get r ''public_key_hex'') (py_get r ''algorithm'') of
             (None, tried, n) \<Rightarrow> (case n of Some w \<Rightarrow> Plain w | None \<Rightarrow> Plain NoVerifier)
           | (Some False, tried, n) \<Rightarrow> Plain (case n of Some w \<Rightarrow> w | None \<Rightarrow> BadSignature)
           | (Some True, tried, n) \<Rightarrow>
               if \<not> same_hex (py_get r ''public_key_hex'') (py_get g ''public_key_hex'') then RevocationByOther
               else HolderRevoked)
      | _ \<Rightarrow> NotARevocation)"

definition grant_revocation :: "env \<Rightarrow> pydict \<Rightarrow> pyval \<Rightarrow> grant_verdict \<Rightarrow> grant_verdict" where
  "grant_revocation E g revocation v =
     (if revocation = PNone then v
      else
        let n = revocation_note E g revocation
        in v\<lparr>gv_revoked := Some (n = HolderRevoked), gv_note := Some n\<rparr>)"

text \<open>Link 5: the agent's proof; \<open>None\<close> where it holds.\<close>

definition proof_instants :: "env \<Rightarrow> pydict \<Rightarrow> pydict \<Rightarrow> now_arg \<Rightarrow> grant_note option" where
  "proof_instants E g pr now =
     (case (instant_at pr ''issued_at'', instant_at g ''issued_at'', instant_at g ''expires_at'', instant (clock E) now) of
        (Some made, Some start, Some stop, Some ref) \<Rightarrow>
          if \<not> (start \<le> made \<and> made < stop) then Some ProofOutsideWindow
          else if ref + 60000000 < made then Some ProofAhead else None
      | _ \<Rightarrow> Some ProofNotDated)"

definition proof_problem :: "env \<Rightarrow> pydict \<Rightarrow> pyval \<Rightarrow> pyval \<Rightarrow> pyval \<Rightarrow> now_arg \<Rightarrow> grant_note option" where
  "proof_problem E g agent_proof expected_nonce requested_action now =
     (case agent_proof of PDict pr \<Rightarrow>
        if py_get pr ''format'' \<noteq> PStr AGENT_PROOF_FORMAT then Some NotAnAgentProof
        else if \<not> wire_text_equal (py_get pr ''grant_id'') (py_get g ''grant_id'') then Some ProofForOtherGrant
        else if \<not> same_hex (py_get pr ''public_key_hex'') (py_get g ''agent_public_key_hex'') then Some ProofByOtherKey
        else if expected_nonce \<noteq> PNone \<and> \<not> wire_text_equal (py_get pr ''service_nonce'') expected_nonce then Some Replayed
        else if requested_action \<noteq> PNone \<and> \<not> wire_text_equal (py_get pr ''action'') requested_action then
          Some ProofForOtherAction
        else if py_get g ''agent_algorithm'' \<noteq> PNone \<and> \<not> py_eq (py_get pr ''algorithm'') (py_get g ''agent_algorithm'') then
          Some ProofByOtherAlgorithm
        else
          (case signed_by E AGENT_PROOF_FIELDS pr (py_get pr ''public_key_hex'')
                  (if py_true (py_get g ''agent_algorithm'') then py_get g ''agent_algorithm'' else py_get pr ''algorithm'') of
             (None, tried, n) \<Rightarrow> Some (case n of Some w \<Rightarrow> Plain w | None \<Rightarrow> Plain NoVerifier)
           | (Some False, tried, n) \<Rightarrow> Some (Plain (case n of Some w \<Rightarrow> w | None \<Rightarrow> BadSignature))
           | (Some True, tried, n) \<Rightarrow> proof_instants E g pr now)
      | _ \<Rightarrow> Some NotAnAgentProof)"

definition grant_proof :: "env \<Rightarrow> pydict \<Rightarrow> pyval \<Rightarrow> pyval \<Rightarrow> pyval \<Rightarrow> now_arg \<Rightarrow> grant_verdict \<Rightarrow> grant_verdict" where
  "grant_proof E g agent_proof expected_nonce requested_action now v =
     (if agent_proof = PNone then v
      else
        case proof_problem E g agent_proof expected_nonce requested_action now of
          None \<Rightarrow> v\<lparr>gv_agent_proved := Some True\<rparr>
        | Some n \<Rightarrow> v\<lparr>gv_agent_proved := Some False, gv_note := Some n\<rparr>)"

text \<open>The conclusion: every link checked, and what to say where one was not.\<close>

definition missing_links :: "pyval \<Rightarrow> pyval \<Rightarrow> pyval \<Rightarrow> pyval \<Rightarrow> string list" where
  "missing_links binding requested_action agent_proof expected_nonce =
     (if binding = PNone then [''holder binding''] else []) @ (if requested_action = PNone then [''requested action''] else [])
     @ (if agent_proof = PNone then [''agent proof''] else []) @ (if expected_nonce = PNone then [''service nonce''] else [])"

definition grant_conclusion ::
    "bool \<Rightarrow> bool \<Rightarrow> limit_note option \<Rightarrow> string list \<Rightarrow> pyval \<Rightarrow> grant_verdict \<Rightarrow> grant_verdict" where
  "grant_conclusion signature_only limits_ok limits_note missing expected_nonce v =
     (let trusted = gv_issuer_trusted v = Some True \<or> signature_only \<and> gv_issuer_trusted v = None;
          usable = gv_authentic v \<and> gv_fresh v \<noteq> Some False \<and> gv_principal_bound v = Some True \<and>
            gv_action_in_scope v = Some True \<and> gv_revoked v \<noteq> Some True \<and> gv_agent_proved v = Some True \<and>
            expected_nonce \<noteq> PNone \<and> gv_context_matches v \<noteq> Some False \<and> trusted \<and> limits_ok;
          n1 = (if \<not> limits_ok \<and> gv_note v = None then map_option LimitNote limits_note else gv_note v);
          n2 = (if \<not> usable \<and> n1 = None \<and> missing \<noteq> [] then Some (ChainIncomplete missing) else n1);
          n3 = (if \<not> usable \<and> n2 = None \<and> \<not> trusted \<and> gv_issuer_trusted v = None then Some NotAnchored else n2)
      in v\<lparr>gv_usable := usable, gv_note := n3\<rparr>)"

definition verify_agent_grant ::
    "env \<Rightarrow> pyval \<Rightarrow> pyval \<Rightarrow> pyval \<Rightarrow> now_arg \<Rightarrow> pyval \<Rightarrow> pyval \<Rightarrow> pyval \<Rightarrow> pyval \<Rightarrow> pyval list option \<Rightarrow> pyval \<Rightarrow> pyval \<Rightarrow>
     bool \<Rightarrow> grant_verdict option" where
  "verify_agent_grant E grant binding credential now requested_action revocation agent_proof expected_nonce
       anchor_keys verifier_scope expected_context signature_only =
     (case grant of PDict g \<Rightarrow>
        if py_get g ''format'' \<noteq> PStr AGENT_GRANT_FORMAT then
          Some (blank_grant\<lparr>gv_note := Some (Plain (NotA AGENT_GRANT_FORMAT))\<rparr>)
        else
          (case signed_by E AGENT_GRANT_FIELDS g (py_get g ''public_key_hex'') (py_get g ''algorithm'') of
             (None, tried, n) \<Rightarrow> Some (blank_grant\<lparr>gv_witnesses := tried, gv_note := map_option Plain n\<rparr>)
           | (Some False, tried, n) \<Rightarrow>
               Some (blank_grant\<lparr>gv_witnesses := tried, gv_note := map_option Plain (or_note n BadSignature)\<rparr>)
           | (Some True, tried, n) \<Rightarrow>
               if wire_text (py_get g ''grant_id'') = None then
                 Some (blank_grant\<lparr>gv_witnesses := tried, gv_note := Some NoGrantId\<rparr>)
               else
                 (case verify_window E g now None of None \<Rightarrow> None
                  | Some (fresh, why) \<Rightarrow>
                      let v1 = grant_context g expected_context
                            (blank_grant\<lparr>gv_witnesses := tried, gv_authentic := True, gv_fresh := Some fresh,
                               gv_note := map_option Plain why\<rparr>)
                      in (case grant_binding E g binding credential now anchor_keys verifier_scope v1 of None \<Rightarrow> None
                          | Some v2 \<Rightarrow>
                              let v3 = grant_proof E g agent_proof expected_nonce requested_action now
                                    (grant_revocation E g revocation (grant_scope g requested_action v2))
                              in (case grant_within_limits grant (PInt 0) PNone of None \<Rightarrow> None
                                  | Some (limits_ok, limits_note) \<Rightarrow>
                                      Some (grant_conclusion signature_only limits_ok limits_note
                                        (missing_links binding requested_action agent_proof expected_nonce) expected_nonce v3)))))
      | _ \<Rightarrow> Some (blank_grant\<lparr>gv_note := Some (Plain (NotA AGENT_GRANT_FORMAT))\<rparr>))"

section \<open>The chain\<close>

definition grant_signed :: "env \<Rightarrow> pydict \<Rightarrow> bool" where
  "grant_signed E g \<longleftrightarrow> py_get g ''format'' = PStr AGENT_GRANT_FORMAT \<and>
     fst (signed_by E AGENT_GRANT_FIELDS g (py_get g ''public_key_hex'') (py_get g ''algorithm'')) = Some True \<and>
     wire_text (py_get g ''grant_id'') \<noteq> None"

definition in_window :: "env \<Rightarrow> pydict \<Rightarrow> now_arg \<Rightarrow> bool" where
  "in_window E obj now \<longleftrightarrow>
     (case instants E obj now of None \<Rightarrow> False | Some (t, ia, ea) \<Rightarrow> ia \<le> t \<and> t < ea)"

lemma verify_window_uncapped:
  "verify_window E obj now None = Some (in_window E obj now,
     (case instants E obj now of None \<Rightarrow> Some BadInstants
      | Some _ \<Rightarrow> if in_window E obj now then None else Some OutsideWindow))"
  by (auto simp: verify_window_def in_window_def Let_def split: option.splits prod.splits)

text \<open>The issuer bound the key that signed the grant to a genuine credential, by an active binding.\<close>

definition binding_signed :: "env \<Rightarrow> pydict \<Rightarrow> bool" where
  "binding_signed E b \<longleftrightarrow> py_get b ''format'' = PStr HOLDER_BINDING_FORMAT \<and> signed_statement E HOLDER_BINDING_FIELDS b"

definition holder_bound :: "env \<Rightarrow> pydict \<Rightarrow> pyval \<Rightarrow> pyval \<Rightarrow> now_arg \<Rightarrow> bool" where
  "holder_bound E g binding credential now \<longleftrightarrow>
     (case (binding, credential) of
        (PDict b, PDict c) \<Rightarrow>
          pack_signed E c \<and> binding_signed E b \<and> in_window E b now \<and> status_of b = PStr (lit ''active'') \<and>
          wire_text_equal (py_get b ''token_value'') (py_get c ''token_value'') \<and>
          same_hex (py_get b ''public_key_hex'') (py_get c ''public_key_hex'') \<and>
          same_hex (py_get b ''holder_public_key_hex'') (py_get g ''public_key_hex'')
      | _ \<Rightarrow> False)"

text \<open>What the binding says of the holder's key, checked or not.\<close>

definition claimed_key :: "pyval \<Rightarrow> pyval" where
  "claimed_key binding =
     (case binding of PDict b \<Rightarrow> if py_get b ''format'' = PStr HOLDER_BINDING_FORMAT then py_get b ''holder_public_key_hex'' else PNone
      | _ \<Rightarrow> PNone)"

lemma bind_credential_fields [simp]:
  "hb_authentic (bind_credential b c v) = hb_authentic v" "hb_fresh (bind_credential b c v) = hb_fresh v"
  "hb_holder_key (bind_credential b c v) = hb_holder_key v"
  by (auto simp: bind_credential_def Let_def split: pyval.splits)

lemma bind_credential_bound [simp]:
  "hb_bound_to_credential (bind_credential b (PDict c) v) = Some (wire_text_equal (py_get b ''token_value'') (py_get c ''token_value'') \<and>
     same_hex (py_get b ''public_key_hex'') (py_get c ''public_key_hex''))"
  by (simp add: bind_credential_def Let_def)

lemma verify_holder_binding_facts:
  "\<exists>bv. verify_holder_binding E binding credential now None ak = Some bv \<and> hb_holder_key bv = claimed_key binding \<and>
    (hb_authentic bv \<longleftrightarrow> (\<exists>b. binding = PDict b \<and> binding_signed E b)) \<and>
    (\<forall>b. binding = PDict b \<and> binding_signed E b \<longrightarrow> hb_fresh bv = Some (in_window E b now)) \<and>
    (\<forall>b c. binding = PDict b \<and> binding_signed E b \<and> credential = PDict c \<longrightarrow>
       hb_bound_to_credential bv = Some (wire_text_equal (py_get b ''token_value'') (py_get c ''token_value'') \<and>
         same_hex (py_get b ''public_key_hex'') (py_get c ''public_key_hex'')))"
proof (cases "\<exists>b. binding = PDict b \<and> binding_signed E b")
  case True
  then obtain b where b: "binding = PDict b" "binding_signed E b" by blast
  then have s: "signed_statement E HOLDER_BINDING_FIELDS b" and f: "py_get b ''format'' = PStr HOLDER_BINDING_FORMAT"
    by (auto simp: binding_signed_def)
  obtain sg pk tried n where e: "\<not> placeholder_envelope b" "envelope_bytes b = Some (sg, pk)"
    "two_witness_verify E (canonical_digest E HOLDER_BINDING_FIELDS b) sg pk (py_get b ''algorithm'') = (Some True, tried, n)"
    by (rule signed_statementE [OF s])
  show ?thesis
    by (rule exI [of _ "the (verify_holder_binding E binding credential now None ak)"])
      (use b f e in \<open>auto simp: verify_holder_binding_def Let_def verify_window_uncapped claimed_key_def\<close>)
next
  case False
  let ?m = "verify_holder_binding E binding credential now None ak"
  have "?m \<noteq> None \<and> hb_holder_key (the ?m) = claimed_key binding \<and> \<not> hb_authentic (the ?m)"
    using False
    by (auto simp: verify_holder_binding_def Let_def verify_window_uncapped claimed_key_def binding_signed_def
        blank_binding_def dest: two_witness_TrueD split: pyval.splits option.splits prod.splits bool.splits)
  then show ?thesis using False by (intro exI [of _ "the ?m"]) auto
qed

lemma grant_binding_raises:
  "grant_binding E g binding credential now ak scope v = None \<longleftrightarrow>
     binding \<noteq> PNone \<and> scope \<noteq> PNone \<and> pairwise_handle E (claimed_key binding) scope = None"
proof -
  obtain bv where "verify_holder_binding E binding credential now None ak = Some bv" "hb_holder_key bv = claimed_key binding"
    using verify_holder_binding_facts by blast
  then show ?thesis by (auto simp: grant_binding_def Let_def split: option.splits)
qed

lemma grant_binding_fields:
  assumes "grant_binding E g binding credential now ak scope v = Some v'"
  shows "gv_authentic v' = gv_authentic v" "gv_fresh v' = gv_fresh v" "gv_context_matches v' = gv_context_matches v"
    "gv_action_in_scope v' = gv_action_in_scope v" "gv_revoked v' = gv_revoked v" "gv_agent_proved v' = gv_agent_proved v"
  using assms by (auto simp: grant_binding_def Let_def split: option.splits if_splits)

lemma grant_binding_bound:
  assumes "grant_binding E g binding credential now ak scope v = Some v'" "gv_principal_bound v = None" "gv_issuer_trusted v = None"
  shows "gv_principal_bound v' = Some True \<and> (gv_issuer_trusted v' = Some True \<or> so \<and> gv_issuer_trusted v' = None) \<longleftrightarrow>
    holder_bound E g binding credential now \<and>
    (case ak of None \<Rightarrow> so | Some ks \<Rightarrow> key_anchored (as_dict credential) ks)"
proof (cases "binding = PNone")
  case True
  then show ?thesis using assms by (auto simp: grant_binding_def holder_bound_def)
next
  case False
  obtain bv where bv: "verify_holder_binding E binding credential now None ak = Some bv" "hb_holder_key bv = claimed_key binding"
    and au: "hb_authentic bv \<longleftrightarrow> (\<exists>b. binding = PDict b \<and> binding_signed E b)"
    and fr: "\<forall>b. binding = PDict b \<and> binding_signed E b \<longrightarrow> hb_fresh bv = Some (in_window E b now)"
    and bo: "\<forall>b c. binding = PDict b \<and> binding_signed E b \<and> credential = PDict c \<longrightarrow>
       hb_bound_to_credential bv = Some (wire_text_equal (py_get b ''token_value'') (py_get c ''token_value'') \<and>
         same_hex (py_get b ''public_key_hex'') (py_get c ''public_key_hex''))"
    using verify_holder_binding_facts [of E binding credential now ak] by blast
  let ?cv = "case credential of PDict c \<Rightarrow> Some (verify_pack E credential ak) | _ \<Rightarrow> None"
  let ?active = "case binding of PDict b \<Rightarrow> status_of b = PStr (lit ''active'') | _ \<Rightarrow> False"
  have ok: "(case ?cv of None \<Rightarrow> False | Some c \<Rightarrow> pv_valid c) \<longleftrightarrow> (\<exists>c. credential = PDict c \<and> pack_signed E c)"
    by (cases credential) (simp_all add: pack_signed_iff)
  have tr: "(case ?cv of None \<Rightarrow> False | Some c \<Rightarrow> pv_trusted c = Some True) \<longleftrightarrow>
      (\<exists>c. credential = PDict c \<and> pv_trusted (verify_pack E (PDict c) ak) = Some True)"
    by (cases credential) simp_all
  have v': "gv_issuer_trusted v' = (case ak of None \<Rightarrow> None
       | Some _ \<Rightarrow> Some (\<exists>c. credential = PDict c \<and> pv_trusted (verify_pack E (PDict c) ak) = Some True))"
    "gv_principal_bound v' = Some (hb_authentic bv \<and> hb_fresh bv \<noteq> Some False \<and> ?active \<and>
        same_hex (claimed_key binding) (py_get g ''public_key_hex'') \<and> hb_bound_to_credential bv \<noteq> Some False \<and>
        (\<exists>c. credential = PDict c \<and> pack_signed E c) \<and> gv_issuer_trusted v' \<noteq> Some False)"
    using assms False unfolding grant_binding_def Let_def bv ok tr
    by (auto simp: bv(2) split: option.splits if_splits)
  have t: "gv_issuer_trusted v' = Some True \<longleftrightarrow> (\<exists>ks. ak = Some ks \<and> key_anchored c ks)"
    if "credential = PDict c" "pack_signed E c" for c
    using verify_pack_trusted [of E c ak, unfolded pack_signed_iff, OF that(2)] that(1)
    by (auto simp: v'(1) key_anchored_def split: option.splits)
  show ?thesis
  proof (cases "\<exists>b c. binding = PDict b \<and> binding_signed E b \<and> credential = PDict c \<and> pack_signed E c")
    case True
    then obtain b c where bc: "binding = PDict b" "binding_signed E b" "credential = PDict c" "pack_signed E c" by blast
    then have k: "claimed_key binding = py_get b ''holder_public_key_hex''"
      by (simp add: claimed_key_def binding_signed_def)
    show ?thesis
      using v' fr bo au bc k t [OF bc(3,4)]
      by (cases ak) (auto simp: holder_bound_def)
  next
    case False
    then show ?thesis using v'(2) au by (auto simp: holder_bound_def split: pyval.splits)
  qed
qed

text \<open>No revocation beside the grant is the holder's.\<close>

definition holder_revoked :: "env \<Rightarrow> pydict \<Rightarrow> pyval \<Rightarrow> bool" where
  "holder_revoked E g revocation \<longleftrightarrow>
     (case revocation of PDict r \<Rightarrow>
        py_get r ''format'' = PStr GRANT_REVOCATION_FORMAT \<and> wire_text_equal (py_get r ''grant_id'') (py_get g ''grant_id'') \<and>
        fst (signed_by E GRANT_REVOCATION_FIELDS r (py_get r ''public_key_hex'') (py_get r ''algorithm'')) = Some True \<and>
        same_hex (py_get r ''public_key_hex'') (py_get g ''public_key_hex'')
      | _ \<Rightarrow> False)"

text \<open>The agent holds the key the grant names, and made this proof for this action and nonce in the grant's window.\<close>

definition agent_acts :: "env \<Rightarrow> pydict \<Rightarrow> pyval \<Rightarrow> pyval \<Rightarrow> pyval \<Rightarrow> now_arg \<Rightarrow> bool" where
  "agent_acts E g agent_proof expected_nonce requested_action now \<longleftrightarrow>
     (case agent_proof of PDict pr \<Rightarrow>
        py_get pr ''format'' = PStr AGENT_PROOF_FORMAT \<and> wire_text_equal (py_get pr ''grant_id'') (py_get g ''grant_id'') \<and>
        same_hex (py_get pr ''public_key_hex'') (py_get g ''agent_public_key_hex'') \<and>
        wire_text_equal (py_get pr ''service_nonce'') expected_nonce \<and>
        wire_text_equal (py_get pr ''action'') requested_action \<and>
        (py_get g ''agent_algorithm'' = PNone \<or> py_eq (py_get pr ''algorithm'') (py_get g ''agent_algorithm'')) \<and>
        fst (signed_by E AGENT_PROOF_FIELDS pr (py_get pr ''public_key_hex'')
          (if py_true (py_get g ''agent_algorithm'') then py_get g ''agent_algorithm'' else py_get pr ''algorithm'')) = Some True \<and>
        proof_instants E g pr now = None
      | _ \<Rightarrow> False)"

lemma revocation_note_iff: "revocation_note E g revocation = HolderRevoked \<longleftrightarrow> holder_revoked E g revocation"
  by (auto simp: revocation_note_def holder_revoked_def split: pyval.splits option.splits prod.splits bool.splits)

lemma proof_problem_iff:
  "expected_nonce \<noteq> PNone \<Longrightarrow> requested_action \<noteq> PNone \<Longrightarrow>
    proof_problem E g agent_proof expected_nonce requested_action now = None \<longleftrightarrow>
    agent_acts E g agent_proof expected_nonce requested_action now"
proof (cases agent_proof)
  case (PDict pr)
  assume n: "expected_nonce \<noteq> PNone" "requested_action \<noteq> PNone"
  let ?alg = "if py_true (py_get g ''agent_algorithm'') then py_get g ''agent_algorithm'' else py_get pr ''algorithm''"
  obtain r tried w where s: "signed_by E AGENT_PROOF_FIELDS pr (py_get pr ''public_key_hex'') ?alg = (r, tried, w)"
    by (metis prod_cases3)
  show ?thesis
    using n unfolding proof_problem_def agent_acts_def PDict pyval.case s
    by (cases r; cases "the r") simp_all
qed (simp_all add: proof_problem_def agent_acts_def)

lemma grant_steps [simp]:
  "gv_authentic (grant_context g ctx v) = gv_authentic v" "gv_fresh (grant_context g ctx v) = gv_fresh v"
  "gv_principal_bound (grant_context g ctx v) = gv_principal_bound v" "gv_issuer_trusted (grant_context g ctx v) = gv_issuer_trusted v"
  "gv_action_in_scope (grant_context g ctx v) = gv_action_in_scope v" "gv_revoked (grant_context g ctx v) = gv_revoked v"
  "gv_agent_proved (grant_context g ctx v) = gv_agent_proved v"
  by (simp_all add: grant_context_def Let_def)

lemma grant_scope_fields [simp]:
  "gv_authentic (grant_scope g act v) = gv_authentic v" "gv_fresh (grant_scope g act v) = gv_fresh v"
  "gv_principal_bound (grant_scope g act v) = gv_principal_bound v" "gv_issuer_trusted (grant_scope g act v) = gv_issuer_trusted v"
  "gv_context_matches (grant_scope g act v) = gv_context_matches v"
  "gv_revoked (grant_scope g act v) = gv_revoked v" "gv_agent_proved (grant_scope g act v) = gv_agent_proved v"
  "gv_action_in_scope v = None \<Longrightarrow> gv_action_in_scope (grant_scope g act v) = Some True \<longleftrightarrow> act \<noteq> PNone \<and> in_scope g act"
  by (auto simp: grant_scope_def Let_def)

lemma grant_revocation_fields [simp]:
  "gv_authentic (grant_revocation E g r v) = gv_authentic v" "gv_fresh (grant_revocation E g r v) = gv_fresh v"
  "gv_principal_bound (grant_revocation E g r v) = gv_principal_bound v"
  "gv_issuer_trusted (grant_revocation E g r v) = gv_issuer_trusted v"
  "gv_context_matches (grant_revocation E g r v) = gv_context_matches v"
  "gv_action_in_scope (grant_revocation E g r v) = gv_action_in_scope v"
  "gv_agent_proved (grant_revocation E g r v) = gv_agent_proved v"
  "gv_revoked v = None \<Longrightarrow> gv_revoked (grant_revocation E g r v) = Some True \<longleftrightarrow> holder_revoked E g r"
  by (auto simp: grant_revocation_def Let_def revocation_note_iff) (simp add: holder_revoked_def)

lemma grant_proof_fields [simp]:
  "gv_authentic (grant_proof E g p n a t v) = gv_authentic v" "gv_fresh (grant_proof E g p n a t v) = gv_fresh v"
  "gv_principal_bound (grant_proof E g p n a t v) = gv_principal_bound v"
  "gv_issuer_trusted (grant_proof E g p n a t v) = gv_issuer_trusted v"
  "gv_context_matches (grant_proof E g p n a t v) = gv_context_matches v"
  "gv_action_in_scope (grant_proof E g p n a t v) = gv_action_in_scope v"
  "gv_revoked (grant_proof E g p n a t v) = gv_revoked v"
  by (auto simp: grant_proof_def split: option.splits)

lemma grant_proof_proved:
  "gv_agent_proved v = None \<Longrightarrow> n \<noteq> PNone \<Longrightarrow> a \<noteq> PNone \<Longrightarrow>
     gv_agent_proved (grant_proof E g p n a t v) = Some True \<longleftrightarrow> agent_acts E g p n a t"
  by (auto simp: grant_proof_def proof_problem_iff agent_acts_def [of E g PNone] split: option.splits)
    (auto simp flip: proof_problem_iff)

lemma verify_agent_grant_unsigned:
  assumes "\<not> grant_signed E g"
  shows "\<exists>v. verify_agent_grant E (PDict g) b c now a r p n ak scope ctx so = Some v \<and> \<not> gv_usable v"
proof -
  obtain res tried w where s: "signed_by E AGENT_GRANT_FIELDS g (py_get g ''public_key_hex'') (py_get g ''algorithm'') = (res, tried, w)"
    by (metis prod_cases3)
  show ?thesis
    using assms unfolding grant_signed_def verify_agent_grant_def pyval.case s
    by (cases res; cases "the res") (auto simp: blank_grant_def)
qed

definition grant_start :: "env \<Rightarrow> pydict \<Rightarrow> now_arg \<Rightarrow> pyval \<Rightarrow> (string \<times> bool) list \<Rightarrow> grant_verdict" where
  "grant_start E g now ctx tried =
     grant_context g ctx (blank_grant\<lparr>gv_witnesses := tried, gv_authentic := True, gv_fresh := Some (in_window E g now),
       gv_note := map_option Plain (snd (the (verify_window E g now None)))\<rparr>)"

lemma grant_start_fields:
  "gv_authentic (grant_start E g now ctx tried)" "gv_fresh (grant_start E g now ctx tried) = Some (in_window E g now)"
  "gv_principal_bound (grant_start E g now ctx tried) = None" "gv_issuer_trusted (grant_start E g now ctx tried) = None"
  "gv_action_in_scope (grant_start E g now ctx tried) = None" "gv_revoked (grant_start E g now ctx tried) = None"
  "gv_agent_proved (grant_start E g now ctx tried) = None"
  "gv_context_matches (grant_start E g now ctx tried) \<noteq> Some False \<longleftrightarrow> ctx = PNone \<or> same_id (py_get g ''context_id'') ctx"
  by (simp_all add: grant_start_def blank_grant_def) (simp add: grant_context_def Let_def blank_grant_def)

lemma verify_agent_grant_signed:
  assumes "grant_signed E g"
  obtains tried where "verify_agent_grant E (PDict g) b c now a r p n ak scope ctx so =
    (case grant_binding E g b c now ak scope (grant_start E g now ctx tried) of None \<Rightarrow> None
     | Some v2 \<Rightarrow>
         (case grant_within_limits (PDict g) (PInt 0) PNone of None \<Rightarrow> None
          | Some (ok, why) \<Rightarrow> Some (grant_conclusion so ok why (missing_links b a p n) n
              (grant_proof E g p n a now (grant_revocation E g r (grant_scope g a v2))))))"
proof -
  obtain tried w where s: "signed_by E AGENT_GRANT_FIELDS g (py_get g ''public_key_hex'') (py_get g ''algorithm'') = (Some True, tried, w)"
    using assms by (metis fst_conv grant_signed_def prod_cases3)
  obtain gid where gid: "wire_text (py_get g ''grant_id'') = Some gid" and f: "py_get g ''format'' = PStr AGENT_GRANT_FORMAT"
    using assms by (auto simp: grant_signed_def)
  show ?thesis
    by (rule that [of tried], unfold verify_agent_grant_def grant_start_def Let_def) (simp add: f gid s verify_window_uncapped)
qed

lemma usable_iff:
  "map_option gv_usable (verify_agent_grant E (PDict g) b c now a r p n ak scope ctx so) = Some True \<longleftrightarrow>
     grant_signed E g \<and> in_window E g now \<and> (ctx = PNone \<or> same_id (py_get g ''context_id'') ctx) \<and>
     holder_bound E g b c now \<and> (case ak of None \<Rightarrow> so | Some ks \<Rightarrow> key_anchored (as_dict c) ks) \<and>
     a \<noteq> PNone \<and> in_scope g a \<and> \<not> holder_revoked E g r \<and> n \<noteq> PNone \<and> agent_acts E g p n a now \<and>
     map_option fst (grant_within_limits (PDict g) (PInt 0) PNone) = Some True \<and>
     (scope = PNone \<or> pairwise_handle E (claimed_key b) scope \<noteq> None)" (is "?l \<longleftrightarrow> ?r")
proof (cases "grant_signed E g")
  case False
  then show ?thesis using verify_agent_grant_unsigned [OF False, of b c now a r p n ak scope ctx so] by auto
next
  case True
  obtain tried where eq: "verify_agent_grant E (PDict g) b c now a r p n ak scope ctx so =
    (case grant_binding E g b c now ak scope (grant_start E g now ctx tried) of None \<Rightarrow> None
     | Some v2 \<Rightarrow>
         (case grant_within_limits (PDict g) (PInt 0) PNone of None \<Rightarrow> None
          | Some (ok, why) \<Rightarrow> Some (grant_conclusion so ok why (missing_links b a p n) n
              (grant_proof E g p n a now (grant_revocation E g r (grant_scope g a v2))))))"
    by (rule verify_agent_grant_signed [OF True])
  note st = grant_start_fields [of E g now ctx tried]
  show ?thesis
  proof (cases "grant_binding E g b c now ak scope (grant_start E g now ctx tried)")
    case None
    then show ?thesis using grant_binding_raises [of E g b c now ak scope "grant_start E g now ctx tried"]
      by (auto simp: eq)
  next
    case (Some v2)
    note f = grant_binding_fields [OF Some] and bound = grant_binding_bound [OF Some st(3,4), of so]
    have np: "holder_bound E g b c now \<Longrightarrow> b \<noteq> PNone" by (auto simp: holder_bound_def)
    have raises: "b \<noteq> PNone \<Longrightarrow> scope = PNone \<or> pairwise_handle E (claimed_key b) scope \<noteq> None"
      using Some grant_binding_raises [of E g b c now ak scope "grant_start E g now ctx tried"] by auto
    show ?thesis
    proof (cases "grant_within_limits (PDict g) (PInt 0) PNone")
      case None
      then show ?thesis by (simp add: eq Some)
    next
      case lim: (Some l)
      let ?v = "grant_proof E g p n a now (grant_revocation E g r (grant_scope g a v2))"
      have "?l \<longleftrightarrow> gv_fresh v2 \<noteq> Some False \<and> gv_authentic v2 \<and> gv_principal_bound v2 = Some True \<and>
          (a \<noteq> PNone \<and> in_scope g a) \<and> \<not> holder_revoked E g r \<and> gv_agent_proved ?v = Some True \<and> n \<noteq> PNone \<and>
          gv_context_matches v2 \<noteq> Some False \<and> (gv_issuer_trusted v2 = Some True \<or> so \<and> gv_issuer_trusted v2 = None) \<and> fst l"
        using f st by (cases l) (auto simp: eq Some lim grant_conclusion_def Let_def)
      also have "\<dots> \<longleftrightarrow> ?r"
        using f st bound np raises True lim grant_proof_proved [of "grant_revocation E g r (grant_scope g a v2)" n a E g p now]
        by (cases l) auto
      finally show ?thesis .
    qed
  qed
qed

lemma grant_raises_iff:
  "verify_agent_grant E (PDict g) b c now a r p n ak scope ctx so = None \<longleftrightarrow> grant_signed E g \<and>
     (b \<noteq> PNone \<and> scope \<noteq> PNone \<and> pairwise_handle E (claimed_key b) scope = None \<or>
      grant_within_limits (PDict g) (PInt 0) PNone = None)"
proof (cases "grant_signed E g")
  case False
  then show ?thesis using verify_agent_grant_unsigned [OF False, of b c now a r p n ak scope ctx so] by auto
next
  case True
  obtain tried where eq: "verify_agent_grant E (PDict g) b c now a r p n ak scope ctx so =
    (case grant_binding E g b c now ak scope (grant_start E g now ctx tried) of None \<Rightarrow> None
     | Some v2 \<Rightarrow>
         (case grant_within_limits (PDict g) (PInt 0) PNone of None \<Rightarrow> None
          | Some (ok, why) \<Rightarrow> Some (grant_conclusion so ok why (missing_links b a p n) n
              (grant_proof E g p n a now (grant_revocation E g r (grant_scope g a v2))))))"
    by (rule verify_agent_grant_signed [OF True])
  show ?thesis
    using True grant_binding_raises [of E g b c now ak scope "grant_start E g now ctx tried"]
    by (auto simp: eq split: option.splits prod.splits)
qed

section \<open>Limits and handles\<close>

lemma check_uses_ok:
  assumes "check_uses m u = Some None" "m \<noteq> PNone"
  shows "to_int u < to_int m \<and> float_is_int m \<and> float_is_int u"
  using assms by (auto simp: check_uses_def split: option.splits bool.splits if_splits)

lemma check_amount_ok:
  assumes "check_amount m a = Some None" "m \<noteq> PNone" "a \<noteq> PNone"
  shows "to_float a \<le> to_float m"
  using assms by (auto simp: check_amount_def split: option.splits bool.splits if_splits)

lemma limits_enforced:
  assumes "map_option fst (grant_within_limits (PDict g) uses amount) = Some True" "py_get g ''limits'' = PDict l"
  shows "set (map fst l) \<subseteq> {lit ''max_uses'', lit ''max_amount''} \<and>
    (py_get l ''max_uses'' = PNone \<or> to_int uses < to_int (py_get l ''max_uses'')) \<and>
    (py_get l ''max_amount'' = PNone \<or> amount = PNone \<or> to_float amount \<le> to_float (py_get l ''max_amount''))"
proof -
  have keys: "filter (\<lambda>k. k \<noteq> lit ''max_uses'' \<and> k \<noteq> lit ''max_amount'') (map fst l) = []"
    using assms by (auto simp: grant_within_limits_def Let_def split: if_splits)
  have c: "check_uses (py_get l ''max_uses'') uses = Some None" "check_amount (py_get l ''max_amount'') amount = Some None"
    using assms keys by (auto simp: grant_within_limits_def Let_def split: option.splits bool.splits)
  have "set (map fst l) \<subseteq> {lit ''max_uses'', lit ''max_amount''}"
    using keys unfolding filter_empty_conv by blast
  then show ?thesis using check_uses_ok [OF c(1)] check_amount_ok [OF c(2)] by blast
qed

lemma bitlen_odd_edge: "log2_floor (9007199254740993 :: rat) = 53"
proof -
  have "bitlen (2 ^ 53 + 1) = int (53 + 1)" by (rule bitlen_twopow_add_eq) simp_all
  then have "bitlen 9007199254740993 = 54" by simp
  moreover have "quotient_of (9007199254740993 :: rat) = (9007199254740993, 1)"
    using quotient_of_int [of 9007199254740993] by simp
  moreover have "bitlen 1 = 1" by (simp add: compute_bitlen [of 1])
  ultimately show ?thesis by (simp add: log2_floor_def pow2_def)
qed

text \<open>\<open>2 ^ 53 + 1\<close>, halfway between two doubles, is read as the even one below.\<close>

lemma double_near_edge: "double_near 9007199254740993 = 9007199254740992"
proof -
  have "\<lfloor>9007199254740993 / 2 :: rat\<rfloor> = 4503599627370496" by (simp add: floor_eq_iff)
  then show ?thesis
    by (simp add: double_near_def bitlen_odd_edge pow2_def round_half_even_def Let_def)
qed

lemma bar_free:
  assumes "list_all (\<lambda>c. hex_digit c \<noteq> None) s"
  shows "124 \<notin> set (lower_text E s)"
proof -
  have c: "c < 0x80 \<and> c \<noteq> 124" if "c \<in> set s" for c
  proof -
    have "hex_digit c \<noteq> None" using assms that by (simp add: list_all_iff)
    then obtain n where "hex_digit c = Some n" by blast
    then show ?thesis by (auto simp: hex_digit_def split: if_splits)
  qed
  then have "lower_text E s = py_lower s" by (simp add: lower_text_def ascii_def list_all_iff)
  moreover have "124 \<notin> set (py_lower s)" using c by (auto simp: py_lower_def)
  ultimately show ?thesis by simp
qed

lemma split_at_bar: "a @ 124 # x = b @ 124 # y \<Longrightarrow> 124 \<notin> set a \<Longrightarrow> 124 \<notin> set b \<Longrightarrow> a = b \<and> x = y" for a :: ustr
  by (auto simp: append_eq_append_conv2 append_eq_Cons_conv Cons_eq_append_conv)

lemma handle_names_one:
  assumes "pairwise_handle E (PStr k1) s1 = Some (Some h)" "pairwise_handle E (PStr k2) s2 = Some (Some h)"
    and "list_all (\<lambda>c. hex_digit c \<noteq> None) (strip_ws k1)" "list_all (\<lambda>c. hex_digit c \<noteq> None) (strip_ws k2)"
  shows "lower_text E (strip_ws k1) = lower_text E (strip_ws k2) \<and> strip_ws (py_str E s1) = strip_ws (py_str E s2)
    \<or> sha3_collision E (the (utf8_encode (handle_material E k1 (py_str E s1)))) (the (utf8_encode (handle_material E k2 (py_str E s2))))"
proof (rule disjCI)
  assume no: "\<not> sha3_collision E (the (utf8_encode (handle_material E k1 (py_str E s1))))
    (the (utf8_encode (handle_material E k2 (py_str E s2))))"
  obtain b1 b2 where b: "utf8_encode (handle_material E k1 (py_str E s1)) = Some b1" "hex_of (sha3 E b1) = h"
      "utf8_encode (handle_material E k2 (py_str E s2)) = Some b2" "hex_of (sha3 E b2) = h"
    using assms(1,2) by (auto simp: pairwise_handle_def split: if_splits option.splits)
  then have "b1 = b2" using no by (auto simp: sha3_collision_def hex_of_inject)
  then have "handle_material E k1 (py_str E s1) = handle_material E k2 (py_str E s2)"
    using b(1,3) by (metis utf8_encode_Some_iff option.inject)
  then have m: "lower_text E (strip_ws k1) @ 124 # strip_ws (py_str E s1) = lower_text E (strip_ws k2) @ 124 # strip_ws (py_str E s2)"
    by (simp add: handle_material_def)
  show "lower_text E (strip_ws k1) = lower_text E (strip_ws k2) \<and> strip_ws (py_str E s1) = strip_ws (py_str E s2)"
    by (rule split_at_bar [OF m bar_free [OF assms(3)] bar_free [OF assms(4)]])
qed

section \<open>Properties\<close>

text \<open>A handle was asked for, and computing it raises.\<close>

definition handle_raises :: "env \<Rightarrow> pyval \<Rightarrow> pyval \<Rightarrow> bool" where
  "handle_raises E b scope \<longleftrightarrow> b \<noteq> PNone \<and> scope \<noteq> PNone \<and> pairwise_handle E (claimed_key b) scope = None"

text \<open>
  C9. A grant is usable exactly when every link holds: the holder signed it and now is in its window
  and the context is this service's; the issuer's active binding, genuine and in its own window,
  ties the signing key to a genuine credential it signed too, whose key is among the anchors or
  signatures alone were asked for; the action is in scope; no revocation is the holder's; the agent
  proves the key the grant names, for this action and nonce, in the grant's window; the limits
  are understood; and no handle that cannot be computed is asked for.
\<close>

theorem grant_usable_exactly:
  "map_option gv_usable (verify_agent_grant E (PDict g) b c now a r p n ak scope ctx so) = Some True \<longleftrightarrow>
     grant_signed E g \<and> in_window E g now \<and> (ctx = PNone \<or> same_id (py_get g ''context_id'') ctx) \<and>
     holder_bound E g b c now \<and> (case ak of None \<Rightarrow> so | Some ks \<Rightarrow> key_anchored (as_dict c) ks) \<and>
     a \<noteq> PNone \<and> in_scope g a \<and> \<not> holder_revoked E g r \<and> n \<noteq> PNone \<and> agent_acts E g p n a now \<and>
     map_option fst (grant_within_limits (PDict g) (PInt 0) PNone) = Some True \<and>
     \<not> handle_raises E b scope"
proof -
  have "holder_bound E g b c now \<Longrightarrow> b \<noteq> PNone" by (auto simp: holder_bound_def)
  then show ?thesis
    unfolding usable_iff handle_raises_def by (cases "holder_bound E g b c now") simp_all
qed

text \<open>
  What makes the verifier raise, though it is to be total on hostile input: a signed grant beside
  a binding, signed or not, whose holder key no UTF-8 encodes, when a handle is asked for; or limits
  or a use count past the range of a float. Nothing else does.
\<close>

theorem grant_verifier_raises_exactly:
  "verify_agent_grant E (PDict g) b c now a r p n ak scope ctx so = None \<longleftrightarrow> grant_signed E g \<and>
     (handle_raises E b scope \<or> grant_within_limits (PDict g) (PInt 0) PNone = None)"
  unfolding grant_raises_iff handle_raises_def by (rule refl)

text \<open>
  Limits bind. Where the limits of a grant are met, it carries no limit but the two the verifier
  knows, the uses so far are below the one and the amount at most the other.
\<close>

theorem limits_bind:
  assumes "map_option fst (grant_within_limits (PDict g) uses amount) = Some True" "py_get g ''limits'' = PDict l"
  shows "set (map fst l) \<subseteq> {lit ''max_uses'', lit ''max_amount''} \<and>
    (py_get l ''max_uses'' = PNone \<or> to_int uses < to_int (py_get l ''max_uses'')) \<and>
    (py_get l ''max_amount'' = PNone \<or> amount = PNone \<or> to_float amount \<le> to_float (py_get l ''max_amount''))"
  by (rule limits_enforced [OF assms])

lemma limits_bind_witness:
  "set (map fst [(lit ''max_uses'', PFloat (FNum 3))]) \<subseteq> {lit ''max_uses'', lit ''max_amount''} \<and>
   to_int (PFloat (FNum 2)) < to_int (PFloat (FNum 3))"
  using limits_bind [of "[(lit ''limits'', PDict [(lit ''max_uses'', PFloat (FNum 3))])]" "PFloat (FNum 2)" PNone
      "[(lit ''max_uses'', PFloat (FNum 3))]"]
  by (simp add: grant_within_limits_def finite_num_def present_finite_def check_uses_def check_amount_def float_is_int_def
      to_float_def to_int_def num_value_def)

text \<open>
  A whole number of uses is refused as not whole: \<open>2 ^ 53 + 1\<close> compared with its nearest
  double.
\<close>

theorem whole_use_limit_refused:
  "grant_within_limits (PDict [(lit ''limits'', PDict [(lit ''max_uses'', PInt 9007199254740993)])]) (PInt 0) PNone =
     Some (False, Some UsesNotWhole)"
proof -
  have "(9007199254740993 :: int) < 2 ^ 1024 - 2 ^ 970" by simp
  then have "\<not> float_overflows 9007199254740993" "\<not> float_overflows 0" unfolding float_overflows_def by linarith+
  then show ?thesis
    using double_near_edge
    by (simp add: grant_within_limits_def finite_num_def present_finite_def check_uses_def float_is_int_def
        to_float_def to_int_def)
qed

text \<open>
  A pairwise handle names one holder at one verifier: two handles computed from hex keys are the
  same only for the same key, up to case and outer white space, and the same scope, or the two hashed
  texts are a SHA3-256 collision.
\<close>

theorem handle_names_one_holder:
  assumes "pairwise_handle E (PStr k1) s1 = Some (Some h)" "pairwise_handle E (PStr k2) s2 = Some (Some h)"
    and "list_all (\<lambda>c. hex_digit c \<noteq> None) (strip_ws k1)" "list_all (\<lambda>c. hex_digit c \<noteq> None) (strip_ws k2)"
  shows "lower_text E (strip_ws k1) = lower_text E (strip_ws k2) \<and> strip_ws (py_str E s1) = strip_ws (py_str E s2)
    \<or> sha3_collision E (the (utf8_encode (handle_material E k1 (py_str E s1)))) (the (utf8_encode (handle_material E k2 (py_str E s2))))"
  by (rule handle_names_one [OF assms])

lemma handle_names_one_holder_witness:
  "lower_text trusting_env (strip_ws (lit ''AB'')) = lower_text trusting_env (strip_ws (lit '' ab'')) \<and>
     strip_ws (py_str trusting_env (PStr (lit ''s''))) = strip_ws (py_str trusting_env (PStr (lit ''s'')))
   \<or> sha3_collision trusting_env (the (utf8_encode (handle_material trusting_env (lit ''AB'') (py_str trusting_env (PStr (lit ''s''))))))
     (the (utf8_encode (handle_material trusting_env (lit '' ab'') (py_str trusting_env (PStr (lit ''s''))))))"
proof (rule handle_names_one_holder)
  have strip: "strip_ws (lit ''AB'') = lit ''AB''" "strip_ws (lit '' ab'') = lit ''ab''" "strip_ws (lit ''s'') = lit ''s''"
    by (simp_all add: strip_ws_def lit_def ascii_ws_def)
  then show "list_all (\<lambda>c. hex_digit c \<noteq> None) (strip_ws (lit ''AB''))" "list_all (\<lambda>c. hex_digit c \<noteq> None) (strip_ws (lit '' ab''))"
    by (simp_all add: lit_def hex_digit_def)
  have m: "handle_material trusting_env (lit ''AB'') (lit ''s'') = lit ''polaris-pairwise/1|ab|s''"
    "handle_material trusting_env (lit '' ab'') (lit ''s'') = lit ''polaris-pairwise/1|ab|s''"
    unfolding handle_material_def strip by (simp_all add: lit_def lower_text_def ascii_def py_lower_def)
  have "ascii (lit ''polaris-pairwise/1|ab|s'')" by (simp add: ascii_def lit_def)
  then have u: "utf8_encode (lit ''polaris-pairwise/1|ab|s'') = Some (map byte (lit ''polaris-pairwise/1|ab|s''))"
    by (rule utf8_encode_ascii)
  show "pairwise_handle trusting_env (PStr (lit ''AB'')) (PStr (lit ''s'')) =
      Some (Some (hex_of (toy_hash (map byte (lit ''polaris-pairwise/1|ab|s'')))))"
    "pairwise_handle trusting_env (PStr (lit '' ab'')) (PStr (lit ''s'')) =
      Some (Some (hex_of (toy_hash (map byte (lit ''polaris-pairwise/1|ab|s'')))))"
    by (simp_all add: pairwise_handle_def py_str_def m strip u)
qed

end
