(* ===== verification/Presentations.thy ===== *)
theory Presentations
  imports AgentGrants Exchange
begin

text \<open>
  What a holder shows a verifier, in \<open>polaris_verify_cli/verifier.py\<close>: the offline decision on a presentation
  (\<open>verify_presentation\<close>) with the correlation it permits (\<open>_stable_cross_verifier_material\<close>).
\<close>

section \<open>What two verifiers could match on\<close>

definition PRESENTATION_FORMAT :: ustr where "PRESENTATION_FORMAT = lit ''polaris-presentation/1''"

definition STABLE_CROSS_VERIFIER_FIELDS :: "(string \<times> string) list" where
  "STABLE_CROSS_VERIFIER_FIELDS =
     [(''credential'', ''token_value''), (''credential'', ''token_id''), (''credential'', ''public_key_hex''),
      (''credential'', ''signature_hex''), (''holder_binding'', ''holder_public_key_hex''),
      (''holder_binding'', ''token_value''), (''holder_binding'', ''public_key_hex''), (''holder_binding'', ''signature_hex''),
      (''holder_proof'', ''token_value''), (''holder_proof'', ''public_key_hex''), (''status_assertion'', ''token_value''),
      (''status_assertion'', ''public_key_hex''), (''status_assertion'', ''signature_hex''),
      (''status_assertion'', ''issued_at''), (''status_assertion'', ''expires_at''), (''holder_binding'', ''bound_at'')]"

datatype stable = StableField string string | StableCode

text \<open>\<open>str.strip\<close> leaves nothing of a text of white space; a number is as good as a text, a \<open>bool\<close> is not.\<close>

definition py_space :: "nat \<Rightarrow> bool" where
  "py_space c \<longleftrightarrow> 9 \<le> c \<and> c \<le> 13 \<or> 28 \<le> c \<and> c \<le> 32 \<or> c \<in> {0x85, 0xA0, 0x1680, 0x2028, 0x2029, 0x202F, 0x205F, 0x3000} \<or>
     0x2000 \<le> c \<and> c \<le> 0x200A"

definition shown :: "pyval \<Rightarrow> bool" where
  "shown v = (case v of PStr s \<Rightarrow> \<not> list_all py_space s | PInt _ \<Rightarrow> True | PFloat _ \<Rightarrow> True | _ \<Rightarrow> False)"

definition stable_cross_verifier_material :: "pydict \<Rightarrow> pydict \<Rightarrow> stable option" where
  "stable_cross_verifier_material presentation cred =
     (let source = (\<lambda>name. if name = ''credential'' then cred else as_dict (py_get presentation name))
      in case List.find (\<lambda>(container, name). shown (py_get (source container) name)) STABLE_CROSS_VERIFIER_FIELDS of
           Some (container, name) \<Rightarrow> Some (StableField container name)
         | None \<Rightarrow> if shown (py_get presentation ''presented_code'') then Some StableCode else None)"

section \<open>The verdict\<close>

record status_part =
  sp_present :: bool
  sp_authentic :: "bool option"
  sp_fresh :: "bool option"
  sp_active :: "bool option"
  sp_bound :: "bool option"

record holder_part =
  hl_present :: bool
  hl_binding_authentic :: "bool option"
  hl_bound_to_credential :: "bool option"
  hl_binding_fresh :: "bool option"
  hl_proof_authentic :: "bool option"
  hl_key_matches_binding :: "bool option"
  hl_nonce_matches :: "bool option"
  hl_proved :: "bool option"
  hl_no_nonce :: bool
  hl_binding_key :: pyval

datatype correlation = Bounded | Exposed

datatype refusal_why =
    PrNotAuthentic | PrIssuerNotTrusted | PrNoAnchor | PrNoAssertion | PrStatusNot string | PrContextMismatch | PrNoHolderNonce
  | PrHolderNotChained | PrHolderProofRequired

datatype presentation_note = NotAPresentation | NullifierBeside stable | PresentationRefused "refusal_why list"

record presentation_verdict =
  pr_authentic :: bool
  pr_trusted :: "bool option"
  pr_token_value :: pyval
  pr_status :: status_part
  pr_holder :: holder_part
  pr_zk_present :: bool
  pr_code_present :: bool
  pr_context_matches :: "bool option"
  pr_handle :: "ustr option"
  pr_correlation :: "correlation option"
  pr_usable :: bool
  pr_note :: "presentation_note option"

definition no_status :: status_part where
  "no_status = \<lparr>sp_present = False, sp_authentic = None, sp_fresh = None, sp_active = None, sp_bound = None\<rparr>"

definition no_holder :: holder_part where
  "no_holder = \<lparr>hl_present = False, hl_binding_authentic = None, hl_bound_to_credential = None, hl_binding_fresh = None,
     hl_proof_authentic = None, hl_key_matches_binding = None, hl_nonce_matches = None, hl_proved = None,
     hl_no_nonce = False, hl_binding_key = PNone\<rparr>"

definition blank_presentation :: presentation_verdict where
  "blank_presentation =
     \<lparr>pr_authentic = False, pr_trusted = None, pr_token_value = PNone, pr_status = no_status, pr_holder = no_holder,
      pr_zk_present = False, pr_code_present = False, pr_context_matches = None, pr_handle = None, pr_correlation = None,
      pr_usable = False, pr_note = None\<rparr>"

text \<open>The stapled assertion.\<close>

definition presented_status ::
    "env \<Rightarrow> pydict \<Rightarrow> pyval \<Rightarrow> now_arg \<Rightarrow> pyval option \<Rightarrow> pyval list option \<Rightarrow> status_part option" where
  "presented_status E cred sa now cap anchor_keys =
     (case sa of
        PDict a \<Rightarrow>
          map_option
            (\<lambda>sv. \<lparr>sp_present = True, sp_authentic = Some (sa_authentic sv), sp_fresh = sa_fresh sv,
               sp_active = Some (sa_status sv = PStr (lit ''ACTIVE'')),
               sp_bound = Some (wire_text_equal (py_get a ''token_value'') (py_get cred ''token_value'') \<and>
                 same_hex (py_get a ''public_key_hex'') (py_get cred ''public_key_hex''))\<rparr>)
            (verify_status_assertion E sa now cap anchor_keys)
      | _ \<Rightarrow> Some no_status)"

text \<open>The holder's key: issuer anchor, binding, holder key, proof.\<close>

definition presented_holder ::
    "env \<Rightarrow> pydict \<Rightarrow> pyval \<Rightarrow> pyval \<Rightarrow> pyval \<Rightarrow> pyval \<Rightarrow> now_arg \<Rightarrow> pyval option \<Rightarrow> pyval list option \<Rightarrow> holder_part option" where
  "presented_holder E cred binding proof expected_nonce expected_context now cap anchor_keys =
     (if \<not> (is_dict binding \<or> is_dict proof) then Some no_holder
      else
        (case verify_holder_binding E binding (PDict cred) now cap anchor_keys of None \<Rightarrow> None
         | Some bv \<Rightarrow>
             let pv = verify_holder_proof E proof (if hb_authentic bv then binding else PNone) expected_nonce expected_context now 300;
                 chained = hb_authentic bv \<and> hb_fresh bv = Some True \<and> hb_bound_to_credential bv \<noteq> Some False \<and>
                   hp_authentic pv \<and> hp_fresh pv = Some True \<and> hp_key_matches_binding pv = Some True \<and>
                   hp_context_matches pv \<noteq> Some False
             in Some \<lparr>hl_present = True, hl_binding_authentic = Some (hb_authentic bv),
                  hl_bound_to_credential = hb_bound_to_credential bv, hl_binding_fresh = hb_fresh bv,
                  hl_proof_authentic = Some (hp_authentic pv), hl_key_matches_binding = hp_key_matches_binding pv,
                  hl_nonce_matches = hp_nonce_matches pv, hl_proved = Some (chained \<and> hp_nonce_matches pv = Some True),
                  hl_no_nonce = (chained \<and> hp_nonce_matches pv = None),
                  hl_binding_key = (if hb_authentic bv then hb_holder_key bv else PNone)\<rparr>))"

text \<open>
  The nullifier of a zero-knowledge proof: \<open>(zk_pi or {}).get(..)\<close> raises where the public inputs are
  neither an object nor false. The outer option is what raises.
\<close>

definition zk_nullifier :: "env \<Rightarrow> pyval \<Rightarrow> ustr option option" where
  "zk_nullifier E zk_proof =
     (let zk_pi = py_get (as_dict zk_proof) ''public_inputs''
      in if py_true zk_pi \<and> \<not> is_dict zk_pi then None
         else
           let x = py_get (as_dict zk_pi) ''nullifier_hex''; t = lower_text E (if py_true x then py_str E x else [])
           in Some (if t = [] then None else Some t))"

text \<open>What to key records by, the correlation permitted, and what was shown beside a nullifier.\<close>

definition presented_handle ::
    "env \<Rightarrow> pydict \<Rightarrow> pydict \<Rightarrow> holder_part \<Rightarrow> pyval \<Rightarrow> (ustr option \<times> correlation option \<times> stable option) option" where
  "presented_handle E presentation cred H verifier_scope =
     (if verifier_scope = PNone then Some (None, None, None)
      else
        (case zk_nullifier E (py_get presentation ''zk_proof'') of None \<Rightarrow> None
         | Some (Some nullifier) \<Rightarrow>
             (case stable_cross_verifier_material presentation cred of
                None \<Rightarrow> Some (Some nullifier, Some Bounded, None)
              | Some st \<Rightarrow> Some (Some nullifier, Some Exposed, Some st))
         | Some None \<Rightarrow>
             let key = (if hl_present H then hl_binding_key H else PNone)
             in map_option (\<lambda>h. (h, Some Exposed, None))
                  (pairwise_handle E (if py_true key then key else py_get cred ''token_value'') verifier_scope)))"

definition presentation_refusals ::
    "pyval list option \<Rightarrow> bool \<Rightarrow> bool \<Rightarrow> presentation_verdict \<Rightarrow> refusal_why list" where
  "presentation_refusals anchor_keys trusted require_holder_proof v =
     (let S = pr_status v; H = pr_holder v in
      (if pr_authentic v then [] else [PrNotAuthentic]) @
      (if pr_trusted v = Some False then [PrIssuerNotTrusted] else if \<not> trusted \<and> anchor_keys = None then [PrNoAnchor] else []) @
      (if \<not> sp_present S then [PrNoAssertion]
       else (if sp_authentic S = Some True then [] else [PrStatusNot ''authentic'']) @
            (if sp_fresh S = Some True then [] else [PrStatusNot ''fresh'']) @
            (if sp_active S = Some True then [] else [PrStatusNot ''active'']) @
            (if sp_bound S = Some True then [] else [PrStatusNot ''bound''])) @
      (if pr_context_matches v = Some False then [PrContextMismatch] else []) @
      (if hl_present H \<and> hl_proved H \<noteq> Some True then [if hl_no_nonce H then PrNoHolderNonce else PrHolderNotChained]
       else if require_holder_proof \<and> \<not> hl_present H then [PrHolderProofRequired] else []))"

definition conclude_presentation ::
    "pyval list option \<Rightarrow> bool \<Rightarrow> bool \<Rightarrow> presentation_verdict \<Rightarrow> presentation_verdict" where
  "conclude_presentation anchor_keys require_holder_proof signature_only v =
     (let trusted = pr_trusted v = Some True \<or> signature_only \<and> pr_trusted v = None; S = pr_status v; H = pr_holder v;
          usable = pr_authentic v \<and> trusted \<and> sp_present S \<and> sp_authentic S = Some True \<and> sp_fresh S = Some True \<and>
            sp_active S = Some True \<and> sp_bound S = Some True \<and> pr_context_matches v \<noteq> Some False \<and>
            (hl_present H \<longrightarrow> hl_proved H = Some True) \<and> (require_holder_proof \<longrightarrow> hl_proved H = Some True)
      in v\<lparr>pr_usable := usable,
           pr_note := (if usable then pr_note v
             else Some (PresentationRefused (presentation_refusals anchor_keys trusted require_holder_proof v)))\<rparr>)"

definition verify_presentation ::
    "env \<Rightarrow> pyval \<Rightarrow> pyval list option \<Rightarrow> now_arg \<Rightarrow> pyval option \<Rightarrow> pyval \<Rightarrow> pyval \<Rightarrow> bool \<Rightarrow> pyval \<Rightarrow> bool \<Rightarrow>
      presentation_verdict option" where
  "verify_presentation E presentation0 anchor_keys now cap expected_context expected_nonce require_holder_proof verifier_scope
      signature_only =
     (let p = as_dict presentation0 in
      if py_get p ''format'' \<noteq> PStr PRESENTATION_FORMAT then Some (blank_presentation\<lparr>pr_note := Some NotAPresentation\<rparr>)
      else
        let cred = as_dict (py_get p ''credential''); pv = verify_pack E (PDict cred) anchor_keys
        in (case (presented_status E cred (py_get p ''status_assertion'') now cap anchor_keys,
                  presented_holder E cred (py_get p ''holder_binding'') (py_get p ''holder_proof'') expected_nonce expected_context
                    now cap anchor_keys) of
              (Some S, Some H) \<Rightarrow>
                (case presented_handle E p cred H verifier_scope of None \<Rightarrow> None
                 | Some (handle, corr, beside) \<Rightarrow>
                     Some (conclude_presentation anchor_keys require_holder_proof signature_only
                       (blank_presentation\<lparr>pr_authentic := pv_valid pv, pr_trusted := pv_trusted pv,
                          pr_token_value := py_get cred ''token_value'', pr_status := S, pr_holder := H,
                          pr_zk_present := is_dict (py_get p ''zk_proof''),
                          pr_code_present := (py_get p ''presented_code'' \<noteq> PNone),
                          pr_context_matches := (if expected_context = PNone then None
                            else Some (same_id (py_get p ''context_id'') expected_context)),
                          pr_handle := handle, pr_correlation := corr, pr_note := map_option NullifierBeside beside\<rparr>)))
            | _ \<Rightarrow> None))"

section \<open>What the decision establishes\<close>

definition good_status :: "status_part \<Rightarrow> bool" where
  "good_status S \<longleftrightarrow> sp_present S \<and> sp_authentic S = Some True \<and> sp_fresh S = Some True \<and> sp_active S = Some True \<and>
     sp_bound S = Some True"

text \<open>An assertion for this credential, by its issuer, current and ACTIVE.\<close>

definition active_assertion :: "env \<Rightarrow> pydict \<Rightarrow> pyval \<Rightarrow> now_arg \<Rightarrow> pyval option \<Rightarrow> bool" where
  "active_assertion E cred sa now cap \<longleftrightarrow>
     (\<exists>a. sa = PDict a \<and> assertion_signed E a \<and> fresh_now E a now cap \<and> py_get a ''status'' = PStr (lit ''ACTIVE'') \<and>
        wire_text_equal (py_get a ''token_value'') (py_get cred ''token_value'') \<and>
        same_hex (py_get a ''public_key_hex'') (py_get cred ''public_key_hex''))"

lemma presented_status_good:
  "(\<exists>S. presented_status E cred sa now cap ak = Some S \<and> good_status S) \<longleftrightarrow> active_assertion E cred sa now cap"
proof (cases sa)
  case (PDict a)
  show ?thesis
  proof (cases "assertion_signed E a")
    case True
    note sgd = verify_status_assertion_signed [OF True, of now cap ak]
    show ?thesis
    proof (cases "sa_window E a now cap ak (authentic_blank E a ak)")
      case None
      then have "verify_window_inline E a now cap = None" by (auto simp: sa_window_def Let_def split: option.splits)
      with None show ?thesis
        by (simp add: PDict presented_status_def sgd active_assertion_def fresh_now_def)
    next
      case (Some v)
      note f = sa_window_fields [OF Some authentic_blank_simps(3) [OF True], unfolded authentic_blank_simps(1,2) [OF True]]
      obtain why where w: "verify_window_inline E a now cap = Some (sa_fresh v = Some True, why)" using f(3) by blast
      have "sa_fresh v = Some True \<longleftrightarrow> fresh_now E a now cap"
        using w verify_window_inline_fresh_iff [of E a now cap why] by (auto simp: fresh_now_def)
      then show ?thesis
        using Some f(1,2) True authentic_blank_simps(1) [OF True] by (simp add: PDict presented_status_def sgd active_assertion_def good_status_def)
    qed
  next
    case False
    obtain v where "verify_status_assertion E (PDict a) now cap ak = Some v" "\<not> sa_authentic v"
      using verify_status_assertion_unsigned [OF False] by blast
    then show ?thesis using False by (simp add: PDict presented_status_def active_assertion_def good_status_def)
  qed
qed (simp_all add: presented_status_def active_assertion_def good_status_def no_status_def)

text \<open>The chain from the issuer to the holder's key to a proof over this verifier's nonce.\<close>

definition proof_made ::
    "env \<Rightarrow> pydict \<Rightarrow> pydict \<Rightarrow> pyval \<Rightarrow> pyval \<Rightarrow> now_arg \<Rightarrow> bool" where
  "proof_made E b pr expected_nonce expected_context now \<longleftrightarrow>
     py_get pr ''format'' = PStr HOLDER_PROOF_FORMAT \<and> signed_statement E HOLDER_PROOF_FIELDS pr \<and>
     (\<exists>issued ref. instant_at pr ''issued_at'' = Some issued \<and> instant (clock E) now = Some ref \<and> proof_fresh issued ref 300) \<and>
     same_hex (py_get pr ''public_key_hex'') (py_get b ''holder_public_key_hex'') \<and>
     wire_text_equal (py_get pr ''token_value'') (py_get b ''token_value'') \<and> status_of b = PStr (lit ''active'') \<and>
     wire_text_equal (py_get pr ''verifier_nonce'') expected_nonce \<and>
     (expected_context = PNone \<or> same_id (py_get pr ''context_id'') expected_context)"

definition holder_proves ::
    "env \<Rightarrow> pydict \<Rightarrow> pyval \<Rightarrow> pyval \<Rightarrow> pyval \<Rightarrow> pyval \<Rightarrow> now_arg \<Rightarrow> pyval option \<Rightarrow> bool" where
  "holder_proves E cred binding proof expected_nonce expected_context now cap \<longleftrightarrow>
     (\<exists>b pr. binding = PDict b \<and> proof = PDict pr \<and> binding_signed E b \<and> map_option fst (verify_window E b now cap) = Some True \<and>
        wire_text_equal (py_get b ''token_value'') (py_get cred ''token_value'') \<and>
        same_hex (py_get b ''public_key_hex'') (py_get cred ''public_key_hex'') \<and>
        proof_made E b pr expected_nonce expected_context now)"

lemma wire_text_PNone: "\<not> wire_text_equal x PNone"
proof -
  have "wire_text PNone = None" by (simp add: wire_text_def)
  then show ?thesis by (auto simp: wire_text_equal_def)
qed

lemma proof_accepted:
  "(let pv = verify_holder_proof E (PDict pr) (PDict b) expected_nonce expected_context now 300
    in hp_authentic pv \<and> hp_fresh pv = Some True \<and> hp_key_matches_binding pv = Some True \<and> hp_context_matches pv \<noteq> Some False \<and>
       hp_nonce_matches pv = Some True) \<longleftrightarrow>
   proof_made E b pr expected_nonce expected_context now"
proof (cases "py_get pr ''format'' = PStr HOLDER_PROOF_FORMAT \<and> signed_statement E HOLDER_PROOF_FIELDS pr")
  case True
  then have s: "signed_statement E HOLDER_PROOF_FIELDS pr" by blast
  obtain sg pk tried n where e: "\<not> placeholder_envelope pr" "envelope_bytes pr = Some (sg, pk)"
    "two_witness_verify E (canonical_digest E HOLDER_PROOF_FIELDS pr) sg pk (py_get pr ''algorithm'') = (Some True, tried, n)"
    by (rule signed_statementE [OF s])
  have "verify_holder_proof E (PDict pr) (PDict b) expected_nonce expected_context now 300 =
      check_proof E pr (PDict b) expected_nonce expected_context now 300 (blank_proof\<lparr>hp_witnesses := tried, hp_authentic := True\<rparr>)"
    using True e by (simp add: verify_holder_proof_def)
  then show ?thesis
    using True wire_text_PNone
    by (auto simp: proof_made_def check_proof_def Let_def blank_proof_def split: option.splits)
next
  case False
  then have "\<not> hp_authentic (verify_holder_proof E (PDict pr) (PDict b) expected_nonce expected_context now 300)"
    by (auto simp: verify_holder_proof_def Let_def blank_proof_def dest: two_witness_TrueD
        split: option.splits prod.splits bool.splits)
  then show ?thesis using False by (auto simp: proof_made_def Let_def)
qed

lemma binding_accepted:
  "(\<exists>bv. verify_holder_binding E (PDict b) (PDict cred) now cap ak = Some bv \<and> hb_authentic bv \<and> hb_fresh bv = Some True \<and>
      hb_bound_to_credential bv \<noteq> Some False) \<longleftrightarrow>
   binding_signed E b \<and> map_option fst (verify_window E b now cap) = Some True \<and>
   wire_text_equal (py_get b ''token_value'') (py_get cred ''token_value'') \<and>
   same_hex (py_get b ''public_key_hex'') (py_get cred ''public_key_hex'')"
proof (cases "binding_signed E b")
  case True
  then have s: "signed_statement E HOLDER_BINDING_FIELDS b" by (simp add: binding_signed_def)
  obtain sg pk tried n where e: "\<not> placeholder_envelope b" "envelope_bytes b = Some (sg, pk)"
    "two_witness_verify E (canonical_digest E HOLDER_BINDING_FIELDS b) sg pk (py_get b ''algorithm'') = (Some True, tried, n)"
    by (rule signed_statementE [OF s])
  then show ?thesis
    using True by (auto simp: verify_holder_binding_def Let_def binding_signed_def split: option.split)
next
  case False
  then show ?thesis
    by (auto simp: verify_holder_binding_def Let_def binding_signed_def blank_binding_def dest: two_witness_TrueD
        split: option.splits prod.splits bool.splits)
qed

lemma presented_holder_proved:
  "(\<exists>H. presented_holder E cred binding proof nonce ctx now cap ak = Some H \<and> hl_proved H = Some True) \<longleftrightarrow>
     holder_proves E cred binding proof nonce ctx now cap"
proof (cases "\<exists>b pr. binding = PDict b \<and> proof = PDict pr")
  case True
  then obtain b pr where bp: "binding = PDict b" "proof = PDict pr" by blast
  note bi = binding_accepted [of E b cred now cap ak] and pf = proof_accepted [of E pr b nonce ctx now]
  show ?thesis
  proof (cases "verify_holder_binding E (PDict b) (PDict cred) now cap ak")
    case None
    then have "\<not> holder_proves E cred binding proof nonce ctx now cap" using bi by (auto simp: holder_proves_def bp)
    then show ?thesis using None by (auto simp: presented_holder_def bp is_dict_def)
  next
    case (Some bv)
    show ?thesis
    proof (cases "hb_authentic bv \<and> hb_fresh bv = Some True \<and> hb_bound_to_credential bv \<noteq> Some False")
      case True
      then show ?thesis
        using Some bi pf by (auto simp: presented_holder_def holder_proves_def bp is_dict_def Let_def)
    next
      case False
      then have "\<not> holder_proves E cred binding proof nonce ctx now cap" using bi Some by (auto simp: holder_proves_def bp)
      then show ?thesis using Some False by (auto simp: presented_holder_def bp is_dict_def Let_def)
    qed
  qed
next
  case False
  have "\<not> hp_authentic (verify_holder_proof E proof x nonce ctx now 300)" if "\<forall>pr. proof \<noteq> PDict pr" for x
    using that by (cases "proof") (simp_all add: verify_holder_proof_def blank_proof_def)
  moreover have "\<not> hb_authentic bv"
    if "\<forall>b. binding \<noteq> PDict b" "verify_holder_binding E binding (PDict cred) now cap ak = Some bv" for bv
    using that by (cases binding) (auto simp: verify_holder_binding_def blank_binding_def)
  ultimately have "hl_proved H \<noteq> Some True" if "presented_holder E cred binding proof nonce ctx now cap ak = Some H" for H
    using that False by (auto simp: presented_holder_def Let_def no_holder_def split: option.splits if_splits)
  then show ?thesis using False by (auto simp: holder_proves_def)
qed

definition holder_requirement ::
    "env \<Rightarrow> pydict \<Rightarrow> pydict \<Rightarrow> pyval \<Rightarrow> pyval \<Rightarrow> bool \<Rightarrow> now_arg \<Rightarrow> pyval option \<Rightarrow> bool" where
  "holder_requirement E p cred nonce ctx required now cap \<longleftrightarrow>
     (if is_dict (py_get p ''holder_binding'') \<or> is_dict (py_get p ''holder_proof'') then
        holder_proves E cred (py_get p ''holder_binding'') (py_get p ''holder_proof'') nonce ctx now cap
      else \<not> required)"

text \<open>The handle asked for can be derived: what is left of the verifier that can raise.\<close>

definition handle_returns ::
    "env \<Rightarrow> pydict \<Rightarrow> pydict \<Rightarrow> pyval \<Rightarrow> pyval \<Rightarrow> pyval \<Rightarrow> now_arg \<Rightarrow> pyval option \<Rightarrow> pyval list option \<Rightarrow> bool" where
  "handle_returns E p cred scope nonce ctx now cap ak \<longleftrightarrow>
     (case presented_holder E cred (py_get p ''holder_binding'') (py_get p ''holder_proof'') nonce ctx now cap ak of
        None \<Rightarrow> False
      | Some H \<Rightarrow> presented_handle E p cred H scope \<noteq> None)"

lemma conclude_usable:
  "pr_usable (conclude_presentation ak required so v) \<longleftrightarrow>
     pr_authentic v \<and> (pr_trusted v = Some True \<or> so \<and> pr_trusted v = None) \<and> good_status (pr_status v) \<and>
     pr_context_matches v \<noteq> Some False \<and> (hl_present (pr_holder v) \<longrightarrow> hl_proved (pr_holder v) = Some True) \<and>
     (required \<longrightarrow> hl_proved (pr_holder v) = Some True)"
  unfolding conclude_presentation_def Let_def good_status_def by simp

lemma presentation_usable:
  "map_option pr_usable (verify_presentation E (PDict p) ak now cap ctx nonce required scope so) = Some True \<longleftrightarrow>
     (let cred = as_dict (py_get p ''credential'') in
      py_get p ''format'' = PStr PRESENTATION_FORMAT \<and> pack_signed E cred \<and>
      (case ak of None \<Rightarrow> so | Some ks \<Rightarrow> key_anchored cred ks) \<and>
      active_assertion E cred (py_get p ''status_assertion'') now cap \<and>
      (ctx = PNone \<or> same_id (py_get p ''context_id'') ctx) \<and>
      holder_requirement E p cred nonce ctx required now cap \<and> handle_returns E p cred scope nonce ctx now cap ak)"
proof -
  let ?cred = "as_dict (py_get p ''credential'')"
  let ?S = "presented_status E ?cred (py_get p ''status_assertion'') now cap ak"
  let ?H = "presented_holder E ?cred (py_get p ''holder_binding'') (py_get p ''holder_proof'') nonce ctx now cap ak"
  let ?pv = "verify_pack E (PDict ?cred) ak"
  have tr: "pv_trusted ?pv = Some True \<or> so \<and> pv_trusted ?pv = None \<longleftrightarrow> (case ak of None \<Rightarrow> so | Some ks \<Rightarrow> key_anchored ?cred ks)"
    if "pack_signed E ?cred"
    using verify_pack_trusted [of E ?cred ak, unfolded pack_signed_iff, OF that] by (auto simp: key_anchored_def split: option.splits)
  have ho: "(hl_present H \<longrightarrow> hl_proved H = Some True) \<and> (required \<longrightarrow> hl_proved H = Some True) \<longleftrightarrow>
      holder_requirement E p ?cred nonce ctx required now cap" if "?H = Some H" for H
  proof -
    have "hl_present H \<longleftrightarrow> is_dict (py_get p ''holder_binding'') \<or> is_dict (py_get p ''holder_proof'')"
      "\<not> hl_present H \<longrightarrow> hl_proved H = None"
      using that by (auto simp: presented_holder_def Let_def no_holder_def split: if_splits option.splits)
    moreover have "hl_proved H = Some True \<longleftrightarrow>
        holder_proves E ?cred (py_get p ''holder_binding'') (py_get p ''holder_proof'') nonce ctx now cap"
      using presented_holder_proved [of E ?cred "py_get p ''holder_binding''" "py_get p ''holder_proof''" nonce ctx now cap ak] that
      by simp
    ultimately show ?thesis by (auto simp: holder_requirement_def)
  qed
  show ?thesis
  proof (cases "?S = None \<or> ?H = None")
    case True
    then have "\<not> active_assertion E ?cred (py_get p ''status_assertion'') now cap \<or> ?H = None"
      using presented_status_good [of E ?cred "py_get p ''status_assertion''" now cap ak] by auto
    moreover have "\<not> handle_returns E p ?cred scope nonce ctx now cap ak" if "?H = None"
      using that by (simp add: handle_returns_def)
    moreover have "map_option pr_usable (verify_presentation E (PDict p) ak now cap ctx nonce required scope so) \<noteq> Some True"
      using True by (auto simp only: verify_presentation_def Let_def as_dict_PDict option.case prod.case split: option.split)
        (auto simp: blank_presentation_def split: if_splits)
    ultimately show ?thesis unfolding Let_def by blast
  next
    case False
    then obtain S H where sh: "?S = Some S" "?H = Some H" by auto
    have g: "good_status S \<longleftrightarrow> active_assertion E ?cred (py_get p ''status_assertion'') now cap"
      using presented_status_good [of E ?cred "py_get p ''status_assertion''" now cap ak] sh by simp
    show ?thesis
    proof (cases "presented_handle E p ?cred H scope")
      case None
      then show ?thesis
        using sh by (auto simp: verify_presentation_def Let_def blank_presentation_def handle_returns_def)
    next
      case (Some h)
      obtain handle corr beside where h: "h = (handle, corr, beside)" by (cases h)
      have u: "map_option pr_usable (verify_presentation E (PDict p) ak now cap ctx nonce required scope so) = Some True \<longleftrightarrow>
          py_get p ''format'' = PStr PRESENTATION_FORMAT \<and> pv_valid ?pv \<and>
          (pv_trusted ?pv = Some True \<or> so \<and> pv_trusted ?pv = None) \<and> good_status S \<and>
          (ctx = PNone \<or> same_id (py_get p ''context_id'') ctx) \<and>
          (hl_present H \<longrightarrow> hl_proved H = Some True) \<and> (required \<longrightarrow> hl_proved H = Some True)"
        using sh Some h
        by (simp add: verify_presentation_def Let_def conclude_usable) (simp add: blank_presentation_def)
      have hr: "handle_returns E p ?cred scope nonce ctx now cap ak" using sh Some by (simp add: handle_returns_def)
      show ?thesis
        unfolding u Let_def pack_signed_iff g ho [OF sh(2)] using tr hr by (simp cong: conj_cong)
    qed
  qed
qed

section \<open>Correlation\<close>

text \<open>
  The instants a binding is issued and expires at are as stable as the one it was made at, which the list
  names, but a presentation that shows them beside a nullifier is called bounded.
\<close>

lemma binding_instants_pass:
  "stable_cross_verifier_material
     [(lit ''holder_binding'', PDict [(lit ''issued_at'', x), (lit ''expires_at'', y)]), (lit ''zk_proof'', zk)] [] = None"
  by (simp add: stable_cross_verifier_material_def STABLE_CROSS_VERIFIER_FIELDS_def Let_def lit_eq_iff shown_def as_dict_def)

text \<open>Public inputs that are a number, a text or a list make a verifier with a scope raise.\<close>

lemma public_inputs_raise:
  assumes "py_get p ''format'' = PStr PRESENTATION_FORMAT" "scope \<noteq> PNone" "py_get p ''zk_proof'' = PDict zk"
    "py_true (py_get zk ''public_inputs'')" "\<not> is_dict (py_get zk ''public_inputs'')"
  shows "verify_presentation E (PDict p) ak now cap ctx nonce required scope so = None"
  using assms by (simp add: verify_presentation_def Let_def presented_handle_def zk_nullifier_def split: option.split)

lemma code_opaque:
  assumes same: "\<And>k. k \<noteq> ''presented_code'' \<Longrightarrow> py_get p k = py_get q k"
    and code: "py_get p ''presented_code'' \<noteq> PNone" "py_get q ''presented_code'' \<noteq> PNone"
      "shown (py_get p ''presented_code'') = shown (py_get q ''presented_code'')"
  shows "verify_presentation E (PDict p) ak now cap ctx nonce required scope so =
    verify_presentation E (PDict q) ak now cap ctx nonce required scope so"
proof -
  have f: "py_get p ''format'' = py_get q ''format''" "py_get p ''credential'' = py_get q ''credential''"
    "py_get p ''status_assertion'' = py_get q ''status_assertion''" "py_get p ''holder_binding'' = py_get q ''holder_binding''"
    "py_get p ''holder_proof'' = py_get q ''holder_proof''" "py_get p ''zk_proof'' = py_get q ''zk_proof''"
    "py_get p ''context_id'' = py_get q ''context_id''"
    by (rule same; simp)+
  have s: "List.find (\<lambda>(container, name). shown (py_get (if container = ''credential'' then cred else as_dict (py_get p container)) name))
      STABLE_CROSS_VERIFIER_FIELDS =
    List.find (\<lambda>(container, name). shown (py_get (if container = ''credential'' then cred else as_dict (py_get q container)) name))
      STABLE_CROSS_VERIFIER_FIELDS" for cred
    by (rule find_cong) (auto simp: STABLE_CROSS_VERIFIER_FIELDS_def f)
  have m: "stable_cross_verifier_material p = stable_cross_verifier_material q"
    unfolding stable_cross_verifier_material_def fun_eq_iff Let_def code(3) s by simp
  have h: "presented_handle E p = presented_handle E q"
    unfolding fun_eq_iff presented_handle_def f m by simp
  have c: "(py_get p ''presented_code'' \<noteq> PNone) = True" "(py_get q ''presented_code'' \<noteq> PNone) = True"
    using code by simp_all
  show ?thesis
    unfolding verify_presentation_def Let_def as_dict_PDict f h c by (rule refl)
qed

section \<open>Properties\<close>

text \<open>
  C19. A presentation is usable offline exactly when the credential is genuine and its key anchored (or the
  caller asked for signatures alone and gave no anchors), the stapled assertion is its issuer's, for this
  credential, current and ACTIVE, the context is the one expected, and, where a holder proof is shown or
  required, the issuer bound the holder's key to this credential and that key signed this verifier's nonce
  in time (the handle asked for being derivable, where the verifier otherwise raises).
\<close>

theorem presentation_usable_exactly:
  "map_option pr_usable (verify_presentation E (PDict p) ak now cap ctx nonce required scope so) = Some True \<longleftrightarrow>
     (let cred = as_dict (py_get p ''credential'') in
      py_get p ''format'' = PStr PRESENTATION_FORMAT \<and> pack_signed E cred \<and>
      (case ak of None \<Rightarrow> so | Some ks \<Rightarrow> key_anchored cred ks) \<and>
      active_assertion E cred (py_get p ''status_assertion'') now cap \<and>
      (ctx = PNone \<or> same_id (py_get p ''context_id'') ctx) \<and>
      holder_requirement E p cred nonce ctx required now cap \<and> handle_returns E p cred scope nonce ctx now cap ak)"
  by (rule presentation_usable)

text \<open>
  The presented code is never interpreted: two presentations that differ in nothing but the code, both
  carrying one and neither or both of them blank, get the same verdict in every field, so a duress code
  cannot be told from the other.
\<close>

theorem presented_code_is_opaque:
  assumes "\<And>k. k \<noteq> ''presented_code'' \<Longrightarrow> py_get p k = py_get q k"
    and "py_get p ''presented_code'' \<noteq> PNone" "py_get q ''presented_code'' \<noteq> PNone"
      "shown (py_get p ''presented_code'') = shown (py_get q ''presented_code'')"
  shows "verify_presentation E (PDict p) ak now cap ctx nonce required scope so =
    verify_presentation E (PDict q) ak now cap ctx nonce required scope so"
  by (rule code_opaque [OF assms])

lemma shown_code: "shown (PStr (lit ''1'')) = shown (PStr (lit ''2''))"
  by (simp add: shown_def py_space_def lit_def)

lemma presented_code_is_opaque_witness:
  "verify_presentation no_backend (PDict [(lit ''format'', PStr PRESENTATION_FORMAT), (lit ''presented_code'', PStr (lit ''1''))])
     None NoNow None PNone PNone False PNone False =
   verify_presentation no_backend (PDict [(lit ''format'', PStr PRESENTATION_FORMAT), (lit ''presented_code'', PStr (lit ''2''))])
     None NoNow None PNone PNone False PNone False"
  by (rule presented_code_is_opaque) (simp_all add: lit_eq_iff shown_code)

end
