(* ===== verification/EpochLeaves.thy ===== *)
theory EpochLeaves
  imports AgentGrants Exchange
begin

text \<open>
  The published anonymity set of \<open>polaris_verify_cli/verifier.py\<close>: the leaves an epoch commits to
  (\<open>verify_epoch_leaves\<close>) and the place of a holder's own leaf among them (\<open>member_index\<close>). A holder
  hides in this set, so what is shown is that an authentic bundle is the set its authority signed.
\<close>

section \<open>The bundle\<close>

definition EPOCH_LEAVES_FORMAT :: ustr where "EPOCH_LEAVES_FORMAT = lit ''polaris-epoch-leaves/1''"

definition EPOCH_LEAVES_FIELDS :: "string list" where
  "EPOCH_LEAVES_FIELDS = [''format'', ''authority'', ''epoch_id'', ''context_id'', ''merkle_root'', ''leaf_count'',
     ''leaves_root_hex'', ''issued_at'', ''expires_at'', ''algorithm'']"

text \<open>\<open>_leaves_root\<close>: the hash of the sorted set, one leaf on each line.\<close>

definition leaves_root :: "env \<Rightarrow> pyval list \<Rightarrow> ustr option" where
  "leaves_root E leaves =
     (let uniq = sort (remdups (leaf_texts E leaves)) in map_option (\<lambda>bs. hex_of (sha3 E bs)) (utf8_encode (join_lines uniq)))"

datatype leaves_note =
    LeavesNote vnote | LeavesCommitmentMismatch | LeafCountMismatch | CheckpointDoesNotVerify "vnote option"
  | CheckpointOfStranger | OtherEpochRoot

record leaves_verdict =
  lf_authentic :: bool
  lf_fresh :: "bool option"
  lf_trusted :: "bool option"
  lf_commitment_matches :: "bool option"
  lf_count_matches :: "bool option"
  lf_epoch_matches :: "bool option"
  lf_leaf_count :: "nat option"
  lf_witnesses :: "(string \<times> bool) list"
  lf_note :: "leaves_note option"

definition blank_leaves :: leaves_verdict where
  "blank_leaves =
     \<lparr>lf_authentic = False, lf_fresh = None, lf_trusted = None, lf_commitment_matches = None, lf_count_matches = None,
      lf_epoch_matches = None, lf_leaf_count = None, lf_witnesses = [], lf_note = None\<rparr>"

text \<open>The leaves are counted and hashed only once the signature holds.\<close>

definition leaves_commitment :: "env \<Rightarrow> pydict \<Rightarrow> leaves_verdict \<Rightarrow> leaves_verdict" where
  "leaves_commitment E b v =
     (let leaves0 = py_get b ''all_leaves_hex''; leaves = as_list leaves0; count = py_get b ''leaf_count'';
          commits = leaves_are_hex leaves0 \<and> leaves_root E leaves \<noteq> None \<and>
            leaves_root E leaves = hex_text (py_get b ''leaves_root_hex'');
          counted = signed_count count \<and> py_eq (PInt (int (length leaves))) count;
          v1 = v\<lparr>lf_leaf_count := Some (length leaves), lf_commitment_matches := Some commits, lf_count_matches := Some counted\<rparr>
      in if \<not> commits then v1\<lparr>lf_note := Some LeavesCommitmentMismatch\<rparr>
         else if \<not> counted then v1\<lparr>lf_note := Some LeafCountMismatch\<rparr>
         else v1\<lparr>lf_authentic := True\<rparr>)"

text \<open>
  The checkpoint is compared once it verifies, under the key of the bundle or one the caller trusts; the
  outer option is what raises.
\<close>

definition against_checkpoint :: "env \<Rightarrow> pydict \<Rightarrow> pyval list option \<Rightarrow> pyval \<Rightarrow> leaves_verdict \<Rightarrow> leaves_verdict option" where
  "against_checkpoint E b anchor_keys checkpoint v =
     (case checkpoint of PDict cp \<Rightarrow>
        map_option
          (\<lambda>cv. if \<not> ec_authentic cv then v\<lparr>lf_note := Some (CheckpointDoesNotVerify (ec_note cv))\<rparr>
             else if \<not> hex_in (py_get cp ''public_key_hex'')
               (hex_text (py_get b ''public_key_hex'') # (case anchor_keys of None \<Rightarrow> [] | Some ks \<Rightarrow> map hex_text ks))
             then v\<lparr>lf_note := Some CheckpointOfStranger\<rparr>
             else
               let same = same_hex (py_get b ''merkle_root'') (py_get (as_dict (py_get cp ''epoch'')) ''root_hex'')
               in v\<lparr>lf_epoch_matches := Some same, lf_note := (if same then lf_note v else Some OtherEpochRoot)\<rparr>)
          (verify_epoch_checkpoint E checkpoint NoNow None None)
      | _ \<Rightarrow> Some v)"

definition verify_epoch_leaves ::
    "env \<Rightarrow> pyval \<Rightarrow> now_arg \<Rightarrow> pyval option \<Rightarrow> pyval list option \<Rightarrow> pyval \<Rightarrow> leaves_verdict option" where
  "verify_epoch_leaves E bundle now cap anchor_keys checkpoint =
     (let b = as_dict bundle; v = blank_leaves; noted = (\<lambda>w. Some (v\<lparr>lf_note := Some (LeavesNote w)\<rparr>))
      in if py_get b ''format'' \<noteq> PStr EPOCH_LEAVES_FORMAT then noted (NotA EPOCH_LEAVES_FORMAT)
         else if placeholder_envelope b then noted Placeholder
         else
           (case envelope_bytes b of None \<Rightarrow> noted NotHex
            | Some (sg, pk) \<Rightarrow>
                (case two_witness_verify E (canonical_digest E EPOCH_LEAVES_FIELDS b) sg pk (py_get b ''algorithm'') of
                   (None, tried, n) \<Rightarrow> Some (v\<lparr>lf_witnesses := tried, lf_note := map_option LeavesNote n\<rparr>)
                 | (Some False, tried, n) \<Rightarrow>
                     Some (v\<lparr>lf_witnesses := tried, lf_note := map_option LeavesNote (or_note n BadSignature)\<rparr>)
                 | (Some True, tried, n) \<Rightarrow>
                     let v1 = leaves_commitment E b (v\<lparr>lf_witnesses := tried\<rparr>)
                     in if \<not> lf_authentic v1 then Some v1
                        else
                          (case verify_window E b now cap of None \<Rightarrow> None
                           | Some (fresh, why) \<Rightarrow>
                               against_checkpoint E b anchor_keys checkpoint
                                 (v1\<lparr>lf_fresh := Some fresh, lf_note := map_option LeavesNote why,
                                    lf_trusted := map_option (\<lambda>ks. hex_in (py_get b ''public_key_hex'') (map hex_text ks))
                                      anchor_keys\<rparr>)))))"

section \<open>The place of a leaf\<close>

fun index_of :: "ustr \<Rightarrow> nat \<Rightarrow> ustr list \<Rightarrow> nat option" where
  "index_of target i [] = None"
| "index_of target i (x # xs) = (if x = target then Some i else index_of target (Suc i) xs)"

text \<open>\<open>str(leaf_seed_hex or "").lower()\<close> against each leaf read the same way.\<close>

definition member_index :: "env \<Rightarrow> pyval \<Rightarrow> pyval \<Rightarrow> nat option" where
  "member_index E bundle seed =
     (case py_get (as_dict bundle) ''all_leaves_hex'' of
        PList leaves \<Rightarrow> index_of (lower_text E (if py_true seed then py_str E seed else [])) 0 (leaf_texts E leaves)
      | _ \<Rightarrow> None)"

section \<open>What an authentic bundle is\<close>

lemma leaves_root_revoked: "leaves_root E xs = revoked_root E (PList xs)"
  by (simp add: leaves_root_def revoked_root_def)

text \<open>The signature and the commitment of a bundle.\<close>

definition set_committed :: "env \<Rightarrow> pydict \<Rightarrow> bool" where
  "set_committed E b \<longleftrightarrow> leaves_are_hex (py_get b ''all_leaves_hex'') \<and>
     revoked_root E (py_get b ''all_leaves_hex'') = hex_text (py_get b ''leaves_root_hex'') \<and>
     py_get b ''leaf_count'' = PInt (int (length (as_list (py_get b ''all_leaves_hex'')))) \<and>
     signed_count (py_get b ''leaf_count'')"

lemma leaves_commitment_authentic:
  "lf_authentic (leaves_commitment E b v) \<longleftrightarrow> lf_authentic v \<or> set_committed E b"
proof -
  let ?w = "py_get b ''all_leaves_hex''" and ?c = "py_get b ''leaf_count''" and ?h = "hex_text (py_get b ''leaves_root_hex'')"
  define commits counted where "commits \<longleftrightarrow> leaves_are_hex ?w \<and> leaves_root E (as_list ?w) \<noteq> None \<and> leaves_root E (as_list ?w) = ?h"
    and "counted \<longleftrightarrow> signed_count ?c \<and> py_eq (PInt (int (length (as_list ?w)))) ?c"
  have "lf_authentic (leaves_commitment E b v) \<longleftrightarrow> lf_authentic v \<or> commits \<and> counted"
    unfolding leaves_commitment_def Let_def commits_def [symmetric] counted_def [symmetric] by simp
  also have "counted \<longleftrightarrow> signed_count ?c \<and> py_eq (PInt (int (length (as_list ?w)))) ?c" by (rule counted_def)
  also have "signed_count ?c \<and> py_eq (PInt (int (length (as_list ?w)))) ?c \<longleftrightarrow> ?c = PInt (int (length (as_list ?w))) \<and> signed_count ?c"
    by (auto simp: num_value_def dest: signed_countD)
  also have "commits \<longleftrightarrow>
      leaves_are_hex ?w \<and> revoked_root E ?w = ?h"
    using revoked_root_hex [of ?w E] by (auto simp: commits_def leaves_root_revoked leaves_are_hex_def split: pyval.splits)
  finally show ?thesis by (auto simp: set_committed_def)
qed

definition leaves_signed :: "env \<Rightarrow> pydict \<Rightarrow> bool" where
  "leaves_signed E b \<longleftrightarrow> py_get b ''format'' = PStr EPOCH_LEAVES_FORMAT \<and> signed_statement E EPOCH_LEAVES_FIELDS b \<and>
     set_committed E b"

lemma against_checkpoint_authentic:
  "against_checkpoint E b ks cp v = Some w \<Longrightarrow> lf_authentic w = lf_authentic v \<and> lf_fresh w = lf_fresh v \<and> lf_trusted w = lf_trusted v"
  by (auto simp: against_checkpoint_def Let_def split: pyval.splits if_splits)

lemma checkpoint_uncapped: "verify_epoch_checkpoint E cp NoNow None None \<noteq> None"
  by (auto simp: verify_epoch_checkpoint_def Let_def verify_window_uncapped split: option.split prod.split bool.split)

lemma against_checkpoint_total: "against_checkpoint E b ks cp v \<noteq> None"
  using checkpoint_uncapped by (auto simp: against_checkpoint_def split: pyval.split)

lemma leaves_authentic_iff:
  "map_option lf_authentic (verify_epoch_leaves E (PDict b) now None ks cp) = Some (leaves_signed E b)"
proof (cases "signed_statement E EPOCH_LEAVES_FIELDS b")
  case True
  let ?v = "\<lambda>tried. leaves_commitment E b (blank_leaves\<lparr>lf_witnesses := tried\<rparr>)"
  have a: "lf_authentic (?v tried) \<longleftrightarrow> set_committed E b" for tried
    by (simp add: leaves_commitment_authentic blank_leaves_def)
  have g: "map_option lf_authentic (against_checkpoint E b ks cp v) = Some (lf_authentic v)" for v
    using against_checkpoint_total [of E b ks cp v] against_checkpoint_authentic [of E b ks cp v] by auto
  obtain sg pk tried n where e: "\<not> placeholder_envelope b" "envelope_bytes b = Some (sg, pk)"
    "two_witness_verify E (canonical_digest E EPOCH_LEAVES_FIELDS b) sg pk (py_get b ''algorithm'') = (Some True, tried, n)"
    using True by (rule signed_statementE)
  show ?thesis
    by (simp add: verify_epoch_leaves_def Let_def e a g verify_window_uncapped leaves_signed_def True del: map_option_eq_Some)
      (simp add: blank_leaves_def)
next
  case False
  then show ?thesis
    by (auto simp: verify_epoch_leaves_def Let_def leaves_signed_def blank_leaves_def dest: two_witness_TrueD
        split: option.splits prod.splits bool.splits)
qed

lemma index_of_Some: "index_of t i xs = Some j \<Longrightarrow> i \<le> j \<and> j < i + length xs \<and> xs ! (j - i) = t"
  by (induction xs arbitrary: i) (fastforce simp: nth_Cons' split: if_splits)+

lemma index_of_None: "index_of t i xs = None \<longleftrightarrow> t \<notin> set xs"
  by (induction xs arbitrary: i) auto

lemma member_index_listed:
  "(\<exists>i. member_index E (PDict b) seed = Some i) \<longleftrightarrow> (\<exists>xs. py_get b ''all_leaves_hex'' = PList xs) \<and>
     lower_text E (if py_true seed then py_str E seed else []) \<in> set (leaf_texts E (as_list (py_get b ''all_leaves_hex'')))"
  using index_of_None [of _ 0]
  by (auto simp: member_index_def split: pyval.splits simp flip: not_None_eq)

lemma same_commitment_same_set:
  assumes "set_committed E b" "set_committed E c" "same_hex (py_get b ''leaves_root_hex'') (py_get c ''leaves_root_hex'')"
  shows "set (leaf_texts E (as_list (py_get b ''all_leaves_hex''))) = set (leaf_texts E (as_list (py_get c ''all_leaves_hex''))) \<or>
    sha3_collision E (leaves_preimage E (py_get b ''all_leaves_hex'')) (leaves_preimage E (py_get c ''all_leaves_hex''))"
  using assms by (intro revoked_root_binds) (auto simp: set_committed_def same_hex_def)

section \<open>Properties\<close>

text \<open>
  C28. A holder who finds the own leaf in an authentic anonymity set finds it in every other authentic set
  that commits to the same root: nobody can swap the members around the holder without the root changing
  or the two joined sets being a SHA3-256 collision.
\<close>

theorem anonymity_set_is_one:
  assumes "map_option lf_authentic (verify_epoch_leaves E (PDict b) now None ks cp) = Some True"
    and "map_option lf_authentic (verify_epoch_leaves E (PDict c) later None ks' cp') = Some True"
    and "same_hex (py_get b ''leaves_root_hex'') (py_get c ''leaves_root_hex'')"
    and "member_index E (PDict b) seed = Some i"
  shows "(\<exists>j. member_index E (PDict c) seed = Some j) \<or>
    sha3_collision E (leaves_preimage E (py_get b ''all_leaves_hex'')) (leaves_preimage E (py_get c ''all_leaves_hex''))"
proof -
  have s: "set_committed E b" "set_committed E c"
    using assms(1,2) by (auto simp: leaves_authentic_iff leaves_signed_def simp del: map_option_eq_Some)
  moreover have "\<exists>xs. py_get c ''all_leaves_hex'' = PList xs"
    using s(2) by (auto simp: set_committed_def leaves_are_hex_def split: pyval.splits)
  ultimately show ?thesis
    using same_commitment_same_set [OF s assms(3)] assms(4) member_index_listed [of E b seed, THEN iffD1]
    unfolding member_index_listed [of E c] by (metis (no_types))
qed

definition sample_leaf :: pyval where
  "sample_leaf = PStr (hex_of (replicate 32 7))"

definition sample_leaves :: pydict where
  "sample_leaves =
     [(lit ''format'', PStr EPOCH_LEAVES_FORMAT), (lit ''all_leaves_hex'', PList [sample_leaf]), (lit ''leaf_count'', PInt 1),
      (lit ''leaves_root_hex'', PStr (hex_of (sha3 trusting_env (map byte (join_lines (leaf_texts trusting_env [sample_leaf]))))))]
     @ sample_envelope"

lemma sample_leaves_signed: "leaves_signed trusting_env sample_leaves"
proof -
  have f: "py_get sample_leaves ''format'' = PStr EPOCH_LEAVES_FORMAT" "py_get sample_leaves ''all_leaves_hex'' = PList [sample_leaf]"
    "py_get sample_leaves ''leaf_count'' = PInt 1"
    "py_get sample_leaves ''leaves_root_hex'' =
       PStr (hex_of (sha3 trusting_env (map byte (join_lines (leaf_texts trusting_env [sample_leaf])))))"
    by (simp_all add: sample_leaves_def)
  have h: "leaves_are_hex (PList [sample_leaf])"
    using hex_digits_hex_of by (simp add: leaves_are_hex_def hex64_def sample_leaf_def)
  have "toy_hash bs \<noteq> []" for bs by (simp add: toy_hash_def)
  then have t: "hex_text (PStr (hex_of (toy_hash bs))) = Some (hex_of (toy_hash bs))" for bs
    using fromhex_hex_of_lower [OF fromhex_hex_of, of "toy_hash bs"]
    by (simp add: hex_text_def flip: length_greater_0_conv)
  have "signed_statement trusting_env EPOCH_LEAVES_FIELDS sample_leaves"
    by (rule sample_signed [OF sample_leaves_def]) (auto simp: lit_eq_iff EPOCH_LEAVES_FORMAT_def sample_leaf_def nat_digits.simps)
  moreover have "set_committed trusting_env sample_leaves"
    using h revoked_root_hex [OF h, of trusting_env]
    by (simp add: set_committed_def f t signed_count_def MAX_SAFE_INTEGER_def leaf_texts_def)
  ultimately show ?thesis by (simp add: leaves_signed_def f)
qed

lemma anonymity_set_is_one_witness:
  "(\<exists>j. member_index trusting_env (PDict sample_leaves) sample_leaf = Some j) \<or>
   sha3_collision trusting_env (leaves_preimage trusting_env (py_get sample_leaves ''all_leaves_hex''))
     (leaves_preimage trusting_env (py_get sample_leaves ''all_leaves_hex''))"
proof (rule anonymity_set_is_one)
  show "map_option lf_authentic (verify_epoch_leaves trusting_env (PDict sample_leaves) NoNow None None PNone) = Some True"
    "map_option lf_authentic (verify_epoch_leaves trusting_env (PDict sample_leaves) NoNow None None PNone) = Some True"
    unfolding leaves_authentic_iff by (simp_all add: sample_leaves_signed)
  have "leaves_signed trusting_env sample_leaves" by (rule sample_leaves_signed)
  then show "same_hex (py_get sample_leaves ''leaves_root_hex'') (py_get sample_leaves ''leaves_root_hex'')"
    by (auto simp: leaves_signed_def set_committed_def same_hex_def revoked_root_hex dest: sym)
  show "member_index trusting_env (PDict sample_leaves) sample_leaf = Some 0"
    by (simp add: member_index_def sample_leaves_def leaf_texts_def sample_leaf_def py_true_def flip: length_greater_0_conv)
qed

end
