(* ===== verification/SdkArtifacts.thy ===== *)
theory SdkArtifacts
  imports Documents Presentations EpochLeaves
begin

text \<open>
  The Python SDK (\<open>src/sdk/python/polaris_verify/__init__.py\<close>): a second verifier of the same artifacts,
  written apart from the detached one. Here: its algorithm tables and witnesses, its clock, which is a
  float of seconds, the credential, the status assertion, and \<open>verify_signed_artifact\<close>, one function for
  the twenty formats the detached verifier has a function each for. The theorems compare the two.

  Helpers the two files have word for word (\<open>_unhex\<close>, \<open>_hex_text\<close>, \<open>_same_hex\<close>, \<open>_same_id\<close>,
  \<open>_signed_count\<close>, \<open>_status_of\<close>, \<open>_wire_text\<close>, \<open>_strict_instant\<close>, \<open>token_value_serial_problem\<close>,
  \<open>_leaves_are_hex\<close>, \<open>_revoked_root\<close>, \<open>_members_root\<close>) are those of the detached verifier. The SDK has no
  development mode. Of \<open>time.time()\<close> the model keeps microseconds.
\<close>

section \<open>Algorithms and witnesses\<close>

definition ACCEPTED_ALGORITHMS :: "(ustr \<times> ustr option) list" where
  "ACCEPTED_ALGORITHMS =
     [(lit ''ML-DSA-65'', Some (lit ''MLDSA65PublicKey'')), (lit ''ML-DSA-87'', Some (lit ''MLDSA87PublicKey'')),
      (lit ''Falcon-padded-1024'', None)]"

definition ALGORITHM_SIZES :: "(ustr \<times> nat \<times> nat) list" where
  "ALGORITHM_SIZES =
     [(lit ''ML-DSA-65'', 1952, 3309), (lit ''ML-DSA-87'', 2592, 4627), (lit ''Falcon-padded-1024'', 1793, 1280)]"

definition sdk_accepted :: "pyval \<Rightarrow> bool" where
  "sdk_accepted alg \<longleftrightarrow> (case alg of PStr a \<Rightarrow> map_of ACCEPTED_ALGORITHMS a \<noteq> None | _ \<Rightarrow> False)"

definition sdk_alg_for_key_length :: "pyval \<Rightarrow> pyval" where
  "sdk_alg_for_key_length pk_hex =
     (case unhex pk_hex of None \<Rightarrow> PNone
      | Some pk \<Rightarrow>
          (case List.find (\<lambda>(name, pk_len, sig_len). length pk = pk_len \<and> sdk_accepted (PStr name)) ALGORITHM_SIZES of
             None \<Rightarrow> PNone | Some (name, _) \<Rightarrow> PStr name))"

definition sdk_size_problem :: "pyval \<Rightarrow> bytes \<Rightarrow> bytes \<Rightarrow> vnote option" where
  "sdk_size_problem alg pk sg =
     (case (case alg of PStr a \<Rightarrow> if sdk_accepted alg then map_of ALGORITHM_SIZES a else None | _ \<Rightarrow> None) of
        None \<Rightarrow> Some (UnknownAlgorithm alg)
      | Some (pk_len, sig_len) \<Rightarrow>
          if pk = [] \<or> length pk \<noteq> pk_len then Some (WrongLength ''public key'' (length pk) pk_len)
          else if sg = [] \<or> length sg \<noteq> sig_len then Some (WrongLength ''signature'' (length sg) sig_len)
          else None)"

definition sdk_verify_cryptography :: "env \<Rightarrow> bytes \<Rightarrow> bytes \<Rightarrow> bytes \<Rightarrow> pyval \<Rightarrow> bool option" where
  "sdk_verify_cryptography E digest sg pk alg =
     (if sdk_accepted alg \<and> sdk_size_problem alg pk sg \<noteq> None then Some False
      else
        (case openssl E of None \<Rightarrow> None
         | Some load \<Rightarrow>
             (case (case alg of PStr a \<Rightarrow> if sdk_accepted alg then map_of ACCEPTED_ALGORITHMS a else None | _ \<Rightarrow> None) of
                Some (Some cls) \<Rightarrow> (case load cls pk of None \<Rightarrow> None | Some check \<Rightarrow> Some (check sg digest))
              | _ \<Rightarrow> None)))"

definition sdk_verify_liboqs :: "env \<Rightarrow> bytes \<Rightarrow> bytes \<Rightarrow> bytes \<Rightarrow> pyval \<Rightarrow> bool option" where
  "sdk_verify_liboqs E digest sg pk alg =
     (if \<not> sdk_accepted alg then Some False
      else if sdk_size_problem alg pk sg \<noteq> None then Some False
      else
        (case (liboqs E, alg) of
           (Some verify, PStr a) \<Rightarrow> Some (verify a digest sg pk = Some True)
         | _ \<Rightarrow> None))"

text \<open>The SDK asks OpenSSL first.\<close>

definition sdk_ran :: "bool option \<Rightarrow> bool option \<Rightarrow> (string \<times> bool) list" where
  "sdk_ran primary witness =
     (case primary of None \<Rightarrow> [] | Some b \<Rightarrow> [(''cryptography'', b)])
     @ (case witness of None \<Rightarrow> [] | Some b \<Rightarrow> [(''liboqs'', b)])"

definition verify_over_digest ::
    "env \<Rightarrow> bytes option \<Rightarrow> pyval \<Rightarrow> pyval \<Rightarrow> pyval \<Rightarrow> bool option \<times> (string \<times> bool) list \<times> vnote option" where
  "verify_over_digest E digest sig_hex pk_hex alg =
     (case digest of None \<Rightarrow> (None, [], Some NotJson)
      | Some dg \<Rightarrow>
          if \<not> sdk_accepted alg then (None, [], Some (UnknownAlgorithm alg))
          else
            (case (unhex sig_hex, unhex pk_hex) of
               (Some sg, Some pk) \<Rightarrow>
                 (case sdk_size_problem alg pk sg of Some why \<Rightarrow> (Some False, [], Some why)
                  | None \<Rightarrow>
                      let primary = sdk_verify_cryptography E dg sg pk alg; witness = sdk_verify_liboqs E dg sg pk alg;
                          tried = sdk_ran primary witness
                      in (case agreed primary witness of Inl why \<Rightarrow> (None, tried, Some why) | Inr ok \<Rightarrow> (Some ok, tried, None)))
             | _ \<Rightarrow> (None, [], Some NotHex)))"

section \<open>The clock\<close>

text \<open>\<open>.timestamp()\<close>: seconds since 1970, the quotient of microseconds rounded to a double.\<close>

definition UNIX_EPOCH :: int where "UNIX_EPOCH = 719162 * 86400 * 1000000"

definition epoch_seconds :: "int \<Rightarrow> rat" where
  "epoch_seconds t = double_near (of_int (t - UNIX_EPOCH) / 1000000)"

definition iso_to_epoch :: "pyval \<Rightarrow> rat option" where
  "iso_to_epoch v = (case v of PStr s \<Rightarrow> map_option epoch_seconds (strict_instant s) | _ \<Rightarrow> None)"

text \<open>Text is read; a \<open>datetime\<close> is no text and so no instant.\<close>

definition sdk_now :: "env \<Rightarrow> now_arg \<Rightarrow> rat option" where
  "sdk_now E now =
     (case now of NoNow \<Rightarrow> Some (epoch_seconds (clock E)) | NowText s \<Rightarrow> map_option epoch_seconds (strict_instant s) | _ \<Rightarrow> None)"

definition clock_reads :: "now_arg \<Rightarrow> bool" where
  "clock_reads now \<longleftrightarrow> (case now of NoNow \<Rightarrow> True | NowText s \<Rightarrow> strict_instant s \<noteq> None | _ \<Rightarrow> False)"

definition REPLAY_WINDOW_SECONDS :: "(ustr \<times> rat) list" where
  "REPLAY_WINDOW_SECONDS = [(HOLDER_PROOF_FORMAT, 300)]"

definition CLOCK_SKEW_SECONDS :: rat where "CLOCK_SKEW_SECONDS = 60"

text \<open>Sums and differences of floats are rounded.\<close>

definition within_replay_window :: "env \<Rightarrow> ustr \<Rightarrow> pydict \<Rightarrow> now_arg \<Rightarrow> bool option" where
  "within_replay_window E fmt obj now =
     (case (map_of REPLAY_WINDOW_SECONDS fmt, iso_to_epoch (py_get obj ''issued_at''), sdk_now E now) of
        (Some seconds, Some issued, Some n) \<Rightarrow>
          Some (issued \<le> double_near (n + CLOCK_SKEW_SECONDS) \<and> double_near (n - issued) \<le> seconds)
      | _ \<Rightarrow> None)"

definition within_window :: "env \<Rightarrow> pydict \<Rightarrow> now_arg \<Rightarrow> string \<Rightarrow> string \<Rightarrow> bool option" where
  "within_window E obj now start stop =
     (case (iso_to_epoch (py_get obj start), iso_to_epoch (py_get obj stop), sdk_now E now) of
        (Some ia, Some ea, Some n) \<Rightarrow> Some (ia \<le> n \<and> n < ea)
      | _ \<Rightarrow> None)"

definition signed_window :: "string list \<Rightarrow> (string \<times> string) option" where
  "signed_window keys =
     (if ''iat'' \<in> set keys \<and> ''exp'' \<in> set keys then Some (''iat'', ''exp'')
      else if ''issued_at'' \<in> set keys \<and> ''expires_at'' \<in> set keys then Some (''issued_at'', ''expires_at'')
      else None)"

section \<open>The credential\<close>

datatype sdk_note =
    SdkNote vnote | NotAnObject | UnknownArtifact pyval | HeadSize | RuleBroken ustr | SignedInstants
  | UnsignedEdge | EdgeOfOtherAgency | EdgeToOtherKey | CosignedSize | CosignedByOther

record authenticity_verdict =
  au_authentic :: bool
  au_trusted :: "bool option"
  au_algorithm :: pyval
  au_note :: "sdk_note option"
  au_witnesses :: "(string \<times> bool) list"

definition verify_authenticity :: "env \<Rightarrow> pyval \<Rightarrow> pyval list option \<Rightarrow> authenticity_verdict" where
  "verify_authenticity E pack0 anchors =
     (case pack0 of PDict pack \<Rightarrow>
        (let tok = py_get pack ''token_value''; alg = py_get pack ''algorithm''; sig_hex = py_get pack ''signature_hex'';
             pk_hex = py_get pack ''public_key_hex'';
             refused = (\<lambda>w tried. \<lparr>au_authentic = False, au_trusted = None, au_algorithm = alg, au_note = Some (SdkNote w),
               au_witnesses = tried\<rparr>)
         in if alg \<noteq> PStr PLACEHOLDER \<and> \<not> sdk_accepted alg then refused (UnknownAlgorithm alg) []
            else if alg = PStr PLACEHOLDER \<or> \<not> py_true pk_hex then refused Placeholder []
            else if \<not> py_true tok \<or> \<not> py_true sig_hex then refused vnote.MissingFields []
            else
              (case (unhex sig_hex, unhex pk_hex) of
                 (Some sg, Some pk) \<Rightarrow>
                   (case token_value_serial_problem tok of Some why \<Rightarrow> refused (NotSerial why) []
                    | None \<Rightarrow>
                        let dg = sha3 E (case tok of PStr s \<Rightarrow> the (utf8_encode s) | _ \<Rightarrow> []) in
                        (case sdk_size_problem alg pk sg of Some why \<Rightarrow> refused why []
                         | None \<Rightarrow>
                             let primary = sdk_verify_cryptography E dg sg pk alg; witness = sdk_verify_liboqs E dg sg pk alg;
                                 tried = sdk_ran primary witness
                             in (case agreed primary witness of Inl why \<Rightarrow> refused why tried
                                 | Inr ok \<Rightarrow>
                                     let trusted = map_option (\<lambda>ks. hex_in pk_hex (map hex_text ks)) anchors
                                     in \<lparr>au_authentic = ok, au_trusted = trusted, au_algorithm = alg,
                                          au_note = (if ok \<and> trusted = Some False then Some (SdkNote UntrustedKey) else None),
                                          au_witnesses = tried\<rparr>)))
               | _ \<Rightarrow> refused NotHex []))
      | _ \<Rightarrow> \<lparr>au_authentic = False, au_trusted = None, au_algorithm = PNone, au_note = Some NotAnObject, au_witnesses = []\<rparr>)"

section \<open>The status assertion\<close>

record assertion_verdict =
  as_authentic :: bool
  as_fresh :: "bool option"
  as_active :: "bool option"
  as_status :: pyval
  as_note :: "sdk_note option"
  as_witnesses :: "(string \<times> bool) list"

definition sdk_status_assertion :: "env \<Rightarrow> pyval \<Rightarrow> now_arg \<Rightarrow> assertion_verdict" where
  "sdk_status_assertion E assertion now =
     (let a = as_dict assertion; status = py_get a ''status'';
          refused = (\<lambda>w tried. \<lparr>as_authentic = False, as_fresh = None, as_active = None, as_status = status,
            as_note = map_option SdkNote w, as_witnesses = tried\<rparr>)
      in if placeholder_envelope a then refused (Some Placeholder) []
         else if py_get a ''format'' \<noteq> PStr STATUS_ASSERTION_FORMAT then refused (Some (NotA STATUS_ASSERTION_FORMAT)) []
         else
           (case verify_over_digest E (canonical_digest E STATUS_ASSERTION_FIELDS a) (py_get a ''signature_hex'')
                (py_get a ''public_key_hex'') (py_get a ''algorithm'') of
              (None, tried, n) \<Rightarrow> refused n tried
            | (Some ok, tried, n) \<Rightarrow>
                let fresh0 = within_window E a now ''issued_at'' ''expires_at'';
                    unread = fresh0 = None \<and> clock_reads now
                in \<lparr>as_authentic = ok, as_fresh = (if unread then Some False else fresh0),
                     as_active = Some (status = PStr (lit ''ACTIVE'')), as_status = status,
                     as_note = (case n of Some w \<Rightarrow> Some (SdkNote w) | None \<Rightarrow> if unread then Some SignedInstants else None),
                     as_witnesses = tried\<rparr>))"

section \<open>Every other artifact\<close>

definition ARTIFACT_KEYS :: "(ustr \<times> string list) list" where
  "ARTIFACT_KEYS =
     [(lit ''polaris-epoch-checkpoint/1'',
        [''format'', ''authority'', ''epoch'', ''prev'', ''as_of'', ''issued_at'', ''expires_at'', ''algorithm'']),
      (lit ''polaris-revocation-feed/1'',
        [''format'', ''authority'', ''epoch_number'', ''as_of'', ''revoked_root_hex'', ''revoked_count'', ''revoked_leaves'',
         ''issued_at'', ''expires_at'', ''algorithm'']),
      (lit ''polaris-federation-manifest/1'',
        [''format'', ''authority'', ''anchors'', ''attestations'', ''epoch'', ''revocation'', ''issued_at'', ''expires_at'',
         ''algorithm'']),
      (lit ''polaris-federation-status-bundle/1'',
        [''format'', ''publisher'', ''members_root_hex'', ''member_count'', ''issued_at'', ''expires_at'', ''algorithm'']),
      (lit ''polaris-transparency-sth/1'', [''format'', ''log_id'', ''tree_size'', ''root_hash_hex'', ''timestamp'']),
      (lit ''polaris-timestamp/1'',
        [''format'', ''authority'', ''digest_hex'', ''digest_algorithm'', ''nonce'', ''issued_at'', ''algorithm'']),
      (lit ''polaris-registry/1'',
        [''format'', ''publisher'', ''instance'', ''authorities'', ''contexts'', ''trust'', ''relying_parties'', ''issued_at'',
         ''expires_at'', ''algorithm'']),
      (lit ''polaris-exchange-request/1'',
        [''format'', ''requester'', ''target'', ''context_id'', ''request_hash'', ''nonce'', ''issued_at'', ''algorithm'']),
      (lit ''polaris-signed-document/1'',
        [''format'', ''document'', ''signer'', ''on_behalf_of'', ''purpose'', ''signed_at'', ''algorithm'']),
      (lit ''polaris-id-token/1'',
        [''format'', ''iss'', ''sub'', ''aud'', ''nonce'', ''context_id'', ''disclosure_level'', ''acr'', ''enrollment'',
         ''auth_time'', ''iat'', ''exp'', ''algorithm'']),
      (lit ''polaris-trust-list/1'', [''format'', ''publisher'', ''keys'', ''issued_at'', ''expires_at'', ''algorithm'']),
      (lit ''polaris-exchange-receipt/1'',
        [''format'', ''requester'', ''responder'', ''context_id'', ''request_hash'', ''response_hash'', ''authorized_via'',
         ''occurred_at'', ''algorithm'']),
      (lit ''polaris-exchange-mint/1'',
        [''format'', ''requester_public_key_hex'', ''context_id'', ''request_hash'', ''response_hash'', ''responder_agency_id'',
         ''occurred_at'']),
      (lit ''polaris-trust-attestation/1'',
        [''format'', ''attesting_agency_id'', ''attested_agency_id'', ''attested_public_key_hex'', ''context_id'',
         ''attested_date'', ''valid_until'', ''algorithm'']),
      (lit ''polaris-holder-binding/1'',
        [''format'', ''token_value'', ''holder_public_key_hex'', ''holder_algorithm'', ''bound_at'', ''status'', ''issued_at'',
         ''expires_at'', ''algorithm'']),
      (lit ''polaris-holder-proof/1'', [''format'', ''token_value'', ''context_id'', ''verifier_nonce'', ''issued_at'', ''algorithm'']),
      (lit ''polaris-agent-grant/1'',
        [''format'', ''grant_id'', ''agent_public_key_hex'', ''agent_algorithm'', ''actions'', ''limits'', ''context_id'',
         ''issued_at'', ''expires_at'', ''algorithm'']),
      (lit ''polaris-grant-revocation/1'', [''format'', ''grant_id'', ''revoked_at'', ''algorithm'']),
      (lit ''polaris-agent-proof/1'', [''format'', ''grant_id'', ''action'', ''service_nonce'', ''issued_at'', ''algorithm'']),
      (lit ''polaris-epoch-leaves/1'',
        [''format'', ''authority'', ''epoch_id'', ''context_id'', ''merkle_root'', ''leaf_count'', ''leaves_root_hex'',
         ''issued_at'', ''expires_at'', ''algorithm''])]"

definition count_is :: "pyval \<Rightarrow> nat \<Rightarrow> bool" where
  "count_is stated n \<longleftrightarrow> signed_count stated \<and> py_eq stated (PInt (int n))"

text \<open>The keys of the entries that are active and, for a publisher, its own.\<close>

definition publisher_keys :: "(pydict \<Rightarrow> pyval) \<Rightarrow> pydict \<Rightarrow> string \<Rightarrow> ustr option list" where
  "publisher_keys status obj entries =
     (let pub = as_dict (py_get obj ''publisher'') in
      map (\<lambda>a. hex_text (py_get (as_dict a) ''public_key_hex''))
        (filter (\<lambda>a. is_dict a \<and> same_id (py_get (as_dict a) ''agency_id'') (py_get pub ''agency_id'') \<and>
            status (as_dict a) = PStr (lit ''active'')) (as_list (py_get obj entries))))"

text \<open>What a format asks beyond the signature.\<close>

definition artifact_rule :: "env \<Rightarrow> ustr \<Rightarrow> pydict \<Rightarrow> bool" where
  "artifact_rule E fmt obj =
     (if fmt = lit ''polaris-revocation-feed/1'' then
        (let leaves0 = py_get obj ''revoked_leaves''; leaves = PList (as_list leaves0) in
         leaves_are_hex leaves0 \<and> revoked_root E leaves \<noteq> None \<and> revoked_root E leaves = hex_text (py_get obj ''revoked_root_hex'') \<and>
         count_is (py_get obj ''revoked_count'') (length (remdups (leaf_texts E (as_list leaves0)))))
      else if fmt = lit ''polaris-agent-grant/1'' then wire_text (py_get obj ''grant_id'') \<noteq> None
      else if fmt = lit ''polaris-signed-document/1'' then lower_digest (as_dict (py_get obj ''document''))
      else if fmt = lit ''polaris-timestamp/1'' then
        lower_digest obj \<and> (case py_get obj ''issued_at'' of PStr s \<Rightarrow> strict_instant s \<noteq> None | _ \<Rightarrow> False)
      else if fmt = lit ''polaris-epoch-leaves/1'' then
        (let leaves0 = py_get obj ''all_leaves_hex''; leaves = PList (as_list leaves0) in
         leaves_are_hex leaves0 \<and> revoked_root E leaves \<noteq> None \<and> revoked_root E leaves = hex_text (py_get obj ''leaves_root_hex'') \<and>
         count_is (py_get obj ''leaf_count'') (length (as_list leaves0)))
      else if fmt = lit ''polaris-federation-status-bundle/1'' then
        (let members = as_list (py_get obj ''members'') in
         bundle_members_root E members \<noteq> None \<and> bundle_members_root E members = hex_text (py_get obj ''members_root_hex'') \<and>
         count_is (py_get obj ''member_count'') (length members))
      else if fmt = lit ''polaris-federation-manifest/1'' then
        hex_in (py_get obj ''public_key_hex'') (active_anchor_keys (as_list (py_get obj ''anchors'')))
      else if fmt = lit ''polaris-registry/1'' then
        hex_in (py_get obj ''public_key_hex'') (publisher_keys status_of obj ''authorities'')
      else if fmt = lit ''polaris-trust-list/1'' then
        hex_in (py_get obj ''public_key_hex'') (publisher_keys (\<lambda>k. py_get k ''status'') obj ''keys'')
      else True)"

record artifact_verdict =
  af_authentic :: bool
  af_fresh :: "bool option"
  af_note :: "sdk_note option"
  af_witnesses :: "(string \<times> bool) list"
  af_trusted :: "bool option"

definition refused_artifact :: "sdk_note option \<Rightarrow> (string \<times> bool) list \<Rightarrow> artifact_verdict" where
  "refused_artifact w tried = \<lparr>af_authentic = False, af_fresh = None, af_note = w, af_witnesses = tried, af_trusted = None\<rparr>"

text \<open>Fresh within a replay window, or within the window the format signs, or no answer.\<close>

definition artifact_fresh :: "env \<Rightarrow> ustr \<Rightarrow> string list \<Rightarrow> pydict \<Rightarrow> now_arg \<Rightarrow> bool option" where
  "artifact_fresh E fmt keys obj now =
     (case within_replay_window E fmt obj now of Some b \<Rightarrow> Some b
      | None \<Rightarrow> (case signed_window keys of None \<Rightarrow> None | Some (start, stop) \<Rightarrow> within_window E obj now start stop))"

definition verify_signed_artifact :: "env \<Rightarrow> pyval \<Rightarrow> now_arg \<Rightarrow> pyval list option \<Rightarrow> artifact_verdict" where
  "verify_signed_artifact E obj0 now anchors =
     (let obj = as_dict obj0; fmt0 = py_get obj ''format'' in
      case (case fmt0 of PStr f \<Rightarrow> map_option (Pair f) (map_of ARTIFACT_KEYS f) | _ \<Rightarrow> None) of
        None \<Rightarrow> refused_artifact (Some (UnknownArtifact fmt0)) []
      | Some (fmt, keys) \<Rightarrow>
          if fmt = STH_FORMAT \<and> \<not> signed_count (py_get obj ''tree_size'') then refused_artifact (Some HeadSize) []
          else if placeholder_envelope obj then refused_artifact (Some (SdkNote Placeholder)) []
          else
            let alg0 = py_get obj ''algorithm'';
                alg = (if fmt = lit ''polaris-exchange-mint/1'' \<and> alg0 = PNone
                  then sdk_alg_for_key_length (py_get obj ''public_key_hex'') else alg0)
            in (case verify_over_digest E (canonical_digest E keys obj) (py_get obj ''signature_hex'') (py_get obj ''public_key_hex'') alg of
                  (None, tried, n) \<Rightarrow> refused_artifact (map_option SdkNote n) tried
                | (Some signature_ok, tried, n) \<Rightarrow>
                    let ok = signature_ok \<and> artifact_rule E fmt obj;
                        note1 = (if signature_ok \<and> \<not> ok then Some (RuleBroken fmt) else map_option SdkNote n);
                        fresh0 = artifact_fresh E fmt keys obj now;
                        signs_instant = signed_window keys \<noteq> None \<or> map_of REPLAY_WINDOW_SECONDS fmt \<noteq> None;
                        unread = fresh0 = None \<and> signs_instant \<and> clock_reads now
                    in \<lparr>af_authentic = ok, af_fresh = (if unread then Some False else fresh0),
                         af_note = (if unread \<and> note1 = None then Some SignedInstants else note1), af_witnesses = tried,
                         af_trusted = (case anchors of None \<Rightarrow> None
                           | Some ks \<Rightarrow> if ok then Some (hex_in (py_get obj ''public_key_hex'') (map hex_text ks)) else None)\<rparr>))"

section \<open>The login token\<close>

record sdk_token_verdict =
  kt_authentic :: bool
  kt_audience_matches :: "bool option"
  kt_nonce_matches :: "bool option"
  kt_fresh :: "bool option"
  kt_note :: "sdk_note option"
  kt_trusted :: "bool option"

definition sdk_id_token ::
    "env \<Rightarrow> pyval \<Rightarrow> pyval \<Rightarrow> pyval \<Rightarrow> now_arg \<Rightarrow> pyval list option \<Rightarrow> sdk_token_verdict" where
  "sdk_id_token E tok0 audience nonce now anchors =
     (let tok = as_dict tok0;
          refused = (\<lambda>w trusted. \<lparr>kt_authentic = False, kt_audience_matches = None, kt_nonce_matches = None, kt_fresh = None,
            kt_note = w, kt_trusted = trusted\<rparr>)
      in if py_get tok ''format'' \<noteq> PStr ID_TOKEN_FORMAT then refused (Some (SdkNote (NotA ID_TOKEN_FORMAT))) None
         else
           let base = verify_signed_artifact E (PDict tok) now anchors
           in if \<not> af_authentic base then refused (af_note base) (af_trusted base)
              else
                let fresh0 = within_window E tok now ''iat'' ''exp''; unread = fresh0 = None \<and> clock_reads now
                in \<lparr>kt_authentic = True,
                     kt_audience_matches = (if audience = PNone then None else Some (same_id (py_get tok ''aud'') audience)),
                     kt_nonce_matches = (if nonce = PNone then None else Some (same_id (py_get tok ''nonce'') nonce)),
                     kt_fresh = (if unread then Some False else fresh0),
                     kt_note = (if unread then Some SignedInstants else None), kt_trusted = af_trusted base\<rparr>)"

end
