(* ===== verification/SdkAgreement.thy ===== *)
theory SdkAgreement
  imports SdkArtifacts
begin

text \<open>
  The SDK and the detached verifier decide alike: for the credential, the status assertion and every
  signed artifact, the SDK answers authentic exactly when the detached verifier outside its development
  mode does, the signature and the key being text. Where the two differ, the difference is a lemma.
\<close>

section \<open>The signature layer\<close>

text \<open>The detached verifier outside its development mode, which the SDK does not have.\<close>

definition live :: "env \<Rightarrow> env" where
  "live E = E\<lparr>dev_mode := False\<rparr>"

lemma live_simps [simp]:
  "sha3 (live E) = sha3 E" "frepr (live E) = frepr E" "pyrepr (live E) = pyrepr E" "ulower (live E) = ulower E"
  "clock (live E) = clock E" "dev_mode (live E) = False" "liboqs (live E) = liboqs E" "openssl (live E) = openssl E"
  by (simp_all add: live_def)

lemma live_texts [simp]:
  "py_str (live E) = py_str E" "lower_text (live E) = lower_text E" "leaf_texts (live E) = leaf_texts E"
  "canonical_digest (live E) = canonical_digest E" "bundle_members_root (live E) = bundle_members_root E"
  "instants (live E) = instants E"
  unfolding fun_eq_iff py_str_def lower_text_def leaf_texts_def canonical_digest_def bundle_members_root_def instants_def live_simps
  by (simp_all only: simp_thms)

lemma live_root [simp]: "revoked_root (live E) = revoked_root E"
  by (simp add: fun_eq_iff revoked_root_def)

lemma tables_agree:
  "map_of ACCEPTED_ALGORITHMS a = map_option fst (map_of ACCEPTED a)"
  "map_of ALGORITHM_SIZES a = map_option snd (map_of ACCEPTED a)"
  by (simp_all add: ACCEPTED_ALGORITHMS_def ALGORITHM_SIZES_def ACCEPTED_def)

lemma sdk_accepted_iff: "sdk_accepted alg \<longleftrightarrow> accepted_alg alg"
  by (auto simp: sdk_accepted_def accepted_alg_def accepted_entry_def tables_agree split: pyval.split)

lemma sdk_size_problem_eq: "sdk_size_problem alg pk sg = size_problem alg pk sg"
  by (cases alg) (auto simp: sdk_size_problem_def size_problem_def sdk_accepted_iff accepted_alg_def accepted_entry_def tables_agree
      split: option.split prod.split)

lemma sdk_cryptography_eq: "sdk_verify_cryptography E = verify_cryptography (live E)"
  by (auto simp: fun_eq_iff sdk_verify_cryptography_def verify_cryptography_def sdk_accepted_iff sdk_size_problem_eq accepted_alg_def
      accepted_entry_def tables_agree split: option.split pyval.split prod.split)

lemma sdk_liboqs_eq: "sdk_verify_liboqs E = verify_liboqs (live E)"
  by (simp add: fun_eq_iff sdk_verify_liboqs_def verify_liboqs_def sdk_accepted_iff sdk_size_problem_eq)

lemma agreed_sym: "agreed w p = agreed p w"
  by (auto simp: agreed_def split: option.split)

text \<open>The signature of an artifact under an algorithm, with the fields that are signed.\<close>

definition signed_under :: "env \<Rightarrow> string list \<Rightarrow> pydict \<Rightarrow> pyval \<Rightarrow> bool" where
  "signed_under E names obj alg \<longleftrightarrow>
     (\<exists>sg pk. envelope_bytes obj = Some (sg, pk) \<and>
        fst (two_witness_verify E (canonical_digest E names obj) sg pk alg) = Some True)"

lemma signed_under_own: "signed_under E names obj (py_get obj ''algorithm'') \<longleftrightarrow> signed_statement E names obj"
proof (cases "envelope_bytes obj")
  case None
  then show ?thesis by (simp add: signed_under_def signed_statement_def signature_holds_def split: option.split)
next
  case (Some b)
  then show ?thesis
    using two_witness_True [of obj "fst b" "snd b" E names] by (cases b) (auto simp: signed_under_def, (metis prod.exhaust_sel)+)
qed

lemma over_digest_signed:
  "fst (verify_over_digest E (canonical_digest E names obj) (py_get obj ''signature_hex'') (py_get obj ''public_key_hex'') alg) = Some True
   \<longleftrightarrow> signed_under (live E) names obj alg"
  by (auto simp: verify_over_digest_def signed_under_def envelope_bytes_def two_witness_verify_def sdk_accepted_iff sdk_size_problem_eq
      sdk_cryptography_eq sdk_liboqs_eq Let_def agreed_sym [of "verify_cryptography _ _ _ _ _"] split: option.splits sum.splits)

text \<open>The signature and the key are text, as in every artifact that was signed.\<close>

definition text_envelope :: "pydict \<Rightarrow> bool" where
  "text_envelope d \<longleftrightarrow> is_str (py_get d ''signature_hex'') \<and> is_str (py_get d ''public_key_hex'')"

lemma unhex_is_str: "unhex v = Some bs \<Longrightarrow> is_str v"
  by (auto simp: unhex_def is_str_def split: pyval.splits)

lemma signed_under_text: "signed_under E names d alg \<Longrightarrow> text_envelope d"
  by (auto simp: signed_under_def envelope_bytes_def text_envelope_def unhex_is_str split: option.splits)

lemma signed_is_text: "signed_statement E names d \<Longrightarrow> text_envelope d"
  using signed_under_text signed_under_own by blast

lemma text_signed_iff: "text_envelope d \<and> text_signed E names d \<longleftrightarrow> signed_statement E names d"
proof (cases "text_envelope d")
  case True
  then show ?thesis
    using text_signed_text by (auto simp: text_envelope_def is_str_def split: pyval.splits)
qed (use signed_is_text in auto)

lemma signed_by_iff:
  assumes "text_envelope d"
  shows "fst (signed_by E names d (py_get d ''public_key_hex'') (py_get d ''algorithm'')) = Some True \<longleftrightarrow> signed_statement E names d"
proof -
  have t: "str_or_empty E v = s" if "v = PStr s" for v s
    using that by (simp add: str_or_empty_def py_true_def py_str_def)
  have "fst (signed_by E names d (py_get d ''public_key_hex'') (py_get d ''algorithm'')) = Some True \<longleftrightarrow>
      signed_under E names d (py_get d ''algorithm'')"
    using assms by (auto simp: signed_by_def signed_under_def text_envelope_def is_str_def t envelope_bytes_def two_witness_verify_def
        split: pyval.splits option.splits)
  then show ?thesis by (simp only: signed_under_own)
qed

section \<open>What the SDK calls authentic\<close>

definition artifact_alg :: "ustr \<Rightarrow> pydict \<Rightarrow> pyval" where
  "artifact_alg f d = (if f = lit ''polaris-exchange-mint/1'' \<and> py_get d ''algorithm'' = PNone
     then sdk_alg_for_key_length (py_get d ''public_key_hex'') else py_get d ''algorithm'')"

lemma artifact_authentic:
  assumes "py_get d ''format'' = PStr f" "map_of ARTIFACT_KEYS f = Some keys"
  shows "af_authentic (verify_signed_artifact E (PDict d) now anchors) \<longleftrightarrow>
    (f = STH_FORMAT \<longrightarrow> signed_count (py_get d ''tree_size'')) \<and> \<not> placeholder_envelope d \<and>
    signed_under (live E) keys d (artifact_alg f d) \<and> artifact_rule E f d"
  using over_digest_signed [of E keys d "artifact_alg f d"] assms
  by (auto simp: verify_signed_artifact_def Let_def refused_artifact_def artifact_alg_def split: option.splits prod.splits)

lemma artifact_unknown:
  assumes "\<not> (\<exists>f keys. py_get d ''format'' = PStr f \<and> map_of ARTIFACT_KEYS f = Some keys)"
  shows "\<not> af_authentic (verify_signed_artifact E (PDict d) now anchors)"
  using assms by (auto simp: verify_signed_artifact_def Let_def refused_artifact_def split: pyval.splits option.splits)

lemma artifact_alg_own: "f \<noteq> lit ''polaris-exchange-mint/1'' \<Longrightarrow> artifact_alg f d = py_get d ''algorithm''"
  by (simp add: artifact_alg_def)

lemma signed_under_no_placeholder:
  "signed_statement E names d \<Longrightarrow> \<not> placeholder_envelope d"
  by (elim signed_statementE)

text \<open>The formats and their signed fields are those of the detached verifier.\<close>

lemmas artifact_formats = EPOCH_CHECKPOINT_FORMAT_def REVOCATION_FEED_FORMAT_def MANIFEST_FORMAT_def STATUS_BUNDLE_FORMAT_def
  STH_FORMAT_def TIMESTAMP_FORMAT_def REGISTRY_FORMAT_def EXCHANGE_REQUEST_FORMAT_def SIGNED_DOCUMENT_FORMAT_def ID_TOKEN_FORMAT_def
  TRUST_LIST_FORMAT_def EXCHANGE_RECEIPT_FORMAT_def EXCHANGE_MINT_FORMAT_def ATTESTATION_FORMAT_def HOLDER_BINDING_FORMAT_def
  HOLDER_PROOF_FORMAT_def AGENT_GRANT_FORMAT_def GRANT_REVOCATION_FORMAT_def AGENT_PROOF_FORMAT_def EPOCH_LEAVES_FORMAT_def

lemma artifact_keys:
  "map_of ARTIFACT_KEYS EPOCH_CHECKPOINT_FORMAT = Some EPOCH_CHECKPOINT_FIELDS"
  "map_of ARTIFACT_KEYS REVOCATION_FEED_FORMAT = Some REVOCATION_FEED_FIELDS"
  "map_of ARTIFACT_KEYS MANIFEST_FORMAT = Some MANIFEST_FIELDS"
  "map_of ARTIFACT_KEYS STATUS_BUNDLE_FORMAT = Some STATUS_BUNDLE_FIELDS"
  "map_of ARTIFACT_KEYS STH_FORMAT = Some STH_FIELDS"
  "map_of ARTIFACT_KEYS TIMESTAMP_FORMAT = Some TIMESTAMP_FIELDS"
  "map_of ARTIFACT_KEYS REGISTRY_FORMAT = Some REGISTRY_FIELDS"
  "map_of ARTIFACT_KEYS EXCHANGE_REQUEST_FORMAT = Some EXCHANGE_REQUEST_FIELDS"
  "map_of ARTIFACT_KEYS SIGNED_DOCUMENT_FORMAT = Some SIGNED_DOCUMENT_FIELDS"
  "map_of ARTIFACT_KEYS ID_TOKEN_FORMAT = Some ID_TOKEN_FIELDS"
  "map_of ARTIFACT_KEYS TRUST_LIST_FORMAT = Some TRUST_LIST_FIELDS"
  "map_of ARTIFACT_KEYS EXCHANGE_RECEIPT_FORMAT = Some EXCHANGE_RECEIPT_FIELDS"
  "map_of ARTIFACT_KEYS EXCHANGE_MINT_FORMAT = Some EXCHANGE_MINT_FIELDS"
  "map_of ARTIFACT_KEYS ATTESTATION_FORMAT = Some ATTESTATION_FIELDS"
  "map_of ARTIFACT_KEYS HOLDER_BINDING_FORMAT = Some HOLDER_BINDING_FIELDS"
  "map_of ARTIFACT_KEYS HOLDER_PROOF_FORMAT = Some HOLDER_PROOF_FIELDS"
  "map_of ARTIFACT_KEYS AGENT_GRANT_FORMAT = Some AGENT_GRANT_FIELDS"
  "map_of ARTIFACT_KEYS GRANT_REVOCATION_FORMAT = Some GRANT_REVOCATION_FIELDS"
  "map_of ARTIFACT_KEYS AGENT_PROOF_FORMAT = Some AGENT_PROOF_FIELDS"
  "map_of ARTIFACT_KEYS EPOCH_LEAVES_FORMAT = Some EPOCH_LEAVES_FIELDS"
  by (simp_all add: ARTIFACT_KEYS_def artifact_formats lit_eq_iff EPOCH_CHECKPOINT_FIELDS_def REVOCATION_FEED_FIELDS_def
      MANIFEST_FIELDS_def STATUS_BUNDLE_FIELDS_def STH_FIELDS_def TIMESTAMP_FIELDS_def REGISTRY_FIELDS_def
      EXCHANGE_REQUEST_FIELDS_def SIGNED_DOCUMENT_FIELDS_def ID_TOKEN_FIELDS_def TRUST_LIST_FIELDS_def EXCHANGE_RECEIPT_FIELDS_def
      EXCHANGE_MINT_FIELDS_def ATTESTATION_FIELDS_def HOLDER_BINDING_FIELDS_def HOLDER_PROOF_FIELDS_def AGENT_GRANT_FIELDS_def
      GRANT_REVOCATION_FIELDS_def AGENT_PROOF_FIELDS_def EPOCH_LEAVES_FIELDS_def)

lemma known_format:
  "map_of ARTIFACT_KEYS f = Some keys \<Longrightarrow>
    f \<in> {EPOCH_CHECKPOINT_FORMAT, REVOCATION_FEED_FORMAT, MANIFEST_FORMAT, STATUS_BUNDLE_FORMAT, STH_FORMAT, TIMESTAMP_FORMAT,
      REGISTRY_FORMAT, EXCHANGE_REQUEST_FORMAT, SIGNED_DOCUMENT_FORMAT, ID_TOKEN_FORMAT, TRUST_LIST_FORMAT, EXCHANGE_RECEIPT_FORMAT,
      EXCHANGE_MINT_FORMAT, ATTESTATION_FORMAT, HOLDER_BINDING_FORMAT, HOLDER_PROOF_FORMAT, AGENT_GRANT_FORMAT,
      GRANT_REVOCATION_FORMAT, AGENT_PROOF_FORMAT, EPOCH_LEAVES_FORMAT}"
  by (simp add: ARTIFACT_KEYS_def artifact_formats split: if_splits)

lemma artifact_signed:
  assumes "py_get d ''format'' = PStr f" "map_of ARTIFACT_KEYS f = Some keys" "f \<noteq> EXCHANGE_MINT_FORMAT"
  shows "af_authentic (verify_signed_artifact E (PDict d) now anchors) \<longleftrightarrow>
    (f = STH_FORMAT \<longrightarrow> signed_count (py_get d ''tree_size'')) \<and> signed_statement (live E) keys d \<and> artifact_rule E f d"
  using assms(3) signed_under_no_placeholder
  by (auto simp: artifact_authentic [OF assms(1,2)] artifact_alg_own signed_under_own EXCHANGE_MINT_FORMAT_def)

section \<open>What the detached verifier calls authentic\<close>

lemma checkpoint_authentic:
  "map_option ec_authentic (verify_epoch_checkpoint E (PDict d) now None key) = Some True \<longleftrightarrow>
     py_get d ''format'' = PStr EPOCH_CHECKPOINT_FORMAT \<and> signed_statement E EPOCH_CHECKPOINT_FIELDS d"
proof (cases "signed_statement E EPOCH_CHECKPOINT_FIELDS d")
  case True
  then show ?thesis
    by (elim signed_statementE)
      (auto simp: verify_epoch_checkpoint_def Let_def blank_checkpoint_def True verify_window_uncapped split: option.splits)
next
  case False
  then show ?thesis
    by (auto simp: verify_epoch_checkpoint_def Let_def blank_checkpoint_def dest: two_witness_TrueD
        split: option.splits prod.splits bool.splits)
qed

lemma feed_authentic:
  "map_option rf_authentic (verify_revocation_feed E (PDict d) now None key) = Some True \<longleftrightarrow>
     py_get d ''format'' = PStr REVOCATION_FEED_FORMAT \<and> signed_statement E REVOCATION_FEED_FIELDS d \<and> feed_commits E d"
proof (cases "signed_statement E REVOCATION_FEED_FIELDS d")
  case True
  then show ?thesis
    by (elim signed_statementE)
      (auto simp: verify_revocation_feed_def Let_def blank_feed_def True verify_window_uncapped split: option.splits)
next
  case False
  then show ?thesis
    by (auto simp: verify_revocation_feed_def Let_def blank_feed_def dest: two_witness_TrueD
        split: option.splits prod.splits bool.splits)
qed

lemma bundle_authentic:
  "map_option sb_authentic (verify_status_bundle E (PDict d) now None key) = Some True \<longleftrightarrow>
     py_get d ''format'' = PStr STATUS_BUNDLE_FORMAT \<and> signed_statement E STATUS_BUNDLE_FIELDS d \<and> bundle_commits E d"
proof (cases "signed_statement E STATUS_BUNDLE_FIELDS d")
  case True
  then show ?thesis
    by (elim signed_statementE)
      (auto simp: verify_status_bundle_def Let_def blank_bundle_def True verify_window_uncapped split: option.splits)
next
  case False
  then show ?thesis
    by (auto simp: verify_status_bundle_def Let_def blank_bundle_def dest: two_witness_TrueD
        split: option.splits prod.splits bool.splits)
qed

lemma inline_uncapped: "verify_window_inline E d now None \<noteq> None"
  by (auto simp: verify_window_inline_def split: option.split)

lemma manifest_authentic:
  "map_option mv_authentic (verify_manifest E (PDict d) now None ta) = Some True \<longleftrightarrow> manifest_signed E d"
proof (cases "manifest_signed E d")
  case True
  then obtain v where v: "mv_authentic v" "verify_manifest E (PDict d) now None ta = manifest_window E d now None ta v"
    by (rule verify_manifest_signed)
  then show ?thesis
    using True inline_uncapped [of E d now] by (auto simp: manifest_window_def Let_def split: option.split)
next
  case False
  then show ?thesis using verify_manifest_unsigned [OF False, of now None ta] by auto
qed

lemma trust_list_authentic: "tl_authentic (verify_trust_list E (PDict d) now cap ta) \<longleftrightarrow> trust_list_signed E d"
  by (auto simp: verify_trust_list_def Let_def blank_trust_def trust_list_signed_def text_signed_def
      split: option.splits prod.splits bool.splits)

lemma receipt_authentic:
  "map_option er_authentic (verify_exchange_receipt E (PDict d) now None rk None None None) = Some True \<longleftrightarrow> receipt_signed E d"
proof (cases "receipt_signed E d")
  case True
  then obtain sg pk where e: "\<not> placeholder_envelope d" "envelope_bytes d = Some (sg, pk)"
    by (auto simp: receipt_signed_def elim: signed_statementE)
  obtain tried n where j: "judged E EXCHANGE_RECEIPT_FIELDS d sg pk (py_get d ''algorithm'') = (True, tried, n)"
    using judged_signed [OF e(2), of E EXCHANGE_RECEIPT_FIELDS] True by (metis receipt_signed_def prod.exhaust_sel)
  show ?thesis
    using True e j by (simp add: verify_exchange_receipt_def Let_def receipt_signed_def body_binds_def receipt_authorization_def)
next
  case False
  then show ?thesis
    using judged_signed [of d _ _ E EXCHANGE_RECEIPT_FIELDS]
    by (auto simp: verify_exchange_receipt_def Let_def blank_receipt_def receipt_signed_def
        split: option.splits prod.splits bool.splits)
qed

lemma mint_authentic:
  "mt_authentic (verify_exchange_mint E (PDict d) rk) \<longleftrightarrow>
     py_get d ''format'' = PStr EXCHANGE_MINT_FORMAT \<and> py_true (py_get d ''public_key_hex'') \<and>
     signed_under E EXCHANGE_MINT_FIELDS d (mint_algorithm d)"
proof -
  have a: "accepted_alg alg \<and> alg \<noteq> PStr PLACEHOLDER" if "two_witness_verify E dg sg pk alg = (Some True, tried, n)"
    for dg sg pk alg tried n
    using that not_accepted_placeholder by (auto simp: two_witness_verify_def split: option.splits if_splits)
  show ?thesis
    using a
    by (auto simp: verify_exchange_mint_def Let_def blank_mint_def signed_under_def judged_def
        split: option.splits prod.splits bool.splits)
qed

lemma binding_authentic:
  "map_option hb_authentic (verify_holder_binding E (PDict d) PNone now None ks) = Some True \<longleftrightarrow> binding_signed E d"
proof (cases "signed_statement E HOLDER_BINDING_FIELDS d")
  case True
  then show ?thesis
    by (elim signed_statementE)
      (auto simp: verify_holder_binding_def Let_def blank_binding_def binding_signed_def True verify_window_uncapped)
next
  case False
  then show ?thesis
    by (auto simp: verify_holder_binding_def Let_def blank_binding_def binding_signed_def dest: two_witness_TrueD
        split: option.splits prod.splits bool.splits)
qed

lemma check_proof_authentic: "hp_authentic (check_proof E d b n c now age v) = hp_authentic v"
  by (auto simp: check_proof_def Let_def split: option.splits pyval.splits)

lemma proof_authentic:
  "hp_authentic (verify_holder_proof E (PDict d) b n c now age) \<longleftrightarrow>
     py_get d ''format'' = PStr HOLDER_PROOF_FORMAT \<and> signed_statement E HOLDER_PROOF_FIELDS d"
proof (cases "signed_statement E HOLDER_PROOF_FIELDS d")
  case True
  then show ?thesis
    by (elim signed_statementE) (auto simp: verify_holder_proof_def Let_def blank_proof_def True check_proof_authentic)
next
  case False
  then show ?thesis
    by (auto simp: verify_holder_proof_def Let_def blank_proof_def check_proof_authentic dest: two_witness_TrueD
        split: option.splits prod.splits bool.splits)
qed

lemma standalone_authentic:
  "sv_authentic (verify_standalone E fmt names (PDict d)) \<longleftrightarrow> py_get d ''format'' = PStr fmt \<and>
     fst (signed_by E names d (py_get d ''public_key_hex'') (py_get d ''algorithm'')) = Some True"
  by (auto simp: verify_standalone_def split: prod.split option.split)

lemma token_authentic:
  "Documents.it_authentic (verify_id_token E (PDict d) aud nonce now ta) \<longleftrightarrow>
     py_get d ''format'' = PStr ID_TOKEN_FORMAT \<and> \<not> placeholder_envelope d \<and> text_signed E ID_TOKEN_FIELDS d"
  by (auto simp: verify_id_token_def Let_def blank_id_token_def judged_def text_signed_def
      split: option.splits prod.splits bool.splits if_splits)

text \<open>The two verifiers whose evidence can raise do so only for an authentic document or grant.\<close>

definition authentic_or_raised :: "('a \<Rightarrow> bool) \<Rightarrow> 'a option \<Rightarrow> bool" where
  "authentic_or_raised authentic_of r \<longleftrightarrow> (case r of None \<Rightarrow> True | Some v \<Rightarrow> authentic_of v)"

definition no_policy :: ltv_policy where
  "no_policy = \<lparr>lp_timestamp_anchors = None, lp_require_anchored = False, lp_trusted_witnesses = None, lp_witness_threshold = PInt 1,
     lp_timestamp_quorum = 1, lp_timestamp_log_key = None\<rparr>"

lemma document_authentic:
  "authentic_or_raised dv_authentic (verify_signed_document E (PDict d) now ta None trl P) \<longleftrightarrow> document_signed E d"
proof (cases "document_signed E d")
  case True
  then show ?thesis
    by (rule signed_document_cases [of E d now ta None trl P])
      (auto simp: authentic_or_raised_def True split: option.split list.split)
next
  case False
  show ?thesis
  proof (cases "envelope_text_bytes E d")
    case None
    then show ?thesis
      using False by (simp add: verify_signed_document_def Let_def blank_document_def authentic_or_raised_def)
  next
    case (Some b)
    obtain sg pk where b: "b = (sg, pk)" by (cases b)
    obtain ok tried n where j: "judged E SIGNED_DOCUMENT_FIELDS d sg pk (py_get d ''algorithm'') = (ok, tried, n)"
      by (metis prod_cases3)
    have "ok \<longleftrightarrow> text_signed E SIGNED_DOCUMENT_FIELDS d"
      using judged_text [OF Some [unfolded b], of SIGNED_DOCUMENT_FIELDS] j by simp
    then show ?thesis
      using False Some b j
      by (cases ok) (auto simp: verify_signed_document_def Let_def document_signed_def blank_document_def authentic_or_raised_def)
  qed
qed

lemma grant_authentic:
  "authentic_or_raised gv_authentic
     (verify_agent_grant E (PDict d) PNone PNone NoNow PNone PNone PNone PNone None PNone PNone False) \<longleftrightarrow> grant_signed E d"
proof (cases "grant_signed E d")
  case True
  then obtain tried where "verify_agent_grant E (PDict d) PNone PNone NoNow PNone PNone PNone PNone None PNone PNone False =
    (case grant_binding E d PNone PNone NoNow None PNone (grant_start E d NoNow PNone tried) of None \<Rightarrow> None
     | Some v2 \<Rightarrow>
         (case grant_within_limits (PDict d) (PInt 0) PNone of None \<Rightarrow> None
          | Some (ok, why) \<Rightarrow> Some (grant_conclusion False ok why (missing_links PNone PNone PNone PNone) PNone
              (grant_proof E d PNone PNone PNone NoNow (grant_revocation E d PNone (grant_scope d PNone v2))))))"
    by (rule verify_agent_grant_signed)
  then show ?thesis
    using True grant_start_fields(1) [of E d NoNow PNone tried]
    by (simp add: authentic_or_raised_def grant_binding_def grant_conclusion_def grant_proof_def grant_revocation_def grant_scope_def
        Let_def split: option.split)
next
  case False
  obtain res tried w where r: "signed_by E AGENT_GRANT_FIELDS d (py_get d ''public_key_hex'') (py_get d ''algorithm'') = (res, tried, w)"
    by (metis prod_cases3)
  show ?thesis
    using False unfolding grant_signed_def verify_agent_grant_def pyval.case r
    by (cases res; cases "the res") (auto simp: blank_grant_def authentic_or_raised_def)
qed

section \<open>The rules of the formats\<close>

lemma rule_feed: "artifact_rule E REVOCATION_FEED_FORMAT d \<longleftrightarrow> feed_commits E d"
  by (auto simp: artifact_rule_def artifact_formats Let_def feed_commits_def count_is_def leaves_are_hex_def num_value_def
      dest: signed_countD split: pyval.splits)

lemma rule_leaves: "artifact_rule E EPOCH_LEAVES_FORMAT d \<longleftrightarrow> set_committed E d"
proof -
  let ?w = "py_get d ''all_leaves_hex''"
  have "leaves_are_hex ?w \<and> revoked_root E (PList (as_list ?w)) \<noteq> None \<and> revoked_root E (PList (as_list ?w)) = h \<longleftrightarrow>
      leaves_are_hex ?w \<and> revoked_root E ?w = h" for h
    using revoked_root_hex [of ?w E] by (auto simp: leaves_are_hex_def split: pyval.splits)
  moreover have "count_is c n \<longleftrightarrow> c = PInt (int n) \<and> signed_count c" for c n
    by (auto simp: count_is_def num_value_def dest: signed_countD)
  ultimately show ?thesis
    by (auto simp: artifact_rule_def artifact_formats lit_eq_iff Let_def set_committed_def)
qed

lemma rule_bundle: "artifact_rule E STATUS_BUNDLE_FORMAT d \<longleftrightarrow> bundle_commits E d"
  by (simp add: artifact_rule_def artifact_formats lit_eq_iff Let_def bundle_commits_def count_is_def)

lemma hex_in_true: "hex_in x (map (\<lambda>a. hex_text (f a)) (filter (\<lambda>a. P a \<and> py_true (f a)) xs)) \<longleftrightarrow>
    hex_in x (map (\<lambda>a. hex_text (f a)) (filter P xs))"
proof -
  have "py_true v" if "hex_text v = Some t" for v t
    using that by (auto simp: hex_text_def py_true_def split: pyval.splits if_splits)
  then show ?thesis by (auto simp: hex_in_def image_iff)
qed

lemma is_dict_iff: "is_dict v \<longleftrightarrow> (\<exists>d. v = PDict d)"
  by (cases v) (simp_all add: is_dict_def)

lemma rule_trust_list:
  "artifact_rule E TRUST_LIST_FORMAT d \<longleftrightarrow> hex_in (py_get d ''public_key_hex'') (trust_list_publisher_keys d)"
  using hex_in_true [of "py_get d ''public_key_hex''" "\<lambda>k. py_get (as_dict k) ''public_key_hex''"
    "\<lambda>k. (\<exists>e. k = PDict e) \<and> same_id (py_get (as_dict k) ''agency_id'') (py_get (as_dict (py_get d ''publisher'')) ''agency_id'') \<and>
       py_get (as_dict k) ''status'' = PStr (lit ''active'')" "as_list (py_get d ''keys'')"]
  by (simp add: artifact_rule_def artifact_formats lit_eq_iff Let_def publisher_keys_def trust_list_publisher_keys_def
      is_dict_iff conj_assoc)

text \<open>A registry's publisher may have several active entries: any of them signs for the SDK.\<close>

lemma rule_registry:
  "artifact_rule E REGISTRY_FORMAT d \<longleftrightarrow> hex_in (py_get d ''public_key_hex'') (publisher_keys status_of d ''authorities'')"
  by (simp add: artifact_rule_def artifact_formats lit_eq_iff)

lemma rule_others:
  "artifact_rule E MANIFEST_FORMAT d \<longleftrightarrow> hex_in (py_get d ''public_key_hex'') (active_anchor_keys (as_list (py_get d ''anchors'')))"
  "artifact_rule E AGENT_GRANT_FORMAT d \<longleftrightarrow> wire_text (py_get d ''grant_id'') \<noteq> None"
  "artifact_rule E SIGNED_DOCUMENT_FORMAT d \<longleftrightarrow> lower_digest (as_dict (py_get d ''document''))"
  "artifact_rule E EPOCH_CHECKPOINT_FORMAT d" "artifact_rule E STH_FORMAT d" "artifact_rule E EXCHANGE_REQUEST_FORMAT d"
  "artifact_rule E ID_TOKEN_FORMAT d" "artifact_rule E EXCHANGE_RECEIPT_FORMAT d" "artifact_rule E EXCHANGE_MINT_FORMAT d"
  "artifact_rule E ATTESTATION_FORMAT d" "artifact_rule E HOLDER_BINDING_FORMAT d" "artifact_rule E HOLDER_PROOF_FORMAT d"
  "artifact_rule E GRANT_REVOCATION_FORMAT d" "artifact_rule E AGENT_PROOF_FORMAT d"
  by (simp_all add: artifact_rule_def artifact_formats lit_eq_iff)

lemma rule_timestamp: "artifact_rule E TIMESTAMP_FORMAT d \<longleftrightarrow> instant_at d ''issued_at'' \<noteq> None \<and> lower_digest d"
  by (auto simp: artifact_rule_def artifact_formats lit_eq_iff instant_at_def py_get_def split: option.splits pyval.splits)

section \<open>Agreement\<close>

text \<open>The function the detached verifier has for a format, asked for authenticity alone.\<close>

definition detached_authentic :: "env \<Rightarrow> pydict \<Rightarrow> bool" where
  "detached_authentic E d =
     (let v = PDict d; f = py_get d ''format'' in
      if f = PStr EPOCH_CHECKPOINT_FORMAT then map_option ec_authentic (verify_epoch_checkpoint E v NoNow None None) = Some True
      else if f = PStr REVOCATION_FEED_FORMAT then map_option rf_authentic (verify_revocation_feed E v NoNow None None) = Some True
      else if f = PStr MANIFEST_FORMAT then map_option mv_authentic (verify_manifest E v NoNow None None) = Some True
      else if f = PStr STATUS_BUNDLE_FORMAT then map_option sb_authentic (verify_status_bundle E v NoNow None None) = Some True
      else if f = PStr STH_FORMAT then th_authentic (verify_sth E v None)
      else if f = PStr TIMESTAMP_FORMAT then ts_authentic (verify_timestamp E v None)
      else if f = PStr REGISTRY_FORMAT then rg_authentic (verify_registry E v NoNow None None)
      else if f = PStr EXCHANGE_REQUEST_FORMAT then
        map_option rq_authentic (verify_exchange_request E v None None None NoNow) = Some True
      else if f = PStr SIGNED_DOCUMENT_FORMAT then
        map_option dv_authentic (verify_signed_document E v NoNow None None PNone no_policy) = Some True
      else if f = PStr ID_TOKEN_FORMAT then Documents.it_authentic (verify_id_token E v PNone PNone NoNow None)
      else if f = PStr TRUST_LIST_FORMAT then tl_authentic (verify_trust_list E v NoNow None None)
      else if f = PStr EXCHANGE_RECEIPT_FORMAT then
        map_option er_authentic (verify_exchange_receipt E v NoNow None None None None None) = Some True
      else if f = PStr EXCHANGE_MINT_FORMAT then mt_authentic (verify_exchange_mint E v None)
      else if f = PStr ATTESTATION_FORMAT then at_authentic (verify_attestation E v PNone PNone NoNow)
      else if f = PStr HOLDER_BINDING_FORMAT then
        map_option hb_authentic (verify_holder_binding E v PNone NoNow None None) = Some True
      else if f = PStr HOLDER_PROOF_FORMAT then hp_authentic (verify_holder_proof E v PNone PNone PNone NoNow 300)
      else if f = PStr AGENT_GRANT_FORMAT then
        map_option gv_authentic (verify_agent_grant E v PNone PNone NoNow PNone PNone PNone PNone None PNone PNone False) = Some True
      else if f = PStr GRANT_REVOCATION_FORMAT then sv_authentic (verify_grant_revocation E v)
      else if f = PStr AGENT_PROOF_FORMAT then sv_authentic (verify_agent_proof E v)
      else f = PStr EPOCH_LEAVES_FORMAT \<and> map_option lf_authentic (verify_epoch_leaves E v NoNow None None PNone) = Some True)"

text \<open>
  It raises where a document carries evidence, which nobody signs, that cannot be read, or a grant limits
  no float holds.
\<close>

definition detached_raises :: "env \<Rightarrow> pydict \<Rightarrow> bool" where
  "detached_raises E d \<longleftrightarrow>
     (py_get d ''format'' = PStr SIGNED_DOCUMENT_FORMAT \<and> verify_signed_document E (PDict d) NoNow None None PNone no_policy = None) \<or>
     (py_get d ''format'' = PStr AGENT_GRANT_FORMAT \<and>
      verify_agent_grant E (PDict d) PNone PNone NoNow PNone PNone PNone PNone None PNone PNone False = None)"

definition detached_accepts :: "env \<Rightarrow> pydict \<Rightarrow> bool" where
  "detached_accepts E d \<longleftrightarrow> detached_authentic E d \<or> detached_raises E d"

lemma authentic_or_raised_iff: "authentic_or_raised f r \<longleftrightarrow> map_option f r = Some True \<or> r = None"
  by (auto simp: authentic_or_raised_def split: option.split)

lemma formats_distinct:
  "distinct [EPOCH_CHECKPOINT_FORMAT, REVOCATION_FEED_FORMAT, MANIFEST_FORMAT, STATUS_BUNDLE_FORMAT, STH_FORMAT, TIMESTAMP_FORMAT,
     REGISTRY_FORMAT, EXCHANGE_REQUEST_FORMAT, SIGNED_DOCUMENT_FORMAT, ID_TOKEN_FORMAT, TRUST_LIST_FORMAT, EXCHANGE_RECEIPT_FORMAT,
     EXCHANGE_MINT_FORMAT, ATTESTATION_FORMAT, HOLDER_BINDING_FORMAT, HOLDER_PROOF_FORMAT, AGENT_GRANT_FORMAT,
     GRANT_REVOCATION_FORMAT, AGENT_PROOF_FORMAT, EPOCH_LEAVES_FORMAT]"
  by (simp add: artifact_formats lit_eq_iff)

text \<open>The mint: without an algorithm of its own, the one its key's length names.\<close>

lemma mint_alg_eq:
  assumes "py_true (py_get d ''public_key_hex'')"
  shows "artifact_alg EXCHANGE_MINT_FORMAT d = mint_algorithm d"
proof -
  have "List.find (\<lambda>(name, pk_len, sig_len). length pk = pk_len \<and> sdk_accepted (PStr name)) ALGORITHM_SIZES =
      map_option (\<lambda>(name, _, sizes). (name, sizes)) (List.find (\<lambda>(name, cls, pk_len, sig_len). length pk = pk_len) ACCEPTED)"
    for pk :: bytes
    by (simp add: ALGORITHM_SIZES_def ACCEPTED_def sdk_accepted_def ACCEPTED_ALGORITHMS_def)
  then have "sdk_alg_for_key_length v = alg_for_key_length v" if "py_true v" for v
    using that by (auto simp: sdk_alg_for_key_length_def alg_for_key_length_def split: option.split)
  then show ?thesis
    using assms by (simp add: artifact_alg_def mint_algorithm_def EXCHANGE_MINT_FORMAT_def)
qed

lemma mint_agrees:
  assumes "py_get d ''format'' = PStr EXCHANGE_MINT_FORMAT"
  shows "af_authentic (verify_signed_artifact E (PDict d) now anchors) \<longleftrightarrow> mt_authentic (verify_exchange_mint (live E) (PDict d) rk)"
proof (cases "py_true (py_get d ''public_key_hex'')")
  case True
  have "\<not> placeholder_envelope d" if "signed_under (live E) EXCHANGE_MINT_FIELDS d (mint_algorithm d)"
  proof -
    have "accepted_alg (mint_algorithm d)"
      using that by (auto simp: signed_under_def two_witness_verify_def split: option.splits if_splits)
    then show ?thesis
      using True not_accepted_placeholder by (auto simp: placeholder_envelope_def mint_algorithm_def split: if_splits)
  qed
  then show ?thesis
    using assms True mint_alg_eq [OF True] formats_distinct
    by (auto simp: artifact_authentic [OF assms artifact_keys(13)] mint_authentic rule_others)
next
  case False
  then show ?thesis
    by (simp add: artifact_authentic [OF assms artifact_keys(13)] mint_authentic placeholder_envelope_def)
qed

text \<open>Every other format: the SDK's answer is the detached verifier's, where the signature and the key are text.\<close>

lemma text_and:
  "signed_statement E names d \<longleftrightarrow> text_envelope d \<and> signed_statement E names d"
  using signed_is_text by blast

lemma text_text:
  "signed_statement E names d \<longleftrightarrow> text_envelope d \<and> \<not> placeholder_envelope d \<and> text_signed E names d"
  using text_signed_iff signed_under_no_placeholder by blast

lemma standalone_text:
  "text_envelope d \<and> sv_authentic (verify_standalone E fmt names (PDict d)) \<longleftrightarrow> py_get d ''format'' = PStr fmt \<and> signed_statement E names d"
  using signed_by_iff [of d E names] signed_is_text by (auto simp: standalone_authentic)

lemma attestation_authentic:
  "at_authentic (verify_attestation E (PDict d) agency key now) \<longleftrightarrow>
     py_get d ''format'' = PStr ATTESTATION_FORMAT \<and> signed_statement E ATTESTATION_FIELDS d"
proof (cases "unsigned_edge d")
  case True
  then have "\<not> signed_statement E ATTESTATION_FIELDS d"
    using signed_under_no_placeholder by (auto simp: unsigned_edge_def placeholder_envelope_def)
  then show ?thesis using True by (simp add: verify_attestation_unsigned blank_attestation_def)
next
  case False
  then show ?thesis by (rule verify_attestation_signed)
qed

lemma detached_by_format:
  "py_get d ''format'' = PStr EPOCH_CHECKPOINT_FORMAT \<Longrightarrow> detached_accepts E d \<longleftrightarrow>
     map_option ec_authentic (verify_epoch_checkpoint E (PDict d) NoNow None None) = Some True"
  "py_get d ''format'' = PStr REVOCATION_FEED_FORMAT \<Longrightarrow> detached_accepts E d \<longleftrightarrow>
     map_option rf_authentic (verify_revocation_feed E (PDict d) NoNow None None) = Some True"
  "py_get d ''format'' = PStr MANIFEST_FORMAT \<Longrightarrow> detached_accepts E d \<longleftrightarrow>
     map_option mv_authentic (verify_manifest E (PDict d) NoNow None None) = Some True"
  "py_get d ''format'' = PStr STATUS_BUNDLE_FORMAT \<Longrightarrow> detached_accepts E d \<longleftrightarrow>
     map_option sb_authentic (verify_status_bundle E (PDict d) NoNow None None) = Some True"
  "py_get d ''format'' = PStr STH_FORMAT \<Longrightarrow> detached_accepts E d \<longleftrightarrow>
     th_authentic (verify_sth E (PDict d) None)"
  "py_get d ''format'' = PStr TIMESTAMP_FORMAT \<Longrightarrow> detached_accepts E d \<longleftrightarrow>
     ts_authentic (verify_timestamp E (PDict d) None)"
  "py_get d ''format'' = PStr REGISTRY_FORMAT \<Longrightarrow> detached_accepts E d \<longleftrightarrow>
     rg_authentic (verify_registry E (PDict d) NoNow None None)"
  "py_get d ''format'' = PStr EXCHANGE_REQUEST_FORMAT \<Longrightarrow> detached_accepts E d \<longleftrightarrow>
     map_option rq_authentic (verify_exchange_request E (PDict d) None None None NoNow) = Some True"
  "py_get d ''format'' = PStr SIGNED_DOCUMENT_FORMAT \<Longrightarrow> detached_accepts E d \<longleftrightarrow>
     authentic_or_raised dv_authentic (verify_signed_document E (PDict d) NoNow None None PNone no_policy)"
  "py_get d ''format'' = PStr ID_TOKEN_FORMAT \<Longrightarrow> detached_accepts E d \<longleftrightarrow>
     Documents.it_authentic (verify_id_token E (PDict d) PNone PNone NoNow None)"
  "py_get d ''format'' = PStr TRUST_LIST_FORMAT \<Longrightarrow> detached_accepts E d \<longleftrightarrow>
     tl_authentic (verify_trust_list E (PDict d) NoNow None None)"
  "py_get d ''format'' = PStr EXCHANGE_RECEIPT_FORMAT \<Longrightarrow> detached_accepts E d \<longleftrightarrow>
     map_option er_authentic (verify_exchange_receipt E (PDict d) NoNow None None None None None) = Some True"
  "py_get d ''format'' = PStr EXCHANGE_MINT_FORMAT \<Longrightarrow> detached_accepts E d \<longleftrightarrow>
     mt_authentic (verify_exchange_mint E (PDict d) None)"
  "py_get d ''format'' = PStr ATTESTATION_FORMAT \<Longrightarrow> detached_accepts E d \<longleftrightarrow>
     at_authentic (verify_attestation E (PDict d) PNone PNone NoNow)"
  "py_get d ''format'' = PStr HOLDER_BINDING_FORMAT \<Longrightarrow> detached_accepts E d \<longleftrightarrow>
     map_option hb_authentic (verify_holder_binding E (PDict d) PNone NoNow None None) = Some True"
  "py_get d ''format'' = PStr HOLDER_PROOF_FORMAT \<Longrightarrow> detached_accepts E d \<longleftrightarrow>
     hp_authentic (verify_holder_proof E (PDict d) PNone PNone PNone NoNow 300)"
  "py_get d ''format'' = PStr AGENT_GRANT_FORMAT \<Longrightarrow> detached_accepts E d \<longleftrightarrow>
     authentic_or_raised gv_authentic (verify_agent_grant E (PDict d) PNone PNone NoNow PNone PNone PNone PNone None PNone PNone False)"
  "py_get d ''format'' = PStr GRANT_REVOCATION_FORMAT \<Longrightarrow> detached_accepts E d \<longleftrightarrow>
     sv_authentic (verify_grant_revocation E (PDict d))"
  "py_get d ''format'' = PStr AGENT_PROOF_FORMAT \<Longrightarrow> detached_accepts E d \<longleftrightarrow>
     sv_authentic (verify_agent_proof E (PDict d))"
  "py_get d ''format'' = PStr EPOCH_LEAVES_FORMAT \<Longrightarrow> detached_accepts E d \<longleftrightarrow>
     map_option lf_authentic (verify_epoch_leaves E (PDict d) NoNow None None PNone) = Some True"
  by (simp_all add: detached_accepts_def detached_authentic_def detached_raises_def authentic_or_raised_iff artifact_formats lit_eq_iff del: map_option_eq_Some)

lemma sdk_by_format:
  "py_get d ''format'' = PStr EPOCH_CHECKPOINT_FORMAT \<Longrightarrow> af_authentic (verify_signed_artifact E (PDict d) now anchors) \<longleftrightarrow>
     signed_statement (live E) EPOCH_CHECKPOINT_FIELDS d"
  "py_get d ''format'' = PStr REVOCATION_FEED_FORMAT \<Longrightarrow> af_authentic (verify_signed_artifact E (PDict d) now anchors) \<longleftrightarrow>
     signed_statement (live E) REVOCATION_FEED_FIELDS d \<and> feed_commits E d"
  "py_get d ''format'' = PStr MANIFEST_FORMAT \<Longrightarrow> af_authentic (verify_signed_artifact E (PDict d) now anchors) \<longleftrightarrow>
     signed_statement (live E) MANIFEST_FIELDS d \<and> hex_in (py_get d ''public_key_hex'') (active_anchor_keys (as_list (py_get d ''anchors'')))"
  "py_get d ''format'' = PStr STATUS_BUNDLE_FORMAT \<Longrightarrow> af_authentic (verify_signed_artifact E (PDict d) now anchors) \<longleftrightarrow>
     signed_statement (live E) STATUS_BUNDLE_FIELDS d \<and> bundle_commits E d"
  "py_get d ''format'' = PStr STH_FORMAT \<Longrightarrow> af_authentic (verify_signed_artifact E (PDict d) now anchors) \<longleftrightarrow>
     signed_statement (live E) STH_FIELDS d \<and> signed_count (py_get d ''tree_size'')"
  "py_get d ''format'' = PStr TIMESTAMP_FORMAT \<Longrightarrow> af_authentic (verify_signed_artifact E (PDict d) now anchors) \<longleftrightarrow>
     signed_statement (live E) TIMESTAMP_FIELDS d \<and> instant_at d ''issued_at'' \<noteq> None \<and> lower_digest d"
  "py_get d ''format'' = PStr REGISTRY_FORMAT \<Longrightarrow> af_authentic (verify_signed_artifact E (PDict d) now anchors) \<longleftrightarrow>
     signed_statement (live E) REGISTRY_FIELDS d \<and> hex_in (py_get d ''public_key_hex'') (publisher_keys status_of d ''authorities'')"
  "py_get d ''format'' = PStr EXCHANGE_REQUEST_FORMAT \<Longrightarrow> af_authentic (verify_signed_artifact E (PDict d) now anchors) \<longleftrightarrow>
     signed_statement (live E) EXCHANGE_REQUEST_FIELDS d"
  "py_get d ''format'' = PStr SIGNED_DOCUMENT_FORMAT \<Longrightarrow> af_authentic (verify_signed_artifact E (PDict d) now anchors) \<longleftrightarrow>
     signed_statement (live E) SIGNED_DOCUMENT_FIELDS d \<and> lower_digest (as_dict (py_get d ''document''))"
  "py_get d ''format'' = PStr ID_TOKEN_FORMAT \<Longrightarrow> af_authentic (verify_signed_artifact E (PDict d) now anchors) \<longleftrightarrow>
     signed_statement (live E) ID_TOKEN_FIELDS d"
  "py_get d ''format'' = PStr TRUST_LIST_FORMAT \<Longrightarrow> af_authentic (verify_signed_artifact E (PDict d) now anchors) \<longleftrightarrow>
     signed_statement (live E) TRUST_LIST_FIELDS d \<and> hex_in (py_get d ''public_key_hex'') (trust_list_publisher_keys d)"
  "py_get d ''format'' = PStr EXCHANGE_RECEIPT_FORMAT \<Longrightarrow> af_authentic (verify_signed_artifact E (PDict d) now anchors) \<longleftrightarrow>
     signed_statement (live E) EXCHANGE_RECEIPT_FIELDS d"
  "py_get d ''format'' = PStr ATTESTATION_FORMAT \<Longrightarrow> af_authentic (verify_signed_artifact E (PDict d) now anchors) \<longleftrightarrow>
     signed_statement (live E) ATTESTATION_FIELDS d"
  "py_get d ''format'' = PStr HOLDER_BINDING_FORMAT \<Longrightarrow> af_authentic (verify_signed_artifact E (PDict d) now anchors) \<longleftrightarrow>
     signed_statement (live E) HOLDER_BINDING_FIELDS d"
  "py_get d ''format'' = PStr HOLDER_PROOF_FORMAT \<Longrightarrow> af_authentic (verify_signed_artifact E (PDict d) now anchors) \<longleftrightarrow>
     signed_statement (live E) HOLDER_PROOF_FIELDS d"
  "py_get d ''format'' = PStr AGENT_GRANT_FORMAT \<Longrightarrow> af_authentic (verify_signed_artifact E (PDict d) now anchors) \<longleftrightarrow>
     signed_statement (live E) AGENT_GRANT_FIELDS d \<and> wire_text (py_get d ''grant_id'') \<noteq> None"
  "py_get d ''format'' = PStr GRANT_REVOCATION_FORMAT \<Longrightarrow> af_authentic (verify_signed_artifact E (PDict d) now anchors) \<longleftrightarrow>
     signed_statement (live E) GRANT_REVOCATION_FIELDS d"
  "py_get d ''format'' = PStr AGENT_PROOF_FORMAT \<Longrightarrow> af_authentic (verify_signed_artifact E (PDict d) now anchors) \<longleftrightarrow>
     signed_statement (live E) AGENT_PROOF_FIELDS d"
  "py_get d ''format'' = PStr EPOCH_LEAVES_FORMAT \<Longrightarrow> af_authentic (verify_signed_artifact E (PDict d) now anchors) \<longleftrightarrow>
     signed_statement (live E) EPOCH_LEAVES_FIELDS d \<and> set_committed E d"
  using formats_distinct
  by (auto simp: artifact_signed [OF _ artifact_keys(1)] artifact_signed [OF _ artifact_keys(2)] artifact_signed [OF _ artifact_keys(3)] artifact_signed [OF _ artifact_keys(4)] artifact_signed [OF _ artifact_keys(5)] artifact_signed [OF _ artifact_keys(6)] artifact_signed [OF _ artifact_keys(7)] artifact_signed [OF _ artifact_keys(8)] artifact_signed [OF _ artifact_keys(9)] artifact_signed [OF _ artifact_keys(10)] artifact_signed [OF _ artifact_keys(11)] artifact_signed [OF _ artifact_keys(12)] artifact_signed [OF _ artifact_keys(14)] artifact_signed [OF _ artifact_keys(15)] artifact_signed [OF _ artifact_keys(16)] artifact_signed [OF _ artifact_keys(17)] artifact_signed [OF _ artifact_keys(18)] artifact_signed [OF _ artifact_keys(19)] artifact_signed [OF _ artifact_keys(20)]
      rule_feed rule_leaves rule_bundle rule_trust_list rule_registry rule_others rule_timestamp)

lemma live_commits [simp]: "feed_commits (live E) d = feed_commits E d" "bundle_commits (live E) d = bundle_commits E d"
  "set_committed (live E) d = set_committed E d"
  by (simp_all add: feed_commits_def bundle_commits_def set_committed_def Let_def)

lemma manifest_signed_statement:
  "manifest_signed E d \<longleftrightarrow> py_get d ''format'' = PStr MANIFEST_FORMAT \<and>
     hex_in (py_get d ''public_key_hex'') (active_anchor_keys (as_list (py_get d ''anchors''))) \<and> signed_statement E MANIFEST_FIELDS d"
  by (simp add: manifest_signed_def signed_statement_def)

lemma find_SomeD: "List.find P xs = Some x \<Longrightarrow> x \<in> set xs \<and> P x"
  by (induction xs) (auto split: if_splits)

lemma registry_publisher_listed:
  assumes "registry_publisher_key d = Some k"
  shows "Some k \<in> set (publisher_keys status_of d ''authorities'')"
proof -
  let ?P = "\<lambda>a. is_dict a \<and> same_id (py_get (as_dict a) ''agency_id'') (py_get (as_dict (py_get d ''publisher'')) ''agency_id'') \<and>
      status_of (as_dict a) = PStr (lit ''active'')"
  obtain a where a: "List.find (\<lambda>a. is_dict a \<and> same_id (py_get (as_dict a) ''agency_id'') (py_get (as_dict (py_get d ''publisher'')) ''agency_id'') \<and>
      status_of (as_dict a) = PStr (lit ''active'') \<and> py_true (py_get (as_dict a) ''public_key_hex''))
      (as_list (py_get d ''authorities'')) = Some a" "hex_text (py_get (as_dict a) ''public_key_hex'') = Some k"
    using assms by (auto simp: registry_publisher_key_def Let_def split: option.splits)
  have m: "a \<in> set (filter ?P (as_list (py_get d ''authorities'')))" using find_SomeD [OF a(1)] by simp
  show ?thesis unfolding publisher_keys_def Let_def set_map image_iff by (rule bexI [OF _ m]) (simp only: a(2))
qed

lemma registry_authentic: "rg_authentic (verify_registry E (PDict d) now cap ta) \<longleftrightarrow> registry_signed E d"
proof (cases "registry_signed E d")
  case True
  then have "\<not> placeholder_envelope d"
    using signed_text_signed(2)
    by (fastforce simp: registry_signed_def placeholder_envelope_def hex_text_def py_true_def split: pyval.splits if_splits)
  then show ?thesis
    using True
    by (auto simp: verify_registry_def Let_def blank_registry_def registry_signed_def text_signed_def
      judged_def split: option.splits prod.splits bool.splits)
next
  case False
  then show ?thesis
    by (auto simp: verify_registry_def Let_def blank_registry_def registry_signed_def judged_def text_signed_def
      split: option.splits prod.splits bool.splits)
qed

text \<open>
  A registry the detached verifier accepts the SDK accepts; the other way the signing key has to be
  that of the publisher's first active entry with a key.
\<close>

lemma registry_agreement:
  "af_authentic (verify_signed_artifact E (PDict d) now anchors) \<and> py_get d ''format'' = PStr REGISTRY_FORMAT \<and>
     registry_publisher_key d = hex_text (py_get d ''public_key_hex'') \<longleftrightarrow>
   text_envelope d \<and> rg_authentic (verify_registry (live E) (PDict d) later cap ta)"
proof (cases "py_get d ''format'' = PStr REGISTRY_FORMAT \<and> registry_publisher_key d = hex_text (py_get d ''public_key_hex'')")
  case True
  define k where "k = registry_publisher_key d"
  have "hex_in (py_get d ''public_key_hex'') (publisher_keys status_of d ''authorities'')" if "hex_text (py_get d ''public_key_hex'') \<noteq> None"
    using that registry_publisher_listed [of d] True by (auto simp: hex_in_def)
  moreover have "hex_in v ks \<Longrightarrow> hex_text v \<noteq> None" for v ks by (simp add: hex_in_def)
  ultimately have "af_authentic (verify_signed_artifact E (PDict d) now anchors) \<longleftrightarrow>
      signed_statement (live E) REGISTRY_FIELDS d \<and> hex_text (py_get d ''public_key_hex'') \<noteq> None"
    using True by (auto simp only: sdk_by_format)
  then show ?thesis
    using True text_signed_iff [of d "live E" REGISTRY_FIELDS] by (simp only: registry_authentic registry_signed_def simp_thms) blast
next
  case False
  then show ?thesis by (auto simp: registry_authentic registry_signed_def)
qed

lemma request_authentic:
  "map_option rq_authentic (verify_exchange_request E (PDict d) None None None now) = Some True \<longleftrightarrow> request_signed E d"
proof (cases "request_signed E d")
  case True
  then obtain key where k: "hex_text (py_get d ''public_key_hex'') = Some key"
    by (auto simp: request_signed_def same_hex_def)
  obtain tried where "verify_exchange_request E (PDict d) None None None now =
      request_checks E d key None None None now (blank_request\<lparr>rq_authentic := True, rq_witnesses := tried\<rparr>)"
    by (rule verify_request_signed [OF True k])
  then show ?thesis using True by (simp add: request_checks_def)
next
  case False
  then show ?thesis using request_unsigned [OF False, of None None None now] by auto
qed

text \<open>
  The signer the detached verifier asks for and the SDK does not: of a registry, the key of its publisher's
  first active entry with a key; of a request, the key of the requester it names.
\<close>

definition own_signer :: "pydict \<Rightarrow> bool" where
  "own_signer d \<longleftrightarrow>
     (py_get d ''format'' = PStr REGISTRY_FORMAT \<longrightarrow> registry_publisher_key d = hex_text (py_get d ''public_key_hex'')) \<and>
     (py_get d ''format'' = PStr EXCHANGE_REQUEST_FORMAT \<longrightarrow>
      same_hex (py_get (as_dict (py_get d ''requester'')) ''public_key_hex'') (py_get d ''public_key_hex''))"

lemma registry_agrees:
  assumes f: "py_get d ''format'' = PStr REGISTRY_FORMAT"
  shows "af_authentic (verify_signed_artifact E (PDict d) now anchors) \<and> own_signer d \<longleftrightarrow> text_envelope d \<and> detached_accepts (live E) d"
proof -
  have "own_signer d \<longleftrightarrow> registry_publisher_key d = hex_text (py_get d ''public_key_hex'')"
    using f by (simp add: own_signer_def artifact_formats lit_eq_iff)
  then show ?thesis
    using registry_agreement [of E d now anchors NoNow None None] f by (simp only: detached_by_format(7) [OF f]) blast
qed

lemma request_agreement:
  assumes f: "py_get d ''format'' = PStr EXCHANGE_REQUEST_FORMAT"
  shows "af_authentic (verify_signed_artifact E (PDict d) now anchors) \<and> own_signer d \<longleftrightarrow> text_envelope d \<and> detached_accepts (live E) d"
proof -
  have "own_signer d \<longleftrightarrow> same_hex (py_get (as_dict (py_get d ''requester'')) ''public_key_hex'') (py_get d ''public_key_hex'')"
    using f by (simp add: own_signer_def artifact_formats lit_eq_iff)
  then show ?thesis
    using text_signed_iff [of d "live E" EXCHANGE_REQUEST_FIELDS]
    by (simp only: detached_by_format(8) [OF f] sdk_by_format(8) [OF f] request_authentic request_signed_def f simp_thms) blast
qed

lemma agrees_on_known:
  assumes "py_get d ''format'' = PStr f" "map_of ARTIFACT_KEYS f = Some keys" "f \<notin> {REGISTRY_FORMAT, EXCHANGE_REQUEST_FORMAT}"
  shows "af_authentic (verify_signed_artifact E (PDict d) now anchors) \<longleftrightarrow> text_envelope d \<and> detached_accepts (live E) d"
proof -
  have signed: ?thesis if "f \<in> {EPOCH_CHECKPOINT_FORMAT, REVOCATION_FEED_FORMAT, STATUS_BUNDLE_FORMAT, STH_FORMAT,
      EXCHANGE_RECEIPT_FORMAT, ATTESTATION_FORMAT, HOLDER_BINDING_FORMAT, HOLDER_PROOF_FORMAT}"
    using that assms(1) signed_is_text
    by (auto simp: sdk_by_format detached_by_format checkpoint_authentic feed_authentic bundle_authentic verify_sth_authentic sth_signed_def
        receipt_authentic receipt_signed_def attestation_authentic binding_authentic binding_signed_def proof_authentic
        simp del: map_option_eq_Some)
  have leaves: ?thesis if "f = EPOCH_LEAVES_FORMAT"
    using that assms(1) signed_is_text
    by (auto simp: sdk_by_format detached_by_format leaves_authentic_iff leaves_signed_def simp del: map_option_eq_Some)
  have texts: ?thesis if "f \<in> {TIMESTAMP_FORMAT, SIGNED_DOCUMENT_FORMAT, ID_TOKEN_FORMAT, TRUST_LIST_FORMAT}"
    using that assms(1) text_text [of "live E"]
    by (auto simp: sdk_by_format detached_by_format timestamp_authentic_iff document_authentic document_signed_def token_authentic
        trust_list_authentic trust_list_signed_def)
  have manifest: ?thesis if "f = MANIFEST_FORMAT"
    using that assms(1) signed_is_text
    by (auto simp: sdk_by_format detached_by_format manifest_authentic manifest_signed_statement
        simp del: map_option_eq_Some)
  have standalone: ?thesis if "f \<in> {AGENT_GRANT_FORMAT, GRANT_REVOCATION_FORMAT, AGENT_PROOF_FORMAT}"
    using that assms(1) signed_is_text signed_by_iff [of d "live E"]
    by (auto simp: sdk_by_format detached_by_format verify_grant_revocation_def verify_agent_proof_def standalone_authentic
        grant_authentic grant_signed_def)
  have mint: ?thesis if "f = EXCHANGE_MINT_FORMAT"
    using that assms(1) signed_under_text by (auto simp: mint_agrees [where rk = None] detached_by_format mint_authentic)
  show ?thesis
    using known_format [OF assms(2)] assms(3) signed leaves texts manifest standalone mint by blast
qed

lemma accepts_known:
  assumes "detached_accepts E d"
  shows "\<exists>f keys. py_get d ''format'' = PStr f \<and> map_of ARTIFACT_KEYS f = Some keys"
proof (rule ccontr)
  assume "\<nexists>f keys. py_get d ''format'' = PStr f \<and> map_of ARTIFACT_KEYS f = Some keys"
  then have n: "py_get d ''format'' \<noteq> PStr f" if "map_of ARTIFACT_KEYS f = Some keys" for f keys
    using that by blast
  have "\<not> detached_accepts E d"
    by (simp only: detached_accepts_def detached_authentic_def detached_raises_def Let_def if_False simp_thms n [OF artifact_keys(1)] n [OF artifact_keys(2)] n [OF artifact_keys(3)] n [OF artifact_keys(4)] n [OF artifact_keys(5)] n [OF artifact_keys(6)] n [OF artifact_keys(7)] n [OF artifact_keys(8)] n [OF artifact_keys(9)] n [OF artifact_keys(10)] n [OF artifact_keys(11)] n [OF artifact_keys(12)] n [OF artifact_keys(13)] n [OF artifact_keys(14)] n [OF artifact_keys(15)] n [OF artifact_keys(16)] n [OF artifact_keys(17)] n [OF artifact_keys(18)] n [OF artifact_keys(19)] n [OF artifact_keys(20)])
  then show False using assms by blast
qed

lemma sdk_agrees:
  "af_authentic (verify_signed_artifact E (PDict d) now anchors) \<and> own_signer d \<longleftrightarrow> text_envelope d \<and> detached_accepts (live E) d"
proof (cases "\<exists>f keys. py_get d ''format'' = PStr f \<and> map_of ARTIFACT_KEYS f = Some keys")
  case True
  then obtain f keys where f: "py_get d ''format'' = PStr f" "map_of ARTIFACT_KEYS f = Some keys" by blast
  show ?thesis
  proof (cases "f \<in> {REGISTRY_FORMAT, EXCHANGE_REQUEST_FORMAT}")
    case True
    then show ?thesis using f(1) registry_agrees request_agreement by blast
  next
    case False
    then have "own_signer d" using f(1) by (auto simp: own_signer_def)
    then show ?thesis using agrees_on_known [OF f False] by blast
  qed
next
  case False
  then show ?thesis using artifact_unknown [OF False] accepts_known [of "live E" d] by blast
qed

section \<open>The credential and the assertion\<close>

lemma sdk_pack_authentic:
  "au_authentic (verify_authenticity E (PDict p) anchors) \<longleftrightarrow> pack_signed (live E) p"
proof (cases "\<exists>s. py_get p ''token_value'' = PStr s \<and> token_value_serial_problem (PStr s) = None")
  case True
  then obtain s where s: "py_get p ''token_value'' = PStr s" "token_value_serial_problem (PStr s) = None" by blast
  have "py_true (PStr s)" using s(2) by (auto simp: token_value_serial_problem_def py_true_def)
  note sized = sized_not_empty [of "py_get p ''algorithm''"]
  show ?thesis
  proof (cases "accepted_alg (py_get p ''algorithm'') \<and> py_true (py_get p ''public_key_hex'') \<and> py_true (py_get p ''signature_hex'')")
    case True
    then have "py_get p ''algorithm'' \<noteq> PStr PLACEHOLDER" using not_accepted_placeholder by blast
    then show ?thesis
      using True s(2) \<open>py_true (PStr s)\<close>
      by (simp add: verify_authenticity_def Let_def pack_signed_def signature_holds_def envelope_bytes_def sdk_accepted_iff s(1)
          sdk_size_problem_eq sdk_cryptography_eq sdk_liboqs_eq agreed_sym [of "verify_cryptography _ _ _ _ _"]
          split: option.split sum.split)
  next
    case False
    have "\<not> pack_signed (live E) p"
    proof
      assume "pack_signed (live E) p"
      then obtain sg pk where "unhex (py_get p ''signature_hex'') = Some sg" "unhex (py_get p ''public_key_hex'') = Some pk"
        "size_problem (py_get p ''algorithm'') pk sg = None"
        by (auto simp: pack_signed_def signature_holds_def envelope_bytes_def s(1) split: option.splits)
      then show False using False sized unhex_true by blast
    qed
    moreover have "\<not> au_authentic (verify_authenticity E (PDict p) anchors)"
      using False by (auto simp: verify_authenticity_def Let_def sdk_accepted_iff)
    ultimately show ?thesis by blast
  qed
next
  case False
  have "\<not> pack_signed (live E) p" using False by (auto simp: pack_signed_def split: pyval.splits)
  moreover have "token_value_serial_problem (py_get p ''token_value'') \<noteq> None"
    using False by (cases "py_get p ''token_value''") (auto simp: token_value_serial_problem_def)
  then have "\<not> au_authentic (verify_authenticity E (PDict p) anchors)"
    by (auto simp: verify_authenticity_def Let_def split: option.split)
  ultimately show ?thesis by blast
qed

lemma sdk_assertion_authentic:
  "as_authentic (sdk_status_assertion E (PDict a) now) \<longleftrightarrow> assertion_signed (live E) a"
proof -
  have s: "assertion_signed (live E) a \<longleftrightarrow> py_get a ''format'' = PStr STATUS_ASSERTION_FORMAT \<and>
      signed_statement (live E) STATUS_ASSERTION_FIELDS a"
    by (simp add: assertion_signed_def signed_statement_def)
  show ?thesis
    using over_digest_signed [of E STATUS_ASSERTION_FIELDS a "py_get a ''algorithm''"] signed_under_no_placeholder
    by (auto simp: s signed_under_own sdk_status_assertion_def Let_def split: option.splits prod.splits)
qed

text \<open>The difference: two active entries of the publisher, the registry signed by the second's key.\<close>

definition registry_entry :: "pyval \<Rightarrow> pyval" where
  "registry_entry key = PDict [(lit ''agency_id'', PInt 1), (lit ''status'', PStr (lit ''active'')), (lit ''public_key_hex'', key)]"

definition two_entry_registry :: pydict where
  "two_entry_registry =
     [(lit ''format'', PStr REGISTRY_FORMAT), (lit ''publisher'', PDict [(lit ''agency_id'', PInt 1)]),
      (lit ''authorities'', PList [registry_entry (PStr (lit ''ab'')), registry_entry sample_key])] @ sample_envelope"

lemma registry_divergence:
  "af_authentic (verify_signed_artifact trusting_env (PDict two_entry_registry) now anchors) \<and>
   \<not> rg_authentic (verify_registry (live trusting_env) (PDict two_entry_registry) now cap anchors)"
proof -
  have f: "py_get two_entry_registry ''format'' = PStr REGISTRY_FORMAT"
    "py_get two_entry_registry ''publisher'' = PDict [(lit ''agency_id'', PInt 1)]"
    "py_get two_entry_registry ''authorities'' = PList [registry_entry (PStr (lit ''ab'')), registry_entry sample_key]"
    by (simp_all add: two_entry_registry_def)
  have k: "py_get two_entry_registry ''public_key_hex'' = sample_key"
    by (rule sample_envelope_fields [OF two_entry_registry_def]) (auto simp: lit_eq_iff)
  have "signed_statement trusting_env REGISTRY_FIELDS two_entry_registry"
    by (rule sample_signed [OF two_entry_registry_def])
      (use sample_key(1) in \<open>auto simp: lit_eq_iff registry_entry_def REGISTRY_FORMAT_def nat_digits.simps\<close>)
  then have s: "signed_statement (live trusting_env) REGISTRY_FIELDS two_entry_registry"
    by (simp add: live_def trusting_env_def no_backend_def)
  have e: "as_dict (registry_entry v) = [(lit ''agency_id'', PInt 1), (lit ''status'', PStr (lit ''active'')), (lit ''public_key_hex'', v)]"
    "is_dict (registry_entry v)" for v
    by (simp_all add: registry_entry_def as_dict_def is_dict_def)
  have n: "hex_text (PStr (lit ''ab'')) \<noteq> hex_text sample_key"
    using fromhex_hex_of_lower [OF fromhex_hex_of, of "replicate 1952 1"]
    by (auto simp: hex_text_def sample_key_def py_lower_def lit_def dest!: arg_cong [of _ "hex_of (replicate 1952 1)" length])
  have i: "same_id (PInt 1) (PInt 1)" by (simp add: same_id_def is_str_def safe_int_def MAX_SAFE_INTEGER_def num_value_def)
  have ab: "py_true (PStr (lit ''ab''))" by (simp add: py_true_def)
  show ?thesis
    using sample_key(2,3) n i ab
    by (simp add: sdk_by_format registry_authentic registry_signed_def f k s e publisher_keys_def registry_publisher_key_def Let_def
        status_of_def hex_in_def)
qed

lemma assertion_authentic:
  "map_option sa_authentic (verify_status_assertion E (PDict a) now None ak) = Some True \<longleftrightarrow> assertion_signed E a"
proof (cases "assertion_signed E a")
  case True
  let ?v = "authentic_blank E a ak"
  obtain fresh why where "verify_window_inline E a now None = Some (fresh, why)" using inline_uncapped [of E a now] by auto
  then have "sa_window E a now None ak ?v \<noteq> None" by (simp add: sa_window_def Let_def)
  then obtain v' where v: "sa_window E a now None ak ?v = Some v'" by blast
  then have "sa_authentic v'"
    using sa_window_fields(1) authentic_blank_simps(1,3) [OF True] by blast
  then show ?thesis using v by (simp add: verify_status_assertion_signed [OF True] True)
next
  case False
  obtain v where "verify_status_assertion E (PDict a) now None ak = Some v" "\<not> sa_authentic v"
    by (rule verify_status_assertion_unsigned [OF False])
  then show ?thesis using False by simp
qed

section \<open>Properties\<close>

text \<open>
  C11. The SDK and the detached verifier are two programs with one answer. Of a credential and of a status
  assertion the SDK says it is authentic exactly when the detached verifier outside development mode does.
  Of a signed artifact, whatever its format, it says so exactly when the signature and the key are text and
  the detached verifier, asked through the function of the format, says so or raises over what nobody signs;
  except for a registry not signed by its publisher's first active entry and a request not signed by its
  requester, which the detached verifier alone refuses.
\<close>

theorem sdk_and_detached_agree:
  "(af_authentic (verify_signed_artifact E (PDict d) now anchors) \<and> own_signer d \<longleftrightarrow>
    text_envelope d \<and> (detached_authentic (live E) d \<or> detached_raises (live E) d)) \<and>
   (au_authentic (verify_authenticity E (PDict p) anchors) \<longleftrightarrow> pv_valid (verify_pack (live E) (PDict p) anchors)) \<and>
   (as_authentic (sdk_status_assertion E (PDict a) now) \<longleftrightarrow>
    map_option sa_authentic (verify_status_assertion (live E) (PDict a) now None anchors) = Some True)"
  by (intro conjI sdk_agrees [unfolded detached_accepts_def]) (simp_all add: sdk_pack_authentic pack_signed_iff sdk_assertion_authentic assertion_authentic
    del: map_option_eq_Some)

text \<open>
  The one difference in what a registry is: two active entries of its publisher and a signature under the
  second's key. The SDK calls it authentic, the detached verifier does not.
\<close>

theorem registry_signed_by_second_entry:
  "af_authentic (verify_signed_artifact trusting_env (PDict two_entry_registry) now anchors) \<and>
   \<not> rg_authentic (verify_registry (live trusting_env) (PDict two_entry_registry) now cap anchors)"
  by (rule registry_divergence)

end
