(* ===== verification/SdkClock.thy ===== *)
theory SdkClock
  imports SdkAgreement
begin

text \<open>
  The SDK compares instants as floats of seconds, the detached verifier as whole microseconds. The error
  of a rounded quotient is bounded here, and with it the two agree on every window whose instants lie
  within \<open>2 ^ 33\<close> seconds of 1970, until the year 2242; and at whole seconds also on the age of a
  proof, a difference of two floats.
\<close>

section \<open>The error of a double\<close>

lemma pow2_power_int: "pow2 e = power_int 2 e"
  unfolding pow2_def power_int_def inverse_eq_divide power_one_over by (rule refl)

lemma pow2_add: "pow2 (a + b) = pow2 a * pow2 b"
  by (simp add: pow2_power_int power_int_add)

lemma pow2_mono: "a \<le> b \<Longrightarrow> pow2 a \<le> pow2 b"
  by (simp add: pow2_power_int power_int_increasing)

lemma pow2_nat: "pow2 (int n) = 2 ^ n"
  by (simp add: pow2_def)

lemma log2_floor_below:
  assumes "0 < r"
  shows "pow2 (log2_floor r) \<le> r"
proof -
  obtain p q where pq: "quotient_of r = (p, q)" by (cases "quotient_of r")
  then have r: "r = of_int p / of_int q" and q: "0 < q"
    by (auto dest: quotient_of_div quotient_of_denom_pos)
  then have p: "0 < p" using assms by (simp add: zero_less_divide_iff)
  define s where "s = bitlen p - bitlen q"
  have bp: "2 ^ nat (bitlen p - 1) \<le> p" and bq: "q < 2 ^ nat (bitlen q)"
    using bitlen_bounds [OF p] bitlen_bounds [OF q] by auto
  have "0 < bitlen p" using p bitlen_eq_zero_iff [of p] bitlen_nonneg [of p] by linarith
  then have n: "0 \<le> bitlen p - 1" "0 \<le> bitlen q" using bitlen_nonneg [of q] by linarith+
  have "rat_of_int (2 ^ nat (bitlen p - 1)) \<le> of_int p" unfolding of_int_le_iff by (rule bp)
  then have "pow2 (bitlen p - 1) \<le> of_int p" using n by (simp add: pow2_def)
  moreover have "of_int q < rat_of_int (2 ^ nat (bitlen q))" unfolding of_int_less_iff by (rule bq)
  then have "of_int q \<le> pow2 (bitlen q)" using n by (simp add: pow2_def)
  moreover have "pow2 (s - 1) * pow2 (bitlen q) = pow2 (bitlen p - 1)"
    by (simp add: s_def flip: pow2_add)
  moreover have "pow2 (s - 1) * of_int q \<le> pow2 (s - 1) * pow2 (bitlen q)"
    using calculation(2) pow2_pos [of "s - 1"] by (intro mult_left_mono) simp_all
  ultimately have "pow2 (s - 1) * of_int q \<le> of_int p" by linarith
  then have "pow2 (s - 1) \<le> r" using q by (simp add: r pos_le_divide_eq)
  then show ?thesis by (simp add: log2_floor_def pq Let_def s_def)
qed

lemma round_half_even_error: "\<bar>of_int (round_half_even r) - r\<bar> \<le> 1 / 2"
proof -
  have "of_int \<lfloor>r\<rfloor> \<le> r" "r < of_int \<lfloor>r\<rfloor> + 1" by linarith+
  then show ?thesis unfolding round_half_even_def Let_def by (auto simp: abs_le_iff)
qed

lemma double_near_error:
  assumes "\<bar>r\<bar> < 2 ^ k"
  shows "\<bar>double_near r - r\<bar> \<le> pow2 (int k - 54)"
proof (cases "r = 0")
  case False
  define e where "e = max (- 1074) (log2_floor \<bar>r\<bar> - 52)"
  have "pow2 (log2_floor \<bar>r\<bar>) < pow2 (int k)"
    using log2_floor_below [of "\<bar>r\<bar>"] False assms pow2_nat [of k] by simp
  then have "log2_floor \<bar>r\<bar> < int k" using pow2_mono [of "int k" "log2_floor \<bar>r\<bar>"] by linarith
  then have "e \<le> int k - 53" by (simp add: e_def)
  then have "pow2 e \<le> pow2 (int k - 53)" by (rule pow2_mono)
  moreover have "pow2 (int k - 53) = 2 * pow2 (int k - 54)"
    using pow2_add [of "int k - 54" 1] by (simp add: pow2_def)
  ultimately have e: "1 / 2 * pow2 e \<le> pow2 (int k - 54)" by linarith
  let ?m = "of_int (round_half_even (\<bar>r\<bar> / pow2 e)) * pow2 e"
  have "\<bar>?m - \<bar>r\<bar>\<bar> = \<bar>of_int (round_half_even (\<bar>r\<bar> / pow2 e)) - \<bar>r\<bar> / pow2 e\<bar> * pow2 e"
  proof -
    have "\<bar>r\<bar> = \<bar>r\<bar> / pow2 e * pow2 e" using pow2_pos [of e] by simp
    then have "?m - \<bar>r\<bar> = (of_int (round_half_even (\<bar>r\<bar> / pow2 e)) - \<bar>r\<bar> / pow2 e) * pow2 e"
      unfolding left_diff_distrib by linarith
    then show ?thesis using pow2_pos [of e] by (simp only: abs_mult abs_of_pos)
  qed
  also have "\<dots> \<le> 1 / 2 * pow2 e"
    using pow2_pos [of e] by (intro mult_right_mono round_half_even_error) simp
  finally have m: "\<bar>?m - \<bar>r\<bar>\<bar> \<le> pow2 (int k - 54)" using e by linarith
  have "double_near r = (if r < 0 then - ?m else ?m)"
    using False by (simp add: double_near_def Let_def e_def)
  then show ?thesis using m by (auto simp: abs_if split: if_splits)
qed (simp add: double_near_def less_imp_le [OF pow2_pos])

lemma double_near_half:
  assumes "1 \<le> r"
  shows "r / 2 \<le> double_near r"
proof -
  define e where "e = max (- 1074) (log2_floor r - 52)"
  have "pow2 (- 1074) \<le> pow2 0" "pow2 (log2_floor r - 52) \<le> pow2 (log2_floor r)" by (rule pow2_mono; simp)+
  then have "pow2 e \<le> r"
    using log2_floor_below [of r] assms by (auto simp: e_def max_def pow2_nat [of 0, simplified])
  moreover have "(r / pow2 e - 1 / 2) * pow2 e \<le> of_int (round_half_even (r / pow2 e)) * pow2 e"
  proof (rule mult_right_mono)
    show "r / pow2 e - 1 / 2 \<le> of_int (round_half_even (r / pow2 e))" using round_half_even_error [of "r / pow2 e"] by linarith
  qed (simp add: less_imp_le [OF pow2_pos])
  then have "r - pow2 e / 2 \<le> of_int (round_half_even (r / pow2 e)) * pow2 e"
    using pow2_pos [of e] by (simp add: left_diff_distrib)
  ultimately show ?thesis using assms by (simp add: double_near_def Let_def e_def)
qed

lemma double_near_neg: "r < 0 \<Longrightarrow> double_near r \<le> 0"
proof -
  assume "r < 0"
  have "0 \<le> round_half_even x" if "0 \<le> x" for x
    using that by (auto simp: round_half_even_def Let_def)
  then have "0 \<le> rat_of_int (round_half_even (\<bar>r\<bar> / pow2 e)) * pow2 e" for e
    using pow2_pos [of e] by (intro mult_nonneg_nonneg) (simp_all add: less_imp_le)
  then show "double_near r \<le> 0"
    using \<open>r < 0\<close> by (simp only: double_near_def Let_def) simp
qed

text \<open>Below \<open>2 ^ 33\<close> seconds the error is under half a microsecond, below \<open>2 ^ 10\<close> it is negligible.\<close>

lemma double_near_errors:
  "\<bar>r\<bar> < 2 ^ 33 \<Longrightarrow> \<bar>double_near r - r\<bar> \<le> 1 / 2 ^ 21"
  "\<bar>r\<bar> < 2 ^ 10 \<Longrightarrow> \<bar>double_near r - r\<bar> \<le> 1 / 2 ^ 44"
  using double_near_error [of r 33] double_near_error [of r 10] by (simp_all add: pow2_def)

section \<open>Instants as floats\<close>

definition near_1970 :: "int \<Rightarrow> bool" where
  "near_1970 t \<longleftrightarrow> \<bar>t - UNIX_EPOCH\<bar> < 2 ^ 33 * 1000000"

lemma epoch_seconds_less:
  assumes "near_1970 a" "near_1970 b" "a < b"
  shows "epoch_seconds a < epoch_seconds b"
proof -
  let ?x = "\<lambda>t. rat_of_int (t - UNIX_EPOCH) / 1000000"
  have small: "\<bar>?x t\<bar> < 2 ^ 33" if "near_1970 t" for t
  proof -
    have "\<bar>rat_of_int (t - UNIX_EPOCH)\<bar> < rat_of_int (2 ^ 33 * 1000000)"
      using that unfolding near_1970_def by (metis of_int_abs of_int_less_iff)
    then show ?thesis by simp
  qed
  have "?x b - ?x a = rat_of_int (b - a) / 1000000" by (simp add: diff_divide_distrib)
  moreover have "rat_of_int 1 \<le> rat_of_int (b - a)" unfolding of_int_le_iff using assms(3) by linarith
  ultimately have "1 / 1000000 \<le> ?x b - ?x a" by simp
  moreover have "\<bar>double_near (?x a) - ?x a\<bar> \<le> 1 / 2 ^ 21" "\<bar>double_near (?x b) - ?x b\<bar> \<le> 1 / 2 ^ 21"
    using double_near_errors(1) small assms by blast+
  moreover have "(1 :: rat) / 2 ^ 21 + 1 / 2 ^ 21 < 1 / 1000000" by simp
  ultimately have "double_near (?x a) < double_near (?x b)" by linarith
  then show ?thesis by (simp only: epoch_seconds_def)
qed

lemma epoch_seconds_order:
  assumes "near_1970 a" "near_1970 b"
  shows "epoch_seconds a < epoch_seconds b \<longleftrightarrow> a < b" "epoch_seconds a \<le> epoch_seconds b \<longleftrightarrow> a \<le> b"
  using epoch_seconds_less [OF assms] epoch_seconds_less [OF assms(2,1)]
  by (cases a b rule: linorder_cases; auto)+

section \<open>Windows\<close>

text \<open>A clock argument both verifiers read.\<close>

definition shared_now :: "now_arg \<Rightarrow> bool" where
  "shared_now now \<longleftrightarrow> (case now of NoNow \<Rightarrow> True | NowText s \<Rightarrow> True | _ \<Rightarrow> False)"

lemma sdk_now_instant: "shared_now now \<Longrightarrow> sdk_now E now = map_option epoch_seconds (instant (clock E) now)"
  by (auto simp: shared_now_def sdk_now_def instant_def split: now_arg.splits)

lemma iso_to_epoch_instant: "iso_to_epoch (py_get d k) = map_option epoch_seconds (instant_at d k)"
  by (auto simp: iso_to_epoch_def py_get_def instant_at_def split: option.splits pyval.splits)

text \<open>Every instant the window compares, where it can be read, lies near 1970.\<close>

definition near_instants :: "env \<Rightarrow> pydict \<Rightarrow> now_arg \<Rightarrow> bool" where
  "near_instants E d now \<longleftrightarrow>
     (case instants E d now of None \<Rightarrow> True | Some (t, ia, ea) \<Rightarrow> near_1970 t \<and> near_1970 ia \<and> near_1970 ea)"

lemma window_agrees:
  assumes "shared_now now" "near_instants E d now"
  shows "within_window E d now ''issued_at'' ''expires_at'' = Some True \<longleftrightarrow> in_window E d now"
proof (cases "instants E d now")
  case None
  then show ?thesis
    by (auto simp: within_window_def in_window_def iso_to_epoch_instant sdk_now_instant [OF assms(1)] instants_def split: option.splits)
next
  case (Some w)
  obtain t ia ea where w: "w = (t, ia, ea)" by (cases w)
  then have n: "near_1970 t" "near_1970 ia" "near_1970 ea" using assms(2) Some by (simp_all add: near_instants_def)
  have "instant (clock E) now = Some t" "instant_at d ''issued_at'' = Some ia" "instant_at d ''expires_at'' = Some ea"
    using Some w by (auto simp: instants_def split: option.splits)
  then show ?thesis
    using epoch_seconds_order(2) [OF n(2,1)] epoch_seconds_order(1) [OF n(1,3)]
    by (simp add: within_window_def in_window_def iso_to_epoch_instant sdk_now_instant [OF assms(1)] Some w)
qed

lemma fresh_in_window:
  assumes "py_get d ''format'' = PStr f" "map_of ARTIFACT_KEYS f = Some keys"
    and "signed_window keys = Some (''issued_at'', ''expires_at'')" "af_authentic (verify_signed_artifact E (PDict d) now anchors)"
  shows "af_fresh (verify_signed_artifact E (PDict d) now anchors) = Some True \<longleftrightarrow>
    within_window E d now ''issued_at'' ''expires_at'' = Some True"
proof -
  have f: "f \<noteq> HOLDER_PROOF_FORMAT" "f \<noteq> STH_FORMAT"
    using assms(2,3) artifact_keys(5,16) by (auto simp: signed_window_def HOLDER_PROOF_FIELDS_def STH_FIELDS_def)
  then have "artifact_fresh E f keys d now = within_window E d now ''issued_at'' ''expires_at''"
    by (simp add: artifact_fresh_def within_replay_window_def REPLAY_WINDOW_SECONDS_def assms(3))
  moreover obtain sig_ok tried n where
      "verify_over_digest E (canonical_digest E keys d) (py_get d ''signature_hex'') (py_get d ''public_key_hex'') (artifact_alg f d) =
        (Some sig_ok, tried, n)"
    using assms(4) artifact_authentic [OF assms(1,2)] over_digest_signed [of E keys d "artifact_alg f d"] by (metis prod_cases3 fst_conv)
  moreover have "\<not> placeholder_envelope d"
    using assms(4) artifact_authentic [OF assms(1,2)] by auto
  ultimately show ?thesis
    using assms(3)
    by (simp add: verify_signed_artifact_def Let_def f(2) assms(1,2) artifact_alg_def [symmetric] split: option.split)
qed

text \<open>Of a whole second the float is exact, and so is its order with the float of any other instant.\<close>

lemma epoch_seconds_whole:
  assumes "t = UNIX_EPOCH + 1000000 * n" "\<bar>n\<bar> < 2 ^ 33"
  shows "epoch_seconds t = of_int n"
  using assms double_near_int [of n] by (simp add: epoch_seconds_def)

lemma epoch_seconds_error:
  assumes "near_1970 t"
  shows "\<bar>epoch_seconds t - of_int (t - UNIX_EPOCH) / 1000000\<bar> \<le> 1 / 2 ^ 21"
    and "\<bar>rat_of_int (t - UNIX_EPOCH) / 1000000\<bar> < 2 ^ 33"
proof -
  have "\<bar>rat_of_int (t - UNIX_EPOCH)\<bar> < rat_of_int (2 ^ 33 * 1000000)"
    using assms unfolding near_1970_def by (metis of_int_abs of_int_less_iff)
  then show "\<bar>rat_of_int (t - UNIX_EPOCH) / 1000000\<bar> < 2 ^ 33" by simp
  then show "\<bar>epoch_seconds t - of_int (t - UNIX_EPOCH) / 1000000\<bar> \<le> 1 / 2 ^ 21"
    unfolding epoch_seconds_def by (rule double_near_errors(1))
qed

text \<open>Two instants differ by no microsecond, or by at least one.\<close>

lemma microseconds_apart:
  "a = b \<or> rat_of_int a / 1000000 + 1 / 1000000 \<le> rat_of_int b / 1000000 \<or> rat_of_int b / 1000000 + 1 / 1000000 \<le> rat_of_int a / 1000000"
proof (cases a b rule: linorder_cases)
  case less
  then have "rat_of_int a + 1 \<le> rat_of_int b" by (metis of_int_1 of_int_add of_int_le_iff zless_imp_add1_zle)
  then show ?thesis by (simp add: field_simps)
next
  case greater
  then have "rat_of_int b + 1 \<le> rat_of_int a" by (metis of_int_1 of_int_add of_int_le_iff zless_imp_add1_zle)
  then show ?thesis by (simp add: field_simps)
qed simp

text \<open>Two errors together are less than a microsecond.\<close>

lemma errors_apart: "(1 :: rat) / 2 ^ 21 + 1 / 2 ^ 21 < 1 / 1000000" "(1 :: rat) / 2 ^ 21 + 1 / 2 ^ 44 < 1 / 1000000"
  by simp_all

text \<open>\<open>_CLOCK_SKEW_SECONDS\<close> against 60 seconds, and \<open>n - issued\<close> against an age, for a proof made at a whole second.\<close>

lemma skew_agrees:
  assumes "made = UNIX_EPOCH + 1000000 * i" "\<bar>i\<bar> < 2 ^ 32" "near_1970 t" "\<bar>t - UNIX_EPOCH\<bar> < 2 ^ 32 * 1000000"
  shows "epoch_seconds made \<le> double_near (epoch_seconds t + CLOCK_SKEW_SECONDS) \<longleftrightarrow> made \<le> t + 60000000"
proof -
  let ?x = "rat_of_int (t - UNIX_EPOCH) / 1000000"
  have i: "epoch_seconds made = of_int i" using assms(1,2) by (intro epoch_seconds_whole) auto
  have e: "\<bar>epoch_seconds t - ?x\<bar> \<le> 1 / 2 ^ 21" by (rule epoch_seconds_error(1) [OF assms(3)])
  have "\<bar>rat_of_int (t - UNIX_EPOCH)\<bar> < rat_of_int (2 ^ 32 * 1000000)"
    using assms(4) by (metis of_int_abs of_int_less_iff)
  then have "\<bar>?x\<bar> < 4294967296" by simp
  moreover have "(1 :: rat) / 2 ^ 21 \<le> 1" by simp
  ultimately have "\<bar>epoch_seconds t + 60\<bar> < 8589934592" using e by linarith
  then have "\<bar>epoch_seconds t + 60\<bar> < 2 ^ 33" by simp
  then have s: "\<bar>double_near (epoch_seconds t + 60) - (epoch_seconds t + 60)\<bar> \<le> 1 / 2 ^ 21" by (rule double_near_errors(1))
  have m: "made \<le> t + 60000000 \<longleftrightarrow> rat_of_int (1000000 * (i - 60)) \<le> rat_of_int (t - UNIX_EPOCH)"
    unfolding of_int_le_iff using assms(1) by presburger
  have c: "rat_of_int (1000000 * (i - 60)) / 1000000 = of_int i - 60" by simp
  consider "t - UNIX_EPOCH = 1000000 * (i - 60)" | "of_int i - 60 + 1 / 1000000 \<le> ?x" | "?x + 1 / 1000000 \<le> of_int i - 60"
    using microseconds_apart [of "1000000 * (i - 60)" "t - UNIX_EPOCH"] unfolding c by metis
  then show ?thesis
  proof cases
    case 1
    then have "epoch_seconds t = of_int (i - 60)" using assms(2) by (intro epoch_seconds_whole) auto
    moreover have "double_near (of_int i) = rat_of_int i" using assms(2) by (intro double_near_int) auto
    ultimately show ?thesis using 1 by (simp add: i m CLOCK_SKEW_SECONDS_def)
  next
    case 2
    then have "rat_of_int i \<le> double_near (epoch_seconds t + 60)" using e s errors_apart(1) by linarith
    moreover have "rat_of_int (1000000 * (i - 60)) \<le> rat_of_int (t - UNIX_EPOCH)" using 2 by simp
    ultimately show ?thesis by (simp only: i m CLOCK_SKEW_SECONDS_def)
  next
    case 3
    then have "\<not> rat_of_int i \<le> double_near (epoch_seconds t + 60)" using e s errors_apart(1) by linarith
    moreover have "\<not> rat_of_int (1000000 * (i - 60)) \<le> rat_of_int (t - UNIX_EPOCH)"
    proof
      assume "rat_of_int (1000000 * (i - 60)) \<le> rat_of_int (t - UNIX_EPOCH)"
      then have "rat_of_int (1000000 * (i - 60)) / 1000000 \<le> ?x" by (rule divide_right_mono) simp
      then show False using 3 unfolding c by linarith
    qed
    ultimately show ?thesis by (simp only: i m CLOCK_SKEW_SECONDS_def)
  qed
qed

lemma age_rounds:
  assumes "\<bar>r - of_int d / 1000000\<bar> \<le> 1 / 2 ^ 21" "d = 1000000 * h \<Longrightarrow> r = of_int h" "0 \<le> h" "h < 500"
  shows "double_near r \<le> of_int h \<longleftrightarrow> d \<le> 1000000 * h"
proof -
  have dh: "d \<le> 1000000 * h \<longleftrightarrow> rat_of_int d / 1000000 \<le> of_int h"
  proof -
    have "d \<le> 1000000 * h \<longleftrightarrow> rat_of_int d \<le> rat_of_int (1000000 * h)" unfolding of_int_le_iff by (rule refl)
    then show ?thesis by (simp add: field_simps)
  qed
  have "rat_of_int h < rat_of_int 500" unfolding of_int_less_iff by (rule assms(4))
  then have h: "0 \<le> rat_of_int h" "rat_of_int h < 500" using assms(3) by simp_all
  have c: "rat_of_int (1000000 * h) / 1000000 = of_int h" by simp
  show ?thesis
  proof (cases "d = 1000000 * h")
    case True
    then show ?thesis using assms(2) double_near_int [of h] assms(3,4) by simp
  next
    case False
    then consider "of_int h + 1 / 1000000 \<le> rat_of_int d / 1000000" | "rat_of_int d / 1000000 + 1 / 1000000 \<le> of_int h"
      using microseconds_apart [of d "1000000 * h"] unfolding c by metis
    then show ?thesis
    proof cases
      case 1
      have "rat_of_int h < double_near r"
      proof (cases "\<bar>r\<bar> < 2 ^ 10")
        case True
        then show ?thesis using double_near_errors(2) [OF True] 1 assms(1) errors_apart(2) by linarith
      next
        case False
        then have "2 ^ 10 \<le> r" using 1 assms(1) h by (simp add: abs_if split: if_splits)
        then show ?thesis using double_near_half [of r] h by simp
      qed
      then show ?thesis using 1 dh by linarith
    next
      case 2
      have "double_near r \<le> rat_of_int h"
      proof (cases "\<bar>r\<bar> < 2 ^ 10")
        case True
        then show ?thesis using double_near_errors(2) [OF True] 2 assms(1) errors_apart(2) by linarith
      next
        case False
        then have "r < 0" using 2 assms(1) h by (simp add: abs_if split: if_splits)
        then have "double_near r \<le> 0" by (rule double_near_neg)
        then show ?thesis using h by linarith
      qed
      then show ?thesis using 2 dh by linarith
    qed
  qed
qed

lemma replay_window_agrees:
  assumes "instant_at d ''issued_at'' = Some made" "made = UNIX_EPOCH + 1000000 * i" "\<bar>i\<bar> < 2 ^ 32" "shared_now now"
    and "instant (clock E) now = Some t" "\<bar>t - UNIX_EPOCH\<bar> < 2 ^ 32 * 1000000"
  shows "within_replay_window E HOLDER_PROOF_FORMAT d now = Some (proof_fresh made t 300)"
proof -
  have t: "near_1970 t" using assms(6) by (simp add: near_1970_def)
  have i: "epoch_seconds made = of_int i" using assms(2,3) by (intro epoch_seconds_whole) auto
  have d: "rat_of_int (t - UNIX_EPOCH) / 1000000 - of_int i = rat_of_int (t - made) / 1000000"
    using assms(2) by (simp add: field_simps)
  have "double_near (epoch_seconds t - of_int i) \<le> of_int 300 \<longleftrightarrow> t - made \<le> 1000000 * 300"
  proof (rule age_rounds)
    show "\<bar>epoch_seconds t - of_int i - of_int (t - made) / 1000000\<bar> \<le> 1 / 2 ^ 21"
      using epoch_seconds_error(1) [OF t] d by linarith
    show "epoch_seconds t - of_int i = of_int 300" if "t - made = 1000000 * 300"
    proof -
      have "epoch_seconds t = of_int (i + 300)" using that assms(2,3) by (intro epoch_seconds_whole) auto
      then show ?thesis by simp
    qed
  qed simp_all
  moreover have "double_near (of_int (t - made) / 1000000) \<le> of_int 300 \<longleftrightarrow> t - made \<le> 1000000 * 300"
    by (rule age_rounds) simp_all
  ultimately show ?thesis
    using skew_agrees [OF assms(2,3) t assms(6)]
    by (simp add: within_replay_window_def REPLAY_WINDOW_SECONDS_def iso_to_epoch_instant sdk_now_instant [OF assms(4)] assms(1,5) i
        proof_fresh_def)
qed

section \<open>Properties\<close>

text \<open>
  C32. Two clocks, one answer: an artifact with a window of its own that the SDK calls authentic is fresh to
  the SDK, which compares floats of seconds, exactly when its window holds in whole microseconds, as the
  detached verifier decides it, now being text or the clock and every instant within \<open>2 ^ 33\<close> seconds of 1970.
\<close>

theorem sdk_freshness_agrees:
  assumes "py_get d ''format'' = PStr f" "map_of ARTIFACT_KEYS f = Some keys"
    and "signed_window keys = Some (''issued_at'', ''expires_at'')" "af_authentic (verify_signed_artifact E (PDict d) now anchors)"
    and "shared_now now" "near_instants E d now"
  shows "af_fresh (verify_signed_artifact E (PDict d) now anchors) = Some True \<longleftrightarrow> in_window E d now"
  using fresh_in_window [OF assms(1-4)] window_agrees [OF assms(5,6)] by (rule trans)

lemma sample_manifest_near: "near_instants trusting_env sample_manifest (NowText (iso_text 2026 10 21 12 0 0))"
  and sample_now_near: "case instant (clock trusting_env) (NowText (iso_text 2026 10 21 12 0 0)) of None \<Rightarrow> True | Some t \<Rightarrow> near_1970 t"
proof -
  have i: "strict_instant (iso_text 2026 10 21 12 0 0) = make_instant 2026 10 21 12 0 0 0 0"
      "strict_instant (iso_text 2026 10 22 12 0 0) = make_instant 2026 10 22 12 0 0 0 0"
    by (rule strict_instant_iso_text; simp add: valid_date_def days_in_month_def leap_year_def)+
  have "days_before_month y m \<le> 31 * m" for y m
    by (induction m) (auto simp: days_in_month_def)
  note days = this [of 2026 10]
  show "near_instants trusting_env sample_manifest (NowText (iso_text 2026 10 21 12 0 0))"
    using days by (simp add: near_instants_def instants_def instant_at_def instant_def i sample_manifest_def lit_eq_iff make_instant_def
        valid_date_def days_in_month_def leap_year_def near_1970_def UNIX_EPOCH_def days_before_year_def
        split: option.split)
  show "case instant (clock trusting_env) (NowText (iso_text 2026 10 21 12 0 0)) of None \<Rightarrow> True | Some t \<Rightarrow> near_1970 t"
    using days by (simp add: instant_def i make_instant_def valid_date_def days_in_month_def leap_year_def near_1970_def UNIX_EPOCH_def
        days_before_year_def)
qed

lemma sdk_freshness_agrees_witness:
  "af_fresh (verify_signed_artifact trusting_env (PDict sample_manifest) (NowText (iso_text 2026 10 21 12 0 0)) None) = Some True \<longleftrightarrow>
   in_window trusting_env sample_manifest (NowText (iso_text 2026 10 21 12 0 0))"
proof (rule sdk_freshness_agrees)
  show f: "py_get sample_manifest ''format'' = PStr MANIFEST_FORMAT" by (simp add: sample_manifest_def)
  show "map_of ARTIFACT_KEYS MANIFEST_FORMAT = Some MANIFEST_FIELDS" by (rule artifact_keys(3))
  show "signed_window MANIFEST_FIELDS = Some (''issued_at'', ''expires_at'')"
    by (simp add: signed_window_def MANIFEST_FIELDS_def)
  have m: "manifest_signed trusting_env sample_manifest"
    using sample_manifest_authorizes by (auto simp: manifest_authorizes_def)
  have l: "live trusting_env = trusting_env" by (simp add: live_def trusting_env_def no_backend_def)
  show "af_authentic (verify_signed_artifact trusting_env (PDict sample_manifest) (NowText (iso_text 2026 10 21 12 0 0)) None)"
    using m unfolding sdk_by_format(3) [OF f] l manifest_signed_statement by blast
  show "shared_now (NowText (iso_text 2026 10 21 12 0 0))" by (simp add: shared_now_def)
  show "near_instants trusting_env sample_manifest (NowText (iso_text 2026 10 21 12 0 0))" by (rule sample_manifest_near)
qed

end
