(* ===== verification/SdkFederation.thy ===== *)
theory SdkFederation
  imports SdkClock
begin

text \<open>
  The SDK's trust between authorities (\<open>verify_attestation\<close>, \<open>_edge_admits\<close>, \<open>verify_cross_authority\<close>)
  and its exchange artifacts (\<open>verify_exchange_request\<close>, \<open>verify_exchange_receipt\<close>,
  \<open>verify_exchange_mint\<close>), each shown to decide as the detached verifier.
\<close>

section \<open>Attestations\<close>

definition sdk_attestation :: "env \<Rightarrow> pyval \<Rightarrow> pyval \<Rightarrow> pyval \<Rightarrow> artifact_verdict" where
  "sdk_attestation E att agency key =
     (let a = as_dict att
      in if \<not> py_true (py_get a ''signature_hex'') \<and> \<not> py_true (py_get a ''public_key_hex'') then
           refused_artifact (Some UnsignedEdge) []
         else if py_get a ''format'' \<noteq> PStr ATTESTATION_FORMAT then refused_artifact (Some (SdkNote (NotA ATTESTATION_FORMAT))) []
         else if py_get a ''algorithm'' = PStr PLACEHOLDER then refused_artifact (Some (SdkNote Placeholder)) []
         else
           (case verify_over_digest E (canonical_digest E ATTESTATION_FIELDS a) (py_get a ''signature_hex'')
                (py_get a ''public_key_hex'') (py_get a ''algorithm'') of
              (None, tried, n) \<Rightarrow> refused_artifact (map_option SdkNote n) tried
            | (Some ok, tried, n) \<Rightarrow>
                if ok \<and> agency \<noteq> PNone \<and> \<not> same_id (py_get a ''attesting_agency_id'') agency then
                  refused_artifact (Some EdgeOfOtherAgency) tried
                else if ok \<and> key \<noteq> PNone \<and> \<not> same_hex (py_get a ''attested_public_key_hex'') key then
                  refused_artifact (Some EdgeToOtherKey) tried
                else
                  \<lparr>af_authentic = ok, af_fresh = None,
                   af_note = (if ok then None else map_option SdkNote (or_note n BadSignature)),
                   af_witnesses = tried, af_trusted = None\<rparr>))"

definition sdk_attestation_open :: "env \<Rightarrow> pydict \<Rightarrow> now_arg \<Rightarrow> bool" where
  "sdk_attestation_open E a now \<longleftrightarrow>
     py_get a ''valid_until'' = PNone \<or>
     (case (iso_to_epoch (py_get a ''valid_until''), sdk_now E now) of (Some u, Some n) \<Rightarrow> n \<le> u | _ \<Rightarrow> False)"

text \<open>\<open>(admitted, signed)\<close>. The manifest is authentic where this is asked, so its anchors are a list.\<close>

definition edge_admits :: "env \<Rightarrow> pydict \<Rightarrow> pydict \<Rightarrow> pyval \<Rightarrow> now_arg \<Rightarrow> bool \<times> bool" where
  "edge_admits E a m key now =
     (let no_sig = \<not> py_true (py_get a ''signature_hex'') \<and> \<not> py_true (py_get a ''public_key_hex'');
          av = sdk_attestation E (PDict a) (py_get (as_dict (py_get m ''authority'')) ''agency_id'') key;
          roots = active_anchor_keys (as_list (py_get m ''anchors''))
      in if \<not> no_sig \<and> (\<not> af_authentic av \<or> \<not> hex_in (py_get a ''public_key_hex'') roots) then (False, True)
         else if \<not> sdk_attestation_open E a now then (False, \<not> no_sig)
         else (True, \<not> no_sig))"

text \<open>An attestation of the manifest that names the key in the context and is admitted: whether it is signed.\<close>

definition sdk_edge :: "env \<Rightarrow> ustr option \<Rightarrow> pyval \<Rightarrow> now_arg \<Rightarrow> bool \<Rightarrow> pydict \<Rightarrow> pyval \<Rightarrow> bool option" where
  "sdk_edge E key ctx now require_signed m att =
     (case (key, att) of
        (Some k, PDict a) \<Rightarrow>
          if hex_text (py_get a ''attested_public_key_hex'') = Some k \<and> same_id (py_get a ''context_id'') ctx then
            (case edge_admits E a m (PStr k) now of
               (admitted, edge_signed) \<Rightarrow> if \<not> admitted \<or> require_signed \<and> \<not> edge_signed then None else Some edge_signed)
          else None
      | _ \<Rightarrow> None)"

section \<open>The decision on another authority's credential\<close>

fun sdk_path ::
    "env \<Rightarrow> ustr option \<Rightarrow> pyval \<Rightarrow> now_arg \<Rightarrow> pyval list \<Rightarrow> bool \<Rightarrow> pyval list \<Rightarrow> (pyval \<times> bool) option" where
  "sdk_path E key ctx now anchors require_signed [] = None"
| "sdk_path E key ctx now anchors require_signed (x # ms) =
     (let m = as_dict x; mv = verify_signed_artifact E (PDict m) now None
      in if py_get m ''format'' \<noteq> PStr MANIFEST_FORMAT \<or> \<not> (af_authentic mv \<and> af_fresh mv = Some True) \<or>
            \<not> hex_in (py_get m ''public_key_hex'') (map hex_text anchors)
         then sdk_path E key ctx now anchors require_signed ms
         else
           (case first_some (sdk_edge E key ctx now require_signed m) (as_list (py_get m ''attestations'')) of
              None \<Rightarrow> sdk_path E key ctx now anchors require_signed ms
            | Some edge_signed \<Rightarrow>
                if py_get m ''authority'' \<noteq> PNone then Some (py_get m ''authority'', edge_signed)
                else sdk_path E key ctx now anchors require_signed ms))"

datatype sdk_reason =
    PackNotAuthentic | AnchorsNotGiven | NobodyAttests | NotARevocationFeed | FeedNotBound | ListedRevoked

record sdk_cross_verdict =
  cx_decision :: decision
  cx_authentic :: bool
  cx_issuer_trusted :: "bool option"
  cx_via :: pyval
  cx_reason :: "sdk_reason option"
  cx_attestation_signed :: "bool option"

text \<open>The revocation feed beside the decision: the reason to reject, if any.\<close>

definition sdk_feed_problem :: "env \<Rightarrow> pydict \<Rightarrow> pyval \<Rightarrow> ustr option \<Rightarrow> now_arg \<Rightarrow> sdk_reason option" where
  "sdk_feed_problem E pack feed0 key now =
     (let feed = as_dict feed0; rv = verify_signed_artifact E (PDict feed) now None;
          tok = (case py_get pack ''token_value'' of PStr s \<Rightarrow> s | _ \<Rightarrow> [])
      in if py_get feed ''format'' \<noteq> PStr REVOCATION_FEED_FORMAT then Some NotARevocationFeed
         else if \<not> (af_authentic rv \<and> af_fresh rv = Some True \<and> key \<noteq> None \<and> hex_text (py_get feed ''public_key_hex'') = key) then
           Some FeedNotBound
         else if hex_of (sha3 E (the (utf8_encode tok))) \<in> set (leaf_texts E (as_list (py_get feed ''revoked_leaves''))) then
           Some ListedRevoked
         else None)"

definition sdk_cross_authority ::
    "env \<Rightarrow> pyval \<Rightarrow> pyval \<Rightarrow> pyval \<Rightarrow> pyval list option \<Rightarrow> pyval \<Rightarrow> now_arg \<Rightarrow> bool \<Rightarrow> sdk_cross_verdict" where
  "sdk_cross_authority E pack0 ctx manifests trusted_anchors revocation_feed now require_signed =
     (let pack = as_dict pack0; key = hex_text (py_get pack ''public_key_hex'');
          verdict = (\<lambda>d authentic trusted via why edge.
            \<lparr>cx_decision = d, cx_authentic = authentic, cx_issuer_trusted = trusted, cx_via = via, cx_reason = why,
             cx_attestation_signed = edge\<rparr>)
      in if \<not> au_authentic (verify_authenticity E (PDict pack) None) then
           verdict Reject False (Some False) PNone (Some PackNotAuthentic) None
         else
           (case trusted_anchors of None \<Rightarrow> verdict Reject True None PNone (Some AnchorsNotGiven) None
            | Some anchors \<Rightarrow>
                (case sdk_path E key ctx now anchors require_signed (as_list manifests) of
                   None \<Rightarrow> verdict Reject True (Some False) PNone (Some NobodyAttests) None
                 | Some (via, edge_signed) \<Rightarrow>
                     (case (if revocation_feed = PNone then None else sdk_feed_problem E pack revocation_feed key now) of
                        Some why \<Rightarrow> verdict Reject True (Some True) via (Some why) (Some edge_signed)
                      | None \<Rightarrow> verdict Accept True (Some True) via None (Some edge_signed)))))"

section \<open>The exchange\<close>

text \<open>The manifests that attest a key in a context: each one's authority, and whether its edge is signed.\<close>

definition attesting_entry :: "env \<Rightarrow> ustr \<Rightarrow> pyval \<Rightarrow> now_arg \<Rightarrow> pyval \<Rightarrow> (pyval \<times> bool) option" where
  "attesting_entry E want ctx now x =
     (let m = as_dict x; mv = verify_signed_artifact E (PDict m) now None
      in if py_get m ''format'' \<noteq> PStr MANIFEST_FORMAT \<or> \<not> (af_authentic mv \<and> af_fresh mv = Some True) then None
         else
           map_option (Pair (py_get m ''authority''))
             (first_some (sdk_edge E (Some want) ctx now False m) (as_list (py_get m ''attestations''))))"

definition exchange_authorities :: "env \<Rightarrow> pyval \<Rightarrow> pyval \<Rightarrow> pyval \<Rightarrow> now_arg \<Rightarrow> (pyval \<times> bool) list" where
  "exchange_authorities E key_hex ctx manifests now =
     (case hex_text key_hex of None \<Rightarrow> []
      | Some want \<Rightarrow> List.map_filter (attesting_entry E want ctx now) (as_list manifests))"

definition same_key :: "pyval \<Rightarrow> pyval \<Rightarrow> bool" where
  "same_key a b \<longleftrightarrow> (case (a, b) of (PStr x, PStr y) \<Rightarrow> py_lower x = py_lower y | _ \<Rightarrow> False)"

datatype sdk_exchange_note = ExchangeNote sdk_note | NotTheRequester

record sdk_request_verdict =
  xq_authentic :: bool
  xq_requester_matches :: "bool option"
  xq_authorized :: "bool option"
  xq_body_bound :: "bool option"
  xq_attestation_signed :: "bool option"
  xq_note :: "sdk_exchange_note option"

definition refused_request :: "sdk_exchange_note option \<Rightarrow> sdk_request_verdict" where
  "refused_request w =
     \<lparr>xq_authentic = False, xq_requester_matches = None, xq_authorized = None, xq_body_bound = None,
      xq_attestation_signed = None, xq_note = w\<rparr>"

definition sdk_exchange_request ::
    "env \<Rightarrow> pyval \<Rightarrow> pyval \<Rightarrow> pyval \<Rightarrow> pyval \<Rightarrow> now_arg \<Rightarrow> sdk_request_verdict" where
  "sdk_exchange_request E envelope requester_key trusted_manifests body now =
     (let e = as_dict envelope; base = verify_signed_artifact E (PDict e) now None;
          found = exchange_authorities E (py_get e ''public_key_hex'') (py_get e ''context_id'') trusted_manifests now
      in if py_get e ''format'' \<noteq> PStr EXCHANGE_REQUEST_FORMAT then
           refused_request (Some (ExchangeNote (SdkNote (NotA EXCHANGE_REQUEST_FORMAT))))
         else if \<not> same_key (py_get e ''public_key_hex'') (py_get (as_dict (py_get e ''requester'')) ''public_key_hex'') then
           refused_request (Some NotTheRequester)
         else if \<not> af_authentic base then refused_request (map_option ExchangeNote (af_note base))
         else
           \<lparr>xq_authentic = True,
            xq_requester_matches = (if requester_key = PNone then None else Some (same_key (py_get e ''public_key_hex'') requester_key)),
            xq_authorized = (if trusted_manifests = PNone then None else Some (found \<noteq> [])),
            xq_body_bound = (if body = PNone then None
              else Some (canonical_body_hash E body \<noteq> None \<and> canonical_body_hash E body = hex_text (py_get e ''request_hash''))),
            xq_attestation_signed = (if trusted_manifests = PNone \<or> found = [] then None else Some (snd (hd found))),
            xq_note = None\<rparr>)"

record sdk_receipt_verdict =
  xr_authentic :: bool
  xr_responder_matches :: "bool option"
  xr_authorized :: "bool option"
  xr_via :: pyval
  xr_request_bound :: "bool option"
  xr_response_bound :: "bool option"
  xr_responder :: pyval
  xr_attestation_signed :: "bool option"
  xr_note :: "sdk_note option"

definition refused_receipt :: "sdk_note option \<Rightarrow> sdk_receipt_verdict" where
  "refused_receipt w =
     \<lparr>xr_authentic = False, xr_responder_matches = None, xr_authorized = None, xr_via = PNone, xr_request_bound = None,
      xr_response_bound = None, xr_responder = PNone, xr_attestation_signed = None, xr_note = w\<rparr>"

text \<open>The outer option is a body that has no UTF-8. Only an attestation whose manifest names its authority counts.\<close>

definition sdk_exchange_receipt ::
    "env \<Rightarrow> pyval \<Rightarrow> now_arg \<Rightarrow> pyval \<Rightarrow> pyval \<Rightarrow> body_arg option \<Rightarrow> body_arg option \<Rightarrow> sdk_receipt_verdict option" where
  "sdk_exchange_receipt E receipt now trusted_manifests responder_key req_body resp_body =
     (let r = as_dict receipt; base = verify_signed_artifact E (PDict r) now None;
          matches = (if responder_key = PNone then None else Some (same_key (py_get r ''public_key_hex'') responder_key));
          named = filter (\<lambda>(a, _). py_true a)
            (exchange_authorities E (py_get (as_dict (py_get r ''requester'')) ''public_key_hex'') (py_get r ''context_id'')
              trusted_manifests now)
      in if py_get r ''format'' \<noteq> PStr EXCHANGE_RECEIPT_FORMAT then Some (refused_receipt (Some (SdkNote (NotA EXCHANGE_RECEIPT_FORMAT))))
         else if \<not> af_authentic base then Some (refused_receipt (af_note base))
         else
           (case (body_binds E r ''request_hash'' req_body, body_binds E r ''response_hash'' resp_body) of
              (Some rq, Some rs) \<Rightarrow>
                Some \<lparr>xr_authentic = True, xr_responder_matches = matches,
                  xr_authorized = (if trusted_manifests = PNone then None else Some (named \<noteq> [])),
                  xr_via = (if trusted_manifests = PNone \<or> named = [] then PNone else fst (hd named)),
                  xr_request_bound = rq, xr_response_bound = rs,
                  xr_responder = (if matches = Some True then py_get r ''responder'' else PNone),
                  xr_attestation_signed = (if trusted_manifests = PNone \<or> named = [] then None else Some (snd (hd named))),
                  xr_note = None\<rparr>
            | _ \<Rightarrow> None))"

record sdk_mint_verdict =
  xm_authentic :: bool
  xm_responder_matches :: "bool option"
  xm_note :: "sdk_note option"

definition sdk_exchange_mint :: "env \<Rightarrow> pyval \<Rightarrow> pyval \<Rightarrow> sdk_mint_verdict" where
  "sdk_exchange_mint E mint responder_key =
     (let m = as_dict mint; base = verify_signed_artifact E (PDict m) NoNow None
      in if py_get m ''format'' \<noteq> PStr EXCHANGE_MINT_FORMAT then
           \<lparr>xm_authentic = False, xm_responder_matches = None, xm_note = Some (SdkNote (NotA EXCHANGE_MINT_FORMAT))\<rparr>
         else if \<not> af_authentic base then \<lparr>xm_authentic = False, xm_responder_matches = None, xm_note = af_note base\<rparr>
         else
           \<lparr>xm_authentic = True,
            xm_responder_matches = (if responder_key = PNone then None else Some (same_key (py_get m ''public_key_hex'') responder_key)),
            xm_note = None\<rparr>)"

section \<open>What an edge of the SDK establishes\<close>

lemma sdk_attestation_authentic:
  "af_authentic (sdk_attestation E (PDict a) agency key) \<longleftrightarrow>
     \<not> unsigned_edge a \<and> py_get a ''format'' = PStr ATTESTATION_FORMAT \<and> signed_statement (live E) ATTESTATION_FIELDS a \<and>
     (agency = PNone \<or> same_id (py_get a ''attesting_agency_id'') agency) \<and>
     (key = PNone \<or> same_hex (py_get a ''attested_public_key_hex'') key)"
proof -
  have "py_get a ''algorithm'' \<noteq> PStr PLACEHOLDER" if "signed_statement (live E) ATTESTATION_FIELDS a"
    using signed_under_no_placeholder [OF that] by (simp add: placeholder_envelope_def)
  then show ?thesis
    using over_digest_signed [of E ATTESTATION_FIELDS a "py_get a ''algorithm''"]
    by (auto simp: signed_under_own sdk_attestation_def Let_def unsigned_edge_def refused_artifact_def split: option.splits prod.splits)
qed

definition sdk_edge_holds :: "env \<Rightarrow> pydict \<Rightarrow> pyval \<Rightarrow> now_arg \<Rightarrow> bool \<Rightarrow> pydict \<Rightarrow> pydict \<Rightarrow> bool" where
  "sdk_edge_holds E p ctx now require_signed m a \<longleftrightarrow>
     same_hex (py_get p ''public_key_hex'') (py_get a ''attested_public_key_hex'') \<and>
     same_id (py_get a ''context_id'') ctx \<and> sdk_attestation_open E a now \<and>
     (if unsigned_edge a then \<not> require_signed else edge_genuine (live E) m a)"

lemma sdk_edge_iff:
  "sdk_edge E (hex_text (py_get p ''public_key_hex'')) ctx now req m (PDict a) \<noteq> None \<longleftrightarrow> sdk_edge_holds E p ctx now req m a"
proof (cases "same_hex (py_get p ''public_key_hex'') (py_get a ''attested_public_key_hex'')")
  case False
  then show ?thesis by (auto simp: sdk_edge_def sdk_edge_holds_def same_hex_def split: option.split)
next
  case True
  then obtain k where k: "hex_text (py_get p ''public_key_hex'') = Some k" "hex_text (py_get a ''attested_public_key_hex'') = Some k"
    unfolding same_hex_def by (metis option.exhaust)
  have s: "same_hex (py_get a ''attested_public_key_hex'') (PStr k)" using k hex_text_idem by (simp add: same_hex_def)
  show ?thesis
    using True s
    by (auto simp: sdk_edge_def sdk_edge_holds_def edge_admits_def Let_def k sdk_attestation_authentic edge_genuine_def unsigned_edge_def
        split: if_splits)
qed

lemma sdk_edges_iff:
  "first_some (sdk_edge E (hex_text (py_get p ''public_key_hex'')) ctx now req m) atts \<noteq> None \<longleftrightarrow>
     (\<exists>a. PDict a \<in> set atts \<and> sdk_edge_holds E p ctx now req m a)"
proof -
  have "\<exists>a. att = PDict a" if "sdk_edge E k ctx now req m att \<noteq> None" for att k
    using that by (cases att) (auto simp: sdk_edge_def split: option.splits)
  then show ?thesis unfolding first_some_iff using sdk_edge_iff [of E p ctx now req m] by metis
qed

section \<open>Manifests and feeds that are current\<close>

definition sdk_window :: "env \<Rightarrow> pydict \<Rightarrow> now_arg \<Rightarrow> bool" where
  "sdk_window E d now \<longleftrightarrow> within_window E d now ''issued_at'' ''expires_at'' = Some True"

lemma manifest_current_iff:
  "py_get m ''format'' = PStr MANIFEST_FORMAT \<and> af_authentic (verify_signed_artifact E (PDict m) now ta) \<and>
     af_fresh (verify_signed_artifact E (PDict m) now ta) = Some True \<longleftrightarrow>
   manifest_signed (live E) m \<and> sdk_window E m now"
proof (cases "py_get m ''format'' = PStr MANIFEST_FORMAT")
  case True
  have w: "signed_window MANIFEST_FIELDS = Some (''issued_at'', ''expires_at'')" by (simp add: signed_window_def MANIFEST_FIELDS_def)
  have "af_authentic (verify_signed_artifact E (PDict m) now ta) \<longleftrightarrow> manifest_signed (live E) m"
    unfolding sdk_by_format(3) [OF True] manifest_signed_statement using True by blast
  then show ?thesis
    using True fresh_in_window [OF True artifact_keys(3) w, of E now ta] by (auto simp: sdk_window_def)
qed (auto simp: manifest_signed_def)

lemma feed_current_iff:
  "py_get f ''format'' = PStr REVOCATION_FEED_FORMAT \<and> af_authentic (verify_signed_artifact E (PDict f) now ta) \<and>
     af_fresh (verify_signed_artifact E (PDict f) now ta) = Some True \<longleftrightarrow>
   py_get f ''format'' = PStr REVOCATION_FEED_FORMAT \<and> signed_statement (live E) REVOCATION_FEED_FIELDS f \<and> feed_commits E f \<and>
     sdk_window E f now"
proof (cases "py_get f ''format'' = PStr REVOCATION_FEED_FORMAT")
  case True
  have w: "signed_window REVOCATION_FEED_FIELDS = Some (''issued_at'', ''expires_at'')"
    by (simp add: signed_window_def REVOCATION_FEED_FIELDS_def)
  show ?thesis
    using sdk_by_format(2) [OF True, of E now ta] fresh_in_window [OF True artifact_keys(2) w, of E now ta]
    by (auto simp: sdk_window_def True)
qed simp

section \<open>The decision\<close>

definition sdk_attests :: "env \<Rightarrow> pydict \<Rightarrow> pyval \<Rightarrow> now_arg \<Rightarrow> pyval list \<Rightarrow> bool \<Rightarrow> pyval \<Rightarrow> bool" where
  "sdk_attests E p ctx now anchors req x \<longleftrightarrow>
     (\<exists>m. x = PDict m \<and> manifest_signed (live E) m \<and> sdk_window E m now \<and> key_anchored m anchors \<and> py_get m ''authority'' \<noteq> PNone \<and>
        (\<exists>a. PDict a \<in> set (as_list (py_get m ''attestations'')) \<and> sdk_edge_holds E p ctx now req m a))"

lemma manifest_is_dict: "manifest_signed E (as_dict x) \<Longrightarrow> x = PDict (as_dict x)"
  by (cases x) (auto simp: manifest_signed_def as_dict_def)

lemma sdk_attests_iff:
  "sdk_attests E p ctx now anchors req x \<longleftrightarrow>
     py_get (as_dict x) ''format'' = PStr MANIFEST_FORMAT \<and> af_authentic (verify_signed_artifact E (PDict (as_dict x)) now None) \<and>
     af_fresh (verify_signed_artifact E (PDict (as_dict x)) now None) = Some True \<and>
     hex_in (py_get (as_dict x) ''public_key_hex'') (map hex_text anchors) \<and> py_get (as_dict x) ''authority'' \<noteq> PNone \<and>
     first_some (sdk_edge E (hex_text (py_get p ''public_key_hex'')) ctx now req (as_dict x)) (as_list (py_get (as_dict x) ''attestations'')) \<noteq> None"
proof -
  have "sdk_attests E p ctx now anchors req x \<longleftrightarrow> manifest_signed (live E) (as_dict x) \<and> sdk_window E (as_dict x) now \<and>
      key_anchored (as_dict x) anchors \<and> py_get (as_dict x) ''authority'' \<noteq> PNone \<and>
      (\<exists>a. PDict a \<in> set (as_list (py_get (as_dict x) ''attestations'')) \<and> sdk_edge_holds E p ctx now req (as_dict x) a)"
    (is "_ \<longleftrightarrow> ?r")
  proof
    assume "sdk_attests E p ctx now anchors req x"
    then show ?r by (auto simp: sdk_attests_def)
  next
    assume ?r
    then show "sdk_attests E p ctx now anchors req x"
      unfolding sdk_attests_def using manifest_is_dict [of "live E" x] by blast
  qed
  then show ?thesis
    unfolding sdk_edges_iff key_anchored_def using manifest_current_iff [of "as_dict x" E now None] by blast
qed

lemma sdk_path_iff:
  "sdk_path E (hex_text (py_get p ''public_key_hex'')) ctx now anchors req ms \<noteq> None \<longleftrightarrow>
     (\<exists>x \<in> set ms. sdk_attests E p ctx now anchors req x)"
proof (induction ms)
  case (Cons x ms)
  show ?case
  proof (cases "sdk_attests E p ctx now anchors req x")
    case True
    then show ?thesis by (auto simp: sdk_attests_iff Let_def)
  next
    case False
    then have "sdk_path E (hex_text (py_get p ''public_key_hex'')) ctx now anchors req (x # ms) =
        sdk_path E (hex_text (py_get p ''public_key_hex'')) ctx now anchors req ms"
      unfolding sdk_attests_iff by (auto simp: Let_def split: option.split)
    then show ?thesis using Cons.IH False by simp
  qed
qed simp

text \<open>The feed beside the decision is the issuer's, current, and does not list the credential.\<close>

definition sdk_not_listed :: "env \<Rightarrow> pyval \<Rightarrow> pydict \<Rightarrow> now_arg \<Rightarrow> bool" where
  "sdk_not_listed E feed p now \<longleftrightarrow>
     feed = PNone \<or>
     (\<exists>f. feed = PDict f \<and> py_get f ''format'' = PStr REVOCATION_FEED_FORMAT \<and> signed_statement (live E) REVOCATION_FEED_FIELDS f \<and>
        feed_commits E f \<and> sdk_window E f now \<and> same_hex (py_get f ''public_key_hex'') (py_get p ''public_key_hex'') \<and>
        is_revoked E feed (py_get p ''token_value'') = Some False)"

lemma signed_leaves_are_list: "feed_commits E f \<Longrightarrow> py_get f ''revoked_leaves'' = PList (as_list (py_get f ''revoked_leaves''))"
  by (auto simp: feed_commits_def leaves_are_hex_def Let_def split: pyval.splits)

lemma sdk_listed:
  assumes "pack_signed E' p" "py_get f ''revoked_leaves'' = PList xs"
  shows "hex_of (sha3 E (the (utf8_encode (case py_get p ''token_value'' of PStr s \<Rightarrow> s | _ \<Rightarrow> [])))) \<in> set (leaf_texts E xs) \<longleftrightarrow>
    is_revoked E (PDict f) (py_get p ''token_value'') = Some True"
proof -
  obtain s where s: "py_get p ''token_value'' = PStr s" "token_value_serial_problem (PStr s) = None"
    using assms(1) by (auto simp: pack_signed_def split: pyval.splits)
  obtain raw where raw: "utf8_encode s = Some raw" by (rule serial_encodes [OF s(2)])
  have n: "s \<noteq> []" using s(2) by (auto simp: token_value_serial_problem_def)
  have "ascii (hex_of bs)" for bs using hex_of_chars by (auto simp: ascii_def list_all_iff)
  then have "lower_text E (hex_of bs) = hex_of bs" for bs
    using fromhex_hex_of_lower [OF fromhex_hex_of, of bs] by (simp add: lower_text_def)
  then show ?thesis
    using s n raw assms(2) by (simp add: is_revoked_def revocation_leaf_def py_true_def py_str_def)
qed

lemma sdk_feed_accepts:
  assumes "pack_signed E' p"
  shows "(feed = PNone \<or> sdk_feed_problem E p feed (hex_text (py_get p ''public_key_hex'')) now = None) \<longleftrightarrow> sdk_not_listed E feed p now"
proof (cases "\<exists>f. feed = PDict f")
  case True
  then obtain f where f: "feed = PDict f" by blast
  let ?k = "hex_text (py_get p ''public_key_hex'')"
  define current where "current \<longleftrightarrow> py_get f ''format'' = PStr REVOCATION_FEED_FORMAT \<and> signed_statement (live E) REVOCATION_FEED_FIELDS f \<and>
    feed_commits E f \<and> sdk_window E f now"
  have b: "?k \<noteq> None \<and> hex_text (py_get f ''public_key_hex'') = ?k \<longleftrightarrow> same_hex (py_get f ''public_key_hex'') (py_get p ''public_key_hex'')"
    unfolding same_hex_def by (metis (no_types))
  have p: "sdk_feed_problem E p feed ?k now = None \<longleftrightarrow> current \<and> same_hex (py_get f ''public_key_hex'') (py_get p ''public_key_hex'') \<and>
      hex_of (sha3 E (the (utf8_encode (case py_get p ''token_value'' of PStr s \<Rightarrow> s | _ \<Rightarrow> [])))) \<notin>
        set (leaf_texts E (as_list (py_get f ''revoked_leaves'')))"
    unfolding current_def feed_current_iff [of f E now None, symmetric] b [symmetric] by (auto simp: sdk_feed_problem_def f Let_def)
  have "(hex_of (sha3 E (the (utf8_encode (case py_get p ''token_value'' of PStr s \<Rightarrow> s | _ \<Rightarrow> [])))) \<in>
        set (leaf_texts E (as_list (py_get f ''revoked_leaves''))) \<longleftrightarrow> is_revoked E feed (py_get p ''token_value'') = Some True)" if current
    using that unfolding current_def f by (intro sdk_listed [OF assms] signed_leaves_are_list) blast
  moreover have "is_revoked E feed (py_get p ''token_value'') \<noteq> None"
  proof -
    obtain s where s: "py_get p ''token_value'' = PStr s" "token_value_serial_problem (PStr s) = None"
      using assms(1) by (auto simp: pack_signed_def split: pyval.splits)
    obtain raw where "utf8_encode s = Some raw" by (rule serial_encodes [OF s(2)])
    moreover have "py_true (PStr s)" using s(2) by (auto simp: token_value_serial_problem_def py_true_def)
    ultimately show ?thesis using s by (simp add: is_revoked_def revocation_leaf_def f py_str_def)
  qed
  ultimately show ?thesis
    unfolding p sdk_not_listed_def by (auto simp: f current_def)
next
  case False
  have "sdk_feed_problem E p feed k now \<noteq> None" if "feed \<noteq> PNone" for k
    using False by (cases feed) (auto simp: sdk_feed_problem_def as_dict_def py_get_def Let_def)
  then show ?thesis using False unfolding sdk_not_listed_def by blast
qed

lemma sdk_cross_accept:
  "cx_decision (sdk_cross_authority E (PDict p) ctx ms ta feed now req) = Accept \<longleftrightarrow>
     pack_signed (live E) p \<and> sdk_not_listed E feed p now \<and>
     (\<exists>anchors. ta = Some anchors \<and> (\<exists>x \<in> set (as_list ms). sdk_attests E p ctx now anchors req x))"
proof (cases "pack_signed (live E) p \<and> ta \<noteq> None")
  case True
  then obtain anchors where ta: "ta = Some anchors" by blast
  show ?thesis
  proof (cases "sdk_path E (hex_text (py_get p ''public_key_hex'')) ctx now anchors req (as_list ms)")
    case None
    then show ?thesis
      using sdk_path_iff [of E p ctx now anchors req "as_list ms"] True ta
      by (simp add: sdk_cross_authority_def Let_def sdk_pack_authentic)
  next
    case (Some r)
    then show ?thesis
      using sdk_path_iff [of E p ctx now anchors req "as_list ms"] sdk_feed_accepts [of "live E" p feed E now] True ta
      by (cases r) (auto simp: sdk_cross_authority_def Let_def sdk_pack_authentic split: option.split)
  qed
next
  case False
  then show ?thesis by (auto simp: sdk_cross_authority_def Let_def sdk_pack_authentic split: option.split)
qed

section \<open>The decision of the detached verifier\<close>

text \<open>Instants near 1970, a window that is text or absent, and an authority that is absent or not empty.\<close>

definition near_now :: "env \<Rightarrow> now_arg \<Rightarrow> bool" where
  "near_now E now \<longleftrightarrow> shared_now now \<and> (case instant (clock E) now of None \<Rightarrow> True | Some t \<Rightarrow> near_1970 t)"

definition plain_edge :: "pydict \<Rightarrow> bool" where
  "plain_edge a \<longleftrightarrow>
     (case py_get a ''valid_until'' of PNone \<Rightarrow> True
      | PStr s \<Rightarrow> (case strict_instant s of None \<Rightarrow> True | Some u \<Rightarrow> near_1970 u)
      | _ \<Rightarrow> False)"

definition plain_manifest :: "env \<Rightarrow> now_arg \<Rightarrow> pyval \<Rightarrow> bool" where
  "plain_manifest E now x \<longleftrightarrow> near_instants E (as_dict x) now \<and>
     (py_get (as_dict x) ''authority'' = PNone \<or> py_true (py_get (as_dict x) ''authority'')) \<and>
     (\<forall>a. PDict a \<in> set (as_list (py_get (as_dict x) ''attestations'')) \<longrightarrow> plain_edge a)"

lemma fresh_now_window: "fresh_now E d now None \<longleftrightarrow> in_window E d now"
  by (auto simp: fresh_now_def verify_window_inline_fresh_iff in_window_def split: option.split)

lemma live_window [simp]: "in_window (live E) d now = in_window E d now"
  by (simp add: in_window_def)

lemma sdk_window_iff: "near_now E now \<Longrightarrow> near_instants E d now \<Longrightarrow> sdk_window E d now \<longleftrightarrow> in_window E d now"
  unfolding sdk_window_def near_now_def by (intro window_agrees) simp_all

lemma attestation_open_iff:
  assumes "near_now E now" "plain_edge a"
  shows "sdk_attestation_open E a now \<longleftrightarrow> attestation_window_open (live E) (PDict a) now"
proof (cases "py_get a ''valid_until''")
  case (PStr s)
  have n: "sdk_now E now = map_option epoch_seconds (instant (clock E) now)"
    using assms(1) by (intro sdk_now_instant) (simp add: near_now_def)
  show ?thesis
    using assms epoch_seconds_order(2)
    by (auto simp: sdk_attestation_open_def attestation_window_open_def n PStr iso_to_epoch_def plain_edge_def near_now_def py_str_def
        Let_def split: option.splits)
qed (use assms(2) in \<open>simp_all add: sdk_attestation_open_def attestation_window_open_def plain_edge_def Let_def\<close>)

lemma edge_holds_iff:
  assumes "near_now E now" "plain_edge a"
  shows "sdk_edge_holds E p ctx now req m a \<longleftrightarrow> edge_holds (live E) p ctx now req m a"
  by (simp add: sdk_edge_holds_def edge_holds_def attestation_open_iff [OF assms])

lemma sdk_attests_detached:
  assumes "near_now E now" "plain_manifest E now x"
  shows "sdk_attests E p ctx now anchors req x \<longleftrightarrow> attests (live E) p ctx now None anchors req x"
proof (cases x)
  case (PDict m)
  have n: "near_instants E m now" "py_get m ''authority'' = PNone \<or> py_true (py_get m ''authority'')"
    "\<And>a. PDict a \<in> set (as_list (py_get m ''attestations'')) \<Longrightarrow> plain_edge a"
    using assms(2) by (simp_all add: plain_manifest_def PDict)
  have "py_get m ''authority'' \<noteq> PNone \<longleftrightarrow> py_true (py_get m ''authority'')" using n(2) by (auto simp: py_true_def)
  moreover have "(\<exists>a. PDict a \<in> set (as_list (py_get m ''attestations'')) \<and> sdk_edge_holds E p ctx now req m a) \<longleftrightarrow>
      (\<exists>a. PDict a \<in> set (as_list (py_get m ''attestations'')) \<and> edge_holds (live E) p ctx now req m a)"
    using edge_holds_iff [OF assms(1) n(3)] by blast
  ultimately show ?thesis
    by (simp add: sdk_attests_def attests_def PDict fresh_now_window sdk_window_iff [OF assms(1) n(1)])
qed (simp_all add: sdk_attests_def attests_def)

lemma uncapped_manifest: "verify_manifest E m now None ta \<noteq> None"
proof (cases "manifest_signed E (as_dict m)")
  case True
  then obtain v where "verify_manifest E (PDict (as_dict m)) now None ta = manifest_window E (as_dict m) now None ta v"
    by (rule verify_manifest_signed)
  moreover have "manifest_window E (as_dict m) now None ta v \<noteq> None"
    using inline_uncapped [of E "as_dict m" now] by (auto simp: manifest_window_def Let_def)
  ultimately show ?thesis by (simp add: verify_manifest_def)
next
  case False
  then obtain v where "verify_manifest E (PDict (as_dict m)) now None ta = Some v"
    using verify_manifest_unsigned by blast
  then show ?thesis by (simp add: verify_manifest_def)
qed

lemma attested_uncapped:
  "attested E p ctx now None anchors req ms \<longleftrightarrow> (\<exists>m \<in> set ms. attests E p ctx now None anchors req m)"
proof
  assume "attested E p ctx now None anchors req ms"
  then obtain m rest where a: "attests E p ctx now None anchors req m"
    "dropWhile (\<lambda>m. verify_manifest E m now None (Some anchors) \<noteq> None \<and> \<not> attests E p ctx now None anchors req m) ms = m # rest"
    unfolding attested_def by blast
  then have "m \<in> set ms" by (metis list.set_intros(1) set_dropWhileD)
  with a(1) show "\<exists>m \<in> set ms. attests E p ctx now None anchors req m" by blast
next
  assume "\<exists>m \<in> set ms. attests E p ctx now None anchors req m"
  then have "dropWhile (\<lambda>m. \<not> attests E p ctx now None anchors req m) ms \<noteq> []" by auto
  then obtain m rest where d: "dropWhile (\<lambda>m. \<not> attests E p ctx now None anchors req m) ms = m # rest" by (meson neq_Nil_conv)
  then have "attests E p ctx now None anchors req m" by (metis dropWhile_eq_Cons_conv)
  then show "attested E p ctx now None anchors req ms"
    using d by (auto simp: attested_def uncapped_manifest)
qed

lemma not_listed_iff:
  assumes "near_now E now" "near_instants E (as_dict feed) now"
  shows "sdk_not_listed E feed p now \<longleftrightarrow> not_listed (live E) feed p now None"
proof -
  have r: "is_revoked (live E) = is_revoked E"
    unfolding is_revoked_def [abs_def] revocation_leaf_def [abs_def] live_texts live_simps by (rule refl)
  have "sdk_window E f now \<longleftrightarrow> in_window E f now" if "feed = PDict f" for f
    using assms(2) that by (intro sdk_window_iff [OF assms(1)]) simp
  then show ?thesis by (auto simp: sdk_not_listed_def not_listed_def verify_window_uncapped r)
qed

lemma cross_agrees:
  assumes "near_now E now" "\<forall>x \<in> set (as_list ms). plain_manifest E now x" "near_instants E (as_dict feed) now"
  shows "cx_decision (sdk_cross_authority E (PDict p) ctx ms ta feed now req) = Accept \<longleftrightarrow>
    map_option xa_decision (verify_cross_authority (live E) (PDict p) ctx ms now None ta feed PNone req) = Some Accept"
  unfolding sdk_cross_accept cross_accept attested_uncapped not_listed_iff [OF assms(1,3)]
  using sdk_attests_detached [OF assms(1)] assms(2) by (auto simp: key_usable_def)

section \<open>The exchange of the detached verifier\<close>

lemma map_filter_not_Nil: "List.map_filter f xs \<noteq> [] \<longleftrightarrow> (\<exists>x \<in> set xs. f x \<noteq> None)"
  by (induction xs) (auto simp: List.map_filter_simps split: option.split)

definition sdk_authorizes :: "env \<Rightarrow> pydict \<Rightarrow> pyval \<Rightarrow> now_arg \<Rightarrow> pyval \<Rightarrow> bool" where
  "sdk_authorizes E p ctx now x \<longleftrightarrow>
     (\<exists>m. x = PDict m \<and> manifest_signed (live E) m \<and> sdk_window E m now \<and>
        (\<exists>a. PDict a \<in> set (as_list (py_get m ''attestations'')) \<and> sdk_edge_holds E p ctx now False m a))"

lemma attesting_entry_iff:
  assumes "hex_text (py_get p ''public_key_hex'') = Some want"
  shows "attesting_entry E want ctx now x \<noteq> None \<longleftrightarrow> sdk_authorizes E p ctx now x"
proof -
  have e: "first_some (sdk_edge E (Some want) ctx now False m) atts \<noteq> None \<longleftrightarrow>
      (\<exists>a. PDict a \<in> set atts \<and> sdk_edge_holds E p ctx now False m a)" for m atts
    using sdk_edges_iff [of E p ctx now False m atts] by (simp only: assms)
  have "attesting_entry E want ctx now x \<noteq> None \<longleftrightarrow>
      (py_get (as_dict x) ''format'' = PStr MANIFEST_FORMAT \<and> af_authentic (verify_signed_artifact E (PDict (as_dict x)) now None) \<and>
       af_fresh (verify_signed_artifact E (PDict (as_dict x)) now None) = Some True) \<and>
      first_some (sdk_edge E (Some want) ctx now False (as_dict x)) (as_list (py_get (as_dict x) ''attestations'')) \<noteq> None"
    by (auto simp: attesting_entry_def Let_def)
  also have "\<dots> \<longleftrightarrow> sdk_authorizes E p ctx now x"
    unfolding manifest_current_iff e sdk_authorizes_def using manifest_is_dict [of "live E" x] by (metis as_dict_PDict)
  finally show ?thesis .
qed

lemma attesting_entry_authority: "attesting_entry E want ctx now x = Some (a, s) \<Longrightarrow> a = py_get (as_dict x) ''authority''"
  by (auto simp: attesting_entry_def Let_def split: if_splits)

lemma authorities_found:
  "exchange_authorities E (py_get p ''public_key_hex'') ctx ms now \<noteq> [] \<longleftrightarrow> (\<exists>x \<in> set (as_list ms). sdk_authorizes E p ctx now x)"
proof (cases "hex_text (py_get p ''public_key_hex'')")
  case None
  then show ?thesis by (auto simp: exchange_authorities_def sdk_authorizes_def sdk_edge_holds_def same_hex_def)
next
  case (Some want)
  then show ?thesis
    unfolding exchange_authorities_def Some option.case map_filter_not_Nil using attesting_entry_iff [OF Some] by blast
qed

lemma authorities_named:
  "filter (\<lambda>(a, _). py_true a) (exchange_authorities E (py_get p ''public_key_hex'') ctx ms now) \<noteq> [] \<longleftrightarrow>
     (\<exists>x \<in> set (as_list ms). sdk_authorizes E p ctx now x \<and> names_authority x)"
proof (cases "hex_text (py_get p ''public_key_hex'')")
  case None
  then show ?thesis by (auto simp: exchange_authorities_def sdk_authorizes_def sdk_edge_holds_def same_hex_def)
next
  case (Some want)
  have "filter (\<lambda>(a, _). py_true a) (List.map_filter (attesting_entry E want ctx now) xs) \<noteq> [] \<longleftrightarrow>
      (\<exists>x \<in> set xs. attesting_entry E want ctx now x \<noteq> None \<and> names_authority x)" for xs
    using attesting_entry_authority [of E want ctx now]
    by (induction xs) (auto simp: List.map_filter_simps names_authority_def split: option.split)
  then show ?thesis
    unfolding exchange_authorities_def Some option.case attesting_entry_iff [OF Some] by blast
qed

lemma authorizes_iff:
  assumes "near_now E now" "plain_manifest E now x"
  shows "sdk_authorizes E p ctx now x \<longleftrightarrow> manifest_authorizes (live E) p ctx now x"
proof (cases x)
  case (PDict m)
  have n: "near_instants E m now" "\<And>a. PDict a \<in> set (as_list (py_get m ''attestations'')) \<Longrightarrow> plain_edge a"
    using assms(2) by (simp_all add: plain_manifest_def PDict)
  have "(\<exists>a. PDict a \<in> set (as_list (py_get m ''attestations'')) \<and> sdk_edge_holds E p ctx now False m a) \<longleftrightarrow>
      (\<exists>a. PDict a \<in> set (as_list (py_get m ''attestations'')) \<and> edge_holds (live E) p ctx now False m a)"
    using edge_holds_iff [OF assms(1) n(2)] by blast
  then show ?thesis
    by (simp add: sdk_authorizes_def manifest_authorizes_def PDict fresh_now_window sdk_window_iff [OF assms(1) n(1)])
qed (simp_all add: sdk_authorizes_def manifest_authorizes_def)

lemma same_key_hex:
  assumes "hex_text a \<noteq> None"
  shows "same_key a b \<longleftrightarrow> same_hex b a"
  using assms by (auto simp: same_key_def same_hex_def hex_text_def py_lower_def split: pyval.splits if_splits)

lemma sdk_request_authentic:
  "xq_authentic (sdk_exchange_request E (PDict e) rk ms body now) \<longleftrightarrow> text_envelope e \<and> request_signed (live E) e"
proof (cases "py_get e ''format'' = PStr EXCHANGE_REQUEST_FORMAT")
  case f: True
  have a: "af_authentic (verify_signed_artifact E (PDict e) now None) \<longleftrightarrow> signed_statement (live E) EXCHANGE_REQUEST_FIELDS e"
    by (rule sdk_by_format(8) [OF f])
  have "hex_text (py_get e ''public_key_hex'') \<noteq> None" if "signed_statement (live E) EXCHANGE_REQUEST_FIELDS e"
    using signed_is_text [OF that] signed_under_no_placeholder [OF that]
    by (auto simp: text_envelope_def is_str_def placeholder_envelope_def hex_text_def py_true_def split: pyval.splits)
  then show ?thesis
    using f a same_key_hex text_signed_iff [of e "live E" EXCHANGE_REQUEST_FIELDS] signed_is_text
    by (auto simp: sdk_exchange_request_def Let_def refused_request_def request_signed_def)
next
  case False
  then show ?thesis by (simp add: sdk_exchange_request_def Let_def refused_request_def request_signed_def)
qed

lemma request_agrees:
  assumes "near_now E now" "\<forall>x \<in> set (as_list ms). plain_manifest E now x"
  shows "xq_authentic (sdk_exchange_request E (PDict e) rk ms body now) \<and>
      xq_authorized (sdk_exchange_request E (PDict e) rk ms body now) = Some True \<longleftrightarrow>
    text_envelope e \<and>
      map_option (\<lambda>v. (rq_authentic v, rq_authorized v)) (verify_exchange_request (live E) (PDict e) rk' (Some ms) body' now) =
        Some (True, Some True)"
proof -
  let ?v = "sdk_exchange_request E (PDict e) rk ms body now"
  have "xq_authorized ?v = Some True \<longleftrightarrow> ms \<noteq> PNone \<and> (\<exists>x \<in> set (as_list ms). sdk_authorizes E e (py_get e ''context_id'') now x)"
    if "xq_authentic ?v"
    using that authorities_found [of E e "py_get e ''context_id''" ms now]
    by (auto simp: sdk_exchange_request_def Let_def refused_request_def split: if_splits)
  moreover have "(\<exists>x \<in> set (as_list ms). sdk_authorizes E e (py_get e ''context_id'') now x) \<longleftrightarrow>
      (\<exists>x \<in> set (as_list ms). manifest_authorizes (live E) e (py_get e ''context_id'') now x)"
    using authorizes_iff [OF assms(1)] assms(2) by blast
  moreover have "ms \<noteq> PNone" if "x \<in> set (as_list ms)" for x using that by (auto simp: as_list_def)
  ultimately show ?thesis unfolding request_authorized sdk_request_authentic by blast
qed

lemma receipt_agrees:
  assumes "near_now E now" "\<forall>x \<in> set (as_list ms). plain_manifest E now x"
  shows "map_option (\<lambda>v. (xr_authentic v, xr_authorized v)) (sdk_exchange_receipt E (PDict r) now ms rk None None) = Some (True, Some True) \<longleftrightarrow>
    map_option (\<lambda>v. (er_authentic v, er_authorized v)) (verify_exchange_receipt (live E) (PDict r) now (Some ms) rk' None None None) =
      Some (True, Some True)"
proof (cases "receipt_signed (live E) r")
  case True
  then have f: "py_get r ''format'' = PStr EXCHANGE_RECEIPT_FORMAT" by (simp add: receipt_signed_def)
  have a: "af_authentic (verify_signed_artifact E (PDict r) now None)"
    using True by (simp add: sdk_by_format(12) [OF f] receipt_signed_def)
  have "(\<exists>x \<in> set (as_list ms). sdk_authorizes E (as_dict (py_get r ''requester'')) (py_get r ''context_id'') now x \<and> names_authority x) \<longleftrightarrow>
      (\<exists>x \<in> set (as_list ms). manifest_authorizes (live E) (as_dict (py_get r ''requester'')) (py_get r ''context_id'') now x \<and> names_authority x)"
    using authorizes_iff [OF assms(1)] assms(2) by blast
  moreover have "ms \<noteq> PNone" if "x \<in> set (as_list ms)" for x using that by (auto simp: as_list_def)
  ultimately show ?thesis
    unfolding receipt_authorized using True a f authorities_named [of E "as_dict (py_get r ''requester'')" "py_get r ''context_id''" ms now]
    by (auto simp: sdk_exchange_receipt_def Let_def body_binds_def)
next
  case False
  have "\<not> (py_get r ''format'' = PStr EXCHANGE_RECEIPT_FORMAT \<and> af_authentic (verify_signed_artifact E (PDict r) now None))"
    using False sdk_by_format(12) [of r E now None] by (auto simp: receipt_signed_def)
  then show ?thesis
    unfolding receipt_authorized using False by (auto simp: sdk_exchange_receipt_def Let_def refused_receipt_def)
qed

section \<open>Properties\<close>

text \<open>
  The SDK accepts another authority's credential exactly when the credential is genuine, a manifest of
  an authority, signed by a key the relying party trusts and in its window, carries an edge to the
  credential's key in the presented context that is open and, where it is signed or has to be, signed by
  an active root of that authority, and the revocation feed beside it, if any, is the issuer's, genuine,
  in its window, and does not list the credential.
\<close>

theorem sdk_cross_accepts_exactly:
  "cx_decision (sdk_cross_authority E (PDict p) ctx ms ta feed now req) = Accept \<longleftrightarrow>
     pack_signed (live E) p \<and> sdk_not_listed E feed p now \<and>
     (\<exists>anchors. ta = Some anchors \<and> (\<exists>x \<in> set (as_list ms). sdk_attests E p ctx now anchors req x))"
  by (rule sdk_cross_accept)

text \<open>
  C29. A relying party gets one decision on a foreign credential and on an exchange from either verifier:
  where the instants lie within \<open>2 ^ 33\<close> seconds of 1970 and every authority a manifest names is not
  empty, the SDK accepts a credential exactly when the detached verifier, with no cap and no trust list,
  does, and finds a request or a receipt authentic and its requester authorized exactly when it does.
\<close>

theorem sdk_decides_as_detached:
  assumes "near_now E now" "\<forall>x \<in> set (as_list ms). plain_manifest E now x" "near_instants E (as_dict feed) now"
  shows "(cx_decision (sdk_cross_authority E (PDict p) ctx ms ta feed now req) = Accept \<longleftrightarrow>
      map_option xa_decision (verify_cross_authority (live E) (PDict p) ctx ms now None ta feed PNone req) = Some Accept) \<and>
    (xq_authentic (sdk_exchange_request E (PDict e) rk ms body now) \<and>
      xq_authorized (sdk_exchange_request E (PDict e) rk ms body now) = Some True \<longleftrightarrow>
     text_envelope e \<and>
      map_option (\<lambda>v. (rq_authentic v, rq_authorized v)) (verify_exchange_request (live E) (PDict e) None (Some ms) None now) =
        Some (True, Some True)) \<and>
    (map_option (\<lambda>v. (xr_authentic v, xr_authorized v)) (sdk_exchange_receipt E (PDict r) now ms rk None None) = Some (True, Some True) \<longleftrightarrow>
     map_option (\<lambda>v. (er_authentic v, er_authorized v)) (verify_exchange_receipt (live E) (PDict r) now (Some ms) None None None None) =
      Some (True, Some True))"
  by (intro conjI cross_agrees [OF assms] request_agrees [OF assms(1,2)] receipt_agrees [OF assms(1,2)])

lemma sdk_decides_as_detached_witness:
  "(cx_decision (sdk_cross_authority trusting_env (PDict sample_request) (PStr (lit ''c'')) (PList [PDict sample_manifest]) None PNone
      (NowText (iso_text 2026 10 21 12 0 0)) False) = Accept \<longleftrightarrow>
    map_option xa_decision (verify_cross_authority (live trusting_env) (PDict sample_request) (PStr (lit ''c'')) (PList [PDict sample_manifest])
      (NowText (iso_text 2026 10 21 12 0 0)) None None PNone PNone False) = Some Accept) \<and>
   (xq_authentic (sdk_exchange_request trusting_env (PDict sample_request) PNone (PList [PDict sample_manifest]) PNone
      (NowText (iso_text 2026 10 21 12 0 0))) \<and>
    xq_authorized (sdk_exchange_request trusting_env (PDict sample_request) PNone (PList [PDict sample_manifest]) PNone
      (NowText (iso_text 2026 10 21 12 0 0))) = Some True \<longleftrightarrow>
    text_envelope sample_request \<and>
    map_option (\<lambda>v. (rq_authentic v, rq_authorized v)) (verify_exchange_request (live trusting_env) (PDict sample_request) None
      (Some (PList [PDict sample_manifest])) None (NowText (iso_text 2026 10 21 12 0 0))) = Some (True, Some True)) \<and>
   (map_option (\<lambda>v. (xr_authentic v, xr_authorized v)) (sdk_exchange_receipt trusting_env (PDict sample_receipt)
      (NowText (iso_text 2026 10 21 12 0 0)) (PList [PDict sample_manifest]) PNone None None) = Some (True, Some True) \<longleftrightarrow>
    map_option (\<lambda>v. (er_authentic v, er_authorized v)) (verify_exchange_receipt (live trusting_env) (PDict sample_receipt)
      (NowText (iso_text 2026 10 21 12 0 0)) (Some (PList [PDict sample_manifest])) None None None None) = Some (True, Some True))"
proof (rule sdk_decides_as_detached)
  show "near_now trusting_env (NowText (iso_text 2026 10 21 12 0 0))"
    using sample_now_near by (simp add: near_now_def shared_now_def)
  have "plain_edge a" if "PDict a \<in> set (as_list (py_get sample_manifest ''attestations''))" for a
    using that by (simp add: sample_manifest_def sample_edge_def plain_edge_def)
  moreover have "py_true (py_get sample_manifest ''authority'')" by (simp add: sample_manifest_def py_true_def)
  ultimately show "\<forall>x \<in> set (as_list (PList [PDict sample_manifest])). plain_manifest trusting_env (NowText (iso_text 2026 10 21 12 0 0)) x"
    using sample_manifest_near by (simp add: plain_manifest_def)
  show "near_instants trusting_env (as_dict PNone) (NowText (iso_text 2026 10 21 12 0 0))"
    by (simp add: near_instants_def instants_def instant_at_def as_dict_def split: option.split)
qed

text \<open>
  They part where a manifest names an empty authority: an edge in it is enough for the SDK, which asks
  only that the authority is given, and not for the detached verifier.
\<close>

theorem empty_authority_divides:
  assumes "py_get m ''authority'' = PDict []" "manifest_signed (live E) m" "sdk_window E m now" "key_anchored m anchors"
    and "PDict a \<in> set (as_list (py_get m ''attestations''))" "sdk_edge_holds E p ctx now req m a" "pack_signed (live E) p"
  shows "cx_decision (sdk_cross_authority E (PDict p) ctx (PList [PDict m]) (Some anchors) PNone now req) = Accept \<and>
    map_option xa_decision (verify_cross_authority (live E) (PDict p) ctx (PList [PDict m]) now cap (Some anchors) PNone PNone req) \<noteq>
      Some Accept"
proof -
  have "sdk_attests E p ctx now anchors req (PDict m)"
    using assms by (auto simp: sdk_attests_def)
  moreover have "\<not> attests (live E) p ctx now cap anchors req (PDict m)"
    using assms(1) by (simp add: attests_def py_true_def)
  then have "\<not> attested (live E) p ctx now cap anchors req [PDict m]"
    by (auto simp: attested_def split: if_splits)
  ultimately show ?thesis
    using assms(7) by (simp add: sdk_cross_accept cross_accept sdk_not_listed_def del: map_option_eq_Some)
qed

end
