(* ===== verification/SdkHolders.thy ===== *)
theory SdkHolders
  imports SdkFederation
begin

text \<open>
  The SDK on holders and their agents: the holder key chain (\<open>verify_holder\<close>), and the questions a service
  asks of an agent grant (\<open>grant_covers\<close>, \<open>grant_in_context\<close>, \<open>grant_within_limits\<close>,
  \<open>revocation_ends_grant\<close>, \<open>grant_principal_bound\<close>, \<open>agent_proof_proves\<close>). Asked together, as their
  documentation says, they decide as the detached verifier's \<open>verify_agent_grant\<close>.
\<close>

section \<open>The holder key chain\<close>

text \<open>\<open>_iso_to_epoch(now) if now else time.time()\<close>: an empty text and 0 are the clock.\<close>

definition holder_ref :: "env \<Rightarrow> now_arg \<Rightarrow> rat option" where
  "holder_ref E now = (if now = NowText [] \<or> now = NowInt 0 then sdk_now E NoNow else sdk_now E now)"

datatype holder_note =
    HolderFormats | ProofUnchecked vnote | NoChallenge | CredentialSignature | IssuerNotAnchored | ChainBroken

record holder_verdict =
  ho_proved :: bool
  ho_binding_authentic :: "bool option"
  ho_bound_to_credential :: "bool option"
  ho_binding_fresh :: "bool option"
  ho_proof_authentic :: "bool option"
  ho_key_matches_binding :: "bool option"
  ho_nonce_matches :: "bool option"
  ho_credential_authentic :: "bool option"
  ho_issuer_trusted :: "bool option"
  ho_note :: "holder_note option"

definition blank_holder :: holder_verdict where
  "blank_holder =
     \<lparr>ho_proved = False, ho_binding_authentic = None, ho_bound_to_credential = None, ho_binding_fresh = None,
      ho_proof_authentic = None, ho_key_matches_binding = None, ho_nonce_matches = None, ho_credential_authentic = None,
      ho_issuer_trusted = None, ho_note = None\<rparr>"

text \<open>The verdict on the proof and its conclusion, once binding and credential are read.\<close>

definition holder_conclusion ::
    "env \<Rightarrow> pydict \<Rightarrow> pydict \<Rightarrow> pyval \<Rightarrow> pyval \<Rightarrow> now_arg \<Rightarrow> int \<Rightarrow> bool \<Rightarrow> holder_verdict \<Rightarrow> holder_verdict" where
  "holder_conclusion E b pr expected_nonce expected_context now max_age proof_ok v =
     (let key_ok = same_hex (py_get pr ''public_key_hex'') (py_get b ''holder_public_key_hex'') \<and>
            wire_text_equal (py_get pr ''token_value'') (py_get b ''token_value'') \<and> status_of b = PStr (lit ''active'');
          nonce = (if expected_nonce = PNone then None else Some (wire_text_equal (py_get pr ''verifier_nonce'') expected_nonce));
          ctx_ok = expected_context = PNone \<or> same_id (py_get pr ''context_id'') expected_context;
          fresh = (case (iso_to_epoch (py_get pr ''issued_at''), holder_ref E now) of
            (Some issued, Some ref) \<Rightarrow> issued \<le> double_near (ref + 60) \<and> double_near (ref - issued) \<le> of_int max_age
          | _ \<Rightarrow> False);
          proved = ho_credential_authentic v = Some True \<and> ho_issuer_trusted v \<noteq> Some False \<and> ho_binding_authentic v = Some True \<and>
            ho_binding_fresh v = Some True \<and> ho_bound_to_credential v = Some True \<and> proof_ok \<and> key_ok \<and> nonce = Some True \<and>
            ctx_ok \<and> fresh
      in v\<lparr>ho_proof_authentic := Some proof_ok, ho_key_matches_binding := Some key_ok, ho_nonce_matches := nonce, ho_proved := proved,
           ho_note := (if proved then ho_note v else if expected_nonce = PNone then Some NoChallenge
             else if ho_credential_authentic v \<noteq> Some True then Some CredentialSignature
             else if ho_issuer_trusted v = Some False then Some IssuerNotAnchored else Some ChainBroken)\<rparr>)"

definition verify_holder ::
    "env \<Rightarrow> pyval \<Rightarrow> pyval \<Rightarrow> pyval \<Rightarrow> pyval \<Rightarrow> pyval \<Rightarrow> now_arg \<Rightarrow> int \<Rightarrow> pyval list option \<Rightarrow> holder_verdict" where
  "verify_holder E credential binding holder_proof expected_nonce expected_context now max_age anchors =
     (let b = as_dict binding; pr = as_dict holder_proof; cred = as_dict credential; v = blank_holder
      in if py_get b ''format'' \<noteq> PStr HOLDER_BINDING_FORMAT \<or> py_get pr ''format'' \<noteq> PStr HOLDER_PROOF_FORMAT then
           v\<lparr>ho_note := Some HolderFormats\<rparr>
         else
           let bv = verify_signed_artifact E (PDict b) now None; av = verify_authenticity E (PDict cred) anchors;
               v1 = v\<lparr>ho_binding_authentic := Some (af_authentic bv), ho_binding_fresh := af_fresh bv,
                 ho_credential_authentic := Some (au_authentic av), ho_issuer_trusted := au_trusted av,
                 ho_bound_to_credential := Some (wire_text_equal (py_get b ''token_value'') (py_get cred ''token_value'') \<and>
                   same_hex (py_get b ''public_key_hex'') (py_get cred ''public_key_hex''))\<rparr>
           in (case verify_over_digest E (canonical_digest E HOLDER_PROOF_FIELDS pr) (py_get pr ''signature_hex'')
                   (py_get pr ''public_key_hex'') (py_get pr ''algorithm'') of
                 (None, tried, n) \<Rightarrow> v1\<lparr>ho_note := map_option ProofUnchecked n\<rparr>
               | (Some proof_ok, tried, n) \<Rightarrow>
                   holder_conclusion E b pr expected_nonce expected_context now max_age proof_ok v1))"

section \<open>The questions of a grant\<close>

definition grant_covers :: "pyval \<Rightarrow> pyval \<Rightarrow> bool" where
  "grant_covers grant action \<longleftrightarrow>
     (case grant of PDict g \<Rightarrow> wire_text action \<noteq> None \<and> list_ex (\<lambda>a. wire_text a = wire_text action) (as_list (py_get g ''actions''))
      | _ \<Rightarrow> False)"

definition grant_in_context :: "pyval \<Rightarrow> pyval \<Rightarrow> bool" where
  "grant_in_context grant context_id \<longleftrightarrow>
     (case grant of PDict g \<Rightarrow> same_id (py_get g ''context_id'') context_id | _ \<Rightarrow> False)"

text \<open>The four numbers are read first, in order, each that is given; the outer option is what raises.\<close>

fun first_not_finite :: "(limit_note \<times> pyval) list \<Rightarrow> limit_note option option" where
  "first_not_finite [] = Some None"
| "first_not_finite ((n, v) # vs) =
     (case present_finite v of None \<Rightarrow> None | Some False \<Rightarrow> Some (Some n) | Some True \<Rightarrow> first_not_finite vs)"

text \<open>A use count that is \<open>None\<close> beside a limit on uses raises in \<open>float(None)\<close>.\<close>

definition sdk_uses :: "pyval \<Rightarrow> pyval \<Rightarrow> limit_note option option" where
  "sdk_uses max_uses uses =
     (if max_uses = PNone then Some None
      else if \<not> float_is_int max_uses then Some (Some UsesNotWhole)
      else if uses = PNone then None
      else if \<not> float_is_int uses then Some (Some UsesNotWhole)
      else if to_int max_uses \<le> to_int uses then Some (Some Exhausted) else Some None)"

definition sdk_within_limits :: "pyval \<Rightarrow> pyval \<Rightarrow> pyval \<Rightarrow> (bool \<times> limit_note option) option" where
  "sdk_within_limits grant uses amount =
     (case grant of PDict g \<Rightarrow>
        (case (case py_get g ''limits'' of PNone \<Rightarrow> Some [] | PDict l \<Rightarrow> Some l | _ \<Rightarrow> None) of
           None \<Rightarrow> Some (False, Some LimitsNotAnObject)
         | Some limits \<Rightarrow>
             let unknown = filter (\<lambda>k. k \<noteq> lit ''max_uses'' \<and> k \<noteq> lit ''max_amount'') (map fst limits);
                 max_uses = py_get limits ''max_uses''; max_amount = py_get limits ''max_amount''
             in if unknown \<noteq> [] then Some (False, Some (UnknownLimits (sort unknown)))
                else
                  (case first_not_finite [(MaxUsesNotFinite, max_uses), (UsesNotFinite, uses), (MaxAmountNotFinite, max_amount),
                       (AmountNotFinite, amount)] of
                     None \<Rightarrow> None
                   | Some (Some why) \<Rightarrow> Some (False, Some why)
                   | Some None \<Rightarrow>
                       (case sdk_uses max_uses uses of None \<Rightarrow> None
                        | Some (Some why) \<Rightarrow> Some (False, Some why)
                        | Some None \<Rightarrow>
                            if max_amount \<noteq> PNone \<and> amount \<noteq> PNone \<and> to_float max_amount < to_float amount then
                              Some (False, Some AmountExceeds)
                            else Some (True, None))))
      | _ \<Rightarrow> Some (False, Some GrantNotAnObject))"

definition revocation_ends_grant :: "pyval \<Rightarrow> pyval \<Rightarrow> bool" where
  "revocation_ends_grant revocation grant \<longleftrightarrow>
     (case (revocation, grant) of
        (PDict r, PDict g) \<Rightarrow>
          py_get r ''format'' = PStr GRANT_REVOCATION_FORMAT \<and> wire_text_equal (py_get r ''grant_id'') (py_get g ''grant_id'') \<and>
          same_hex (py_get r ''public_key_hex'') (py_get g ''public_key_hex'')
      | _ \<Rightarrow> False)"

definition grant_principal_bound :: "env \<Rightarrow> pyval \<Rightarrow> pyval \<Rightarrow> pyval \<Rightarrow> now_arg \<Rightarrow> bool" where
  "grant_principal_bound E grant binding credential now \<longleftrightarrow>
     (case (grant, binding, credential) of
        (PDict g, PDict b, PDict c) \<Rightarrow>
          py_get b ''format'' = PStr HOLDER_BINDING_FORMAT \<and> au_authentic (verify_authenticity E credential None) \<and>
          (let bv = verify_signed_artifact E binding now None in
           af_authentic bv \<and> af_fresh bv = Some True \<and> status_of b = PStr (lit ''active'') \<and>
           same_hex (py_get b ''holder_public_key_hex'') (py_get g ''public_key_hex'') \<and>
           wire_text_equal (py_get b ''token_value'') (py_get c ''token_value'') \<and>
           same_hex (py_get b ''public_key_hex'') (py_get c ''public_key_hex''))
      | _ \<Rightarrow> False)"

definition agent_proof_proves :: "env \<Rightarrow> pyval \<Rightarrow> pyval \<Rightarrow> pyval \<Rightarrow> pyval \<Rightarrow> now_arg \<Rightarrow> bool" where
  "agent_proof_proves E agent_proof grant action nonce now \<longleftrightarrow>
     (case (agent_proof, grant) of
        (PDict pr, PDict g) \<Rightarrow>
          py_get pr ''format'' = PStr AGENT_PROOF_FORMAT \<and> wire_text_equal (py_get pr ''grant_id'') (py_get g ''grant_id'') \<and>
          same_hex (py_get pr ''public_key_hex'') (py_get g ''agent_public_key_hex'') \<and>
          (py_get g ''agent_algorithm'' = PNone \<or> py_eq (py_get pr ''algorithm'') (py_get g ''agent_algorithm'')) \<and>
          (nonce = PNone \<or> wire_text_equal (py_get pr ''service_nonce'') nonce) \<and>
          (action = PNone \<or> wire_text_equal (py_get pr ''action'') action) \<and>
          (case (iso_to_epoch (py_get pr ''issued_at''), iso_to_epoch (py_get g ''issued_at''), iso_to_epoch (py_get g ''expires_at''),
               sdk_now E now) of
             (Some made, Some start, Some stop, Some ref) \<Rightarrow>
               start \<le> made \<and> made < stop \<and> made \<le> double_near (ref + CLOCK_SKEW_SECONDS)
           | _ \<Rightarrow> False)
      | _ \<Rightarrow> False)"

section \<open>The chain that is proved\<close>

definition holder_chain :: "env \<Rightarrow> pydict \<Rightarrow> pydict \<Rightarrow> pydict \<Rightarrow> pyval \<Rightarrow> pyval \<Rightarrow> now_arg \<Rightarrow> pyval list option \<Rightarrow> bool" where
  "holder_chain E c b pr nonce ctx now anchors \<longleftrightarrow>
     pack_signed (live E) c \<and> (\<forall>ks. anchors = Some ks \<longrightarrow> key_anchored c ks) \<and>
     binding_signed (live E) b \<and> sdk_window E b now \<and> status_of b = PStr (lit ''active'') \<and>
     wire_text_equal (py_get b ''token_value'') (py_get c ''token_value'') \<and>
     same_hex (py_get b ''public_key_hex'') (py_get c ''public_key_hex'') \<and>
     py_get pr ''format'' = PStr HOLDER_PROOF_FORMAT \<and> signed_under (live E) HOLDER_PROOF_FIELDS pr (py_get pr ''algorithm'') \<and>
     same_hex (py_get pr ''public_key_hex'') (py_get b ''holder_public_key_hex'') \<and>
     wire_text_equal (py_get pr ''token_value'') (py_get b ''token_value'') \<and>
     nonce \<noteq> PNone \<and> wire_text_equal (py_get pr ''verifier_nonce'') nonce \<and>
     (ctx = PNone \<or> same_id (py_get pr ''context_id'') ctx)"

lemma binding_current_iff:
  "py_get b ''format'' = PStr HOLDER_BINDING_FORMAT \<and> af_authentic (verify_signed_artifact E (PDict b) now ta) \<and>
     af_fresh (verify_signed_artifact E (PDict b) now ta) = Some True \<longleftrightarrow>
   binding_signed (live E) b \<and> sdk_window E b now"
proof (cases "py_get b ''format'' = PStr HOLDER_BINDING_FORMAT")
  case True
  have w: "signed_window HOLDER_BINDING_FIELDS = Some (''issued_at'', ''expires_at'')"
    by (simp add: signed_window_def HOLDER_BINDING_FIELDS_def)
  show ?thesis
    using sdk_by_format(14) [OF True, of E now ta] fresh_in_window [OF True artifact_keys(15) w, of E now ta]
    by (auto simp: sdk_window_def binding_signed_def True)
qed (auto simp: binding_signed_def)

lemma sdk_pack_trusted:
  assumes "au_authentic (verify_authenticity E (PDict c) anchors)"
  shows "au_trusted (verify_authenticity E (PDict c) anchors) = map_option (key_anchored c) anchors"
  using assms
  by (cases anchors) (simp_all add: verify_authenticity_def Let_def key_anchored_def split: if_split_asm option.split_asm sum.split_asm)

text \<open>The proof is made no later than 60 seconds from now and no earlier than the age allows, in floats.\<close>

definition proof_in_time :: "env \<Rightarrow> pydict \<Rightarrow> now_arg \<Rightarrow> int \<Rightarrow> bool" where
  "proof_in_time E pr now max_age \<longleftrightarrow>
     (\<exists>issued ref. iso_to_epoch (py_get pr ''issued_at'') = Some issued \<and> holder_ref E now = Some ref \<and>
        issued \<le> double_near (ref + 60) \<and> double_near (ref - issued) \<le> of_int max_age)"

lemma holder_proved_iff:
  "ho_proved (verify_holder E (PDict c) (PDict b) (PDict pr) nonce ctx now max_age anchors) \<longleftrightarrow>
     holder_chain E c b pr nonce ctx now anchors \<and> proof_in_time E pr now max_age"
proof -
  let ?d = "verify_over_digest E (canonical_digest E HOLDER_PROOF_FIELDS pr) (py_get pr ''signature_hex'') (py_get pr ''public_key_hex'')
    (py_get pr ''algorithm'')"
  let ?bv = "verify_signed_artifact E (PDict b) now None" and ?av = "verify_authenticity E (PDict c) anchors"
  define fmt where "fmt \<longleftrightarrow> py_get b ''format'' = PStr HOLDER_BINDING_FORMAT"
  have "ho_proved (verify_holder E (PDict c) (PDict b) (PDict pr) nonce ctx now max_age anchors) \<longleftrightarrow>
      fmt \<and> py_get pr ''format'' = PStr HOLDER_PROOF_FORMAT \<and> fst ?d = Some True \<and>
      au_authentic ?av \<and> au_trusted ?av \<noteq> Some False \<and> af_authentic ?bv \<and> af_fresh ?bv = Some True \<and>
      wire_text_equal (py_get b ''token_value'') (py_get c ''token_value'') \<and>
      same_hex (py_get b ''public_key_hex'') (py_get c ''public_key_hex'') \<and>
      same_hex (py_get pr ''public_key_hex'') (py_get b ''holder_public_key_hex'') \<and>
      wire_text_equal (py_get pr ''token_value'') (py_get b ''token_value'') \<and> status_of b = PStr (lit ''active'') \<and>
      nonce \<noteq> PNone \<and> wire_text_equal (py_get pr ''verifier_nonce'') nonce \<and>
      (ctx = PNone \<or> same_id (py_get pr ''context_id'') ctx) \<and> proof_in_time E pr now max_age"
    by (cases ?d; cases "fst ?d")
      (auto simp: verify_holder_def Let_def fmt_def [symmetric] blank_holder_def holder_conclusion_def proof_in_time_def split: option.splits)
  moreover have "au_authentic ?av \<and> au_trusted ?av \<noteq> Some False \<longleftrightarrow> pack_signed (live E) c \<and> (\<forall>ks. anchors = Some ks \<longrightarrow> key_anchored c ks)"
    using sdk_pack_authentic [of E c anchors] sdk_pack_trusted [of E c anchors] by (cases anchors) auto
  ultimately show ?thesis
    unfolding holder_chain_def over_digest_signed [symmetric] using binding_current_iff [of b E now None] by (auto simp: fmt_def)
qed

section \<open>A grant asked about with the SDK\<close>

text \<open>
  Every question, as the docstrings of the SDK put them together: the grant's own signature and window, its
  context, the holder behind its key, that holder's issuer, the action, no revocation, the agent's proof and
  the limits.
\<close>

definition sdk_grant_usable ::
    "env \<Rightarrow> pydict \<Rightarrow> pyval \<Rightarrow> pyval \<Rightarrow> now_arg \<Rightarrow> pyval \<Rightarrow> pyval \<Rightarrow> pyval \<Rightarrow> pyval \<Rightarrow> pyval list \<Rightarrow> pyval \<Rightarrow> bool" where
  "sdk_grant_usable E g b c now action r p nonce anchors ctx \<longleftrightarrow>
     py_get g ''format'' = PStr AGENT_GRANT_FORMAT \<and> af_authentic (verify_signed_artifact E (PDict g) now None) \<and>
     af_fresh (verify_signed_artifact E (PDict g) now None) = Some True \<and> (ctx = PNone \<or> grant_in_context (PDict g) ctx) \<and>
     grant_principal_bound E (PDict g) b c now \<and> au_trusted (verify_authenticity E c (Some anchors)) = Some True \<and>
     action \<noteq> PNone \<and> grant_covers (PDict g) action \<and>
     \<not> (af_authentic (verify_signed_artifact E r now None) \<and> revocation_ends_grant r (PDict g)) \<and>
     nonce \<noteq> PNone \<and> af_authentic (verify_signed_artifact E p now None) \<and> agent_proof_proves E p (PDict g) action nonce now \<and>
     map_option fst (sdk_within_limits (PDict g) (PInt 0) PNone) = Some True"

definition close_now :: "env \<Rightarrow> now_arg \<Rightarrow> bool" where
  "close_now E now \<longleftrightarrow> shared_now now \<and>
     (case instant (clock E) now of None \<Rightarrow> True | Some t \<Rightarrow> \<bar>t - UNIX_EPOCH\<bar> < 2 ^ 32 * 1000000)"

definition whole_second :: "pydict \<Rightarrow> string \<Rightarrow> bool" where
  "whole_second d k \<longleftrightarrow>
     (case instant_at d k of None \<Rightarrow> True | Some m \<Rightarrow> m mod 1000000 = 0 \<and> \<bar>m - UNIX_EPOCH\<bar> < 2 ^ 32 * 1000000)"

lemma close_near: "close_now E now \<Longrightarrow> near_now E now"
  by (auto simp: close_now_def near_now_def near_1970_def split: option.splits)

lemma whole_secondE:
  assumes "whole_second d k" "instant_at d k = Some m"
  obtains i where "m = UNIX_EPOCH + 1000000 * i" "\<bar>i\<bar> < 2 ^ 32"
proof
  have d: "1000000 dvd m - UNIX_EPOCH" using assms by (simp add: whole_second_def UNIX_EPOCH_def dvd_eq_mod_eq_0 mod_diff_eq [symmetric])
  then show m: "m = UNIX_EPOCH + 1000000 * ((m - UNIX_EPOCH) div 1000000)" by simp
  have "\<bar>m - UNIX_EPOCH\<bar> < 2 ^ 32 * 1000000" using assms by (simp add: whole_second_def)
  then show "\<bar>(m - UNIX_EPOCH) div 1000000\<bar> < 2 ^ 32" using d by (auto elim!: dvdE simp: abs_mult)
qed

lemma proof_instants_agree:
  assumes "close_now E now" "whole_second pr ''issued_at''" "near_instants E g now"
  shows "(case (iso_to_epoch (py_get pr ''issued_at''), iso_to_epoch (py_get g ''issued_at''), iso_to_epoch (py_get g ''expires_at''),
               sdk_now E now) of
             (Some made, Some start, Some stop, Some ref) \<Rightarrow>
               start \<le> made \<and> made < stop \<and> made \<le> double_near (ref + CLOCK_SKEW_SECONDS)
           | _ \<Rightarrow> False) \<longleftrightarrow> proof_instants (live E) g pr now = None"
proof (cases "instant_at pr ''issued_at'' \<noteq> None \<and> instants E g now \<noteq> None")
  case True
  then obtain m t ia ea where m: "instant_at pr ''issued_at'' = Some m" and w: "instants E g now = Some (t, ia, ea)" by auto
  then have i: "instant (clock E) now = Some t" "instant_at g ''issued_at'' = Some ia" "instant_at g ''expires_at'' = Some ea"
    by (auto simp: instants_def split: option.splits)
  have n: "near_1970 t" "near_1970 ia" "near_1970 ea" using assms(3) w by (simp_all add: near_instants_def)
  obtain k where k: "m = UNIX_EPOCH + 1000000 * k" "\<bar>k\<bar> < 2 ^ 32" by (rule whole_secondE [OF assms(2) m])
  then have nm: "near_1970 m" by (simp add: near_1970_def abs_mult)
  have s: "shared_now now" "\<bar>t - UNIX_EPOCH\<bar> < 2 ^ 32 * 1000000" using assms(1) i by (simp_all add: close_now_def)
  show ?thesis
    using skew_agrees [OF k n(1) s(2)] epoch_seconds_order(2) [OF n(2) nm] epoch_seconds_order(1) [OF nm n(3)]
    by (auto simp: iso_to_epoch_instant sdk_now_instant [OF s(1)] m i proof_instants_def)
next
  case False
  have s: "shared_now now" using assms(1) by (simp add: close_now_def)
  show ?thesis
    using False by (auto simp: iso_to_epoch_instant sdk_now_instant [OF s] proof_instants_def instants_def split: option.splits)
qed

lemma all_finite_iff: "first_not_finite vs = Some None \<longleftrightarrow> (\<forall>v\<in>set (map snd vs). present_finite v = Some True)"
  by (induction vs rule: first_not_finite.induct) (auto split: option.splits bool.splits)

lemma limits_read:
  assumes "(case py_get g ''limits'' of PNone \<Rightarrow> Some [] | PDict l \<Rightarrow> Some l | _ \<Rightarrow> None) = Some l"
  shows "map_option fst (sdk_within_limits (PDict g) uses amount) = Some True \<longleftrightarrow>
    filter (\<lambda>k. k \<noteq> lit ''max_uses'' \<and> k \<noteq> lit ''max_amount'') (map fst l) = [] \<and>
    first_not_finite [(MaxUsesNotFinite, py_get l ''max_uses''), (UsesNotFinite, uses), (MaxAmountNotFinite, py_get l ''max_amount''),
      (AmountNotFinite, amount)] = Some None \<and> sdk_uses (py_get l ''max_uses'') uses = Some None \<and>
    \<not> (py_get l ''max_amount'' \<noteq> PNone \<and> amount \<noteq> PNone \<and> to_float (py_get l ''max_amount'') < to_float amount)"
  unfolding sdk_within_limits_def pyval.case assms option.case Let_def
  by (simp only: if_distrib [of "map_option fst"] split: option.split if_split) (simp del: first_not_finite.simps)

lemma limits_agree:
  assumes "uses \<noteq> PNone"
  shows "map_option fst (sdk_within_limits (PDict g) uses amount) = Some True \<longleftrightarrow>
    map_option fst (grant_within_limits (PDict g) uses amount) = Some True"
proof -
  define limits where "limits = (case py_get g ''limits'' of PNone \<Rightarrow> Some [] | PDict l \<Rightarrow> Some l | _ \<Rightarrow> None)"
  have p: "present_finite v = Some True \<longleftrightarrow> v = PNone \<or> finite_num v = Some True" for v by (simp add: present_finite_def)
  show ?thesis
  proof (cases limits)
    case None
    then show ?thesis by (simp add: sdk_within_limits_def grant_within_limits_def limits_def)
  next
    case (Some l)
    let ?u = "py_get l ''max_uses''" and ?a = "py_get l ''max_amount''"
    let ?known = "filter (\<lambda>k. k \<noteq> lit ''max_uses'' \<and> k \<noteq> lit ''max_amount'') (map fst l) = []"
    have s: "map_option fst (sdk_within_limits (PDict g) uses amount) = Some True \<longleftrightarrow> ?known \<and>
        (?u = PNone \<or> finite_num ?u = Some True) \<and> finite_num uses = Some True \<and> (?a = PNone \<or> finite_num ?a = Some True) \<and>
        (amount = PNone \<or> finite_num amount = Some True) \<and> sdk_uses ?u uses = Some None \<and>
        \<not> (?a \<noteq> PNone \<and> amount \<noteq> PNone \<and> to_float ?a < to_float amount)"
      unfolding limits_read [OF Some [unfolded limits_def]] all_finite_iff using assms by (auto simp: p)
    have c: "map_option fst (grant_within_limits (PDict g) uses amount) = Some True \<longleftrightarrow> ?known \<and>
        finite_num uses = Some True \<and> (amount = PNone \<or> finite_num amount = Some True) \<and> check_uses ?u uses = Some None \<and>
        check_amount ?a amount = Some None"
      using Some
      by (auto simp: grant_within_limits_def limits_def [symmetric] Let_def p [symmetric] split: option.splits bool.splits if_splits)
    have "check_amount ?a amount = Some None \<longleftrightarrow> (?a = PNone \<or> finite_num ?a = Some True) \<and>
        \<not> (?a \<noteq> PNone \<and> amount \<noteq> PNone \<and> to_float ?a < to_float amount)"
      by (auto simp: check_amount_def p [symmetric] split: option.splits bool.splits)
    moreover have "check_uses ?u uses = Some None \<longleftrightarrow> (?u = PNone \<or> finite_num ?u = Some True) \<and> sdk_uses ?u uses = Some None"
      using assms by (auto simp: check_uses_def sdk_uses_def split: option.splits bool.splits if_splits)
    ultimately show ?thesis unfolding s c by blast
  qed
qed

lemma principal_agrees:
  assumes "near_now E now" "near_instants E b now"
  shows "grant_principal_bound E (PDict g) (PDict b) (PDict c) now \<longleftrightarrow> holder_bound (live E) g (PDict b) (PDict c) now"
  unfolding grant_principal_bound_def holder_bound_def
  using binding_current_iff [of b E now None] sdk_pack_authentic [of E c None] sdk_window_iff [OF assms]
  by (auto simp: Let_def)

lemma agent_algorithm_own:
  assumes "py_eq x y"
  shows "fst (signed_by E names d key y) = Some True \<longleftrightarrow> fst (signed_by E names d key x) = Some True"
proof -
  have n: "fst (signed_by E names d key v) \<noteq> Some True" if "\<not> accepted_alg v" for v
    using that by (auto simp: signed_by_def split: option.splits)
  have "x = y" if "accepted_alg x \<or> accepted_alg y"
    using that assms accepted_algD(2) [of x] accepted_algD(2) [of y] by (cases x; cases y) (auto simp: num_value_def split: pyfloat.splits)
  then show ?thesis using n by blast
qed

lemma agent_agrees:
  assumes "close_now E now" "whole_second pr ''issued_at''" "near_instants E g now" "nonce \<noteq> PNone" "action \<noteq> PNone"
  shows "af_authentic (verify_signed_artifact E (PDict pr) now None) \<and> agent_proof_proves E (PDict pr) (PDict g) action nonce now \<longleftrightarrow>
    text_envelope pr \<and> agent_acts (live E) g (PDict pr) nonce action now"
proof (cases "py_get pr ''format'' = PStr AGENT_PROOF_FORMAT \<and> text_envelope pr")
  case True
  let ?alg = "if py_true (py_get g ''agent_algorithm'') then py_get g ''agent_algorithm'' else py_get pr ''algorithm''"
  have s: "af_authentic (verify_signed_artifact E (PDict pr) now None) \<longleftrightarrow>
      fst (signed_by (live E) AGENT_PROOF_FIELDS pr (py_get pr ''public_key_hex'') (py_get pr ''algorithm'')) = Some True"
    using sdk_by_format(18) [of pr E now None] signed_by_iff [of pr "live E" AGENT_PROOF_FIELDS] True by simp
  have "fst (signed_by (live E) AGENT_PROOF_FIELDS pr (py_get pr ''public_key_hex'') ?alg) = Some True \<longleftrightarrow>
      fst (signed_by (live E) AGENT_PROOF_FIELDS pr (py_get pr ''public_key_hex'') (py_get pr ''algorithm'')) = Some True"
    if "py_get g ''agent_algorithm'' = PNone \<or> py_eq (py_get pr ''algorithm'') (py_get g ''agent_algorithm'')"
    using that agent_algorithm_own by (auto simp: py_true_def)
  then show ?thesis
    using True assms(4,5) proof_instants_agree [OF assms(1-3)] unfolding agent_proof_proves_def agent_acts_def s
    by (simp only: pyval.case prod.case) blast
next
  case False
  have "af_authentic (verify_signed_artifact E (PDict pr) now None) \<Longrightarrow> py_get pr ''format'' = PStr AGENT_PROOF_FORMAT \<Longrightarrow> text_envelope pr"
    using sdk_by_format(18) [of pr E now None] signed_is_text by blast
  then show ?thesis using False by (auto simp: agent_proof_proves_def agent_acts_def)
qed

lemma revocation_agrees:
  assumes "\<And>d. r = PDict d \<Longrightarrow> text_envelope d"
  shows "af_authentic (verify_signed_artifact E r now None) \<and> revocation_ends_grant r (PDict g) \<longleftrightarrow> holder_revoked (live E) g r"
proof (cases r)
  case (PDict d)
  then show ?thesis
    using sdk_by_format(17) [of d E now None] signed_by_iff [of d "live E" GRANT_REVOCATION_FIELDS] assms [OF PDict]
    by (auto simp: revocation_ends_grant_def holder_revoked_def)
qed (simp_all add: revocation_ends_grant_def holder_revoked_def)

lemma grant_current_iff:
  assumes "near_now E now" "near_instants E g now"
  shows "py_get g ''format'' = PStr AGENT_GRANT_FORMAT \<and> af_authentic (verify_signed_artifact E (PDict g) now None) \<and>
     af_fresh (verify_signed_artifact E (PDict g) now None) = Some True \<longleftrightarrow> text_envelope g \<and> grant_signed (live E) g \<and> in_window E g now"
proof (cases "py_get g ''format'' = PStr AGENT_GRANT_FORMAT")
  case True
  have w: "signed_window AGENT_GRANT_FIELDS = Some (''issued_at'', ''expires_at'')"
    by (simp add: signed_window_def AGENT_GRANT_FIELDS_def)
  have "af_authentic (verify_signed_artifact E (PDict g) now None) \<longleftrightarrow> text_envelope g \<and> grant_signed (live E) g"
    using sdk_by_format(16) [OF True, of E now None] signed_by_iff [of g "live E" AGENT_GRANT_FIELDS] signed_is_text True
    by (auto simp: grant_signed_def)
  then show ?thesis
    using fresh_in_window [OF True artifact_keys(17) w, of E now None] sdk_window_iff [OF assms] True by (auto simp: sdk_window_def)
qed (auto simp: grant_signed_def)

lemma grant_agrees:
  assumes "close_now E now" "near_instants E g now" "near_instants E b now" "whole_second p ''issued_at''"
    and "\<And>d. r = PDict d \<Longrightarrow> text_envelope d"
  shows "sdk_grant_usable E g (PDict b) (PDict c) now action r (PDict p) nonce anchors ctx \<longleftrightarrow>
    text_envelope g \<and> text_envelope p \<and>
    map_option gv_usable (verify_agent_grant (live E) (PDict g) (PDict b) (PDict c) now action r (PDict p) nonce (Some anchors) PNone ctx
      signature_only) = Some True"
proof -
  note n = close_near [OF assms(1)]
  have t: "au_trusted (verify_authenticity E (PDict c) (Some anchors)) = Some True \<longleftrightarrow> key_anchored c anchors"
    if "grant_principal_bound E (PDict g) (PDict b) (PDict c) now"
    using sdk_pack_trusted [of E c "Some anchors"] that sdk_pack_authentic [of E c] by (auto simp: grant_principal_bound_def Let_def)
  have c: "grant_covers (PDict g) action \<longleftrightarrow> in_scope g action" by (simp add: grant_covers_def in_scope_def)
  have x: "grant_in_context (PDict g) ctx \<longleftrightarrow> same_id (py_get g ''context_id'') ctx" by (simp add: grant_in_context_def)
  have l: "map_option fst (sdk_within_limits (PDict g) (PInt 0) PNone) = Some True \<longleftrightarrow>
      map_option fst (grant_within_limits (PDict g) (PInt 0) PNone) = Some True" by (rule limits_agree) simp
  have v: "in_window (live E) g now \<longleftrightarrow> in_window E g now" by simp
  show ?thesis
    unfolding usable_iff sdk_grant_usable_def l c x v option.case as_dict_PDict
    using t principal_agrees [OF n assms(3), of g c] grant_current_iff [OF n assms(2)] revocation_agrees [OF assms(5)]
      agent_agrees [OF assms(1,4,2), of nonce action] by blast
qed

section \<open>Agreement\<close>

text \<open>
  C30. The SDK proves a holder exactly when the chain holds: the issuer, anchored when anchors are given,
  signed the credential and a current active binding of the holder's key to it, and that key signed a proof
  naming this credential, the caller's nonce and the context asked about, made inside the age allowed.
\<close>

theorem sdk_holder_proved_exactly:
  "ho_proved (verify_holder E (PDict c) (PDict b) (PDict pr) nonce ctx now max_age anchors) \<longleftrightarrow>
     holder_chain E c b pr nonce ctx now anchors \<and> proof_in_time E pr now max_age"
  by (rule holder_proved_iff)

text \<open>
  C31. A service that asks the SDK every question about an agent grant gets the detached verifier's
  decision: where the instants lie within \<open>2 ^ 32\<close> seconds of 1970 and the proof is dated to a whole second, all
  answers are yes exactly when \<open>verify_agent_grant\<close>, outside development mode and without a scope, finds the
  grant usable and the envelopes of grant and proof are text.
\<close>

theorem sdk_grant_decided_alike:
  assumes "close_now E now" "near_instants E g now" "near_instants E b now" "whole_second p ''issued_at''"
    and "\<And>d. r = PDict d \<Longrightarrow> text_envelope d"
  shows "sdk_grant_usable E g (PDict b) (PDict c) now action r (PDict p) nonce anchors ctx \<longleftrightarrow>
    text_envelope g \<and> text_envelope p \<and>
    map_option gv_usable (verify_agent_grant (live E) (PDict g) (PDict b) (PDict c) now action r (PDict p) nonce (Some anchors) PNone ctx
      signature_only) = Some True"
  by (rule grant_agrees [OF assms])

definition sample_window :: pydict where
  "sample_window = [(lit ''issued_at'', PStr (iso_text 2026 10 21 12 0 0)), (lit ''expires_at'', PStr (iso_text 2026 10 22 12 0 0))]"

definition sample_grant :: pydict where
  "sample_grant = ([(lit ''format'', PStr AGENT_GRANT_FORMAT), (lit ''grant_id'', PStr (lit ''g'')),
     (lit ''agent_public_key_hex'', sample_key), (lit ''actions'', PList [PStr (lit ''read'')])] @ sample_window) @ sample_envelope"

definition sample_binding :: pydict where
  "sample_binding = ([(lit ''format'', PStr HOLDER_BINDING_FORMAT), (lit ''token_value'', PStr (lit ''t'')),
     (lit ''holder_public_key_hex'', sample_key)] @ sample_window) @ sample_envelope"

definition sample_credential :: pydict where
  "sample_credential = [(lit ''token_value'', PStr (lit ''t''))] @ sample_envelope"

definition sample_agent_proof :: pydict where
  "sample_agent_proof = [(lit ''format'', PStr AGENT_PROOF_FORMAT), (lit ''grant_id'', PStr (lit ''g'')), (lit ''action'', PStr (lit ''read'')),
     (lit ''service_nonce'', PStr (lit ''n'')), (lit ''issued_at'', PStr (iso_text 2026 10 21 12 0 0))] @ sample_envelope"

abbreviation sample_now :: now_arg where
  "sample_now \<equiv> NowText (iso_text 2026 10 21 12 0 0)"

lemma sample_instant:
  "strict_instant (iso_text 2026 10 21 12 0 0) = Some (the (make_instant 2026 10 21 12 0 0 0 0))"
  "strict_instant (iso_text 2026 10 22 12 0 0) = Some (the (make_instant 2026 10 22 12 0 0 0 0))"
proof -
  have "strict_instant (iso_text 2026 10 21 12 0 0) = make_instant 2026 10 21 12 0 0 0 0"
      "strict_instant (iso_text 2026 10 22 12 0 0) = make_instant 2026 10 22 12 0 0 0 0"
    by (rule strict_instant_iso_text; simp add: valid_date_def days_in_month_def leap_year_def)+
  then show "strict_instant (iso_text 2026 10 21 12 0 0) = Some (the (make_instant 2026 10 21 12 0 0 0 0))"
    "strict_instant (iso_text 2026 10 22 12 0 0) = Some (the (make_instant 2026 10 22 12 0 0 0 0))"
    by (simp_all add: make_instant_def valid_date_def days_in_month_def leap_year_def)
qed

lemma sample_times:
  defines "a \<equiv> the (make_instant 2026 10 21 12 0 0 0 0)" and "z \<equiv> the (make_instant 2026 10 22 12 0 0 0 0)"
  shows "a < z" "a mod 1000000 = 0" "\<bar>a - UNIX_EPOCH\<bar> < 2 ^ 32 * 1000000" "near_1970 a" "near_1970 z"
proof -
  have "days_before_month y m \<le> 31 * m" for y m
    by (induction m) (auto simp: days_in_month_def)
  note days = this [of 2026 10]
  show "a < z" "\<bar>a - UNIX_EPOCH\<bar> < 2 ^ 32 * 1000000" "near_1970 a" "near_1970 z"
    using days by (simp_all add: a_def z_def make_instant_def valid_date_def days_in_month_def leap_year_def near_1970_def UNIX_EPOCH_def
      days_before_year_def)
  show "a mod 1000000 = 0"
    by (simp add: a_def make_instant_def valid_date_def days_in_month_def leap_year_def)
qed

lemma instant_at_text: "py_get d k = PStr s \<Longrightarrow> instant_at d k = strict_instant s"
  by (auto simp: instant_at_def py_get_def split: option.splits)

lemma sample_dated:
  assumes "py_get d ''issued_at'' = PStr (iso_text 2026 10 21 12 0 0)" "py_get d ''expires_at'' = PStr (iso_text 2026 10 22 12 0 0)"
  shows "in_window trusting_env d sample_now" "near_instants trusting_env d sample_now"
proof -
  have i: "instants trusting_env d sample_now = Some (the (make_instant 2026 10 21 12 0 0 0 0), the (make_instant 2026 10 21 12 0 0 0 0),
      the (make_instant 2026 10 22 12 0 0 0 0))"
    by (simp add: instants_def instant_at_text [OF assms(1)] instant_at_text [OF assms(2)] instant_def sample_instant)
  show "in_window trusting_env d sample_now" "near_instants trusting_env d sample_now"
    unfolding in_window_def near_instants_def i using sample_times by simp_all
qed

lemma sample_texts:
  "py_get sample_grant ''format'' = PStr AGENT_GRANT_FORMAT" "py_get sample_grant ''grant_id'' = PStr (lit ''g'')"
  "py_get sample_grant ''agent_public_key_hex'' = sample_key" "py_get sample_grant ''actions'' = PList [PStr (lit ''read'')]"
  "py_get sample_grant ''limits'' = PNone" "py_get sample_grant ''agent_algorithm'' = PNone"
  "py_get sample_grant ''issued_at'' = PStr (iso_text 2026 10 21 12 0 0)" "py_get sample_grant ''expires_at'' = PStr (iso_text 2026 10 22 12 0 0)"
  "py_get sample_binding ''format'' = PStr HOLDER_BINDING_FORMAT" "py_get sample_binding ''token_value'' = PStr (lit ''t'')"
  "py_get sample_binding ''holder_public_key_hex'' = sample_key" "py_get sample_binding ''status'' = PNone"
  "py_get sample_binding ''issued_at'' = PStr (iso_text 2026 10 21 12 0 0)" "py_get sample_binding ''expires_at'' = PStr (iso_text 2026 10 22 12 0 0)"
  "py_get sample_credential ''token_value'' = PStr (lit ''t'')"
  "py_get sample_agent_proof ''format'' = PStr AGENT_PROOF_FORMAT" "py_get sample_agent_proof ''grant_id'' = PStr (lit ''g'')"
  "py_get sample_agent_proof ''action'' = PStr (lit ''read'')" "py_get sample_agent_proof ''service_nonce'' = PStr (lit ''n'')"
  "py_get sample_agent_proof ''issued_at'' = PStr (iso_text 2026 10 21 12 0 0)"
  by (simp_all only: sample_grant_def sample_binding_def sample_credential_def sample_agent_proof_def sample_window_def append.simps
      sample_envelope_def py_get_Cons py_get_Nil lit_eq_iff) simp_all

lemma sample_chain:
  "signed_statement trusting_env AGENT_GRANT_FIELDS sample_grant" "signed_statement trusting_env HOLDER_BINDING_FIELDS sample_binding"
  "signed_statement trusting_env AGENT_PROOF_FIELDS sample_agent_proof" "pack_signed trusting_env sample_credential"
  "py_get sample_grant ''public_key_hex'' = sample_key" "py_get sample_binding ''public_key_hex'' = sample_key"
  "py_get sample_agent_proof ''public_key_hex'' = sample_key" "py_get sample_credential ''public_key_hex'' = sample_key"
proof -
  show "signed_statement trusting_env AGENT_GRANT_FIELDS sample_grant"
    by (rule sample_signed [OF sample_grant_def]) (use sample_key(1) in \<open>auto simp: lit_eq_iff sample_window_def\<close>)
  show "signed_statement trusting_env HOLDER_BINDING_FIELDS sample_binding"
    by (rule sample_signed [OF sample_binding_def]) (use sample_key(1) in \<open>auto simp: lit_eq_iff sample_window_def\<close>)
  show "signed_statement trusting_env AGENT_PROOF_FIELDS sample_agent_proof"
    by (rule sample_signed [OF sample_agent_proof_def]) (auto simp: lit_eq_iff)
  show "py_get sample_grant ''public_key_hex'' = sample_key"
    by (rule sample_envelope_fields [OF sample_grant_def]) (auto simp: lit_eq_iff sample_window_def)
  show "py_get sample_binding ''public_key_hex'' = sample_key"
    by (rule sample_envelope_fields [OF sample_binding_def]) (auto simp: lit_eq_iff sample_window_def)
  show "py_get sample_agent_proof ''public_key_hex'' = sample_key"
    by (rule sample_envelope_fields [OF sample_agent_proof_def]) (auto simp: lit_eq_iff)
  show k: "py_get sample_credential ''public_key_hex'' = sample_key"
    by (rule sample_envelope_fields [OF sample_credential_def]) (auto simp: lit_eq_iff)
  have f: "py_get sample_credential ''algorithm'' = PStr (lit ''ML-DSA-65'')"
      "py_get sample_credential ''signature_hex'' = PStr (hex_of (replicate 3309 2))"
    by (rule sample_envelope_fields [OF sample_credential_def]; auto simp: lit_eq_iff)+
  have "utf8_encode (lit ''t'') = Some (map byte (lit ''t''))" by (rule utf8_encode_ascii) (simp add: ascii_def lit_def)
  then have "token_value_serial_problem (PStr (lit ''t'')) = None"
    by (simp add: token_value_serial_problem_def TOKEN_VALUE_MAX_BYTES_def lit_def)
  then show "pack_signed trusting_env sample_credential"
    using sample_signature_holds [OF f(1) k [unfolded sample_key_def] f(2)] by (simp add: pack_signed_def sample_texts)
qed

lemma sample_grant_usable:
  "map_option gv_usable (verify_agent_grant trusting_env (PDict sample_grant) (PDict sample_binding) (PDict sample_credential) sample_now
     (PStr (lit ''read'')) PNone (PDict sample_agent_proof) (PStr (lit ''n'')) (Some [sample_key]) PNone PNone False) = Some True"
proof -
  note s = sample_chain signed_is_text [OF sample_chain(1)] signed_is_text [OF sample_chain(3)]
  have g: "grant_signed trusting_env sample_grant"
    using s signed_by_iff [of sample_grant trusting_env AGENT_GRANT_FIELDS] by (simp add: grant_signed_def sample_texts wire_text_def)
  have b: "holder_bound trusting_env sample_grant (PDict sample_binding) (PDict sample_credential) sample_now"
    using s sample_key sample_dated(1) [of sample_binding]
    by (simp add: holder_bound_def binding_signed_def sample_texts status_of_def wire_text_equal_def wire_text_def)
  have "proof_instants trusting_env sample_grant sample_agent_proof sample_now = None"
    using sample_times by (simp add: proof_instants_def instant_at_text [OF sample_texts(7)] instant_at_text [OF sample_texts(8)]
        instant_at_text [OF sample_texts(20)] instant_def sample_instant)
  then have p: "agent_acts trusting_env sample_grant (PDict sample_agent_proof) (PStr (lit ''n'')) (PStr (lit ''read'')) sample_now"
    using s sample_key signed_by_iff [of sample_agent_proof trusting_env AGENT_PROOF_FIELDS]
    by (simp add: agent_acts_def sample_texts wire_text_equal_def wire_text_def py_true_def)
  have l: "map_option fst (grant_within_limits (PDict sample_grant) (PInt 0) PNone) = Some True"
    by (simp add: grant_within_limits_def sample_texts check_uses_def check_amount_def present_finite_def finite_num_def float_overflows_def ex_bool_eq)
  have k: "key_anchored sample_credential [sample_key]"
    using s sample_key(3) by (auto simp: key_anchored_def hex_in_def)
  show ?thesis
    unfolding usable_iff as_dict_PDict option.case
    using g b p l k sample_dated(1) [of sample_grant] by (simp add: sample_texts in_scope_def wire_text_def holder_revoked_def)
qed

lemma sdk_grant_decided_alike_witness:
  "sdk_grant_usable trusting_env sample_grant (PDict sample_binding) (PDict sample_credential) sample_now (PStr (lit ''read'')) PNone
     (PDict sample_agent_proof) (PStr (lit ''n'')) [sample_key] PNone"
proof (rule iffD2 [OF sdk_grant_decided_alike])
  show "close_now trusting_env sample_now"
    using sample_times by (simp add: close_now_def shared_now_def instant_def sample_instant)
  show "near_instants trusting_env sample_grant sample_now" "near_instants trusting_env sample_binding sample_now"
    by (rule sample_dated; simp add: sample_texts)+
  show "whole_second sample_agent_proof ''issued_at''"
    using sample_times by (simp add: whole_second_def instant_at_text [OF sample_texts(20)] sample_instant)
  have "live trusting_env = trusting_env" by (simp add: live_def trusting_env_def no_backend_def)
  then show "text_envelope sample_grant \<and> text_envelope sample_agent_proof \<and>
      map_option gv_usable (verify_agent_grant (live trusting_env) (PDict sample_grant) (PDict sample_binding) (PDict sample_credential)
        sample_now (PStr (lit ''read'')) PNone (PDict sample_agent_proof) (PStr (lit ''n'')) (Some [sample_key]) PNone PNone False) = Some True"
    by (simp only: sample_grant_usable signed_is_text [OF sample_chain(1)] signed_is_text [OF sample_chain(3)])
qed simp

end
