(* ===== verification/Frames.thy ===== *)
theory Frames
  imports Presentations StatusList
begin

text \<open>
  A presentation carried in QR or NFC frames (\<open>presentation_payload\<close>, \<open>encode_presentation_frames\<close>,
  \<open>decode_presentation_frames\<close>): compressed, in base64url, split into frames that name the digest of the whole.
  \<open>zlib.compress\<close>, one run of a \<open>decompressobj\<close>, \<open>json.loads\<close> and the decimal digits of Unicode are arguments.
\<close>

section \<open>Texts\<close>

definition strip_text :: "ustr \<Rightarrow> ustr" where
  "strip_text s = rev (dropWhile py_space (rev (dropWhile py_space s)))"

text \<open>\<open>s.split("/", n)\<close>.\<close>

fun split_slash :: "nat \<Rightarrow> ustr \<Rightarrow> ustr list" where
  "split_slash 0 s = [s]"
| "split_slash (Suc n) s =
     (if 47 \<in> set s then takeWhile (\<lambda>c. c \<noteq> 47) s # split_slash n (tl (dropWhile (\<lambda>c. c \<noteq> 47) s)) else [s])"

text \<open>
  \<open>int(s)\<close> of a text: white space around it, a sign, decimal digits (of any script: \<open>D\<close>), single
  underscores between them, at most 4300 digits; \<open>None\<close> is its \<open>ValueError\<close>.
\<close>

fun decimal_digits :: "(nat \<Rightarrow> nat option) \<Rightarrow> nat \<Rightarrow> ustr \<Rightarrow> nat option" where
  "decimal_digits D acc [] = Some acc"
| "decimal_digits D acc (c # cs) =
     (case D c of Some k \<Rightarrow> decimal_digits D (acc * 10 + k) cs
      | None \<Rightarrow> if c = 95 \<and> (case cs of [] \<Rightarrow> False | x # xs \<Rightarrow> D x \<noteq> None) then decimal_digits D acc cs else None)"

definition int_of_text :: "(nat \<Rightarrow> nat option) \<Rightarrow> ustr \<Rightarrow> int option" where
  "int_of_text D s =
     (let t = strip_text s; minus = (t \<noteq> [] \<and> hd t = 45); u = (if t \<noteq> [] \<and> hd t \<in> {43, 45} then tl t else t)
      in if u = [] \<or> D (hd u) = None \<or> 4300 < length (filter (\<lambda>c. D c \<noteq> None) u) then None
         else map_option (\<lambda>n. if minus then - int n else int n) (decimal_digits D 0 u))"

section \<open>Encoding\<close>

definition QR_PREFIX :: ustr where "QR_PREFIX = lit ''PLRS1''"
definition QR_FRAME_BYTES :: int where "QR_FRAME_BYTES = 1800"
definition QR_MAX_FRAMES :: nat where "QR_MAX_FRAMES = 9999"
definition QR_MAX_COMPRESSED :: nat where "QR_MAX_COMPRESSED = 512 * 1024"
definition QR_MAX_DECOMPRESSED :: nat where "QR_MAX_DECOMPRESSED = 2 * 1024 * 1024"

text \<open>\<open>json.dumps\<close> writes the floats JSON does not have; only an integer too long to write raises.\<close>

definition dumps_float :: "(pyfloat \<Rightarrow> ustr) \<Rightarrow> pyfloat \<Rightarrow> ustr" where
  "dumps_float F f =
     (case f of FNaN \<Rightarrow> lit ''NaN'' | FInf b \<Rightarrow> lit (if b then ''-Infinity'' else ''Infinity'') | _ \<Rightarrow> F f)"

fun writable :: "pyval \<Rightarrow> bool" where
  "writable (PInt n) = (length (nat_digits (nat \<bar>n\<bar>)) \<le> 4300)"
| "writable (PList xs) = list_all writable xs"
| "writable (PDict d) = list_all (\<lambda>(k, v). writable v) d"
| "writable _ = True"

definition presentation_payload :: "env \<Rightarrow> pyval \<Rightarrow> bytes option" where
  "presentation_payload E presentation =
     (let p = PDict (as_dict presentation)
      in if writable p then Some (map byte (json_raw (dumps_float (frepr E)) p)) else None)"

text \<open>\<open>[payload[i:i + chunk] for i in range(0, len(payload), chunk)]\<close>; \<open>chunk\<close> is at least 16.\<close>

function chunks_of :: "nat \<Rightarrow> ustr \<Rightarrow> ustr list" where
  "chunks_of n s = (if n = 0 \<or> s = [] then [] else take n s # chunks_of n (drop n s))"
  by pat_completeness auto
termination by (relation "measure (\<lambda>(n, s). length s)") auto

declare chunks_of.simps [simp del]

definition frame_text :: "nat \<Rightarrow> nat \<Rightarrow> ustr \<Rightarrow> ustr \<Rightarrow> ustr" where
  "frame_text tot i digest c =
     QR_PREFIX @ [47] @ nat_digits tot @ [47] @ nat_digits i @ [47] @ digest @ [47] @ c"

definition frames_of :: "env \<Rightarrow> int \<Rightarrow> ustr \<Rightarrow> ustr list" where
  "frames_of E frame_bytes payload =
     (let digest = hex_of (sha3 E (map byte payload)); head = int (length (frame_text 9999 9999 digest []));
          chunk = max 16 (frame_bytes - head);
          chunks = (if payload = [] then [[]] else chunks_of (nat chunk) payload)
      in map (\<lambda>i. frame_text (length chunks) i digest (chunks ! i)) [0..<length chunks])"

definition encode_presentation_frames :: "env \<Rightarrow> (bytes \<Rightarrow> bytes) \<Rightarrow> pyval \<Rightarrow> int \<Rightarrow> ustr list option" where
  "encode_presentation_frames E compress presentation frame_bytes =
     map_option (\<lambda>raw. frames_of E frame_bytes (b64 (compress raw))) (presentation_payload E presentation)"

section \<open>Decoding\<close>

datatype frame_note =
    FramesNotAList | TooManyFrames | FrameNotText | CompressedBound | NotAFrame | MalformedHeader | MixedTransfers | IndexOutOfRange
  | ConflictingDuplicate | NoFrames | MissingFrames "int list" | NonAsciiFrame | PayloadDigestMismatch | DecompressedBound
  | UndecodablePayload | NotThePresentationFormat

record frames_state =
  fr_parts :: "int \<rightharpoonup> ustr"
  fr_transfer :: "(int \<times> ustr) option"
  fr_size :: nat

definition no_frames :: frames_state where
  "no_frames = \<lparr>fr_parts = Map.empty, fr_transfer = None, fr_size = 0\<rparr>"

definition take_frame :: "(nat \<Rightarrow> nat option) \<Rightarrow> pyval \<Rightarrow> frames_state \<Rightarrow> frame_note + frames_state" where
  "take_frame D f s =
     (case f of PStr t \<Rightarrow>
        let size = fr_size s + length t
        in if QR_MAX_COMPRESSED * 4 div 3 + 128 * QR_MAX_FRAMES < size then Inl CompressedBound
           else
             (case split_slash 4 (strip_text t) of
                [prefix, total_text, index_text, digest, part] \<Rightarrow>
                  if prefix \<noteq> QR_PREFIX then Inl NotAFrame
                  else
                    (case (int_of_text D total_text, int_of_text D index_text) of
                       (Some t, Some i) \<Rightarrow>
                         let (tot, named) = (case fr_transfer s of None \<Rightarrow> (t, digest) | Some x \<Rightarrow> x)
                         in if t \<noteq> tot \<or> digest \<noteq> named then Inl MixedTransfers
                            else if \<not> (0 < tot \<and> tot \<le> int QR_MAX_FRAMES \<and> 0 \<le> i \<and> i < tot) then Inl IndexOutOfRange
                            else if fr_parts s i \<noteq> None \<and> fr_parts s i \<noteq> Some part then Inl ConflictingDuplicate
                            else Inr \<lparr>fr_parts = (fr_parts s)(i \<mapsto> part), fr_transfer = Some (tot, named), fr_size = size\<rparr>
                     | _ \<Rightarrow> Inl MalformedHeader)
              | _ \<Rightarrow> Inl NotAFrame)
      | _ \<Rightarrow> Inl FrameNotText)"

fun take_frames :: "(nat \<Rightarrow> nat option) \<Rightarrow> pyval list \<Rightarrow> frames_state \<Rightarrow> frame_note + frames_state" where
  "take_frames D [] s = Inr s"
| "take_frames D (f # fs) s = (case take_frame D f s of Inl why \<Rightarrow> Inl why | Inr s2 \<Rightarrow> take_frames D fs s2)"

definition decode_payload :: "env \<Rightarrow> (bytes \<Rightarrow> nat \<Rightarrow> zrun option) \<Rightarrow> (ustr \<Rightarrow> pyval option) \<Rightarrow> ustr \<Rightarrow> ustr \<Rightarrow> frame_note + pydict" where
  "decode_payload E zlib loads digest payload =
     (if QR_MAX_COMPRESSED * 4 div 3 + 4 < length payload then Inl CompressedBound
      else if \<not> ascii payload then Inl NonAsciiFrame
      else if hex_of (sha3 E (map byte payload)) \<noteq> digest then Inl PayloadDigestMismatch
      else
        (case unb64 payload of None \<Rightarrow> Inl UndecodablePayload
         | Some data \<Rightarrow>
             if QR_MAX_COMPRESSED < length data then Inl CompressedBound
             else
               (case zlib data QR_MAX_DECOMPRESSED of None \<Rightarrow> Inl UndecodablePayload
                | Some z \<Rightarrow>
                    if z_tail z \<or> \<not> z_eof z then Inl DecompressedBound
                    else
                      (case Option.bind (utf8_decode (z_out z)) loads of None \<Rightarrow> Inl UndecodablePayload
                       | Some obj \<Rightarrow>
                           (case obj of PDict d \<Rightarrow>
                              if py_get d ''format'' = PStr PRESENTATION_FORMAT then Inr d else Inl NotThePresentationFormat
                            | _ \<Rightarrow> Inl NotThePresentationFormat)))))"

definition decode_presentation_frames ::
    "env \<Rightarrow> (nat \<Rightarrow> nat option) \<Rightarrow> (bytes \<Rightarrow> nat \<Rightarrow> zrun option) \<Rightarrow> (ustr \<Rightarrow> pyval option) \<Rightarrow> pyval \<Rightarrow> frame_note + pydict" where
  "decode_presentation_frames E D zlib loads frames =
     (case frames of PList fs \<Rightarrow>
        if 2 * QR_MAX_FRAMES < length fs then Inl TooManyFrames
        else
          (case take_frames D fs no_frames of Inl why \<Rightarrow> Inl why
           | Inr s \<Rightarrow>
               (case fr_transfer s of None \<Rightarrow> Inl NoFrames
                | Some (tot, digest) \<Rightarrow>
                    let missing = filter (\<lambda>i. fr_parts s i = None) (map int [0..<nat tot])
                    in if missing \<noteq> [] then Inl (MissingFrames missing)
                       else decode_payload E zlib loads digest (concat (map (\<lambda>i. the (fr_parts s (int i))) [0..<nat tot]))))
      | _ \<Rightarrow> Inl FramesNotAList)"

section \<open>Facts\<close>

definition decimal :: "(nat \<Rightarrow> nat option) \<Rightarrow> bool" where
  "decimal D \<longleftrightarrow> (\<forall>k < 10. D (48 + k) = Some k)"

text \<open>Characters that neither end a field nor are stripped.\<close>

definition field_text :: "ustr \<Rightarrow> bool" where
  "field_text s \<longleftrightarrow> (\<forall>c \<in> set s. 45 \<le> c \<and> c \<noteq> 47 \<and> c < 128)"

lemma not_space: "45 \<le> c \<Longrightarrow> c < 128 \<Longrightarrow> \<not> py_space c"
  by (auto simp: py_space_def)

lemma digits_field: "field_text (nat_digits n)"
  using nat_digits_range by (force simp: field_text_def)

lemma hex_field: "field_text (hex_of bs)"
proof -
  have "45 \<le> c \<and> c \<noteq> 47 \<and> c < 128" if "c \<in> set (hex_of bs)" for c
  proof -
    have "hex_digit c \<noteq> None" using that hex_digits_hex_of [of bs] by (auto simp: list_all_iff)
    then show ?thesis by (auto simp: hex_digit_def split: if_splits)
  qed
  then show ?thesis by (simp add: field_text_def)
qed

lemma b64_field: "field_text (b64 raw)"
proof -
  have "45 \<le> b64_char n \<and> b64_char n \<noteq> 47 \<and> b64_char n < 128" if "n < 64" for n using that by (auto simp: b64_char_def)
  then show ?thesis using b64_chars_range [of _ raw] unfolding field_text_def b64_eq by metis
qed

lemma strip_field: "(\<And>c. c \<in> set s \<Longrightarrow> \<not> py_space c) \<Longrightarrow> strip_text s = s"
proof -
  assume s: "\<And>c. c \<in> set s \<Longrightarrow> \<not> py_space c"
  have "dropWhile py_space t = t" if "\<forall>c \<in> set t. \<not> py_space c" for t using that by (cases t) auto
  from this [of s] this [of "rev s"] show ?thesis using s by (simp add: strip_text_def)
qed

lemma split_field: "field_text a \<Longrightarrow> split_slash (Suc n) (a @ 47 # r) = a # split_slash n r"
proof -
  assume a: "field_text a"
  then have "\<forall>c \<in> set a. c \<noteq> 47" by (auto simp: field_text_def)
  then have "takeWhile (\<lambda>c. c \<noteq> 47) (a @ 47 # r) = a" "dropWhile (\<lambda>c. c \<noteq> 47) (a @ 47 # r) = 47 # r" by (auto simp: takeWhile_append dropWhile_append)
  then show ?thesis by simp
qed

lemma prefix_field: "field_text QR_PREFIX"
  by (simp add: field_text_def QR_PREFIX_def lit_def)

lemma split_frame:
  "field_text digest \<Longrightarrow> split_slash 4 (frame_text tot i digest c) = [QR_PREFIX, nat_digits tot, nat_digits i, digest, c]"
  using split_field [OF prefix_field, of 3] split_field [OF digits_field, of 2] split_field [OF digits_field, of 1] split_field [of digest 0 c]
  by (simp add: frame_text_def numeral_eq_Suc del: split_slash.simps(2))

lemma decimal_digits_append:
  "(\<And>c. c \<in> set xs \<Longrightarrow> D c \<noteq> None) \<Longrightarrow> decimal_digits D acc (xs @ ys) = decimal_digits D (foldl (\<lambda>a c. a * 10 + the (D c)) acc xs) ys"
proof (induction xs arbitrary: acc)
  case (Cons c xs)
  then obtain k where "D c = Some k" by fastforce
  then show ?case using Cons by simp
qed simp

lemma decimal_digit: "decimal D \<Longrightarrow> 48 \<le> c \<Longrightarrow> c \<le> 57 \<Longrightarrow> D c = Some (c - 48)"
proof -
  assume "decimal D" "48 \<le> c" "c \<le> 57"
  then have "c - 48 < 10 \<longrightarrow> D (48 + (c - 48)) = Some (c - 48)" unfolding decimal_def by blast
  then show ?thesis using \<open>48 \<le> c\<close> \<open>c \<le> 57\<close> by simp
qed

lemma int_of_digits:
  assumes "decimal D" "length (nat_digits n) \<le> 4300"
  shows "int_of_text D (nat_digits n) = Some (int n)"
proof -
  have d: "D c = Some (c - 48)" if "c \<in> set (nat_digits n)" for c using nat_digits_range [OF that] decimal_digit [OF assms(1)] by simp
  have s: "strip_text (nat_digits n) = nat_digits n"
    using digits_field by (intro strip_field not_space) (auto simp: field_text_def)
  have h: "hd (nat_digits n) \<in> set (nat_digits n)" using nat_digits_not_Nil by (rule hd_in_set)
  have "foldl (\<lambda>a c. a * 10 + the (D c)) 0 (nat_digits n) = foldl (\<lambda>a c. a * 10 + (c - 48)) 0 (nat_digits n)"
    by (rule foldl_cong) (simp_all add: d)
  then have "decimal_digits D 0 (nat_digits n) = Some n"
    using decimal_digits_append [of "nat_digits n" D 0 "[]"] d nat_digits_value [of n] by simp
  moreover have "\<not> 4300 < length (filter (\<lambda>c. D c \<noteq> None) (nat_digits n))"
    using length_filter_le [of "\<lambda>c. D c \<noteq> None" "nat_digits n"] assms(2) by linarith
  moreover have "hd (nat_digits n) \<noteq> 43" "hd (nat_digits n) \<noteq> 45" "D (hd (nat_digits n)) \<noteq> None" using h nat_digits_range d by fastforce+
  ultimately show ?thesis using assms(2) nat_digits_not_Nil [of n] by (simp add: int_of_text_def s Let_def)
qed

lemma four_digits: "n < 10000 \<Longrightarrow> length (nat_digits n) \<le> 4"
  by (subst nat_digits.simps, subst nat_digits.simps, subst nat_digits.simps, subst nat_digits.simps) auto

lemma concat_chunks: "0 < n \<Longrightarrow> concat (chunks_of n s) = s"
  by (induction n s rule: chunks_of.induct) (subst chunks_of.simps, auto)

lemma chunk_length: "c \<in> set (chunks_of n s) \<Longrightarrow> length c \<le> n \<and> set c \<subseteq> set s"
proof (induction n s rule: chunks_of.induct)
  case (1 n s)
  show ?case
  proof (cases "n = 0 \<or> s = []")
    case False
    then have "c = take n s \<or> c \<in> set (chunks_of n (drop n s))" using "1.prems" by (subst (asm) chunks_of.simps) auto
    then show ?thesis using "1.IH" False by (auto dest: in_set_takeD in_set_dropD)
  qed (use "1.prems" in \<open>simp add: chunks_of.simps\<close>)
qed

lemma chunks_number: "length (chunks_of n s) \<le> length s"
proof (induction n s rule: chunks_of.induct)
  case (1 n s)
  then show ?case by (subst chunks_of.simps) (cases s, auto)
qed

section \<open>One transfer\<close>

text \<open>The frames of one transfer, and the state after some of them.\<close>

definition transfer_of :: "ustr \<Rightarrow> ustr list \<Rightarrow> ustr \<Rightarrow> bool" where
  "transfer_of digest chunks f \<longleftrightarrow> (\<exists>i < length chunks. f = frame_text (length chunks) i digest (chunks ! i))"

definition during :: "ustr \<Rightarrow> ustr list \<Rightarrow> frames_state \<Rightarrow> bool" where
  "during digest chunks s \<longleftrightarrow>
     (fr_transfer s = None \<or> fr_transfer s = Some (int (length chunks), digest)) \<and>
     (\<forall>i c. fr_parts s i = Some c \<longrightarrow> 0 \<le> i \<and> i < int (length chunks) \<and> c = chunks ! nat i)"

lemma during_part: "during digest chunks s \<Longrightarrow> fr_parts s (int i) = Some c \<Longrightarrow> c = chunks ! i"
  unfolding during_def by (metis nat_int)

lemma strip_frame:
  assumes "field_text digest" "field_text c"
  shows "strip_text (frame_text n i digest c) = frame_text n i digest c"
proof (rule strip_field)
  fix x assume "x \<in> set (frame_text n i digest c)"
  then have "45 \<le> x \<and> x < 128"
    using assms prefix_field digits_field [of n] digits_field [of i] by (auto simp: frame_text_def field_text_def)
  then show "\<not> py_space x" using not_space by blast
qed

lemma take_frame_of:
  assumes "decimal D" "field_text digest" "\<forall>c \<in> set chunks. field_text c" "length chunks \<le> QR_MAX_FRAMES" "i < length chunks"
    and "during digest chunks s" "fr_size s + length (frame_text (length chunks) i digest (chunks ! i)) \<le> QR_MAX_COMPRESSED * 4 div 3 + 128 * QR_MAX_FRAMES"
  shows "take_frame D (PStr (frame_text (length chunks) i digest (chunks ! i))) s =
    Inr \<lparr>fr_parts = (fr_parts s)(int i \<mapsto> chunks ! i), fr_transfer = Some (int (length chunks), digest),
      fr_size = fr_size s + length (frame_text (length chunks) i digest (chunks ! i))\<rparr>"
proof -
  have n: "length chunks < 10000" "i < 10000" using assms(4,5) by (simp_all add: QR_MAX_FRAMES_def)
  have t: "int_of_text D (nat_digits (length chunks)) = Some (int (length chunks))" "int_of_text D (nat_digits i) = Some (int i)"
    using four_digits [OF n(1)] four_digits [OF n(2)] by (simp_all add: int_of_digits [OF assms(1)])
  have c: "field_text (chunks ! i)" using assms(3,5) by simp
  have ne: "chunks \<noteq> []" using assms(5) by auto
  have p: "fr_parts s (int i) = None \<or> fr_parts s (int i) = Some (chunks ! i)"
    using during_part [OF assms(6), of i] by (cases "fr_parts s (int i)") auto
  have x: "(case fr_transfer s of None \<Rightarrow> (int (length chunks), digest) | Some x \<Rightarrow> x) = (int (length chunks), digest)"
    using assms(6) by (auto simp: during_def)
  show ?thesis
    using assms(4,5,7) p ne by (simp add: take_frame_def strip_frame [OF assms(2) c] split_frame [OF assms(2)] t x Let_def)
qed

lemma take_frames_of:
  assumes "decimal D" "field_text digest" "\<forall>c \<in> set chunks. field_text c" "length chunks \<le> QR_MAX_FRAMES"
    and "\<forall>f \<in> set ts. transfer_of digest chunks f" "during digest chunks s"
    and "fr_size s + sum_list (map length ts) \<le> QR_MAX_COMPRESSED * 4 div 3 + 128 * QR_MAX_FRAMES"
  shows "\<exists>s'. take_frames D (map PStr ts) s = Inr s' \<and> during digest chunks s' \<and>
    (ts \<noteq> [] \<or> fr_transfer s \<noteq> None \<longrightarrow> fr_transfer s' = Some (int (length chunks), digest)) \<and>
    (\<forall>i. fr_parts s i \<noteq> None \<longrightarrow> fr_parts s' i \<noteq> None) \<and>
    (\<forall>i < length chunks. frame_text (length chunks) i digest (chunks ! i) \<in> set ts \<longrightarrow> fr_parts s' (int i) \<noteq> None)"
  using assms(5-7)
proof (induction ts arbitrary: s)
  case Nil
  then show ?case by (auto simp: during_def)
next
  case (Cons f ts)
  then obtain i where i: "i < length chunks" "f = frame_text (length chunks) i digest (chunks ! i)" by (auto simp: transfer_of_def)
  define s1 where "s1 = \<lparr>fr_parts = (fr_parts s)(int i \<mapsto> chunks ! i), fr_transfer = Some (int (length chunks), digest), fr_size = fr_size s + length f\<rparr>"
  have t: "take_frame D (PStr f) s = Inr s1"
    unfolding i(2) s1_def using Cons.prems(3) i by (intro take_frame_of [OF assms(1-4) i(1) Cons.prems(2)]) simp
  have d: "during digest chunks s1" using Cons.prems(2) i(1) by (auto simp: during_def s1_def split: if_splits)
  have z: "fr_size s1 + sum_list (map length ts) \<le> QR_MAX_COMPRESSED * 4 div 3 + 128 * QR_MAX_FRAMES"
    using Cons.prems(3) by (simp add: s1_def)
  obtain s' where s': "take_frames D (map PStr ts) s1 = Inr s'" "during digest chunks s'" "fr_transfer s' = Some (int (length chunks), digest)"
      "\<forall>i. fr_parts s1 i \<noteq> None \<longrightarrow> fr_parts s' i \<noteq> None"
      "\<forall>i < length chunks. frame_text (length chunks) i digest (chunks ! i) \<in> set ts \<longrightarrow> fr_parts s' (int i) \<noteq> None"
    using Cons.IH [OF _ d z] Cons.prems(1) by (auto simp: s1_def)
  have old: "fr_parts s' j \<noteq> None" if "fr_parts s j \<noteq> None \<or> j = int i" for j
  proof -
    have "fr_parts s1 j \<noteq> None" using that by (auto simp: s1_def)
    then show ?thesis using s'(4) by blast
  qed
  have same: "fr_parts s' (int j) \<noteq> None" if "j < length chunks" "frame_text (length chunks) j digest (chunks ! j) = f" for j
  proof -
    have "split_slash 4 (frame_text (length chunks) j digest (chunks ! j)) = split_slash 4 (frame_text (length chunks) i digest (chunks ! i))"
      using that(2) i(2) by simp
    then have "j = i" unfolding split_frame [OF assms(2)] using nat_digits_inject by simp
    then show ?thesis using old by simp
  qed
  show ?case using s' t old same by (intro exI [of _ s']) auto
qed

lemma parts_joined:
  assumes "during digest chunks s" "\<forall>i < length chunks. fr_parts s (int i) \<noteq> None"
  shows "filter (\<lambda>i. fr_parts s i = None) (map int [0..<length chunks]) = []"
    "concat (map (\<lambda>i. the (fr_parts s (int i))) [0..<length chunks]) = concat chunks"
proof -
  have p: "fr_parts s (int i) = Some (chunks ! i)" if "i < length chunks" for i
    using assms(2) that during_part [OF assms(1), of i] by (cases "fr_parts s (int i)") auto
  then show "filter (\<lambda>i. fr_parts s i = None) (map int [0..<length chunks]) = []" by (auto simp: filter_empty_conv)
  have "map (\<lambda>i. the (fr_parts s (int i))) [0..<length chunks] = map ((!) chunks) [0..<length chunks]" using p by simp
  then show "concat (map (\<lambda>i. the (fr_parts s (int i))) [0..<length chunks]) = concat chunks" by (simp only: map_nth)
qed

section \<open>Round trip\<close>

lemma b64_length: "3 * length (b64 raw) \<le> 4 * length raw + 2"
proof -
  have "3 * length (b64_chars raw) \<le> 4 * length raw + 2" by (induction raw rule: b64_chars.induct) auto
  then show ?thesis by (simp add: b64_eq)
qed

definition payload_chunks :: "env \<Rightarrow> int \<Rightarrow> ustr \<Rightarrow> ustr list" where
  "payload_chunks E frame_bytes payload =
     (if payload = [] then [[]]
      else chunks_of (nat (max 16 (frame_bytes - int (length (frame_text 9999 9999 (hex_of (sha3 E (map byte payload))) []))))) payload)"

lemma frames_of_eq:
  "frames_of E frame_bytes payload =
     map (\<lambda>i. frame_text (length (payload_chunks E frame_bytes payload)) i (hex_of (sha3 E (map byte payload)))
       (payload_chunks E frame_bytes payload ! i)) [0..<length (payload_chunks E frame_bytes payload)]"
  by (simp add: frames_of_def payload_chunks_def Let_def)

lemma payload_chunks:
  "concat (payload_chunks E frame_bytes payload) = payload" "c \<in> set (payload_chunks E frame_bytes payload) \<Longrightarrow> set c \<subseteq> set payload"
  "payload_chunks E frame_bytes payload \<noteq> []" "length (payload_chunks E frame_bytes payload) \<le> length payload + 1"
proof -
  let ?n = "nat (max 16 (frame_bytes - int (length (frame_text 9999 9999 (hex_of (sha3 E (map byte payload))) []))))"
  show c: "concat (payload_chunks E frame_bytes payload) = payload" by (simp add: payload_chunks_def concat_chunks)
  show "c \<in> set (payload_chunks E frame_bytes payload) \<Longrightarrow> set c \<subseteq> set payload"
    using chunk_length [of c ?n payload] by (auto simp: payload_chunks_def split: if_splits)
  show "payload_chunks E frame_bytes payload \<noteq> []"
    using c by (cases "payload = []") (auto simp: payload_chunks_def)
  show "length (payload_chunks E frame_bytes payload) \<le> length payload + 1"
    using chunks_number [of ?n payload] by (auto simp: payload_chunks_def)
qed

text \<open>The digest the frames name and the payload they carry, where they are one whole transfer.\<close>

definition frames_carry :: "(nat \<Rightarrow> nat option) \<Rightarrow> pyval \<Rightarrow> (ustr \<times> ustr) option" where
  "frames_carry D frames =
     (case frames of PList fs \<Rightarrow>
        (case take_frames D fs no_frames of
           Inr s \<Rightarrow> map_option (\<lambda>(tot, digest). (digest, concat (map (\<lambda>i. the (fr_parts s (int i))) [0..<nat tot]))) (fr_transfer s)
         | _ \<Rightarrow> None)
      | _ \<Rightarrow> None)"

lemma frames_decode:
  assumes "set ts = set (frames_of E frame_bytes (b64 data))" "length ts \<le> 2 * QR_MAX_FRAMES"
    and "sum_list (map length ts) \<le> QR_MAX_COMPRESSED * 4 div 3 + 128 * QR_MAX_FRAMES"
    and "length (frames_of E frame_bytes (b64 data)) \<le> QR_MAX_FRAMES" "decimal D"
  shows "decode_presentation_frames E D zlib loads (PList (map PStr ts)) =
    decode_payload E zlib loads (hex_of (sha3 E (map byte (b64 data)))) (b64 data)" (is ?decoded)
    and "frames_carry D (PList (map PStr ts)) = Some (hex_of (sha3 E (map byte (b64 data))), b64 data)" (is ?carried)
proof -
  let ?c = "payload_chunks E frame_bytes (b64 data)" and ?d = "hex_of (sha3 E (map byte (b64 data)))"
  have f: "\<forall>c \<in> set ?c. field_text c" using payload_chunks(2) b64_field [of data] by (fastforce simp: field_text_def)
  have n: "length ?c \<le> QR_MAX_FRAMES" using assms(4) by (simp add: frames_of_eq)
  have t: "\<forall>g \<in> set ts. transfer_of ?d ?c g" unfolding assms(1) by (auto simp: frames_of_eq transfer_of_def)
  have e: "during ?d ?c no_frames" "fr_size no_frames = 0" by (simp_all add: during_def no_frames_def)
  obtain s where s: "take_frames D (map PStr ts) no_frames = Inr s" "during ?d ?c s" "ts \<noteq> [] \<longrightarrow> fr_transfer s = Some (int (length ?c), ?d)"
      "\<forall>i < length ?c. frame_text (length ?c) i ?d (?c ! i) \<in> set ts \<longrightarrow> fr_parts s (int i) \<noteq> None"
    using take_frames_of [OF assms(5) hex_field f n t e(1)] assms(3) e(2) by auto
  have "set ts \<noteq> {}" using payload_chunks(3) by (simp add: assms(1) frames_of_eq)
  then have tr: "fr_transfer s = Some (int (length ?c), ?d)" using s(3) by auto
  have all: "\<forall>i < length ?c. fr_parts s (int i) \<noteq> None" using s(4) unfolding assms(1) frames_of_eq by auto
  note j = parts_joined [OF s(2) all]
  show ?decoded
    using assms(2) by (simp add: decode_presentation_frames_def s(1) tr j payload_chunks(1) Let_def)
  show ?carried by (simp add: frames_carry_def s(1) tr j payload_chunks(1))
qed

lemma payload_decodes:
  assumes "length data \<le> QR_MAX_COMPRESSED" "zlib data QR_MAX_DECOMPRESSED = Some z" "\<not> z_tail z" "z_eof z"
    and "Option.bind (utf8_decode (z_out z)) loads = Some (PDict d)" "py_get d ''format'' = PStr PRESENTATION_FORMAT"
  shows "decode_payload E zlib loads (hex_of (sha3 E (map byte (b64 data)))) (b64 data) = Inr d"
proof -
  have "length (b64 data) \<le> QR_MAX_COMPRESSED * 4 div 3 + 4"
    using b64_length [of data] assms(1) by (simp add: QR_MAX_COMPRESSED_def)
  then show ?thesis using assms by (simp add: decode_payload_def ascii_b64 unb64_b64)
qed

text \<open>
  A presentation comes through its frames: whatever their order and however often some are repeated,
  within the bounds of the format, decoding the frames of one transfer gives back the presentation, if
  \<open>zlib\<close> inflates what it deflated and \<open>json.loads\<close> reads what \<open>json.dumps\<close> wrote.
\<close>

theorem frames_round_trip:
  assumes "encode_presentation_frames E compress (PDict d) frame_bytes = Some frs"
    and "set ts = set frs" "length ts \<le> 2 * QR_MAX_FRAMES" "length frs \<le> QR_MAX_FRAMES"
    and "sum_list (map length ts) \<le> QR_MAX_COMPRESSED * 4 div 3 + 128 * QR_MAX_FRAMES" "decimal D"
    and "presentation_payload E (PDict d) = Some raw" "length (compress raw) \<le> QR_MAX_COMPRESSED"
    and "zlib (compress raw) QR_MAX_DECOMPRESSED = Some z" "\<not> z_tail z" "z_eof z" "z_out z = raw"
    and "Option.bind (utf8_decode raw) loads = Some (PDict d)" "py_get d ''format'' = PStr PRESENTATION_FORMAT"
  shows "decode_presentation_frames E D zlib loads (PList (map PStr ts)) = Inr d"
proof -
  have f: "frs = frames_of E frame_bytes (b64 (compress raw))" using assms(1,7) by (simp add: encode_presentation_frames_def)
  show ?thesis
    unfolding frames_decode(1) [OF assms(2) [unfolded f] assms(3,5) assms(4) [unfolded f] assms(6)]
    using payload_decodes [of "compress raw" zlib z loads d E] assms(8-14) by simp
qed

section \<open>Frames of a length\<close>

text \<open>No frame is longer than \<open>frame_bytes\<close> where that leaves 16 characters beside the longest header; below it, one is.\<close>

lemma frames_fit:
  assumes "f \<in> set (frames_of E frame_bytes payload)" "length (frames_of E frame_bytes payload) \<le> QR_MAX_FRAMES"
    and "int (length (frame_text 9999 9999 (hex_of (sha3 E (map byte payload))) [])) + 16 \<le> frame_bytes"
  shows "int (length f) \<le> frame_bytes"
proof -
  let ?c = "payload_chunks E frame_bytes payload" and ?d = "hex_of (sha3 E (map byte payload))"
  obtain i where i: "i < length ?c" "f = frame_text (length ?c) i ?d (?c ! i)" using assms(1) by (auto simp: frames_of_eq)
  have n: "length ?c < 10000" using assms(2) by (simp add: frames_of_eq QR_MAX_FRAMES_def)
  have "nat_digits 9999 = [57, 57, 57, 57]" by (simp add: nat_digits.simps)
  then have h: "length (frame_text 9999 9999 ?d []) = length QR_PREFIX + 4 + 8 + length ?d" by (simp add: frame_text_def)
  have "length (?c ! i) \<le> nat (frame_bytes - int (length (frame_text 9999 9999 ?d [])))"
    using assms(3) i(1) chunk_length [of "?c ! i" _ payload] by (auto simp: payload_chunks_def max_def split: if_splits)
  then have "int (length (?c ! i)) \<le> frame_bytes - int (length (frame_text 9999 9999 ?d []))" using assms(3) by linarith
  moreover have "length (nat_digits (length ?c)) \<le> 4" "length (nat_digits i) \<le> 4" using four_digits n i(1) by simp_all
  ultimately show ?thesis unfolding i(2) h by (simp add: frame_text_def)
qed

section \<open>A transfer that runs\<close>

definition ascii_digit :: "nat \<Rightarrow> nat option" where
  "ascii_digit c = (if 48 \<le> c \<and> c \<le> 57 then Some (c - 48) else None)"

text \<open>A compressor that stores, and its inflater.\<close>

definition store :: "bytes \<Rightarrow> nat \<Rightarrow> zrun option" where
  "store b n = Some \<lparr>z_out = take n b, z_tail = n < length b, z_flush = Some [], z_eof = length b \<le> n\<rparr>"

definition sample_shown :: pydict where
  "sample_shown = [(lit ''format'', PStr PRESENTATION_FORMAT)]"

definition sample_payload :: bytes where
  "sample_payload = the (presentation_payload trusting_env (PDict sample_shown))"

definition sample_loads :: "ustr \<Rightarrow> pyval option" where
  "sample_loads s = (if utf8_encode s = Some sample_payload then Some (PDict sample_shown) else None)"

definition sample_frames :: "ustr list" where
  "sample_frames = frames_of trusting_env 100 (b64 sample_payload)"

lemma sample_payload:
  "presentation_payload trusting_env (PDict sample_shown) = Some sample_payload" "length sample_payload \<le> 50"
  "Option.bind (utf8_decode sample_payload) sample_loads = Some (PDict sample_shown)"
proof -
  have w: "writable (PDict sample_shown)" by (simp add: sample_shown_def)
  then show p: "presentation_payload trusting_env (PDict sample_shown) = Some sample_payload"
    by (simp add: sample_payload_def presentation_payload_def Let_def)
  let ?t = "json_raw (dumps_float (frepr trusting_env)) (PDict sample_shown)"
  have t: "?t = lit (''{'' @ [CHR 0x22] @ ''format'' @ [CHR 0x22] @ '':'' @ [CHR 0x22] @ ''polaris-presentation/1'' @ [CHR 0x22] @ ''}'')"
    by (simp add: sample_shown_def PRESENTATION_FORMAT_def json_string_def lit_def esc_unit_def utf16_units_def)
  have b: "sample_payload = map byte ?t" using w by (simp add: sample_payload_def presentation_payload_def Let_def)
  have a: "ascii ?t" unfolding t by (simp add: ascii_def lit_def)
  show "length sample_payload \<le> 50" unfolding b t by simp
  show "Option.bind (utf8_decode sample_payload) sample_loads = Some (PDict sample_shown)"
    unfolding b utf8_decode_ascii [OF a] using utf8_encode_ascii [OF a] by (simp add: sample_loads_def b del: json_raw.simps)
qed

lemma sample_digits: "decimal ascii_digit"
  by (simp add: decimal_def ascii_digit_def)

lemma sample_frames_bounds:
  "length sample_frames \<le> 69" "f \<in> set sample_frames \<Longrightarrow> length f \<le> 100"
proof -
  have l: "length (b64 sample_payload) \<le> 68" using b64_length [of sample_payload] sample_payload(2) by linarith
  show n: "length sample_frames \<le> 69"
    using payload_chunks(4) [of trusting_env 100 "b64 sample_payload"] l by (simp add: sample_frames_def frames_of_eq)
  have "length (hex_of (sha3 trusting_env b)) = 64" for b by (simp add: toy_hash_def)
  then have "int (length (frame_text 9999 9999 (hex_of (sha3 trusting_env (map byte (b64 sample_payload)))) [])) + 16 \<le> 100"
    by (simp add: frame_text_def QR_PREFIX_def nat_digits.simps)
  then have "int (length f) \<le> 100" if "f \<in> set sample_frames"
    using frames_fit [of f trusting_env 100 "b64 sample_payload"] that n by (simp add: sample_frames_def QR_MAX_FRAMES_def)
  then show "f \<in> set sample_frames \<Longrightarrow> length f \<le> 100" by simp
qed

lemma sample_shuffled_size:
  "sum_list (map length (rev sample_frames @ sample_frames)) \<le> QR_MAX_COMPRESSED * 4 div 3 + 128 * QR_MAX_FRAMES"
proof -
  have "sum_list (map length ts) \<le> 100 * length ts" if "set ts \<subseteq> set sample_frames" for ts
    using that sample_frames_bounds(2) by (induction ts) fastforce+
  from this [of "rev sample_frames @ sample_frames"] show ?thesis
    using sample_frames_bounds(1) by (simp add: QR_MAX_COMPRESSED_def QR_MAX_FRAMES_def)
qed

lemma sample_encoded: "encode_presentation_frames trusting_env (\<lambda>b. b) (PDict sample_shown) 100 = Some sample_frames"
  by (simp add: encode_presentation_frames_def sample_payload(1) sample_frames_def)

lemma sample_store: "store sample_payload QR_MAX_DECOMPRESSED = Some \<lparr>z_out = sample_payload, z_tail = False, z_flush = Some [], z_eof = True\<rparr>"
  using sample_payload(2) by (simp add: store_def QR_MAX_DECOMPRESSED_def)

lemma frames_round_trip_witness:
  "decode_presentation_frames trusting_env ascii_digit store sample_loads (PList (map PStr (rev sample_frames @ sample_frames))) = Inr sample_shown"
proof (rule frames_round_trip [OF sample_encoded])
  show "set (rev sample_frames @ sample_frames) = set sample_frames" by simp
  show "length (rev sample_frames @ sample_frames) \<le> 2 * QR_MAX_FRAMES" "length sample_frames \<le> QR_MAX_FRAMES"
    "length ((\<lambda>b. b) sample_payload) \<le> QR_MAX_COMPRESSED"
    using sample_frames_bounds(1) sample_payload(2) by (simp_all add: QR_MAX_FRAMES_def QR_MAX_COMPRESSED_def)
  show "sum_list (map length (rev sample_frames @ sample_frames)) \<le> QR_MAX_COMPRESSED * 4 div 3 + 128 * QR_MAX_FRAMES"
    by (rule sample_shuffled_size)
  show "store ((\<lambda>b. b) sample_payload) QR_MAX_DECOMPRESSED = Some \<lparr>z_out = sample_payload, z_tail = False, z_flush = Some [], z_eof = True\<rparr>"
    by (rule sample_store)
qed (use sample_payload sample_digits in \<open>simp_all add: sample_shown_def\<close>)

section \<open>A digest names one presentation\<close>

lemma decoded_carries:
  assumes "decode_presentation_frames E D zlib loads frames = Inr d"
  obtains digest payload where "frames_carry D frames = Some (digest, payload)" "decode_payload E zlib loads digest payload = Inr d"
  using assms
  by (auto simp: decode_presentation_frames_def frames_carry_def Let_def split: pyval.splits sum.splits option.splits prod.splits if_splits)

lemma payload_named: "decode_payload E zlib loads digest payload = Inr d \<Longrightarrow> ascii payload \<and> hex_of (sha3 E (map byte payload)) = digest"
  by (auto simp: decode_payload_def split: if_splits)

lemma one_digest:
  assumes "decode_presentation_frames E D zlib loads frames = Inr d" "decode_presentation_frames E D zlib loads frames' = Inr d'"
    and "frames_carry D frames = Some (digest, payload)" "frames_carry D frames' = Some (digest, payload')"
  shows "d = d' \<or> sha3_collision E (map byte payload) (map byte payload')"
proof -
  obtain x p where x: "frames_carry D frames = Some (x, p)" "decode_payload E zlib loads x p = Inr d" by (rule decoded_carries [OF assms(1)])
  obtain y q where y: "frames_carry D frames' = Some (y, q)" "decode_payload E zlib loads y q = Inr d'" by (rule decoded_carries [OF assms(2)])
  have e: "x = digest" "p = payload" "y = digest" "q = payload'" using x(1) y(1) assms(3,4) by simp_all
  note n = payload_named [OF x(2)] payload_named [OF y(2)]
  then have "sha3 E (map byte payload) = sha3 E (map byte payload')" by (metis e hex_of_inject)
  moreover have "payload = payload'" if "map byte payload = map byte payload'"
    using that n map_byte_inject e by metis
  ultimately show ?thesis using x(2) y(2) e by (auto simp: sha3_collision_def)
qed

text \<open>
  What the digest in the frames names is one presentation: two transfers that decode and name the same
  digest decode to the same presentation, or their payloads collide under SHA3-256.
\<close>

theorem frames_digest_names_one:
  assumes "decode_presentation_frames E D zlib loads frames = Inr d" "decode_presentation_frames E D zlib loads frames' = Inr d'"
    and "frames_carry D frames = Some (digest, payload)" "frames_carry D frames' = Some (digest, payload')"
  shows "d = d' \<or> sha3_collision E (map byte payload) (map byte payload')"
  by (rule one_digest [OF assms])

lemma frames_digest_names_one_witness:
  "decode_presentation_frames trusting_env ascii_digit store sample_loads (PList (map PStr (rev sample_frames @ sample_frames))) = Inr sample_shown \<and>
     decode_presentation_frames trusting_env ascii_digit store sample_loads (PList (map PStr sample_frames)) = Inr sample_shown \<and>
     (sample_shown = sample_shown \<or> sha3_collision trusting_env (map byte (b64 sample_payload)) (map byte (b64 sample_payload)))"
proof -
  let ?ts = "rev sample_frames @ sample_frames"
  have size: "sum_list (map length sample_frames) \<le> QR_MAX_COMPRESSED * 4 div 3 + 128 * QR_MAX_FRAMES"
    using sample_shuffled_size by simp
  have n: "length ?ts \<le> 2 * QR_MAX_FRAMES" "length sample_frames \<le> 2 * QR_MAX_FRAMES" "length sample_frames \<le> QR_MAX_FRAMES"
      "length sample_payload \<le> QR_MAX_COMPRESSED"
    using sample_frames_bounds(1) sample_payload(2) by (simp_all add: QR_MAX_FRAMES_def QR_MAX_COMPRESSED_def)
  have p: "decode_payload trusting_env store sample_loads (hex_of (sha3 trusting_env (map byte (b64 sample_payload)))) (b64 sample_payload) =
      Inr sample_shown"
    by (rule payload_decodes [where zlib = store and loads = sample_loads, OF n(4) sample_store])
      (use sample_payload(3) in \<open>simp_all add: sample_shown_def\<close>)
  have one: "decode_presentation_frames trusting_env ascii_digit store sample_loads (PList (map PStr ?ts)) = Inr sample_shown"
      "frames_carry ascii_digit (PList (map PStr ?ts)) = Some (hex_of (sha3 trusting_env (map byte (b64 sample_payload))), b64 sample_payload)"
    using frames_decode(1) [of ?ts trusting_env 100 sample_payload ascii_digit store sample_loads]
      frames_decode(2) [of ?ts trusting_env 100 sample_payload ascii_digit] n(1,3) sample_shuffled_size sample_digits p
    by (simp_all add: sample_frames_def [symmetric])
  have two: "decode_presentation_frames trusting_env ascii_digit store sample_loads (PList (map PStr sample_frames)) = Inr sample_shown"
      "frames_carry ascii_digit (PList (map PStr sample_frames)) = Some (hex_of (sha3 trusting_env (map byte (b64 sample_payload))), b64 sample_payload)"
    using frames_decode(1) [of sample_frames trusting_env 100 sample_payload ascii_digit store sample_loads]
      frames_decode(2) [of sample_frames trusting_env 100 sample_payload ascii_digit] n(2,3) size sample_digits p
    by (simp_all add: sample_frames_def [symmetric])
  show ?thesis using one(1) two(1) frames_digest_names_one [OF one(1) two(1) one(2) two(2)] by blast
qed

text \<open>Where \<open>frame_bytes\<close> leaves no room beside the header the chunks are still 16 characters, and the frames longer than asked.\<close>

lemma short_frames_overrun: "\<exists>f \<in> set (frames_of trusting_env 50 (b64 sample_payload)). 50 < length f"
proof -
  let ?c = "payload_chunks trusting_env 50 (b64 sample_payload)"
  have "length (hex_of (sha3 trusting_env b)) = 64" for b by (simp add: toy_hash_def)
  then have "50 < length (frame_text n i (hex_of (sha3 trusting_env b)) c)" for n i b c by (simp add: frame_text_def)
  moreover have "?c \<noteq> []" by (rule payload_chunks(3))
  then have "0 < length ?c" by simp
  ultimately show ?thesis by (auto simp: frames_of_eq)
qed

end
