(* ===== verification/Spec2Isabelle.thy ===== *)
theory Spec2Isabelle
  imports Personalization StatusList ChainAnchor Mdoc SdkHolders Frames
begin

text \<open>
  Polaris is an identity system whose credentials, statuses and logs are signed with post-quantum
  signatures and checked offline. This development models the parts that decide: the card and the
  device that reads it (\<open>src/polaris_card\<close>), the detached verifier of signed artifacts
  (\<open>src/packages/polaris-verify/polaris_verify_cli/verifier.py\<close>), the Python SDK, a second verifier of the
  same artifacts (\<open>src/sdk/python/polaris_verify/__init__.py\<close>), and the token status list
  (\<open>src/packages/polaris-oid4vp/polaris_oid4vp/status.py\<close>).

  \<^bold>\<open>How the parts meet.\<close> An authority personalizes a card: \<open>personalize\<close> builds a TLV card object,
  signs it, has the card generate its keys and puts the object on it. The card then answers APDUs; a
  verifier device sends a challenge over NFC or QR, gets back an object, a handle and a signature,
  and decides, using \<open>verify_card\<close> and a status assertion. The detached verifier is what such a
  device, a relying party or a monitor runs on everything else: the credential (an authenticity pack),
  the stapled assertion, manifests, epochs and revocation feeds, the transparency log, holder keys and
  agent grants. All of these are JSON values signed over one canonical text.

  \<^bold>\<open>Theories.\<close>
  \<^item> \<open>Prelude\<close>: bytes, strings as code points, results, big-endian integers, the locale \<open>codec\<close> (an
    encoder and a strict decoder) and the locale \<open>stepper\<close> (invariants of commands over runs).
  \<^item> \<open>Utf8\<close>, \<open>Base64\<close>: Python's codecs, interpretations of \<open>codec\<close>.
  \<^item> \<open>CardProfile\<close> (\<open>card_profile.py\<close>): the card object, its decoder, building and verifying it.
  \<^item> \<open>CardEmulator\<close> (\<open>emulator.py\<close>): the token as a state machine over APDUs, and the command builders
    and response parsers; its step is a \<open>stepper\<close>.
  \<^item> \<open>VerifierDevice\<close> (\<open>verifier_device.py\<close>): challenges, NFC and QR, the decision. What it needs of a
    card is the locale \<open>card_port\<close>, interpreted on the token.
  \<^item> \<open>Personalization\<close> (\<open>personalization.py\<close>): the flow over the two tables it uses, with the constraints of
    the one it writes; the locale
    \<open>personalizable\<close> extends \<open>card_port\<close> and is interpreted on the token.
  \<^item> \<open>PyValue\<close>, \<open>Instants\<close>, \<open>Doubles\<close>, \<open>CanonicalJson\<close>: JSON values with Python's truth, equality and
    number rules, RFC 3339 instants in microseconds, IEEE double rounding, and the signed text.
  \<^item> \<open>SignedArtifacts\<close>: algorithms, the two witnesses, windows, \<open>verify_pack\<close>,
    \<open>verify_status_assertion\<close>, \<open>verify_stapled\<close>, \<open>verify_manifest\<close>.
  \<^item> \<open>EpochFeeds\<close>: epoch checkpoints, revocation feeds, status bundles and the detectors over two.
  \<^item> \<open>MerkleLog\<close>, \<open>LogAudit\<close>: the RFC 6962 tree with its proofs, and what is decided with them: signed
    heads, consistency, cosignatures, equivocation, publication.
  \<^item> \<open>Federation\<close>: trust lists and what they say of a key at an instant, attestations between authorities,
    and the decision on another authority's credential, direct and through an aggregator's bundle.
  \<^item> \<open>Timestamps\<close>: timestamps, what they bind, and entries shown to be in a timestamp or receipt log.
  \<^item> \<open>Exchange\<close>: the registry and what is read from it, signed exchange requests, mints and receipts, and
    the pair of a request and a receipt as evidence.
  \<^item> \<open>Documents\<close>: signed documents with the evidence that keeps them valid, and login tokens.
  \<^item> \<open>Presentations\<close>: the decision on all a holder shows at once; \<open>Frames\<close>: its transfer in QR or NFC frames.
  \<^item> \<open>ChainAnchor\<close>: OpenTimestamps proofs, Bitcoin headers and the anchor of log heads in a block.
  \<^item> \<open>AgentGrants\<close>: pairwise handles, holder bindings and proofs, agent grants.
  \<^item> \<open>EpochLeaves\<close>: the published anonymity set of an epoch and a holder's place in it.
  \<^item> \<open>Cbor\<close>: the CBOR decoder against the grammar of its subset, and the structure a COSE signature is over;
    \<open>Mdoc\<close>: the decision on an ISO 18013-5 document.
  \<^item> \<open>SdkArtifacts\<close> (the SDK): its signature layer and its verifiers of credentials, assertions, artifacts
    and login tokens; \<open>SdkAgreement\<close>: they decide as the detached verifier; \<open>SdkClock\<close>: floats of seconds
    against whole microseconds; \<open>SdkFederation\<close>: attestations, the decision on another authority's
    credential and the exchange; \<open>SdkHolders\<close>: the holder key chain and the questions about a grant.
  \<^item> \<open>StatusList\<close> (\<open>status.py\<close>): the bounded parser, the decision and the bit packing.

  \<^bold>\<open>How code becomes definitions.\<close> A function of the source is a definition of its name; a private
  one loses its underscore. A verdict dictionary is a record, with a prefix to tell the fields of two
  records apart; fields that only repeat an input are left out. A note is a constructor for the place
  that writes it, its text is left out. An exception the code lets through is \<open>None\<close> or \<open>Inl\<close>. A Python
  \<open>dict\<close> off the wire is an association list with distinct keys, a \<open>bool\<close> is kept apart from \<open>int\<close>.
  Long functions are split at their comments and put together again in the order of the code. Where only
  hex or keys are compared (\<open>hex_text\<close>, \<open>same_key\<close>) \<open>str.lower\<close> is that of ASCII; an expiry given to the
  card as text has ASCII digits (\<open>int_text\<close>); \<open>now\<close> is absent, text or a \<open>datetime\<close>, not a float.

  \<^bold>\<open>Parameters.\<close> Code outside the repository is an argument: SHA3-256, the P-256 library, liboqs and
  OpenSSL with their absence and failures, \<open>zlib\<close>, \<open>json.loads\<close>, the clock and randomness. In the
  detached verifier they are the record \<open>env\<close> (and \<open>hashes\<close> for the digests a chain anchor uses), with
  \<open>float.__repr__\<close>, \<open>repr\<close> of containers and \<open>str.lower\<close> outside ASCII beside them. Nothing is assumed of a signature scheme: a theorem says which
  checks were answered with yes. Where a theorem rests on a hash, it either names the collision it
  would give, or assumes no two of the finitely many inputs it lists collide.

  \<^bold>\<open>What is shown.\<close> The card: its encoding is strict, a built card verifies exactly when its keys have the
  profile's lengths, a duress PIN cannot be observed, PIN guesses are bounded, and a credential gets one
  card, whatever other stations do. The device: it
  accepts exactly when everything holds, and a challenge proves once. The signed text determines the
  value. The detached verifier: \<open>verify_stapled\<close>, \<open>verify_presentation\<close>, \<open>verify_agent_grant\<close>,
  \<open>verify_cross_authority\<close>, \<open>verify_signed_document\<close>, \<open>verify_exchange_receipt\<close>, \<open>verify_id_token\<close>,
  \<open>check_epoch_chain\<close> and \<open>verify_witnessed_checkpoint\<close> each decide exactly what their documentation says;
  a signature does not move from one artifact to another; feeds refine registries and revocation
  is for good; a key's status only worsens and an aggregator cannot change a decision; an audited log
  only appended, an anchored checkpoint is in a block; the CBOR decoder reads exactly its grammar and an
  mdoc is authentic exactly when its signed object commits to every element as received; a document keeps its verdict, and a presented code
  changes none; the SDK and the detached verifier call the same things authentic and fresh, and decide
  alike on another authority's credential, an exchange and an agent grant; an epoch's
  anonymity set cannot be swapped around a holder; a presentation comes through its frames in any order
  and what two transfers of one digest carry is the same. And the places where
  the code does not do what it says: each is a theorem with the exact condition.

  \<^bold>\<open>Bounds and fuel.\<close> No definition has fuel: every loop is a recursion with a measure, the
  nested walk of an OpenTimestamps proof too, which reads at most 64 KiB in at most 256 operations. Lengths,
  retry counters and sizes are the source's; integers are unbounded as in Python, and the range of a
  float and \<open>2 ^ 53 - 1\<close> are written out where the code meets them. A JSON integer has at most 4300
  digits, as \<open>json.loads\<close> refuses longer ones, so \<open>str\<close> of a value is total. Adding a minute to the last
  minute of the year 9999, which \<open>datetime\<close> refuses, is not modelled.

  \<^bold>\<open>Not modelled.\<close> In \<open>verifier.py\<close>: \<open>registry_trusts\<close>, which sorts values of any type,
  verifiable credentials, the zero-knowledge bridge, and the command line with its
  probing for libraries. In the SDK: timestamp anchors, its copies of the handle functions, its bridge and
  the online client. The other packages are
  HTTP and SQL (\<open>polaris_web\<close>, \<open>polaris_cli\<close>, \<open>polaris_sql\<close>), checks over this repository's text
  (\<open>polaris_checks\<close>), simulations, Rust circuits
  (\<open>polaris_zk\<close>) with the recomputation of their statement in Python (\<open>witness2\<close>: Poseidon over a
  64-bit prime field, whose constants are taken from the prover), glue over JOSE libraries (\<open>sdjwt.py\<close>), drills and deployment.
\<close>

end
